(* ===== verification/SimD_Prelude.thy ===== *)
theory SimD_Prelude
  imports Main "HOL-Library.Word"
begin

text \<open>
  Shared vocabulary of the development: the integer types of the program and the way SystemC
  truncates them, the result type of operations that may abort, the loop over the lanes of an
  array, and the generic facts about them that the component theories use.

  SystemC's \<open>sc_uint<n>\<close> holds an \<open>n\<close>-bit unsigned value; an expression over such values is
  computed in 64 bits and truncated when it is assigned. Data words are modelled as
  \<open>32 word\<close>; control values whose width is a template parameter, and intermediate results of
  mixed signedness, are integers with the truncation written out (\<open>sc_uint\<close>, \<open>sc_int\<close>).
\<close>

unbundle bit_operations_syntax

named_theorems simd_defs \<open>definitions that the component proofs unfold\<close>

type_synonym u32 = "32 word"

subsection \<open>Truncation at assignment\<close>

definition sc_uint :: "nat \<Rightarrow> int \<Rightarrow> int" where
  "sc_uint n x = x mod 2 ^ n"

definition sc_int :: "nat \<Rightarrow> int \<Rightarrow> int" where
  "sc_int n x = (x + 2 ^ (n - 1)) mod 2 ^ n - 2 ^ (n - 1)"

lemma sc_uint_bounds [simp]: "0 \<le> sc_uint n x" "sc_uint n x < 2 ^ n"
  by (simp_all add: sc_uint_def)

lemma sc_uint_id [simp]: "0 \<le> x \<Longrightarrow> x < 2 ^ n \<Longrightarrow> sc_uint n x = x"
  by (simp add: sc_uint_def)

lemma sc_uint_idem [simp]: "sc_uint n (sc_uint n x) = sc_uint n x"
  by (simp add: sc_uint_def)

lemma sc_int_id: "- (2 ^ (n - 1)) \<le> x \<Longrightarrow> x < 2 ^ (n - 1) \<Longrightarrow> 0 < n \<Longrightarrow> sc_int n x = x"
proof -
  assume a: "- (2 ^ (n - 1)) \<le> x" "x < 2 ^ (n - 1)" "0 < n"
  have "(2::int) ^ n = 2 * 2 ^ (n - 1)"
    using a(3) by (metis power_minus_mult mult.commute)
  with a show ?thesis by (simp add: sc_int_def)
qed

subsection \<open>Operations that may abort\<close>

text \<open>
  A failed \<open>assert\<close>, an exception that nothing catches and a call of \<open>exit\<close> stop the program. Such
  an operation returns \<open>Inl\<close> of the reason, and \<open>Inr\<close> of its result otherwise. Three further reasons stand
  for what has no defined result: \<open>Invalid_Access\<close> for an access through a null or dangling pointer or past
  the end of an array, \<open>Undefined_Arith\<close> for a division or a shift the language leaves undefined,
  \<open>Not_Returning\<close> for a loop that does not end.
\<close>

datatype sim_error =
    Assert_Failed | Invalid_Argument | Out_Of_Range | Process_Exit | Invalid_Access | Undefined_Arith | Not_Returning

type_synonym 'a res = "sim_error + 'a"

definition bindE :: "'a res \<Rightarrow> ('a \<Rightarrow> 'b res) \<Rightarrow> 'b res" where
  "bindE r f = (case r of Inl e \<Rightarrow> Inl e | Inr x \<Rightarrow> f x)"

definition assertE :: "bool \<Rightarrow> 'a res \<Rightarrow> 'a res" where
  "assertE p r = (if p then r else Inl Assert_Failed)"

lemma bindE_simps [simp]: "bindE (Inl e) f = Inl e" "bindE (Inr x) f = f x"
  by (simp_all add: bindE_def)

lemma bindE_Inr_iff: "bindE r f = Inr y \<longleftrightarrow> (\<exists>x. r = Inr x \<and> f x = Inr y)"
  by (cases r) (simp_all)

lemma bindE_Inr_right: "bindE x Inr = x"
  by (cases x) auto

lemma assertE_True [simp]: "p \<Longrightarrow> assertE p r = r"
  by (simp add: assertE_def)

lemma assertE_False [simp]: "\<not> p \<Longrightarrow> assertE p r = Inl Assert_Failed"
  by (simp add: assertE_def)

lemma assertE_Inr_iff [simp]: "assertE p r = Inr y \<longleftrightarrow> p \<and> r = Inr y"
  by (simp add: assertE_def)

subsection \<open>Loops over an array\<close>

text \<open>
  \<open>for_upto n f s\<close> is the loop \<open>for (i = 0; i < n; i++) s = f(i, s)\<close>.
\<close>

definition for_upto :: "nat \<Rightarrow> (nat \<Rightarrow> 's \<Rightarrow> 's) \<Rightarrow> 's \<Rightarrow> 's" where
  "for_upto n f s = fold f [0..<n] s"

lemma for_upto_0 [simp]: "for_upto 0 f s = s"
  by (simp add: for_upto_def)

lemma for_upto_Suc [simp]: "for_upto (Suc n) f s = f n (for_upto n f s)"
  by (simp add: for_upto_def)

text \<open>The loop that stores \<open>d i\<close> at \<open>off + i\<close> wherever the mask is set, in closed form.\<close>

lemma for_upto_masked_store:
  "for_upto n (\<lambda>i a. if m i then a(off + i := d i) else a) a j =
    (if off \<le> j \<and> j < off + n \<and> m (j - off) then d (j - off) else a j)"
proof (induction n)
  case 0
  then show ?case by auto
next
  case (Suc n)
  then show ?case by (cases "j = off + n") (auto simp: less_Suc_eq)
qed

lemma for_upto_store:
  "for_upto n (\<lambda>i a. a(off + i := d i)) a j =
    (if off \<le> j \<and> j < off + n then d (j - off) else a j)"
  using for_upto_masked_store[of n "\<lambda>_. True" off d a j] by simp

lemma for_upto_flag:
  "for_upto n (\<lambda>j c. if \<not> P j then c else if Q j then c(i := True) else c) c =
    (if \<exists>j<n. P j \<and> Q j then c(i := True) else c)"
  by (induction n) (auto simp: less_Suc_eq)

lemma for_upto_flags:
  "for_upto n (\<lambda>i c. if P i then c else if Q i then c(i := True) else c) (\<lambda>_. False) i \<longleftrightarrow>
    i < n \<and> \<not> P i \<and> Q i"
  by (induction n) (auto simp: less_Suc_eq)

text \<open>The same loop with a body that may abort.\<close>

primrec for_uptoE :: "nat \<Rightarrow> (nat \<Rightarrow> 's \<Rightarrow> 's res) \<Rightarrow> 's \<Rightarrow> 's res" where
  "for_uptoE 0 f s = Inr s"
| "for_uptoE (Suc n) f s = bindE (for_uptoE n f s) (f n)"

lemma for_upto_invariant:
  assumes "P s" and "\<And>i t. i < n \<Longrightarrow> P t \<Longrightarrow> P (f i t)"
  shows "P (for_upto n f s)"
  using assms by (induction n) simp_all

subsection \<open>Arithmetic\<close>

lemma mod_add_once:
  fixes x y m :: int
  assumes "0 \<le> x" "x < m" "0 \<le> y" "y < m"
  shows "(x + y) mod m = (if x + y < m then x + y else x + y - m)"
    and "(x + y) div m = (if x + y < m then 0 else 1)"
proof -
  have d: "(x + y) div m = (if x + y < m then 0 else 1)"
    using assms by (auto intro!: div_pos_pos_trivial int_div_pos_eq[where r = "x + y - m"])
  show "(x + y) div m = (if x + y < m then 0 else 1)" by (rule d)
  show "(x + y) mod m = (if x + y < m then x + y else x + y - m)"
    using d by (simp add: minus_mult_div_eq_mod[symmetric])
qed

lemma mod_add_once_nat:
  fixes x y m :: nat
  assumes "x < m" "y < m"
  shows "(x + y) mod m = (if x + y < m then x + y else x + y - m)"
  using assms by (simp add: mod_if)

lemma unat_add_small: "unat (x :: 'a::len word) + unat y < 2 ^ LENGTH('a) \<Longrightarrow> unat (x + y) = unat x + unat y"
  by (simp add: unat_word_ariths)

text \<open>The predecessor of an \<open>unsigned int\<close>.\<close>

lemma uint_pred: "(x::nat) < 2 ^ 32 \<Longrightarrow> (x + (2 ^ 32 - 1)) mod 2 ^ 32 = (if x = 0 then 2 ^ 32 - 1 else x - 1)"
  by (cases x) simp_all

text \<open>Positions of a ring of \<open>n\<close> slots, counted from position \<open>t\<close>.\<close>

lemma ring_pos_inj:
  assumes "(t::nat) < n" "i < n" "j < n" "(t + i) mod n = (t + j) mod n"
  shows "i = j"
  using assms mod_add_once_nat[of t n i] mod_add_once_nat[of t n j] by (auto split: if_splits)

lemma ring_pos_Suc: "((t + 1) mod n + i) mod n = (t + Suc i) mod (n::nat)"
  by (simp add: mod_simps)

lemma ring_pos_ex:
  assumes "(t::nat) < n" "e < n"
  obtains i where "i < n" "e = (t + i) mod n"
proof
  show "(e + n - t) mod n < n" using assms by simp
  have "(t + (e + n - t) mod n) mod n = (t + (e + n - t)) mod n" by (simp add: mod_simps)
  also have "\<dots> = e" using assms by simp
  finally show "e = (t + (e + n - t) mod n) mod n" by simp
qed

text \<open>Bits of natural numbers: disjoint \<open>OR\<close> is addition, masks are remainders.\<close>

lemma or_disjoint_add_nat:
  "(b::nat) < 2 ^ n \<Longrightarrow> (a * 2 ^ n) OR b = a * 2 ^ n + b"
proof -
  assume b: "b < 2 ^ n"
  then have tb: "take_bit n b = b" by (simp add: take_bit_nat_eq_self)
  have "push_bit n a AND take_bit n b = 0"
    by (rule bit_eqI) (auto simp: bit_simps)
  then have "push_bit n a OR b = push_bit n a + b"
    by (simp add: tb disjunctive_add_eq_or)
  then show ?thesis by (simp add: push_bit_eq_mult)
qed

lemma and_mask_nat: "(a::nat) AND (2 ^ n - Suc 0) = a mod 2 ^ n"
  using take_bit_eq_mask[of n a] by (simp add: take_bit_eq_mod mask_eq_exp_minus_1)

lemma and_push_bit_nat: "(a::nat) AND push_bit n m = push_bit n (drop_bit n a AND m)"
  by (rule bit_eqI) (auto simp: bit_simps)

end
