(* ===== verification/Constmath.thy ===== *)
theory Constmath
  imports SimD_Prelude
begin

text \<open>
  \<open>include/util/constmath.h\<close>: the compile-time logarithm and power-of-two test that dimension the
  template parameters and the bus widths of every component, and the rounding-up division.
\<close>

fun const_log2 :: "nat \<Rightarrow> nat" where
  "const_log2 w = (if w > 1 then 1 + const_log2 (w div 2) else 0)"

declare const_log2.simps [simp del]

text \<open>\<open>word & (word - 1)\<close> on an \<open>unsigned int\<close>: \<open>0 - 1\<close> wraps.\<close>

definition is_pot :: "u32 \<Rightarrow> bool" where
  "is_pot w \<longleftrightarrow> w AND (w - 1) = 0"

definition div_round_up :: "nat \<Rightarrow> nat \<Rightarrow> nat" where
  "div_round_up a b = (a + b - 1) div b"

lemma const_log2_pow2 [simp]: "const_log2 (2 ^ k) = k"
proof (induction k)
  case 0
  then show ?case by (simp add: const_log2.simps)
next
  case (Suc k)
  have "(1::nat) < 2 ^ Suc k" by (rule one_less_power) simp_all
  then have "const_log2 (2 ^ Suc k) = 1 + const_log2 (2 ^ Suc k div 2)"
    by (subst const_log2.simps) simp
  with Suc show ?case by simp
qed

lemma const_log2_bounds: "0 < w \<Longrightarrow> 2 ^ const_log2 w \<le> w \<and> w < 2 ^ Suc (const_log2 w)"
proof (induction w rule: const_log2.induct)
  case (1 w)
  show ?case
  proof (cases "w > 1")
    case True
    then have "2 ^ const_log2 (w div 2) \<le> w div 2 \<and> w div 2 < 2 ^ Suc (const_log2 (w div 2))"
      using "1.IH" by simp
    moreover have "const_log2 w = Suc (const_log2 (w div 2))"
      using True by (subst const_log2.simps) simp
    ultimately show ?thesis by auto
  next
    case False
    with "1.prems" have "w = 1" by simp
    then show ?thesis by (simp add: const_log2.simps)
  qed
qed

lemma const_log2_numeral [simp]:
  "const_log2 16 = 4" "const_log2 32 = 5" "const_log2 8 = 3" "const_log2 1024 = 10"
  "const_log2 65536 = 16" "const_log2 128 = 7" "const_log2 4 = 2" "const_log2 64 = 6"
  using const_log2_pow2[of 4] const_log2_pow2[of 5] const_log2_pow2[of 3] const_log2_pow2[of 10]
    const_log2_pow2[of 16] const_log2_pow2[of 7] const_log2_pow2[of 2] const_log2_pow2[of 6]
  by simp_all

subsection \<open>The power-of-two test\<close>

lemma and_pred_nat_pow2: "(2 ^ k :: nat) AND (2 ^ k - Suc 0) = 0"
  by (simp add: and_mask_nat)

text \<open>A number strictly between two powers of two keeps its leading bit when one is subtracted.\<close>

lemma and_pred_nat_pos:
  assumes "2 ^ k < (n::nat)" "n < 2 ^ Suc k"
  shows "n AND (n - Suc 0) \<noteq> 0"
proof -
  have "bit n k" and "bit (n - Suc 0) k"
    using assms by (auto simp: bit_iff_odd div_if)
  then have "bit (n AND (n - Suc 0)) k" by (simp add: bit_and_iff)
  then show ?thesis by (metis bit_0_eq bot_apply bot_bool_def)
qed

lemma is_pot_nat: "is_pot w \<longleftrightarrow> w = 0 \<or> unat w AND (unat w - Suc 0) = 0"
proof (cases "w = 0")
  case False
  then have "unat (w - 1) = unat w - Suc 0" by (simp add: unat_minus_one)
  then have "unat (w AND (w - 1)) = unat w AND (unat w - Suc 0)" by (simp add: unsigned_and_eq)
  moreover have "w AND (w - 1) = 0 \<longleftrightarrow> unat (w AND (w - 1)) = 0" by (simp add: unat_eq_0)
  ultimately show ?thesis using False by (simp add: is_pot_def)
qed (simp add: is_pot_def)

text \<open>
  The power-of-two test accepts exactly the 32-bit powers of two and zero. It does not reject
  zero, so a stride descriptor with a zero destination period passes the sequencer's validation.
\<close>

lemma is_pot_iff: "is_pot w \<longleftrightarrow> w = 0 \<or> (\<exists>k<32. unat w = 2 ^ k)"
proof (cases "w = 0")
  case False
  define k where "k = const_log2 (unat w)"
  have k: "2 ^ k \<le> unat w" "unat w < 2 ^ Suc k"
    using const_log2_bounds[of "unat w"] False by (simp_all add: k_def unat_gt_0)
  have "unat w < 2 ^ 32" using unsigned_less[of w] by simp
  then have "(2::nat) ^ k < 2 ^ 32" using k(1) by (rule le_less_trans[rotated])
  then have "k < 32" by (rule power_less_imp_less_exp[rotated]) simp
  show ?thesis
  proof
    assume "is_pot w"
    then have "unat w = 2 ^ k"
      using False and_pred_nat_pos[OF _ k(2)] k(1) by (auto simp: is_pot_nat le_less)
    with \<open>k < 32\<close> show "w = 0 \<or> (\<exists>k<32. unat w = 2 ^ k)" by blast
  next
    assume "w = 0 \<or> (\<exists>k<32. unat w = 2 ^ k)"
    with False show "is_pot w" by (auto simp: is_pot_nat and_pred_nat_pow2)
  qed
qed (simp add: is_pot_def)

end
