(* ===== verification/Registers.thy ===== *)
theory Registers
  imports Constmath
begin

text \<open>
  The data model that every component shares: \<open>include/model/Register.h\<close>,
  \<open>include/model/request_target.h\<close>, \<open>include/model/Buffer.h\<close>,
  \<open>include/model/stride_descriptor.h\<close>, \<open>include/model/workgroup_width.h\<close>,
  \<open>include/model/reg_read_req.h\<close>, with the constructors and comparisons of their classes.
  A work-group slot (\<open>sc_uint<1>\<close>) is a \<open>1 word\<close>, a register row (\<open>sc_uint<6>\<close>) a \<open>6 word\<close>; a column,
  whose width depends on the template parameters, is a natural number.
\<close>

type_synonym slot = "1 word"
type_synonym row = "6 word"

lemma slot_cases: "(w::slot) = 0 \<or> w = 1"
proof -
  have "unat w < 2" using unsigned_less[of w] by simp
  then have "unat w = 0 \<or> unat w = 1" by linarith
  then show ?thesis by (metis unat_0 unat_1 word_unat_eq_iff)
qed

lemma slot_neq_iff: "(w::slot) \<noteq> v \<longleftrightarrow> v = 1 - w"
  using slot_cases[of w] slot_cases[of v] by auto

subsection \<open>Registers\<close>

datatype RegisterType =
    REGISTER_NONE
  | REGISTER_SGPR
  | REGISTER_VGPR
  | REGISTER_PR
  | REGISTER_VSP
  | REGISTER_SSP
  | REGISTER_IMM
  | REGISTER_SENTINEL

text \<open>The special registers, as rows; the control masks are rows 0 to 3.\<close>

abbreviation (input) "VSP_CTRL_RUN \<equiv> 0 :: row"
abbreviation (input) "VSP_CTRL_BREAK \<equiv> 1 :: row"
abbreviation (input) "VSP_CTRL_RET \<equiv> 2 :: row"
abbreviation (input) "VSP_CTRL_EXIT \<equiv> 3 :: row"
abbreviation (input) "VSP_TID_X \<equiv> 4 :: row"
abbreviation (input) "VSP_TID_Y \<equiv> 5 :: row"
abbreviation (input) "VSP_LID_X \<equiv> 6 :: row"
abbreviation (input) "VSP_LID_Y \<equiv> 7 :: row"
abbreviation (input) "VSP_ZERO \<equiv> 8 :: row"
abbreviation (input) "VSP_ONE \<equiv> 9 :: row"
abbreviation (input) "VSP_MEM_IDX \<equiv> 10 :: row"
abbreviation (input) "VSP_MEM_DATA \<equiv> 11 :: row"
abbreviation (input) "VSP_SENTINEL \<equiv> 12 :: row"

abbreviation (input) "SSP_DIM_X \<equiv> 0 :: row"
abbreviation (input) "SSP_DIM_Y \<equiv> 1 :: row"
abbreviation (input) "SSP_WG_OFF_X \<equiv> 2 :: row"
abbreviation (input) "SSP_WG_OFF_Y \<equiv> 3 :: row"
abbreviation (input) "SSP_WG_WIDTH \<equiv> 4 :: row"
abbreviation (input) "SSP_SD_WORDS \<equiv> 5 :: row"
abbreviation (input) "SSP_SD_PERIOD \<equiv> 6 :: row"
abbreviation (input) "SSP_SD_PERIOD_CNT \<equiv> 7 :: row"
abbreviation (input) "SSP_SENTINEL \<equiv> 8 :: row"

text \<open>Name and write permission of each special register, in row order.\<close>

definition vsp_str :: "(string \<times> bool) list" where
  "vsp_str =
    [(''ctrl_run'', True), (''ctrl_break'', True), (''ctrl_ret'', True), (''ctrl_exit'', True),
     (''tid_x'', False), (''tid_y'', False), (''lid_x'', False), (''lid_y'', False),
     (''zero'', False), (''one'', False), (''mem_idx'', True), (''mem_data'', True)]"

definition ssp_str :: "(string \<times> bool) list" where
  "ssp_str =
    [(''dim_x'', False), (''dim_y'', False), (''wg_off_x'', False), (''wg_off_y'', False),
     (''wg_width'', False), (''sd_words'', True), (''sd_period'', True), (''sd_period_cnt'', True)]"

record areg =
  rtype :: RegisterType
  rwg :: slot
  rrow :: row

text \<open>A \<open>Register<COLS>\<close> extends the abstract register by the column it addresses.\<close>

record reg = areg +
  rcol :: nat

definition AbstractRegister :: "slot \<Rightarrow> RegisterType \<Rightarrow> row \<Rightarrow> areg" where
  "AbstractRegister w t r = \<lparr>rtype = t, rwg = w, rrow = r\<rparr>"

definition AbstractRegister_default :: areg where
  "AbstractRegister_default = \<lparr>rtype = REGISTER_NONE, rwg = 0, rrow = 0\<rparr>"

definition isCMASK :: "'a areg_scheme \<Rightarrow> bool" where
  "isCMASK r \<longleftrightarrow> rtype r = REGISTER_VSP \<and> rrow r < 4"

definition isVectorType :: "RegisterType \<Rightarrow> bool" where
  "isVectorType rt = (case rt of REGISTER_VGPR \<Rightarrow> True | REGISTER_PR \<Rightarrow> True | REGISTER_VSP \<Rightarrow> True | _ \<Rightarrow> False)"

definition areg_eq :: "'a areg_scheme \<Rightarrow> 'b areg_scheme \<Rightarrow> bool" where
  "areg_eq a r =
    (if rtype a = REGISTER_NONE then rtype r = REGISTER_NONE
     else rwg a = rwg r \<and> rrow a = rrow r \<and> rtype a = rtype r)"

definition Register :: "slot \<Rightarrow> RegisterType \<Rightarrow> row \<Rightarrow> nat \<Rightarrow> reg" where
  "Register w t r c =
    \<lparr>rtype = t, rwg = w, rrow = r,
     rcol = (case t of REGISTER_NONE \<Rightarrow> 0 | REGISTER_SENTINEL \<Rightarrow> 0 | REGISTER_SGPR \<Rightarrow> 0 | REGISTER_IMM \<Rightarrow> 0 | _ \<Rightarrow> c)\<rparr>"

definition Register_wg :: "slot \<Rightarrow> reg" where
  "Register_wg w = \<lparr>rtype = REGISTER_NONE, rwg = w, rrow = 0, rcol = 0\<rparr>"

definition reg_eq :: "reg \<Rightarrow> reg \<Rightarrow> bool" where
  "reg_eq a v =
    (if rtype a = REGISTER_NONE then rtype v = REGISTER_NONE
     else if rtype a \<in> {REGISTER_VGPR, REGISTER_PR, REGISTER_VSP} \<and> rcol a \<noteq> rcol v then False
     else rwg a = rwg v \<and> rrow a = rrow v \<and> rtype a = rtype v)"

text \<open>
  The comparison of registers ignores what a register does not address with: everything of an empty
  one, the column of a scalar one. It is an equivalence all the same.
\<close>

lemma reg_eq_refl [simp]: "reg_eq a a"
  by (simp add: reg_eq_def)

lemma reg_eq_sym: "reg_eq a b \<Longrightarrow> reg_eq b a"
  by (auto simp: reg_eq_def split: if_splits)

lemma reg_eq_trans: "reg_eq a b \<Longrightarrow> reg_eq b c \<Longrightarrow> reg_eq a c"
  by (auto simp: reg_eq_def split: if_splits)

text \<open>A register read request: three registers, their read enables, three immediates.\<close>

record reg_read_req =
  rq_reg :: "nat \<Rightarrow> reg"
  rq_r :: "nat \<Rightarrow> bool"
  rq_imm :: "nat \<Rightarrow> u32"

subsection \<open>Request targets\<close>

datatype req_dest_type = TARGET_NONE | TARGET_SP | TARGET_REG | TARGET_CAM

datatype req_if = IF_SP_WG0 | IF_SP_WG1 | IF_DRAM | IF_SENTINEL

record RequestTarget =
  tgt_wg :: slot
  tgt_type :: req_dest_type

definition RequestTarget_default :: RequestTarget where
  "RequestTarget_default = \<lparr>tgt_wg = 0, tgt_type = TARGET_NONE\<rparr>"

text \<open>\<open>IF_RF\<close> and \<open>IF_DRAM\<close> are the same enumeration value.\<close>

definition get_interface :: "RequestTarget \<Rightarrow> req_if" where
  "get_interface t =
    (if tgt_type t = TARGET_REG \<or> tgt_type t = TARGET_CAM then IF_DRAM
     else if tgt_wg t = 0 then IF_SP_WG0 else IF_SP_WG1)"

text \<open>
  \<open>reg_offset_t\<close> is a union of a 30-bit buffer offset and a (lane, row) pair of bit fields; it is
  modelled by the offset, from which the bit fields are read.
\<close>

type_synonym reg_offset = nat

definition reg_offset_idx :: "nat \<Rightarrow> reg_offset" where
  "reg_offset_idx i = i mod 2 ^ 30"

definition reg_offset_lane_row :: "nat \<Rightarrow> nat \<Rightarrow> nat \<Rightarrow> reg_offset" where
  "reg_offset_lane_row THREADS l r =
    l mod 2 ^ const_log2 THREADS + 2 ^ const_log2 THREADS * (r mod 2 ^ (30 - const_log2 THREADS))"

definition off_lane :: "nat \<Rightarrow> reg_offset \<Rightarrow> nat" where
  "off_lane THREADS i = i mod 2 ^ const_log2 THREADS"

definition off_row :: "nat \<Rightarrow> reg_offset \<Rightarrow> nat" where
  "off_row THREADS i = i div 2 ^ const_log2 THREADS"

lemma off_lane_row [simp]:
  assumes "l < 2 ^ const_log2 T" "r < 2 ^ (30 - const_log2 T)"
  shows "off_lane T (reg_offset_lane_row T l r) = l" "off_row T (reg_offset_lane_row T l r) = r"
  using assms by (simp_all add: off_lane_def off_row_def reg_offset_lane_row_def)

record idx =
  dummy_last :: bool
  cam_idx :: nat
  dram_off :: nat

definition idx_last :: idx where
  "idx_last = \<lparr>dummy_last = True, cam_idx = 0, dram_off = 0\<rparr>"

definition mk_idx :: "nat \<Rightarrow> nat \<Rightarrow> nat \<Rightarrow> idx" where
  "mk_idx THREADS i off =
    \<lparr>dummy_last = False, cam_idx = i mod 2 ^ const_log2 THREADS, dram_off = off mod 2 ^ 30\<rparr>"

definition idx_eq :: "idx \<Rightarrow> idx \<Rightarrow> bool" where
  "idx_eq a v =
    (if dummy_last a \<noteq> dummy_last v then False
     else dummy_last a \<or> (cam_idx a = cam_idx v \<and> dram_off a = dram_off v))"

subsection \<open>Buffers\<close>

record Buffer =
  buf_valid :: bool
  buf_addr :: u32
  buf_dim_x :: u32
  buf_dim_y :: u32

definition Buffer_default :: Buffer where
  "Buffer_default = \<lparr>buf_valid = False, buf_addr = 0, buf_dim_x = 0, buf_dim_y = 0\<rparr>"

definition mk_Buffer :: "u32 \<Rightarrow> u32 \<Rightarrow> u32 \<Rightarrow> Buffer" where
  "mk_Buffer a dim_x dim_y = \<lparr>buf_valid = True, buf_addr = a, buf_dim_x = dim_x, buf_dim_y = dim_y\<rparr>"

definition buffer_eq :: "Buffer \<Rightarrow> Buffer \<Rightarrow> bool" where
  "buffer_eq a p =
    (if buf_valid a \<noteq> buf_valid p then False else \<not> buf_valid a \<or> buf_addr a = buf_addr p)"

datatype workgroup_width =
    WG_WIDTH_32 | WG_WIDTH_64 | WG_WIDTH_128 | WG_WIDTH_256 | WG_WIDTH_512 | WG_WIDTH_1024 | WG_WIDTH_2048

text \<open>The enumeration value, the exponent the code shifts 32 by.\<close>

definition wgw :: "workgroup_width \<Rightarrow> nat" where
  "wgw w = (case w of WG_WIDTH_32 \<Rightarrow> 0 | WG_WIDTH_64 \<Rightarrow> 1 | WG_WIDTH_128 \<Rightarrow> 2 | WG_WIDTH_256 \<Rightarrow> 3
     | WG_WIDTH_512 \<Rightarrow> 4 | WG_WIDTH_1024 \<Rightarrow> 5 | WG_WIDTH_2048 \<Rightarrow> 6)"

lemma wgw_le: "wgw w \<le> 6"
  by (cases w) (simp_all add: wgw_def)

subsection \<open>Stride descriptors\<close>

datatype idx_transform_scheme = IDX_TRANSFORM_UNIT | IDX_TRANSFORM_VEC2 | IDX_TRANSFORM_VEC4

definition idx_transform_int :: "idx_transform_scheme \<Rightarrow> nat" where
  "idx_transform_int t = (case t of IDX_TRANSFORM_UNIT \<Rightarrow> 0 | IDX_TRANSFORM_VEC2 \<Rightarrow> 1 | IDX_TRANSFORM_VEC4 \<Rightarrow> 2)"

datatype sd_type = STRIDE | IDXIT

text \<open>The widths of the fields are 4, 32, 20, 20, 20, 32, 20, 20 and 20 bits; what is stored is truncated there.\<close>

record stride_descriptor =
  sd_dst_reg :: "areg option"
  sd_ticket :: int
  sd_type :: sd_type
  sd_addr :: int
  sd_words :: int
  sd_period :: int
  sd_period_count :: int
  sd_dst :: RequestTarget
  sd_dst_offset :: int
  sd_dst_period :: int
  sd_dst_off_x :: int
  sd_dst_off_y :: int
  sd_write :: bool
  sd_idx_transform :: idx_transform_scheme

definition stride_descriptor_default :: stride_descriptor where
  "stride_descriptor_default =
    \<lparr>sd_dst_reg = None, sd_ticket = 0, sd_type = STRIDE, sd_addr = 0, sd_words = 0, sd_period = 0,
     sd_period_count = 0, sd_dst = \<lparr>tgt_wg = 0, tgt_type = TARGET_SP\<rparr>, sd_dst_offset = 0,
     sd_dst_period = 32, sd_dst_off_x = 0, sd_dst_off_y = 0, sd_write = False,
     sd_idx_transform = IDX_TRANSFORM_UNIT\<rparr>"

definition stride_descriptor_of_reg :: "areg \<Rightarrow> stride_descriptor" where
  "stride_descriptor_of_reg r =
    stride_descriptor_default
      \<lparr>sd_dst_reg := Some r,
       sd_dst := \<lparr>tgt_wg = rwg r, tgt_type = (if rtype r = REGISTER_VSP then TARGET_CAM else TARGET_REG)\<rparr>\<rparr>"

definition sd_fields_eq :: "stride_descriptor \<Rightarrow> stride_descriptor \<Rightarrow> bool" where
  "sd_fields_eq a v \<longleftrightarrow>
    sd_addr a = sd_addr v \<and> sd_words a = sd_words v \<and> sd_period a = sd_period v \<and>
    sd_period_count a = sd_period_count v \<and> sd_dst_offset a = sd_dst_offset v \<and>
    sd_dst_period a = sd_dst_period v \<and> sd_dst_off_x a = sd_dst_off_x v \<and>
    sd_dst_off_y a = sd_dst_off_y v \<and> sd_write a = sd_write v \<and>
    sd_idx_transform a = sd_idx_transform v"

definition sd_eq :: "stride_descriptor \<Rightarrow> stride_descriptor \<Rightarrow> bool res" where
  "sd_eq a v =
    (if sd_type a \<noteq> sd_type v \<or> sd_dst a \<noteq> sd_dst v \<or> sd_ticket a \<noteq> sd_ticket v then Inr False
     else case tgt_type (sd_dst a) of
       TARGET_NONE \<Rightarrow> Inl Assert_Failed
     | TARGET_SP \<Rightarrow> Inr (sd_fields_eq a v)
     | _ \<Rightarrow> (case (sd_dst_reg a, sd_dst_reg v) of
              (None, None) \<Rightarrow> Inr (sd_fields_eq a v)
            | (Some r, Some q) \<Rightarrow> Inr (areg_eq r q \<and> sd_fields_eq a v)
            | _ \<Rightarrow> Inr False))"

end
