(* ===== verification/Store.thy ===== *)
theory Store
  imports SimD_Prelude
begin

text \<open>
  The interface of an indexed memory: instruction memory, buffer translation table and register
  columns are written at an index and read back at an index below their size. The lemmas on loading
  a run of consecutive values are proved here for all of them.
\<close>

text \<open>Storing the values of a list at consecutive indices, lowest first.\<close>

primrec put_list :: "(nat \<Rightarrow> 'v \<Rightarrow> 's \<Rightarrow> 's) \<Rightarrow> nat \<Rightarrow> 'v list \<Rightarrow> 's \<Rightarrow> 's" where
  "put_list put i [] s = s"
| "put_list put i (v # vs) s = put_list put (Suc i) vs (put i v s)"

locale indexed_store =
  fixes put :: "nat \<Rightarrow> 'v \<Rightarrow> 's \<Rightarrow> 's"
    and get :: "'s \<Rightarrow> nat \<Rightarrow> 'v"
    and limit :: nat
  assumes get_put: "i < limit \<Longrightarrow> j < limit \<Longrightarrow> get (put i v s) j = (if i = j then v else get s j)"
begin

lemma get_put_list:
  "i + length vs \<le> limit \<Longrightarrow> j < limit \<Longrightarrow>
    get (put_list put i vs s) j = (if i \<le> j \<and> j < i + length vs then vs ! (j - i) else get s j)"
proof (induction vs arbitrary: i s)
  case Nil
  then show ?case by auto
next
  case (Cons v vs)
  then have "get (put_list put (Suc i) vs (put i v s)) j =
      (if Suc i \<le> j \<and> j < Suc i + length vs then vs ! (j - Suc i) else get (put i v s) j)"
    by simp
  with Cons.prems show ?case by (auto simp: get_put nth_Cons' Suc_le_eq)
qed

lemma get_put_list_all:
  "length vs \<le> limit \<Longrightarrow> j < length vs \<Longrightarrow> get (put_list put 0 vs s) j = vs ! j"
  by (simp add: get_put_list)

lemma put_list_append:
  "put_list put i (vs @ ws) s = put_list put (i + length vs) ws (put_list put i vs s)"
  by (induction vs arbitrary: i s) simp_all

end

end
