(* ===== verification/Local_Memories.thy ===== *)
theory Local_Memories
  imports Registers Store
begin

text \<open>
  \<open>compute/control/BufferToPhysXlat.h\<close>, the translation table from buffer index to buffer, and
  \<open>compute/control/IMem.h\<close> with \<open>compute/model/imem_request.h\<close>, the instruction memory. Each has a
  read and a write thread on the same clock; the functions here are one cycle of each. Arrays are
  functions on the index, the size being a template parameter. The instruction type is a type
  parameter, with the instruction \<open>NOP\<close> as an argument.
\<close>

subsection \<open>Buffer translation table\<close>

type_synonym xlat_tbl = "nat \<Rightarrow> Buffer"

definition xlat_rst :: "nat \<Rightarrow> xlat_tbl \<Rightarrow> xlat_tbl" where
  "xlat_rst ENTRIES tbl = for_upto ENTRIES (\<lambda>i t. t(i := Buffer_default)) tbl"

definition xlat_set :: "nat \<Rightarrow> nat \<Rightarrow> Buffer \<Rightarrow> xlat_tbl \<Rightarrow> xlat_tbl" where
  "xlat_set ENTRIES i value tbl = (if i < ENTRIES then tbl(i := value) else tbl)"

text \<open>The read thread: the reset, or the buffer driven on \<open>out_phys\<close> after the delta cycle.\<close>

definition xlat_thread_rd :: "nat \<Rightarrow> bool \<Rightarrow> nat \<Rightarrow> xlat_tbl \<times> Buffer \<Rightarrow> xlat_tbl \<times> Buffer" where
  "xlat_thread_rd ENTRIES rst in_idx s =
    (case s of (tbl, out_phys) \<Rightarrow>
      if rst then (xlat_rst ENTRIES tbl, out_phys)
      else (tbl, tbl (in_idx mod 2 ^ const_log2 ENTRIES)))"

definition xlat_thread_wr :: "nat \<Rightarrow> bool \<Rightarrow> nat \<Rightarrow> Buffer \<Rightarrow> xlat_tbl \<Rightarrow> xlat_tbl" where
  "xlat_thread_wr ENTRIES w idx_w phys_w tbl =
    (if w then xlat_set ENTRIES (idx_w mod 2 ^ const_log2 ENTRIES) phys_w tbl else tbl)"

lemma xlat_rst_get: "xlat_rst E tbl j = (if j < E then Buffer_default else tbl j)"
  using for_upto_store[of E 0 "\<lambda>_. Buffer_default" tbl j] by (simp add: xlat_rst_def)

interpretation xlat: indexed_store "xlat_set E" "\<lambda>t. t" E for E
  by unfold_locales (simp add: xlat_set_def)

subsection \<open>Instruction memory\<close>

record imem_request =
  req_pc :: nat
  req_valid :: bool

type_synonym 'i imem = "nat \<Rightarrow> 'i"

definition debug_insn_store :: "nat \<Rightarrow> nat \<Rightarrow> 'i \<Rightarrow> 'i imem \<Rightarrow> 'i imem" where
  "debug_insn_store PC_WIDTH i insn m = (if i \<ge> 2 ^ PC_WIDTH then m else m(i := insn))"

text \<open>The read thread drives the program counter and the instruction, or 0 and \<open>NOP\<close>.\<close>

definition imem_thread_rd :: "'i \<Rightarrow> imem_request \<Rightarrow> 'i imem \<Rightarrow> nat \<times> 'i" where
  "imem_thread_rd nop req m = (if req_valid req then (req_pc req, m (req_pc req)) else (0, nop))"

text \<open>
  The write thread stores four instructions. The sums \<open>in_pc_w.read() + 1\<close> are not truncated to the
  width of the program counter: near the end of the array they leave it, which C++ does not define,
  so such a write is modelled as an aborted run.
\<close>

definition imem_thread_wr :: "nat \<Rightarrow> bool \<Rightarrow> nat \<Rightarrow> (nat \<Rightarrow> 'i) \<Rightarrow> 'i imem \<Rightarrow> 'i imem res" where
  "imem_thread_wr PC_WIDTH w pc_w op_w m =
    (if w then
       assertE (pc_w + 3 < 2 ^ PC_WIDTH)
         (Inr (m(pc_w := op_w 0, pc_w + 1 := op_w 1, pc_w + 2 := op_w 2, pc_w + 3 := op_w 3)))
     else Inr m)"

interpretation imem: indexed_store "debug_insn_store PCW" "\<lambda>m. m" "2 ^ PCW" for PCW
  by unfold_locales (simp add: debug_insn_store_def)

lemma imem_thread_wr_puts:
  assumes "pc + 3 < 2 ^ PCW"
  shows "imem_thread_wr PCW True pc op m = Inr (put_list (debug_insn_store PCW) pc (map op [0..<4]) m)"
proof -
  have "[0..<4] = [0, 1, 2, 3]" by (simp add: upt_rec)
  then show ?thesis
    using assms by (simp add: imem_thread_wr_def debug_insn_store_def numeral_eq_Suc)
qed

end
