(* ===== verification/Machine.thy ===== *)
theory Machine
  imports SimD_Prelude
begin

text \<open>
  The components are clocked machines: a cycle takes the inputs of a component and its state and
  gives its outputs and its next state, or stops the program at a failed assertion. This theory
  holds the two ways to run such a machine over a list of inputs and the interface \<open>simulation\<close>,
  the contract between a component's model and its specification, with the run lemmas proved once.
\<close>

text \<open>A total machine: outputs and final state over a list of inputs.\<close>

primrec mealy :: "('i \<Rightarrow> 's \<Rightarrow> 'o \<times> 's) \<Rightarrow> 'i list \<Rightarrow> 's \<Rightarrow> 'o list \<times> 's" where
  "mealy f [] s = ([], s)"
| "mealy f (x # xs) s =
     (let (y, s') = f x s; (ys, s'') = mealy f xs s' in (y # ys, s''))"

text \<open>A machine that may abort.\<close>

primrec runE :: "('i \<Rightarrow> 's \<Rightarrow> ('o \<times> 's) res) \<Rightarrow> 'i list \<Rightarrow> 's \<Rightarrow> ('o list \<times> 's) res" where
  "runE f [] s = Inr ([], s)"
| "runE f (x # xs) s =
     bindE (f x s) (\<lambda>(y, s'). bindE (runE f xs s') (\<lambda>(ys, s''). Inr (y # ys, s'')))"

lemma mealy_length [simp]: "length (fst (mealy f xs s)) = length xs"
  by (induction xs arbitrary: s) (auto simp: split_def Let_def)

lemma runE_total: "runE (\<lambda>x s. Inr (f x s)) xs s = Inr (mealy f xs s)"
  by (induction xs arbitrary: s) (auto simp: split_def Let_def)

text \<open>Runs of a machine that may abort: their outputs, their parts, and runs one after the other.\<close>

lemma runE_length: "runE f xs s = Inr (os, t) \<Longrightarrow> length os = length xs"
proof (induction xs arbitrary: s os)
  case (Cons x xs)
  then show ?case by (auto simp: bindE_Inr_iff split: prod.splits)
qed simp

lemma runE_append:
  "runE f xs s = Inr (os, t) \<Longrightarrow> runE f ys t = Inr (os', u) \<Longrightarrow> runE f (xs @ ys) s = Inr (os @ os', u)"
proof (induction xs arbitrary: s os)
  case (Cons x xs)
  from Cons.prems(1) obtain y v zs where "f x s = Inr (y, v)" "runE f xs v = Inr (zs, t)" "os = y # zs"
    by (auto simp: bindE_Inr_iff split: prod.splits)
  with Cons.IH Cons.prems(2) show ?case by simp
qed simp

lemma runE_ConsD:
  assumes "runE f (i # is) s = Inr (os, s')"
  obtains x s1 os' where "f i s = Inr (x, s1)" "runE f is s1 = Inr (os', s')" "os = x # os'"
  using assms by (auto simp: bindE_Inr_iff)

lemma runE_prefix: "runE f xs s = Inr (os, t) \<Longrightarrow> \<exists>u. runE f (take n xs) s = Inr (take n os, u)"
proof (induction xs arbitrary: s os n)
  case (Cons x xs)
  from Cons.prems obtain y v zs where r: "f x s = Inr (y, v)" "runE f xs v = Inr (zs, t)" "os = y # zs"
    by (auto simp: bindE_Inr_iff split: prod.splits)
  show ?case
  proof (cases n)
    case (Suc k)
    with Cons.IH[OF r(2), of k] r show ?thesis by auto
  qed simp
qed simp

lemma runE_split:
  "runE f is s = Inr (os, t) \<Longrightarrow> k < length is \<Longrightarrow>
    \<exists>u v. runE f (take k is) s = Inr (take k os, u) \<and> f (is ! k) u = Inr (os ! k, v)"
proof (induction "is" arbitrary: k s os)
  case (Cons i "is")
  obtain out u os' where r: "f i s = Inr (out, u)" "runE f is u = Inr (os', t)" "os = out # os'"
    using Cons.prems(1) by (auto simp: bindE_Inr_iff split: prod.splits)
  show ?case
  proof (cases k)
    case 0
    then show ?thesis using r by simp
  next
    case (Suc j)
    then show ?thesis using Cons.IH[OF r(2), of j] Cons.prems(2) r by auto
  qed
qed simp

text \<open>
  After the inputs \<open>pre\<close> and any \<open>n\<close> further ones the machine has not aborted, and outputs and state satisfy \<open>Q\<close>.
\<close>

definition after_cycles ::
  "('i \<Rightarrow> 's \<Rightarrow> ('o \<times> 's) res) \<Rightarrow> 'i list \<Rightarrow> nat \<Rightarrow> 's \<Rightarrow> ('o list \<Rightarrow> 's \<Rightarrow> bool) \<Rightarrow> bool" where
  "after_cycles f pre n s Q \<longleftrightarrow>
    (\<forall>is. length is = n \<longrightarrow> (\<exists>os s'. runE f (pre @ is) s = Inr (os, s') \<and> Q os s'))"

lemma after_cycles_mono:
  "after_cycles f pre n s Q \<Longrightarrow> (\<And>os s'. Q os s' \<Longrightarrow> Q' os s') \<Longrightarrow> after_cycles f pre n s Q'"
  unfolding after_cycles_def by blast

lemma after_cycles_ex_mono:
  "\<exists>n. after_cycles f pre n s (Q n) \<Longrightarrow> (\<And>n os s'. Q n os s' \<Longrightarrow> Q' os s') \<Longrightarrow> \<exists>n. after_cycles f pre n s Q'"
  using after_cycles_mono by meson

lemma after_cycles_at:
  "after_cycles f pre n s Q \<Longrightarrow> length is = n \<Longrightarrow> \<exists>os s'. runE f (pre @ is) s = Inr (os, s') \<and> Q os s'"
  unfolding after_cycles_def by blast

text \<open>The inputs a specification accepts, one after the other.\<close>

primrec accepts :: "('i \<Rightarrow> 'a \<Rightarrow> bool) \<Rightarrow> ('i \<Rightarrow> 'a \<Rightarrow> 'o \<times> 'a) \<Rightarrow> 'i list \<Rightarrow> 'a \<Rightarrow> bool" where
  "accepts ok spec [] a \<longleftrightarrow> True"
| "accepts ok spec (x # xs) a \<longleftrightarrow> ok x a \<and> accepts ok spec xs (snd (spec x a))"

lemma accepts_always [simp]: "accepts (\<lambda>_ _. True) spec xs a"
  by (induction xs arbitrary: a) simp_all

locale simulation =
  fixes step :: "'i \<Rightarrow> 's \<Rightarrow> ('o \<times> 's) res"
    and spec :: "'i \<Rightarrow> 'a \<Rightarrow> 'o \<times> 'a"
    and abs :: "'s \<Rightarrow> 'a"
    and inv :: "'s \<Rightarrow> bool"
    and ok :: "'i \<Rightarrow> 'a \<Rightarrow> bool"
  assumes simulates: "inv s \<Longrightarrow> ok i (abs s) \<Longrightarrow>
    \<exists>y s'. step i s = Inr (y, s') \<and> spec i (abs s) = (y, abs s') \<and> inv s'"
begin

lemma run_simulates:
  "inv s \<Longrightarrow> accepts ok spec is (abs s) \<Longrightarrow>
    \<exists>ys s'. runE step is s = Inr (ys, s') \<and> mealy spec is (abs s) = (ys, abs s') \<and> inv s'"
proof (induction "is" arbitrary: s)
  case Nil
  then show ?case by simp
next
  case (Cons i "is")
  from Cons.prems have ok: "ok i (abs s)" by simp
  obtain y s' where s: "step i s = Inr (y, s')" "spec i (abs s) = (y, abs s')" "inv s'"
    using simulates[OF Cons.prems(1) ok] by blast
  with Cons.prems have "accepts ok spec is (abs s')" by simp
  from Cons.IH[OF s(3) this] obtain ys s'' where
    "runE step is s' = Inr (ys, s'')" "mealy spec is (abs s') = (ys, abs s'')" "inv s''" by blast
  with s show ?case by simp
qed

lemma run_outputs:
  assumes "inv s" "accepts ok spec is (abs s)"
  shows "\<exists>s'. runE step is s = Inr (fst (mealy spec is (abs s)), s') \<and>
    abs s' = snd (mealy spec is (abs s)) \<and> inv s'"
  using run_simulates[OF assms] by force

end

end
