(* ===== verification/Work_Sched.thy ===== *)
theory Work_Sched
  imports Local_Memories Machine
begin

text \<open>
  \<open>compute/model/work.h\<close> and \<open>compute/control/WorkScheduler.h\<close>: the kernel invocation, the
  work-group, and the front end that uploads the program and the buffer tables and enumerates the
  work-groups of the index space. One iteration of the main thread is \<open>ws_thread_lt\<close>; the state holds
  the members of the class, the locals of the thread that live across iterations and the output
  signals. The instruction type is a type parameter; what the scheduler needs of it is collected in the
  record \<open>instr_sig\<close>, instantiated in \<open>Launch\<close>. The estimate \<open>read_DDR4_cycles\<close> of the load
  time, a function of the number of bytes, is the argument \<open>load_cycles\<close>; nothing is assumed of it.
\<close>

datatype workgroup_state =
    WG_STATE_NONE | WG_STATE_RUN | WG_STATE_BLOCKED_DRAM | WG_STATE_BLOCKED_DRAM_POSTEXIT | WG_STATE_BLOCKED_SP

type_synonym sched_opts = "nat \<Rightarrow> bool"

abbreviation (input) "WSS_PAIRWISE_WG \<equiv> 0 :: nat"
abbreviation (input) "WSS_NO_PARALLEL_COMPUTE_SP \<equiv> 1 :: nat"
abbreviation (input) "WSS_NO_PARALLEL_DRAM_SP \<equiv> 2 :: nat"
abbreviation (input) "WSS_STOP_SIM_FINI \<equiv> 3 :: nat"
abbreviation (input) "WSS_STOP_DRAM_FINI \<equiv> 4 :: nat"

record 'i work =
  dims :: "nat \<Rightarrow> u32"
  wg_width :: workgroup_width
  w_imem :: "'i list"
  buf_map :: "nat \<Rightarrow> Buffer"
  bufs :: nat
  sp_buf_map :: "nat \<Rightarrow> Buffer"
  sp_bufs :: nat
  ws_sched :: sched_opts

definition mk_work :: "u32 \<Rightarrow> u32 \<Rightarrow> workgroup_width \<Rightarrow> 'i work" where
  "mk_work x y w = \<lparr>dims = (\<lambda>i. if i = 0 then x else y), wg_width = w, w_imem = [],
     buf_map = (\<lambda>_. Buffer_default), bufs = 0, sp_buf_map = (\<lambda>_. Buffer_default), sp_bufs = 0,
     ws_sched = (\<lambda>_. False)\<rparr>"

definition work_default :: "'i work" where
  "work_default = mk_work 0 0 WG_WIDTH_32"

definition add_op :: "'i \<Rightarrow> 'i work \<Rightarrow> 'i work" where
  "add_op op w = w\<lparr>w_imem := w_imem w @ [op]\<rparr>"

definition add_buf :: "nat \<Rightarrow> Buffer \<Rightarrow> 'i work \<Rightarrow> 'i work" where
  "add_buf XLAT b w =
    (if bufs w = XLAT - 1 then w else w\<lparr>buf_map := (buf_map w)(bufs w := b), bufs := bufs w + 1\<rparr>)"

definition add_sp_buf :: "nat \<Rightarrow> Buffer \<Rightarrow> 'i work \<Rightarrow> 'i work" where
  "add_sp_buf XLAT b w =
    (if sp_bufs w = XLAT - 1 then w
     else w\<lparr>sp_buf_map := (sp_buf_map w)(sp_bufs w := b), sp_bufs := sp_bufs w + 1\<rparr>)"

definition get_buf :: "nat \<Rightarrow> nat \<Rightarrow> 'i work \<Rightarrow> u32" where
  "get_buf XLAT i w = (if i < XLAT then buf_addr (buf_map w i) else 0xdead0000)"

definition get_sp_buf :: "nat \<Rightarrow> nat \<Rightarrow> 'i work \<Rightarrow> u32" where
  "get_sp_buf XLAT i w = (if i < XLAT then buf_addr (sp_buf_map w i) else 0xdead0000)"

definition set_sched_options :: "sched_opts \<Rightarrow> 'i work \<Rightarrow> 'i work" where
  "set_sched_options s w = w\<lparr>ws_sched := s\<rparr>"

text \<open>The assignment operator copies only the entries of the buffer maps in use.\<close>

definition work_assign :: "'i work \<Rightarrow> 'i work \<Rightarrow> 'i work" where
  "work_assign w v =
    w\<lparr>dims := dims v, wg_width := wg_width v, w_imem := w_imem v, bufs := bufs v, sp_bufs := sp_bufs v,
      ws_sched := ws_sched v,
      buf_map := for_upto (bufs v) (\<lambda>i m. m(i := buf_map v i)) (buf_map w),
      sp_buf_map := for_upto (sp_bufs v) (\<lambda>i m. m(i := sp_buf_map v i)) (sp_buf_map w)\<rparr>"

lemma work_assign_bufs:
  "i < bufs v \<Longrightarrow> buf_map (work_assign w v) i = buf_map v i"
  "i < sp_bufs v \<Longrightarrow> sp_buf_map (work_assign w v) i = sp_buf_map v i"
  using for_upto_store[of "bufs v" 0 "buf_map v" "buf_map w" i]
    for_upto_store[of "sp_bufs v" 0 "sp_buf_map v" "sp_buf_map w" i]
  by (simp_all add: work_assign_def)

record workgroup =
  off_x :: nat
  off_y :: u32
  last_warp :: nat

definition workgroup_eq :: "workgroup \<Rightarrow> workgroup \<Rightarrow> bool" where
  "workgroup_eq a v \<longleftrightarrow> off_x a = off_x v \<and> off_y a = off_y v \<and> last_warp a = last_warp v"

subsection \<open>The scheduler\<close>

text \<open>
  Instructions and buffers leave the scheduler through an \<open>sc_signal\<close>, and a write of a value equal to
  the current one under \<open>operator==\<close> is dropped. Of the instruction type the scheduler uses the default
  constructor and the write of a signal: the current value, the value written, the value afterwards.
  For buffers \<open>operator==\<close> compares the valid bit and the address only.
\<close>

record 'i instr_sig =
  sig_default :: 'i
  sig_write :: "'i \<Rightarrow> 'i \<Rightarrow> 'i"

definition buffer_write :: "Buffer \<Rightarrow> Buffer \<Rightarrow> Buffer" where
  "buffer_write cur v = (if buffer_eq cur v then cur else v)"

lemma buffer_eq_write: "buffer_eq (buffer_write cur v) v"
  by (simp add: buffer_write_def buffer_eq_def)

lemma buffer_eq_trans: "buffer_eq a b \<Longrightarrow> buffer_eq a c \<Longrightarrow> buffer_eq b c"
  by (auto simp: buffer_eq_def split: if_splits)

datatype ws_state = WS_STATE_IDLE | WS_STATE_LOAD_KERNEL | WS_STATE_ENUM_WGS | WS_STATE_WAIT_FINI

record 'i ws =
  ws_st :: ws_state
  exec_time :: nat
  prg_load_time :: nat
  st_threads :: nat
  st_wgs :: nat
  cycle :: nat
  start_cycle :: nat
  sim_stopped :: bool
  \<comment> \<open>locals of the thread\<close>
  l_work :: "'i work"
  l_x :: u32
  l_y :: u32
  l_pc :: u32
  l_i :: u32
  l_it :: "'i list"
  l_last_warp :: nat
  l_fini_upload :: nat
  \<comment> \<open>output signals\<close>
  out_wg_width :: workgroup_width
  out_sched_opts :: sched_opts
  out_dim :: "nat \<Rightarrow> u32"
  out_imem_op :: "nat \<Rightarrow> 'i"
  out_imem_pc :: nat
  out_imem_w :: bool
  out_end_prg :: bool
  out_xlat_w :: bool
  out_xlat_idx_w :: nat
  out_xlat_phys_w :: Buffer
  out_sp_xlat_w :: bool
  out_sp_xlat_idx_w :: nat
  out_sp_xlat_phys_w :: Buffer

record 'i ws_inputs =
  in_work :: "'i work"
  in_kick :: bool
  in_exec_fini :: bool

definition ws_do_rst :: "'i ws \<Rightarrow> 'i ws" where
  "ws_do_rst s = s\<lparr>ws_st := WS_STATE_IDLE, out_imem_w := False, out_xlat_w := False\<rparr>"

definition stats_set_cycle_time :: "'i ws \<Rightarrow> 'i ws" where
  "stats_set_cycle_time s =
    s\<lparr>exec_time := cycle s - start_cycle s,
      sim_stopped := (sim_stopped s \<or> out_sched_opts s WSS_STOP_SIM_FINI)\<rparr>"

text \<open>The case \<open>WS_STATE_IDLE\<close>; the flag says that control falls through to the next case.\<close>

definition ws_idle :: "nat \<Rightarrow> nat \<Rightarrow> (nat \<Rightarrow> nat) \<Rightarrow> 'i ws_inputs \<Rightarrow> 'i ws \<Rightarrow> (bool \<times> 'i ws) res" where
  "ws_idle THREADS LANES load_cycles i s =
    (let s = s\<lparr>out_end_prg := False\<rparr> in
     if \<not> in_kick i then Inr (False, s)
     else let s = s\<lparr>start_cycle := cycle s, l_work := work_assign (l_work s) (in_work i)\<rparr> in
     if w_imem (l_work s) = [] then Inr (False, s)
     else
       let t = load_cycles (length (w_imem (l_work s)) * 8);
           s = s\<lparr>ws_st := WS_STATE_LOAD_KERNEL, prg_load_time := t, l_fini_upload := cycle s + t,
                 l_it := w_imem (l_work s), l_x := 0, l_y := 0, l_pc := 0, l_i := 0\<rparr>
       in assertE (32 * 2 ^ wgw (wg_width (l_work s)) \<le> THREADS)
            (Inr (True, s\<lparr>l_last_warp := (THREADS div LANES - 1) mod 2 ^ const_log2 (THREADS div LANES),
                          out_wg_width := wg_width (l_work s), out_sched_opts := ws_sched (l_work s),
                          out_dim := dims (l_work s)\<rparr>)))"

text \<open>
  The case \<open>WS_STATE_LOAD_KERNEL\<close>: four instructions, one buffer of each kind. The signals for the program counter and the table index are truncated
  to their widths.
\<close>

definition ws_load_imem :: "nat \<Rightarrow> 'i instr_sig \<Rightarrow> 'i ws \<Rightarrow> 'i ws" where
  "ws_load_imem PC_WIDTH isg s =
    (if l_it s \<noteq> [] then
       s\<lparr>out_imem_op := (\<lambda>j. if j < 4 then sig_write isg (out_imem_op s j) (if j < length (l_it s) then l_it s ! j else sig_default isg)
           else out_imem_op s j),
         out_imem_pc := unat (l_pc s) mod 2 ^ PC_WIDTH, out_imem_w := True,
         l_it := drop 4 (l_it s), l_pc := l_pc s + 4\<rparr>
     else s\<lparr>out_imem_w := False\<rparr>)"

definition ws_load_bufs :: "nat \<Rightarrow> 'i ws \<Rightarrow> 'i ws" where
  "ws_load_bufs XLAT s =
    (let i = unat (l_i s);
         s = (if i < bufs (l_work s)
              then s\<lparr>out_xlat_idx_w := i mod 2 ^ const_log2 XLAT, out_xlat_phys_w := buffer_write (out_xlat_phys_w s) (buf_map (l_work s) i),
                     out_xlat_w := True\<rparr>
              else s\<lparr>out_xlat_w := False\<rparr>);
         s = (if i < sp_bufs (l_work s)
              then s\<lparr>out_sp_xlat_idx_w := i mod 2 ^ const_log2 XLAT, out_sp_xlat_phys_w := buffer_write (out_sp_xlat_phys_w s) (sp_buf_map (l_work s) i),
                     out_sp_xlat_w := True\<rparr>
              else s\<lparr>out_sp_xlat_w := False\<rparr>)
     in s\<lparr>l_i := l_i s + 1\<rparr>)"

definition ws_load :: "nat \<Rightarrow> nat \<Rightarrow> 'i instr_sig \<Rightarrow> 'i ws \<Rightarrow> bool \<times> 'i ws" where
  "ws_load PC_WIDTH XLAT isg s =
    (let s = ws_load_bufs XLAT (ws_load_imem PC_WIDTH isg s)
     in if cycle s < l_fini_upload s then (False, s) else (True, s\<lparr>ws_st := WS_STATE_ENUM_WGS\<rparr>))"

text \<open>
  The case \<open>WS_STATE_ENUM_WGS\<close>: the work-group put in the FIFO, and the next state. \<open>off_x\<close> has 27 bits.
\<close>

definition ws_enum :: "nat \<Rightarrow> nat \<Rightarrow> 'i ws \<Rightarrow> workgroup \<times> 'i ws" where
  "ws_enum THREADS LANES s =
    (let wg = \<lparr>off_x = unat (l_x s) mod 2 ^ 27, off_y = l_y s, last_warp = l_last_warp s\<rparr>;
         w = l_work s;
         s = s\<lparr>st_threads := st_threads s + LANES * (last_warp wg + 1), st_wgs := st_wgs s + 1,
               l_x := l_x s + push_bit (wgw (wg_width w)) 1\<rparr>;
         s = (if push_bit 5 (l_x s) \<ge> dims w 0
              then s\<lparr>l_x := 0, l_y := l_y s + drop_bit (wgw (wg_width w) + 5) (of_nat THREADS)\<rparr> else s);
         s = (if l_y s \<ge> dims w 1 then s\<lparr>out_end_prg := True, ws_st := WS_STATE_WAIT_FINI\<rparr> else s)
     in (wg, s))"

definition ws_wait :: "'i ws_inputs \<Rightarrow> 'i ws \<Rightarrow> 'i ws" where
  "ws_wait i s = (if in_exec_fini i then stats_set_cycle_time (s\<lparr>ws_st := WS_STATE_IDLE\<rparr>) else s)"

text \<open>
  One iteration of the loop of \<open>thread_lt\<close> and of the counter thread: the work-groups put in the FIFO
  (none or one) and the next state. A wait for space in the FIFO only stretches the iteration.
\<close>

definition ws_thread_lt ::
  "nat \<Rightarrow> nat \<Rightarrow> nat \<Rightarrow> nat \<Rightarrow> (nat \<Rightarrow> nat) \<Rightarrow> 'i instr_sig \<Rightarrow> 'i ws_inputs \<Rightarrow> 'i ws \<Rightarrow> (workgroup list \<times> 'i ws) res" where
  "ws_thread_lt THREADS LANES PC_WIDTH XLAT load_cycles isg i s =
    (let enum = (\<lambda>s. let (wg, s) = ws_enum THREADS LANES s in ([wg], s));
         load = (\<lambda>s. let (fall, s) = ws_load PC_WIDTH XLAT isg s in if fall then enum s else ([], s))
     in bindE
       (case ws_st s of
          WS_STATE_IDLE \<Rightarrow>
            bindE (ws_idle THREADS LANES load_cycles i s) (\<lambda>(fall, s). Inr (if fall then load s else ([], s)))
        | WS_STATE_LOAD_KERNEL \<Rightarrow> Inr (load s)
        | WS_STATE_ENUM_WGS \<Rightarrow> Inr (enum s)
        | WS_STATE_WAIT_FINI \<Rightarrow> Inr ([], ws_wait i s))
       (\<lambda>(wgs, s). Inr (wgs, s\<lparr>cycle := cycle s + 1\<rparr>)))"

subsection \<open>Enumeration\<close>

text \<open>
  A work-group is \<open>wg_w\<close> threads wide and \<open>wg_h\<close> high; the index space is a grid of \<open>grid_x\<close> by \<open>grid_y\<close>
  of them, enumerated row by row. \<open>off_x\<close> counts in units of 32 threads.
\<close>

definition wg_w :: "workgroup_width \<Rightarrow> nat" where
  "wg_w w = 32 * 2 ^ wgw w"

definition wg_h :: "nat \<Rightarrow> workgroup_width \<Rightarrow> nat" where
  "wg_h THREADS w = THREADS div wg_w w"

definition grid_x :: "'i work \<Rightarrow> nat" where
  "grid_x w = div_round_up (unat (dims w 0)) (wg_w (wg_width w))"

definition grid_y :: "nat \<Rightarrow> 'i work \<Rightarrow> nat" where
  "grid_y THREADS w = div_round_up (unat (dims w 1)) (wg_h THREADS (wg_width w))"

definition grid_wg :: "nat \<Rightarrow> 'i work \<Rightarrow> nat \<Rightarrow> nat \<Rightarrow> workgroup" where
  "grid_wg THREADS w lw m =
    \<lparr>off_x = (m mod grid_x w) * 2 ^ wgw (wg_width w),
     off_y = of_nat ((m div grid_x w) * wg_h THREADS (wg_width w)), last_warp = lw\<rparr>"

definition wg_grid :: "nat \<Rightarrow> 'i work \<Rightarrow> nat \<Rightarrow> workgroup list" where
  "wg_grid THREADS w lw = map (grid_wg THREADS w lw) [0..<grid_x w * grid_y THREADS w]"

text \<open>The launches considered: the work-group fits the hardware, the index space is not empty and ends
  far enough below the \<open>unsigned int\<close> range for the coordinates not to wrap.\<close>

definition work_ok :: "nat \<Rightarrow> 'i work \<Rightarrow> bool" where
  "work_ok THREADS w \<longleftrightarrow> wg_w (wg_width w) dvd THREADS \<and> 0 < THREADS \<and> THREADS < 2 ^ 32 \<and>
     0 < unat (dims w 0) \<and> 0 < unat (dims w 1) \<and>
     unat (dims w 0) + wg_w (wg_width w) \<le> 2 ^ 32 \<and> unat (dims w 1) + wg_h THREADS (wg_width w) \<le> 2 ^ 32"

lemma wg_w_pos [simp]: "0 < wg_w w"
  by (simp add: wg_w_def)

lemma wg_h_pos: "work_ok T w \<Longrightarrow> 0 < wg_h T (wg_width w)"
  by (auto simp: work_ok_def wg_h_def dvd_def)

lemma div_round_up_iff: "0 < b \<Longrightarrow> m < div_round_up a b \<longleftrightarrow> m * b < a"
proof -
  assume b: "0 < b"
  have "m < div_round_up a b \<longleftrightarrow> Suc m * b \<le> a + b - 1"
    unfolding div_round_up_def Suc_le_eq[symmetric] using b by (rule less_eq_div_iff_mult_less_eq)
  also have "\<dots> \<longleftrightarrow> m * b < a" using b by auto
  finally show ?thesis .
qed

lemma grid_bounds:
  assumes "work_ok T w"
  shows "x < grid_x w \<longleftrightarrow> x * wg_w (wg_width w) < unat (dims w 0)"
    and "y < grid_y T w \<longleftrightarrow> y * wg_h T (wg_width w) < unat (dims w 1)"
    and "0 < grid_x w" "0 < grid_y T w"
  using div_round_up_iff[OF wg_w_pos] div_round_up_iff[OF wg_h_pos[OF assms]] assms
  by (auto simp: grid_x_def grid_y_def work_ok_def)

text \<open>The position the scheduler is at when it has emitted \<open>m\<close> work-groups.\<close>

definition ws_at :: "nat \<Rightarrow> 'i work \<Rightarrow> nat \<Rightarrow> 'i ws \<Rightarrow> bool" where
  "ws_at THREADS w m s \<longleftrightarrow> l_work s = w \<and>
     unat (l_x s) = (m mod grid_x w) * 2 ^ wgw (wg_width w) \<and>
     unat (l_y s) = (m div grid_x w) * wg_h THREADS (wg_width w) \<and>
     ws_st s = (if m < grid_x w * grid_y THREADS w then WS_STATE_ENUM_WGS else WS_STATE_WAIT_FINI)"

lemma unat_shiftl32: "32 * unat (v :: u32) < 2 ^ 32 \<Longrightarrow> unat (push_bit 5 v) = 32 * unat v"
  by (simp add: push_bit_eq_mult unat_word_ariths)

lemma ws_at_x:
  assumes ok: "work_ok T w" and x: "x < grid_x w" and u: "unat (l_x s) = x * 2 ^ wgw (wg_width w)"
  defines "lx \<equiv> l_x s + push_bit (wgw (wg_width w)) 1"
  shows "unat lx = Suc x * 2 ^ wgw (wg_width w)"
    and "push_bit 5 lx \<ge> dims w 0 \<longleftrightarrow> Suc x = grid_x w"
    and "unat (l_x s) < 2 ^ 27"
proof -
  let ?w = "wgw (wg_width w)"
  have le: "Suc x * (32 * 2 ^ ?w) < 2 ^ 32"
  proof -
    have "x * (32 * 2 ^ ?w) < unat (dims w 0)" using x grid_bounds(1)[OF ok] by (simp add: wg_w_def)
    with ok show ?thesis by (simp add: work_ok_def wg_w_def)
  qed
  have w1: "unat (push_bit ?w (1 :: u32)) = 2 ^ ?w"
    by (cases "wg_width w") (simp_all add: wgw_def push_bit_eq_mult)
  have "unat (l_x s) + 2 ^ ?w = Suc x * 2 ^ ?w" by (simp add: u)
  moreover have lt27: "Suc x * 2 ^ ?w < 2 ^ 27" using le by simp
  ultimately show 1: "unat lx = Suc x * 2 ^ ?w"
    unfolding lx_def using w1 by (subst unat_add_small) (simp_all del: mult_Suc)
  show "unat (l_x s) < 2 ^ 27" using lt27 u by simp
  have "unat (push_bit 5 lx) = Suc x * (32 * 2 ^ ?w)"
    using le 1 by (simp add: unat_shiftl32)
  then show "push_bit 5 lx \<ge> dims w 0 \<longleftrightarrow> Suc x = grid_x w"
    using x grid_bounds(1)[OF ok, of "Suc x"] by (simp add: word_le_nat_alt wg_w_def not_less[symmetric]) linarith
qed

lemma ws_at_y:
  assumes ok: "work_ok T w" and y: "y < grid_y T w" and u: "unat (l_y s) = y * wg_h T (wg_width w)"
  defines "ly \<equiv> l_y s + drop_bit (wgw (wg_width w) + 5) (of_nat T)"
  shows "unat ly = Suc y * wg_h T (wg_width w)"
    and "ly \<ge> dims w 1 \<longleftrightarrow> Suc y = grid_y T w"
proof -
  let ?h = "wg_h T (wg_width w)"
  have T: "T < 2 ^ 32" using ok by (simp add: work_ok_def)
  have "unat (drop_bit (wgw (wg_width w) + 5) (of_nat T :: u32)) = T div 2 ^ (wgw (wg_width w) + 5)"
    using T by (subst unat_drop_bit_eq) (simp add: unat_of_nat drop_bit_eq_div)
  then have h: "unat (drop_bit (wgw (wg_width w) + 5) (of_nat T :: u32)) = ?h"
    by (simp add: wg_h_def wg_w_def power_add mult.commute)
  have "y * ?h < unat (dims w 1)" using y grid_bounds(2)[OF ok] by simp
  then have "Suc y * ?h < 2 ^ 32" using ok by (simp add: work_ok_def)
  then show 1: "unat ly = Suc y * ?h"
    unfolding ly_def using u h by (subst unat_add_small) simp_all
  show "ly \<ge> dims w 1 \<longleftrightarrow> Suc y = grid_y T w"
    using y grid_bounds(2)[OF ok, of "Suc y"] 1 by (simp add: word_le_nat_alt) linarith
qed

text \<open>The next position in row-major order.\<close>

lemma grid_Suc:
  assumes "0 < (n::nat)"
  shows "Suc m mod n = (if Suc (m mod n) = n then 0 else Suc (m mod n))"
    and "Suc m div n = (if Suc (m mod n) = n then Suc (m div n) else m div n)"
  using assms by (simp_all add: mod_Suc div_Suc)

lemma grid_row: "(m::nat) < a * b \<Longrightarrow> m mod a < a \<and> m div a < b"
proof -
  assume m: "m < a * b"
  then have "0 < a" by (cases a) simp_all
  with m show ?thesis by (simp add: less_mult_imp_div_less mult.commute)
qed

lemma ws_enum_step:
  assumes ok: "work_ok T w" and at: "ws_at T w m s" and m: "m < grid_x w * grid_y T w"
  shows "fst (ws_enum T L s) = grid_wg T w (l_last_warp s) m"
    and "ws_at T w (Suc m) (snd (ws_enum T L s))"
    and "ws_st (snd (ws_enum T L s)) = WS_STATE_WAIT_FINI \<Longrightarrow> out_end_prg (snd (ws_enum T L s))"
    and "l_last_warp (snd (ws_enum T L s)) = l_last_warp s"
proof -
  have W: "l_work s = w" and st: "ws_st s = WS_STATE_ENUM_WGS"
    and lx: "unat (l_x s) = (m mod grid_x w) * 2 ^ wgw (wg_width w)"
    and ly: "unat (l_y s) = (m div grid_x w) * wg_h T (wg_width w)"
    using at m by (simp_all add: ws_at_def)
  have x: "m mod grid_x w < grid_x w" and y: "m div grid_x w < grid_y T w" using grid_row[OF m] by auto
  note X = ws_at_x[OF ok x lx] and Y = ws_at_y[OF ok y ly]
  have "of_nat (unat (l_y s)) = l_y s" by simp
  then show "fst (ws_enum T L s) = grid_wg T w (l_last_warp s) m"
    using X(3) lx ly by (simp add: ws_enum_def grid_wg_def Let_def)
  show "l_last_warp (snd (ws_enum T L s)) = l_last_warp s"
    by (simp add: ws_enum_def Let_def)
  have fin: "Suc m = grid_x w * grid_y T w \<longleftrightarrow> Suc (m mod grid_x w) = grid_x w \<and> Suc (m div grid_x w) = grid_y T w"
    (is "?a = ?b")
  proof
    assume ?a
    then have "Suc m mod grid_x w = 0 \<and> Suc m div grid_x w = grid_y T w" using grid_bounds(3)[OF ok] by simp
    then show ?b using grid_Suc[OF grid_bounds(3)[OF ok], of m] y by (auto split: if_splits)
  next
    assume b: ?b
    have "Suc m = grid_x w * (m div grid_x w) + Suc (m mod grid_x w)" by simp
    also have "\<dots> = grid_x w * Suc (m div grid_x w)" unfolding mult_Suc_right using b by simp
    also have "\<dots> = grid_x w * grid_y T w" using b by (simp only:)
    finally show ?a .
  qed
  have ny: "\<not> dims w 1 \<le> l_y s"
    using y grid_bounds(2)[OF ok] ly by (simp add: word_le_nat_alt not_le)
  show at': "ws_at T w (Suc m) (snd (ws_enum T L s))"
    using m fin X(1,2) Y lx ly ny grid_Suc[OF grid_bounds(3)[OF ok], of m] W st
    by (cases "Suc (m mod grid_x w) = grid_x w") (auto simp: ws_enum_def ws_at_def Let_def)
  show "out_end_prg (snd (ws_enum T L s))" if "ws_st (snd (ws_enum T L s)) = WS_STATE_WAIT_FINI"
    using that st by (auto simp: ws_enum_def Let_def split: if_splits)
qed

lemma ws_at_cycle [simp]: "ws_at T w m (s\<lparr>cycle := c\<rparr>) = ws_at T w m s"
  by (simp add: ws_at_def)

lemma ws_enum_run:
  assumes ok: "work_ok T w"
  shows "ws_at T w m s \<Longrightarrow> m + length is = grid_x w * grid_y T w \<Longrightarrow> l_last_warp s = lw \<Longrightarrow>
    (m = grid_x w * grid_y T w \<Longrightarrow> out_end_prg s) \<Longrightarrow>
    \<exists>s'. runE (ws_thread_lt T L PCW X lc isg) is s =
        Inr (map (\<lambda>k. [grid_wg T w lw k]) [m..<grid_x w * grid_y T w], s') \<and>
      ws_st s' = WS_STATE_WAIT_FINI \<and> out_end_prg s'"
proof (induction "is" arbitrary: m s)
  case Nil
  then show ?case by (simp add: ws_at_def)
next
  case (Cons i "is")
  let ?N = "grid_x w * grid_y T w"
  have m: "m < ?N" using Cons.prems(2) by simp
  then have st: "ws_st s = WS_STATE_ENUM_WGS" using Cons.prems(1) by (simp add: ws_at_def)
  note E = ws_enum_step[OF ok Cons.prems(1) m, of L]
  let ?s = "(snd (ws_enum T L s))\<lparr>cycle := cycle (snd (ws_enum T L s)) + 1\<rparr>"
  have step: "ws_thread_lt T L PCW X lc isg i s = Inr ([grid_wg T w lw m], ?s)"
    using st E(1) Cons.prems(3) by (simp add: ws_thread_lt_def Let_def split_def)
  have "Suc m = ?N \<Longrightarrow> out_end_prg ?s" using E(2,3) by (simp add: ws_at_def)
  then obtain s' where "runE (ws_thread_lt T L PCW X lc isg) is ?s =
      Inr (map (\<lambda>k. [grid_wg T w lw k]) [Suc m..<?N], s')"
      "ws_st s' = WS_STATE_WAIT_FINI" "out_end_prg s'"
    using Cons.IH[of "Suc m" ?s] Cons.prems(2,3) E(2,4) by auto
  with step m show ?case by (simp add: upt_conv_Cons)
qed

subsection \<open>Loading\<close>

text \<open>
  What a signal holds after the writes of a list of values, one per cycle: instruction \<open>a\<close> of the program
  leaves on signal \<open>a mod 4\<close>, behind the instructions 4, 8, \<dots> places before it. \<open>s0\<close> is the scheduler
  before the upload.
\<close>

definition sent_op :: "'i instr_sig \<Rightarrow> 'i ws \<Rightarrow> 'i list \<Rightarrow> nat \<Rightarrow> nat \<Rightarrow> 'i" where
  "sent_op isg s0 xs k n = foldl (sig_write isg) (out_imem_op s0 k) (map (\<lambda>m. xs ! (4 * m + k)) [0..<n])"

definition sent_buf :: "Buffer \<Rightarrow> (nat \<Rightarrow> Buffer) \<Rightarrow> nat \<Rightarrow> Buffer" where
  "sent_buf b f n = foldl buffer_write b (map f [0..<n])"

lemma sent_op_0 [simp]: "sent_op isg s0 xs k 0 = out_imem_op s0 k"
  and sent_op_Suc: "sent_op isg s0 xs k (Suc n) = sig_write isg (sent_op isg s0 xs k n) (xs ! (4 * n + k))"
  by (simp_all add: sent_op_def)

lemma sent_buf_0 [simp]: "sent_buf b f 0 = b"
  and sent_buf_Suc: "sent_buf b f (Suc n) = buffer_write (sent_buf b f n) (f n)"
  by (simp_all add: sent_buf_def)

text \<open>After \<open>g + 1\<close> load iterations: what is left, and what the output signals hold.\<close>

definition ws_loaded :: "'i instr_sig \<Rightarrow> 'i ws \<Rightarrow> 'i work \<Rightarrow> nat \<Rightarrow> 'i ws \<Rightarrow> bool" where
  "ws_loaded isg s0 w g s \<longleftrightarrow> l_work s = w \<and> l_it s = drop (4 * Suc g) (w_imem w) \<and>
     (4 * Suc g < length (w_imem w) \<longrightarrow> unat (l_pc s) = 4 * Suc g) \<and> unat (l_i s) = Suc g \<and>
     (out_imem_w s \<longleftrightarrow> 4 * g < length (w_imem w)) \<and>
     (4 * g < length (w_imem w) \<longrightarrow> out_imem_pc s = 4 * g \<and>
        (\<forall>k<4. 4 * g + k < length (w_imem w) \<longrightarrow> out_imem_op s k = sent_op isg s0 (w_imem w) k (Suc g))) \<and>
     (out_xlat_w s \<longleftrightarrow> g < bufs w) \<and>
     (g < bufs w \<longrightarrow> out_xlat_idx_w s = g \<and> out_xlat_phys_w s = sent_buf (out_xlat_phys_w s0) (buf_map w) (Suc g)) \<and>
     (out_sp_xlat_w s \<longleftrightarrow> g < sp_bufs w) \<and>
     (g < sp_bufs w \<longrightarrow> out_sp_xlat_idx_w s = g \<and> out_sp_xlat_phys_w s = sent_buf (out_sp_xlat_phys_w s0) (sp_buf_map w) (Suc g))"

text \<open>The program fits the instruction memory, the buffers their tables.\<close>

definition upload_ok :: "nat \<Rightarrow> nat \<Rightarrow> 'i work \<Rightarrow> bool" where
  "upload_ok PCW XLAT w \<longleftrightarrow> length (w_imem w) \<le> 2 ^ PCW \<and> 2 \<le> PCW \<and> PCW < 32 \<and>
     (\<exists>q. XLAT = 2 ^ q) \<and> bufs w \<le> XLAT \<and> sp_bufs w \<le> XLAT"

lemma ws_load_iter:
  assumes ok: "upload_ok PCW X w" and W: "l_work s = w"
    and it: "l_it s = drop (4 * g) (w_imem w)"
    and pc: "4 * g < length (w_imem w) \<Longrightarrow> unat (l_pc s) = 4 * g"
    and i: "unat (l_i s) = g" and g: "Suc g < 2 ^ 32"
    and op: "\<And>k. k < 4 \<Longrightarrow> 4 * g + k < length (w_imem w) \<Longrightarrow> out_imem_op s k = sent_op isg s0 (w_imem w) k g"
    and bx: "g < bufs w \<Longrightarrow> out_xlat_phys_w s = sent_buf (out_xlat_phys_w s0) (buf_map w) g"
    and bp: "g < sp_bufs w \<Longrightarrow> out_sp_xlat_phys_w s = sent_buf (out_sp_xlat_phys_w s0) (sp_buf_map w) g"
  shows "ws_loaded isg s0 w g (snd (ws_load PCW X isg s))"
    and "ws_st (snd (ws_load PCW X isg s)) = (if cycle s < l_fini_upload s then ws_st s else WS_STATE_ENUM_WGS)"
    and "fst (ws_load PCW X isg s) \<longleftrightarrow> \<not> cycle s < l_fini_upload s"
proof -
  let ?n = "length (w_imem w)"
  have n: "?n \<le> 2 ^ PCW" and p32: "(2::nat) ^ PCW < 2 ^ 32"
    using ok power_strict_increasing[of PCW 32 "2::nat"] by (simp_all add: upload_ok_def)
  have q: "2 ^ const_log2 X = X" using ok by (auto simp: upload_ok_def)
  have b: "j < bufs w \<Longrightarrow> j mod X = j" "j < sp_bufs w \<Longrightarrow> j mod X = j" for j
    using ok by (simp_all add: upload_ok_def)
  have lp: "unat (l_pc s + 4) = 4 * Suc g" if "4 * Suc g < ?n"
    using that pc n p32 by (subst unat_add_small) simp_all
  have li: "unat (l_i s + 1) = Suc g"
    using i g by (subst unat_add_small) simp_all
  have pm: "4 * g < ?n \<Longrightarrow> unat (l_pc s) mod 2 ^ PCW = 4 * g" using pc n by simp
  have ne: "l_it s \<noteq> [] \<longleftrightarrow> 4 * g < ?n" by (simp add: it not_le)
  have s: "snd (ws_load PCW X isg s) = (let s' = ws_load_bufs X (ws_load_imem PCW isg s)
      in if cycle s' < l_fini_upload s' then s' else s'\<lparr>ws_st := WS_STATE_ENUM_WGS\<rparr>)"
    by (simp add: ws_load_def Let_def)
  show "ws_loaded isg s0 w g (snd (ws_load PCW X isg s))"
  proof (cases "4 * g < ?n")
    case True
    have len: "j < length (l_it s) \<longleftrightarrow> 4 * g + j < ?n" for j by (auto simp: it)
    have nth: "4 * g + j < ?n \<Longrightarrow> l_it s ! j = w_imem w ! (4 * g + j)" for j by (simp add: it)
    have ops: "sig_write isg (out_imem_op s k) (if k < length (l_it s) then l_it s ! k else sig_default isg) =
        sent_op isg s0 (w_imem w) k (Suc g)" if "k < 4" "4 * g + k < ?n" for k
      using that by (simp add: len nth op sent_op_Suc)
    show ?thesis
      using True ne W li lp pm b q i ops bx bp it
      by (auto simp: s ws_load_imem_def ws_load_bufs_def ws_loaded_def Let_def sent_buf_Suc)
  next
    case False
    then show ?thesis
      using ne W it li b q i bx bp
      by (simp add: s ws_load_imem_def ws_load_bufs_def ws_loaded_def Let_def sent_buf_Suc)
  qed
  show "ws_st (snd (ws_load PCW X isg s)) = (if cycle s < l_fini_upload s then ws_st s else WS_STATE_ENUM_WGS)"
    "fst (ws_load PCW X isg s) \<longleftrightarrow> \<not> cycle s < l_fini_upload s"
    by (simp_all add: ws_load_def ws_load_bufs_def ws_load_imem_def Let_def)
qed

text \<open>Before load iteration \<open>g\<close>, with \<open>r\<close> cycles to go until the load time is over.\<close>

definition ws_loading :: "'i instr_sig \<Rightarrow> 'i ws \<Rightarrow> 'i work \<Rightarrow> nat \<Rightarrow> nat \<Rightarrow> nat \<Rightarrow> 'i ws \<Rightarrow> bool" where
  "ws_loading isg s0 w lw g r s \<longleftrightarrow> ws_st s = WS_STATE_LOAD_KERNEL \<and> l_work s = w \<and>
     l_it s = drop (4 * g) (w_imem w) \<and> (4 * g < length (w_imem w) \<longrightarrow> unat (l_pc s) = 4 * g) \<and>
     unat (l_i s) = g \<and> cycle s + r = l_fini_upload s \<and> l_x s = 0 \<and> l_y s = 0 \<and> l_last_warp s = lw \<and>
     (\<forall>k<4. 4 * g + k < length (w_imem w) \<longrightarrow> out_imem_op s k = sent_op isg s0 (w_imem w) k g) \<and>
     (g < bufs w \<longrightarrow> out_xlat_phys_w s = sent_buf (out_xlat_phys_w s0) (buf_map w) g) \<and>
     (g < sp_bufs w \<longrightarrow> out_sp_xlat_phys_w s = sent_buf (out_sp_xlat_phys_w s0) (sp_buf_map w) g)"

lemma ws_load_frame:
  "l_x (snd (ws_load PCW X isg s)) = l_x s" "l_y (snd (ws_load PCW X isg s)) = l_y s"
  "cycle (snd (ws_load PCW X isg s)) = cycle s" "l_fini_upload (snd (ws_load PCW X isg s)) = l_fini_upload s"
  "l_last_warp (snd (ws_load PCW X isg s)) = l_last_warp s"
  by (simp_all add: ws_load_def ws_load_bufs_def ws_load_imem_def Let_def)

lemma ws_loading_iter:
  assumes ok: "upload_ok PCW X w" and l: "ws_loading isg s0 w lw g r s" and g: "Suc g < 2 ^ 32"
  shows "ws_loaded isg s0 w g (snd (ws_load PCW X isg s))"
    and "r = 0 \<Longrightarrow> fst (ws_load PCW X isg s) \<and> ws_st (snd (ws_load PCW X isg s)) = WS_STATE_ENUM_WGS"
    and "r = Suc r' \<Longrightarrow> \<not> fst (ws_load PCW X isg s) \<and>
      ws_loading isg s0 w lw (Suc g) r' ((snd (ws_load PCW X isg s))\<lparr>cycle := cycle s + 1\<rparr>)"
proof -
  have pre: "l_work s = w" "l_it s = drop (4 * g) (w_imem w)" "unat (l_i s) = g"
    "4 * g < length (w_imem w) \<Longrightarrow> unat (l_pc s) = 4 * g"
    and rest: "ws_st s = WS_STATE_LOAD_KERNEL" "cycle s + r = l_fini_upload s" "l_x s = 0" "l_y s = 0" "l_last_warp s = lw"
    and sig: "\<And>k. k < 4 \<Longrightarrow> 4 * g + k < length (w_imem w) \<Longrightarrow> out_imem_op s k = sent_op isg s0 (w_imem w) k g"
    "g < bufs w \<Longrightarrow> out_xlat_phys_w s = sent_buf (out_xlat_phys_w s0) (buf_map w) g"
    "g < sp_bufs w \<Longrightarrow> out_sp_xlat_phys_w s = sent_buf (out_sp_xlat_phys_w s0) (sp_buf_map w) g"
    using l by (auto simp: ws_loading_def)
  note L = ws_load_iter[OF ok pre(1,2,4,3) g sig]
  show 1: "ws_loaded isg s0 w g (snd (ws_load PCW X isg s))" by (rule L(1))
  show "r = 0 \<Longrightarrow> fst (ws_load PCW X isg s) \<and> ws_st (snd (ws_load PCW X isg s)) = WS_STATE_ENUM_WGS"
    using L(2,3) rest by simp
  show "r = Suc r' \<Longrightarrow> \<not> fst (ws_load PCW X isg s) \<and>
      ws_loading isg s0 w lw (Suc g) r' ((snd (ws_load PCW X isg s))\<lparr>cycle := cycle s + 1\<rparr>)"
    using 1 L(2,3) rest by (simp add: ws_loading_def ws_loaded_def ws_load_frame)
qed

lemma ws_load_run:
  assumes wok: "work_ok T w" and ok: "upload_ok PCW X w"
  shows "ws_loading isg s0 w lw g r s \<Longrightarrow> g + r + 1 < 2 ^ 32 \<Longrightarrow> length is = r + grid_x w * grid_y T w \<Longrightarrow>
    \<exists>outs s'. runE (ws_thread_lt T L PCW X lc isg) is s = Inr (outs, s') \<and>
      concat outs = wg_grid T w lw \<and> ws_st s' = WS_STATE_WAIT_FINI \<and> out_end_prg s'"
proof (induction r arbitrary: g s "is")
  case 0
  let ?N = "grid_x w * grid_y T w" and ?s = "snd (ws_load PCW X isg s)"
  have N: "0 < ?N" using grid_bounds(3,4)[OF wok] by simp
  then obtain i is' where "is": "is = i # is'" using "0.prems"(3) by (cases "is") simp_all
  have I: "ws_loaded isg s0 w g ?s" "fst (ws_load PCW X isg s)" "ws_st ?s = WS_STATE_ENUM_WGS"
    using ws_loading_iter[OF ok "0.prems"(1)] "0.prems"(2) by simp_all
  have st: "ws_st s = WS_STATE_LOAD_KERNEL" and lw: "l_last_warp s = lw" "l_x s = 0" "l_y s = 0"
    using "0.prems"(1) by (simp_all add: ws_loading_def)
  have "ws_thread_lt T L PCW X lc isg i s = ws_thread_lt T L PCW X lc isg i ?s"
    using I st by (simp add: ws_thread_lt_def Let_def split_def)
  then have same: "runE (ws_thread_lt T L PCW X lc isg) is s = runE (ws_thread_lt T L PCW X lc isg) is ?s"
    by (simp add: "is")
  have "ws_at T w 0 ?s"
    using I lw N by (simp add: ws_at_def ws_loaded_def ws_load_frame)
  then obtain s' where "runE (ws_thread_lt T L PCW X lc isg) is ?s = Inr (map (\<lambda>k. [grid_wg T w lw k]) [0..<?N], s')"
    "ws_st s' = WS_STATE_WAIT_FINI" "out_end_prg s'"
    using ws_enum_run[OF wok, of 0 ?s "is" lw L PCW X lc isg] "0.prems"(3) lw N ws_load_frame(5) by (auto simp: ws_load_frame)
  moreover have "concat (map (\<lambda>k. [grid_wg T w lw k]) [0..<?N]) = wg_grid T w lw"
    by (simp add: wg_grid_def concat_map_singleton)
  ultimately show ?case using same by simp
next
  case (Suc r)
  then obtain i is' where "is": "is = i # is'" by (cases "is") simp_all
  let ?s = "(snd (ws_load PCW X isg s))\<lparr>cycle := cycle s + 1\<rparr>"
  have I: "\<not> fst (ws_load PCW X isg s)" "ws_loading isg s0 w lw (Suc g) r ?s"
    using ws_loading_iter(3)[OF ok Suc.prems(1)] Suc.prems(2) by simp_all
  have st: "ws_st s = WS_STATE_LOAD_KERNEL" using Suc.prems(1) by (simp add: ws_loading_def)
  have step: "ws_thread_lt T L PCW X lc isg i s = Inr ([], ?s)"
    using I st by (simp add: ws_thread_lt_def Let_def split_def ws_load_frame)
  obtain outs s' where "runE (ws_thread_lt T L PCW X lc isg) is' ?s = Inr (outs, s')"
      "concat outs = wg_grid T w lw" "ws_st s' = WS_STATE_WAIT_FINI" "out_end_prg s'"
    using Suc.IH[OF I(2), of is'] Suc.prems(2,3) "is" by auto
  then show ?case using step "is" by simp
qed

subsection \<open>A launch\<close>

definition launch_warp :: "nat \<Rightarrow> nat \<Rightarrow> nat" where
  "launch_warp THREADS LANES = (THREADS div LANES - 1) mod 2 ^ const_log2 (THREADS div LANES)"

lemma work_assign_grid [simp]:
  "grid_x (work_assign a v) = grid_x v" "grid_y T (work_assign a v) = grid_y T v"
  "wg_grid T (work_assign a v) lw = wg_grid T v lw" "work_ok T (work_assign a v) = work_ok T v"
  "upload_ok PCW X (work_assign a v) = upload_ok PCW X v" "w_imem (work_assign a v) = w_imem v"
  "bufs (work_assign a v) = bufs v" "sp_bufs (work_assign a v) = sp_bufs v"
proof -
  have g: "grid_x (work_assign a v) = grid_x v" "grid_y T (work_assign a v) = grid_y T v"
    by (simp_all add: work_assign_def grid_x_def grid_y_def)
  then show "grid_x (work_assign a v) = grid_x v" "grid_y T (work_assign a v) = grid_y T v" .
  have "grid_wg T (work_assign a v) lw = grid_wg T v lw"
    by (simp add: fun_eq_iff grid_wg_def g) (simp add: work_assign_def)
  then show "wg_grid T (work_assign a v) lw = wg_grid T v lw" by (simp add: wg_grid_def g)
  show "work_ok T (work_assign a v) = work_ok T v" "upload_ok PCW X (work_assign a v) = upload_ok PCW X v"
    "w_imem (work_assign a v) = w_imem v" "bufs (work_assign a v) = bufs v" "sp_bufs (work_assign a v) = sp_bufs v"
    by (simp_all add: work_assign_def work_ok_def upload_ok_def)
qed

lemma work_ok_fits: "work_ok T w \<Longrightarrow> 32 * 2 ^ wgw (wg_width w) \<le> T"
  by (auto simp: work_ok_def wg_w_def intro: dvd_imp_le)

text \<open>The write ports the scheduler drives.\<close>

definition ws_sig :: "'i ws \<Rightarrow> (bool \<times> nat \<times> (nat \<Rightarrow> 'i)) \<times> (bool \<times> nat \<times> Buffer) \<times> (bool \<times> nat \<times> Buffer)" where
  "ws_sig s = ((out_imem_w s, out_imem_pc s, out_imem_op s), (out_xlat_w s, out_xlat_idx_w s, out_xlat_phys_w s),
     (out_sp_xlat_w s, out_sp_xlat_idx_w s, out_sp_xlat_phys_w s))"

text \<open>The kick leaves the scheduler where the first load iteration starts, in the same cycle.\<close>

lemma ws_kick:
  assumes "ws_st s = WS_STATE_IDLE" "in_kick i" "w_imem (in_work i) \<noteq> []" "work_ok T (in_work i)"
  obtains s1 where "ws_loading isg s (work_assign (l_work s) (in_work i)) (launch_warp T L) 0
        (lc (length (w_imem (in_work i)) * 8)) s1"
    and "ws_thread_lt T L PCW X lc isg i s = ws_thread_lt T L PCW X lc isg i s1"
    and "ws_sig s1 = ws_sig s"
proof -
  obtain s1 where s1: "ws_idle T L lc i s = Inr (True, s1)"
    "ws_loading isg s (work_assign (l_work s) (in_work i)) (launch_warp T L) 0 (lc (length (w_imem (in_work i)) * 8)) s1"
    "out_imem_w s1 = out_imem_w s" "out_imem_pc s1 = out_imem_pc s" "out_imem_op s1 = out_imem_op s"
    "out_xlat_w s1 = out_xlat_w s" "out_xlat_idx_w s1 = out_xlat_idx_w s" "out_xlat_phys_w s1 = out_xlat_phys_w s"
    "out_sp_xlat_w s1 = out_sp_xlat_w s" "out_sp_xlat_idx_w s1 = out_sp_xlat_idx_w s" "out_sp_xlat_phys_w s1 = out_sp_xlat_phys_w s"
    using assms work_ok_fits[of T "work_assign (l_work s) (in_work i)"]
    by (simp add: ws_idle_def Let_def ws_loading_def launch_warp_def)
  have "ws_st s1 = WS_STATE_LOAD_KERNEL" using s1(2) by (simp add: ws_loading_def)
  then have "ws_thread_lt T L PCW X lc isg i s = ws_thread_lt T L PCW X lc isg i s1"
    using assms(1) s1(1) by (simp add: ws_thread_lt_def Let_def)
  then show ?thesis using that[of s1] s1 by (simp add: ws_sig_def)
qed

text \<open>
  C2. A kick of the scheduler in its idle state with a program and a non-empty two-dimensional index space
  aborts nothing and, after the load time and one cycle per work-group, has put exactly the work-groups of the
  grid into the FIFO, row by row, each once, and signals the end of the program. This holds for every
  load time the estimate may give.
\<close>

theorem ws_enumerates:
  assumes "ws_st s = WS_STATE_IDLE" "in_kick i" "w_imem (in_work i) \<noteq> []"
    and "work_ok THREADS (in_work i)" "upload_ok PC_WIDTH XLAT (in_work i)"
    and "load_cycles (length (w_imem (in_work i)) * 8) = t" "t + 1 < 2 ^ 32"
    and "length (i # is) = t + grid_x (in_work i) * grid_y THREADS (in_work i)"
  shows "\<exists>outs s'. runE (ws_thread_lt THREADS LANES PC_WIDTH XLAT load_cycles isg) (i # is) s = Inr (outs, s') \<and>
      concat outs = wg_grid THREADS (in_work i) (launch_warp THREADS LANES) \<and>
      ws_st s' = WS_STATE_WAIT_FINI \<and> out_end_prg s'"
proof -
  obtain s1 where s1: "ws_loading isg s (work_assign (l_work s) (in_work i)) (launch_warp THREADS LANES) 0 t s1"
    "ws_thread_lt THREADS LANES PC_WIDTH XLAT load_cycles isg i s = ws_thread_lt THREADS LANES PC_WIDTH XLAT load_cycles isg i s1"
    using ws_kick[OF assms(1-4), where L = LANES and lc = load_cycles and PCW = PC_WIDTH and X = XLAT and isg = isg] assms(6) by metis
  have "runE (ws_thread_lt THREADS LANES PC_WIDTH XLAT load_cycles isg) (i # is) s =
      runE (ws_thread_lt THREADS LANES PC_WIDTH XLAT load_cycles isg) (i # is) s1"
    by (simp add: s1(2))
  with ws_load_run[OF _ _ s1(1), of THREADS PC_WIDTH XLAT "i # is" LANES load_cycles] assms show ?thesis
    by simp
qed

text \<open>
  The work-groups enumerated tile the index space: every thread coordinate below the dimensions
  lies in exactly one of them.
\<close>

lemma wg_grid_tiles:
  assumes "work_ok THREADS w" "tx < unat (dims w 0)" "ty < unat (dims w 1)"
  shows "\<exists>!m. m < length (wg_grid THREADS w lw) \<and>
    (let g = wg_grid THREADS w lw ! m in
       32 * off_x g \<le> tx \<and> tx < 32 * off_x g + wg_w (wg_width w) \<and>
       unat (off_y g) \<le> ty \<and> ty < unat (off_y g) + wg_h THREADS (wg_width w))"
proof -
  let ?W = "wg_w (wg_width w)" and ?H = "wg_h THREADS (wg_width w)"
  let ?nx = "grid_x w" and ?ny = "grid_y THREADS w"
  note B = grid_bounds[OF assms(1)]
  have H: "0 < ?H" by (rule wg_h_pos[OF assms(1)])
  have cell: "(a * n \<le> t \<and> t < a * n + n) = (a = t div n)" if "0 < n" for a n t :: nat
  proof
    assume "a * n \<le> t \<and> t < a * n + n"
    then have "t = a * n + (t - a * n)" "t - a * n < n" by auto
    then have "t div n = a" by (metis div_less div_mult_self3 add.right_neutral less_nat_zero_code)
    then show "a = t div n" by simp
  qed (use that dividend_less_div_times[of n t] in \<open>auto simp: add.commute\<close>)
  have pos: "(let g = wg_grid THREADS w lw ! m in
       32 * off_x g \<le> tx \<and> tx < 32 * off_x g + ?W \<and> unat (off_y g) \<le> ty \<and> ty < unat (off_y g) + ?H)
     \<longleftrightarrow> m mod ?nx = tx div ?W \<and> m div ?nx = ty div ?H" if m: "m < ?nx * ?ny" for m
  proof -
    have y: "m div ?nx < ?ny" using grid_row[OF m] by simp
    then have "(m div ?nx) * ?H < 2 ^ 32" using B(2) unsigned_less[of "dims w 1"] by (auto intro: less_trans)
    then have "unat (of_nat ((m div ?nx) * ?H) :: u32) = (m div ?nx) * ?H" by (simp add: unat_of_nat del: of_nat_mult)
    then have oy: "unat (off_y (wg_grid THREADS w lw ! m)) = (m div ?nx) * ?H"
      using m by (simp add: wg_grid_def grid_wg_def del: of_nat_mult)
    have ox: "32 * off_x (wg_grid THREADS w lw ! m) = (m mod ?nx) * ?W"
      using m by (simp add: wg_grid_def grid_wg_def wg_w_def del: mult_cancel1)
    show ?thesis
      unfolding Let_def ox oy
      using cell[OF wg_w_pos[of "wg_width w"], of "m mod ?nx" tx] cell[OF H, of "m div ?nx" ty] by blast
  qed
  have len: "length (wg_grid THREADS w lw) = ?nx * ?ny" by (simp add: wg_grid_def)
  let ?m = "(ty div ?H) * ?nx + tx div ?W"
  have x: "tx div ?W < ?nx" and y: "ty div ?H < ?ny"
    unfolding B(1,2)
    by (rule le_less_trans[OF div_times_less_eq_dividend assms(2)])
      (rule le_less_trans[OF div_times_less_eq_dividend assms(3)])
  have m: "?m < ?nx * ?ny"
  proof -
    have "?m < Suc (ty div ?H) * ?nx" using x by simp
    also have "\<dots> \<le> ?ny * ?nx" using y by (intro mult_right_mono) simp_all
    finally show ?thesis by (simp add: mult.commute)
  qed
  show ?thesis
  proof (rule ex1I[of _ ?m])
    show "?m < length (wg_grid THREADS w lw) \<and> (let g = wg_grid THREADS w lw ! ?m in
       32 * off_x g \<le> tx \<and> tx < 32 * off_x g + ?W \<and> unat (off_y g) \<le> ty \<and> ty < unat (off_y g) + ?H)"
      using m x pos[OF m] by (simp add: wg_grid_def)
  next
    fix k
    assume "k < length (wg_grid THREADS w lw) \<and> (let g = wg_grid THREADS w lw ! k in
       32 * off_x g \<le> tx \<and> tx < 32 * off_x g + ?W \<and> unat (off_y g) \<le> ty \<and> ty < unat (off_y g) + ?H)"
    then have "k mod ?nx = tx div ?W \<and> k div ?nx = ty div ?H" using pos[of k] len by metis
    then show "k = ?m" by (metis div_mult_mod_eq)
  qed
qed

lemma div_round_up_numeral: "div_round_up (numeral a) (numeral b) = (numeral a + numeral b - 1) div numeral b"
  by (simp add: div_round_up_def)

lemma wg_grid_tiles_witness:
  "\<exists>!m. m < length (wg_grid 1024 (mk_work 100 40 WG_WIDTH_64 :: nat work) 7) \<and>
    (let g = wg_grid 1024 (mk_work 100 40 WG_WIDTH_64 :: nat work) 7 ! m in
       32 * off_x g \<le> 70 \<and> 70 < 32 * off_x g + wg_w (wg_width (mk_work 100 40 WG_WIDTH_64 :: nat work)) \<and>
       unat (off_y g) \<le> 20 \<and> 20 < unat (off_y g) + wg_h 1024 (wg_width (mk_work 100 40 WG_WIDTH_64 :: nat work)))"
  by (rule wg_grid_tiles) (simp_all add: work_ok_def mk_work_def wg_w_def wg_h_def wgw_def)

abbreviation (input) "kick_in w \<equiv> \<lparr>in_work = w, in_kick = True, in_exec_fini = False\<rparr>"

definition ws_init :: "'i \<Rightarrow> 'i ws" where
  "ws_init nop = ws_do_rst \<lparr>ws_st = WS_STATE_IDLE, exec_time = 0, prg_load_time = 0, st_threads = 0, st_wgs = 0,
     cycle = 0, start_cycle = 0, sim_stopped = False, l_work = work_default, l_x = 0, l_y = 0, l_pc = 0, l_i = 0,
     l_it = [], l_last_warp = 0, l_fini_upload = 0, out_wg_width = WG_WIDTH_32, out_sched_opts = (\<lambda>_. False),
     out_dim = (\<lambda>_. 0), out_imem_op = (\<lambda>_. nop), out_imem_pc = 0, out_imem_w = False, out_end_prg = False,
     out_xlat_w = False, out_xlat_idx_w = 0, out_xlat_phys_w = Buffer_default, out_sp_xlat_w = False,
     out_sp_xlat_idx_w = 0, out_sp_xlat_phys_w = Buffer_default\<rparr>"

abbreviation (input) "nat_sig \<equiv> \<lparr>sig_default = 0 :: nat, sig_write = (\<lambda>cur v. v)\<rparr>"

theorem ws_enumerates_witness:
  "\<exists>outs s'. runE (ws_thread_lt 1024 128 11 32 (\<lambda>b. b div 8) nat_sig)
      (kick_in (add_op 7 (mk_work 60 100 WG_WIDTH_64)) # replicate 7 (kick_in work_default)) (ws_init 0) = Inr (outs, s') \<and>
    map (\<lambda>g. (off_x g, off_y g)) (concat outs) =
      [(0, 0), (0, 16), (0, 32), (0, 48), (0, 64), (0, 80), (0, 96)] \<and>
    ws_st s' = WS_STATE_WAIT_FINI \<and> out_end_prg s'"
proof -
  let ?w = "add_op 7 (mk_work 60 100 WG_WIDTH_64) :: nat work"
  have g: "grid_x ?w = 1" "grid_y 1024 ?w = 7"
    by (simp_all add: grid_x_def grid_y_def wg_w_def wg_h_def wgw_def add_op_def mk_work_def div_round_up_numeral)
  have ok: "work_ok 1024 ?w" "upload_ok 11 32 ?w"
    by (simp_all add: work_ok_def upload_ok_def wg_w_def wg_h_def wgw_def add_op_def mk_work_def)
      (intro exI[of _ 5], simp)
  have "map (\<lambda>g. (off_x g, off_y g)) (wg_grid 1024 ?w lw) =
      [(0, 0), (0, 16), (0, 32), (0, 48), (0, 64), (0, 80), (0, 96)]" for lw
    unfolding wg_grid_def g grid_wg_def
    by (simp add: upt_rec wg_h_def wg_w_def wgw_def add_op_def mk_work_def g)
  moreover have "length (kick_in ?w # replicate 7 (kick_in work_default)) =
      1 + grid_x (in_work (kick_in ?w)) * grid_y 1024 (in_work (kick_in ?w))"
    by (simp add: g)
  ultimately show ?thesis
    using ws_enumerates[of "ws_init 0" "kick_in ?w" 1024 11 32 "\<lambda>b. b div 8" 1 "replicate 7 (kick_in work_default)" 128 nat_sig] ok
    by (fastforce simp: ws_init_def ws_do_rst_def add_op_def mk_work_def)
qed

text \<open>
  A kernel launched with a vertical dimension of 0, which the constructor of \<open>work\<close> documents as the
  way to launch a one-dimensional kernel, is enumerated as a single work-group whatever its
  horizontal dimension: the row counter is compared with the dimension right after the first one.
\<close>

lemma ws_enum_1d_single:
  assumes "ws_st s = WS_STATE_ENUM_WGS" "dims (l_work s) 1 = 0"
  shows "\<exists>wg s'. ws_thread_lt THREADS LANES PC_WIDTH XLAT load_cycles isg i s = Inr ([wg], s') \<and>
    ws_st s' = WS_STATE_WAIT_FINI \<and> out_end_prg s'"
  using assms by (simp add: ws_thread_lt_def ws_enum_def Let_def)

lemma ws_enum_1d_single_witness:
  "\<exists>wg s'. ws_thread_lt 1024 128 11 32 (\<lambda>b. b) nat_sig (kick_in work_default)
      ((ws_init 0)\<lparr>ws_st := WS_STATE_ENUM_WGS, l_work := mk_work 4096 0 WG_WIDTH_64\<rparr>) = Inr ([wg], s') \<and>
    ws_st s' = WS_STATE_WAIT_FINI \<and> out_end_prg s'"
  by (rule ws_enum_1d_single) (simp_all add: mk_work_def)

end
