(* ===== verification/Isa_Op.thy ===== *)
theory Isa_Op
  imports Registers
begin

text \<open>
  \<open>isa/model/Instruction.h\<close> and the table at the head of \<open>Instruction.cpp\<close>: the operations of the instruction set,
  their modifiers, and what the table \<open>op_validate\<close> says of each: category, name, modifiers, permitted types of the
  operands, whether it is a vector instruction, waits for writes of special registers, pushes the control stack. The
  documentation strings of the table are left out.
\<close>

datatype ISACategory = CAT_ARITH_FP | CAT_ARITH_RCPU | CAT_ARITH_INT | CAT_DATA_COPY | CAT_LDST | CAT_CTRLFLOW |
  CAT_PREDICATE | CAT_DEBUG | CAT_SENTINEL

datatype (plugins only: ) ISAOp =
    NOP | OP_TEST | OP_ITEST | OP_PBOOL | OP_J | OP_SICJ | OP_BRA | OP_CALL | OP_CPUSH | OP_CMASK | OP_CPOP | OP_RET
    | OP_BRK | OP_EXIT | OP_MUL | OP_ADD | OP_MAD | OP_MIN | OP_MAX | OP_ABS | OP_MOV | OP_MOVVSP | OP_SMOV
    | OP_SMOVSSP | OP_CVT | OP_SCVT | OP_BUFQUERY | OP_IADD | OP_ISUB | OP_IMUL | OP_IMAD | OP_IMIN | OP_IMAX | OP_SHL
    | OP_SHR | OP_AND | OP_OR | OP_XOR | OP_NOT | OP_SIADD | OP_SISUB | OP_SIMUL | OP_SIMAD | OP_SIMIN | OP_SIMAX
    | OP_SINEG | OP_SIBFIND | OP_SSHL | OP_SSHR | OP_SIDIV | OP_SIMOD | OP_SAND | OP_SOR | OP_SNOT | OP_RCP | OP_RSQRT
    | OP_SIN | OP_COS | OP_LDGLIN | OP_STGLIN | OP_LDGBIDX | OP_STGBIDX | OP_LDGCIDX | OP_STGCIDX | OP_LDGIDXIT
    | OP_STGIDXIT | OP_LDG2SPTILE | OP_STG2SPTILE | OP_LDSPLIN | OP_STSPLIN | OP_LDSPBIDX | OP_STSPBIDX | OP_SLDG
    | OP_SLDSP | OP_DBG_PRINTSGPR | OP_DBG_PRINTVGPR | OP_DBG_PRINTPR | OP_DBG_PRINTCMASK | OP_DBG_PRINTTRACE
    | OP_SENTINEL

text \<open>The modifiers; the union that holds them is its raw value, which a modifier is read from.\<close>

datatype ISASubOpTEST = TEST_EZ | TEST_NZ | TEST_G | TEST_GE | TEST_L | TEST_LE | TEST_SENTINEL
datatype ISASubOpCPUSH = CPUSH_IF | CPUSH_BRK | CPUSH_RET | CPUSH_SENTINEL
datatype ISASubOpPBOOL = PBOOL_AND | PBOOL_OR | PBOOL_NAND | PBOOL_NOR | PBOOL_SENTINEL
datatype ISASubOpCVT = CVT_I2F | CVT_F2I | CVT_SENTINEL
datatype ISASubOpLDSTLIN = LIN_UNIT | LIN_VEC2 | LIN_VEC4 | LIN_SENTINEL
datatype ISASubOpPRINTCMASK = PRINTCMASK_IF | PRINTCMASK_BRK | PRINTCMASK_RET | PRINTCMASK_EXIT | PRINTCMASK_SENTINEL
datatype ISASubOpFPUMod = FPU_NORMAL | FPU_NEG | FPU_SENTINEL
datatype ISASubOpBUFQUERY = BUFQUERY_DIM_X | BUFQUERY_DIM_Y | BUFQUERY_SENTINEL

type_synonym ISASubOp = nat

text \<open>A raw value past the last modifier takes the default branch of every switch, as the sentinel does.\<close>

definition enum_of :: "'e list \<Rightarrow> 'e \<Rightarrow> nat \<Rightarrow> 'e" where
  "enum_of es e raw = (if raw < length es then es ! raw else e)"

definition so_test :: "ISASubOp \<Rightarrow> ISASubOpTEST" where
  "so_test = enum_of [TEST_EZ, TEST_NZ, TEST_G, TEST_GE, TEST_L, TEST_LE] TEST_SENTINEL"

definition so_cpush :: "ISASubOp \<Rightarrow> ISASubOpCPUSH" where
  "so_cpush = enum_of [CPUSH_IF, CPUSH_BRK, CPUSH_RET] CPUSH_SENTINEL"

definition so_pbool :: "ISASubOp \<Rightarrow> ISASubOpPBOOL" where
  "so_pbool = enum_of [PBOOL_AND, PBOOL_OR, PBOOL_NAND, PBOOL_NOR] PBOOL_SENTINEL"

definition so_cvt :: "ISASubOp \<Rightarrow> ISASubOpCVT" where
  "so_cvt = enum_of [CVT_I2F, CVT_F2I] CVT_SENTINEL"

definition so_ldstlin :: "ISASubOp \<Rightarrow> ISASubOpLDSTLIN" where
  "so_ldstlin = enum_of [LIN_UNIT, LIN_VEC2, LIN_VEC4] LIN_SENTINEL"

definition so_fpumod :: "ISASubOp \<Rightarrow> ISASubOpFPUMod" where
  "so_fpumod = enum_of [FPU_NORMAL, FPU_NEG] FPU_SENTINEL"

definition so_bufquery :: "ISASubOp \<Rightarrow> ISASubOpBUFQUERY" where
  "so_bufquery = enum_of [BUFQUERY_DIM_X, BUFQUERY_DIM_Y] BUFQUERY_SENTINEL"

text \<open>The names of the modifiers.\<close>

definition subop_test_str :: "string list" where
  "subop_test_str = [''ez'', ''nz'', ''g'', ''ge'', ''l'', ''le'']"

definition subop_itest_str :: "string list" where
  "subop_itest_str = [''ez'', ''nz'', ''g'', ''ge'', ''l'', ''le'']"

definition subop_pbool_str :: "string list" where
  "subop_pbool_str = [''and'', ''or'', ''nand'', ''nor'']"

definition subop_cpush_str :: "string list" where
  "subop_cpush_str = [''if'', ''brk'', ''jc'']"

definition subop_cvt_str :: "string list" where
  "subop_cvt_str = [''i2f'', ''f2i'']"

definition subop_ldstlin_str :: "string list" where
  "subop_ldstlin_str = ['''', ''vec2'', ''vec4'']"

definition subop_printcmask_str :: "string list" where
  "subop_printcmask_str = [''if'', ''brk'', ''jc'', ''exit'']"

definition mod_fpu_str :: "string list" where
  "mod_fpu_str = ['''', ''neg'']"

definition subop_bufquery_str :: "string list" where
  "subop_bufquery_str = [''dim_x'', ''dim_y'']"

subsection \<open>The table\<close>

text \<open>A type mask is the list of the types it permits; \<open>REGISTER_NONE\<close> stands for an operand that may be left out.\<close>

type_synonym typemask = "RegisterType list"

record ISAOpSpec =
  sp_cat :: ISACategory
  sp_name :: string
  sp_subops :: "string list"
  sp_src_type :: "typemask list"
  sp_dst_type :: typemask
  sp_vec :: bool
  sp_block_ssp_writes :: bool
  sp_cpush :: bool

definition ISAOpSpec_default :: ISAOpSpec where
  "ISAOpSpec_default = \<lparr>sp_cat = CAT_DEBUG, sp_name = ''ERROR'', sp_subops = [], sp_src_type = [], sp_dst_type = [REGISTER_NONE],
     sp_vec = False, sp_block_ssp_writes = False, sp_cpush = False\<rparr>"

definition ISAOpSpec ::
  "ISACategory \<Rightarrow> string \<Rightarrow> string list \<Rightarrow> typemask list \<Rightarrow> typemask \<Rightarrow> bool \<Rightarrow> bool \<Rightarrow> bool \<Rightarrow> ISAOpSpec" where
  "ISAOpSpec c n subs srcs d v bssp cp =
    \<lparr>sp_cat = c, sp_name = n, sp_subops = subs, sp_src_type = srcs, sp_dst_type = d, sp_vec = v, sp_block_ssp_writes = bssp, sp_cpush = cp\<rparr>"

text \<open>No operation, predicates and control flow.\<close>

definition op_validate_ctrl :: "ISAOp \<Rightarrow> ISAOpSpec \<Rightarrow> ISAOpSpec" where
  "op_validate_ctrl op others = (case op of
      NOP \<Rightarrow> ISAOpSpec CAT_ARITH_FP ''nop'' [] [] [REGISTER_NONE] False False False
    | OP_TEST \<Rightarrow> ISAOpSpec CAT_PREDICATE ''test'' subop_test_str [[REGISTER_VGPR]] [REGISTER_PR] True False False
    | OP_ITEST \<Rightarrow> ISAOpSpec CAT_PREDICATE ''itest'' subop_itest_str [[REGISTER_VGPR]] [REGISTER_PR] True False False
    | OP_PBOOL \<Rightarrow> ISAOpSpec CAT_PREDICATE ''pbool'' subop_pbool_str [[REGISTER_PR], [REGISTER_PR]] [REGISTER_PR] True False False
    | OP_J \<Rightarrow> ISAOpSpec CAT_CTRLFLOW ''j'' [] [[REGISTER_IMM]] [REGISTER_NONE] False False False
    | OP_SICJ \<Rightarrow> ISAOpSpec CAT_CTRLFLOW ''sicj'' subop_itest_str [[REGISTER_IMM], [REGISTER_SGPR]] [REGISTER_NONE] False False False
    | OP_BRA \<Rightarrow> ISAOpSpec CAT_CTRLFLOW ''bra'' [] [[REGISTER_IMM], [REGISTER_PR]] [REGISTER_NONE, REGISTER_VSP] True False True
    | OP_CALL \<Rightarrow> ISAOpSpec CAT_CTRLFLOW ''call'' [] [[REGISTER_IMM], [REGISTER_PR, REGISTER_VSP, REGISTER_NONE]] [REGISTER_NONE, REGISTER_VSP] True False True
    | OP_CPUSH \<Rightarrow> ISAOpSpec CAT_CTRLFLOW ''cpush'' subop_cpush_str [[REGISTER_IMM], [REGISTER_PR, REGISTER_NONE]] [REGISTER_NONE] True False True
    | OP_CMASK \<Rightarrow> ISAOpSpec CAT_CTRLFLOW ''cmask'' [] [[REGISTER_PR]] [REGISTER_NONE, REGISTER_VSP] True False False
    | OP_CPOP \<Rightarrow> ISAOpSpec CAT_CTRLFLOW ''cpop'' [] [] [REGISTER_NONE] True False False
    | OP_RET \<Rightarrow> ISAOpSpec CAT_CTRLFLOW ''ret'' [] [[REGISTER_PR]] [REGISTER_NONE, REGISTER_VSP] True False False
    | OP_BRK \<Rightarrow> ISAOpSpec CAT_CTRLFLOW ''brk'' [] [[REGISTER_PR]] [REGISTER_NONE, REGISTER_VSP] True False False
    | OP_EXIT \<Rightarrow> ISAOpSpec CAT_CTRLFLOW ''exit'' [] [[REGISTER_PR, REGISTER_VSP, REGISTER_NONE]] [REGISTER_NONE, REGISTER_VSP] True False False
    | _ \<Rightarrow> others)"

text \<open>Floating point.\<close>

definition op_validate_fp :: "ISAOp \<Rightarrow> ISAOpSpec \<Rightarrow> ISAOpSpec" where
  "op_validate_fp op others = (case op of
      OP_MAD \<Rightarrow> ISAOpSpec CAT_ARITH_FP ''mad'' mod_fpu_str [[REGISTER_VGPR], [REGISTER_VGPR, REGISTER_SGPR, REGISTER_IMM], [REGISTER_VGPR]] [REGISTER_VGPR] True False False
    | OP_MUL \<Rightarrow> ISAOpSpec CAT_ARITH_FP ''mul'' mod_fpu_str [[REGISTER_VGPR], [REGISTER_VGPR, REGISTER_SGPR, REGISTER_IMM]] [REGISTER_VGPR] True False False
    | OP_ADD \<Rightarrow> ISAOpSpec CAT_ARITH_FP ''add'' mod_fpu_str [[REGISTER_VGPR], [REGISTER_VGPR, REGISTER_SGPR, REGISTER_IMM]] [REGISTER_VGPR] True False False
    | OP_MIN \<Rightarrow> ISAOpSpec CAT_ARITH_FP ''min'' [] [[REGISTER_VGPR], [REGISTER_VGPR, REGISTER_SGPR, REGISTER_IMM]] [REGISTER_VGPR] True False False
    | OP_MAX \<Rightarrow> ISAOpSpec CAT_ARITH_FP ''max'' [] [[REGISTER_VGPR], [REGISTER_VGPR, REGISTER_SGPR, REGISTER_IMM]] [REGISTER_VGPR] True False False
    | OP_ABS \<Rightarrow> ISAOpSpec CAT_ARITH_FP ''abs'' [] [[REGISTER_VGPR]] [REGISTER_VGPR] True False False
    | _ \<Rightarrow> others)"

text \<open>Data copy and conversion.\<close>

definition op_validate_copy :: "ISAOp \<Rightarrow> ISAOpSpec \<Rightarrow> ISAOpSpec" where
  "op_validate_copy op others = (case op of
      OP_MOV \<Rightarrow> ISAOpSpec CAT_DATA_COPY ''mov'' [] [[REGISTER_IMM, REGISTER_VSP]] [REGISTER_VGPR] True False False
    | OP_MOVVSP \<Rightarrow> ISAOpSpec CAT_DATA_COPY ''movvsp'' [] [[REGISTER_IMM, REGISTER_VGPR]] [REGISTER_VSP] True False False
    | OP_SMOVSSP \<Rightarrow> ISAOpSpec CAT_DATA_COPY ''smovssp'' [] [[REGISTER_IMM, REGISTER_SGPR]] [REGISTER_SSP] False False False
    | OP_CVT \<Rightarrow> ISAOpSpec CAT_DATA_COPY ''cvt'' subop_cvt_str [[REGISTER_VSP, REGISTER_SSP, REGISTER_VGPR]] [REGISTER_VGPR] True False False
    | OP_SCVT \<Rightarrow> ISAOpSpec CAT_DATA_COPY ''scvt'' subop_cvt_str [[REGISTER_SGPR, REGISTER_SSP]] [REGISTER_SGPR] False False False
    | OP_BUFQUERY \<Rightarrow> ISAOpSpec CAT_DATA_COPY ''bufquery'' subop_bufquery_str [[REGISTER_IMM]] [REGISTER_SGPR] False False False
    | _ \<Rightarrow> others)"

text \<open>Integer arithmetic, and \<open>smov\<close>, which stands among it.\<close>

definition op_validate_int :: "ISAOp \<Rightarrow> ISAOpSpec \<Rightarrow> ISAOpSpec" where
  "op_validate_int op others = (case op of
      OP_IADD \<Rightarrow> ISAOpSpec CAT_ARITH_INT ''iadd'' [] [[REGISTER_VGPR], [REGISTER_VGPR, REGISTER_SGPR, REGISTER_IMM]] [REGISTER_VGPR] True False False
    | OP_ISUB \<Rightarrow> ISAOpSpec CAT_ARITH_INT ''isub'' [] [[REGISTER_VGPR], [REGISTER_VGPR, REGISTER_SGPR, REGISTER_IMM]] [REGISTER_VGPR] True False False
    | OP_IMUL \<Rightarrow> ISAOpSpec CAT_ARITH_INT ''imul'' [] [[REGISTER_VGPR], [REGISTER_VGPR, REGISTER_SGPR, REGISTER_IMM]] [REGISTER_VGPR] True False False
    | OP_IMAD \<Rightarrow> ISAOpSpec CAT_ARITH_INT ''imad'' [] [[REGISTER_VGPR], [REGISTER_VGPR, REGISTER_SGPR, REGISTER_IMM], [REGISTER_VGPR]] [REGISTER_VGPR] True False False
    | OP_IMIN \<Rightarrow> ISAOpSpec CAT_ARITH_INT ''imin'' [] [[REGISTER_VGPR], [REGISTER_VGPR, REGISTER_SGPR, REGISTER_IMM]] [REGISTER_VGPR] True False False
    | OP_IMAX \<Rightarrow> ISAOpSpec CAT_ARITH_INT ''imax'' [] [[REGISTER_VGPR], [REGISTER_VGPR, REGISTER_SGPR, REGISTER_IMM]] [REGISTER_VGPR] True False False
    | OP_SHL \<Rightarrow> ISAOpSpec CAT_ARITH_INT ''shl'' [] [[REGISTER_VGPR], [REGISTER_SGPR, REGISTER_IMM]] [REGISTER_VGPR] True False False
    | OP_SHR \<Rightarrow> ISAOpSpec CAT_ARITH_INT ''shr'' [] [[REGISTER_VGPR], [REGISTER_SGPR, REGISTER_IMM]] [REGISTER_VGPR] True False False
    | OP_AND \<Rightarrow> ISAOpSpec CAT_ARITH_INT ''and'' [] [[REGISTER_VGPR], [REGISTER_VGPR, REGISTER_SGPR, REGISTER_IMM]] [REGISTER_VGPR] True False False
    | OP_OR \<Rightarrow> ISAOpSpec CAT_ARITH_INT ''or'' [] [[REGISTER_VGPR], [REGISTER_VGPR, REGISTER_SGPR, REGISTER_IMM]] [REGISTER_VGPR] True False False
    | OP_XOR \<Rightarrow> ISAOpSpec CAT_ARITH_INT ''xor'' [] [[REGISTER_VGPR], [REGISTER_VGPR, REGISTER_SGPR, REGISTER_IMM]] [REGISTER_VGPR] True False False
    | OP_NOT \<Rightarrow> ISAOpSpec CAT_ARITH_INT ''not'' [] [[REGISTER_VGPR]] [REGISTER_VGPR] True False False
    | OP_SMOV \<Rightarrow> ISAOpSpec CAT_DATA_COPY ''smov'' [] [[REGISTER_SSP, REGISTER_IMM]] [REGISTER_SGPR] False False False
    | OP_SIADD \<Rightarrow> ISAOpSpec CAT_ARITH_INT ''siadd'' [] [[REGISTER_SGPR], [REGISTER_SGPR, REGISTER_IMM]] [REGISTER_SGPR] False False False
    | OP_SISUB \<Rightarrow> ISAOpSpec CAT_ARITH_INT ''sisub'' [] [[REGISTER_SGPR], [REGISTER_SGPR, REGISTER_IMM]] [REGISTER_SGPR] False False False
    | OP_SIMUL \<Rightarrow> ISAOpSpec CAT_ARITH_INT ''simul'' [] [[REGISTER_SGPR], [REGISTER_SGPR, REGISTER_IMM]] [REGISTER_SGPR] False False False
    | OP_SIMAD \<Rightarrow> ISAOpSpec CAT_ARITH_INT ''simad'' [] [[REGISTER_SGPR], [REGISTER_SGPR, REGISTER_IMM], [REGISTER_SGPR]] [REGISTER_SGPR] False False False
    | OP_SIMIN \<Rightarrow> ISAOpSpec CAT_ARITH_INT ''simin'' [] [[REGISTER_SGPR], [REGISTER_SGPR, REGISTER_IMM]] [REGISTER_SGPR] False False False
    | OP_SIMAX \<Rightarrow> ISAOpSpec CAT_ARITH_INT ''simax'' [] [[REGISTER_SGPR], [REGISTER_SGPR, REGISTER_IMM]] [REGISTER_SGPR] False False False
    | OP_SINEG \<Rightarrow> ISAOpSpec CAT_ARITH_INT ''sineg'' [] [[REGISTER_SGPR]] [REGISTER_SGPR] False False False
    | OP_SIBFIND \<Rightarrow> ISAOpSpec CAT_ARITH_INT ''sibfind'' [] [[REGISTER_SGPR]] [REGISTER_SGPR] False False False
    | OP_SSHL \<Rightarrow> ISAOpSpec CAT_ARITH_INT ''sshl'' [] [[REGISTER_SGPR], [REGISTER_SGPR, REGISTER_IMM]] [REGISTER_SGPR] False False False
    | OP_SSHR \<Rightarrow> ISAOpSpec CAT_ARITH_INT ''sshr'' [] [[REGISTER_SGPR], [REGISTER_SGPR, REGISTER_IMM]] [REGISTER_SGPR] False False False
    | OP_SIDIV \<Rightarrow> ISAOpSpec CAT_ARITH_INT ''sidiv'' [] [[REGISTER_SGPR], [REGISTER_SGPR, REGISTER_IMM]] [REGISTER_SGPR] False False False
    | OP_SIMOD \<Rightarrow> ISAOpSpec CAT_ARITH_INT ''simod'' [] [[REGISTER_SGPR], [REGISTER_SGPR, REGISTER_IMM]] [REGISTER_SGPR] False False False
    | OP_SAND \<Rightarrow> ISAOpSpec CAT_ARITH_INT ''sand'' [] [[REGISTER_SGPR], [REGISTER_SGPR, REGISTER_IMM]] [REGISTER_SGPR] False False False
    | OP_SOR \<Rightarrow> ISAOpSpec CAT_ARITH_INT ''sor'' [] [[REGISTER_SGPR], [REGISTER_SGPR, REGISTER_IMM]] [REGISTER_SGPR] False False False
    | OP_SNOT \<Rightarrow> ISAOpSpec CAT_ARITH_INT ''snot'' [] [[REGISTER_SGPR]] [REGISTER_SGPR] False False False
    | _ \<Rightarrow> others)"

text \<open>Reciprocals and trigonometry.\<close>

definition op_validate_rcpu :: "ISAOp \<Rightarrow> ISAOpSpec \<Rightarrow> ISAOpSpec" where
  "op_validate_rcpu op others = (case op of
      OP_RCP \<Rightarrow> ISAOpSpec CAT_ARITH_RCPU ''rcp'' [] [[REGISTER_VGPR]] [REGISTER_VGPR] True False False
    | OP_RSQRT \<Rightarrow> ISAOpSpec CAT_ARITH_RCPU ''rsqrt'' [] [[REGISTER_VGPR]] [REGISTER_VGPR] True False False
    | OP_SIN \<Rightarrow> ISAOpSpec CAT_ARITH_RCPU ''sin'' [] [[REGISTER_VGPR]] [REGISTER_VGPR] True False False
    | OP_COS \<Rightarrow> ISAOpSpec CAT_ARITH_RCPU ''cos'' [] [[REGISTER_VGPR]] [REGISTER_VGPR] True False False
    | _ \<Rightarrow> others)"

text \<open>Load and store.\<close>

definition op_validate_ldst :: "ISAOp \<Rightarrow> ISAOpSpec \<Rightarrow> ISAOpSpec" where
  "op_validate_ldst op others = (case op of
      OP_LDGLIN \<Rightarrow> ISAOpSpec CAT_LDST ''ldglin'' subop_ldstlin_str [[REGISTER_IMM], [REGISTER_IMM, REGISTER_SGPR, REGISTER_NONE], [REGISTER_IMM, REGISTER_SGPR, REGISTER_NONE]] [REGISTER_VGPR, REGISTER_VSP] False False False
    | OP_STGLIN \<Rightarrow> ISAOpSpec CAT_LDST ''stglin'' subop_ldstlin_str [[REGISTER_IMM], [REGISTER_IMM, REGISTER_SGPR, REGISTER_NONE], [REGISTER_IMM, REGISTER_SGPR, REGISTER_NONE]] [REGISTER_VGPR, REGISTER_VSP] False False False
    | OP_LDGBIDX \<Rightarrow> ISAOpSpec CAT_LDST ''ldgbidx'' [] [[REGISTER_IMM]] [REGISTER_VSP, REGISTER_NONE] False False False
    | OP_STGBIDX \<Rightarrow> ISAOpSpec CAT_LDST ''stgbidx'' [] [[REGISTER_IMM]] [REGISTER_VSP, REGISTER_NONE] False False False
    | OP_LDGCIDX \<Rightarrow> ISAOpSpec CAT_LDST ''ldgcidx'' [] [[REGISTER_IMM], [REGISTER_IMM, REGISTER_SGPR, REGISTER_NONE], [REGISTER_IMM, REGISTER_SGPR, REGISTER_NONE]] [REGISTER_VSP, REGISTER_NONE] False True False
    | OP_STGCIDX \<Rightarrow> ISAOpSpec CAT_LDST ''stgcidx'' [] [[REGISTER_IMM], [REGISTER_IMM, REGISTER_SGPR, REGISTER_NONE], [REGISTER_IMM, REGISTER_SGPR, REGISTER_NONE]] [REGISTER_VSP, REGISTER_NONE] False True False
    | OP_LDGIDXIT \<Rightarrow> ISAOpSpec CAT_LDST ''ldgidxit'' [] [[REGISTER_IMM]] [REGISTER_VGPR] False False False
    | OP_STGIDXIT \<Rightarrow> ISAOpSpec CAT_LDST ''stgidxit'' [] [[REGISTER_IMM]] [REGISTER_VGPR] False False False
    | OP_LDG2SPTILE \<Rightarrow> ISAOpSpec CAT_LDST ''ldg2sptile'' [] [[REGISTER_IMM], [REGISTER_IMM, REGISTER_SGPR, REGISTER_NONE], [REGISTER_IMM, REGISTER_SGPR, REGISTER_NONE]] [REGISTER_IMM] False False False
    | OP_STG2SPTILE \<Rightarrow> ISAOpSpec CAT_LDST ''stg2sptile'' [] [[REGISTER_IMM], [REGISTER_IMM, REGISTER_SGPR, REGISTER_NONE], [REGISTER_IMM, REGISTER_SGPR, REGISTER_NONE]] [REGISTER_IMM] False False False
    | OP_SLDG \<Rightarrow> ISAOpSpec CAT_LDST ''sldg'' [] [[REGISTER_IMM], [REGISTER_IMM, REGISTER_NONE]] [REGISTER_SGPR] False False False
    | OP_SLDSP \<Rightarrow> ISAOpSpec CAT_LDST ''sldsp'' [] [[REGISTER_IMM], [REGISTER_IMM, REGISTER_SGPR, REGISTER_NONE], [REGISTER_IMM, REGISTER_SGPR, REGISTER_NONE]] [REGISTER_SGPR] False True False
    | OP_LDSPLIN \<Rightarrow> ISAOpSpec CAT_LDST ''ldsplin'' [] [[REGISTER_IMM], [REGISTER_IMM, REGISTER_SGPR, REGISTER_NONE], [REGISTER_IMM, REGISTER_SGPR, REGISTER_NONE]] [REGISTER_VGPR, REGISTER_VSP] False False False
    | OP_STSPLIN \<Rightarrow> ISAOpSpec CAT_LDST ''stsplin'' [] [[REGISTER_IMM], [REGISTER_IMM, REGISTER_NONE], [REGISTER_IMM, REGISTER_SGPR, REGISTER_NONE]] [REGISTER_VGPR, REGISTER_VSP] False False False
    | OP_LDSPBIDX \<Rightarrow> ISAOpSpec CAT_LDST ''ldspbidx'' [] [[REGISTER_IMM]] [REGISTER_VSP, REGISTER_NONE] False False False
    | OP_STSPBIDX \<Rightarrow> ISAOpSpec CAT_LDST ''stspbidx'' [] [[REGISTER_IMM]] [REGISTER_VSP, REGISTER_NONE] False False False
    | _ \<Rightarrow> others)"

text \<open>Debugging.\<close>

definition op_validate_debug :: "ISAOp \<Rightarrow> ISAOpSpec \<Rightarrow> ISAOpSpec" where
  "op_validate_debug op others = (case op of
      OP_DBG_PRINTSGPR \<Rightarrow> ISAOpSpec CAT_DEBUG ''printsgpr'' [] [[REGISTER_SGPR]] [REGISTER_NONE] False False False
    | OP_DBG_PRINTVGPR \<Rightarrow> ISAOpSpec CAT_DEBUG ''printvgpr'' [] [[REGISTER_VGPR], [REGISTER_IMM]] [REGISTER_NONE] False False False
    | OP_DBG_PRINTPR \<Rightarrow> ISAOpSpec CAT_DEBUG ''printpr'' [] [[REGISTER_PR]] [REGISTER_NONE] True False False
    | OP_DBG_PRINTCMASK \<Rightarrow> ISAOpSpec CAT_DEBUG ''printcmask'' subop_printcmask_str [] [REGISTER_NONE] True False False
    | OP_DBG_PRINTTRACE \<Rightarrow> ISAOpSpec CAT_DEBUG ''printtrace'' [] [[REGISTER_IMM]] [REGISTER_NONE] False False False
    | _ \<Rightarrow> others)"

text \<open>Each group passes the operations of the others on; an operation that stands nowhere gets a fresh entry.\<close>

definition op_validate :: "ISAOp \<Rightarrow> ISAOpSpec" where
  "op_validate op = op_validate_ctrl op (op_validate_fp op (op_validate_copy op (op_validate_int op (op_validate_rcpu op
     (op_validate_ldst op (op_validate_debug op ISAOpSpec_default))))))"

lemmas op_validate_table = op_validate_ctrl_def op_validate_fp_def op_validate_copy_def op_validate_int_def op_validate_rcpu_def
  op_validate_ldst_def op_validate_debug_def

definition opCategory :: "ISAOp \<Rightarrow> ISACategory" where
  "opCategory op = (if op = OP_SENTINEL then CAT_SENTINEL else sp_cat (op_validate op))"

definition getDefaultSubOp :: "ISAOpSpec \<Rightarrow> int" where
  "getDefaultSubOp sp = (if sp_subops sp \<noteq> [] \<and> hd (sp_subops sp) = [] then 0 else - 1)"

end
