(* ===== verification/Isa_Operand.thy ===== *)
theory Isa_Operand
  imports Registers
begin

text \<open>
  \<open>isa/model/Operand.h\<close>, \<open>Operand.cpp\<close> and \<open>isa/model/Metadata.h\<close>, \<open>Metadata.cpp\<close>: the operands of an
  instruction and the annotations that steer the analysis. A pointer to a basic block is its index in the
  list of blocks of the program, \<open>None\<close> for the null pointer. The constructor from a string is in the theory of
  the parser.
\<close>

subsection \<open>Operands\<close>

datatype OperandType = OPERAND_NONE | OPERAND_REG | OPERAND_IMM | OPERAND_BRANCH_TARGET | OPERAND_SENTINEL

record Operand =
  o_type :: OperandType
  o_rtype :: RegisterType
  o_payload :: u32
  o_branch_target :: string
  o_target_bb :: "nat option"

text \<open>Types the initialiser does not name have the value 0 in the array.\<close>

definition maxPayload :: "RegisterType \<Rightarrow> u32" where
  "maxPayload rt = (case rt of
      REGISTER_VGPR \<Rightarrow> 63 | REGISTER_SGPR \<Rightarrow> 31 | REGISTER_PR \<Rightarrow> 3 | REGISTER_IMM \<Rightarrow> - 1
    | REGISTER_VSP \<Rightarrow> ucast VSP_SENTINEL - 1 | REGISTER_SSP \<Rightarrow> ucast SSP_SENTINEL - 1 | _ \<Rightarrow> 0)"

definition Operand_reg :: "RegisterType \<Rightarrow> u32 \<Rightarrow> Operand res" where
  "Operand_reg rt i =
    (if rt = REGISTER_SENTINEL then Inl Invalid_Access
     else if i > maxPayload rt then Inl Invalid_Argument
     else Inr \<lparr>o_type = OPERAND_REG, o_rtype = rt, o_payload = i, o_branch_target = '''', o_target_bb = None\<rparr>)"

definition Operand_imm :: "u32 \<Rightarrow> Operand" where
  "Operand_imm p = \<lparr>o_type = OPERAND_IMM, o_rtype = REGISTER_IMM, o_payload = p, o_branch_target = '''', o_target_bb = None\<rparr>"

definition Operand_none :: Operand where
  "Operand_none = \<lparr>o_type = OPERAND_NONE, o_rtype = REGISTER_NONE, o_payload = 0, o_branch_target = '''', o_target_bb = None\<rparr>"

definition o_getIndex :: "Operand \<Rightarrow> u32" where
  "o_getIndex v = (if o_type v = OPERAND_REG then o_payload v else 0)"

definition branch_target_resolved :: "Operand \<Rightarrow> bool" where
  "branch_target_resolved v \<longleftrightarrow> o_target_bb v \<noteq> None"

text \<open>\<open>getRegister\<close> without arguments, and with the work-group slot and the column; the row is cut to six bits.\<close>

definition getRegister :: "Operand \<Rightarrow> reg" where
  "getRegister v = Register 0 (o_rtype v) (ucast (o_payload v)) 0"

definition getRegister_wg :: "Operand \<Rightarrow> slot \<Rightarrow> nat \<Rightarrow> reg res" where
  "getRegister_wg v wg c =
    assertE (o_type v \<noteq> OPERAND_BRANCH_TARGET \<or> branch_target_resolved v)
      (Inr (if o_type v = OPERAND_REG then Register wg (o_rtype v) (ucast (o_payload v)) c else Register wg (o_rtype v) 0 0))"

definition getValue :: "Operand \<Rightarrow> u32" where
  "getValue v =
    (if o_type v = OPERAND_IMM then o_payload v
     else if o_type v = OPERAND_BRANCH_TARGET \<and> branch_target_resolved v then o_payload v
     else 0)"

text \<open>The block's program counter is an argument.\<close>

definition resolveBranchTarget :: "Operand \<Rightarrow> nat \<Rightarrow> u32 \<Rightarrow> Operand" where
  "resolveBranchTarget v bb pc = v\<lparr>o_target_bb := Some bb, o_payload := pc\<rparr>"

definition isValid :: "Operand \<Rightarrow> bool" where
  "isValid v \<longleftrightarrow> o_type v \<noteq> OPERAND_SENTINEL"

definition o_isVectorType :: "Operand \<Rightarrow> bool" where
  "o_isVectorType v \<longleftrightarrow> o_type v = OPERAND_REG \<and> isVectorType (o_rtype v)"

definition modifiesCMASK :: "Operand \<Rightarrow> bool" where
  "modifiesCMASK v \<longleftrightarrow> o_type v = OPERAND_REG \<and> o_rtype v = REGISTER_VSP \<and> o_payload v < 4"

definition operand_eq :: "Operand \<Rightarrow> Operand \<Rightarrow> bool" where
  "operand_eq a v \<longleftrightarrow> o_type a = o_type v \<and>
    (case o_type a of
       OPERAND_IMM \<Rightarrow> o_payload a = o_payload v
     | OPERAND_REG \<Rightarrow> o_payload a = o_payload v
     | OPERAND_BRANCH_TARGET \<Rightarrow> o_target_bb a = o_target_bb v \<and>
         (if branch_target_resolved a then o_payload a = o_payload v else o_branch_target a = o_branch_target v)
     | _ \<Rightarrow> True)"

definition operand_reg_eq :: "Operand \<Rightarrow> 'a areg_scheme \<Rightarrow> bool" where
  "operand_reg_eq a r =
    (case o_type a of
       OPERAND_REG \<Rightarrow> o_payload a = ucast (rrow r)
     | OPERAND_IMM \<Rightarrow> rtype r = REGISTER_IMM
     | OPERAND_NONE \<Rightarrow> rtype r = REGISTER_NONE
     | OPERAND_BRANCH_TARGET \<Rightarrow> branch_target_resolved a \<and> rtype r = REGISTER_IMM \<and> o_payload a = ucast (rrow r)
     | _ \<Rightarrow> False)"

lemma operand_eq_refl [simp]: "operand_eq v v"
  by (simp add: operand_eq_def split: OperandType.split)

text \<open>The index of a register operand fits the row of the register it stands for, so no bit is lost.\<close>

lemma maxPayload_lt_64: "rt \<in> {REGISTER_VGPR, REGISTER_SGPR, REGISTER_PR, REGISTER_VSP, REGISTER_SSP} \<Longrightarrow> maxPayload rt < 64"
  by (auto simp: maxPayload_def)

lemma ucast_row: "(i::u32) < 64 \<Longrightarrow> unat (ucast i :: row) = unat i"
  by (simp add: unsigned_ucast_eq take_bit_nat_eq_self word_less_nat_alt)

lemma Operand_reg_row:
  assumes "Operand_reg rt i = Inr v" "rt \<in> {REGISTER_VGPR, REGISTER_SGPR, REGISTER_PR, REGISTER_VSP, REGISTER_SSP}"
  shows "unat (rrow (getRegister v)) = unat i"
proof -
  from assms have "i \<le> maxPayload rt" and v: "o_payload v = i"
    by (auto simp: Operand_reg_def split: if_splits)
  with maxPayload_lt_64[OF assms(2)] have "i < 64" by simp
  then show ?thesis by (simp add: getRegister_def Register_def v ucast_row)
qed

subsection \<open>Annotations\<close>

record Metadata =
  md_branch_taken :: u32
  md_branch_not_taken :: u32
  md_branch_cycle_pos :: u32
  md_branch_cycle_pos_init :: u32
  md_sd_words :: u32
  md_sd_period :: u32
  md_sd_period_cnt :: u32
  md_access_lid :: "64 word"
  md_access_compute_cycles :: "64 word"

definition Metadata_default :: Metadata where
  "Metadata_default = \<lparr>md_branch_taken = 0, md_branch_not_taken = 0, md_branch_cycle_pos = 0, md_branch_cycle_pos_init = 0,
     md_sd_words = 0, md_sd_period = 0, md_sd_period_cnt = 0, md_access_lid = 0, md_access_compute_cycles = 0\<rparr>"

definition md_clone :: "Metadata \<Rightarrow> Metadata" where
  "md_clone m = Metadata_default\<lparr>md_branch_taken := md_branch_taken m, md_branch_not_taken := md_branch_not_taken m,
     md_branch_cycle_pos := md_branch_cycle_pos m, md_branch_cycle_pos_init := md_branch_cycle_pos_init m,
     md_sd_words := md_sd_words m, md_sd_period := md_sd_period m, md_sd_period_cnt := md_sd_period_cnt m\<rparr>"

definition setSDConstants :: "Metadata \<Rightarrow> u32 \<Rightarrow> u32 \<Rightarrow> u32 \<Rightarrow> Metadata" where
  "setSDConstants m w p c = m\<lparr>md_sd_words := w, md_sd_period := p, md_sd_period_cnt := c\<rparr>"

definition md_incrementBranchCycle :: "Metadata \<Rightarrow> Metadata" where
  "md_incrementBranchCycle m =
    (if md_branch_taken m + md_branch_not_taken m = 0 then m
     else m\<lparr>md_branch_cycle_pos := (md_branch_cycle_pos m + 1) mod (md_branch_taken m + md_branch_not_taken m)\<rparr>)"

definition md_resetBranchCycle :: "Metadata \<Rightarrow> Metadata" where
  "md_resetBranchCycle m = m\<lparr>md_branch_cycle_pos := md_branch_cycle_pos_init m\<rparr>"

definition setDRAMlid :: "Metadata \<Rightarrow> 64 word \<Rightarrow> 64 word \<Rightarrow> Metadata" where
  "setDRAMlid m lid ccycles = m\<lparr>md_access_lid := lid, md_access_compute_cycles := ccycles\<rparr>"

definition getDRAMlid :: "Metadata \<Rightarrow> 64 word" where
  "getDRAMlid m = md_access_compute_cycles m"

definition willBranch :: "Metadata \<Rightarrow> bool" where
  "willBranch m \<longleftrightarrow> md_branch_cycle_pos m < md_branch_taken m"

text \<open>
  The branch cycle as a schedule: after \<open>n\<close> increments from position \<open>p\<close> the position is \<open>(p + n)\<close> modulo the length of
  the cycle, so in every cycle the branch is taken \<open>taken\<close> times and not taken \<open>not_taken\<close> times.
\<close>

lemma md_increment_pos:
  assumes "unat (md_branch_taken m) + unat (md_branch_not_taken m) < 2 ^ 32" "0 < unat (md_branch_taken m) + unat (md_branch_not_taken m)"
    "unat (md_branch_cycle_pos m) < unat (md_branch_taken m) + unat (md_branch_not_taken m)"
  shows "unat (md_branch_cycle_pos (md_incrementBranchCycle m)) =
    (unat (md_branch_cycle_pos m) + 1) mod (unat (md_branch_taken m) + unat (md_branch_not_taken m))"
proof -
  have s: "unat (md_branch_taken m + md_branch_not_taken m) = unat (md_branch_taken m) + unat (md_branch_not_taken m)"
    using assms(1) by (simp add: unat_word_ariths)
  then have "md_branch_taken m + md_branch_not_taken m \<noteq> 0"
    using assms(2) by (metis unat_0 less_numeral_extra(3))
  moreover have "unat (md_branch_cycle_pos m + 1) = unat (md_branch_cycle_pos m) + 1"
    using assms(1,3) by (simp add: unat_word_ariths)
  ultimately show ?thesis
    by (simp add: md_incrementBranchCycle_def unat_mod_distrib s)
qed

lemma md_increment_frame [simp]:
  "md_branch_taken (md_incrementBranchCycle m) = md_branch_taken m"
  "md_branch_not_taken (md_incrementBranchCycle m) = md_branch_not_taken m"
  by (simp_all add: md_incrementBranchCycle_def)

lemma md_increment_pow_frame [simp]:
  "md_branch_taken ((md_incrementBranchCycle ^^ n) m) = md_branch_taken m"
  "md_branch_not_taken ((md_incrementBranchCycle ^^ n) m) = md_branch_not_taken m"
  by (induction n) simp_all

lemma md_schedule:
  assumes "unat (md_branch_taken m) + unat (md_branch_not_taken m) < 2 ^ 32"
    "unat (md_branch_cycle_pos m) < unat (md_branch_taken m) + unat (md_branch_not_taken m)"
  shows "unat (md_branch_cycle_pos ((md_incrementBranchCycle ^^ n) m)) =
    (unat (md_branch_cycle_pos m) + n) mod (unat (md_branch_taken m) + unat (md_branch_not_taken m))"
proof (induction n)
  case 0
  show ?case using assms(2) by simp
next
  case (Suc n)
  let ?L = "unat (md_branch_taken m) + unat (md_branch_not_taken m)"
  have "0 < ?L" using assms(2) by linarith
  then have "unat (md_branch_cycle_pos ((md_incrementBranchCycle ^^ n) m)) < ?L" by (simp add: Suc)
  with assms(1) \<open>0 < ?L\<close> have "unat (md_branch_cycle_pos (md_incrementBranchCycle ((md_incrementBranchCycle ^^ n) m))) =
      (unat (md_branch_cycle_pos ((md_incrementBranchCycle ^^ n) m)) + 1) mod ?L"
    by (subst md_increment_pos) simp_all
  then show ?case by (simp add: Suc mod_Suc_eq)
qed

end
