(* ===== verification/Isa_Instruction.thy ===== *)
theory Isa_Instruction
  imports Isa_Op Isa_Operand
begin

text \<open>
  The class \<open>Instruction\<close> of \<open>isa/model/Instruction.h\<close> and \<open>Instruction.cpp\<close>: its fields, constructors, validation, the
  queries the pipeline and the analysis ask, comparison and assignment. The constructor from a string is in the
  theory of the parser. The array of three source operands is a list of length 3; an access past it is
  \<open>Invalid_Access\<close>. The union of modifiers is its raw value. The pointer to the annotation is the annotation
  itself, which assignment clones.
\<close>

record Instruction =
  i_op :: ISAOp
  i_subop :: ISASubOp
  i_dst :: Operand
  i_srcs :: nat
  i_src :: "Operand list"
  i_dead :: bool
  i_on_sb :: bool
  i_on_cstack_sb :: bool
  i_commit :: bool
  i_injected :: bool
  i_line :: int
  i_bb :: int
  i_post_exit :: bool
  i_md :: "Metadata option"

text \<open>The value of the union that no constructor sets is the argument \<open>raw\<close>.\<close>

definition Instruction_default :: "ISASubOp \<Rightarrow> Instruction" where
  "Instruction_default raw = \<lparr>i_op = OP_SENTINEL, i_subop = raw, i_dst = Operand_none, i_srcs = 0, i_src = replicate 3 Operand_none,
     i_dead = True, i_on_sb = False, i_on_cstack_sb = False, i_commit = False, i_injected = False, i_line = - 1, i_bb = - 1,
     i_post_exit = False, i_md = None\<rparr>"

subsection \<open>Names and validation\<close>

definition hasDst :: "Instruction \<Rightarrow> bool" where
  "hasDst i \<longleftrightarrow> o_type (i_dst i) \<noteq> OPERAND_NONE"

text \<open>A modifier past the end of the array of names is read from outside it.\<close>

definition opToString :: "Instruction \<Rightarrow> string res" where
  "opToString i =
    (if i_op i = OP_SENTINEL then Inr ''ERROR''
     else let sp = op_validate (i_op i); out = sp_name sp in
       bindE (if sp_subops sp \<noteq> [] \<and> getDefaultSubOp sp \<noteq> int (i_subop i) then
                if i_subop i < length (sp_subops sp) then Inr (out @ ''.'' @ sp_subops sp ! i_subop i) else Inl Invalid_Access
              else Inr out)
         (\<lambda>out. Inr (if i_post_exit i then out @ ''.post_exit'' else out)))"

definition valid_src :: "Instruction \<Rightarrow> nat \<Rightarrow> bool" where
  "valid_src i k =
    (if i_srcs i \<le> k then REGISTER_NONE \<in> set (sp_src_type (op_validate (i_op i)) ! k)
     else o_rtype (i_src i ! k) \<in> set (sp_src_type (op_validate (i_op i)) ! k))"

definition validate :: "Instruction \<Rightarrow> unit res" where
  "validate i =
    (let sp = op_validate (i_op i) in
     if i_op i = OP_SENTINEL then Inl Invalid_Argument
     else if sp_subops sp \<noteq> [] \<and> i_subop i > length (sp_subops sp) then Inl Invalid_Argument
     else if i_srcs i > length (sp_src_type sp) then Inl Invalid_Argument
     else if \<not> list_all (valid_src i) [0..<length (sp_src_type sp)] then bindE (opToString i) (\<lambda>_. Inl Invalid_Argument)
     else if o_rtype (i_dst i) \<notin> set (sp_dst_type sp) then Inl Invalid_Argument
     else Inr ())"

definition validated :: "Instruction \<Rightarrow> Instruction res" where
  "validated i = bindE (validate i) (\<lambda>_. Inr i)"

text \<open>The constructors from an operation and operands; the operands that are not given are empty.\<close>

definition mk_Instruction :: "ISAOp \<Rightarrow> ISASubOp \<Rightarrow> Operand \<Rightarrow> Operand list \<Rightarrow> Instruction res" where
  "mk_Instruction op raw dst srcs = validated ((Instruction_default raw)\<lparr>i_op := op, i_dst := dst, i_srcs := length srcs,
     i_src := srcs @ replicate (3 - length srcs) Operand_none, i_dead := False\<rparr>)"

definition checkOperandType :: "Operand \<Rightarrow> typemask \<Rightarrow> bool" where
  "checkOperandType v tm =
    (case o_type v of
       OPERAND_BRANCH_TARGET \<Rightarrow> REGISTER_IMM \<in> set tm
     | OPERAND_IMM \<Rightarrow> REGISTER_IMM \<in> set tm
     | OPERAND_REG \<Rightarrow> o_rtype v \<in> set tm
     | _ \<Rightarrow> False)"

subsection \<open>Accessors\<close>

definition getSrc :: "Instruction \<Rightarrow> nat \<Rightarrow> Operand res" where
  "getSrc i s = (if i_srcs i \<le> s then Inl Invalid_Argument else Inr (i_src i ! s))"

definition writesCMASK :: "Instruction \<Rightarrow> bool" where
  "writesCMASK i = (if i_op i = OP_CPOP then True else if \<not> hasDst i then False else modifiesCMASK (i_dst i))"

definition addSrc :: "Instruction \<Rightarrow> Operand \<Rightarrow> Instruction res" where
  "addSrc i v = (if i_srcs i < 3 then Inr (i\<lparr>i_src := (i_src i)[i_srcs i := v], i_srcs := i_srcs i + 1\<rparr>) else Inl Invalid_Access)"

definition setDst :: "Instruction \<Rightarrow> Operand \<Rightarrow> Instruction res" where
  "setDst i v = validated (i\<lparr>i_dst := v\<rparr>)"

definition kill :: "Instruction \<Rightarrow> Instruction" where
  "kill i = (if i_injected i then i else i\<lparr>i_dead := True\<rparr>)"

definition inject :: "Instruction \<Rightarrow> Instruction" where
  "inject i = i\<lparr>i_injected := True\<rparr>"

definition ldst :: "Instruction \<Rightarrow> bool" where
  "ldst i \<longleftrightarrow> i_op i \<noteq> OP_SENTINEL \<and> sp_cat (op_validate (i_op i)) = CAT_LDST"

definition stg :: "Instruction \<Rightarrow> bool" where
  "stg i \<longleftrightarrow> i_op i \<in> {OP_STG2SPTILE, OP_STGBIDX, OP_STGCIDX, OP_STGLIN, OP_STGIDXIT}"

definition setExit :: "Instruction \<Rightarrow> Instruction \<times> bool" where
  "setExit i = (if \<not> stg i then (i, False) else (i\<lparr>i_post_exit := True\<rparr>, True))"

definition ldstsp :: "Instruction \<Rightarrow> bool" where
  "ldstsp i \<longleftrightarrow> i_op i \<in> {OP_LDSPBIDX, OP_LDSPLIN, OP_STSPBIDX, OP_STSPLIN, OP_SLDSP}"

text \<open>The number of registers a load or store names, for the value \<open>words\<close> of the special register.\<close>

definition getConsecutiveDstRegs :: "Instruction \<Rightarrow> u32 \<Rightarrow> u32 res" where
  "getConsecutiveDstRegs i words =
    (if i_op i = OP_SENTINEL \<or> \<not> hasDst i then Inr 0
     else case i_op i of
       OP_SLDG \<Rightarrow> if i_srcs i < 2 then Inr 1
         else bindE (getSrc i 1) (\<lambda>v. assertE (o_type v = OPERAND_IMM) (Inr (getValue v)))
     | OP_SLDSP \<Rightarrow> Inr words
     | OP_LDGLIN \<Rightarrow> Inr (push_bit (i_subop i) 1)
     | OP_STGLIN \<Rightarrow> Inr (push_bit (i_subop i) 1)
     | _ \<Rightarrow> Inr 1)"

definition isVectorInstruction :: "Instruction \<Rightarrow> bool" where
  "isVectorInstruction i \<longleftrightarrow> i_op i \<noteq> OP_SENTINEL \<and> sp_vec (op_validate (i_op i))"

definition blockOnSSPWrites :: "Instruction \<Rightarrow> bool" where
  "blockOnSSPWrites i \<longleftrightarrow> i_op i \<noteq> OP_SENTINEL \<and> sp_block_ssp_writes (op_validate (i_op i))"

definition doesCPUSH :: "Instruction \<Rightarrow> bool" where
  "doesCPUSH i \<longleftrightarrow> i_op i \<noteq> OP_SENTINEL \<and> sp_cpush (op_validate (i_op i))"

subsection \<open>Control flow\<close>

definition is_ctrlflow :: "Instruction \<Rightarrow> bool" where
  "is_ctrlflow i \<longleftrightarrow> i_op i \<noteq> OP_SENTINEL \<and> sp_cat (op_validate (i_op i)) = CAT_CTRLFLOW"

definition bbFinish :: "Instruction \<Rightarrow> bool" where
  "bbFinish i =
    (if i_op i = OP_SENTINEL then False
     else case sp_cat (op_validate (i_op i)) of
       CAT_LDST \<Rightarrow> True
     | CAT_CTRLFLOW \<Rightarrow> i_op i \<noteq> OP_CPUSH
     | _ \<Rightarrow> False)"

definition getBranchTakenDst :: "Instruction \<Rightarrow> nat option" where
  "getBranchTakenDst i =
    (if \<not> is_ctrlflow i then None
     else if i_op i \<in> {OP_J, OP_SICJ, OP_CALL} then o_target_bb (i_src i ! 0)
     else None)"

definition canBranchNotTaken :: "Instruction \<Rightarrow> bool" where
  "canBranchNotTaken i = (if \<not> is_ctrlflow i then True else i_op i \<notin> {OP_J, OP_CPOP, OP_CALL})"

definition mayTakeBranch :: "Instruction \<Rightarrow> bool res" where
  "mayTakeBranch i =
    (if \<not> is_ctrlflow i then Inr False
     else if i_op i = OP_SICJ then (case i_md i of None \<Rightarrow> Inr True | Some m \<Rightarrow> Inr (willBranch m))
     else if i_op i = OP_CPUSH then Inr False
     else if i_op i \<in> {OP_J, OP_BRA, OP_CPOP, OP_RET, OP_BRK, OP_EXIT, OP_CALL} then Inr True
     else Inl Invalid_Argument)"

definition mayTakeFallthrough :: "Instruction \<Rightarrow> bool res" where
  "mayTakeFallthrough i =
    (if \<not> is_ctrlflow i then Inr True
     else if i_op i = OP_SICJ then (case i_md i of None \<Rightarrow> Inr True | Some m \<Rightarrow> Inr (\<not> willBranch m))
     else if i_op i \<in> {OP_J, OP_CALL, OP_CPOP} then Inr False
     else if i_op i \<in> {OP_BRA, OP_CPUSH, OP_CMASK, OP_RET, OP_BRK, OP_EXIT} then Inr True
     else Inl Invalid_Argument)"

definition incrementBranchCycle :: "Instruction \<Rightarrow> Instruction" where
  "incrementBranchCycle i = (if \<not> is_ctrlflow i then i else i\<lparr>i_md := map_option md_incrementBranchCycle (i_md i)\<rparr>)"

definition resetBranchCycle :: "Instruction \<Rightarrow> Instruction" where
  "resetBranchCycle i = (if \<not> is_ctrlflow i then i else i\<lparr>i_md := map_option md_resetBranchCycle (i_md i)\<rparr>)"

subsection \<open>Comparison and assignment\<close>

text \<open>The operations whose modifier takes part in both.\<close>

definition uses_subop :: "ISAOp \<Rightarrow> bool" where
  "uses_subop op \<longleftrightarrow> op \<in> {OP_CPUSH, OP_TEST, OP_ITEST, OP_SICJ, OP_PBOOL, OP_CVT, OP_SCVT, OP_LDGLIN, OP_STGLIN, OP_LDSPLIN,
     OP_STSPLIN, OP_MAD, OP_ADD, OP_MUL, OP_BUFQUERY, OP_DBG_PRINTCMASK}"

definition instr_eq :: "Instruction \<Rightarrow> Instruction \<Rightarrow> bool" where
  "instr_eq i v =
    (if i_op i \<noteq> i_op v then False
     else if uses_subop (i_op i) \<and> i_subop i \<noteq> i_subop v then False
     else if i_srcs i \<noteq> i_srcs v then False
     else if \<not> list_all (\<lambda>k. operand_eq (i_src i ! k) (i_src v ! k)) [0..<i_srcs v] then False
     else operand_eq (i_dst i) (i_dst v) \<and> i_dead i = i_dead v \<and> i_commit i = i_commit v \<and> i_on_sb i = i_on_sb v \<and>
       i_on_cstack_sb i = i_on_cstack_sb v \<and> i_injected i = i_injected v \<and> i_post_exit i = i_post_exit v)"

definition copy_srcs :: "nat \<Rightarrow> Operand list \<Rightarrow> Operand list \<Rightarrow> Operand list" where
  "copy_srcs n vs us = take n vs @ drop n us"

definition instr_assign :: "Instruction \<Rightarrow> Instruction \<Rightarrow> Instruction" where
  "instr_assign i v = \<lparr>i_op = i_op v, i_subop = (if uses_subop (i_op v) then i_subop v else i_subop i), i_dst = i_dst v,
     i_srcs = i_srcs v, i_src = copy_srcs (i_srcs v) (i_src v) (i_src i), i_dead = i_dead v, i_on_sb = i_on_sb v,
     i_on_cstack_sb = i_on_cstack_sb v, i_commit = i_commit v, i_injected = i_injected v, i_line = i_line v, i_bb = i_bb v,
     i_post_exit = i_post_exit v, i_md = map_option md_clone (i_md v)\<rparr>"

text \<open>
  A SystemC signal takes a new value only if it differs from the present one: \<open>write\<close> compares with
  \<open>operator==\<close>, and the update that follows assigns.
\<close>

definition signal_write :: "Instruction \<Rightarrow> Instruction \<Rightarrow> Instruction" where
  "signal_write cur v = (if instr_eq cur v then cur else instr_assign cur v)"


subsection \<open>What holds of every instruction\<close>

text \<open>An assignment makes the two instructions equal, and a valid instruction stays valid: no field that matters is left behind.\<close>

lemma list_eq_copy_srcs: "n \<le> length vs \<Longrightarrow> k < n \<Longrightarrow> copy_srcs n vs us ! k = vs ! k"
  by (simp add: copy_srcs_def nth_append)

lemma instr_assign_eq: "i_srcs v \<le> length (i_src v) \<Longrightarrow> instr_eq (instr_assign i v) v"
  by (auto simp: instr_assign_def instr_eq_def list_all_iff list_eq_copy_srcs)

text \<open>The dead bit: an injected instruction survives, any other is dead afterwards, and nothing else changes.\<close>

lemma kill_dead: "i_dead (kill i) \<longleftrightarrow> i_dead i \<or> \<not> i_injected i"
  by (simp add: kill_def)

text \<open>What a validated instruction satisfies.\<close>

definition well_typed :: "Instruction \<Rightarrow> bool" where
  "well_typed i \<longleftrightarrow> i_op i \<noteq> OP_SENTINEL \<and> i_srcs i \<le> length (sp_src_type (op_validate (i_op i))) \<and>
     (\<forall>k<length (sp_src_type (op_validate (i_op i))). valid_src i k) \<and> o_rtype (i_dst i) \<in> set (sp_dst_type (op_validate (i_op i))) \<and>
     (sp_subops (op_validate (i_op i)) \<noteq> [] \<longrightarrow> i_subop i \<le> length (sp_subops (op_validate (i_op i))))"

lemma validate_iff: "validate i = Inr () \<longleftrightarrow> well_typed i"
proof -
  have "bindE (opToString i) (\<lambda>_. Inl Invalid_Argument) \<noteq> (Inr () :: unit res)"
    by (cases "opToString i") simp_all
  then show ?thesis
    by (auto simp: validate_def well_typed_def Let_def list_all_iff)
qed

end
