(* ===== verification/Isa_Props.thy ===== *)
theory Isa_Props
  imports Isa_Instruction
begin

text \<open>What the analysis of the control flow and the pipeline rely on in the queries of \<open>Instruction\<close>.\<close>

lemma cat_ctrlflow_iff:
  "sp_cat (op_validate op) = CAT_CTRLFLOW \<longleftrightarrow>
     op \<in> {OP_J, OP_SICJ, OP_BRA, OP_CALL, OP_CPUSH, OP_CMASK, OP_CPOP, OP_RET, OP_BRK, OP_EXIT}"
  by (cases op) (simp_all add: op_validate_def op_validate_table ISAOpSpec_def ISAOpSpec_default_def)


lemma is_ctrlflow_iff:
  "is_ctrlflow i \<longleftrightarrow> i_op i \<in> {OP_J, OP_SICJ, OP_BRA, OP_CALL, OP_CPUSH, OP_CMASK, OP_CPOP, OP_RET, OP_BRK, OP_EXIT}"
  by (auto simp: is_ctrlflow_def cat_ctrlflow_iff)

lemmas flow_simps = mayTakeBranch_def mayTakeFallthrough_def canBranchNotTaken_def is_ctrlflow_iff

subsection \<open>The two ways out of a block\<close>

text \<open>
  The query whether an instruction may branch aborts for \<open>OP_CMASK\<close> and for no other operation, while the query
  whether it may fall through never does. Wherever both answer, one of the two ways is open, the way onward is only
  closed for an instruction that has no such way or whose annotation says the branch is taken now, and the annotated
  jump \<open>OP_SICJ\<close> has exactly one open.
\<close>

lemma branch_queries_exact:
  "((\<exists>e. mayTakeBranch i = Inl e) \<longleftrightarrow> i_op i = OP_CMASK) \<and>
   (\<exists>f. mayTakeFallthrough i = Inr f \<and>
     (\<forall>t. mayTakeBranch i = Inr t \<longrightarrow> (t \<or> f) \<and> (i_op i = OP_SICJ \<longrightarrow> i_md i \<noteq> None \<longrightarrow> t \<noteq> f)) \<and>
     (f \<longleftrightarrow> canBranchNotTaken i \<and> \<not> (i_op i = OP_SICJ \<and> (\<exists>m. i_md i = Some m \<and> willBranch m))))"
  by (intro conjI) (auto simp: flow_simps split: option.splits)

lemma branch_queries_exact_witness:
  "mayTakeBranch ((Instruction_default 0)\<lparr>i_op := OP_SICJ, i_md := Some Metadata_default\<rparr>) = Inr False \<and>
   mayTakeFallthrough ((Instruction_default 0)\<lparr>i_op := OP_SICJ, i_md := Some Metadata_default\<rparr>) = Inr True"
proof -
  let ?i = "(Instruction_default 0)\<lparr>i_op := OP_SICJ, i_md := Some Metadata_default\<rparr>"
  have t: "mayTakeBranch ?i = Inr False" by (simp add: flow_simps willBranch_def Metadata_default_def)
  from branch_queries_exact[of ?i] obtain f where f: "mayTakeFallthrough ?i = Inr f" "\<forall>t. mayTakeBranch ?i = Inr t \<longrightarrow> t \<or> f"
    by blast
  with t show ?thesis by auto
qed

subsection \<open>Branch cycles\<close>

lemma incrementBranchCycle_pow:
  assumes "is_ctrlflow i" "i_md i = Some m"
  shows "(incrementBranchCycle ^^ n) i = i\<lparr>i_md := Some ((md_incrementBranchCycle ^^ n) m)\<rparr>"
proof (induction n)
  case 0
  show ?case using assms(2) by (cases i) simp
next
  case (Suc n)
  then show ?case using assms(1) by (simp add: incrementBranchCycle_def is_ctrlflow_def)
qed

lemma shift_mod_count:
  assumes "t \<le> (L::nat)" "0 < L"
  shows "card {n. n < L \<and> (p + n) mod L < t} = t"
proof -
  let ?f = "\<lambda>n. (p + n) mod L"
  have le: "a = b" if "a \<le> b" "b < L" "?f b = ?f a" for a b
  proof -
    have "L dvd (p + b) - (p + a)" using that by (subst mod_eq_dvd_iff_nat[symmetric]) simp_all
    moreover have "b - a < L" "(p + b) - (p + a) = b - a" using that by linarith+
    ultimately have "\<not> 0 < b - a" using nat_dvd_not_less by metis
    with that show ?thesis by simp
  qed
  have inj: "inj_on ?f {..<L}"
    by (rule inj_onI) (metis le lessThan_iff nat_le_linear)
  have im: "?f ` {..<L} = {..<L}"
    using inj assms(2) by (intro endo_inj_surj) auto
  have "?f ` {n. n < L \<and> ?f n < t} = {..<t}"
  proof (rule set_eqI)
    fix x show "x \<in> ?f ` {n. n < L \<and> ?f n < t} \<longleftrightarrow> x \<in> {..<t}"
    proof
      assume "x \<in> {..<t}"
      then have "x \<in> ?f ` {..<L}" using im assms(1) by auto
      then show "x \<in> ?f ` {n. n < L \<and> ?f n < t}" using \<open>x \<in> {..<t}\<close> by auto
    qed auto
  qed
  moreover have "inj_on ?f {n. n < L \<and> ?f n < t}"
    by (rule inj_on_subset[OF inj]) auto
  ultimately show ?thesis using card_image by fastforce
qed

text \<open>
  C28. An annotation \<open>branchcycle taken not_taken\<close> does what it says: wherever in the cycle a conditional jump starts, in
  \<open>taken + not_taken\<close> consecutive executions it branches exactly \<open>taken\<close> times and falls through exactly the other
  times.
\<close>

theorem branch_cycle_exact:
  assumes "i_op i = OP_SICJ" "i_md i = Some m" "unat (md_branch_taken m) + unat (md_branch_not_taken m) < 2 ^ 32"
    "unat (md_branch_cycle_pos m) < unat (md_branch_taken m) + unat (md_branch_not_taken m)"
    "L = unat (md_branch_taken m) + unat (md_branch_not_taken m)"
  shows "card {n. n < L \<and> mayTakeBranch ((incrementBranchCycle ^^ n) i) = Inr True} = unat (md_branch_taken m) \<and>
    mayTakeFallthrough ((incrementBranchCycle ^^ n) i) = Inr (mayTakeBranch ((incrementBranchCycle ^^ n) i) \<noteq> Inr True)"
proof -
  have cf: "is_ctrlflow i" using assms(1) by (simp add: is_ctrlflow_iff)
  have st: "mayTakeBranch ((incrementBranchCycle ^^ n) i) = Inr (willBranch ((md_incrementBranchCycle ^^ n) m))"
     "mayTakeFallthrough ((incrementBranchCycle ^^ n) i) = Inr (\<not> willBranch ((md_incrementBranchCycle ^^ n) m))" for n
    using assms(1) by (simp_all add: incrementBranchCycle_pow[OF cf assms(2)] flow_simps)
  have w: "willBranch ((md_incrementBranchCycle ^^ n) m) \<longleftrightarrow> (unat (md_branch_cycle_pos m) + n) mod L < unat (md_branch_taken m)" for n
    by (simp add: willBranch_def word_less_nat_alt md_schedule[OF assms(3,4)] assms(5))
  have "card {n. n < L \<and> (unat (md_branch_cycle_pos m) + n) mod L < unat (md_branch_taken m)} = unat (md_branch_taken m)"
    using assms(4) by (intro shift_mod_count) (simp_all add: assms(5), linarith)
  then show ?thesis by (simp add: st w)
qed

text \<open>A jump annotated with \<open>branchcycle 2 1 1\<close>.\<close>

definition cycle_2_1_1 :: Instruction where
  "cycle_2_1_1 = (Instruction_default 0)\<lparr>i_op := OP_SICJ, i_md := Some (Metadata_default\<lparr>md_branch_taken := 2,
     md_branch_not_taken := 1, md_branch_cycle_pos := 1, md_branch_cycle_pos_init := 1\<rparr>)\<rparr>"

lemma branch_cycle_exact_witness:
  "card {n. n < 3 \<and> mayTakeBranch ((incrementBranchCycle ^^ n) cycle_2_1_1) = Inr True} = 2"
proof -
  let ?m = "Metadata_default\<lparr>md_branch_taken := 2, md_branch_not_taken := 1, md_branch_cycle_pos := 1, md_branch_cycle_pos_init := 1\<rparr>"
  have ms: "unat (md_branch_taken ?m) = 2" "unat (md_branch_not_taken ?m) = 1" "unat (md_branch_cycle_pos ?m) = 1" by simp_all
  have "card {n. n < 3 \<and> mayTakeBranch ((incrementBranchCycle ^^ n) cycle_2_1_1) = Inr True} = unat (md_branch_taken ?m)"
    by (rule branch_cycle_exact[where n = 0, THEN conjunct1]) (simp add: cycle_2_1_1_def, simp add: cycle_2_1_1_def, simp_all only: ms, simp_all)
  then show ?thesis by (simp only: ms)
qed

subsection \<open>Comparison\<close>

text \<open>
  C30. Whatever register file an operand names, the comparison does not see it: an instruction whose source or
  destination operand is moved from one register file to another, with the same index, compares equal to the
  original. A signal that carries one therefore keeps it when the other is written.
\<close>

theorem signal_keeps_register_file:
  assumes "i_srcs i \<le> length (i_src i)" "k < i_srcs i" "o_type (i_src i ! k) = OPERAND_REG" "o_type (i_dst i) = OPERAND_REG"
    "j = i\<lparr>i_src := (i_src i)[k := (i_src i ! k)\<lparr>o_rtype := t\<rparr>], i_dst := (i_dst i)\<lparr>o_rtype := t'\<rparr>\<rparr>"
  shows "signal_write i j = i"
proof -
  have "operand_eq v (v\<lparr>o_rtype := u\<rparr>)" if "o_type v = OPERAND_REG" for v :: Operand and u
    using that by (simp add: operand_eq_def)
  then have "instr_eq i j"
    using assms by (auto simp: instr_eq_def list_all_iff nth_list_update)
  then show ?thesis by (simp add: signal_write_def)
qed

text \<open>\<open>iadd v1, v2, s3\<close> and \<open>iadd v1, v2, v3\<close> are valid and differ, yet the second does not get past the first.\<close>

definition iadd_v1_v2 :: "RegisterType \<Rightarrow> Instruction" where
  "iadd_v1_v2 t = (Instruction_default 0)\<lparr>i_op := OP_IADD, i_dst := Operand_none\<lparr>o_type := OPERAND_REG, o_rtype := REGISTER_VGPR, o_payload := 1\<rparr>,
     i_srcs := 2, i_src := [Operand_none\<lparr>o_type := OPERAND_REG, o_rtype := REGISTER_VGPR, o_payload := 2\<rparr>,
       Operand_none\<lparr>o_type := OPERAND_REG, o_rtype := t, o_payload := 3\<rparr>, Operand_none], i_dead := False\<rparr>"

lemma iadd_v1_v2_simps:
  "i_op (iadd_v1_v2 t) = OP_IADD" "i_subop (iadd_v1_v2 t) = 0" "i_srcs (iadd_v1_v2 t) = 2"
  "i_dst (iadd_v1_v2 t) = Operand_none\<lparr>o_type := OPERAND_REG, o_rtype := REGISTER_VGPR, o_payload := 1\<rparr>"
  "i_src (iadd_v1_v2 t) = [Operand_none\<lparr>o_type := OPERAND_REG, o_rtype := REGISTER_VGPR, o_payload := 2\<rparr>,
     Operand_none\<lparr>o_type := OPERAND_REG, o_rtype := t, o_payload := 3\<rparr>, Operand_none]"
  by (simp_all only: iadd_v1_v2_def Instruction.simps Instruction_default_def)

lemma iadd_v1_v2_valid: "t \<in> {REGISTER_SGPR, REGISTER_VGPR} \<Longrightarrow> validate (iadd_v1_v2 t) = Inr ()"
proof -
  assume t: "t \<in> {REGISTER_SGPR, REGISTER_VGPR}"
  have sp: "op_validate OP_IADD = ISAOpSpec CAT_ARITH_INT ''iadd'' [] [[REGISTER_VGPR], [REGISTER_VGPR, REGISTER_SGPR, REGISTER_IMM]]
      [REGISTER_VGPR] True False False"
    by (simp add: op_validate_def op_validate_table)
  have "valid_src (iadd_v1_v2 t) 0" "valid_src (iadd_v1_v2 t) 1"
    using t by (auto simp: valid_src_def iadd_v1_v2_simps sp ISAOpSpec_def)
  then show ?thesis
    by (simp add: validate_iff well_typed_def iadd_v1_v2_simps sp ISAOpSpec_def All_less_Suc numeral_2_eq_2)
qed

lemma signal_keeps_register_file_witness:
  "validate (iadd_v1_v2 REGISTER_SGPR) = Inr () \<and> validate (iadd_v1_v2 REGISTER_VGPR) = Inr () \<and>
   i_src (iadd_v1_v2 REGISTER_SGPR) \<noteq> i_src (iadd_v1_v2 REGISTER_VGPR) \<and>
   signal_write (iadd_v1_v2 REGISTER_SGPR) (iadd_v1_v2 REGISTER_VGPR) = iadd_v1_v2 REGISTER_SGPR"
proof (intro conjI)
  have "iadd_v1_v2 REGISTER_VGPR = (iadd_v1_v2 REGISTER_SGPR)\<lparr>
      i_src := (i_src (iadd_v1_v2 REGISTER_SGPR))[1 := (i_src (iadd_v1_v2 REGISTER_SGPR) ! 1)\<lparr>o_rtype := REGISTER_VGPR\<rparr>],
      i_dst := (i_dst (iadd_v1_v2 REGISTER_SGPR))\<lparr>o_rtype := REGISTER_VGPR\<rparr>\<rparr>"
    by (rule Instruction.equality) (simp_all add: iadd_v1_v2_def Operand_none_def)
  then show "signal_write (iadd_v1_v2 REGISTER_SGPR) (iadd_v1_v2 REGISTER_VGPR) = iadd_v1_v2 REGISTER_SGPR"
    by (intro signal_keeps_register_file[where k = 1 and t = REGISTER_VGPR and t' = REGISTER_VGPR])
      (simp_all only: iadd_v1_v2_simps, simp_all)
qed (simp_all add: iadd_v1_v2_valid, simp add: iadd_v1_v2_simps Operand_none_def)

end
