(* ===== verification/Launch.thy ===== *)
theory Launch
  imports Work_Sched Isa_Props
begin

text \<open>
  The front end together with the memories it fills: the work scheduler, the instruction memory and
  the two translation tables, wired as \<open>SimdCluster.h\<close> wires them. On a clock edge the memories take
  the write signals the scheduler drove in the cycle before. The front end is stated for any type of
  instructions; the theorem is about \<open>Instruction\<close>, whose signals \<open>signal_write\<close> describes.
\<close>

record 'i soc =
  soc_imem :: "'i imem"
  soc_xlat :: xlat_tbl
  soc_sp_xlat :: xlat_tbl
  soc_ws :: "'i ws"

definition soc_mem_edge :: "nat \<Rightarrow> nat \<Rightarrow> 'i soc \<Rightarrow> 'i soc res" where
  "soc_mem_edge PCW X c =
    (let s = soc_ws c in
     bindE (imem_thread_wr PCW (out_imem_w s) (out_imem_pc s) (out_imem_op s) (soc_imem c))
       (\<lambda>m. Inr (c\<lparr>soc_imem := m,
          soc_xlat := xlat_thread_wr X (out_xlat_w s) (out_xlat_idx_w s) (out_xlat_phys_w s) (soc_xlat c),
          soc_sp_xlat := xlat_thread_wr X (out_sp_xlat_w s) (out_sp_xlat_idx_w s) (out_sp_xlat_phys_w s) (soc_sp_xlat c)\<rparr>)))"

definition soc_step ::
  "nat \<Rightarrow> nat \<Rightarrow> nat \<Rightarrow> nat \<Rightarrow> (nat \<Rightarrow> nat) \<Rightarrow> 'i instr_sig \<Rightarrow> 'i ws_inputs \<Rightarrow> 'i soc \<Rightarrow> (workgroup list \<times> 'i soc) res" where
  "soc_step T L PCW X lc isg i c =
    bindE (soc_mem_edge PCW X c) (\<lambda>c'.
      bindE (ws_thread_lt T L PCW X lc isg i (soc_ws c)) (\<lambda>(wgs, s). Inr (wgs, c'\<lparr>soc_ws := s\<rparr>)))"

text \<open>What is sent, and what has arrived in the memories: the first \<open>g\<close> groups of instructions, the first \<open>g\<close> buffers.\<close>

definition sent_ops :: "'i instr_sig \<Rightarrow> 'i ws \<Rightarrow> 'i work \<Rightarrow> 'i list" where
  "sent_ops isg s0 w = map (\<lambda>a. sent_op isg s0 (w_imem w) (a mod 4) (Suc (a div 4))) [0..<length (w_imem w)]"

definition arrived :: "'i instr_sig \<Rightarrow> 'i ws \<Rightarrow> 'i work \<Rightarrow> nat \<Rightarrow> 'i soc \<Rightarrow> bool" where
  "arrived isg s0 w g c \<longleftrightarrow> (\<forall>a<length (w_imem w). a < 4 * g \<longrightarrow> soc_imem c a = sent_ops isg s0 w ! a) \<and>
     (\<forall>b<bufs w. b < g \<longrightarrow> soc_xlat c b = sent_buf (out_xlat_phys_w s0) (buf_map w) (Suc b)) \<and>
     (\<forall>b < sp_bufs w. b < g \<longrightarrow> soc_sp_xlat c b = sent_buf (out_sp_xlat_phys_w s0) (sp_buf_map w) (Suc b))"

lemma sent_ops_length [simp]: "length (sent_ops isg s0 w) = length (w_imem w)"
  by (simp add: sent_ops_def)

lemma sent_ops_group:
  "k < 4 \<Longrightarrow> 4 * g + k < length (w_imem w) \<Longrightarrow> sent_ops isg s0 w ! (4 * g + k) = sent_op isg s0 (w_imem w) k (Suc g)"
  by (simp add: sent_ops_def)

lemma xlat_wr_arrives:
  assumes "2 ^ const_log2 X = X" "n \<le> X" "wr \<longleftrightarrow> g < n" "g < n \<Longrightarrow> i = g \<and> v = f g"
    and "\<And>b. b < n \<Longrightarrow> b < g \<Longrightarrow> t b = f b" "b < n" "b < Suc g"
  shows "xlat_thread_wr X wr i v t b = f b"
  using assms by (auto simp: xlat_thread_wr_def xlat_set_def less_Suc_eq)

lemma imem_wr_arrives:
  assumes PCW: "2 \<le> PCW" "length xs \<le> 2 ^ PCW" and wr: "wr \<longleftrightarrow> 4 * g < length xs"
    and op: "4 * g < length xs \<Longrightarrow> pc = 4 * g \<and> (\<forall>k<4. 4 * g + k < length xs \<longrightarrow> op k = xs ! (4 * g + k))"
    and old: "\<And>a. a < length xs \<Longrightarrow> a < 4 * g \<Longrightarrow> m a = xs ! a"
  shows "\<exists>m'. imem_thread_wr PCW wr pc op m = Inr m' \<and> (\<forall>a<length xs. a < 4 * Suc g \<longrightarrow> m' a = xs ! a)"
proof (cases "4 * g < length xs")
  case False
  with wr old show ?thesis by (simp add: imem_thread_wr_def)
next
  case True
  have "(2::nat) ^ PCW = 4 * 2 ^ (PCW - 2)" 
  proof -
    obtain k where "PCW = 2 + k" using PCW(1) le_Suc_ex by blast
    then show ?thesis by (simp add: power_add)
  qed
  moreover from this have "g < 2 ^ (PCW - 2)" using True PCW(2) by simp
  ultimately have room: "4 * g + 4 \<le> 2 ^ PCW" by simp
  let ?m = "put_list (debug_insn_store PCW) (4 * g) (map op [0..<4]) m"
  have "imem_thread_wr PCW wr pc op m = Inr ?m"
    using imem_thread_wr_puts[of "4 * g" PCW op m] room True wr op by simp
  moreover have "?m a = xs ! a" if "a < length xs" "a < 4 * Suc g" for a
    using that room PCW(2) old op[OF True] imem.get_put_list[of "4 * g" "map op [0..<4]" PCW a m]
    by (cases "a < 4 * g") (auto simp: not_less)
  ultimately show ?thesis by blast
qed

lemma edge_arrives:
  assumes ok: "upload_ok PCW X w" and l: "ws_loaded isg s0 w g (soc_ws c)" and a: "arrived isg s0 w g c"
  shows "\<exists>c'. soc_mem_edge PCW X c = Inr c' \<and> arrived isg s0 w (Suc g) c' \<and> soc_ws c' = soc_ws c"
proof -
  let ?s = "soc_ws c"
  have X: "2 ^ const_log2 X = X" "bufs w \<le> X" "sp_bufs w \<le> X" using ok by (auto simp: upload_ok_def)
  obtain m where m: "imem_thread_wr PCW (out_imem_w ?s) (out_imem_pc ?s) (out_imem_op ?s) (soc_imem c) = Inr m"
    "\<forall>a<length (w_imem w). a < 4 * Suc g \<longrightarrow> m a = sent_ops isg s0 w ! a"
    using imem_wr_arrives[of PCW "sent_ops isg s0 w" "out_imem_w ?s" g "out_imem_pc ?s" "out_imem_op ?s" "soc_imem c"]
      ok l a by (auto simp: upload_ok_def ws_loaded_def arrived_def sent_ops_group)
  have x: "xlat_thread_wr X (out_xlat_w ?s) (out_xlat_idx_w ?s) (out_xlat_phys_w ?s) (soc_xlat c) b = sent_buf (out_xlat_phys_w s0) (buf_map w) (Suc b)"
    if "b < bufs w" "b < Suc g" for b
    using xlat_wr_arrives[OF X(1,2) _ _ _ that, of "out_xlat_w ?s" "out_xlat_idx_w ?s" "out_xlat_phys_w ?s" "\<lambda>b. sent_buf (out_xlat_phys_w s0) (buf_map w) (Suc b)"]
      l a by (simp add: ws_loaded_def arrived_def)
  have p: "xlat_thread_wr X (out_sp_xlat_w ?s) (out_sp_xlat_idx_w ?s) (out_sp_xlat_phys_w ?s) (soc_sp_xlat c) b = sent_buf (out_sp_xlat_phys_w s0) (sp_buf_map w) (Suc b)"
    if "b < sp_bufs w" "b < Suc g" for b
    using xlat_wr_arrives[OF X(1,3) _ _ _ that, of "out_sp_xlat_w ?s" "out_sp_xlat_idx_w ?s" "out_sp_xlat_phys_w ?s" "\<lambda>b. sent_buf (out_sp_xlat_phys_w s0) (sp_buf_map w) (Suc b)"]
      l a by (simp add: ws_loaded_def arrived_def)
  show ?thesis using m x p by (simp add: soc_mem_edge_def Let_def arrived_def)
qed

text \<open>The load phase of the scheduler keeps its promise while the first work-group is put out, too.\<close>

lemma ws_loaded_enum: "ws_loaded isg s0 w g s \<Longrightarrow> ws_loaded isg s0 w g (snd (ws_enum T L s))"
  by (simp add: ws_enum_def ws_loaded_def Let_def)

lemma ws_loaded_cycle [simp]: "ws_loaded isg s0 w g (s\<lparr>cycle := n\<rparr>) = ws_loaded isg s0 w g s"
  by (simp add: ws_loaded_def)

lemma ws_loading_step:
  assumes ok: "upload_ok PCW X w" and l: "ws_loading isg s0 w lw g r s" and g: "Suc g < 2 ^ 32"
  shows "\<exists>wgs s'. ws_thread_lt T L PCW X lc isg i s = Inr (wgs, s') \<and> ws_loaded isg s0 w g s' \<and>
    (\<forall>r'. r = Suc r' \<longrightarrow> ws_loading isg s0 w lw (Suc g) r' s')"
proof -
  note I = ws_loading_iter[OF ok l g]
  have st: "ws_st s = WS_STATE_LOAD_KERNEL" using l by (simp add: ws_loading_def)
  show ?thesis
  proof (cases r)
    case 0
    with st I(1,2) ws_loaded_enum[OF I(1), of T L] show ?thesis
      by (simp add: ws_thread_lt_def Let_def split_def)
  next
    case (Suc r')
    with st I(1) I(3)[of r'] show ?thesis
      by (simp add: ws_thread_lt_def Let_def split_def ws_load_frame)
  qed
qed

lemma soc_load_run:
  assumes ok: "upload_ok PCW X w"
  shows "ws_loading isg s0 w lw g r (soc_ws c) \<Longrightarrow> g + r + 1 < 2 ^ 32 \<Longrightarrow> length ins = r \<Longrightarrow>
    soc_mem_edge PCW X c = Inr c1 \<Longrightarrow> soc_ws c1 = soc_ws c \<Longrightarrow> arrived isg s0 w g c1 \<Longrightarrow>
    \<exists>outs c' g'. runE (soc_step T L PCW X lc isg) (i # ins) c = Inr (outs, c') \<and>
      ws_loaded isg s0 w (g + r) (soc_ws c') \<and> arrived isg s0 w (g + r) c'"
proof (induction r arbitrary: g c c1 i ins)
  case 0
  obtain wgs s' where s: "ws_thread_lt T L PCW X lc isg i (soc_ws c) = Inr (wgs, s')" "ws_loaded isg s0 w g s'"
    using ws_loading_step[OF ok "0.prems"(1), where T = T and L = L and lc = lc and i = i] "0.prems"(2) by auto
  with "0.prems" show ?case by (simp add: soc_step_def arrived_def)
next
  case (Suc r)
  then obtain i' is' where is': "ins = i' # is'" "length is' = r" by (cases ins) simp_all
  obtain wgs s' where s: "ws_thread_lt T L PCW X lc isg i (soc_ws c) = Inr (wgs, s')"
      "ws_loaded isg s0 w g s'" "ws_loading isg s0 w lw (Suc g) r s'"
    using ws_loading_step[OF ok Suc.prems(1), where T = T and L = L and lc = lc and i = i] Suc.prems(2) by auto
  let ?c = "c1\<lparr>soc_ws := s'\<rparr>"
  have step: "soc_step T L PCW X lc isg i c = Inr (wgs, ?c)" using Suc.prems(4) s(1) by (simp add: soc_step_def)
  have "arrived isg s0 w g ?c" using Suc.prems(6) by (simp add: arrived_def)
  then obtain c2 where c2: "soc_mem_edge PCW X ?c = Inr c2" "arrived isg s0 w (Suc g) c2" "soc_ws c2 = s'"
    using edge_arrives[OF ok, where g = g and c = ?c] s(2) by auto
  obtain outs c' where "runE (soc_step T L PCW X lc isg) (i' # is') ?c = Inr (outs, c')"
      "ws_loaded isg s0 w (Suc g + r) (soc_ws c')" "arrived isg s0 w (Suc g + r) c'"
    using Suc.IH[of "Suc g" ?c is' c2 i'] s(3) c2 is' Suc.prems(2) by auto
  with step is' show ?case by simp
qed

text \<open>
  What the signals do to the program: every instruction that arrives equals the one sent under \<open>operator==\<close>, and it is
  an assignment of the one sent wherever that differs, under the same comparison, from what the signal held.
\<close>

definition Instruction_sig :: "Instruction instr_sig" where
  "Instruction_sig = \<lparr>sig_default = Instruction_default 0, sig_write = signal_write\<rparr>"

lemma operand_eq_trans: "operand_eq a b \<Longrightarrow> operand_eq a c \<Longrightarrow> operand_eq b c"
  by (cases "o_type a") (auto simp: operand_eq_def branch_target_resolved_def split: if_splits)

lemma instr_eq_iff:
  "instr_eq i v \<longleftrightarrow> i_op i = i_op v \<and> (uses_subop (i_op i) \<longrightarrow> i_subop i = i_subop v) \<and> i_srcs i = i_srcs v \<and>
     (\<forall>k<i_srcs v. operand_eq (i_src i ! k) (i_src v ! k)) \<and> operand_eq (i_dst i) (i_dst v) \<and> i_dead i = i_dead v \<and>
     i_commit i = i_commit v \<and> i_on_sb i = i_on_sb v \<and> i_on_cstack_sb i = i_on_cstack_sb v \<and>
     i_injected i = i_injected v \<and> i_post_exit i = i_post_exit v"
  by (simp add: instr_eq_def list_all_iff atLeast0LessThan Ball_def)

lemma instr_eq_trans: "instr_eq a b \<Longrightarrow> instr_eq a c \<Longrightarrow> instr_eq b c"
proof -
  assume a: "instr_eq a b" and b: "instr_eq a c"
  note A = a[unfolded instr_eq_iff] and B = b[unfolded instr_eq_iff]
  have "operand_eq (i_src b ! k) (i_src c ! k)" if "k < i_srcs c" for k
    using A B that by (auto intro: operand_eq_trans[of "i_src a ! k"])
  moreover have "operand_eq (i_dst b) (i_dst c)" using A B operand_eq_trans by blast
  ultimately show ?thesis using A B by (simp add: instr_eq_iff)
qed

lemma signal_write_eq: "i_srcs v \<le> length (i_src v) \<Longrightarrow> instr_eq (signal_write cur v) v"
  by (simp add: signal_write_def instr_assign_eq)

lemma sent_op_eq:
  assumes "\<And>i. i \<in> set xs \<Longrightarrow> i_srcs i \<le> length (i_src i)" "a < length xs"
    and v_def: "v = sent_op Instruction_sig s0 xs (a mod 4) (Suc (a div 4))"
  shows "instr_eq v (xs ! a)"
    and "\<not> instr_eq (if a < 4 then out_imem_op s0 a else xs ! (a - 4)) (xs ! a) \<Longrightarrow> \<exists>x. v = instr_assign x (xs ! a)"
proof -
  let ?c = "sent_op Instruction_sig s0 xs (a mod 4) (a div 4)"
  have v: "v = signal_write ?c (xs ! a)" by (simp add: v_def sent_op_Suc Instruction_sig_def)
  show "instr_eq v (xs ! a)" unfolding v using assms(1,2) by (simp add: signal_write_eq)
  assume ne: "\<not> instr_eq (if a < 4 then out_imem_op s0 a else xs ! (a - 4)) (xs ! a)"
  have "\<not> instr_eq ?c (xs ! a)"
  proof (cases "a div 4")
    case 0
    then show ?thesis using ne by (simp add: div_eq_0_iff)
  next
    case (Suc n)
    then have a: "4 * n + a mod 4 = a - 4" "\<not> a < 4" using div_mult_mod_eq[of a 4] by auto
    have "instr_eq ?c (xs ! (a - 4))"
      using assms(1,2) a by (simp add: Suc sent_op_Suc Instruction_sig_def signal_write_eq)
    from instr_eq_trans[OF this] show ?thesis using ne a(2) by auto
  qed
  then show "\<exists>x. v = instr_assign x (xs ! a)" by (auto simp: v signal_write_def)
qed

lemma sent_buf_eq:
  "buffer_eq (sent_buf b0 f (Suc b)) (f b)"
  "\<not> buffer_eq (if b = 0 then b0 else f (b - 1)) (f b) \<Longrightarrow> sent_buf b0 f (Suc b) = f b"
proof -
  show "buffer_eq (sent_buf b0 f (Suc b)) (f b)" by (simp add: sent_buf_Suc buffer_eq_write)
  assume ne: "\<not> buffer_eq (if b = 0 then b0 else f (b - 1)) (f b)"
  have "\<not> buffer_eq (sent_buf b0 f b) (f b)"
    using ne by (cases b) (auto simp: sent_buf_Suc dest: buffer_eq_trans[OF buffer_eq_write])
  then show "sent_buf b0 f (Suc b) = f b" by (simp add: sent_buf_Suc buffer_write_def)
qed

text \<open>
  C3. Whatever the program and its buffers, provided they fit the memories, and whatever load time the estimate gives,
  as long as it covers four instructions and one buffer of each kind per cycle: at the clock edge after the
  cycle that puts out the first work-group no write has left the memories, and every entry of the instruction memory and of
  the two translation tables is equal, under the class's own comparison, to the instruction or buffer of the kernel.
  It is the instruction or buffer itself wherever that differs, under the comparison, from the value sent before it over
  the same signal, the instruction four places earlier or the buffer one place earlier. The comparison sees neither the
  register file of an operand nor the dimensions of a buffer, so those two may be the earlier ones elsewhere.
\<close>

theorem launch_uploads:
  assumes "ws_st (soc_ws c) = WS_STATE_IDLE" "in_kick i" "w_imem (in_work i) \<noteq> []"
    and "\<not> out_imem_w (soc_ws c)" "\<not> out_xlat_w (soc_ws c)" "\<not> out_sp_xlat_w (soc_ws c)"
    and "work_ok THREADS (in_work i)" "upload_ok PC_WIDTH XLAT (in_work i)"
    and "load_cycles (length (w_imem (in_work i)) * 8) = t" "t + 1 < 2 ^ 32"
    and "length (w_imem (in_work i)) \<le> 4 * (t + 1)" "bufs (in_work i) \<le> t + 1" "sp_bufs (in_work i) \<le> t + 1"
    and "length ins = t" "\<forall>v\<in>set (w_imem (in_work i)). i_srcs v \<le> length (i_src v)"
  shows "\<exists>outs c' c''. runE (soc_step THREADS LANES PC_WIDTH XLAT load_cycles Instruction_sig) (i # ins) c = Inr (outs, c') \<and>
    soc_mem_edge PC_WIDTH XLAT c' = Inr c'' \<and>
    (\<forall>a<length (w_imem (in_work i)). instr_eq (soc_imem c'' a) (w_imem (in_work i) ! a) \<and>
      (\<not> instr_eq (if a < 4 then out_imem_op (soc_ws c) a else w_imem (in_work i) ! (a - 4)) (w_imem (in_work i) ! a) \<longrightarrow>
        (\<exists>x. soc_imem c'' a = instr_assign x (w_imem (in_work i) ! a)))) \<and>
    (\<forall>b<bufs (in_work i). buffer_eq (soc_xlat c'' b) (buf_map (in_work i) b) \<and>
      (\<not> buffer_eq (if b = 0 then out_xlat_phys_w (soc_ws c) else buf_map (in_work i) (b - 1)) (buf_map (in_work i) b) \<longrightarrow>
        soc_xlat c'' b = buf_map (in_work i) b)) \<and>
    (\<forall>b < sp_bufs (in_work i). buffer_eq (soc_sp_xlat c'' b) (sp_buf_map (in_work i) b) \<and>
      (\<not> buffer_eq (if b = 0 then out_sp_xlat_phys_w (soc_ws c) else sp_buf_map (in_work i) (b - 1)) (sp_buf_map (in_work i) b) \<longrightarrow>
        soc_sp_xlat c'' b = sp_buf_map (in_work i) b))"
proof -
  let ?I = Instruction_sig and ?s = "soc_ws c"
  let ?w = "work_assign (l_work ?s) (in_work i)"
  let ?step = "soc_step THREADS LANES PC_WIDTH XLAT load_cycles ?I"
  obtain s1 where s1: "ws_loading ?I ?s ?w (launch_warp THREADS LANES) 0 t s1"
    "ws_thread_lt THREADS LANES PC_WIDTH XLAT load_cycles ?I i ?s =
      ws_thread_lt THREADS LANES PC_WIDTH XLAT load_cycles ?I i s1"
    "ws_sig s1 = ws_sig ?s"
    using ws_kick[OF assms(1-3,7), where L = LANES and lc = load_cycles and PCW = PC_WIDTH and X = XLAT and isg = ?I] assms(9) by metis
  have ok: "upload_ok PC_WIDTH XLAT ?w" using assms(8) by simp
  let ?c = "c\<lparr>soc_ws := s1\<rparr>"
  have e: "soc_mem_edge PC_WIDTH XLAT c = Inr c" "soc_mem_edge PC_WIDTH XLAT ?c = Inr ?c"
    using assms(4-6) s1(3) by (simp_all add: soc_mem_edge_def Let_def imem_thread_wr_def xlat_thread_wr_def ws_sig_def)
  have "?step i c = ?step i ?c" using s1(2) by (simp add: soc_step_def e)
  then have same: "runE ?step (i # ins) c = runE ?step (i # ins) ?c" by simp
  obtain outs c' where run: "runE ?step (i # ins) ?c = Inr (outs, c')" "ws_loaded ?I ?s ?w t (soc_ws c')" "arrived ?I ?s ?w t c'"
    using soc_load_run[OF ok, where isg = ?I and ?s0.0 = ?s and lw = "launch_warp THREADS LANES" and g = 0 and r = t and c = ?c
      and ins = ins and ?c1.0 = ?c and T = THREADS and L = LANES and lc = load_cycles and i = i]
      s1(1) e(2) assms(10,14) by (auto simp: arrived_def)
  obtain c'' where c'': "soc_mem_edge PC_WIDTH XLAT c' = Inr c''" "arrived ?I ?s ?w (Suc t) c''"
    using edge_arrives[OF ok run(2,3)] by blast
  have ops: "soc_imem c'' a = sent_op ?I ?s (w_imem (in_work i)) (a mod 4) (Suc (a div 4))" if "a < length (w_imem (in_work i))" for a
    using c''(2) assms(11) that by (simp add: arrived_def sent_ops_def)
  have buf: "soc_xlat c'' b = sent_buf (out_xlat_phys_w ?s) (buf_map ?w) (Suc b)" if "b < bufs (in_work i)" for b
    using c''(2) assms(12) that by (simp add: arrived_def)
  have sp: "soc_sp_xlat c'' b = sent_buf (out_sp_xlat_phys_w ?s) (sp_buf_map ?w) (Suc b)" if "b < sp_bufs (in_work i)" for b
    using c''(2) assms(13) that by (simp add: arrived_def)
  note O = sent_op_eq[OF bspec[OF assms(15)] _ refl]
  note B = sent_buf_eq[where ?b0.0 = "out_xlat_phys_w ?s" and f = "buf_map ?w"] and P = sent_buf_eq[where ?b0.0 = "out_sp_xlat_phys_w ?s" and f = "sp_buf_map ?w"]
  have P1: "instr_eq (soc_imem c'' a) (w_imem (in_work i) ! a) \<and>
      (\<not> instr_eq (if a < 4 then out_imem_op ?s a else w_imem (in_work i) ! (a - 4)) (w_imem (in_work i) ! a) \<longrightarrow>
        (\<exists>x. soc_imem c'' a = instr_assign x (w_imem (in_work i) ! a)))" if "a < length (w_imem (in_work i))" for a
    unfolding ops[OF that] using O(1)[OF _ that] O(2)[OF _ that] by blast
  have P2: "buffer_eq (soc_xlat c'' b) (buf_map (in_work i) b) \<and>
      (\<not> buffer_eq (if b = 0 then out_xlat_phys_w ?s else buf_map (in_work i) (b - 1)) (buf_map (in_work i) b) \<longrightarrow>
        soc_xlat c'' b = buf_map (in_work i) b)" if "b < bufs (in_work i)" for b
    using B[where b = b] that by (cases b) (simp_all add: buf work_assign_bufs)
  have P3: "buffer_eq (soc_sp_xlat c'' b) (sp_buf_map (in_work i) b) \<and>
      (\<not> buffer_eq (if b = 0 then out_sp_xlat_phys_w ?s else sp_buf_map (in_work i) (b - 1)) (sp_buf_map (in_work i) b) \<longrightarrow>
        soc_sp_xlat c'' b = sp_buf_map (in_work i) b)" if "b < sp_bufs (in_work i)" for b
    using P[where b = b] that by (cases b) (simp_all add: sp work_assign_bufs)
  show ?thesis
    unfolding same using run(1) c''(1) P1 P2 P3 by blast
qed

theorem launch_uploads_witness:
  "\<exists>outs c' c''. runE (soc_step 1024 128 11 32 (\<lambda>b. b div 8) Instruction_sig)
      (kick_in (add_buf 32 (mk_Buffer 4096 64 64) (add_op (iadd_v1_v2 REGISTER_VGPR) (add_op (iadd_v1_v2 REGISTER_SGPR) (mk_work 60 100 WG_WIDTH_64)))) #
        replicate 2 (kick_in work_default))
      \<lparr>soc_imem = (\<lambda>_. Instruction_default 0), soc_xlat = (\<lambda>_. Buffer_default), soc_sp_xlat = (\<lambda>_. Buffer_default), soc_ws = ws_init (Instruction_default 0)\<rparr>
      = Inr (outs, c') \<and>
    soc_mem_edge 11 32 c' = Inr c'' \<and> (\<exists>x. soc_imem c'' 1 = instr_assign x (iadd_v1_v2 REGISTER_VGPR)) \<and>
    soc_xlat c'' 0 = mk_Buffer 4096 64 64"
proof -
  let ?w = "add_buf 32 (mk_Buffer 4096 64 64) (add_op (iadd_v1_v2 REGISTER_VGPR) (add_op (iadd_v1_v2 REGISTER_SGPR) (mk_work 60 100 WG_WIDTH_64)))"
  let ?s = "ws_init (Instruction_default 0)"
  let ?c = "\<lparr>soc_imem = (\<lambda>_. Instruction_default 0), soc_xlat = (\<lambda>_. Buffer_default), soc_sp_xlat = (\<lambda>_. Buffer_default), soc_ws = ?s\<rparr>"
  have f: "w_imem ?w = [iadd_v1_v2 REGISTER_SGPR, iadd_v1_v2 REGISTER_VGPR]" "bufs ?w = 1" "sp_bufs ?w = 0"
      "buf_map ?w 0 = mk_Buffer 4096 64 64"
    by (simp_all add: add_buf_def add_op_def mk_work_def)
  have ok: "work_ok 1024 ?w" "upload_ok 11 32 ?w"
    by (simp_all add: work_ok_def upload_ok_def wg_w_def wg_h_def wgw_def add_op_def add_buf_def mk_work_def)
      (intro exI[of _ 5], simp)
  have s: "ws_st ?s = WS_STATE_IDLE" "\<not> out_imem_w ?s" "\<not> out_xlat_w ?s" "\<not> out_sp_xlat_w ?s"
      "out_imem_op ?s k = Instruction_default 0" "out_xlat_phys_w ?s = Buffer_default" for k
    by (simp_all add: ws_init_def ws_do_rst_def)
  have n: "\<not> instr_eq (Instruction_default 0) (iadd_v1_v2 t)" for t
    by (simp add: instr_eq_def iadd_v1_v2_simps) (simp add: Instruction_default_def)
  have b: "\<not> buffer_eq Buffer_default (mk_Buffer 4096 64 64)"
    by (simp add: buffer_eq_def Buffer_default_def mk_Buffer_def)
  note L = launch_uploads[where THREADS = 1024 and t = 2 and i = "kick_in ?w" and c = ?c and PC_WIDTH = 11 and XLAT = 32
      and load_cycles = "\<lambda>b. b div 8" and ins = "replicate 2 (kick_in work_default)" and LANES = 128]
  show ?thesis
  proof -
    obtain outs c' c'' where r: "runE (soc_step 1024 128 11 32 (\<lambda>b. b div 8) Instruction_sig)
          (kick_in ?w # replicate 2 (kick_in work_default)) ?c = Inr (outs, c')" "soc_mem_edge 11 32 c' = Inr c''"
      and i: "\<forall>a<length (w_imem ?w). instr_eq (soc_imem c'' a) (w_imem ?w ! a) \<and>
        (\<not> instr_eq (if a < 4 then out_imem_op ?s a else w_imem ?w ! (a - 4)) (w_imem ?w ! a) \<longrightarrow>
        (\<exists>x. soc_imem c'' a = instr_assign x (w_imem ?w ! a)))"
      and u: "\<forall>b<bufs ?w. buffer_eq (soc_xlat c'' b) (buf_map ?w b) \<and>
        (\<not> buffer_eq (if b = 0 then out_xlat_phys_w ?s else buf_map ?w (b - 1)) (buf_map ?w b) \<longrightarrow> soc_xlat c'' b = buf_map ?w b)"
      using L ok s f by (auto simp: iadd_v1_v2_simps)
    have "\<exists>x. soc_imem c'' 1 = instr_assign x (iadd_v1_v2 REGISTER_VGPR)"
      using i[rule_format, of 1] n s by (simp add: f)
    moreover have "soc_xlat c'' 0 = mk_Buffer 4096 64 64"
      using u[rule_format, of 0] b s by (simp add: f)
    ultimately show ?thesis using r by blast
  qed
qed

text \<open>What is lost otherwise: of two neighbouring buffers at one address the second arrives with the dimensions of the first.\<close>

lemma equal_address_keeps_dims:
  assumes "f (Suc b) = mk_Buffer a x y" "f b = mk_Buffer a x' y'" "sent_buf b0 f (Suc b) = f b"
  shows "sent_buf b0 f (Suc (Suc b)) = mk_Buffer a x' y'"
  using assms by (simp add: sent_buf_Suc[of _ _ "Suc b"] buffer_write_def buffer_eq_def mk_Buffer_def)

end
