(* ===== verification/Hazard_Detect.thy ===== *)
theory Hazard_Detect
  imports Registers
begin

text \<open>
  \<open>compute/control/RegHazardDetect.h\<close> with its two implementations
  \<open>RegHazardDetect_1R1W_16b.h\<close> and \<open>RegHazardDetect_3R1W.h\<close>: which register reads of an instruction,
  and which words of a memory transfer, collide on a bank of the register file. The virtual
  \<open>map_idx\<close> is a function of the implementation chosen.
\<close>

datatype hazard_kind = RHD_1R1W_16b | RHD_3R1W

record hazard_detect =
  hd_kind :: hazard_kind
  read_ports :: nat
  vrf_bank_words :: nat

definition RegHazardDetect_1R1W_16b :: hazard_detect where
  "RegHazardDetect_1R1W_16b = \<lparr>hd_kind = RHD_1R1W_16b, read_ports = 1, vrf_bank_words = 4\<rparr>"

definition RegHazardDetect_3R1W :: hazard_detect where
  "RegHazardDetect_3R1W = \<lparr>hd_kind = RHD_3R1W, read_ports = 3, vrf_bank_words = 4\<rparr>"

definition set_vrf_bank_words :: "nat \<Rightarrow> hazard_detect \<Rightarrow> hazard_detect" where
  "set_vrf_bank_words w h = h\<lparr>vrf_bank_words := w\<rparr>"

text \<open>Bank and row; \<open>idx & ~1\<close> clears the lowest bit.\<close>

definition map_idx_1R1W_16b :: "nat \<Rightarrow> nat \<Rightarrow> RegisterType \<Rightarrow> nat \<Rightarrow> nat \<times> nat" where
  "map_idx_1R1W_16b THREADS bw t idx =
    (case t of
       REGISTER_VGPR \<Rightarrow>
         (let bank = idx AND (THREADS div 2 - 1);
              bank = bank OR drop_bit 1 (idx AND push_bit (const_log2 THREADS) 3);
              bank = drop_bit (const_log2 bw) bank;
              row = drop_bit (const_log2 (THREADS div 2)) idx AND 1;
              row = row OR (drop_bit (const_log2 (2 * THREADS)) idx div 2 * 2)
          in (bank, row))
     | REGISTER_SGPR \<Rightarrow> (idx, 0)
     | _ \<Rightarrow> (0, 0))"

definition map_idx_3R1W :: "nat \<Rightarrow> nat \<Rightarrow> RegisterType \<Rightarrow> nat \<Rightarrow> nat \<times> nat" where
  "map_idx_3R1W LANES bw t idx =
    (case t of
       REGISTER_VGPR \<Rightarrow> ((idx AND (LANES - 1)) div bw, drop_bit (const_log2 LANES) idx)
     | REGISTER_SGPR \<Rightarrow> (idx, 0)
     | _ \<Rightarrow> (0, 0))"

text \<open>The parameter \<open>idx\<close> is a \<open>sc_uint<const_log2(THREADS) + 2>\<close>: the caller's value is truncated.\<close>

definition map_idx :: "nat \<Rightarrow> nat \<Rightarrow> hazard_detect \<Rightarrow> RegisterType \<Rightarrow> nat \<Rightarrow> nat \<times> nat" where
  "map_idx THREADS LANES h t i =
    (let idx = i mod 2 ^ (const_log2 THREADS + 2) in
     case hd_kind h of
       RHD_1R1W_16b \<Rightarrow> map_idx_1R1W_16b THREADS (vrf_bank_words h) t idx
     | RHD_3R1W \<Rightarrow> map_idx_3R1W LANES (vrf_bank_words h) t idx)"

definition execute_bank_conflict :: "nat \<Rightarrow> nat \<Rightarrow> hazard_detect \<Rightarrow> reg_read_req \<Rightarrow> nat \<Rightarrow> bool" where
  "execute_bank_conflict THREADS LANES h req =
    (if read_ports h \<ge> 3 then (\<lambda>_. False)
     else
       let m = (\<lambda>i. map_idx THREADS LANES h (rtype (rq_reg req i)) (unat (rrow (rq_reg req i)) * THREADS));
           bank = (\<lambda>i. fst (m i)); row = (\<lambda>i. snd (m i));
           ty = (\<lambda>i. rtype (rq_reg req i)); r = rq_r req
       in if read_ports h = 1 then
            (let c = (\<lambda>_. False);
                 c = (if r 0 \<and> r 1 \<and> ty 0 = ty 1 \<and> bank 0 = bank 1 \<and> row 0 \<noteq> row 1 then c(0 := True) else c);
                 c = (if r 0 \<and> r 2 \<and> ty 0 = ty 2 \<and> bank 0 = bank 2 \<and> row 0 \<noteq> row 2 then c(0 := True) else c);
                 c = (if r 1 \<and> r 2 \<and> ty 1 = ty 2 \<and> bank 1 = bank 2 \<and> row 1 \<noteq> row 2 then c(1 := True) else c)
             in c)
          else if read_ports h = 2 then
            (if r 0 \<and> r 1 \<and> r 2 \<and> ty 0 = ty 1 \<and> ty 1 = ty 2 \<and> bank 0 = bank 1 \<and> bank 0 = bank 2 \<and>
                row 0 \<noteq> row 1 \<and> row 0 \<noteq> row 2 \<and> row 1 \<noteq> row 2
             then (\<lambda>_. False)(0 := True) else (\<lambda>_. False))
          else (\<lambda>_. False))"

text \<open>\<open>W\<close> is the number of words of the bus: both overloads have this body.\<close>

definition access_vrf_bank_conflict ::
  "nat \<Rightarrow> nat \<Rightarrow> hazard_detect \<Rightarrow> nat \<Rightarrow> (nat \<Rightarrow> reg_offset) \<Rightarrow> (nat \<Rightarrow> bool) \<Rightarrow> nat \<Rightarrow> bool" where
  "access_vrf_bank_conflict THREADS LANES h W idx msk =
    (let m = (\<lambda>i. map_idx THREADS LANES h REGISTER_VGPR (off_row THREADS (idx i) * THREADS + off_lane THREADS (idx i)))
     in for_upto W (\<lambda>i c.
          if i < 1 \<or> \<not> msk i then c
          else for_upto i (\<lambda>j c.
                 if \<not> msk j then c
                 else if fst (m i) = fst (m j) \<and> snd (m i) \<noteq> snd (m j) then c(i := True) else c) c)
          (\<lambda>_. False))"

definition ae_hazard :: "areg \<Rightarrow> reg \<Rightarrow> bool" where
  "ae_hazard access_reg exec_reg =
    (if rtype exec_reg = REGISTER_IMM then False else rwg access_reg = rwg exec_reg)"

subsection \<open>What the mapping separates\<close>

lemma idx_trunc:
  assumes T: "T = 2 ^ k" and l: "l < T"
  shows "(r * T + l) mod 2 ^ (const_log2 T + 2) = (r mod 4) * T + l"
proof -
  have "(r * T + l) mod (T * 4) = T * ((r * T + l) div T mod 4) + (r * T + l) mod T"
    by (rule mod_mult2_eq)
  then show ?thesis using l by (simp add: T power_add ac_simps)
qed

lemma and_one_double: "(x::nat) < 2 \<Longrightarrow> (2 * a + x) AND 1 = x"
  unfolding and_one_eq by presburger

lemma map_idx_16b:
  assumes T: "T = 2 ^ Suc k" and l: "l < T" and h: "hd_kind h = RHD_1R1W_16b" "vrf_bank_words h = 2 ^ b"
  shows "map_idx T L h REGISTER_VGPR (r * T + l) = (((r mod 4) * 2 ^ k + l mod 2 ^ k) div 2 ^ b, l div 2 ^ k)"
proof -
  let ?i = "(r mod 4) * 2 ^ Suc k + l"
  have lt: "l < 2 ^ Suc k" using l T by simp
  have 1: "?i AND (T div 2 - 1) = l mod 2 ^ k"
    by (simp add: T and_mask_nat mod_mult_right_eq[symmetric]) (simp add: mod_add_eq[symmetric])
  have "?i AND push_bit (Suc k) 3 = push_bit (Suc k) (drop_bit (Suc k) ?i AND 3)"
    by (rule and_push_bit_nat)
  also have "drop_bit (Suc k) ?i = r mod 4"
    using lt by (simp add: drop_bit_eq_div del: power_Suc)
  also have "(r mod 4) AND 3 = r mod 4"
    using and_mask_nat[of "r mod 4" 2] by simp
  finally have 2: "drop_bit 1 (?i AND push_bit (Suc k) 3) = (r mod 4) * 2 ^ k"
    by (simp add: push_bit_eq_mult drop_bit_eq_div)
  have 3: "(l mod 2 ^ k) OR ((r mod 4) * 2 ^ k) = (r mod 4) * 2 ^ k + l mod 2 ^ k"
    using or_disjoint_add_nat[of "l mod 2 ^ k" k "r mod 4"] by (simp add: or.commute)
  have "?i div 2 ^ k = 2 * (r mod 4) + l div 2 ^ k"
  proof -
    have "?i = l + (2 * (r mod 4)) * 2 ^ k" by simp
    then show ?thesis by (simp only: div_mult_self1) simp
  qed
  moreover have "l div 2 ^ k < 2" using lt by (simp add: div_less_iff_less_mult)
  ultimately have 4: "drop_bit k ?i AND 1 = l div 2 ^ k"
    by (simp only: drop_bit_eq_div and_one_double)
  have "?i < 4 * 2 ^ Suc k"
  proof -
    have "(r mod 4) * 2 ^ Suc k \<le> 3 * 2 ^ Suc k" by (rule mult_right_mono) simp_all
    with lt show ?thesis by linarith
  qed
  then have "drop_bit (Suc (Suc k)) ?i < 2"
    by (simp add: drop_bit_eq_div div_less_iff_less_mult)
  then have 5: "drop_bit (Suc (Suc k)) ?i div 2 * 2 = 0" by simp
  have c: "const_log2 T = Suc k" "const_log2 (T div 2) = k" "const_log2 (2 * T) = Suc (Suc k)" "const_log2 (2 ^ b) = b"
    using const_log2_pow2[of "Suc k"] const_log2_pow2[of "Suc (Suc k)"] by (simp_all add: T)
  show ?thesis
    unfolding map_idx_def Let_def idx_trunc[OF T l] h hazard_kind.case
    unfolding map_idx_1R1W_16b_def RegisterType.case Let_def c
    unfolding T 1[unfolded T] 2 3 4 5 by (simp only: drop_bit_eq_div or.right_neutral)
qed

text \<open>The loops in closed form.\<close>

lemma access_conflict_iff:
  "access_vrf_bank_conflict T L h W idx msk i \<longleftrightarrow> i < W \<and> msk i \<and>
    (\<exists>j<i. msk j \<and>
      (let m = (\<lambda>i. map_idx T L h REGISTER_VGPR (off_row T (idx i) * T + off_lane T (idx i)))
       in fst (m i) = fst (m j) \<and> snd (m i) \<noteq> snd (m j)))"
proof -
  define m where "m i = map_idx T L h REGISTER_VGPR (off_row T (idx i) * T + off_lane T (idx i))" for i
  have "access_vrf_bank_conflict T L h W idx msk i \<longleftrightarrow>
    i < W \<and> \<not> (i < 1 \<or> \<not> msk i) \<and> (\<exists>j<i. msk j \<and> (fst (m i) = fst (m j) \<and> snd (m i) \<noteq> snd (m j)))"
    unfolding access_vrf_bank_conflict_def Let_def m_def[symmetric] for_upto_flag
    by (rule for_upto_flags)
  then show ?thesis unfolding m_def Let_def by (cases "i = 0") simp_all
qed

text \<open>
  With the 16-bank, single-read-port mapping, a word of a memory transfer is held back exactly when an
  earlier word of the transfer lies in the same bank word, rows congruent modulo 4, in the other
  half of the lanes. The row is truncated to two bits on the way, so two rows four apart are
  one row for this check.
\<close>

lemma access_conflict_16b_exact:
  assumes "THREADS = 2 ^ Suc k" and "hd_kind h = RHD_1R1W_16b" "vrf_bank_words h = 2 ^ b" "b \<le> k"
  shows "access_vrf_bank_conflict THREADS LANES h W idx msk i \<longleftrightarrow> i < W \<and> msk i \<and>
    (\<exists>j<i. msk j \<and>
      off_row THREADS (idx i) mod 4 = off_row THREADS (idx j) mod 4 \<and>
      (off_lane THREADS (idx i) mod 2 ^ k) div 2 ^ b = (off_lane THREADS (idx j) mod 2 ^ k) div 2 ^ b \<and>
      off_lane THREADS (idx i) div 2 ^ k \<noteq> off_lane THREADS (idx j) div 2 ^ k)"
proof -
  have lane: "off_lane THREADS x < THREADS" for x
    using const_log2_pow2[of "Suc k"] by (simp add: off_lane_def assms(1) del: power_Suc)
  have split: "((r mod 4) * 2 ^ k + l mod 2 ^ k) div 2 ^ b = ((r' mod 4) * 2 ^ k + l' mod 2 ^ k) div 2 ^ b
      \<longleftrightarrow> r mod 4 = r' mod 4 \<and> (l mod 2 ^ k) div 2 ^ b = (l' mod 2 ^ k) div 2 ^ b" for r l r' l' :: nat
  proof -
    have 1: "(a * 2 ^ k + c) div 2 ^ b = a * 2 ^ (k - b) + c div 2 ^ b" for a c :: nat
    proof -
      have "a * 2 ^ k + c = c + (a * 2 ^ (k - b)) * 2 ^ b"
        using assms(4) by (simp add: power_add[symmetric] mult.assoc)
      then show ?thesis by (simp only: div_mult_self1) simp
    qed
    have 2: "(c mod 2 ^ k) div 2 ^ b < 2 ^ (k - b)" for c :: nat
    proof -
      have "c mod 2 ^ k < 2 ^ (k - b) * 2 ^ b" using assms(4) by (simp add: power_add[symmetric])
      then show ?thesis by (simp add: div_less_iff_less_mult)
    qed
    have "a * n + c = a' * n + c' \<longleftrightarrow> a = a' \<and> c = c'" if "c < n" "c' < n" for a a' c c' n :: nat
      using that by (metis add_right_imp_eq div_mult_self3 div_less add_cancel_right_left
          mod_less mod_mult_self3 not_less_zero)
    then show ?thesis unfolding 1 using 2 by blast
  qed
  show ?thesis
    by (simp add: access_conflict_iff map_idx_16b[OF assms(1) lane assms(2,3)] split Let_def conj_assoc)
qed

lemma access_conflict_16b_exact_witness:
  "access_vrf_bank_conflict 1024 128 RegHazardDetect_1R1W_16b 2
     (\<lambda>i. if i = 0 then reg_offset_lane_row 1024 3 0 else reg_offset_lane_row 1024 513 4) (\<lambda>_. True) 1"
  using access_conflict_16b_exact[of 1024 9 RegHazardDetect_1R1W_16b 2 128 2
      "\<lambda>i. if i = 0 then reg_offset_lane_row 1024 3 0 else reg_offset_lane_row 1024 513 4" "\<lambda>_. True" 1]
  by (simp add: RegHazardDetect_1R1W_16b_def)

text \<open>
  With the same mapping, the check on the operands of an instruction never reports a conflict: the
  row number is cut to two bits before the mapping looks at it, so two vector registers in one bank
  always show the same SRAM row, and every other register type is mapped to row 0.
\<close>

lemma execute_conflict_16b_never:
  assumes "THREADS = 2 ^ Suc k" and "hd_kind h = RHD_1R1W_16b" "vrf_bank_words h = 2 ^ b"
  shows "execute_bank_conflict THREADS LANES h req i = False"
proof -
  have row: "snd (map_idx THREADS LANES h t (r * THREADS)) = 0" for t r
  proof (cases "t = REGISTER_VGPR")
    case True
    then show ?thesis
      using map_idx_16b[OF assms(1) _ assms(2,3), of 0 LANES r] assms(1) by simp
  next
    case False
    then show ?thesis
      using assms(2) by (cases t) (simp_all add: map_idx_def map_idx_1R1W_16b_def Let_def)
  qed
  show ?thesis by (simp add: execute_bank_conflict_def Let_def row)
qed

lemma execute_conflict_16b_never_witness:
  "\<not> execute_bank_conflict 1024 128 RegHazardDetect_1R1W_16b
      \<lparr>rq_reg = (\<lambda>i. if i = 0 then Register 0 REGISTER_VGPR 0 0 else Register 0 REGISTER_VGPR 4 0),
       rq_r = (\<lambda>i. i < 2), rq_imm = (\<lambda>_. 0)\<rparr> 0"
  using execute_conflict_16b_never[of 1024 9 RegHazardDetect_1R1W_16b 2]
  by (simp add: RegHazardDetect_1R1W_16b_def)

text \<open>With three read ports there is nothing to report.\<close>

lemma execute_conflict_3R1W: "\<not> execute_bank_conflict T L RegHazardDetect_3R1W req i"
  by (simp add: execute_bank_conflict_def RegHazardDetect_3R1W_def)

end
