(* ===== verification/Reg_File.thy ===== *)
theory Reg_File
  imports Hazard_Detect Work_Sched
begin

text \<open>
  \<open>compute/control/RegFile.h\<close>: the register file of a SIMD cluster, with the vector, scalar and
  predicate registers, the CAM of indexed transfers, the control masks of both work-group slots, the
  ports to the pipeline and the ports to the DRAM and scratchpad controllers. Storage arrays are
  functions on slot and index; the template parameters are the record \<open>rf_cfg\<close>, with the two
  bus widths in words. This theory has the
  state and the pipeline side; the storage side is in \<open>Reg_Store\<close>. Reading a register drives the
  output words of a read port; an assertion that fails aborts the run.
\<close>

record rf_cfg =
  THREADS :: nat
  LANES :: nat
  BUS :: nat
  SP_BUS :: nat

record regfile =
  VRF :: "slot \<Rightarrow> nat \<Rightarrow> u32"
  SRF :: "slot \<Rightarrow> nat \<Rightarrow> u32"
  PRF :: "slot \<Rightarrow> nat \<Rightarrow> bool"
  cam_idxs :: "slot \<Rightarrow> nat \<Rightarrow> nat"
  cam_val :: "slot \<Rightarrow> nat \<Rightarrow> u32"
  CMRF :: "slot \<Rightarrow> nat \<Rightarrow> nat \<Rightarrow> nat \<Rightarrow> bool"
  lanes_en :: "slot \<Rightarrow> nat \<Rightarrow> nat \<Rightarrow> bool"
  rf_hazard :: hazard_detect
  dram_vrf_words_r :: nat
  dram_vrf_words_w :: nat
  dram_vrf_net_words_r :: nat
  dram_vrf_net_words_w :: nat
  bank_words :: nat
  hit_map :: "nat \<Rightarrow> bool"
  thread_active :: "slot \<Rightarrow> bool"
  threads_fini :: "slot \<Rightarrow> bool"
  \<comment> \<open>output signals\<close>
  out_data_r :: "nat \<Rightarrow> nat \<Rightarrow> u32"
  out_req_conflicts :: "nat \<Rightarrow> bool"
  out_mask_w :: "nat \<Rightarrow> bool"
  out_thread_active :: "slot \<Rightarrow> bool"
  out_wg_finished :: "slot \<Rightarrow> bool"
  out_sd :: "slot \<Rightarrow> stride_descriptor"
  out_store_data :: "req_if \<Rightarrow> nat \<Rightarrow> u32"
  out_store_mask :: "req_if \<Rightarrow> nat \<Rightarrow> bool"

text \<open>What the pipeline side reads from the rest of the cluster.\<close>

record rf_inputs =
  in_wg_off :: "slot \<Rightarrow> nat \<Rightarrow> u32"
  in_dim :: "nat \<Rightarrow> u32"
  in_wg_width :: workgroup_width
  in_req_w :: reg
  in_data_w :: "nat \<Rightarrow> u32"
  in_mask_w :: "nat \<Rightarrow> bool"
  in_w :: bool
  in_last_warp :: "slot \<Rightarrow> nat"
  in_ignore_mask_w :: bool
  in_cmask_rst :: bool
  in_cmask_rst_wg :: slot

definition rf_cols :: "rf_cfg \<Rightarrow> nat" where
  "rf_cols c = THREADS c div LANES c"

subsection \<open>Reading\<close>

text \<open>Drive the words of a read port from a function of the lane.\<close>

definition drive_port :: "rf_cfg \<Rightarrow> nat \<Rightarrow> (nat \<Rightarrow> u32) \<Rightarrow> regfile \<Rightarrow> regfile" where
  "drive_port c p f s =
    s\<lparr>out_data_r := (out_data_r s)(p := for_upto (LANES c) (\<lambda>l a. a(l := f l)) (out_data_r s p))\<rparr>"

definition broadcast_value :: "rf_cfg \<Rightarrow> u32 \<Rightarrow> nat \<Rightarrow> regfile \<Rightarrow> regfile" where
  "broadcast_value c v p s = drive_port c p (\<lambda>_. v) s"

definition vreg_offset :: "rf_cfg \<Rightarrow> reg \<Rightarrow> nat" where
  "vreg_offset c r = unat (rrow r) * THREADS c + rcol r * LANES c"

definition read_vgpr :: "rf_cfg \<Rightarrow> reg \<Rightarrow> nat \<Rightarrow> regfile \<Rightarrow> regfile res" where
  "read_vgpr c r p s =
    assertE (unat (rrow r) < 64 \<and> rcol r < rf_cols c)
      (let offset = vreg_offset c r in Inr (drive_port c p (\<lambda>l. VRF s (rwg r) (offset + l)) s))"

definition read_sgpr :: "rf_cfg \<Rightarrow> reg \<Rightarrow> nat \<Rightarrow> regfile \<Rightarrow> regfile res" where
  "read_sgpr c r p s =
    assertE (unat (rrow r) < 32) (Inr (broadcast_value c (SRF s (rwg r) (unat (rrow r))) p s))"

definition read_pr :: "rf_cfg \<Rightarrow> reg \<Rightarrow> nat \<Rightarrow> regfile \<Rightarrow> regfile res" where
  "read_pr c r p s =
    assertE (unat (rrow r) < 4 \<and> rcol r < rf_cols c)
      (let offset = vreg_offset c r
       in Inr (drive_port c p (\<lambda>l. if PRF s (rwg r) (offset + l) then 1 else 0) s))"

text \<open>
  The thread and local identifiers of the lanes of a column. Shifts and masks as in the source, on
  the unsigned integers it uses (\<open>col_mask -= ...\<close> wraps); \<open>max(a - b, 0)\<close> on \<open>int\<close> is truncated
  subtraction.
\<close>

definition vsp_id_x :: "rf_cfg \<Rightarrow> nat \<Rightarrow> u32 \<Rightarrow> nat \<Rightarrow> nat \<Rightarrow> u32" where
  "vsp_id_x c w off cl l =
    (let col_bits = w - const_log2 (LANES c div 32);
         col = cl AND (push_bit col_bits 1 - 1);
         l_mask = push_bit (w + 5) 1 - 1;
         val = off OR of_nat (push_bit (const_log2 (LANES c)) col)
     in val OR of_nat (l AND l_mask))"

definition vsp_id_y :: "rf_cfg \<Rightarrow> nat \<Rightarrow> u32 \<Rightarrow> nat \<Rightarrow> nat \<Rightarrow> u32" where
  "vsp_id_y c w off cl l =
    (let col_mask = push_bit (const_log2 (LANES c div 32)) (rf_cols c) - 1;
         col_mask = (col_mask + 2 ^ 32 - (push_bit w 1 - 1)) mod 2 ^ 32;
         col = push_bit (const_log2 (LANES c div 32)) cl AND col_mask;
         l_shift = 5 + w;
         l_bits = const_log2 (LANES c div 32) - w;
         l_mask = push_bit l_bits 1 - 1;
         val = off OR of_nat (drop_bit w col)
     in val OR of_nat (drop_bit l_shift l AND l_mask))"

definition read_vsp :: "rf_cfg \<Rightarrow> rf_inputs \<Rightarrow> reg \<Rightarrow> nat \<Rightarrow> regfile \<Rightarrow> regfile res" where
  "read_vsp c i r p s =
    assertE (rrow r < VSP_SENTINEL \<and> rcol r < rf_cols c)
      (let w = wgw (in_wg_width i); wg = rwg r in
       if rrow r = VSP_ZERO then Inr (broadcast_value c 0 p s)
       else if rrow r = VSP_ONE then Inr (broadcast_value c 1 p s)
       else if rrow r = VSP_TID_X then Inr (drive_port c p (vsp_id_x c w (push_bit 5 (in_wg_off i wg 0)) (rcol r)) s)
       else if rrow r = VSP_LID_X then Inr (drive_port c p (vsp_id_x c w 0 (rcol r)) s)
       else if rrow r = VSP_TID_Y then Inr (drive_port c p (vsp_id_y c w (in_wg_off i wg 1) (rcol r)) s)
       else if rrow r = VSP_LID_Y then Inr (drive_port c p (vsp_id_y c w 0 (rcol r)) s)
       else if rrow r < 4 then
         Inr (drive_port c p (\<lambda>l. if CMRF s wg (unat (rrow r)) (rcol r) l then 1 else 0) s)
       else if rrow r = VSP_MEM_DATA then
         Inr (drive_port c p (\<lambda>l. cam_val s wg (rcol r * LANES c + l)) s)
       else Inl Assert_Failed)"

definition read_ssp :: "rf_cfg \<Rightarrow> rf_inputs \<Rightarrow> reg \<Rightarrow> nat \<Rightarrow> regfile \<Rightarrow> regfile res" where
  "read_ssp c i r p s =
    assertE (rrow r < SSP_SENTINEL)
      (let wg = rwg r; bc = (\<lambda>v. Inr (broadcast_value c v p s)) in
       if rrow r = SSP_DIM_X \<or> rrow r = SSP_DIM_Y then bc (in_dim i (unat (rrow r)))
       else if rrow r = SSP_WG_OFF_X then bc (push_bit 5 (in_wg_off i wg 0))
       else if rrow r = SSP_WG_OFF_Y then bc (in_wg_off i wg 1)
       else if rrow r = SSP_WG_WIDTH then bc (push_bit (wgw (in_wg_width i)) 32)
       else if rrow r = SSP_SD_WORDS then bc (of_int (sd_words (out_sd s wg)))
       else if rrow r = SSP_SD_PERIOD then bc (of_int (sd_period (out_sd s wg)))
       else if rrow r = SSP_SD_PERIOD_CNT then bc (of_int (sd_period_count (out_sd s wg)))
       else Inl Assert_Failed)"

subsection \<open>Writing\<close>

definition any_lane :: "rf_cfg \<Rightarrow> (nat \<Rightarrow> bool) \<Rightarrow> bool" where
  "any_lane c m \<longleftrightarrow> (\<exists>l<LANES c. m l)"

definition write_vgpr :: "rf_cfg \<Rightarrow> rf_inputs \<Rightarrow> reg \<Rightarrow> (nat \<Rightarrow> bool) \<Rightarrow> regfile \<Rightarrow> regfile res" where
  "write_vgpr c i r m s =
    assertE (unat (rrow r) < 64 \<and> rcol r < rf_cols c)
      (if \<not> any_lane c m then Inr s
       else let offset = vreg_offset c r in
         Inr (s\<lparr>VRF := (VRF s)(rwg r :=
           for_upto (LANES c) (\<lambda>l a. if m l then a(offset + l := in_data_w i l) else a) (VRF s (rwg r)))\<rparr>))"

definition write_sgpr :: "rf_inputs \<Rightarrow> reg \<Rightarrow> regfile \<Rightarrow> regfile res" where
  "write_sgpr i r s =
    assertE (unat (rrow r) < 32)
      (Inr (s\<lparr>SRF := (SRF s)(rwg r := (SRF s (rwg r))(unat (rrow r) := in_data_w i 0))\<rparr>))"

definition write_pr :: "rf_cfg \<Rightarrow> rf_inputs \<Rightarrow> reg \<Rightarrow> (nat \<Rightarrow> bool) \<Rightarrow> regfile \<Rightarrow> regfile res" where
  "write_pr c i r m s =
    assertE (unat (rrow r) < 4 \<and> rcol r < rf_cols c)
      (if \<not> any_lane c m then Inr s
       else let offset = vreg_offset c r in
         Inr (s\<lparr>PRF := (PRF s)(rwg r :=
           for_upto (LANES c) (\<lambda>l a. if m l then a(offset + l := odd (in_data_w i l)) else a) (PRF s (rwg r)))\<rparr>))"

definition write_vsp :: "rf_cfg \<Rightarrow> rf_inputs \<Rightarrow> reg \<Rightarrow> (nat \<Rightarrow> bool) \<Rightarrow> regfile \<Rightarrow> regfile res" where
  "write_vsp c i r m s =
    assertE (rrow r < VSP_SENTINEL \<and> rcol r < rf_cols c)
      (let wg = rwg r; row = unat (rrow r); offset = rcol r * LANES c in
       if \<not> any_lane c m then Inr s
       else if rrow r < 4 then
         Inr (s\<lparr>CMRF := (CMRF s)(wg := (CMRF s wg)(row := (CMRF s wg row)(rcol r :=
           for_upto (LANES c) (\<lambda>l a. if m l then a(l := (in_data_w i l \<noteq> 0)) else a) (CMRF s wg row (rcol r)))))\<rparr>)
       else if rrow r = VSP_MEM_IDX then
         Inr (s\<lparr>cam_idxs := (cam_idxs s)(wg :=
           for_upto (LANES c) (\<lambda>l a. if m l then a(offset + l := unat (in_data_w i l) mod 2 ^ 30) else a) (cam_idxs s wg))\<rparr>)
       else if rrow r = VSP_MEM_DATA then
         Inr (s\<lparr>cam_val := (cam_val s)(wg :=
           for_upto (LANES c) (\<lambda>l a. if m l then a(offset + l := in_data_w i l) else a) (cam_val s wg))\<rparr>)
       else Inl Assert_Failed)"

text \<open>The fields of the stride descriptor have 20 bits.\<close>

definition write_ssp :: "rf_inputs \<Rightarrow> reg \<Rightarrow> regfile \<Rightarrow> regfile res" where
  "write_ssp i r s =
    assertE (rrow r < SSP_SENTINEL)
      (let wg = rwg r; sd = out_sd s wg; v = sc_uint 20 (uint (in_data_w i 0)) in
       if rrow r = SSP_SD_WORDS then Inr (s\<lparr>out_sd := (out_sd s)(wg := sd\<lparr>sd_words := v\<rparr>)\<rparr>)
       else if rrow r = SSP_SD_PERIOD then Inr (s\<lparr>out_sd := (out_sd s)(wg := sd\<lparr>sd_period := v\<rparr>)\<rparr>)
       else if rrow r = SSP_SD_PERIOD_CNT then Inr (s\<lparr>out_sd := (out_sd s)(wg := sd\<lparr>sd_period_count := v\<rparr>)\<rparr>)
       else Inl Assert_Failed)"

subsection \<open>Control masks\<close>

definition reset_cmasks :: "rf_cfg \<Rightarrow> slot \<Rightarrow> regfile \<Rightarrow> regfile" where
  "reset_cmasks c wg s =
    s\<lparr>CMRF := (CMRF s)(wg :=
      for_upto 4 (\<lambda>i a. for_upto (rf_cols c) (\<lambda>l a. a(i := (a i)(l := (\<lambda>b. b < LANES c)))) a) (CMRF s wg))\<rparr>"

definition reset_outputs :: "slot \<Rightarrow> regfile \<Rightarrow> regfile" where
  "reset_outputs wg s =
    (let s = s\<lparr>out_sd := (out_sd s)(wg := stride_descriptor_default\<lparr>sd_words := 1, sd_period := 1, sd_period_count := 1\<rparr>),
               thread_active := (thread_active s)(wg := True), threads_fini := (threads_fini s)(wg := False)\<rparr>
     in s\<lparr>out_thread_active := thread_active s, out_wg_finished := threads_fini s\<rparr>)"

definition lanes_mask :: "regfile \<Rightarrow> slot \<Rightarrow> nat \<Rightarrow> nat \<Rightarrow> bool" where
  "lanes_mask s wg col l \<longleftrightarrow> CMRF s wg 0 col l \<and> CMRF s wg 1 col l \<and> CMRF s wg 2 col l \<and> CMRF s wg 3 col l"

text \<open>The loop of \<open>thread_wr\<close> that recomputes the enabled lanes of both slots.\<close>

definition update_lanes_en :: "rf_cfg \<Rightarrow> regfile \<Rightarrow> regfile" where
  "update_lanes_en c s =
    s\<lparr>lanes_en := (\<lambda>wg. for_upto (rf_cols c) (\<lambda>i a. a(i := lanes_mask s wg i)) (lanes_en s wg))\<rparr>"

text \<open>The body of the loop over the columns, and the function.\<close>

definition check_column :: "rf_cfg \<Rightarrow> slot \<Rightarrow> nat \<Rightarrow> regfile \<Rightarrow> regfile" where
  "check_column c wg j s =
    (let s = (if any_lane c (lanes_en s wg j) then s\<lparr>thread_active := (thread_active s)(wg := True)\<rparr> else s)
     in if any_lane c (CMRF s wg 3 j) then s\<lparr>threads_fini := (threads_fini s)(wg := False)\<rparr> else s)"

definition update_thread_active :: "rf_cfg \<Rightarrow> rf_inputs \<Rightarrow> reg \<Rightarrow> regfile \<Rightarrow> regfile" where
  "update_thread_active c i r s =
    (if \<not> in_w i \<or> rtype r \<noteq> REGISTER_VSP \<or> rrow r \<ge> 4 then s
     else let wg = rwg r; lw = in_last_warp i wg in
     if rcol r < lw then s
     else
       let s = s\<lparr>thread_active := (thread_active s)(wg := False), threads_fini := (threads_fini s)(wg := True)\<rparr>;
           s = for_upto (lw + 1) (check_column c wg) s
       in s\<lparr>out_thread_active := thread_active s, out_wg_finished := threads_fini s\<rparr>)"

lemma check_column_eq:
  "check_column c wg j s =
    s\<lparr>thread_active := (thread_active s)(wg := (thread_active s wg \<or> any_lane c (lanes_en s wg j))),
      threads_fini := (threads_fini s)(wg := (threads_fini s wg \<and> \<not> any_lane c (CMRF s wg 3 j)))\<rparr>"
  by (cases "any_lane c (lanes_en s wg j)"; cases "any_lane c (CMRF s wg 3 j)")
    (simp_all add: check_column_def Let_def fun_upd_triv del: not_ex)

lemma check_columns:
  "for_upto n (check_column c wg) s =
    s\<lparr>thread_active := (thread_active s)(wg := (thread_active s wg \<or> (\<exists>j<n. any_lane c (lanes_en s wg j)))),
      threads_fini := (threads_fini s)(wg := (threads_fini s wg \<and> \<not> (\<exists>j<n. any_lane c (CMRF s wg 3 j))))\<rparr>"
proof (induction n)
  case 0
  then show ?case by simp
next
  case (Suc n)
  show ?case
    unfolding for_upto_Suc Suc.IH
    unfolding check_column_eq
    by (rule regfile.equality) (auto simp: fun_eq_iff less_Suc_eq)
qed

text \<open>One iteration of \<open>thread_wr\<close>: the write, then the resets and the flags.\<close>

definition wr_mask :: "rf_inputs \<Rightarrow> nat \<Rightarrow> bool" where
  "wr_mask i =
    (if in_ignore_mask_w i \<or> rtype (in_req_w i) = REGISTER_SGPR \<or> rtype (in_req_w i) = REGISTER_SSP
     then (\<lambda>_. True) else in_mask_w i)"

definition thread_wr_write :: "rf_cfg \<Rightarrow> rf_inputs \<Rightarrow> regfile \<Rightarrow> regfile res" where
  "thread_wr_write c i s =
    (if in_w i \<and> any_lane c (wr_mask i) then
       (case rtype (in_req_w i) of
          REGISTER_VGPR \<Rightarrow> write_vgpr c i (in_req_w i) (wr_mask i) s
        | REGISTER_SGPR \<Rightarrow> write_sgpr i (in_req_w i) s
        | REGISTER_PR \<Rightarrow> write_pr c i (in_req_w i) (wr_mask i) s
        | REGISTER_VSP \<Rightarrow> write_vsp c i (in_req_w i) (wr_mask i) s
        | REGISTER_SSP \<Rightarrow> write_ssp i (in_req_w i) s
        | _ \<Rightarrow> Inl Assert_Failed)
     else Inr s)"

definition thread_wr_after :: "rf_cfg \<Rightarrow> rf_inputs \<Rightarrow> regfile \<Rightarrow> regfile" where
  "thread_wr_after c i s =
    (let s = (if in_cmask_rst i then reset_outputs (in_cmask_rst_wg i) (reset_cmasks c (in_cmask_rst_wg i) s) else s)
     in update_thread_active c i (in_req_w i) (update_lanes_en c s))"

definition thread_wr :: "rf_cfg \<Rightarrow> rf_inputs \<Rightarrow> regfile \<Rightarrow> regfile res" where
  "thread_wr c i s = bindE (thread_wr_write c i s) (\<lambda>s. Inr (thread_wr_after c i s))"

subsection \<open>The read thread\<close>

text \<open>The storage ports as the controllers drive them, one set per interface.\<close>

record store_inputs =
  in_store_enable :: "req_if \<Rightarrow> bool"
  in_store_write :: "req_if \<Rightarrow> bool"
  in_store_reg :: "req_if \<Rightarrow> areg"
  in_store_mask :: "req_if \<Rightarrow> nat \<Rightarrow> bool"
  in_store_idx :: "req_if \<Rightarrow> nat \<Rightarrow> reg_offset"
  in_store_data :: "req_if \<Rightarrow> nat \<Rightarrow> u32"
  in_dram_dst :: RequestTarget
  in_store_idx_push_trigger :: bool

definition sp_if :: "slot \<Rightarrow> req_if" where
  "sp_if wg = (if wg = 0 then IF_SP_WG0 else IF_SP_WG1)"

definition rd_port ::
  "rf_cfg \<Rightarrow> rf_inputs \<Rightarrow> store_inputs \<Rightarrow> reg_read_req \<Rightarrow> (nat \<Rightarrow> bool) \<Rightarrow> nat \<Rightarrow> regfile \<Rightarrow> regfile res" where
  "rd_port c i st req conflicts p s =
    (let r = rq_reg req p; dst = in_dram_dst st in
     if \<not> rq_r req p \<or> conflicts p then Inr s
     else
       assertE (\<not> in_store_enable st IF_DRAM \<or> (tgt_type dst \<noteq> TARGET_CAM \<and> tgt_type dst \<noteq> TARGET_REG) \<or>
                \<not> ae_hazard (in_store_reg st IF_DRAM) r)
      (assertE (\<not> in_store_enable st (sp_if (rwg r)) \<or> \<not> ae_hazard (in_store_reg st (sp_if (rwg r))) r)
       (case rtype r of
          REGISTER_VGPR \<Rightarrow> read_vgpr c r p s
        | REGISTER_SGPR \<Rightarrow> read_sgpr c r p s
        | REGISTER_PR \<Rightarrow> read_pr c r p s
        | REGISTER_VSP \<Rightarrow> read_vsp c i r p s
        | REGISTER_SSP \<Rightarrow> read_ssp c i r p s
        | REGISTER_IMM \<Rightarrow> Inr (broadcast_value c (rq_imm req p) p s)
        | _ \<Rightarrow> Inl Assert_Failed)))"

definition thread_rd :: "rf_cfg \<Rightarrow> rf_inputs \<Rightarrow> store_inputs \<Rightarrow> reg_read_req \<Rightarrow> regfile \<Rightarrow> regfile res" where
  "thread_rd c i st req s =
    (let conflicts = execute_bank_conflict (THREADS c) (LANES c) (rf_hazard s) req in
     bindE (rd_port c i st req conflicts 0 s) (\<lambda>s.
     bindE (rd_port c i st req conflicts 1 s) (\<lambda>s.
     bindE (rd_port c i st req conflicts 2 s) (\<lambda>s.
     Inr (s\<lparr>out_req_conflicts := conflicts\<rparr>)))))"

definition thread_rd_mask_w :: "slot \<Rightarrow> nat \<Rightarrow> regfile \<Rightarrow> regfile" where
  "thread_rd_mask_w wg col s = s\<lparr>out_mask_w := lanes_en s wg col\<rparr>"

end
