(* ===== verification/Thread_Ids.thy ===== *)
theory Thread_Ids
  imports Reg_File
begin

text \<open>
  The thread identifiers that the register file computes with shifts and masks, in closed form: the lanes
  of the columns number the threads of a work-group, and a thread's coordinates are the remainder
  and the quotient of its number by the width of the work-group.
\<close>

definition cfg_ok :: "rf_cfg \<Rightarrow> nat \<Rightarrow> nat \<Rightarrow> bool" where
  "cfg_ok c k a \<longleftrightarrow> THREADS c = 2 ^ k \<and> LANES c = 2 ^ a \<and> 5 \<le> a \<and> a \<le> k \<and> k < 32"

lemma cfg_ok_simps:
  assumes "cfg_ok c k a"
  shows "THREADS c = 2 ^ k" "LANES c = 2 ^ a" "rf_cols c = 2 ^ (k - a)" "const_log2 (LANES c) = a"
    "const_log2 (LANES c div 32) = a - 5" "rf_cols c * LANES c = THREADS c"
proof -
  show 1: "THREADS c = 2 ^ k" "LANES c = 2 ^ a" using assms by (auto simp: cfg_ok_def)
  then show "rf_cols c = 2 ^ (k - a)" using assms by (simp add: rf_cols_def cfg_ok_def power_diff)
  then show "rf_cols c * LANES c = THREADS c" using assms 1 by (simp add: cfg_ok_def power_add[symmetric])
  have "LANES c div 32 = 2 ^ (a - 5)" using assms power_diff[of "2::nat" 5 a] by (simp add: cfg_ok_def)
  then show "const_log2 (LANES c) = a" "const_log2 (LANES c div 32) = a - 5" using 1 by simp_all
qed

lemma push_one_minus: "push_bit n (1::nat) - 1 = 2 ^ n - Suc 0"
  by (simp add: push_bit_eq_mult)

lemma mod_split_low: "(l::nat) < A \<Longrightarrow> (x * A + l) mod (A * B) = (x mod B) * A + l"
  using mod_mult2_eq[of "x * A + l" A B] by (simp add: mult.commute)

lemma word_or_offset: "(b::nat) < 2 ^ n \<Longrightarrow> (of_nat (m * 2 ^ n) :: u32) OR of_nat b = of_nat (m * 2 ^ n + b)"
  by (simp only: of_nat_or_eq[symmetric] or_disjoint_add_nat)

text \<open>The horizontal coordinate.\<close>

lemma id_x_nat:
  assumes l: "(l::nat) < 2 ^ a" and a: "5 \<le> a"
  shows "(cl mod 2 ^ (w - (a - 5)) * 2 ^ a) OR (l mod 2 ^ (w + 5)) = (cl * 2 ^ a + l) mod 2 ^ (w + (5::nat))"
proof (cases "a \<le> w + 5")
  case True
  then obtain d where d: "w + 5 = a + d" using le_Suc_ex by blast
  then have "w - (a - 5) = d" using a by simp
  moreover have "l < 2 ^ (w + 5)" using l True power_increasing[of a "w + 5" "2::nat"] by linarith
  ultimately show ?thesis
    using l mod_split_low[OF l, of cl "2 ^ d"] by (simp only: d power_add or_disjoint_add_nat mod_less)
next
  case False
  then obtain d where d: "a = (w + 5) + d" using le_Suc_ex[of "w + 5" a] by auto
  have "(cl * 2 ^ a + l) mod 2 ^ (w + 5) = l mod 2 ^ (w + 5)"
  proof -
    have "cl * 2 ^ a + l = l + (cl * 2 ^ d) * 2 ^ (w + 5)" by (simp add: d power_add)
    then show ?thesis by (simp only: mod_mult_self1)
  qed
  moreover have "w - (a - 5) = 0" using False by simp
  ultimately show ?thesis by simp
qed

lemma vsp_id_x_eq:
  assumes c: "cfg_ok c k a" and l: "l < LANES c"
  shows "vsp_id_x c w (of_nat (m * 2 ^ (w + 5))) cl l = of_nat (m * 2 ^ (w + 5) + (cl * LANES c + l) mod 2 ^ (w + 5))"
proof -
  note C = cfg_ok_simps[OF c]
  have a: "5 \<le> a" using c by (simp add: cfg_ok_def)
  have l': "l < 2 ^ a" using l C by simp
  have "vsp_id_x c w (of_nat (m * 2 ^ (w + 5))) cl l =
      of_nat (m * 2 ^ (w + 5)) OR (of_nat (cl mod 2 ^ (w - (a - 5)) * 2 ^ a) OR of_nat (l mod 2 ^ (w + 5)))"
    unfolding vsp_id_x_def Let_def C(4,5) push_one_minus and_mask_nat or.assoc
    unfolding push_bit_eq_mult by (rule refl)
  also have "\<dots> = of_nat (m * 2 ^ (w + 5)) OR of_nat ((cl * 2 ^ a + l) mod 2 ^ (w + 5))"
    by (simp only: of_nat_or_eq[symmetric] id_x_nat[OF l' a])
  also have "\<dots> = of_nat (m * 2 ^ (w + 5) + (cl * 2 ^ a + l) mod 2 ^ (w + 5))"
    by (rule word_or_offset) simp
  finally show ?thesis by (simp only: C)
qed

text \<open>The vertical coordinate.\<close>

lemma and_high_mask:
  assumes "(x::nat) < 2 ^ n" "w \<le> n"
  shows "drop_bit w (x AND (2 ^ n - 2 ^ w)) = x div 2 ^ w"
proof -
  obtain d where d: "n = w + d" using assms(2) le_Suc_ex by blast
  have "(2::nat) ^ n - 2 ^ w = (2 ^ d - 1) * 2 ^ w" by (simp add: d power_add diff_mult_distrib2 mult.commute)
  then have "drop_bit w ((2::nat) ^ n - 2 ^ w) = 2 ^ d - Suc 0" by (simp add: drop_bit_eq_div)
  moreover have "x div 2 ^ w < 2 ^ d" using assms(1) by (simp add: d power_add div_less_iff_less_mult mult.commute)
  ultimately show ?thesis by (simp add: and_mask_nat) (simp add: drop_bit_eq_div)
qed

lemma id_y_nat:
  assumes l: "(l::nat) < 2 ^ a" and a: "5 \<le> (a::nat)"
  shows "(cl * 2 ^ (a - 5)) div 2 ^ w OR ((l div 2 ^ (5 + w)) mod 2 ^ (a - 5 - w)) = (cl * 2 ^ a + l) div 2 ^ (w + 5)"
proof (cases "a \<le> w + 5")
  case True
  then obtain d where d: "w + 5 = a + d" using le_Suc_ex by blast
  then have w: "w = (a - 5) + d" using a by simp
  have "(cl * 2 ^ a + l) div 2 ^ (w + 5) = cl div 2 ^ d"
    using l by (simp add: d power_add div_mult2_eq)
  moreover have "(cl * 2 ^ (a - 5)) div 2 ^ w = cl div 2 ^ d"
    unfolding w power_add div_mult2_eq by simp
  moreover have "a - 5 - w = 0" using True by simp
  ultimately show ?thesis by simp
next
  case False
  then obtain d where d: "a = (w + 5) + d" using le_Suc_ex[of "w + 5" a] by auto
  have 1: "(cl * 2 ^ (a - 5)) div 2 ^ w = cl * 2 ^ d"
  proof -
    have "a - 5 = w + d" by (simp add: d)
    then have "cl * 2 ^ (a - 5) = (cl * 2 ^ d) * 2 ^ w" by (simp add: power_add)
    then show ?thesis by (simp only: nonzero_mult_div_cancel_right power_not_zero) simp
  qed
  have "cl * 2 ^ a + l = l + (cl * 2 ^ d) * 2 ^ (w + 5)" by (simp add: d power_add)
  then have 2: "(cl * 2 ^ a + l) div 2 ^ (w + 5) = cl * 2 ^ d + l div 2 ^ (w + 5)"
    by (simp only: div_mult_self1) simp
  have 3: "l div 2 ^ (w + 5) < 2 ^ d"
    using l by (simp add: d power_add div_less_iff_less_mult mult.commute)
  have "a - 5 - w = d" by (simp add: d)
  then show ?thesis unfolding 1 2 using 3 by (simp add: add.commute[of 5] or_disjoint_add_nat)
qed

lemma vsp_id_y_eq:
  assumes c: "cfg_ok c k a" and l: "l < LANES c" and cl: "cl < rf_cols c" and w: "w + 5 \<le> k"
  shows "vsp_id_y c w (of_nat (m * 2 ^ (k - 5 - w))) cl l =
    of_nat (m * 2 ^ (k - 5 - w) + (cl * LANES c + l) div 2 ^ (w + 5))"
proof -
  note C = cfg_ok_simps[OF c]
  have a: "5 \<le> a" "a \<le> k" "k < 32" using c by (simp_all add: cfg_ok_def)
  have l': "l < 2 ^ a" using l C by simp
  let ?n = "k - 5"
  have n: "(a - 5) + (k - a) = ?n" "w \<le> ?n" and n': "(k - a) + (a - 5) = ?n" using a w by simp_all
  have pw: "(2::nat) ^ w \<le> 2 ^ ?n" and pn: "(2::nat) ^ ?n < 2 ^ 32" 
    using n a power_strict_increasing[of "k - 5" 32 "2::nat"] by simp_all
  have cm: "(push_bit (a - 5) (2 ^ (k - a)) - 1 + 2 ^ 32 - (push_bit w 1 - 1)) mod 2 ^ 32 = (2::nat) ^ ?n - 2 ^ w"
  proof -
    have "push_bit (a - 5) ((2::nat) ^ (k - a)) = 2 ^ ?n" by (simp add: push_bit_eq_mult power_add[symmetric] n n')
    moreover have "(2::nat) ^ ?n - 1 + 2 ^ 32 - (2 ^ w - 1) = (2 ^ ?n - 2 ^ w) + 2 ^ 32" using pw by (simp add: one_le_power)
    moreover have "(2::nat) ^ ?n - 2 ^ w < 2 ^ 32" using pn by linarith
    ultimately show ?thesis by (simp add: push_bit_eq_mult del: One_nat_def)
  qed
  have X: "cl * 2 ^ (a - 5) < 2 ^ ?n"
  proof -
    have "cl * 2 ^ (a - 5) < 2 ^ (k - a) * 2 ^ (a - 5)" using cl C by simp
    then show ?thesis by (simp add: power_add[symmetric] n n')
  qed
  have Y: "(cl * 2 ^ a + l) div 2 ^ (w + 5) < 2 ^ (k - 5 - w)"
  proof -
    have "cl * 2 ^ a + l < Suc cl * 2 ^ a" using l' by simp
    also have "\<dots> \<le> 2 ^ (k - a) * 2 ^ a" using cl C by (intro mult_right_mono) simp_all
    also have "\<dots> = 2 ^ (k - 5 - w) * 2 ^ (w + 5)" using a w by (simp add: power_add[symmetric])
    finally show ?thesis by (simp add: div_less_iff_less_mult)
  qed
  have "vsp_id_y c w (of_nat (m * 2 ^ (k - 5 - w))) cl l = of_nat (m * 2 ^ (k - 5 - w)) OR
      (of_nat ((cl * 2 ^ (a - 5)) div 2 ^ w) OR of_nat ((l div 2 ^ (5 + w)) mod 2 ^ (a - 5 - w)))"
    unfolding vsp_id_y_def Let_def C(3,5)
    unfolding cm
    unfolding push_one_minus and_mask_nat or.assoc
    unfolding push_bit_eq_mult
    unfolding and_high_mask[OF X n(2)]
    unfolding drop_bit_eq_div by (rule refl)
  also have "\<dots> = of_nat (m * 2 ^ (k - 5 - w)) OR of_nat ((cl * 2 ^ a + l) div 2 ^ (w + 5))"
    by (simp only: of_nat_or_eq[symmetric] id_y_nat[OF l' a(1)])
  also have "\<dots> = of_nat (m * 2 ^ (k - 5 - w) + (cl * 2 ^ a + l) div 2 ^ (w + 5))"
    by (rule word_or_offset[OF Y])
  finally show ?thesis by (simp only: C)
qed

subsection \<open>One lane for every thread\<close>

lemma wg_shape:
  assumes c: "cfg_ok c k a" and ok: "work_ok (THREADS c) wk"
  shows "wg_w (wg_width wk) = 2 ^ (wgw (wg_width wk) + 5)" "wgw (wg_width wk) + 5 \<le> k"
    "wg_h (THREADS c) (wg_width wk) = 2 ^ (k - 5 - wgw (wg_width wk))"
proof -
  let ?w = "wgw (wg_width wk)"
  show 1: "wg_w (wg_width wk) = 2 ^ (?w + 5)" by (simp add: wg_w_def power_add)
  have "(2::nat) ^ (?w + 5) dvd 2 ^ k"
    using ok cfg_ok_simps[OF c] 1 by (simp add: work_ok_def del: power_add)
  then show 2: "?w + 5 \<le> k" by (rule power_dvd_imp_le) simp
  have "wg_h (THREADS c) (wg_width wk) = 2 ^ k div 2 ^ (?w + 5)" by (simp only: wg_h_def 1 cfg_ok_simps[OF c])
  also have "\<dots> = 2 ^ (k - (?w + 5))" using 2 by (simp add: power_diff)
  also have "k - (?w + 5) = k - 5 - ?w" by simp
  finally show "wg_h (THREADS c) (wg_width wk) = 2 ^ (k - 5 - ?w)" .
qed

text \<open>The coordinates shown for lane \<open>l\<close> of column \<open>cl\<close> of the work-group \<open>g\<close>.\<close>

definition tid :: "rf_cfg \<Rightarrow> 'i work \<Rightarrow> workgroup \<Rightarrow> nat \<Rightarrow> nat \<Rightarrow> u32 \<times> u32" where
  "tid c wk g cl l =
    (vsp_id_x c (wgw (wg_width wk)) (push_bit 5 (of_nat (off_x g))) cl l,
     vsp_id_y c (wgw (wg_width wk)) (off_y g) cl l)"

lemma tid_grid:
  assumes c: "cfg_ok c k a" and ok: "work_ok (THREADS c) wk" and m: "m < grid_x wk * grid_y (THREADS c) wk"
    and cl: "cl < rf_cols c" and l: "l < LANES c"
  shows "tid c wk (grid_wg (THREADS c) wk lw m) cl l =
    (of_nat ((m mod grid_x wk) * wg_w (wg_width wk) + (cl * LANES c + l) mod wg_w (wg_width wk)),
     of_nat ((m div grid_x wk) * wg_h (THREADS c) (wg_width wk) + (cl * LANES c + l) div wg_w (wg_width wk)))"
proof -
  let ?w = "wgw (wg_width wk)"
  note S = wg_shape[OF c ok]
  have "push_bit 5 (of_nat ((m mod grid_x wk) * 2 ^ ?w) :: u32) = of_nat ((m mod grid_x wk) * 2 ^ (?w + 5))"
    by (simp add: push_bit_eq_mult power_add)
  then show ?thesis
    unfolding tid_def grid_wg_def workgroup.simps S(3)
    by (simp only: vsp_id_x_eq[OF c l] vsp_id_y_eq[OF c l cl S(2)] S(1))
qed

text \<open>Quotient and remainder by a positive number determine each other and the sum.\<close>

lemma div_mod_pair: "(y::nat) < n \<Longrightarrow> (x * n + y) div n = x" "y < n \<Longrightarrow> (x * n + y) mod n = y"
  by (simp_all add: mult.commute)

lemma thread_slot:
  assumes c: "cfg_ok c k a" and ok: "work_ok (THREADS c) wk"
    and cl: "cl < rf_cols c" and l: "l < LANES c"
  shows "(cl * LANES c + l) div wg_w (wg_width wk) < wg_h (THREADS c) (wg_width wk)"
proof -
  note S = wg_shape[OF c ok] and C = cfg_ok_simps[OF c]
  have "cl * LANES c + l < Suc cl * LANES c" using l by simp
  also have "\<dots> \<le> rf_cols c * LANES c" using cl by (intro mult_right_mono) simp_all
  also have "\<dots> = 2 ^ k" using C by simp
  also have "\<dots> = 2 ^ (k - 5 - wgw (wg_width wk)) * 2 ^ (wgw (wg_width wk) + 5)"
    using S(2) by (simp only: power_add[symmetric]) simp
  finally show ?thesis unfolding S(1,3) by (simp add: div_less_iff_less_mult)
qed

text \<open>
  C1. Every thread of the index space is executed by exactly one lane: for coordinates below the
  dimensions there is exactly one work-group of the enumeration, one column and one lane for which the
  register file shows these coordinates as the thread identifiers \<open>tid_x\<close> and \<open>tid_y\<close>.
\<close>

theorem thread_ids_exact:
  assumes c: "cfg_ok c k a" and ok: "work_ok (THREADS c) wk"
    and tx: "tx < unat (dims wk 0)" and ty: "ty < unat (dims wk 1)"
  shows "\<exists>!(m, cl, l). m < length (wg_grid (THREADS c) wk lw) \<and> cl < rf_cols c \<and> l < LANES c \<and>
    tid c wk (wg_grid (THREADS c) wk lw ! m) cl l = (of_nat tx, of_nat ty)"
proof -
  let ?W = "wg_w (wg_width wk)" and ?H = "wg_h (THREADS c) (wg_width wk)"
  let ?nx = "grid_x wk" and ?ny = "grid_y (THREADS c) wk"
  note B = grid_bounds[OF ok] and S = wg_shape[OF c ok] and C = cfg_ok_simps[OF c]
  have pos: "0 < ?W" "0 < ?H" "0 < LANES c" using wg_h_pos[OF ok] C by simp_all
  have dx: "unat (dims wk 0) + ?W \<le> 2 ^ 32" and dy: "unat (dims wk 1) + ?H \<le> 2 ^ 32"
    using ok by (simp_all add: work_ok_def)
  \<comment> \<open>the coordinates shown, without wrap-around\<close>
  have shown: "tid c wk (wg_grid (THREADS c) wk lw ! m) cl l = (of_nat tx, of_nat ty) \<longleftrightarrow>
      m mod ?nx = tx div ?W \<and> m div ?nx = ty div ?H \<and> (cl * LANES c + l) mod ?W = tx mod ?W \<and> (cl * LANES c + l) div ?W = ty mod ?H"
    if m: "m < ?nx * ?ny" and cl: "cl < rf_cols c" and l: "l < LANES c" for m cl l
  proof -
    let ?t = "cl * LANES c + l"
    have tm: "?t mod ?W < ?W" "?t div ?W < ?H" using thread_slot[OF c ok cl l] pos by simp_all
    have gm: "(m mod ?nx) * ?W < unat (dims wk 0)" "(m div ?nx) * ?H < unat (dims wk 1)"
      using grid_row[OF m] B(1,2) by simp_all
    have bx: "(m mod ?nx) * ?W + ?t mod ?W < 2 ^ 32" "(m div ?nx) * ?H + ?t div ?W < 2 ^ 32"
      "tx < 2 ^ 32" "ty < 2 ^ 32"
      using tm gm dx dy tx ty by linarith+
    have inj: "(of_nat u :: u32) = of_nat v \<longleftrightarrow> u = v" if "u < 2 ^ 32" "v < 2 ^ 32" for u v
      using that by (simp add: word_of_nat_eq_iff take_bit_nat_eq_self)
    have "tid c wk (wg_grid (THREADS c) wk lw ! m) cl l = (of_nat tx, of_nat ty) \<longleftrightarrow>
      (m mod ?nx) * ?W + ?t mod ?W = tx \<and> (m div ?nx) * ?H + ?t div ?W = ty"
      using m by (simp only: wg_grid_def nth_map nth_upt length_upt add_0 diff_zero tid_grid[OF c ok m cl l] prod.inject
          inj[OF bx(1,3)] inj[OF bx(2,4)])
    also have "(m mod ?nx) * ?W + ?t mod ?W = tx \<longleftrightarrow> m mod ?nx = tx div ?W \<and> ?t mod ?W = tx mod ?W"
      using div_mod_pair[OF tm(1)] by (metis div_mult_mod_eq)
    also have "(m div ?nx) * ?H + ?t div ?W = ty \<longleftrightarrow> m div ?nx = ty div ?H \<and> ?t div ?W = ty mod ?H"
      using div_mod_pair[OF tm(2)] by (metis div_mult_mod_eq)
    finally show ?thesis by blast
  qed
  define t where "t = (ty mod ?H) * ?W + tx mod ?W"
  define m where "m = (ty div ?H) * ?nx + tx div ?W"
  have tW: "t mod ?W = tx mod ?W" "t div ?W = ty mod ?H" using div_mod_pair[of "tx mod ?W" ?W] pos by (simp_all add: t_def)
  have t_lt: "t < rf_cols c * LANES c"
  proof -
    have "t < Suc (ty mod ?H) * ?W" using pos by (simp add: t_def)
    also have "\<dots> \<le> ?H * ?W" using pos by (intro mult_right_mono) (simp_all add: Suc_le_eq)
    also have "\<dots> = 2 ^ (k - 5 - wgw (wg_width wk)) * 2 ^ (wgw (wg_width wk) + 5)" by (simp only: S(1,3))
    also have "\<dots> = rf_cols c * LANES c" using S(2) C by (simp only: power_add[symmetric]) simp
    finally show ?thesis .
  qed
  have x: "tx div ?W < ?nx" and y: "ty div ?H < ?ny"
    unfolding B(1,2) by (rule le_less_trans[OF div_times_less_eq_dividend tx]) (rule le_less_trans[OF div_times_less_eq_dividend ty])
  have mm: "m mod ?nx = tx div ?W" "m div ?nx = ty div ?H" using div_mod_pair[OF x] by (simp_all add: m_def)
  have m: "m < ?nx * ?ny"
  proof -
    have "m < Suc (ty div ?H) * ?nx" using x by (simp add: m_def)
    also have "\<dots> \<le> ?ny * ?nx" using y by (intro mult_right_mono) simp_all
    finally show ?thesis by (simp add: mult.commute)
  qed
  have len: "length (wg_grid (THREADS c) wk lw) = ?nx * ?ny" by (simp add: wg_grid_def)
  have col: "t div LANES c < rf_cols c" "t mod LANES c < LANES c" "t div LANES c * LANES c + t mod LANES c = t"
    using t_lt pos by (simp_all add: div_less_iff_less_mult)
  show ?thesis
  proof (rule ex1I[of _ "(m, t div LANES c, t mod LANES c)"])
    show "case (m, t div LANES c, t mod LANES c) of (m, cl, l) \<Rightarrow> m < length (wg_grid (THREADS c) wk lw) \<and> cl < rf_cols c \<and> l < LANES c \<and>
      tid c wk (wg_grid (THREADS c) wk lw ! m) cl l = (of_nat tx, of_nat ty)"
      unfolding prod.case shown[OF m col(1,2)] using m len col mm tW by simp
  next
    fix p
    assume "case p of (m, cl, l) \<Rightarrow> m < length (wg_grid (THREADS c) wk lw) \<and> cl < rf_cols c \<and> l < LANES c \<and>
      tid c wk (wg_grid (THREADS c) wk lw ! m) cl l = (of_nat tx, of_nat ty)"
    then obtain n cl l where p: "p = (n, cl, l)" and n: "n < ?nx * ?ny" "cl < rf_cols c" "l < LANES c"
      and "tid c wk (wg_grid (THREADS c) wk lw ! n) cl l = (of_nat tx, of_nat ty)" using len by auto
    then have e: "n mod ?nx = m mod ?nx" "n div ?nx = m div ?nx" "(cl * LANES c + l) mod ?W = t mod ?W" "(cl * LANES c + l) div ?W = t div ?W"
      using shown[OF n] mm tW by auto
    have "n = m" by (metis e(1,2) div_mult_mod_eq)
    moreover have "cl * LANES c + l = t" by (metis e(3,4) div_mult_mod_eq)
    then have "cl = t div LANES c" "l = t mod LANES c" using div_mod_pair[OF n(3)] by auto
    ultimately show "p = (m, t div LANES c, t mod LANES c)" by (simp add: p)
  qed
qed

theorem thread_ids_exact_witness:
  "\<exists>!(m, cl, l). m < length (wg_grid 1024 (mk_work 100 40 WG_WIDTH_64 :: nat work) 7) \<and>
    cl < rf_cols \<lparr>THREADS = 1024, LANES = 128, BUS = 4, SP_BUS = 4\<rparr> \<and> l < 128 \<and>
    tid \<lparr>THREADS = 1024, LANES = 128, BUS = 4, SP_BUS = 4\<rparr> (mk_work 100 40 WG_WIDTH_64 :: nat work)
      (wg_grid 1024 (mk_work 100 40 WG_WIDTH_64 :: nat work) 7 ! m) cl l = (of_nat 70, of_nat 20)"
  using thread_ids_exact[of "\<lparr>THREADS = 1024, LANES = 128, BUS = 4, SP_BUS = 4\<rparr>" 10 7 "mk_work 100 40 WG_WIDTH_64 :: nat work" 70 20 7]
  by (simp add: cfg_ok_def work_ok_def mk_work_def wg_w_def wg_h_def wgw_def)

end
