(* ===== verification/Reg_Store.thy ===== *)
theory Reg_Store
  imports Reg_File
begin

text \<open>
  The storage side of \<open>compute/control/RegFile.h\<close>: transfers between the registers and the DRAM
  controller or the scratchpads. The functions for the two sides have the same bodies in the
  source; here a body takes the interface, and the functions of the source are its instances. Only enabled
  lanes take part in transfers of vector registers and of the CAM.
\<close>

definition bus_words :: "rf_cfg \<Rightarrow> req_if \<Rightarrow> nat" where
  "bus_words c intf = (if intf = IF_DRAM then BUS c else SP_BUS c)"

subsection \<open>The hit map of bank words\<close>

definition clear_vrf_bank_word_hit_map :: "rf_cfg \<Rightarrow> regfile \<Rightarrow> regfile" where
  "clear_vrf_bank_word_hit_map c s =
    s\<lparr>hit_map := for_upto (THREADS c * 4 div bank_words s) (\<lambda>i a. a(i := False)) (hit_map s)\<rparr>"

definition count_vrf_bank_word_hit_map :: "rf_cfg \<Rightarrow> regfile \<Rightarrow> nat" where
  "count_vrf_bank_word_hit_map c s =
    for_upto (THREADS c * 4 div bank_words s) (\<lambda>i n. if hit_map s i then n + 1 else n) 0"

text \<open>\<open>set_vrf_bank_words\<close> passes 4 to the hazard detector whatever its argument; the new hit map is not initialised.\<close>

definition rf_set_vrf_bank_words :: "rf_cfg \<Rightarrow> nat \<Rightarrow> regfile \<Rightarrow> regfile res" where
  "rf_set_vrf_bank_words c w s =
    assertE (w < THREADS c * 4)
      (Inr (s\<lparr>bank_words := w, rf_hazard := set_vrf_bank_words 4 (rf_hazard s)\<rparr>))"

subsection \<open>Index transformation\<close>

definition transform_idx :: "nat \<Rightarrow> idx_transform_scheme \<Rightarrow> u32 \<Rightarrow> u32" where
  "transform_idx T t i =
    (case t of
       IDX_TRANSFORM_UNIT \<Rightarrow> i
     | IDX_TRANSFORM_VEC2 \<Rightarrow> push_bit (const_log2 T) (i AND 1) OR drop_bit 1 (i AND NOT 1)
     | IDX_TRANSFORM_VEC4 \<Rightarrow> push_bit (const_log2 T) (i AND 3) OR drop_bit 2 (i AND NOT 3))"

subsection \<open>Transfers of vector registers\<close>

text \<open>Lane \<open>l\<close> of the work-group is lane \<open>l mod LANES\<close> of column \<open>l div LANES\<close>.\<close>

definition lane_enabled :: "rf_cfg \<Rightarrow> regfile \<Rightarrow> slot \<Rightarrow> nat \<Rightarrow> bool" where
  "lane_enabled c s wg l = lanes_en s wg (drop_bit (const_log2 (LANES c)) l) (l AND (LANES c - 1))"

text \<open>
  One iteration each of the write and the read loop. The index is not compared with the size of the array in the code; past the end
  of it C++ leaves the access undefined, while the function here is total (\<open>store_off_in_array\<close> of \<open>Reg_Props\<close>).
\<close>

definition store_write_vgpr_word ::
  "rf_cfg \<Rightarrow> (nat \<Rightarrow> reg_offset) \<Rightarrow> (nat \<Rightarrow> u32) \<Rightarrow> (nat \<Rightarrow> bool) \<Rightarrow> (nat \<Rightarrow> bool) \<Rightarrow> slot \<Rightarrow> nat \<Rightarrow> nat \<Rightarrow> regfile \<Rightarrow> regfile res" where
  "store_write_vgpr_word c idx data conflicts msk wg line i s =
    assertE (\<not> conflicts i)
      (let lane = off_lane (THREADS c) (idx i) in
       if \<not> msk i then Inr s
       else if \<not> lane_enabled c s wg lane then Inr s
       else
         let off = off_row (THREADS c) (idx i) * THREADS c + lane;
             bw = off div bank_words s;
             off = off + line
         in Inr (s\<lparr>VRF := (VRF s)(wg := (VRF s wg)(off := data i)),
                   dram_vrf_net_words_w := dram_vrf_net_words_w s + 1,
                   hit_map := (hit_map s)(bw := True)\<rparr>))"

definition store_read_vgpr_word ::
  "rf_cfg \<Rightarrow> req_if \<Rightarrow> (nat \<Rightarrow> reg_offset) \<Rightarrow> (nat \<Rightarrow> bool) \<Rightarrow> (nat \<Rightarrow> bool) \<Rightarrow> slot \<Rightarrow> nat \<Rightarrow> nat \<Rightarrow>
    regfile \<times> (nat \<Rightarrow> bool) \<Rightarrow> (regfile \<times> (nat \<Rightarrow> bool)) res" where
  "store_read_vgpr_word c intf idx conflicts msk wg line i p =
    (case p of (s, wmask) \<Rightarrow>
     assertE (\<not> conflicts i)
      (let lane = off_lane (THREADS c) (idx i) in
       if \<not> msk i then Inr (s, wmask)
       else if \<not> lane_enabled c s wg lane then Inr (s, wmask)
       else
         let off = off_row (THREADS c) (idx i) * THREADS c + lane;
             bw = off div bank_words s;
             off = off + line
         in Inr (s\<lparr>out_store_data := (out_store_data s)(intf := (out_store_data s intf)(i := VRF s wg off)),
                   dram_vrf_net_words_r := dram_vrf_net_words_r s + 1,
                   hit_map := (hit_map s)(bw := True)\<rparr>, wmask(i := True))))"

text \<open>A loop whose body may abort.\<close>

primrec for_res :: "nat \<Rightarrow> (nat \<Rightarrow> 's \<Rightarrow> 's res) \<Rightarrow> 's \<Rightarrow> 's res" where
  "for_res 0 f s = Inr s"
| "for_res (Suc n) f s = bindE (for_res n f s) (f n)"

definition store_write_vgpr :: "rf_cfg \<Rightarrow> req_if \<Rightarrow> store_inputs \<Rightarrow> slot \<Rightarrow> row \<Rightarrow> (nat \<Rightarrow> bool) \<Rightarrow> regfile \<Rightarrow> regfile res" where
  "store_write_vgpr c intf st wg row msk s =
    (let idx = in_store_idx st intf;
         conflicts = access_vrf_bank_conflict (THREADS c) (LANES c) (rf_hazard s) (bus_words c intf) idx msk;
         line = unat row * THREADS c
     in bindE (for_res (bus_words c intf) (store_write_vgpr_word c idx (in_store_data st intf) conflicts msk wg line)
                 (clear_vrf_bank_word_hit_map c s))
          (\<lambda>s. Inr (s\<lparr>dram_vrf_words_w := dram_vrf_words_w s + count_vrf_bank_word_hit_map c s * bank_words s\<rparr>)))"

definition store_read_vgpr :: "rf_cfg \<Rightarrow> req_if \<Rightarrow> store_inputs \<Rightarrow> slot \<Rightarrow> row \<Rightarrow> (nat \<Rightarrow> bool) \<Rightarrow> regfile \<Rightarrow> regfile res" where
  "store_read_vgpr c intf st wg row msk s =
    (let idx = in_store_idx st intf;
         conflicts = access_vrf_bank_conflict (THREADS c) (LANES c) (rf_hazard s) (bus_words c intf) idx msk;
         line = unat row * THREADS c
     in bindE (for_res (bus_words c intf) (store_read_vgpr_word c intf idx conflicts msk wg line)
                 (clear_vrf_bank_word_hit_map c s, \<lambda>_. False))
          (\<lambda>(s, wmask). Inr (s\<lparr>dram_vrf_words_r := dram_vrf_words_r s + count_vrf_bank_word_hit_map c s * bank_words s,
                              out_store_mask := (out_store_mask s)(intf := wmask)\<rparr>)))"

definition dram_write_vgpr :: "rf_cfg \<Rightarrow> store_inputs \<Rightarrow> slot \<Rightarrow> row \<Rightarrow> (nat \<Rightarrow> bool) \<Rightarrow> regfile \<Rightarrow> regfile res" where
  "dram_write_vgpr c = store_write_vgpr c IF_DRAM"

definition dram_read_vgpr :: "rf_cfg \<Rightarrow> store_inputs \<Rightarrow> slot \<Rightarrow> row \<Rightarrow> (nat \<Rightarrow> bool) \<Rightarrow> regfile \<Rightarrow> regfile res" where
  "dram_read_vgpr c = store_read_vgpr c IF_DRAM"

definition sp_write_vgpr :: "rf_cfg \<Rightarrow> store_inputs \<Rightarrow> slot \<Rightarrow> row \<Rightarrow> (nat \<Rightarrow> bool) \<Rightarrow> regfile \<Rightarrow> regfile res" where
  "sp_write_vgpr c st wg = store_write_vgpr c (sp_if wg) st wg"

definition sp_read_vgpr :: "rf_cfg \<Rightarrow> store_inputs \<Rightarrow> slot \<Rightarrow> row \<Rightarrow> (nat \<Rightarrow> bool) \<Rightarrow> regfile \<Rightarrow> regfile res" where
  "sp_read_vgpr c st wg = store_read_vgpr c (sp_if wg) st wg"

subsection \<open>Transfers of the CAM\<close>

definition store_write_cam :: "rf_cfg \<Rightarrow> req_if \<Rightarrow> store_inputs \<Rightarrow> slot \<Rightarrow> row \<Rightarrow> (nat \<Rightarrow> bool) \<Rightarrow> regfile \<Rightarrow> regfile res" where
  "store_write_cam c intf st wg row msk s =
    assertE (row = VSP_MEM_DATA)
      (Inr (s\<lparr>cam_val := (cam_val s)(wg :=
         for_upto (bus_words c intf) (\<lambda>i v.
           if \<not> msk i then v
           else for_upto (THREADS c) (\<lambda>l v.
                  if lane_enabled c s wg l \<and> cam_idxs s wg l = in_store_idx st intf i
                  then v(l := in_store_data st intf i) else v) v) (cam_val s wg))\<rparr>))"

text \<open>The first enabled lane whose index matches, if there is one.\<close>

definition cam_first :: "rf_cfg \<Rightarrow> regfile \<Rightarrow> slot \<Rightarrow> reg_offset \<Rightarrow> nat option" where
  "cam_first c s wg ix = List.find (\<lambda>l. lane_enabled c s wg l \<and> cam_idxs s wg l = ix) [0..<THREADS c]"

definition store_read_cam :: "rf_cfg \<Rightarrow> req_if \<Rightarrow> store_inputs \<Rightarrow> slot \<Rightarrow> row \<Rightarrow> (nat \<Rightarrow> bool) \<Rightarrow> regfile \<Rightarrow> regfile res" where
  "store_read_cam c intf st wg row msk s =
    assertE (row = VSP_MEM_DATA)
      (let (data, wmask) =
         for_upto (bus_words c intf) (\<lambda>i (data, wmask).
           if \<not> msk i then (data, wmask)
           else case cam_first c s wg (in_store_idx st intf i) of
                  None \<Rightarrow> (data, wmask)
                | Some l \<Rightarrow> (data(i := cam_val s wg l), wmask(i := True)))
         (out_store_data s intf, \<lambda>_. False)
       in Inr (s\<lparr>out_store_data := (out_store_data s)(intf := data),
                 out_store_mask := (out_store_mask s)(intf := wmask)\<rparr>))"

definition dram_write_cam :: "rf_cfg \<Rightarrow> store_inputs \<Rightarrow> slot \<Rightarrow> row \<Rightarrow> (nat \<Rightarrow> bool) \<Rightarrow> regfile \<Rightarrow> regfile res" where
  "dram_write_cam c = store_write_cam c IF_DRAM"

definition dram_read_cam :: "rf_cfg \<Rightarrow> store_inputs \<Rightarrow> slot \<Rightarrow> row \<Rightarrow> (nat \<Rightarrow> bool) \<Rightarrow> regfile \<Rightarrow> regfile res" where
  "dram_read_cam c = store_read_cam c IF_DRAM"

definition sp_write_cam :: "rf_cfg \<Rightarrow> store_inputs \<Rightarrow> slot \<Rightarrow> row \<Rightarrow> (nat \<Rightarrow> bool) \<Rightarrow> regfile \<Rightarrow> regfile res" where
  "sp_write_cam c st wg = store_write_cam c (sp_if wg) st wg"

definition sp_read_cam :: "rf_cfg \<Rightarrow> store_inputs \<Rightarrow> slot \<Rightarrow> row \<Rightarrow> (nat \<Rightarrow> bool) \<Rightarrow> regfile \<Rightarrow> regfile res" where
  "sp_read_cam c st wg = store_read_cam c (sp_if wg) st wg"

subsection \<open>Transfers of scalar registers\<close>

definition sgpr_offset :: "rf_cfg \<Rightarrow> row \<Rightarrow> reg_offset \<Rightarrow> nat" where
  "sgpr_offset c row ix = (unat row + off_lane (THREADS c) ix) mod 32"

definition store_write_sgpr :: "rf_cfg \<Rightarrow> req_if \<Rightarrow> store_inputs \<Rightarrow> slot \<Rightarrow> row \<Rightarrow> (nat \<Rightarrow> bool) \<Rightarrow> regfile \<Rightarrow> regfile" where
  "store_write_sgpr c intf st wg row msk s =
    s\<lparr>SRF := (SRF s)(wg :=
      for_upto (bus_words c intf) (\<lambda>i v.
        if \<not> msk i then v else v(sgpr_offset c row (in_store_idx st intf i) := in_store_data st intf i)) (SRF s wg))\<rparr>"

text \<open>The read drives the words and leaves the store mask as it is.\<close>

definition store_read_sgpr :: "rf_cfg \<Rightarrow> req_if \<Rightarrow> store_inputs \<Rightarrow> slot \<Rightarrow> row \<Rightarrow> (nat \<Rightarrow> bool) \<Rightarrow> regfile \<Rightarrow> regfile" where
  "store_read_sgpr c intf st wg row msk s =
    s\<lparr>out_store_data := (out_store_data s)(intf :=
      for_upto (bus_words c intf) (\<lambda>i d.
        if \<not> msk i then d else d(i := SRF s wg (sgpr_offset c row (in_store_idx st intf i)))) (out_store_data s intf))\<rparr>"

definition dram_write_sgpr :: "rf_cfg \<Rightarrow> store_inputs \<Rightarrow> slot \<Rightarrow> row \<Rightarrow> (nat \<Rightarrow> bool) \<Rightarrow> regfile \<Rightarrow> regfile" where
  "dram_write_sgpr c = store_write_sgpr c IF_DRAM"

definition dram_read_sgpr :: "rf_cfg \<Rightarrow> store_inputs \<Rightarrow> slot \<Rightarrow> row \<Rightarrow> (nat \<Rightarrow> bool) \<Rightarrow> regfile \<Rightarrow> regfile" where
  "dram_read_sgpr c = store_read_sgpr c IF_DRAM"

definition sp_write_sgpr :: "rf_cfg \<Rightarrow> store_inputs \<Rightarrow> slot \<Rightarrow> row \<Rightarrow> (nat \<Rightarrow> bool) \<Rightarrow> regfile \<Rightarrow> regfile" where
  "sp_write_sgpr c st wg = store_write_sgpr c (sp_if wg) st wg"

definition sp_read_sgpr :: "rf_cfg \<Rightarrow> store_inputs \<Rightarrow> slot \<Rightarrow> row \<Rightarrow> (nat \<Rightarrow> bool) \<Rightarrow> regfile \<Rightarrow> regfile" where
  "sp_read_sgpr c st wg = store_read_sgpr c (sp_if wg) st wg"

subsection \<open>The storage thread\<close>

definition do_store_dram :: "rf_cfg \<Rightarrow> store_inputs \<Rightarrow> regfile \<Rightarrow> regfile res" where
  "do_store_dram c st s =
    (let msk = in_store_mask st IF_DRAM; r = in_store_reg st IF_DRAM; wr = in_store_write st IF_DRAM in
     if \<not> (\<exists>i<BUS c. msk i) then Inr s
     else case rtype r of
       REGISTER_VGPR \<Rightarrow> (if wr then dram_write_vgpr c st (rwg r) (rrow r) msk s else dram_read_vgpr c st (rwg r) (rrow r) msk s)
     | REGISTER_SGPR \<Rightarrow> Inr (if wr then dram_write_sgpr c st (rwg r) (rrow r) msk s else dram_read_sgpr c st (rwg r) (rrow r) msk s)
     | REGISTER_VSP \<Rightarrow> (if wr then dram_write_cam c st (rwg r) (rrow r) msk s else dram_read_cam c st (rwg r) (rrow r) msk s)
     | _ \<Rightarrow> Inl Assert_Failed)"

text \<open>Mask and data come from the interface's ports, which the called functions select by the slot of the register.\<close>

definition do_store_sp :: "rf_cfg \<Rightarrow> req_if \<Rightarrow> store_inputs \<Rightarrow> regfile \<Rightarrow> regfile res" where
  "do_store_sp c intf st s =
    (let msk = in_store_mask st intf; r = in_store_reg st intf; wr = in_store_write st intf in
     if \<not> (\<exists>i<SP_BUS c. msk i) then Inr s
     else case rtype r of
       REGISTER_VGPR \<Rightarrow> (if wr then sp_write_vgpr c st (rwg r) (rrow r) msk s else sp_read_vgpr c st (rwg r) (rrow r) msk s)
     | REGISTER_SGPR \<Rightarrow> Inr (if wr then sp_write_sgpr c st (rwg r) (rrow r) msk s else sp_read_sgpr c st (rwg r) (rrow r) msk s)
     | REGISTER_VSP \<Rightarrow> (if wr then sp_write_cam c st (rwg r) (rrow r) msk s else sp_read_cam c st (rwg r) (rrow r) msk s)
     | _ \<Rightarrow> Inl Assert_Failed)"

definition thread_store :: "rf_cfg \<Rightarrow> store_inputs \<Rightarrow> regfile \<Rightarrow> regfile res" where
  "thread_store c st s =
    (let dst = in_dram_dst st in
     bindE (if in_store_enable st IF_DRAM \<and> (tgt_type dst = TARGET_REG \<or> tgt_type dst = TARGET_CAM)
            then assertE (\<not> in_store_enable st (sp_if (tgt_wg dst))) (do_store_dram c st s)
            else Inr s) (\<lambda>s.
     bindE (if in_store_enable st IF_SP_WG0 then do_store_sp c IF_SP_WG0 st s else Inr s) (\<lambda>s.
     if in_store_enable st IF_SP_WG1 then do_store_sp c IF_SP_WG1 st s else Inr s)))"

subsection \<open>The thread that pushes CAM indices\<close>

datatype idx_push_state = STATE_IDLE | STATE_PUSH slot nat

text \<open>One cycle: what goes into the FIFO, and the next state.\<close>

definition idx_push_step :: "rf_cfg \<Rightarrow> regfile \<Rightarrow> slot \<Rightarrow> nat \<Rightarrow> idx list \<times> idx_push_state" where
  "idx_push_step c s wg l =
    (if l < THREADS c then
       ((if lane_enabled c s wg l then [mk_idx (THREADS c) l (cam_idxs s wg l)] else []), STATE_PUSH wg (l + 1))
     else ([idx_last], STATE_IDLE))"

definition thread_idx_push :: "rf_cfg \<Rightarrow> store_inputs \<Rightarrow> regfile \<Rightarrow> idx_push_state \<Rightarrow> idx list \<times> idx_push_state" where
  "thread_idx_push c st s q =
    (case q of
       STATE_IDLE \<Rightarrow>
         (if \<not> in_store_idx_push_trigger st then ([], STATE_IDLE)
          else idx_push_step c s (rwg (in_store_reg st IF_DRAM)) 0)
     | STATE_PUSH wg l \<Rightarrow> idx_push_step c s wg l)"

end
