(* ===== verification/Reg_Props.thy ===== *)
theory Reg_Props
  imports Reg_Store Thread_Ids
begin

text \<open>
  Correctness of the register file: registers hold what was written to them, the flags that steer the
  control flow follow the control masks, and the storage side moves exactly the words of the
  enabled lanes.
\<close>

lemmas rf_write_defs = write_vgpr_def write_sgpr_def write_pr_def write_vsp_def write_ssp_def

lemma for_upto_if_store:
  "for_upto n (\<lambda>i a. if m i then a(i := d i) else a) a j = (if j < n \<and> m j then d j else a j)"
  using for_upto_masked_store[of n m 0 d a j] by (simp cong: if_cong)

lemma for_upto_all:
  "for_upto n (\<lambda>i a. a(i := d i)) a j = (if j < n then d j else a j)"
  using for_upto_store[of n 0 d a j] by simp

lemma drive_port_data: "l < LANES c \<Longrightarrow> out_data_r (drive_port c p f s) p l = f l"
  by (simp add: drive_port_def for_upto_all)

subsection \<open>Vector registers\<close>

lemma vreg_offset_inj:
  assumes c: "cfg_ok c k a" and "rcol r < rf_cols c" "rcol q < rf_cols c" "l < LANES c" "m < LANES c"
  shows "vreg_offset c r + l = vreg_offset c q + m \<longleftrightarrow> rrow r = rrow q \<and> rcol r = rcol q \<and> l = m"
proof
  note C = cfg_ok_simps[OF c]
  have off: "vreg_offset c x = (unat (rrow x) * rf_cols c + rcol x) * LANES c" for x
    using C(6) by (simp add: vreg_offset_def algebra_simps)
  assume e: "vreg_offset c r + l = vreg_offset c q + m"
  have "l = m" "unat (rrow r) * rf_cols c + rcol r = unat (rrow q) * rf_cols c + rcol q"
    using div_mod_pair[OF assms(4)] div_mod_pair[OF assms(5)] e unfolding off by metis+
  moreover from this have "rcol r = rcol q" "unat (rrow r) = unat (rrow q)"
    using div_mod_pair[OF assms(2)] div_mod_pair[OF assms(3)] by metis+
  ultimately show "rrow r = rrow q \<and> rcol r = rcol q \<and> l = m" by (simp add: word_unat_eq_iff)
qed (simp add: vreg_offset_def)

lemma thread_wr_VRF:
  assumes "thread_wr c i s = Inr s'"
  shows "VRF s' = (if in_w i \<and> rtype (in_req_w i) = REGISTER_VGPR
     then (VRF s)(rwg (in_req_w i) := \<lambda>x. if vreg_offset c (in_req_w i) \<le> x \<and> x < vreg_offset c (in_req_w i) + LANES c \<and>
            (in_ignore_mask_w i \<or> in_mask_w i (x - vreg_offset c (in_req_w i)))
          then in_data_w i (x - vreg_offset c (in_req_w i)) else VRF s (rwg (in_req_w i)) x)
     else VRF s)"
proof -
  have after: "VRF (thread_wr_after c i t) = VRF t" for t
    by (simp add: thread_wr_after_def update_thread_active_def check_columns update_lanes_en_def
        reset_outputs_def reset_cmasks_def Let_def del: for_upto_Suc)
  obtain t where t: "thread_wr_write c i s = Inr t" "VRF s' = VRF t"
    using assms by (auto simp: thread_wr_def bindE_Inr_iff after)
  show ?thesis
  proof (cases "in_w i \<and> any_lane c (wr_mask i)")
    case False
    then show ?thesis
      using t by (auto simp: thread_wr_write_def wr_mask_def any_lane_def fun_eq_iff dest: spec[of _ 0] split: if_splits)
  next
    case True
    then show ?thesis
      using t by (cases "rtype (in_req_w i)")
        (auto simp: thread_wr_write_def wr_mask_def Let_def rf_write_defs for_upto_masked_store for_upto_store fun_eq_iff split: if_splits)
  qed
qed

text \<open>
  C12. A vector register holds what was written to it: after a write cycle, reading a register shows, in each
  lane, the word written if the write was to that register of that slot and the lane was not masked
  out, and the old word otherwise. Other registers, columns and the other work-group slot are not
  disturbed.
\<close>

theorem vgpr_read_back:
  assumes "cfg_ok c k a" and "thread_wr c i s = Inr s'" and "in_w i" "rtype (in_req_w i) = REGISTER_VGPR"
    and "rcol (in_req_w i) < rf_cols c" and "read_vgpr c r p s' = Inr s''" and "l < LANES c"
  shows "out_data_r s'' p l =
    (if rwg r = rwg (in_req_w i) \<and> rrow r = rrow (in_req_w i) \<and> rcol r = rcol (in_req_w i) \<and>
        (in_ignore_mask_w i \<or> in_mask_w i l)
     then in_data_w i l else VRF s (rwg r) (vreg_offset c r + l))"
proof -
  let ?w = "in_req_w i"
  have r: "rcol r < rf_cols c" and out: "out_data_r s'' p l = VRF s' (rwg r) (vreg_offset c r + l)"
    using assms(6,7) by (auto simp: read_vgpr_def Let_def drive_port_data)
  have "vreg_offset c ?w \<le> vreg_offset c r + l \<and> vreg_offset c r + l < vreg_offset c ?w + LANES c \<longleftrightarrow>
      rrow r = rrow ?w \<and> rcol r = rcol ?w" (is "?in \<longleftrightarrow> ?eq")
  proof
    assume ?in
    then have "vreg_offset c r + l = vreg_offset c ?w + (vreg_offset c r + l - vreg_offset c ?w)"
      "vreg_offset c r + l - vreg_offset c ?w < LANES c" by auto
    then show ?eq using vreg_offset_inj[OF assms(1) r assms(5,7)] by blast
  qed (use assms(7) in \<open>simp add: vreg_offset_def\<close>)
  moreover have "?eq \<Longrightarrow> vreg_offset c r = vreg_offset c ?w" by (simp add: vreg_offset_def)
  ultimately show ?thesis
    unfolding out thread_wr_VRF[OF assms(2)] using assms(3,4) by auto
qed

abbreviation (input) "cfg_small \<equiv> \<lparr>THREADS = 64, LANES = 32, BUS = 4, SP_BUS = 4\<rparr>"

definition rf_zero :: regfile where
  "rf_zero = \<lparr>VRF = (\<lambda>_ _. 0), SRF = (\<lambda>_ _. 0), PRF = (\<lambda>_ _. False), cam_idxs = (\<lambda>_ _. 0), cam_val = (\<lambda>_ _. 0),
     CMRF = (\<lambda>_ _ _ _. True), lanes_en = (\<lambda>_ _ _. True), rf_hazard = RegHazardDetect_3R1W,
     dram_vrf_words_r = 0, dram_vrf_words_w = 0, dram_vrf_net_words_r = 0, dram_vrf_net_words_w = 0,
     bank_words = 4, hit_map = (\<lambda>_. False), thread_active = (\<lambda>_. True), threads_fini = (\<lambda>_. False),
     out_data_r = (\<lambda>_ _. 0), out_req_conflicts = (\<lambda>_. False), out_mask_w = (\<lambda>_. True),
     out_thread_active = (\<lambda>_. True), out_wg_finished = (\<lambda>_. False),
     out_sd = (\<lambda>_. stride_descriptor_default), out_store_data = (\<lambda>_ _. 0), out_store_mask = (\<lambda>_ _. False)\<rparr>"

abbreviation (input) "rf_write_in r d m \<equiv> \<lparr>in_wg_off = (\<lambda>_ _. 0), in_dim = (\<lambda>_. 0), in_wg_width = WG_WIDTH_32,
  in_req_w = r, in_data_w = d, in_mask_w = m, in_w = True, in_last_warp = (\<lambda>_. 1), in_ignore_mask_w = False,
  in_cmask_rst = False, in_cmask_rst_wg = 0\<rparr>"

theorem vgpr_read_back_witness:
  "\<exists>s' s''. thread_wr cfg_small (rf_write_in (Register 0 REGISTER_VGPR 3 1) (\<lambda>l. of_nat l + 5) (\<lambda>l. l < 7)) rf_zero = Inr s' \<and>
    read_vgpr cfg_small (Register 0 REGISTER_VGPR 3 1) 0 s' = Inr s'' \<and>
    out_data_r s'' 0 2 = 7 \<and> out_data_r s'' 0 8 = 0"
proof -
  let ?i = "rf_write_in (Register 0 REGISTER_VGPR 3 1) (\<lambda>l. of_nat l + 5) (\<lambda>l. l < 7)"
  have any: "any_lane cfg_small (\<lambda>l. l < 7)" by (simp add: any_lane_def) (rule exI[of _ 0], simp)
  have ok: "cfg_ok cfg_small 6 5" by (simp add: cfg_ok_def)
  obtain s' where s': "thread_wr cfg_small ?i rf_zero = Inr s'"
    using any by (simp add: thread_wr_def thread_wr_write_def wr_mask_def Let_def write_vgpr_def Register_def rf_cols_def)
  obtain s'' where s'': "read_vgpr cfg_small (Register 0 REGISTER_VGPR 3 1) 0 s' = Inr s''"
    by (simp add: read_vgpr_def Let_def Register_def rf_cols_def)
  have "out_data_r s'' 0 l = (if l < 7 then of_nat l + 5 else 0)" if "l < 32" for l
    using vgpr_read_back[OF ok s' _ _ _ s'', of l] that by (simp add: Register_def rf_cols_def rf_zero_def)
  from this[of 2] this[of 8] s' s'' show ?thesis by simp
qed

subsection \<open>The flags that steer the control flow\<close>

lemma thread_wr_lanes:
  assumes "thread_wr c i s = Inr s'"
  shows "j < rf_cols c \<Longrightarrow> lanes_en s' wg j = lanes_mask s' wg j"
proof -
  obtain t where s': "s' = thread_wr_after c i t" using assms by (auto simp: thread_wr_def bindE_Inr_iff)
  show "j < rf_cols c \<Longrightarrow> lanes_en s' wg j = lanes_mask s' wg j"
    unfolding s' by (simp add: thread_wr_after_def update_thread_active_def check_columns update_lanes_en_def Let_def
        lanes_mask_def for_upto_all fun_eq_iff del: for_upto_Suc)
qed

text \<open>
  C13. When a control mask of a work-group has been written up to its last column, the register file reports, in
  the same cycle, whether some thread is still active, that is, enabled in all four control masks, and
  whether all threads have exited; the other slot's flags stay as they are.
\<close>

theorem control_flags_exact:
  assumes "thread_wr c i s = Inr s'" and "in_w i" "rtype (in_req_w i) = REGISTER_VSP" "rrow (in_req_w i) < 4"
    and "in_last_warp i (rwg (in_req_w i)) \<le> rcol (in_req_w i)" "in_last_warp i (rwg (in_req_w i)) < rf_cols c"
    and "\<not> in_cmask_rst i"
  defines "wg \<equiv> rwg (in_req_w i)" and "lw \<equiv> in_last_warp i (rwg (in_req_w i))"
  shows "(out_thread_active s' wg \<longleftrightarrow> (\<exists>j\<le>lw. \<exists>l<LANES c. lanes_mask s' wg j l)) \<and>
    (out_wg_finished s' wg \<longleftrightarrow> (\<forall>j\<le>lw. \<forall>l<LANES c. \<not> CMRF s' wg 3 j l)) \<and>
    (\<forall>v. v \<noteq> wg \<longrightarrow> out_thread_active s' v = thread_active s v \<and> out_wg_finished s' v = threads_fini s v)"
proof -
  obtain t where t: "thread_wr_write c i s = Inr t" and s': "s' = thread_wr_after c i t"
    using assms(1) by (auto simp: thread_wr_def bindE_Inr_iff)
  have fr: "thread_active t = thread_active s" "threads_fini t = threads_fini s"
    using t assms(3) by (auto simp: thread_wr_write_def write_vsp_def Let_def split: if_splits)
  have row: "\<not> 4 \<le> rrow (in_req_w i)" using assms(4) by simp
  have le: "j < Suc lw \<longleftrightarrow> j \<le> lw" for j by (rule less_Suc_eq_le)
  have en: "lanes_en s' w j = lanes_mask s' w j" if "j \<le> lw" for j w
    using thread_wr_lanes[OF assms(1), of j w] that assms(6) by (simp add: lw_def)
  let ?u = "update_lanes_en c t"
  have s'': "s' = (let s = ?u\<lparr>thread_active := (thread_active ?u)(wg := (\<exists>j<Suc lw. any_lane c (lanes_en ?u wg j))),
      threads_fini := (threads_fini ?u)(wg := (\<not> (\<exists>j<Suc lw. any_lane c (CMRF ?u wg 3 j))))\<rparr>
      in s\<lparr>out_thread_active := thread_active s, out_wg_finished := threads_fini s\<rparr>)"
    using assms(2,3,5,7) row
    by (simp add: s' thread_wr_after_def update_thread_active_def check_columns Let_def wg_def lw_def not_less del: for_upto_Suc)
  have same: "lanes_en ?u = lanes_en s'" "CMRF ?u = CMRF s'" by (simp_all add: s'' Let_def)
  have "(\<exists>j\<le>lw. any_lane c (lanes_en s' wg j)) \<longleftrightarrow> (\<exists>j\<le>lw. \<exists>l<LANES c. lanes_mask s' wg j l)"
    using en[of _ wg] unfolding any_lane_def by metis
  then have 1: "out_thread_active s' wg \<longleftrightarrow> (\<exists>j\<le>lw. \<exists>l<LANES c. lanes_mask s' wg j l)"
    unfolding arg_cong[OF s'', of out_thread_active] Let_def by (simp add: same le)
  have 2: "out_wg_finished s' wg \<longleftrightarrow> (\<forall>j\<le>lw. \<forall>l<LANES c. \<not> CMRF s' wg 3 j l)"
    unfolding arg_cong[OF s'', of out_wg_finished] Let_def by (auto simp: same any_lane_def le)
  have "out_thread_active s' v = thread_active s v \<and> out_wg_finished s' v = threads_fini s v" if "v \<noteq> wg" for v
    using that unfolding arg_cong[OF s'', of out_thread_active] arg_cong[OF s'', of out_wg_finished] Let_def
    by (simp add: update_lanes_en_def fr)
  with 1 2 show ?thesis by blast
qed

text \<open>A write of a control mask: it succeeds, and changes the lanes written.\<close>

lemma thread_wr_cmask:
  assumes "rtype (in_req_w i) = REGISTER_VSP" "rrow (in_req_w i) < 4" "rcol (in_req_w i) < rf_cols c" "\<not> in_cmask_rst i"
  shows "\<exists>s'. thread_wr c i s = Inr s' \<and>
    (in_w i \<longrightarrow> (\<forall>l. CMRF s' (rwg (in_req_w i)) (unat (rrow (in_req_w i))) (rcol (in_req_w i)) l =
      (if l < LANES c \<and> wr_mask i l then in_data_w i l \<noteq> 0
       else CMRF s (rwg (in_req_w i)) (unat (rrow (in_req_w i))) (rcol (in_req_w i)) l))) \<and>
    (\<forall>j w r. j \<noteq> rcol (in_req_w i) \<longrightarrow> CMRF s' w r j = CMRF s w r j)"
proof -
  have after: "CMRF (thread_wr_after c i t) = CMRF t" for t
    using assms(4) by (simp add: thread_wr_after_def update_thread_active_def check_columns update_lanes_en_def Let_def del: for_upto_Suc)
  have "rrow (in_req_w i) < 12" using assms(2) by (rule less_trans) simp
  then have "\<exists>t. thread_wr_write c i s = Inr t \<and>
    (in_w i \<longrightarrow> (\<forall>l. CMRF t (rwg (in_req_w i)) (unat (rrow (in_req_w i))) (rcol (in_req_w i)) l =
      (if l < LANES c \<and> wr_mask i l then in_data_w i l \<noteq> 0
       else CMRF s (rwg (in_req_w i)) (unat (rrow (in_req_w i))) (rcol (in_req_w i)) l))) \<and>
    (\<forall>j w r. j \<noteq> rcol (in_req_w i) \<longrightarrow> CMRF t w r j = CMRF s w r j)"
    using assms(1-3) by (auto simp: thread_wr_write_def write_vsp_def Let_def for_upto_if_store any_lane_def)
  then show ?thesis by (auto simp: thread_wr_def after)
qed

text \<open>The exit of every thread of a small work-group, in two columns, seen at the second.\<close>

theorem control_flags_exact_witness:
  "\<exists>s1 s2. thread_wr cfg_small (rf_write_in (Register 0 REGISTER_VSP 3 0) (\<lambda>_. 0) (\<lambda>_. True)) rf_zero = Inr s1 \<and>
    thread_wr cfg_small (rf_write_in (Register 0 REGISTER_VSP 3 1) (\<lambda>_. 0) (\<lambda>_. True)) s1 = Inr s2 \<and>
    out_wg_finished s2 0"
proof -
  let ?i = "\<lambda>j. rf_write_in (Register 0 REGISTER_VSP 3 j) (\<lambda>_. 0) (\<lambda>_. True)"
  have ex: "\<exists>s'. thread_wr cfg_small (?i j) s = Inr s' \<and> (\<forall>l<32. \<not> CMRF s' 0 3 j l) \<and> (\<forall>k. k \<noteq> j \<longrightarrow> CMRF s' 0 3 k = CMRF s 0 3 k)"
    if "j < 2" for j s
    using thread_wr_cmask[of "?i j" cfg_small s] that
    by (fastforce simp: Register_def rf_cols_def wr_mask_def cong: if_cong)
  obtain s1 where s1: "thread_wr cfg_small (?i 0) rf_zero = Inr s1" "\<forall>l<32. \<not> CMRF s1 0 3 0 l" using ex[of 0 rf_zero] by auto
  obtain s2 where s2: "thread_wr cfg_small (?i 1) s1 = Inr s2" "\<forall>l<32. \<not> CMRF s2 0 3 1 l" "CMRF s2 0 3 0 = CMRF s1 0 3 0"
    using ex[of 1 s1] by auto
  have two: "j \<le> 1 \<longleftrightarrow> j = 0 \<or> j = 1" for j :: nat by linarith
  have "out_wg_finished s2 0 \<longleftrightarrow> (\<forall>j\<le>1. \<forall>l<32. \<not> CMRF s2 0 3 j l)"
    using control_flags_exact[OF s2(1)] by (simp add: Register_def rf_cols_def)
  moreover have "\<not> CMRF s2 0 3 j l" if "j \<le> 1" "l < 32" for j l
    using that s1(2) s2(2,3) two[of j] by auto
  ultimately have "out_wg_finished s2 0" by blast
  with s1 s2 show ?thesis by blast
qed

subsection \<open>Index transformation and the CAM\<close>

text \<open>The run of the push thread from its trigger until it is idle again.\<close>

lemma idx_push_run:
  "l \<le> THREADS c \<Longrightarrow> n = THREADS c - l \<Longrightarrow>
    mealy (\<lambda>st. thread_idx_push c st s) (replicate (Suc n) st) (STATE_PUSH wg l) =
      (map (\<lambda>l. if lane_enabled c s wg l then [mk_idx (THREADS c) l (cam_idxs s wg l)] else []) [l..<THREADS c] @ [[idx_last]],
       STATE_IDLE)"
proof (induction n arbitrary: l)
  case 0
  then show ?case by (simp add: thread_idx_push_def idx_push_step_def)
next
  case (Suc n)
  let ?e = "if lane_enabled c s wg l then [mk_idx (THREADS c) l (cam_idxs s wg l)] else []"
  have l: "l < THREADS c" using Suc.prems by simp
  then have step: "thread_idx_push c st s (STATE_PUSH wg l) = (?e, STATE_PUSH wg (Suc l))"
    by (simp add: thread_idx_push_def idx_push_step_def)
  have "mealy (\<lambda>st. thread_idx_push c st s) (replicate (Suc n) st) (STATE_PUSH wg (Suc l)) =
      (map (\<lambda>l. if lane_enabled c s wg l then [mk_idx (THREADS c) l (cam_idxs s wg l)] else []) [Suc l..<THREADS c] @ [[idx_last]],
       STATE_IDLE)"
    by (rule Suc.IH) (use Suc.prems l in simp_all)
  then show ?case
    using l by (simp only: replicate_Suc[of "Suc n"] mealy.simps step Let_def prod.case upt_conv_Cons list.map append_Cons)
qed

text \<open>
  A trigger of an indexed transfer makes the register file emit, in lane order, one entry per enabled
  lane, holding the lane and its CAM index, followed by the end marker, after which the thread is idle.
\<close>

lemma idx_push_emits:
  assumes "in_store_idx_push_trigger st" "0 < THREADS c"
  defines "wg \<equiv> rwg (in_store_reg st IF_DRAM)"
  shows "concat (fst (mealy (\<lambda>st. thread_idx_push c st s) (replicate (THREADS c + 1) st) STATE_IDLE)) =
      map (\<lambda>l. mk_idx (THREADS c) l (cam_idxs s wg l)) (filter (lane_enabled c s wg) [0..<THREADS c]) @ [idx_last] \<and>
    snd (mealy (\<lambda>st. thread_idx_push c st s) (replicate (THREADS c + 1) st) STATE_IDLE) = STATE_IDLE"
proof -
  have "thread_idx_push c st s STATE_IDLE = thread_idx_push c st s (STATE_PUSH wg 0)"
    using assms by (simp add: thread_idx_push_def)
  then have "mealy (\<lambda>st. thread_idx_push c st s) (replicate (Suc (THREADS c)) st) STATE_IDLE =
      mealy (\<lambda>st. thread_idx_push c st s) (replicate (Suc (THREADS c)) st) (STATE_PUSH wg 0)" by simp
  moreover have "concat (map (\<lambda>l. if p l then [f l] else []) xs) = map f (filter p xs)" for p f xs
    by (induction xs) simp_all
  ultimately show ?thesis
    using idx_push_run[of 0 c "THREADS c" s st wg] by (simp_all del: mealy.simps replicate_Suc)
qed

abbreviation (input) "st_in intf wr r m ix d \<equiv> \<lparr>in_store_enable = (\<lambda>f. f = intf), in_store_write = (\<lambda>_. wr),
  in_store_reg = (\<lambda>_. r), in_store_mask = (\<lambda>_. m), in_store_idx = (\<lambda>_. ix), in_store_data = (\<lambda>_. d),
  in_dram_dst = \<lparr>tgt_wg = 0, tgt_type = TARGET_REG\<rparr>, in_store_idx_push_trigger = True\<rparr>"

lemma idx_push_emits_witness:
  "length (concat (fst (mealy (\<lambda>st. thread_idx_push cfg_small st rf_zero)
     (replicate 65 (st_in IF_DRAM False (AbstractRegister 0 REGISTER_VSP 10) (\<lambda>_. False) (\<lambda>_. 0) (\<lambda>_. 0))) STATE_IDLE))) = 65"
proof -
  have "filter (lane_enabled cfg_small rf_zero 0) [0..<64] = [0..<64]"
    by (rule filter_True) (simp add: lane_enabled_def rf_zero_def)
  then show ?thesis
    using idx_push_emits[of "st_in IF_DRAM False (AbstractRegister 0 REGISTER_VSP 10) (\<lambda>_. False) (\<lambda>_. 0) (\<lambda>_. 0)" cfg_small rf_zero]
    by (simp add: AbstractRegister_def del: replicate_Suc)
qed

lemma unat_power_lower_small: "k \<le> 20 \<Longrightarrow> unat (2 ^ k :: u32) = 2 ^ k"
proof -
  assume "k \<le> 20"
  then have "unat (of_nat (2 ^ k) :: u32) = 2 ^ k"
    by (simp add: unsigned_of_nat take_bit_nat_eq_self del: of_nat_power)
  then show ?thesis by simp
qed

text \<open>
  The index transformation of a vector load sends element \<open>i\<close> of the transfer to component \<open>i mod n\<close> of
  thread \<open>i div n\<close>, for \<open>n\<close> of 2 and 4: with the register offset read as (lane, row), the lane is the
  thread and the row, relative to the first register, the component.
\<close>

lemma transform_idx_vec:
  assumes "T = 2 ^ k" "k \<le> 20" "n = (if t = IDX_TRANSFORM_VEC2 then 2 else if t = IDX_TRANSFORM_VEC4 then 4 else 1)"
    and "unat i < n * T"
  shows "off_lane T (unat (transform_idx T t i)) = unat i div n \<and> off_row T (unat (transform_idx T t i)) = unat i mod n"
proof -
  have core: "off_lane T (unat (push_bit k (i AND (2 ^ b - 1)) OR drop_bit b (i AND NOT (2 ^ b - 1)))) = unat i div 2 ^ b \<and>
      off_row T (unat (push_bit k (i AND (2 ^ b - 1)) OR drop_bit b (i AND NOT (2 ^ b - 1)))) = unat i mod 2 ^ b"
    if b: "b \<le> 2" and lt: "unat i < 2 ^ b * T" for b
  proof -
    have m: "unat (i AND (2 ^ b - 1)) = unat i mod 2 ^ b"
    proof -
      have "i AND (2 ^ b - 1) = take_bit b i" by (simp add: take_bit_eq_mask mask_eq_exp_minus_1)
      then have "unat (i AND (2 ^ b - 1)) = take_bit b (unat i)" by (simp only: unsigned_take_bit_eq)
      then show ?thesis by (simp add: take_bit_eq_mod)
    qed
    have d: "drop_bit b (i AND NOT (2 ^ b - 1)) = drop_bit b i"
      by (rule bit_word_eqI) (auto simp: bit_simps mask_eq_exp_minus_1[symmetric] dest: bit_imp_le_length)
    have "unat i mod 2 ^ b * 2 ^ k < 2 ^ b * 2 ^ k" by (rule mult_less_mono1) simp_all
    also have "\<dots> = 2 ^ (b + k)" by (simp add: power_add)
    also have "(2::nat) ^ (b + k) \<le> 2 ^ 31" using b assms(2) by (intro power_increasing) simp_all
    finally have "unat (push_bit k (i AND (2 ^ b - 1))) = unat i mod 2 ^ b * 2 ^ k"
      by (simp add: push_bit_eq_mult unat_word_ariths m unat_power_lower_small[OF assms(2)])
    moreover have lt': "unat i div 2 ^ b < 2 ^ k" using lt assms(1) by (simp add: div_less_iff_less_mult mult.commute)
    moreover have "unat (drop_bit b i) = unat i div 2 ^ b" 
      unfolding unat_drop_bit_eq by (rule drop_bit_eq_div)
    ultimately have "unat (push_bit k (i AND (2 ^ b - 1)) OR drop_bit b (i AND NOT (2 ^ b - 1))) =
        (unat i mod 2 ^ b) * 2 ^ k + unat i div 2 ^ b"
      unfolding d unsigned_or_eq by (simp only: or_disjoint_add_nat[OF lt'])
    then show ?thesis using lt' by (simp add: off_lane_def off_row_def assms(1))
  qed
  show ?thesis
  proof (cases t)
    case IDX_TRANSFORM_UNIT
    then show ?thesis using assms by (simp add: transform_idx_def off_lane_def off_row_def)
  next
    case IDX_TRANSFORM_VEC2
    then show ?thesis using core[of 1] assms by (simp add: transform_idx_def)
  next
    case IDX_TRANSFORM_VEC4
    then show ?thesis using core[of 2] assms by (simp add: transform_idx_def)
  qed
qed

theorem transform_idx_vec_witness:
  "off_lane 1024 (unat (transform_idx 1024 IDX_TRANSFORM_VEC4 7)) = 1 \<and>
   off_row 1024 (unat (transform_idx 1024 IDX_TRANSFORM_VEC4 7)) = 3"
  using transform_idx_vec[of 1024 10 4 IDX_TRANSFORM_VEC4 7] by simp

lemma cam_write_word:
  "for_upto n (\<lambda>l v. if p l then v(l := d) else v) v l = (if l < n \<and> p l then d else v l)"
  by (rule for_upto_if_store)

lemma for_upto_last_writer:
  "for_upto n (\<lambda>i v. if \<not> m i then v else g i v) v l =
    (case List.find (\<lambda>i. m i \<and> w i) (rev [0..<n]) of Some i \<Rightarrow> d i | None \<Rightarrow> v l)"
  if "\<And>i v. g i v l = (if w i then d i else v l)"
  by (induction n) (simp_all add: that)

text \<open>
  C14. Indexed loads: words arriving for the CAM go to every enabled lane that asked for them, that is, whose
  CAM index is the index of the word, where a later word of the transfer wins, and to no other lane.
\<close>

theorem cam_write_exact:
  assumes "dram_write_cam c st wg row msk s = Inr s'" and "l < THREADS c"
  shows "cam_val s' wg l =
    (case List.find (\<lambda>i. msk i \<and> lane_enabled c s wg l \<and> cam_idxs s wg l = in_store_idx st IF_DRAM i) (rev [0..<BUS c]) of
       Some i \<Rightarrow> in_store_data st IF_DRAM i | None \<Rightarrow> cam_val s wg l)"
proof -
  let ?w = "\<lambda>i. lane_enabled c s wg l \<and> cam_idxs s wg l = in_store_idx st IF_DRAM i"
  have "cam_val s' wg l = for_upto (BUS c) (\<lambda>i v. if \<not> msk i then v
      else for_upto (THREADS c) (\<lambda>l v. if lane_enabled c s wg l \<and> cam_idxs s wg l = in_store_idx st IF_DRAM i
        then v(l := in_store_data st IF_DRAM i) else v) v) (cam_val s wg) l"
    using assms(1) by (auto simp: dram_write_cam_def store_write_cam_def bus_words_def)
  also have "\<dots> = (case List.find (\<lambda>i. msk i \<and> ?w i) (rev [0..<BUS c]) of Some i \<Rightarrow> in_store_data st IF_DRAM i | None \<Rightarrow> cam_val s wg l)"
    by (rule for_upto_last_writer) (simp add: cam_write_word assms(2))
  finally show ?thesis .
qed

theorem cam_write_exact_witness:
  "\<exists>s'. dram_write_cam cfg_small (st_in IF_DRAM True (AbstractRegister 0 REGISTER_VSP 11) (\<lambda>i. i < 2) (\<lambda>i. i) (\<lambda>i. of_nat i + 40))
      0 11 (\<lambda>i. i < 2) (rf_zero\<lparr>cam_idxs := (\<lambda>_ l. l)\<rparr>) = Inr s' \<and> cam_val s' 0 1 = 41"
proof -
  let ?st = "st_in IF_DRAM True (AbstractRegister 0 REGISTER_VSP 11) (\<lambda>i. i < 2) (\<lambda>i. i) (\<lambda>i. of_nat i + 40)"
  obtain s' where s': "dram_write_cam cfg_small ?st 0 11 (\<lambda>i. i < 2) (rf_zero\<lparr>cam_idxs := (\<lambda>_ l. l)\<rparr>) = Inr s'"
    by (simp add: dram_write_cam_def store_write_cam_def)
  have "cam_val s' 0 1 = 41"
    using cam_write_exact[OF s', of 1] by (simp add: lane_enabled_def rf_zero_def upt_rec)
  with s' show ?thesis by blast
qed

subsection \<open>Vector transfers\<close>

definition store_off :: "rf_cfg \<Rightarrow> row \<Rightarrow> reg_offset \<Rightarrow> nat" where
  "store_off c row ix = off_row (THREADS c) ix * THREADS c + off_lane (THREADS c) ix + unat row * THREADS c"

text \<open>
  The array has 64 rows of \<open>THREADS\<close> words. A transfer stays in it as long as register and row of the offset add up to less
  than 64, which nothing checks.
\<close>

lemma store_off_in_array:
  assumes "unat row + off_row (THREADS c) ix < 64" "off_lane (THREADS c) ix < THREADS c"
  shows "store_off c row ix < 64 * THREADS c"
proof -
  have "store_off c row ix < (unat row + off_row (THREADS c) ix) * THREADS c + THREADS c"
    using assms(2) by (simp add: store_off_def algebra_simps)
  also have "\<dots> \<le> 64 * THREADS c" using assms(1) mult_le_mono1[of "Suc (unat row + off_row (THREADS c) ix)" 64 "THREADS c"] by simp
  finally show ?thesis .
qed

text \<open>The words of a transfer that move: not masked out, and of an enabled lane.\<close>

definition moves :: "rf_cfg \<Rightarrow> regfile \<Rightarrow> slot \<Rightarrow> (nat \<Rightarrow> bool) \<Rightarrow> (nat \<Rightarrow> reg_offset) \<Rightarrow> nat \<Rightarrow> bool" where
  "moves c s wg msk ix i \<longleftrightarrow> msk i \<and> lane_enabled c s wg (off_lane (THREADS c) (ix i))"

lemma lane_enabled_cong: "lanes_en t = lanes_en s \<Longrightarrow> lane_enabled c t wg l = lane_enabled c s wg l"
  by (simp add: lane_enabled_def)

lemma store_write_loop:
  assumes "\<And>i. \<not> conflicts i"
    and "\<And>i j. i < n \<Longrightarrow> j < n \<Longrightarrow> moves c s wg msk ix i \<Longrightarrow> moves c s wg msk ix j \<Longrightarrow>
      store_off c row (ix i) = store_off c row (ix j) \<Longrightarrow> i = j"
  shows "\<exists>t. for_res n (store_write_vgpr_word c ix data conflicts msk wg (unat row * THREADS c)) s = Inr t \<and>
    lanes_en t = lanes_en s \<and> rf_hazard t = rf_hazard s \<and> (\<forall>w. w \<noteq> wg \<longrightarrow> VRF t w = VRF s w) \<and>
    (\<forall>i<n. moves c s wg msk ix i \<longrightarrow> VRF t wg (store_off c row (ix i)) = data i) \<and>
    (\<forall>x. (\<forall>i<n. moves c s wg msk ix i \<longrightarrow> store_off c row (ix i) \<noteq> x) \<longrightarrow> VRF t wg x = VRF s wg x)"
  using assms(2)
proof (induction n)
  case 0
  then show ?case by simp
next
  case (Suc n)
  then obtain t where t: "for_res n (store_write_vgpr_word c ix data conflicts msk wg (unat row * THREADS c)) s = Inr t"
    "lanes_en t = lanes_en s" "rf_hazard t = rf_hazard s" "\<forall>w. w \<noteq> wg \<longrightarrow> VRF t w = VRF s w"
    "\<forall>i<n. moves c s wg msk ix i \<longrightarrow> VRF t wg (store_off c row (ix i)) = data i"
    "\<forall>x. (\<forall>i<n. moves c s wg msk ix i \<longrightarrow> store_off c row (ix i) \<noteq> x) \<longrightarrow> VRF t wg x = VRF s wg x"
    by (metis less_SucI)
  let ?f = "store_write_vgpr_word c ix data conflicts msk wg (unat row * THREADS c) n t"
  show ?case
  proof (cases "moves c s wg msk ix n")
    case False
    then have "?f = Inr t"
      using assms(1) by (auto simp: store_write_vgpr_word_def moves_def Let_def lane_enabled_cong[OF t(2)])
    with t False show ?thesis by (auto simp: less_Suc_eq)
  next
    case True
    then obtain u where u: "?f = Inr u" "lanes_en u = lanes_en t" "rf_hazard u = rf_hazard t"
      "VRF u = (VRF t)(wg := (VRF t wg)(store_off c row (ix n) := data n))"
      using assms(1) by (auto simp: store_write_vgpr_word_def moves_def Let_def lane_enabled_cong[OF t(2)] store_off_def)
    have "store_off c row (ix i) \<noteq> store_off c row (ix n)" if "i < n" "moves c s wg msk ix i" for i
      using Suc.prems[of i n] that True by auto
    with t u True show ?thesis by (auto simp: less_Suc_eq)
  qed
qed

lemma store_read_loop:
  assumes "\<And>i. \<not> conflicts i"
  shows "\<exists>t. for_res n (store_read_vgpr_word c intf ix conflicts msk wg (unat row * THREADS c)) (s, \<lambda>_. False) =
      Inr (t, \<lambda>i. i < n \<and> moves c s wg msk ix i) \<and>
    lanes_en t = lanes_en s \<and> VRF t = VRF s \<and>
    (\<forall>i<n. moves c s wg msk ix i \<longrightarrow> out_store_data t intf i = VRF s wg (store_off c row (ix i)))"
proof (induction n)
  case 0
  then show ?case by simp
next
  case (Suc n)
  then obtain t where t: "for_res n (store_read_vgpr_word c intf ix conflicts msk wg (unat row * THREADS c)) (s, \<lambda>_. False) =
      Inr (t, \<lambda>i. i < n \<and> moves c s wg msk ix i)"
    "lanes_en t = lanes_en s" "VRF t = VRF s"
    "\<forall>i<n. moves c s wg msk ix i \<longrightarrow> out_store_data t intf i = VRF s wg (store_off c row (ix i))" by blast
  let ?f = "store_read_vgpr_word c intf ix conflicts msk wg (unat row * THREADS c) n"
  let ?M = "\<lambda>n i. i < n \<and> moves c s wg msk ix i"
  show ?case
  proof (cases "moves c s wg msk ix n")
    case False
    have "?M (Suc n) = ?M n" using False by (auto simp: less_Suc_eq fun_eq_iff)
    moreover have "?f (t, m) = Inr (t, m)" for m
      using False assms by (auto simp: store_read_vgpr_word_def moves_def Let_def lane_enabled_cong[OF t(2)])
    ultimately show ?thesis using t False by (auto simp: less_Suc_eq)
  next
    case True
    have "?M (Suc n) = (?M n)(n := True)" using True by (auto simp: less_Suc_eq fun_eq_iff)
    moreover obtain u where "\<And>m. ?f (t, m) = Inr (u, m(n := True))" "lanes_en u = lanes_en t" "VRF u = VRF t"
      "out_store_data u = (out_store_data t)(intf := (out_store_data t intf)(n := VRF t wg (store_off c row (ix n))))"
      using True assms by (auto simp: store_read_vgpr_word_def moves_def Let_def lane_enabled_cong[OF t(2)] store_off_def)
    ultimately show ?thesis using t True by (auto simp: less_Suc_eq)
  qed
qed

text \<open>
  C11. A vector transfer through the storage port loses nothing: writing words into registers and reading the
  same places back returns, for every word of an enabled lane that is not masked out, the word
  written, and the mask shown is exactly that set of words. It aborts only on a bank conflict.
\<close>

theorem store_roundtrip:
  fixes c s msk wg row st
  defines "ix \<equiv> in_store_idx st IF_DRAM"
  assumes "\<And>i. \<not> access_vrf_bank_conflict (THREADS c) (LANES c) (rf_hazard s) (BUS c) ix msk i"
    and "inj_on (\<lambda>i. store_off c row (ix i)) {i. i < BUS c \<and> moves c s wg msk ix i}"
  shows "\<exists>s1 s2. dram_write_vgpr c st wg row msk s = Inr s1 \<and> dram_read_vgpr c st wg row msk s1 = Inr s2 \<and>
    out_store_mask s2 IF_DRAM = (\<lambda>i. i < BUS c \<and> moves c s wg msk ix i) \<and>
    (\<forall>i<BUS c. moves c s wg msk ix i \<longrightarrow> out_store_data s2 IF_DRAM i = in_store_data st IF_DRAM i)"
proof -
  let ?conf = "access_vrf_bank_conflict (THREADS c) (LANES c) (rf_hazard s) (BUS c) ix msk"
  let ?s0 = "clear_vrf_bank_word_hit_map c s"
  have fr: "lanes_en (clear_vrf_bank_word_hit_map c u) = lanes_en u" "rf_hazard (clear_vrf_bank_word_hit_map c u) = rf_hazard u"
    "VRF (clear_vrf_bank_word_hit_map c u) = VRF u" for u
    by (simp_all add: clear_vrf_bank_word_hit_map_def)
  have mv: "moves c u wg msk ix = moves c s wg msk ix" if "lanes_en u = lanes_en s" for u
    using that by (simp add: moves_def lane_enabled_def fun_eq_iff)
  have m0: "moves c ?s0 wg msk ix = moves c s wg msk ix" by (rule mv) (rule fr)
  have inj: "i = j" if "i < BUS c" "j < BUS c" "moves c ?s0 wg msk ix i" "moves c ?s0 wg msk ix j" "store_off c row (ix i) = store_off c row (ix j)" for i j
    using assms(3) that unfolding inj_on_def m0 by blast
  have "\<exists>t. for_res (BUS c) (store_write_vgpr_word c ix (in_store_data st IF_DRAM) ?conf msk wg (unat row * THREADS c)) ?s0 = Inr t \<and>
    lanes_en t = lanes_en ?s0 \<and> rf_hazard t = rf_hazard ?s0 \<and> (\<forall>w. w \<noteq> wg \<longrightarrow> VRF t w = VRF ?s0 w) \<and>
    (\<forall>i<BUS c. moves c ?s0 wg msk ix i \<longrightarrow> VRF t wg (store_off c row (ix i)) = in_store_data st IF_DRAM i) \<and>
    (\<forall>x. (\<forall>i<BUS c. moves c ?s0 wg msk ix i \<longrightarrow> store_off c row (ix i) \<noteq> x) \<longrightarrow> VRF t wg x = VRF ?s0 wg x)"
    by (rule store_write_loop) (rule assms(2), rule inj)
  then obtain t where t: "for_res (BUS c) (store_write_vgpr_word c ix (in_store_data st IF_DRAM) ?conf msk wg (unat row * THREADS c)) ?s0 = Inr t"
    "lanes_en t = lanes_en s" "rf_hazard t = rf_hazard s"
    "\<forall>i<BUS c. moves c s wg msk ix i \<longrightarrow> VRF t wg (store_off c row (ix i)) = in_store_data st IF_DRAM i"
    unfolding m0 fr by blast
  define s1 where "s1 = t\<lparr>dram_vrf_words_w := dram_vrf_words_w t + count_vrf_bank_word_hit_map c t * bank_words t\<rparr>"
  have w: "dram_write_vgpr c st wg row msk s = Inr s1"
    using t(1) by (simp add: dram_write_vgpr_def store_write_vgpr_def Let_def bus_words_def ix_def s1_def)
  have s1: "lanes_en s1 = lanes_en s" "rf_hazard s1 = rf_hazard s" "VRF s1 = VRF t" using t by (simp_all add: s1_def)
  let ?s2 = "clear_vrf_bank_word_hit_map c s1"
  have m1: "moves c ?s2 wg msk ix = moves c s wg msk ix" by (rule mv) (simp add: fr s1)
  have "\<exists>t. for_res (BUS c) (store_read_vgpr_word c IF_DRAM ix ?conf msk wg (unat row * THREADS c)) (?s2, \<lambda>_. False) =
      Inr (t, \<lambda>i. i < BUS c \<and> moves c ?s2 wg msk ix i) \<and> lanes_en t = lanes_en ?s2 \<and> VRF t = VRF ?s2 \<and>
    (\<forall>i<BUS c. moves c ?s2 wg msk ix i \<longrightarrow> out_store_data t IF_DRAM i = VRF ?s2 wg (store_off c row (ix i)))"
    by (rule store_read_loop) (rule assms(2))
  then obtain u where u: "for_res (BUS c) (store_read_vgpr_word c IF_DRAM ix ?conf msk wg (unat row * THREADS c)) (?s2, \<lambda>_. False) =
      Inr (u, \<lambda>i. i < BUS c \<and> moves c s wg msk ix i)"
    "\<forall>i<BUS c. moves c s wg msk ix i \<longrightarrow> out_store_data u IF_DRAM i = VRF t wg (store_off c row (ix i))"
    unfolding m1 fr s1 by blast
  show ?thesis
    using w u(1) u(2) t(4) by (simp add: dram_read_vgpr_def store_read_vgpr_def Let_def bus_words_def ix_def[symmetric] s1)
qed

theorem store_roundtrip_witness:
  "\<exists>s1 s2. dram_write_vgpr cfg_small (st_in IF_DRAM True (AbstractRegister 0 REGISTER_VGPR 3) (\<lambda>i. i < 3) (\<lambda>i. i) (\<lambda>i. of_nat i + 40))
      0 3 (\<lambda>i. i < 3) rf_zero = Inr s1 \<and>
    dram_read_vgpr cfg_small (st_in IF_DRAM True (AbstractRegister 0 REGISTER_VGPR 3) (\<lambda>i. i < 3) (\<lambda>i. i) (\<lambda>i. of_nat i + 40))
      0 3 (\<lambda>i. i < 3) s1 = Inr s2 \<and> out_store_data s2 IF_DRAM 2 = 42"
proof -
  let ?st = "st_in IF_DRAM True (AbstractRegister 0 REGISTER_VGPR 3) (\<lambda>i. i < 3) (\<lambda>i. i) (\<lambda>i. of_nat i + 40)"
  have nc: "\<not> access_vrf_bank_conflict 64 32 (rf_hazard rf_zero) 4 (\<lambda>i. i) (\<lambda>i. i < 3) i" for i
  proof -
    have "j < 3 \<Longrightarrow> j = 0 \<or> j = 1 \<or> j = 2" for j :: nat by linarith
    then show ?thesis
      by (auto simp: access_conflict_iff rf_zero_def RegHazardDetect_3R1W_def map_idx_def map_idx_3R1W_def off_lane_def off_row_def Let_def
          drop_bit_eq_div)
  qed
  have mv: "moves cfg_small rf_zero 0 (\<lambda>i. i < 3) (\<lambda>i. i) 2" by (simp add: moves_def lane_enabled_def rf_zero_def)
  have "inj_on (\<lambda>i. store_off cfg_small 3 i) {i. i < 4 \<and> moves cfg_small rf_zero 0 (\<lambda>i. i < 3) (\<lambda>i. i) i}"
    by (rule inj_onI) (auto simp: store_off_def off_lane_def off_row_def)
  then show ?thesis using store_roundtrip[of cfg_small rf_zero ?st "\<lambda>i. i < 3" 3 0] nc mv by auto
qed

end
