(* ===== verification/Score_Board.thy ===== *)
theory Score_Board
  imports Registers Machine
begin

text \<open>
  \<open>compute/control/Scoreboard.h\<close>: the scoreboard of writes in flight. The record holds the fields of
  the class: the ring of registers with its head and tail, the population masks of the two slots and
  the counters of pending control-stack writes. \<open>sb_push_pop\<close> is a cycle of \<open>thread_push_pop\<close>,
  \<open>sb_check\<close> a cycle of \<open>thread_check\<close>. Specification: a bounded queue of registers, each live or
  disabled.
\<close>

record scoreboard =
  scoreboard_entries :: nat
  request_queue :: "nat \<Rightarrow> reg"
  sb_head :: nat
  sb_tail :: nat
  max_entries :: nat
  entries_pop :: "slot \<Rightarrow> nat \<Rightarrow> bool"
  cstack_writes_pending :: "slot \<Rightarrow> u32"

definition sb_default_reg :: reg where
  "sb_default_reg = Register_wg 0"

definition sb_new :: scoreboard where
  "sb_new = \<lparr>scoreboard_entries = 8, request_queue = (\<lambda>_. sb_default_reg), sb_head = 0, sb_tail = 0,
     max_entries = 0, entries_pop = (\<lambda>_ _. False), cstack_writes_pending = (\<lambda>_. 0)\<rparr>"

definition set_slots :: "nat \<Rightarrow> scoreboard \<Rightarrow> scoreboard res" where
  "set_slots entries s =
    (if entries > 32 then Inl Invalid_Argument
     else Inr (s\<lparr>request_queue := (\<lambda>_. sb_default_reg), scoreboard_entries := entries\<rparr>))"

definition sb_count :: "scoreboard \<Rightarrow> nat" where
  "sb_count s =
    (let h = sb_head s + (if sb_head s < sb_tail s then scoreboard_entries s else 0) in h - sb_tail s)"

subsection \<open>The push/pop thread\<close>

record sb_inputs =
  in_dequeue :: bool
  in_enqueue :: bool
  in_dequeue_cstack_write :: bool
  in_dequeue_cstack_wg :: slot
  in_enqueue_cstack_write :: bool
  in_enqueue_cstack_wg :: slot
  in_req_w :: reg
  in_entries_disable :: bool
  in_entries_disable_wg :: slot

record sb_outputs =
  sb_ex_overflow :: bool
  sb_entries_pop :: "slot \<Rightarrow> nat \<Rightarrow> bool"
  sb_cpop_stall :: "slot \<Rightarrow> bool"

definition sb_disable :: "slot \<Rightarrow> scoreboard \<Rightarrow> scoreboard" where
  "sb_disable wg s = s\<lparr>entries_pop := (entries_pop s)(wg := \<lambda>_. False)\<rparr>"

text \<open>The overflow flag of each operation comes first.\<close>

definition sb_dequeue :: "scoreboard \<Rightarrow> bool \<times> scoreboard" where
  "sb_dequeue s =
    (if sb_head s = sb_tail s then (True, s)
     else (False, s\<lparr>entries_pop := (\<lambda>w. (entries_pop s w)(sb_tail s := False)),
                    sb_tail := (sb_tail s + 1) mod scoreboard_entries s\<rparr>))"

text \<open>\<open>tail - 1\<close> is unsigned: from 0 it wraps to the largest value, which \<open>min\<close> cuts to the last slot.\<close>

definition sb_full :: "scoreboard \<Rightarrow> bool" where
  "sb_full s \<longleftrightarrow>
    sb_head s = min ((sb_tail s + (2 ^ 32 - 1)) mod 2 ^ 32) ((scoreboard_entries s + (2 ^ 32 - 1)) mod 2 ^ 32)"

definition sb_enqueue :: "reg \<Rightarrow> scoreboard \<Rightarrow> bool \<times> scoreboard" where
  "sb_enqueue r s =
    (if sb_full s then (True, s)
     else (False, s\<lparr>request_queue := (request_queue s)(sb_head s := r),
                    entries_pop := (entries_pop s)(rwg r := (entries_pop s (rwg r))(sb_head s := True)),
                    sb_head := (sb_head s + 1) mod scoreboard_entries s\<rparr>))"

definition sb_push_pop :: "sb_inputs \<Rightarrow> scoreboard \<Rightarrow> sb_outputs \<times> scoreboard" where
  "sb_push_pop i s =
    (let s1 = (if in_entries_disable i then sb_disable (in_entries_disable_wg i) s else s);
         (ov1, s2) = (if in_dequeue i then sb_dequeue s1 else (False, s1));
         s3 = (if in_dequeue_cstack_write i
               then s2\<lparr>cstack_writes_pending := (cstack_writes_pending s2)
                         (in_dequeue_cstack_wg i := cstack_writes_pending s2 (in_dequeue_cstack_wg i) - 1)\<rparr>
               else s2);
         (ov2, s4) = (if in_enqueue i then sb_enqueue (in_req_w i) s3 else (False, s3));
         s5 = (if in_enqueue_cstack_write i
               then s4\<lparr>cstack_writes_pending := (cstack_writes_pending s4)
                         (in_enqueue_cstack_wg i := cstack_writes_pending s4 (in_enqueue_cstack_wg i) + 1)\<rparr>
               else s4);
         s6 = s5\<lparr>max_entries := max (max_entries s5) (sb_count s5)\<rparr>
     in (\<lparr>sb_ex_overflow = (ov1 \<or> ov2), sb_entries_pop = entries_pop s6,
          sb_cpop_stall = (\<lambda>w. cstack_writes_pending s6 w > 0)\<rparr>, s6))"

subsection \<open>The checker thread\<close>

text \<open>The indices of the loop \<open>for (e = tail; e != head; e = (e + 1) % entries)\<close>, if it ends.\<close>

partial_function (option) ring_walk :: "nat \<Rightarrow> nat \<Rightarrow> nat \<Rightarrow> nat list option" where
  "ring_walk n h e =
    (if e = h then Some []
     else Option.bind (ring_walk n h ((e + 1) mod n)) (\<lambda>es. Some (e # es)))"

definition debug_contains :: "reg \<Rightarrow> scoreboard \<Rightarrow> bool option" where
  "debug_contains r s =
    Option.bind (ring_walk (scoreboard_entries s) (sb_head s) (sb_tail s))
      (\<lambda>es. Some (\<exists>e\<in>set es. reg_eq r (request_queue s e)))"

definition sb_match :: "scoreboard \<Rightarrow> reg \<Rightarrow> bool \<Rightarrow> (nat \<Rightarrow> bool) \<Rightarrow> nat \<Rightarrow> bool \<Rightarrow> bool" where
  "sb_match s r ssp_match test_pop e stall =
    (if \<not> test_pop e then stall
     else stall \<or> reg_eq r (request_queue s e) \<or> (ssp_match \<and> rtype (request_queue s e) = REGISTER_SSP))"

definition sb_check_req ::
  "scoreboard \<Rightarrow> reg_read_req \<Rightarrow> (nat \<Rightarrow> nat \<Rightarrow> bool) \<Rightarrow> nat \<Rightarrow> bool \<times> (nat \<Rightarrow> bool) \<Rightarrow> (bool \<times> (nat \<Rightarrow> bool)) option" where
  "sb_check_req s req sb_pop i st =
    (if \<not> rq_r req i then Some st
     else let test_pop = (\<lambda>e. entries_pop s (rwg (rq_reg req i)) e \<and> sb_pop i e)
          in Option.bind (ring_walk (scoreboard_entries s) (sb_head s) (sb_tail s))
               (\<lambda>es. Some (False, (snd st)(i := fold (sb_match s (rq_reg req i) (fst st) test_pop) es (snd st i)))))"

definition sb_check :: "scoreboard \<Rightarrow> bool \<Rightarrow> (nat \<Rightarrow> nat \<Rightarrow> bool) \<Rightarrow> reg_read_req \<Rightarrow> (nat \<Rightarrow> bool) option" where
  "sb_check s ssp_match sb_pop req =
    (if sb_head s = sb_tail s then Some (\<lambda>_. False)
     else Option.bind (sb_check_req s req sb_pop 0 (ssp_match, \<lambda>_. False))
       (\<lambda>st. Option.bind (sb_check_req s req sb_pop 1 st)
         (\<lambda>st. Option.bind (sb_check_req s req sb_pop 2 st) (\<lambda>st. Some (snd st)))))"

subsection \<open>Specification: a bounded queue of registers\<close>

text \<open>
  Oldest write first; the flag says whether the entry still takes part in the checks. The position of
  the oldest entry is kept because the population masks name entries by position.
\<close>

record sb_queue =
  q_tail :: nat
  q_list :: "(reg \<times> bool) list"
  q_max :: nat
  q_cstack :: "slot \<Rightarrow> u32"

definition q_pop :: "nat \<Rightarrow> sb_queue \<Rightarrow> slot \<Rightarrow> nat \<Rightarrow> bool" where
  "q_pop N q w e \<longleftrightarrow>
    (\<exists>i<length (q_list q). e = (q_tail q + i) mod N \<and> snd (q_list q ! i) \<and> rwg (fst (q_list q ! i)) = w)"

definition q_disable :: "slot \<Rightarrow> sb_queue \<Rightarrow> sb_queue" where
  "q_disable w q = q\<lparr>q_list := map (\<lambda>(r, live). (r, live \<and> rwg r \<noteq> w)) (q_list q)\<rparr>"

definition q_dequeue :: "nat \<Rightarrow> sb_queue \<Rightarrow> bool \<times> sb_queue" where
  "q_dequeue N q =
    (if q_list q = [] then (True, q)
     else (False, q\<lparr>q_list := tl (q_list q), q_tail := (q_tail q + 1) mod N\<rparr>))"

definition q_enqueue :: "nat \<Rightarrow> reg \<Rightarrow> sb_queue \<Rightarrow> bool \<times> sb_queue" where
  "q_enqueue N r q =
    (if length (q_list q) = N - 1 then (True, q) else (False, q\<lparr>q_list := q_list q @ [(r, True)]\<rparr>))"

definition q_step :: "nat \<Rightarrow> sb_inputs \<Rightarrow> sb_queue \<Rightarrow> sb_outputs \<times> sb_queue" where
  "q_step N i q =
    (let q1 = (if in_entries_disable i then q_disable (in_entries_disable_wg i) q else q);
         (ov1, q2) = (if in_dequeue i then q_dequeue N q1 else (False, q1));
         q3 = (if in_dequeue_cstack_write i
               then q2\<lparr>q_cstack := (q_cstack q2)(in_dequeue_cstack_wg i := q_cstack q2 (in_dequeue_cstack_wg i) - 1)\<rparr>
               else q2);
         (ov2, q4) = (if in_enqueue i then q_enqueue N (in_req_w i) q3 else (False, q3));
         q5 = (if in_enqueue_cstack_write i
               then q4\<lparr>q_cstack := (q_cstack q4)(in_enqueue_cstack_wg i := q_cstack q4 (in_enqueue_cstack_wg i) + 1)\<rparr>
               else q4);
         q6 = q5\<lparr>q_max := max (q_max q5) (length (q_list q5))\<rparr>
     in (\<lparr>sb_ex_overflow = (ov1 \<or> ov2), sb_entries_pop = q_pop N q6,
          sb_cpop_stall = (\<lambda>w. q_cstack q6 w > 0)\<rparr>, q6))"

subsection \<open>The ring implements the queue\<close>

definition sb_len :: "scoreboard \<Rightarrow> nat" where
  "sb_len s = (sb_head s + scoreboard_entries s - sb_tail s) mod scoreboard_entries s"

definition sb_pos :: "scoreboard \<Rightarrow> nat \<Rightarrow> nat" where
  "sb_pos s i = (sb_tail s + i) mod scoreboard_entries s"

definition sb_entry :: "scoreboard \<Rightarrow> nat \<Rightarrow> reg \<times> bool" where
  "sb_entry s e = (request_queue s e, entries_pop s (rwg (request_queue s e)) e)"

definition sb_abs :: "scoreboard \<Rightarrow> sb_queue" where
  "sb_abs s = \<lparr>q_tail = sb_tail s, q_list = map (\<lambda>i. sb_entry s (sb_pos s i)) [0..<sb_len s],
     q_max = max_entries s, q_cstack = cstack_writes_pending s\<rparr>"

definition sb_wf :: "nat \<Rightarrow> scoreboard \<Rightarrow> bool" where
  "sb_wf N s \<longleftrightarrow> scoreboard_entries s = N \<and> 0 < N \<and> N \<le> 32 \<and> sb_head s < N \<and> sb_tail s < N \<and>
     (\<forall>w e. entries_pop s w e \<longrightarrow> (\<exists>i < sb_len s. e = sb_pos s i) \<and> rwg (request_queue s e) = w)"

lemma sb_wf_bounds:
  assumes "sb_wf N s"
  shows "scoreboard_entries s = N" "0 < N" "N \<le> 32" "sb_head s < N" "sb_tail s < N" "sb_len s < N"
    "sb_pos s i < N"
  using assms by (auto simp: sb_wf_def sb_len_def sb_pos_def)

lemma sb_wf_pop: "sb_wf N s \<Longrightarrow> entries_pop s w e \<Longrightarrow> rwg (request_queue s e) = w"
  and sb_wf_live: "sb_wf N s \<Longrightarrow> entries_pop s w e \<Longrightarrow> \<exists>i < sb_len s. e = sb_pos s i"
  by (auto simp: sb_wf_def)

lemma sb_len_eq: "sb_wf N s \<Longrightarrow>
    sb_len s = (if sb_head s < sb_tail s then sb_head s + N - sb_tail s else sb_head s - sb_tail s)"
  by (auto simp: sb_wf_def sb_len_def mod_if)

lemma sb_count_len: "sb_wf N s \<Longrightarrow> sb_count s = sb_len s"
  using sb_len_eq[of N s] by (auto simp: sb_count_def Let_def sb_wf_def)

lemma sb_len_0_iff: "sb_wf N s \<Longrightarrow> sb_len s = 0 \<longleftrightarrow> sb_head s = sb_tail s"
  using sb_len_eq[of N s] sb_wf_bounds[of N s] by auto

lemma sb_head_pos: "sb_wf N s \<Longrightarrow> sb_head s = sb_pos s (sb_len s)"
  using sb_len_eq[of N s] sb_wf_bounds[of N s] by (auto simp: sb_pos_def)

lemma sb_pos_inj: "sb_wf N s \<Longrightarrow> i < N \<Longrightarrow> j < N \<Longrightarrow> sb_pos s i = sb_pos s j \<longleftrightarrow> i = j"
  using ring_pos_inj[of "sb_tail s" N i j] sb_wf_bounds[of N s] by (auto simp: sb_pos_def)

lemma sb_full_iff: "sb_wf N s \<Longrightarrow> sb_full s \<longleftrightarrow> sb_len s = N - 1"
proof -
  assume wf: "sb_wf N s"
  note b = sb_wf_bounds[OF wf]
  have "sb_full s \<longleftrightarrow> sb_head s = (if sb_tail s = 0 then N - 1 else min (sb_tail s - 1) (N - 1))"
    unfolding sb_full_def using b uint_pred[of "sb_tail s"] uint_pred[of N] by (auto simp: min_def)
  then show "sb_full s \<longleftrightarrow> sb_len s = N - 1"
    using sb_len_eq[OF wf] b by (auto split: if_splits)
qed

lemma sb_abs_nth: "i < sb_len s \<Longrightarrow> q_list (sb_abs s) ! i = sb_entry s (sb_pos s i)"
  and sb_abs_simps [simp]: "length (q_list (sb_abs s)) = sb_len s" "q_tail (sb_abs s) = sb_tail s"
    "q_max (sb_abs s) = max_entries s" "q_cstack (sb_abs s) = cstack_writes_pending s"
  by (simp_all add: sb_abs_def)

lemma q_pop_abs:
  assumes wf: "sb_wf N s"
  shows "q_pop N (sb_abs s) = entries_pop s"
proof (intro ext iffI)
  fix w e
  assume p: "entries_pop s w e"
  then obtain i where "i < sb_len s" "e = sb_pos s i" using sb_wf_live[OF wf] by blast
  with p sb_wf_pop[OF wf p] show "q_pop N (sb_abs s) w e"
    using sb_wf_bounds(1)[OF wf] by (auto simp: q_pop_def sb_abs_nth sb_entry_def sb_pos_def)
next
  fix w e
  assume "q_pop N (sb_abs s) w e"
  then show "entries_pop s w e"
    using sb_wf_bounds(1)[OF wf] by (auto simp: q_pop_def sb_abs_nth sb_entry_def sb_pos_def)
qed

lemma sb_disable_refines:
  "sb_wf N s \<Longrightarrow> sb_abs (sb_disable w s) = q_disable w (sb_abs s) \<and> sb_wf N (sb_disable w s)"
  by (auto simp: sb_wf_def sb_abs_def q_disable_def sb_disable_def sb_entry_def sb_len_def sb_pos_def)

lemma sb_dequeue_len:
  assumes "sb_wf N s" "sb_head s \<noteq> sb_tail s"
  shows "sb_len (snd (sb_dequeue s)) = sb_len s - 1" "sb_pos (snd (sb_dequeue s)) i = sb_pos s (Suc i)"
proof -
  show "sb_pos (snd (sb_dequeue s)) i = sb_pos s (Suc i)"
    using assms ring_pos_Suc[of "sb_tail s" N i] by (simp add: sb_dequeue_def sb_pos_def sb_wf_def)
  show "sb_len (snd (sb_dequeue s)) = sb_len s - 1"
    using assms by (auto simp: sb_dequeue_def sb_len_def sb_wf_def mod_if)
qed

lemma sb_dequeue_refines:
  assumes wf: "sb_wf N s"
  shows "q_dequeue N (sb_abs s) = (fst (sb_dequeue s), sb_abs (snd (sb_dequeue s))) \<and> sb_wf N (snd (sb_dequeue s))"
proof (cases "sb_head s = sb_tail s")
  case True
  with wf sb_len_0_iff[OF wf] show ?thesis by (simp add: sb_dequeue_def q_dequeue_def sb_abs_def)
next
  case False
  let ?s = "snd (sb_dequeue s)"
  have pos: "0 < sb_len s" using False sb_len_0_iff[OF wf] by simp
  have t0: "sb_tail s = sb_pos s 0" using wf by (simp add: sb_pos_def sb_wf_def)
  have ne: "sb_pos s (Suc i) \<noteq> sb_tail s" if "i < sb_len s - 1" for i
    using that sb_pos_inj[OF wf, of "Suc i" 0] sb_wf_bounds[OF wf] by (simp add: t0)
  have "map (\<lambda>i. sb_entry ?s (sb_pos ?s i)) [0..<sb_len ?s] = tl (map (\<lambda>i. sb_entry s (sb_pos s i)) [0..<sb_len s])"
    using False ne pos by (intro nth_equalityI)
      (auto simp: sb_dequeue_len[OF wf False] nth_tl sb_entry_def, auto simp: sb_dequeue_def)
  moreover have "sb_wf N ?s"
  proof -
    have "\<exists>i < sb_len ?s. e = sb_pos ?s i" if p: "entries_pop ?s w e" for w e
    proof -
      from p False have "entries_pop s w e" "e \<noteq> sb_pos s 0" by (auto simp: sb_dequeue_def t0 split: if_splits)
      then obtain i where "i < sb_len s" "e = sb_pos s i" "i \<noteq> 0" using sb_wf_live[OF wf] by metis
      then show ?thesis by (intro exI[of _ "i - 1"]) (auto simp: sb_dequeue_len[OF wf False])
    qed
    with wf False show ?thesis by (auto simp: sb_wf_def) (auto simp: sb_dequeue_def split: if_splits)
  qed
  ultimately show ?thesis
    using False pos wf by (simp add: q_dequeue_def sb_abs_def) (simp add: sb_dequeue_def sb_wf_def)
qed

lemma sb_enqueue_len:
  assumes "sb_wf N s" "\<not> sb_full s"
  shows "sb_len (snd (sb_enqueue r s)) = Suc (sb_len s)" "sb_pos (snd (sb_enqueue r s)) i = sb_pos s i"
proof -
  show "sb_pos (snd (sb_enqueue r s)) i = sb_pos s i"
    using assms by (simp add: sb_enqueue_def sb_pos_def)
  have "sb_head s + N - sb_tail s + 1 = Suc (sb_head s) + N - sb_tail s"
    using sb_wf_bounds[OF assms(1)] by simp
  then have "(sb_head s + N - sb_tail s) mod N + 1 = (Suc (sb_head s) mod N + N - sb_tail s) mod N"
    using assms sb_full_iff[OF assms(1)] sb_wf_bounds[OF assms(1)] by (auto simp: sb_len_def mod_if)
  then show "sb_len (snd (sb_enqueue r s)) = Suc (sb_len s)"
    using assms by (simp add: sb_enqueue_def sb_len_def sb_wf_def)
qed

lemma sb_enqueue_refines:
  assumes wf: "sb_wf N s"
  shows "q_enqueue N r (sb_abs s) = (fst (sb_enqueue r s), sb_abs (snd (sb_enqueue r s))) \<and>
    sb_wf N (snd (sb_enqueue r s))"
proof (cases "sb_full s")
  case True
  with wf sb_full_iff[OF wf] show ?thesis by (simp add: sb_enqueue_def q_enqueue_def)
next
  case False
  let ?s = "snd (sb_enqueue r s)"
  have lt: "sb_len s < N - 1" using False sb_full_iff[OF wf] sb_wf_bounds(6)[OF wf] by linarith
  note h = sb_head_pos[OF wf]
  have ne: "sb_pos s i \<noteq> sb_head s" if "i < sb_len s" for i
    using that lt by (simp add: h sb_pos_inj[OF wf])
  have old: "sb_entry ?s (sb_pos ?s i) = sb_entry s (sb_pos s i)" if "i < sb_len s" for i
    using ne[OF that] False by (simp add: sb_enqueue_len[OF wf False] sb_entry_def) (simp add: sb_enqueue_def)
  have new: "sb_entry ?s (sb_pos ?s (sb_len s)) = (r, True)"
    using False by (simp add: sb_enqueue_len[OF wf False] h[symmetric] sb_entry_def) (simp add: sb_enqueue_def)
  have "q_list (sb_abs ?s) = q_list (sb_abs s) @ [(r, True)]"
    using old new by (simp add: sb_abs_def sb_enqueue_len(1)[OF wf False])
  moreover have "sb_wf N ?s"
  proof -
    have "(\<exists>i < sb_len ?s. e = sb_pos ?s i) \<and> rwg (request_queue ?s e) = w" if p: "entries_pop ?s w e" for w e
    proof (cases "e = sb_head s")
      case True
      then have "\<exists>i < sb_len ?s. e = sb_pos ?s i"
        using h by (auto simp: sb_enqueue_len[OF wf False] intro!: exI[of _ "sb_len s"])
      moreover have "\<not> entries_pop s w (sb_head s)" using ne sb_wf_live[OF wf] by metis
      then have "w = rwg r" using p True False by (auto simp: sb_enqueue_def split: if_splits)
      ultimately show ?thesis using True False by (simp add: sb_enqueue_def)
    next
      case e: False
      then have "entries_pop s w e" using p False by (auto simp: sb_enqueue_def split: if_splits)
      then have "\<exists>i < sb_len s. e = sb_pos s i" "rwg (request_queue s e) = w"
        using sb_wf_live[OF wf] sb_wf_pop[OF wf] by blast+
      then show ?thesis
        using e False by (auto simp: sb_enqueue_len[OF wf False] less_Suc_eq) (simp add: sb_enqueue_def)
    qed
    moreover have "scoreboard_entries ?s = N" "sb_head ?s < N" "sb_tail ?s < N"
      using False sb_wf_bounds[OF wf] by (simp_all add: sb_enqueue_def)
    ultimately show ?thesis using sb_wf_bounds[OF wf] unfolding sb_wf_def by blast
  qed
  moreover have "q_enqueue N r (sb_abs s) = (False, (sb_abs s)\<lparr>q_list := q_list (sb_abs s) @ [(r, True)]\<rparr>)"
    using lt by (simp add: q_enqueue_def)
  moreover have "sb_abs ?s = (sb_abs s)\<lparr>q_list := q_list (sb_abs ?s)\<rparr>" "fst (sb_enqueue r s) = False"
    using False by (simp_all add: sb_abs_def sb_enqueue_def)
  ultimately show ?thesis by simp
qed

text \<open>The counters are not part of what the ring lemmas talk about.\<close>

lemma sb_abs_counters [simp]:
  "sb_abs (s\<lparr>cstack_writes_pending := c\<rparr>) = (sb_abs s)\<lparr>q_cstack := c\<rparr>"
  "sb_abs (s\<lparr>max_entries := m\<rparr>) = (sb_abs s)\<lparr>q_max := m\<rparr>"
  "sb_wf N (s\<lparr>cstack_writes_pending := c\<rparr>) = sb_wf N s"
  "sb_wf N (s\<lparr>max_entries := m\<rparr>) = sb_wf N s"
  by (auto simp: sb_abs_def sb_wf_def sb_len_def sb_pos_def sb_entry_def)

lemma sb_step_simulates:
  assumes wf: "sb_wf N s"
  shows "q_step N i (sb_abs s) = (fst (sb_push_pop i s), sb_abs (snd (sb_push_pop i s))) \<and>
    sb_wf N (snd (sb_push_pop i s))"
proof -
  define s1 where "s1 = (if in_entries_disable i then sb_disable (in_entries_disable_wg i) s else s)"
  define d where "d = (if in_dequeue i then sb_dequeue s1 else (False, s1))"
  define s3 where "s3 = (if in_dequeue_cstack_write i
               then (snd d)\<lparr>cstack_writes_pending := (cstack_writes_pending (snd d))
                         (in_dequeue_cstack_wg i := cstack_writes_pending (snd d) (in_dequeue_cstack_wg i) - 1)\<rparr>
               else snd d)"
  define e where "e = (if in_enqueue i then sb_enqueue (in_req_w i) s3 else (False, s3))"
  define s5 where "s5 = (if in_enqueue_cstack_write i
               then (snd e)\<lparr>cstack_writes_pending := (cstack_writes_pending (snd e))
                         (in_enqueue_cstack_wg i := cstack_writes_pending (snd e) (in_enqueue_cstack_wg i) + 1)\<rparr>
               else snd e)"
  have 1: "(if in_entries_disable i then q_disable (in_entries_disable_wg i) (sb_abs s) else sb_abs s) = sb_abs s1"
    and w1: "sb_wf N s1"
    using wf by (simp_all add: s1_def sb_disable_refines)
  have 2: "(if in_dequeue i then q_dequeue N (sb_abs s1) else (False, sb_abs s1)) = (fst d, sb_abs (snd d))"
    and w2: "sb_wf N (snd d)"
    using sb_dequeue_refines[OF w1] w1 by (simp_all add: d_def)
  have w3: "sb_wf N s3" using w2 by (simp add: s3_def)
  have 4: "(if in_enqueue i then q_enqueue N (in_req_w i) (sb_abs s3) else (False, sb_abs s3)) = (fst e, sb_abs (snd e))"
    and w4: "sb_wf N (snd e)"
    using sb_enqueue_refines[OF w3] w3 by (simp_all add: e_def)
  have w5: "sb_wf N s5" using w4 by (simp add: s5_def)
  define s6 where "s6 = s5\<lparr>max_entries := max (max_entries s5) (sb_count s5)\<rparr>"
  have w6: "sb_wf N s6" using w5 by (simp add: s6_def)
  have run: "sb_push_pop i s = (\<lparr>sb_ex_overflow = (fst d \<or> fst e), sb_entries_pop = entries_pop s6,
          sb_cpop_stall = (\<lambda>w. cstack_writes_pending s6 w > 0)\<rparr>, s6)"
    unfolding sb_push_pop_def Let_def case_prod_beta s6_def s5_def e_def s3_def d_def s1_def by (rule refl)
  have 3: "(if in_dequeue_cstack_write i
       then (sb_abs (snd d))\<lparr>q_cstack := (q_cstack (sb_abs (snd d)))
          (in_dequeue_cstack_wg i := q_cstack (sb_abs (snd d)) (in_dequeue_cstack_wg i) - 1)\<rparr>
       else sb_abs (snd d)) = sb_abs s3"
    by (simp add: s3_def)
  have 5: "(if in_enqueue_cstack_write i
       then (sb_abs (snd e))\<lparr>q_cstack := (q_cstack (sb_abs (snd e)))
          (in_enqueue_cstack_wg i := q_cstack (sb_abs (snd e)) (in_enqueue_cstack_wg i) + 1)\<rparr>
       else sb_abs (snd e)) = sb_abs s5"
    by (simp add: s5_def)
  have 6: "(sb_abs s5)\<lparr>q_max := max (q_max (sb_abs s5)) (length (q_list (sb_abs s5)))\<rparr> = sb_abs s6"
    using sb_count_len[OF w5] by (simp add: s6_def)
  show ?thesis
    unfolding q_step_def Let_def 1 2 prod.case 3 4 5 6 run
    using w6 q_pop_abs[OF w6] by simp
qed

lemma sb_simulation: "simulation (\<lambda>i s. Inr (sb_push_pop i s)) (q_step N) sb_abs (sb_wf N) (\<lambda>_ _. True)"
  by unfold_locales (metis sb_step_simulates prod.collapse)

interpretation sb8: simulation "\<lambda>i s. Inr (sb_push_pop i s)" "q_step 8" sb_abs "sb_wf 8" "\<lambda>_ _. True"
  by (rule sb_simulation)

definition q_empty :: sb_queue where
  "q_empty = \<lparr>q_tail = 0, q_list = [], q_max = 0, q_cstack = (\<lambda>_. 0)\<rparr>"

lemma set_slots_wf: "set_slots N sb_new = Inr s \<Longrightarrow> 0 < N \<Longrightarrow> sb_wf N s \<and> sb_abs s = q_empty"
  by (auto simp: set_slots_def sb_new_def sb_wf_def sb_abs_def sb_len_def q_empty_def split: if_splits)

lemma sb_run:
  assumes "set_slots N sb_new = Inr s" "0 < N"
  shows "fst (mealy sb_push_pop is s) = fst (mealy (q_step N) is q_empty)"
    and "sb_abs (snd (mealy sb_push_pop is s)) = snd (mealy (q_step N) is q_empty)"
    and "sb_wf N (snd (mealy sb_push_pop is s))"
  using simulation.run_outputs[OF sb_simulation, of N s "is"] set_slots_wf[OF assms]
  by (auto simp: runE_total)

text \<open>
  C7. For any number of slots up to 32, the scoreboard ring behaves over any sequence of cycles as a
  queue of at most one entry less than there are slots: the oldest entry leaves on a dequeue, the new one
  enters behind, overflow is reported exactly for a push to a full and a pop of an empty queue, the
  population masks shown are those of the live entries of each slot, and the stall outputs say which
  slots have control-stack writes pending.
\<close>

theorem scoreboard_refines:
  assumes "set_slots N sb_new = Inr s" "0 < N"
  shows "fst (mealy sb_push_pop is s) = fst (mealy (q_step N) is q_empty)"
  by (rule sb_run[OF assms])

abbreviation (input) "sb_push_in r \<equiv> \<lparr>in_dequeue = False, in_enqueue = True, in_dequeue_cstack_write = False,
  in_dequeue_cstack_wg = 0, in_enqueue_cstack_write = False, in_enqueue_cstack_wg = 0, in_req_w = r,
  in_entries_disable = False, in_entries_disable_wg = 0\<rparr>"

theorem scoreboard_refines_witness:
  "\<exists>s. set_slots 2 sb_new = Inr s \<and>
    map sb_ex_overflow (fst (mealy sb_push_pop
      [sb_push_in (Register 0 REGISTER_VGPR 3 1), sb_push_in (Register 1 REGISTER_SGPR 5 0)] s)) = [False, True]"
proof -
  obtain s where s: "set_slots 2 sb_new = Inr s" by (simp add: set_slots_def)
  show ?thesis
    using scoreboard_refines[OF s, of "[sb_push_in (Register 0 REGISTER_VGPR 3 1), sb_push_in (Register 1 REGISTER_SGPR 5 0)]"]
    by (intro exI[of _ s]) (simp add: s q_step_def q_enqueue_def q_empty_def Let_def)
qed

subsection \<open>The checker finds exactly the hazards\<close>

lemma ring_walk_pos:
  assumes wf: "sb_wf N s"
  shows "i \<le> sb_len s \<Longrightarrow> ring_walk N (sb_head s) (sb_pos s i) = Some (map (sb_pos s) [i..<sb_len s])"
proof (induction i rule: inc_induct)
  case base
  show ?case by (subst ring_walk.simps) (simp add: sb_head_pos[OF wf])
next
  case (step i)
  have "sb_pos s i \<noteq> sb_head s"
    using step.hyps sb_wf_bounds(6)[OF wf] by (simp add: sb_head_pos[OF wf] sb_pos_inj[OF wf])
  moreover have "(sb_pos s i + 1) mod N = sb_pos s (Suc i)"
    using sb_wf_bounds(1)[OF wf] by (simp add: sb_pos_def mod_simps)
  ultimately show ?case
    using step by (subst ring_walk.simps) (simp add: upt_conv_Cons)
qed

lemma ring_walk_all:
  "sb_wf N s \<Longrightarrow> ring_walk (scoreboard_entries s) (sb_head s) (sb_tail s) = Some (map (sb_pos s) [0..<sb_len s])"
  using ring_walk_pos[of N s 0] sb_wf_bounds[of N s] by (simp add: sb_pos_def)

lemma fold_sb_match:
  "fold (sb_match s r ssp tp) es b \<longleftrightarrow>
    b \<or> (\<exists>e\<in>set es. tp e \<and> (reg_eq r (request_queue s e) \<or> (ssp \<and> rtype (request_queue s e) = REGISTER_SSP)))"
  by (induction es arbitrary: b) (auto simp: sb_match_def)

text \<open>A live entry of the queue that read request \<open>i\<close> must wait for.\<close>

definition q_hazard :: "nat \<Rightarrow> sb_queue \<Rightarrow> bool \<Rightarrow> (nat \<Rightarrow> nat \<Rightarrow> bool) \<Rightarrow> reg_read_req \<Rightarrow> nat \<Rightarrow> bool" where
  "q_hazard N q ssp sb_pop req i \<longleftrightarrow>
    (\<exists>j<length (q_list q). let (r, live) = q_list q ! j in
       live \<and> rwg r = rwg (rq_reg req i) \<and> sb_pop i ((q_tail q + j) mod N) \<and>
       (reg_eq (rq_reg req i) r \<or> (ssp \<and> rtype r = REGISTER_SSP)))"

lemma sb_check_req_eq:
  assumes wf: "sb_wf N s"
  shows "sb_check_req s req sb_pop i (ssp, st) =
    Some (if rq_r req i then (False, st(i := (st i \<or> q_hazard N (sb_abs s) ssp sb_pop req i))) else (ssp, st))"
proof -
  have "(\<exists>e\<in>set (map (sb_pos s) [0..<sb_len s]). (entries_pop s (rwg (rq_reg req i)) e \<and> sb_pop i e) \<and>
      (reg_eq (rq_reg req i) (request_queue s e) \<or> (ssp \<and> rtype (request_queue s e) = REGISTER_SSP)))
    \<longleftrightarrow> q_hazard N (sb_abs s) ssp sb_pop req i"
    using sb_wf_pop[OF wf] sb_wf_bounds(1)[OF wf]
    by (auto simp: q_hazard_def sb_abs_nth sb_entry_def sb_pos_def)
  then show ?thesis
    by (simp add: sb_check_req_def Let_def ring_walk_all[OF wf] fold_sb_match)
qed

lemma sb_check_eq:
  assumes wf: "sb_wf N s"
  shows "sb_check s ssp sb_pop req =
    Some (\<lambda>i. i < 3 \<and> rq_r req i \<and> q_hazard N (sb_abs s) (ssp \<and> (\<forall>k<i. \<not> rq_r req k)) sb_pop req i)"
proof (cases "sb_head s = sb_tail s")
  case True
  then have "q_list (sb_abs s) = []" using sb_len_0_iff[OF wf] by (simp add: sb_abs_def)
  with True show ?thesis by (simp add: sb_check_def q_hazard_def)
next
  case False
  define h where "h = q_hazard N (sb_abs s)"
  have q: "sb_check_req s req sb_pop i p =
      Some (if rq_r req i then (False, (snd p)(i := (snd p i \<or> h (fst p) sb_pop req i))) else p)" for i p
    by (cases p) (simp add: h_def sb_check_req_eq[OF wf])
  obtain f where f: "sb_check s ssp sb_pop req = Some f"
    and f0: "f 0 = (rq_r req 0 \<and> h ssp sb_pop req 0)"
    and f1: "f 1 = (rq_r req 1 \<and> h (ssp \<and> \<not> rq_r req 0) sb_pop req 1)"
    and f2: "f 2 = (rq_r req 2 \<and> h (ssp \<and> \<not> rq_r req 0 \<and> \<not> rq_r req 1) sb_pop req 2)"
    and f3: "\<And>i. 3 \<le> i \<Longrightarrow> \<not> f i"
    using False by (simp add: sb_check_def q numeral_2_eq_2)
  have "f i = (i < 3 \<and> rq_r req i \<and> h (ssp \<and> (\<forall>k<i. \<not> rq_r req k)) sb_pop req i)" for i
  proof -
    consider "i = 0" | "i = 1" | "i = 2" | "3 \<le> i" by linarith
    then show ?thesis
      by cases (auto simp: f0 f1[simplified] f2[simplified] f3 less_2_cases_iff all_conj_distrib imp_disjL)
  qed
  then show ?thesis by (simp add: f h_def fun_eq_iff)
qed

text \<open>
  C8. In every reachable state the hazard check returns (its loop over the ring ends), and flags read
  request \<open>i\<close> exactly when the request is enabled and some live entry of its work-group slot, not
  masked out for that request, is a write of the same register, or, for the first enabled request
  of an instruction that reads the stride descriptor implicitly, a write of any special scalar register.
\<close>

theorem scoreboard_check_exact:
  assumes "set_slots N sb_new = Inr s0" "0 < N"
  shows "sb_check (snd (mealy sb_push_pop is s0)) ssp sb_pop req =
    Some (\<lambda>i. i < 3 \<and> rq_r req i \<and>
      q_hazard N (snd (mealy (q_step N) is q_empty)) (ssp \<and> (\<forall>k<i. \<not> rq_r req k)) sb_pop req i)"
  using sb_check_eq[OF sb_run(3)[OF assms]] by (simp add: sb_run(2)[OF assms])

theorem scoreboard_check_exact_witness:
  "\<exists>s0 f. set_slots 4 sb_new = Inr s0 \<and>
    sb_check (snd (mealy sb_push_pop [sb_push_in (Register 0 REGISTER_VGPR 3 1)] s0)) False (\<lambda>_ _. True)
      \<lparr>rq_reg = (\<lambda>_. Register 0 REGISTER_VGPR 3 1), rq_r = (\<lambda>i. i = 1), rq_imm = (\<lambda>_. 0)\<rparr> = Some f \<and>
    f 1 \<and> \<not> f 0"
proof -
  let ?req = "\<lparr>rq_reg = (\<lambda>_. Register 0 REGISTER_VGPR 3 1), rq_r = (\<lambda>i. i = 1), rq_imm = (\<lambda>_. 0)\<rparr>"
  obtain s where s: "set_slots 4 sb_new = Inr s" by (simp add: set_slots_def)
  show ?thesis
    using scoreboard_check_exact[OF s, of "[sb_push_in (Register 0 REGISTER_VGPR 3 1)]" False "\<lambda>_ _. True" ?req]
    by (intro exI[of _ s]) (simp add: s q_step_def q_enqueue_def q_empty_def q_hazard_def Let_def)
qed

end
