(* ===== verification/Ctrl_Stack.thy ===== *)
theory Ctrl_Stack
  imports Registers Machine
begin

text \<open>
  \<open>compute/model/ctrlstack_entry.h\<close> and \<open>compute/control/CtrlStack.h\<close>: the control stack of the
  SIMD cluster, one stack per work-group slot in a shared array. The state holds the storage, the
  two stack pointers and the output signals, which keep their value until written. One cycle of the
  main thread is \<open>cs_cycle\<close>. Specification: a pair of bounded lists.
\<close>

datatype ctrlstack_action = CTRLSTACK_IDLE | CTRLSTACK_POP | CTRLSTACK_PUSH

record ctrlstack_entry =
  pred_mask :: "nat \<Rightarrow> bool"
  e_pc :: nat
  mask_type :: nat

definition ctrlstack_entry_default :: ctrlstack_entry where
  "ctrlstack_entry_default = \<lparr>pred_mask = (\<lambda>_. False), e_pc = 0, mask_type = 0\<rparr>"

text \<open>The fully specified constructor; \<open>pc\<close> and \<open>mask_type\<close> are truncated to their widths.\<close>

definition ctrlstack_entry :: "nat \<Rightarrow> nat \<Rightarrow> (nat \<Rightarrow> bool) \<Rightarrow> nat \<Rightarrow> nat \<Rightarrow> ctrlstack_entry" where
  "ctrlstack_entry THREADS PC_WIDTH pm p mt =
    \<lparr>pred_mask = (\<lambda>i. i < THREADS \<and> pm i), e_pc = p mod 2 ^ PC_WIDTH, mask_type = mt mod 4\<rparr>"

record cs_outputs =
  out_top :: ctrlstack_entry
  out_sp :: nat
  out_full :: bool
  out_ex_overflow :: bool

record ctrlstack =
  cs_stack :: "slot \<Rightarrow> nat \<Rightarrow> ctrlstack_entry"
  cs_sp :: "slot \<Rightarrow> nat"
  cs_out :: cs_outputs

record cs_inputs =
  in_rst :: bool
  in_wg :: slot
  in_action :: ctrlstack_action
  in_entry :: ctrlstack_entry

definition cs_rst_outputs :: cs_outputs where
  "cs_rst_outputs =
    \<lparr>out_top = ctrlstack_entry_default, out_sp = 0, out_full = False, out_ex_overflow = False\<rparr>"

text \<open>\<open>do_rst\<close> writes the outputs only.\<close>

definition cs_do_rst :: "ctrlstack \<Rightarrow> ctrlstack" where
  "cs_do_rst s = s\<lparr>cs_out := cs_rst_outputs\<rparr>"

definition cs_init :: ctrlstack where
  "cs_init =
    cs_do_rst \<lparr>cs_stack = (\<lambda>_ _. ctrlstack_entry_default), cs_sp = (\<lambda>_. 0), cs_out = cs_rst_outputs\<rparr>"

text \<open>The stack pointer is a \<open>sc_uint<const_log2(ENTRIES) + 1>\<close>.\<close>

definition sp_trunc :: "nat \<Rightarrow> nat \<Rightarrow> nat" where
  "sp_trunc ENTRIES x = x mod 2 ^ (const_log2 ENTRIES + 1)"

definition cs_push :: "nat \<Rightarrow> slot \<Rightarrow> ctrlstack_entry \<Rightarrow> ctrlstack \<Rightarrow> ctrlstack" where
  "cs_push ENTRIES wg e s =
    (if cs_sp s wg = ENTRIES then s\<lparr>cs_out := (cs_out s)\<lparr>out_ex_overflow := True\<rparr>\<rparr>
     else let sp = sp_trunc ENTRIES (cs_sp s wg + 1)
          in s\<lparr>cs_stack := (cs_stack s)(wg := (cs_stack s wg)(cs_sp s wg := e)),
               cs_sp := (cs_sp s)(wg := sp),
               cs_out := (cs_out s)\<lparr>out_ex_overflow := False, out_sp := sp\<rparr>\<rparr>)"

definition cs_pop :: "slot \<Rightarrow> ctrlstack \<Rightarrow> ctrlstack" where
  "cs_pop wg s =
    (if cs_sp s wg = 0 then s\<lparr>cs_out := (cs_out s)\<lparr>out_ex_overflow := True\<rparr>\<rparr>
     else let sp = cs_sp s wg - 1
          in s\<lparr>cs_sp := (cs_sp s)(wg := sp),
               cs_out := (cs_out s)\<lparr>out_ex_overflow := False, out_sp := sp\<rparr>\<rparr>)"

definition cs_drive :: "nat \<Rightarrow> slot \<Rightarrow> ctrlstack \<Rightarrow> ctrlstack" where
  "cs_drive ENTRIES wg s =
    s\<lparr>cs_out := (cs_out s)
        \<lparr>out_full := (cs_sp s wg = ENTRIES),
         out_top := (if cs_sp s wg > 0 then cs_stack s wg (cs_sp s wg - 1) else ctrlstack_entry_default)\<rparr>\<rparr>"

text \<open>One iteration of \<open>thread_lt\<close>.\<close>

definition cs_cycle :: "nat \<Rightarrow> cs_inputs \<Rightarrow> ctrlstack \<Rightarrow> ctrlstack res" where
  "cs_cycle ENTRIES i s =
    (if in_rst i then Inr (cs_do_rst s)
     else assertE (cs_sp s (in_wg i) \<le> ENTRIES)
       (Inr (cs_drive ENTRIES (in_wg i)
         (case in_action i of
            CTRLSTACK_PUSH \<Rightarrow> cs_push ENTRIES (in_wg i) (in_entry i) s
          | CTRLSTACK_POP \<Rightarrow> cs_pop (in_wg i) s
          | CTRLSTACK_IDLE \<Rightarrow> s\<lparr>cs_out := (cs_out s)\<lparr>out_ex_overflow := False\<rparr>\<rparr>))))"

definition cs_step :: "nat \<Rightarrow> cs_inputs \<Rightarrow> ctrlstack \<Rightarrow> (cs_outputs \<times> ctrlstack) res" where
  "cs_step ENTRIES i s = bindE (cs_cycle ENTRIES i s) (\<lambda>s'. Inr (cs_out s', s'))"

subsection \<open>Specification: two bounded stacks\<close>

text \<open>
  The abstract state: the two stacks, top first, and the stack pointer last shown. The pointer shown
  is that of the last successful push or pop.
\<close>

type_synonym stacks = "(slot \<Rightarrow> ctrlstack_entry list) \<times> nat"

definition stack_outputs :: "nat \<Rightarrow> ctrlstack_entry list \<Rightarrow> nat \<Rightarrow> bool \<Rightarrow> cs_outputs" where
  "stack_outputs ENTRIES st sp ov =
    \<lparr>out_top = (case st of [] \<Rightarrow> ctrlstack_entry_default | e # _ \<Rightarrow> e), out_sp = sp,
     out_full = (length st = ENTRIES), out_ex_overflow = ov\<rparr>"

fun stack_spec :: "nat \<Rightarrow> cs_inputs \<Rightarrow> stacks \<Rightarrow> cs_outputs \<times> stacks" where
  "stack_spec ENTRIES i (st, sp) =
    (if in_rst i then (cs_rst_outputs, (st, 0))
     else let xs = st (in_wg i) in
       case in_action i of
         CTRLSTACK_PUSH \<Rightarrow>
           (if length xs = ENTRIES then (stack_outputs ENTRIES xs sp True, (st, sp))
            else let ys = in_entry i # xs
                 in (stack_outputs ENTRIES ys (length ys) False, (st(in_wg i := ys), length ys)))
       | CTRLSTACK_POP \<Rightarrow>
           (if xs = [] then (stack_outputs ENTRIES xs sp True, (st, sp))
            else (stack_outputs ENTRIES (tl xs) (length (tl xs)) False, (st(in_wg i := tl xs), length (tl xs))))
       | CTRLSTACK_IDLE \<Rightarrow> (stack_outputs ENTRIES xs sp False, (st, sp)))"

definition cs_contents :: "ctrlstack \<Rightarrow> slot \<Rightarrow> ctrlstack_entry list" where
  "cs_contents s wg = map (cs_stack s wg) (rev [0..<cs_sp s wg])"

definition cs_abs :: "ctrlstack \<Rightarrow> stacks" where
  "cs_abs s = (cs_contents s, out_sp (cs_out s))"

definition cs_wf :: "nat \<Rightarrow> ctrlstack \<Rightarrow> bool" where
  "cs_wf ENTRIES s \<longleftrightarrow> (\<forall>wg. cs_sp s wg \<le> ENTRIES)"

lemma cs_contents_length [simp]: "length (cs_contents s wg) = cs_sp s wg"
  by (simp add: cs_contents_def)

lemma cs_contents_Suc: "cs_sp s wg = Suc n \<Longrightarrow> cs_contents s wg = cs_stack s wg n # map (cs_stack s wg) (rev [0..<n])"
  by (simp add: cs_contents_def)

lemma cs_contents_Nil: "cs_sp s wg = 0 \<Longrightarrow> cs_contents s wg = []"
  by (simp add: cs_contents_def)

lemma sp_trunc_id: "0 < E \<Longrightarrow> x \<le> E \<Longrightarrow> sp_trunc E x = x"
  using const_log2_bounds[of E] by (simp add: sp_trunc_def)

lemma cs_push_contents:
  assumes "cs_sp s wg < E"
  shows "cs_contents (cs_push E wg e s) = (cs_contents s)(wg := e # cs_contents s wg)"
proof
  fix v
  have "sp_trunc E (cs_sp s wg + 1) = Suc (cs_sp s wg)" using assms by (simp add: sp_trunc_id)
  then show "cs_contents (cs_push E wg e s) v = ((cs_contents s)(wg := e # cs_contents s wg)) v"
    using assms by (simp add: cs_contents_def cs_push_def Let_def)
qed

lemma cs_pop_contents:
  assumes "0 < cs_sp s wg"
  shows "cs_contents (cs_pop wg s) = (cs_contents s)(wg := tl (cs_contents s wg))"
proof
  fix v
  obtain n where "cs_sp s wg = Suc n" using assms by (cases "cs_sp s wg") auto
  then show "cs_contents (cs_pop wg s) v = ((cs_contents s)(wg := tl (cs_contents s wg))) v"
    by (simp add: cs_contents_def cs_pop_def Let_def)
qed

lemma cs_contents_out [simp]: "cs_contents (s\<lparr>cs_out := x\<rparr>) = cs_contents s"
  by (simp add: cs_contents_def fun_eq_iff)

lemma cs_drive_out:
  "cs_out (cs_drive E wg s) =
    stack_outputs E (cs_contents s wg) (out_sp (cs_out s)) (out_ex_overflow (cs_out s))"
  by (cases "cs_sp s wg") (simp_all add: cs_drive_def stack_outputs_def cs_contents_def)

lemma cs_drive_simps [simp]:
  "cs_contents (cs_drive E wg s) = cs_contents s" "cs_sp (cs_drive E wg s) = cs_sp s"
  "out_sp (cs_out (cs_drive E wg s)) = out_sp (cs_out s)"
  by (simp_all add: cs_drive_def)

lemma stack_outputs_sp [simp]: "out_sp (stack_outputs E xs n b) = n"
  by (simp add: stack_outputs_def)

lemmas cs_cycle_defs = cs_step_def cs_cycle_def cs_abs_def cs_wf_def cs_drive_out

lemma cs_step_simulates:
  assumes E: "0 < E" and wf: "cs_wf E s"
  shows "\<exists>y s'. cs_step E i s = Inr (y, s') \<and> stack_spec E i (cs_abs s) = (y, cs_abs s') \<and> cs_wf E s'"
proof (cases "in_rst i")
  case True
  with wf show ?thesis
    by (simp add: cs_cycle_defs cs_do_rst_def cs_rst_outputs_def)
next
  case False
  let ?w = "in_wg i"
  have le: "\<And>v. cs_sp s v \<le> E" using wf by (simp add: cs_wf_def)
  show ?thesis
  proof (cases "in_action i")
    case CTRLSTACK_IDLE
    with False le show ?thesis by (simp add: cs_cycle_defs)
  next
    case CTRLSTACK_POP
    show ?thesis
    proof (cases "cs_sp s ?w = 0")
      case True
      then show ?thesis
        using False le CTRLSTACK_POP by (simp add: cs_cycle_defs cs_pop_def cs_contents_Nil)
    next
      case nz: False
      then have "cs_contents s ?w \<noteq> []" by (metis cs_contents_length list.size(3))
      moreover have "out_sp (cs_out (cs_pop ?w s)) = cs_sp s ?w - 1"
        "\<not> out_ex_overflow (cs_out (cs_pop ?w s))" "\<And>v. cs_sp (cs_pop ?w s) v \<le> E"
        using nz le by (auto simp: cs_pop_def Let_def intro: order_trans[OF diff_le_self])
      ultimately show ?thesis
        using False le CTRLSTACK_POP nz by (simp add: cs_cycle_defs cs_pop_contents Let_def)
    qed
  next
    case CTRLSTACK_PUSH
    show ?thesis
    proof (cases "cs_sp s ?w = E")
      case True
      then show ?thesis
        using False le CTRLSTACK_PUSH by (simp add: cs_cycle_defs cs_push_def)
    next
      case nf: False
      then have lt: "cs_sp s ?w < E" using le[of ?w] by simp
      have "out_sp (cs_out (cs_push E ?w (in_entry i) s)) = Suc (cs_sp s ?w)"
        "\<not> out_ex_overflow (cs_out (cs_push E ?w (in_entry i) s))"
        "\<And>v. cs_sp (cs_push E ?w (in_entry i) s) v \<le> E"
        using lt le E by (auto simp: cs_push_def Let_def sp_trunc_id)
      then show ?thesis
        using False le CTRLSTACK_PUSH nf lt by (simp add: cs_cycle_defs cs_push_contents Let_def)
    qed
  qed
qed

text \<open>The contract holds for the default stack depth, and for any other by the same proof.\<close>

interpretation cs16: simulation "cs_step 16" "stack_spec 16" cs_abs "cs_wf 16" "\<lambda>_ _. True"
  by unfold_locales (rule cs_step_simulates, simp)

lemma cs_simulation: "0 < E \<Longrightarrow> simulation (cs_step E) (stack_spec E) cs_abs (cs_wf E) (\<lambda>_ _. True)"
  by unfold_locales (rule cs_step_simulates)

lemma cs_init_abs: "cs_abs cs_init = (\<lambda>_. [], 0)" "cs_wf E cs_init"
  by (simp_all add: cs_abs_def cs_init_def cs_do_rst_def cs_rst_outputs_def cs_contents_def cs_wf_def fun_eq_iff)

text \<open>
  C9. Run from power-up over any sequence of cycles (pushes, pops, idle and reset cycles of both
  work-group slots), the control stack never fails its assertion, shows in every cycle the outputs
  of two independent bounded stacks (top entry, full flag, overflow exactly on a push to a full or a
  pop of an empty stack) and ends with their contents.
\<close>

theorem ctrl_stack_refines:
  assumes "0 < ENTRIES"
  shows "\<exists>s'. runE (cs_step ENTRIES) is cs_init =
      Inr (fst (mealy (stack_spec ENTRIES) is (\<lambda>_. [], 0)), s') \<and>
    cs_abs s' = snd (mealy (stack_spec ENTRIES) is (\<lambda>_. [], 0))"
  using simulation.run_outputs[OF cs_simulation[OF assms], of cs_init "is"]
  by (auto simp: cs_init_abs)

theorem ctrl_stack_refines_witness:
  "\<exists>s'. runE (cs_step 1)
      [\<lparr>in_rst = False, in_wg = 0, in_action = CTRLSTACK_PUSH, in_entry = ctrlstack_entry 4 11 (\<lambda>i. i < 2) 7 1\<rparr>,
       \<lparr>in_rst = False, in_wg = 1, in_action = CTRLSTACK_POP, in_entry = ctrlstack_entry_default\<rparr>] cs_init =
     Inr ([\<lparr>out_top = ctrlstack_entry 4 11 (\<lambda>i. i < 2) 7 1, out_sp = 1, out_full = True, out_ex_overflow = False\<rparr>,
           \<lparr>out_top = ctrlstack_entry_default, out_sp = 1, out_full = False, out_ex_overflow = True\<rparr>], s')"
  using ctrl_stack_refines[of 1 "[\<lparr>in_rst = False, in_wg = 0, in_action = CTRLSTACK_PUSH, in_entry = ctrlstack_entry 4 11 (\<lambda>i. i < 2) 7 1\<rparr>,
       \<lparr>in_rst = False, in_wg = 1, in_action = CTRLSTACK_POP, in_entry = ctrlstack_entry_default\<rparr>]"]
  by (auto simp: stack_outputs_def)

text \<open>
  Finding: the reset zeroes the pointer that is shown, not the stacks, so entries pushed before a
  reset are on the stack after it.
\<close>

theorem cs_reset_keeps_entries:
  "cs_cycle E (i\<lparr>in_rst := True\<rparr>) s = Inr s' \<Longrightarrow>
    cs_contents s' = cs_contents s \<and> out_sp (cs_out s') = 0 \<and> out_top (cs_out s') = ctrlstack_entry_default"
  by (auto simp: cs_cycle_def cs_do_rst_def cs_rst_outputs_def)

end
