(* ===== verification/Ringbuffer.thy ===== *)
theory Ringbuffer
  imports Machine
begin

text \<open>
  \<open>include/util/Ringbuffer.h\<close>: the ring buffer behind every pipeline of the simulator. The record
  holds its three fields; \<open>rb_dflt\<close> stands for the default-constructed \<open>T\<close> that \<open>new T[e]\<close> fills the
  array with. The interface \<open>delay_line\<close> says what a pipeline relies on: what goes in at the head
  comes out a fixed number of steps later, in order.
\<close>

record 'a ringbuffer =
  rb_entries :: nat
  rb_buf :: "'a list"
  rb_head :: nat

definition resize :: "nat \<Rightarrow> 'a \<Rightarrow> 'a ringbuffer res" where
  "resize e dflt =
    (if e = 0 then Inl Invalid_Argument
     else Inr \<lparr>rb_entries = e, rb_buf = replicate e dflt, rb_head = 0\<rparr>)"

text \<open>\<open>head + entries - 1\<close> is an \<open>unsigned int\<close> expression, hence the reduction modulo \<open>2 ^ 32\<close>.\<close>

definition swapHead :: "'a \<Rightarrow> 'a ringbuffer \<Rightarrow> 'a \<times> 'a ringbuffer" where
  "swapHead elem r =
    (let buf = (rb_buf r)[rb_head r := elem];
         head = ((rb_head r + rb_entries r - 1) mod 2 ^ 32) mod rb_entries r
     in (buf ! head, r\<lparr>rb_buf := buf, rb_head := head\<rparr>))"

definition getStage :: "nat \<Rightarrow> 'a ringbuffer \<Rightarrow> 'a res" where
  "getStage stage r =
    (if stage \<ge> rb_entries r then Inl Invalid_Argument
     else Inr (rb_buf r ! (((rb_head r + stage) mod 2 ^ 32) mod rb_entries r)))"

definition top :: "'a ringbuffer \<Rightarrow> 'a res" where
  "top r = getStage (rb_entries r - 1) r"

text \<open>The shape every operation keeps; sizes stay far below the \<open>unsigned int\<close> range.\<close>

definition rb_wf :: "'a ringbuffer \<Rightarrow> bool" where
  "rb_wf r \<longleftrightarrow> 0 < rb_entries r \<and> 2 * rb_entries r \<le> 2 ^ 32 \<and>
     length (rb_buf r) = rb_entries r \<and> rb_head r < rb_entries r"

subsection \<open>The interface: a delay line\<close>

locale delay_line =
  fixes shift :: "'a \<Rightarrow> 'l \<Rightarrow> 'a \<times> 'l"
    and pending :: "'l \<Rightarrow> 'a list"
    and wf :: "'l \<Rightarrow> bool"
  assumes shift_out: "wf l \<Longrightarrow> fst (shift x l) = hd (pending l @ [x])"
    and shift_pending: "wf l \<Longrightarrow> pending (snd (shift x l)) = tl (pending l @ [x])"
    and shift_wf: "wf l \<Longrightarrow> wf (snd (shift x l))"
begin

text \<open>The queue a delay line implements: an element leaves whenever one enters.\<close>

lemma queue_run:
  "mealy (\<lambda>x p. (hd (p @ [x]), tl (p @ [x]))) xs p =
    (take (length xs) (p @ xs), drop (length xs) (p @ xs))"
proof (induction xs arbitrary: p)
  case Nil
  then show ?case by simp
next
  case (Cons x xs)
  then show ?case by (cases p) (simp_all add: split_def Let_def del: take_append drop_append)
qed

end

sublocale delay_line \<subseteq> sim: simulation "\<lambda>x l. Inr (shift x l)" "\<lambda>x p. (hd (p @ [x]), tl (p @ [x]))"
  pending wf "\<lambda>_ _. True"
  by unfold_locales (auto simp: shift_out shift_pending shift_wf prod_eq_iff)

context delay_line begin

lemma run_output:
  "wf l \<Longrightarrow> fst (mealy shift xs l) = take (length xs) (pending l @ xs) \<and>
    pending (snd (mealy shift xs l)) = drop (length xs) (pending l @ xs) \<and> wf (snd (mealy shift xs l))"
  using sim.run_simulates[of l xs] by (auto simp: runE_total queue_run)

end

subsection \<open>The ring buffer is a delay line of \<open>entries - 1\<close> steps\<close>

definition rb_pending :: "'a ringbuffer \<Rightarrow> 'a list" where
  "rb_pending r =
    map (\<lambda>i. rb_buf r ! ((rb_head r + (rb_entries r - 1 - i)) mod rb_entries r)) [0..<rb_entries r - 1]"

lemma rb_wf_resize: "resize e d = Inr r \<Longrightarrow> 2 * e \<le> 2 ^ 32 \<Longrightarrow> rb_wf r"
  by (auto simp: resize_def rb_wf_def split: if_splits)

lemma swapHead_head:
  "rb_wf r \<Longrightarrow> rb_head (snd (swapHead x r)) = (if rb_head r = 0 then rb_entries r - 1 else rb_head r - 1)"
  by (auto simp: swapHead_def rb_wf_def Let_def mod_if)

lemma swapHead_buf: "rb_buf (snd (swapHead x r)) = (rb_buf r)[rb_head r := x]"
  by (simp add: swapHead_def Let_def)

lemma swapHead_entries [simp]: "rb_entries (snd (swapHead x r)) = rb_entries r"
  by (simp add: swapHead_def Let_def)

lemma swapHead_wf: "rb_wf r \<Longrightarrow> rb_wf (snd (swapHead x r))"
  unfolding rb_wf_def[of "snd _"] swapHead_entries swapHead_buf
  by (simp add: swapHead_head) (auto simp: rb_wf_def)

lemma swapHead_fst:
  "fst (swapHead x r) = rb_buf (snd (swapHead x r)) ! rb_head (snd (swapHead x r))"
  by (simp add: swapHead_def Let_def)

lemma rb_pending_length [simp]: "length (rb_pending r) = rb_entries r - 1"
  by (simp add: rb_pending_def)

lemma rb_pending_nth:
  "i < rb_entries r - 1 \<Longrightarrow>
    rb_pending r ! i = rb_buf r ! ((rb_head r + (rb_entries r - 1 - i)) mod rb_entries r)"
  by (simp add: rb_pending_def)

lemma rb_prev_mod:
  "(h::nat) < n \<Longrightarrow> 0 < j \<Longrightarrow> j < n \<Longrightarrow>
    ((if h = 0 then n - 1 else h - 1) + j) mod n = (h + (j - 1)) mod n"
  by (auto simp: mod_if)

lemma rb_idx_neq: "(h::nat) < n \<Longrightarrow> 0 < j \<Longrightarrow> j < n \<Longrightarrow> (h + j) mod n \<noteq> h"
  by (auto simp: mod_if)

text \<open>After a swap, the pending element \<open>i\<close> is the former \<open>i + 1\<close>, and the last is the new one.\<close>

lemma swapHead_pending_nth:
  assumes w: "rb_wf r" and i: "i < rb_entries r - 1"
  shows "rb_pending (snd (swapHead x r)) ! i = (rb_pending r @ [x]) ! Suc i"
proof -
  let ?n = "rb_entries r" and ?h = "rb_head r"
  let ?j = "?n - 1 - i"
  have j: "0 < ?j" "?j < ?n" and h: "?h < ?n" using w i by (auto simp: rb_wf_def)
  have "rb_pending (snd (swapHead x r)) ! i = (rb_buf r)[?h := x] ! ((?h + (?j - 1)) mod ?n)"
    using i rb_prev_mod[OF h j] by (simp add: rb_pending_nth swapHead_buf swapHead_head w)
  also have "\<dots> = (rb_pending r @ [x]) ! Suc i"
  proof (cases "Suc i < ?n - 1")
    case True
    then have "(?h + (?j - 1)) mod ?n \<noteq> ?h" using rb_idx_neq[OF h, of "?j - 1"] by auto
    moreover have "?j - 1 = ?n - 1 - Suc i" by simp
    ultimately show ?thesis using True by (simp add: nth_append rb_pending_nth)
  next
    case False
    with i have "Suc i = ?n - 1" by simp
    with h w show ?thesis by (simp add: nth_append rb_wf_def)
  qed
  finally show ?thesis .
qed

lemma swapHead_pending:
  assumes w: "rb_wf r"
  shows "rb_pending (snd (swapHead x r)) = tl (rb_pending r @ [x])"
proof (rule nth_equalityI)
  show "length (rb_pending (snd (swapHead x r))) = length (tl (rb_pending r @ [x]))" by simp
  fix i assume "i < length (rb_pending (snd (swapHead x r)))"
  then have i: "i < rb_entries r - 1" by simp
  show "rb_pending (snd (swapHead x r)) ! i = tl (rb_pending r @ [x]) ! i"
    using swapHead_pending_nth[OF w i] i by (subst nth_tl) simp_all
qed

lemma swapHead_output:
  assumes w: "rb_wf r"
  shows "fst (swapHead x r) = hd (rb_pending r @ [x])"
proof (cases "rb_entries r = 1")
  case True
  with w show ?thesis
    by (auto simp: swapHead_fst swapHead_buf swapHead_head rb_wf_def rb_pending_def)
next
  case False
  let ?n = "rb_entries r" and ?h = "rb_head r"
  have n: "1 < ?n" "?h < ?n" using False w by (auto simp: rb_wf_def)
  have "(?h + (?n - 1)) mod ?n = (if ?h = 0 then ?n - 1 else ?h - 1)"
    using n by (auto simp: mod_if)
  moreover have "rb_pending r \<noteq> []" using n rb_pending_length[of r] by fastforce
  ultimately have "hd (rb_pending r @ [x]) = rb_buf r ! (if ?h = 0 then ?n - 1 else ?h - 1)"
    using n rb_pending_nth[of 0 r] by (simp add: hd_append hd_conv_nth)
  with n w show ?thesis
    by (auto simp: swapHead_fst swapHead_buf swapHead_head)
qed

interpretation rb: delay_line swapHead rb_pending rb_wf
  by unfold_locales (simp_all add: swapHead_output swapHead_pending swapHead_wf)

lemma rb_pending_resize: "resize e d = Inr r \<Longrightarrow> rb_pending r = replicate (e - 1) d"
  by (auto simp: resize_def rb_pending_def split: if_splits intro!: nth_equalityI)

text \<open>\<open>top\<close> is the element that leaves the pipeline with the next swap, when there is more than one stage.\<close>

lemma top_pending:
  assumes "rb_wf r" and "1 < rb_entries r"
  shows "top r = Inr (hd (rb_pending r))"
proof -
  have "rb_head r + (rb_entries r - 1) < 2 ^ 32"
    using assms unfolding rb_wf_def by linarith
  then have "(rb_head r + (rb_entries r - 1)) mod 2 ^ 32 = rb_head r + (rb_entries r - 1)"
    by (rule mod_less)
  moreover have "rb_pending r \<noteq> []" using assms rb_pending_length[of r] by fastforce
  then have "hd (rb_pending r) = rb_pending r ! 0" by (rule hd_conv_nth)
  ultimately show ?thesis
    using assms by (simp add: top_def getStage_def rb_pending_nth)
qed

text \<open>
  A pipeline built on the ring buffer is a delay line: fed \<open>xs\<close> from a fresh buffer of \<open>e\<close> stages,
  its outputs are the inputs delayed by \<open>e - 1\<close> swaps, in order, and default elements before that.
\<close>

lemma swapHead_delays:
  assumes "resize e d = Inr r" and "2 * e \<le> 2 ^ 32"
  shows "fst (mealy swapHead xs r) = take (length xs) (replicate (e - 1) d @ xs)"
  using rb.run_output[OF rb_wf_resize[OF assms], of xs] rb_pending_resize[OF assms(1)] by simp

theorem swapHead_delays_witness:
  "\<exists>r. resize 3 (0::nat) = Inr r \<and> fst (mealy swapHead [7, 8, 9, 10] r) = [0, 0, 7, 8]"
proof -
  let ?r = "\<lparr>rb_entries = 3, rb_buf = replicate 3 0, rb_head = 0\<rparr> :: nat ringbuffer"
  have r: "resize 3 0 = Inr ?r" by (simp add: resize_def)
  have "fst (mealy swapHead [7, 8, 9, 10] ?r) = take (length [7::nat, 8, 9, 10]) (replicate (3 - 1) 0 @ [7, 8, 9, 10])"
    by (rule swapHead_delays[OF r]) simp
  then have "fst (mealy swapHead [7, 8, 9, 10] ?r) = [0, 0, 7, 8]" by (simp add: numeral_2_eq_2)
  with r show ?thesis by blast
qed

end
