(* ===== verification/Mc_Model.thy ===== *)
theory Mc_Model
  imports Registers
begin

text \<open>
  The data that passes between the stages of the memory controller: \<open>mc/model/burst_request.h\<close>,
  \<open>mc/model/cmd_DDR.h\<close>, \<open>mc/model/DQ_reservation.h\<close>. Addresses and offsets are integers, truncated where they
  are stored; the vectors over the words of a burst are functions on the word.
\<close>

text \<open>The template parameters that the classes of the memory controller share.\<close>

record dram_cfg =
  BUS_WIDTH :: nat
  DRAM_BANKS :: nat
  DRAM_COLS :: nat
  DRAM_ROWS :: nat

text \<open>The configuration that \<open>sim-d\<close> is built with.\<close>

definition ddr4_cfg :: dram_cfg where
  "ddr4_cfg = \<lparr>BUS_WIDTH = 16, DRAM_BANKS = 8, DRAM_COLS = 1024, DRAM_ROWS = 65536\<rparr>"

datatype PrechargePolicy = PRECHARGE_LINEAR | PRECHARGE_ALAP

record burst_request =
  br_addr :: int
  br_addr_next :: int
  br_wordmask :: "nat \<Rightarrow> bool"
  br_write :: bool
  br_pre_pol :: PrechargePolicy
  br_target :: RequestTarget
  br_sp_offset :: int
  br_reg_offset :: "nat \<Rightarrow> reg_offset"
  br_last :: bool

definition burst_request_default :: burst_request where
  "burst_request_default = \<lparr>br_addr = 0, br_addr_next = 0, br_wordmask = (\<lambda>_. False), br_write = False,
     br_pre_pol = PRECHARGE_LINEAR, br_target = RequestTarget_default, br_sp_offset = 0,
     br_reg_offset = (\<lambda>_. 0), br_last = False\<rparr>"

definition burst_request_sp :: "int \<Rightarrow> (nat \<Rightarrow> bool) \<Rightarrow> bool \<Rightarrow> slot \<Rightarrow> int \<Rightarrow> burst_request" where
  "burst_request_sp a wm w wg sp = burst_request_default
     \<lparr>br_addr := a, br_wordmask := wm, br_write := w, br_target := \<lparr>tgt_wg = wg, tgt_type = TARGET_SP\<rparr>,
      br_sp_offset := sp\<rparr>"

definition burst_request_reg ::
  "int \<Rightarrow> (nat \<Rightarrow> bool) \<Rightarrow> bool \<Rightarrow> slot \<Rightarrow> req_dest_type \<Rightarrow> (nat \<Rightarrow> nat) \<Rightarrow> burst_request" where
  "burst_request_reg a wm w wg tg ri = burst_request_default
     \<lparr>br_addr := a, br_wordmask := wm, br_write := w, br_target := \<lparr>tgt_wg = wg, tgt_type = tg\<rparr>,
      br_sp_offset := (if tg = TARGET_SP then int (ri 0) else 0),
      br_reg_offset := (if tg = TARGET_SP then (\<lambda>_. 0) else (\<lambda>i. reg_offset_idx (ri i)))\<rparr>"

record cmd_DDR =
  cmd_row :: nat
  cmd_col :: nat
  cmd_pre_pre :: bool
  cmd_act :: bool
  cmd_read :: bool
  cmd_write :: bool
  cmd_pre_post :: bool
  cmd_wordmask :: "nat \<Rightarrow> bool"
  cmd_sp_offset :: int
  cmd_target :: RequestTarget
  cmd_reg_offset :: "nat \<Rightarrow> reg_offset"

record DQ_reservation =
  dq_cycle :: int
  dq_wordmask :: "nat \<Rightarrow> bool"
  dq_row :: nat
  dq_col :: nat
  dq_bank :: nat
  dq_target :: RequestTarget
  dq_reg_offset :: "nat \<Rightarrow> reg_offset"
  dq_write :: bool
  dq_sp_offset :: int

end
