(* ===== verification/Stride_Seq.thy ===== *)
theory Stride_Seq
  imports Mc_Model Work_Sched
begin

text \<open>
  \<open>mc/control/StrideSequencer.h\<close>: the front end of the memory controller, which turns a stride
  descriptor into bursts. The record has the iterator registers of the class, the locals of the
  thread and the output signals. Arithmetic is on integers; each assignment truncates to the type
  of its target: \<open>sc_uint 22\<close>, \<open>sc_uint 32\<close>, \<open>sc_int 32\<close>, or the 64 and 32 bits of the unsigned
  expressions of the source. \<open>BW\<close> is the number of words of a burst, a power of two.
\<close>

datatype seq_state =
    CMDGEN_ST_IDLE | CMDGEN_ST_FETCH | CMDGEN_ST_INIT_STATE | CMDGEN_ST_RUNNING_STRIDE
  | CMDGEN_ST_RUNNING_IDXIT | CMDGEN_ST_WAIT_ALLPRE

record seq =
  phase :: "nat \<Rightarrow> int"
  line :: "nat \<Rightarrow> int"
  desc :: stride_descriptor
  global_addr :: int
  local_idx :: int
  end_addr :: int
  skip :: int
  skip_bw :: int
  skip_rest :: int
  line_increment :: int
  sp_line_addr_increment :: int
  cycle_start :: int
  cycle_end :: int
  seq_st :: seq_state
  \<comment> \<open>locals of the thread\<close>
  s_req :: burst_request
  s_idx :: idx
  s_addr :: int
  s_blocked :: bool
  \<comment> \<open>output signals\<close>
  out_done :: bool
  out_dst :: RequestTarget
  out_dst_reg :: areg
  out_idx_push_trigger :: bool
  seq_stopped :: bool

text \<open>The look-up tables of the constructor; entry 0 of the second one is not initialised there.\<close>

definition increment_lut :: "int \<Rightarrow> int \<Rightarrow> int" where
  "increment_lut BW i = (if i = 0 then 0 else BW mod i)"

definition line_increment_lut :: "int \<Rightarrow> int \<Rightarrow> int" where
  "line_increment_lut BW i = (BW - 1) div i"

definition single_overflow_modulo :: "int \<Rightarrow> int \<Rightarrow> int \<Rightarrow> int \<times> bool" where
  "single_overflow_modulo period cur_phase increment =
    (let out = sc_uint 22 (cur_phase + increment)
     in if out \<ge> period then (sc_uint 22 (out - period), True) else (out, False))"

definition word_mask_select :: "seq \<Rightarrow> nat \<Rightarrow> bool" where
  "word_mask_select s lane =
    (let addr = global_addr s OR push_bit 2 (int lane)
     in phase s lane < sd_words (desc s) \<and> end_addr s > addr \<and> sd_addr (desc s) \<le> addr)"

definition address_increment :: "int \<Rightarrow> seq \<Rightarrow> int \<Rightarrow> int" where
  "address_increment BW s ph =
    (if ph < (sd_words (desc s) - 1) mod 2 ^ 64 \<or> sd_period (desc s) < BW then sc_uint 22 BW
     else if ph < skip_rest s then sc_uint 22 (skip_bw s + BW)
     else sc_uint 22 (skip s + BW))"

definition phase_increment :: "int \<Rightarrow> seq \<Rightarrow> int \<Rightarrow> int" where
  "phase_increment BW s addr_inc =
    (if sd_period (desc s) < BW then sc_uint 22 (increment_lut BW (sd_period (desc s)))
     else fst (single_overflow_modulo (sd_period (desc s)) 0 addr_inc))"

definition validate_sd :: "int \<Rightarrow> stride_descriptor \<Rightarrow> bool" where
  "validate_sd BW d \<longleftrightarrow>
    sd_period d \<noteq> 0 \<and>
    (case tgt_type (sd_dst d) of
       TARGET_REG \<Rightarrow> is_pot (of_int (sd_dst_period d))
     | TARGET_SP \<Rightarrow> \<not> (sd_words d \<noteq> sd_dst_period d \<and> sd_period d < sd_words d + BW)
     | _ \<Rightarrow> True)"

text \<open>The loop that initialises phase and line of every word lane, with \<open>it\<close> and \<open>l\<close> as loop variables.\<close>

definition init_lanes :: "nat \<Rightarrow> int \<Rightarrow> int \<Rightarrow> int \<Rightarrow> seq \<Rightarrow> int \<times> int \<times> seq" where
  "init_lanes BW period it0 l0 s =
    for_upto BW (\<lambda>i (it, l, s).
      let s = s\<lparr>phase := (phase s)(i := sc_uint 22 it), line := (line s)(i := sc_int 32 l)\<rparr>;
          it = it + 1
      in if it mod period \<noteq> it then (it mod period, l + 1, s) else (it, l, s)) (it0, l0, s)"

definition init_request_regs :: "nat \<Rightarrow> seq \<Rightarrow> seq res" where
  "init_request_regs W s =
    (let BW = int W; d = desc s in
     if \<not> validate_sd BW d then Inl Invalid_Argument
     else
       let sk = sc_int 32 (sd_period d - (sd_words d + (BW - 1)));
           sr = ((sk AND (BW - 1)) + sd_words d - 1) mod 2 ^ 32;
           sk = sk AND NOT (BW - 1);
           sb = (sk + BW) mod 2 ^ 32;
           ea = sc_uint 32 (sd_addr d + push_bit 2 (sd_words d + sd_period d * (sd_period_count d - 1)));
           ga = sd_addr d AND NOT (push_bit 2 BW - 1);
           addr_diff = sc_int 32 (ga - sd_addr d);
           li = sc_uint 32 (sd_dst_offset d + drop_bit 2 addr_diff);
           l = (drop_bit 2 (- addr_diff) + (sd_period d - 1)) div sd_period d;
           l = sc_int 32 (sd_dst_off_y d - l);
           linc = (if sd_period d < BW then line_increment_lut BW (sd_period d) else 0);
           spinc = (if tgt_type (sd_dst d) = TARGET_SP \<and> sd_dst_period d \<ge> sd_words d
                    then push_bit 2 (sd_dst_period d - sd_words d) mod 2 ^ 32 else 0);
           word = drop_bit 2 (sd_addr d) AND (BW - 1);
           it = ((sd_period d - word) mod 2 ^ 64) mod sd_period d;
           s = s\<lparr>skip := sk, skip_rest := sr, skip_bw := sb, end_addr := ea, global_addr := ga,
                 local_idx := li, line_increment := linc, sp_line_addr_increment := spinc\<rparr>
       in Inr (snd (snd (init_lanes W (sd_period d) it l s))))"

definition regIdx :: "nat \<Rightarrow> seq \<Rightarrow> req_dest_type \<Rightarrow> nat \<Rightarrow> reg_offset" where
  "regIdx THREADS s t i =
    (if t = TARGET_CAM then reg_offset_idx (nat ((local_idx s + int i) mod 2 ^ 32))
     else
       let phase_shift = idx_transform_int (sd_idx_transform (desc s));
           phase_mask = push_bit phase_shift 1 - 1;
           p = (phase s i + sd_dst_off_x (desc s)) mod 2 ^ 32;
           lane = (((line s i * sd_dst_period (desc s)) mod 2 ^ 64) OR drop_bit phase_shift p) mod 2 ^ 32;
           row = p AND phase_mask
       in reg_offset_lane_row THREADS (nat lane) (nat row))"

text \<open>
  \<open>getTargetReg\<close> clones the register of the descriptor through a pointer; without a register that pointer
  is null, which is modelled as an aborted run.
\<close>

definition processTargetReg :: "seq \<Rightarrow> seq res" where
  "processTargetReg s =
    (case sd_dst_reg (desc s) of None \<Rightarrow> Inl Invalid_Argument | Some r \<Rightarrow> Inr (s\<lparr>out_dst_reg := r\<rparr>))"

subsection \<open>The main thread\<close>

text \<open>
  What a cycle reads: whether the trigger FIFO has an entry, the head of the descriptor and of the index
  FIFO, whether the request FIFO is empty, and the signals. What it does to the FIFOs is the output.
\<close>

record seq_inputs =
  in_trigger :: bool
  in_ref_pending :: bool
  in_desc :: "stride_descriptor option"
  in_req_fifo_empty :: bool
  in_DQ_allpre :: bool
  in_idx :: "idx option"
  in_cycle :: int
  in_sched_opts :: sched_opts
  in_ticket_pop :: int

record seq_effects =
  eff_trigger_read :: bool
  eff_desc_read :: bool
  eff_idx_read :: bool
  eff_reqs :: "burst_request list"

definition no_effects :: seq_effects where
  "no_effects = \<lparr>eff_trigger_read = False, eff_desc_read = False, eff_idx_read = False, eff_reqs = []\<rparr>"

text \<open>The case \<open>CMDGEN_ST_RUNNING_STRIDE\<close>: the mask and the targets of the words, then the update of a word lane.\<close>

definition stride_words :: "nat \<Rightarrow> nat \<Rightarrow> seq \<Rightarrow> nat \<times> burst_request \<Rightarrow> nat \<times> burst_request" where
  "stride_words W THREADS s =
    for_upto W (\<lambda>i (words, req).
      let m = word_mask_select s i;
          req = req\<lparr>br_wordmask := (br_wordmask req)(i := m)\<rparr>
      in if m then (words + 1, req\<lparr>br_reg_offset := (br_reg_offset req)(i := regIdx THREADS s (tgt_type (sd_dst (desc s))) i)\<rparr>)
         else (words, req))"

definition advance_lane :: "int \<Rightarrow> nat \<Rightarrow> bool \<times> seq \<Rightarrow> bool \<times> seq" where
  "advance_lane ph_inc i st =
    (let s = snd st;
         s = s\<lparr>line := (line s)(i := sc_int 32 (line s i + line_increment s))\<rparr>;
         (ph, overflew) = single_overflow_modulo (sd_period (desc s)) (phase s i) ph_inc;
         s = s\<lparr>phase := (phase s)(i := ph)\<rparr>
     in (overflew, if overflew \<or> ph_inc = 0 then s\<lparr>line := (line s)(i := sc_int 32 (line s i + 1))\<rparr> else s))"

definition stride_cycle :: "nat \<Rightarrow> nat \<Rightarrow> seq \<Rightarrow> burst_request \<times> seq" where
  "stride_cycle W THREADS s =
    (let (words, req) = stride_words W THREADS s (0, s_req s);
         addr_inc = address_increment (int W) s (phase s (W - 1));
         ph_inc = phase_increment (int W) s addr_inc;
         ga = global_addr s;
         (overflew, s) = for_upto W (advance_lane ph_inc) (False, s);
         d = desc s;
         req = req\<lparr>br_addr := ga, br_write := sd_write d, br_target := sd_dst d\<rparr>;
         (req, d) =
           (if tgt_type (sd_dst d) = TARGET_SP then
              let off = sc_uint 32 (sd_dst_offset d + int (4 * words));
                  off = (if (overflew \<or> ph_inc = 0) \<and> line s (W - 1) > 0
                         then sc_uint 32 (off + sp_line_addr_increment s) else off)
              in (req\<lparr>br_sp_offset := sd_dst_offset d\<rparr>, d\<lparr>sd_dst_offset := off\<rparr>)
            else (req, d));
         s = s\<lparr>desc := d, global_addr := sc_uint 32 (ga + 4 * addr_inc), local_idx := sc_uint 32 (local_idx s + addr_inc)\<rparr>;
         (req, s) =
           (if global_addr s \<ge> end_addr s
            then (req\<lparr>br_addr_next := 0xffffffff, br_last := True\<rparr>, s\<lparr>seq_st := CMDGEN_ST_WAIT_ALLPRE\<rparr>)
            else (req\<lparr>br_addr_next := global_addr s, br_last := False\<rparr>, s))
     in (req, s\<lparr>s_req := req\<rparr>))"

text \<open>The case \<open>CMDGEN_ST_RUNNING_IDXIT\<close>. An index that has not arrived yet leaves the request uncommitted.\<close>

definition idx_addr :: "seq \<Rightarrow> idx \<Rightarrow> int" where
  "idx_addr s x = sc_uint 32 (sd_addr (desc s) + push_bit 2 (int (dram_off x)))"

definition idxit_cycle :: "nat \<Rightarrow> nat \<Rightarrow> idx option \<Rightarrow> seq \<Rightarrow> burst_request list \<times> seq" where
  "idxit_cycle W THREADS nxt s =
    (let BW = int W;
         word = drop_bit 2 (s_addr s AND (push_bit 2 BW - 1));
         aligned = (\<lambda>a. a AND NOT (push_bit 2 BW - 1));
         req = (s_req s)
           \<lparr>br_wordmask := (\<lambda>i. if i < W then int i = word else br_wordmask (s_req s) i),
            br_reg_offset := (\<lambda>i. if i < W then (if int i = word then reg_offset_lane_row THREADS (cam_idx (s_idx s)) 0
                                                   else reg_offset_idx 0)
                                  else br_reg_offset (s_req s) i),
            br_addr := aligned (s_addr s), br_write := sd_write (desc s), br_target := sd_dst (desc s)\<rparr>;
         s = s\<lparr>out_idx_push_trigger := False\<rparr>
     in case nxt of
          None \<Rightarrow> ([], s\<lparr>s_req := req\<rparr>)
        | Some x \<Rightarrow>
            if dummy_last x then
              let req = req\<lparr>br_addr_next := 0xffffffff, br_last := True\<rparr>
              in ([req], s\<lparr>s_req := req, s_idx := x, seq_st := CMDGEN_ST_WAIT_ALLPRE\<rparr>)
            else
              let a = idx_addr s x; req = req\<lparr>br_addr_next := aligned a, br_last := False\<rparr>
              in ([req], s\<lparr>s_req := req, s_idx := x, s_addr := a\<rparr>))"

text \<open>
  The case \<open>CMDGEN_ST_INIT_STATE\<close>. The read of the first index blocks the thread until there is one, in the state
  already set to \<open>CMDGEN_ST_RUNNING_IDXIT\<close>: \<open>s_blocked\<close>.
\<close>

definition first_idx :: "idx option \<Rightarrow> seq \<Rightarrow> bool \<times> seq" where
  "first_idx nxt s =
    (case nxt of None \<Rightarrow> (False, s\<lparr>s_blocked := True\<rparr>)
     | Some x \<Rightarrow> (True, s\<lparr>s_blocked := False, s_idx := x, s_addr := idx_addr s x\<rparr>))"

definition seq_init :: "nat \<Rightarrow> seq_inputs \<Rightarrow> seq \<Rightarrow> (bool \<times> seq) res" where
  "seq_init W i s =
    (if in_sched_opts i WSS_NO_PARALLEL_DRAM_SP \<and> in_ticket_pop i \<noteq> sd_ticket (desc s) then Inr (False, s)
     else
       let s = s\<lparr>out_dst := sd_dst (desc s), cycle_start := in_cycle i, s_req := (s_req s)\<lparr>br_sp_offset := 0\<rparr>\<rparr> in
       if sd_type (desc s) = STRIDE then
         let s = s\<lparr>seq_st := CMDGEN_ST_RUNNING_STRIDE, s_req := (s_req s)\<lparr>br_pre_pol := PRECHARGE_LINEAR\<rparr>\<rparr>
         in bindE (if tgt_type (sd_dst (desc s)) \<noteq> TARGET_SP then processTargetReg s else Inr s)
              (\<lambda>s. bindE (init_request_regs W s) (\<lambda>s. Inr (False, s)))
       else
         let s = s\<lparr>seq_st := CMDGEN_ST_RUNNING_IDXIT, s_req := (s_req s)\<lparr>br_pre_pol := PRECHARGE_ALAP\<rparr>\<rparr>
         in if tgt_type (sd_dst (desc s)) \<noteq> TARGET_REG then Inl Invalid_Argument
            else bindE (processTargetReg s)
              (\<lambda>s. Inr (first_idx (in_idx i) (s\<lparr>out_idx_push_trigger := True\<rparr>))))"

definition seq_fetch :: "nat \<Rightarrow> seq_inputs \<Rightarrow> seq \<Rightarrow> (seq_effects \<times> seq) res" where
  "seq_fetch W i s =
    (let e = no_effects\<lparr>eff_trigger_read := in_trigger i\<rparr> in
     case in_desc i of
       None \<Rightarrow>
         Inr (e, if in_req_fifo_empty i
                 then s\<lparr>seq_st := CMDGEN_ST_IDLE, out_done := True,
                        seq_stopped := seq_stopped s \<or> in_sched_opts i WSS_STOP_DRAM_FINI\<rparr>
                 else s)
     | Some d \<Rightarrow>
         bindE (seq_init W i (s\<lparr>desc := d, seq_st := CMDGEN_ST_INIT_STATE\<rparr>))
           (\<lambda>(b, s). Inr (e\<lparr>eff_desc_read := True, eff_idx_read := b\<rparr>, s)))"

text \<open>One iteration of \<open>thread_lt\<close>.\<close>

definition seq_thread_lt :: "nat \<Rightarrow> nat \<Rightarrow> seq_inputs \<Rightarrow> seq \<Rightarrow> (seq_effects \<times> seq) res" where
  "seq_thread_lt W THREADS i s =
    (if s_blocked s then
       let (b, s) = first_idx (in_idx i) s in Inr (no_effects\<lparr>eff_idx_read := b\<rparr>, s)
     else
       let s = s\<lparr>out_done := False\<rparr> in
       case seq_st s of
         CMDGEN_ST_IDLE \<Rightarrow>
           if \<not> in_trigger i \<or> in_ref_pending i then Inr (no_effects, s)
           else seq_fetch W i (s\<lparr>seq_st := CMDGEN_ST_FETCH\<rparr>)
       | CMDGEN_ST_FETCH \<Rightarrow> seq_fetch W i s
       | CMDGEN_ST_INIT_STATE \<Rightarrow>
           bindE (seq_init W i s) (\<lambda>(b, s). Inr (no_effects\<lparr>eff_idx_read := b\<rparr>, s))
       | CMDGEN_ST_RUNNING_STRIDE \<Rightarrow>
           let (req, s) = stride_cycle W THREADS s in Inr (no_effects\<lparr>eff_reqs := [req]\<rparr>, s)
       | CMDGEN_ST_RUNNING_IDXIT \<Rightarrow>
           let (reqs, s) = idxit_cycle W THREADS (in_idx i) s
           in Inr (no_effects\<lparr>eff_idx_read := (in_idx i \<noteq> None), eff_reqs := reqs\<rparr>, s)
       | CMDGEN_ST_WAIT_ALLPRE \<Rightarrow>
           Inr (no_effects,
             if in_DQ_allpre i
             then s\<lparr>seq_st := CMDGEN_ST_FETCH, cycle_end := in_cycle i, out_dst := RequestTarget_default,
                    out_dst_reg := AbstractRegister_default\<rparr>
             else s))"

end
