(* ===== verification/Stride_Cycle.thy ===== *)
theory Stride_Cycle
  imports Stride_Seq
begin

text \<open>
  One cycle of the stride sequencer inside a stride, in closed form, and the run to the end of the stride:
  the lines it skips hold no word of the stride, and the phases and line numbers of the word lanes stay those of
  the words they stand for. Addresses are counted in words of four bytes.
\<close>

subsection \<open>Arithmetic of the skipped lines\<close>

lemma and_mask_int: "(a::int) AND (2 ^ n - 1) = a mod 2 ^ n"
  using take_bit_eq_mask[of n a] by (simp add: take_bit_eq_mod mask_eq_exp_minus_1)

lemma and_not_mask_int: "(a::int) AND NOT (2 ^ n - 1) = 2 ^ n * (a div 2 ^ n)"
proof -
  have "a AND NOT (mask n) = push_bit n (drop_bit n a)"
    by (rule bit_eqI) (auto simp: bit_simps)
  then show ?thesis by (simp add: mask_eq_exp_minus_1 push_bit_eq_mult drop_bit_eq_div mult.commute)
qed

lemma or_disjoint_add_int: "0 \<le> b \<Longrightarrow> b < 2 ^ n \<Longrightarrow> 2 ^ n * (a::int) OR b = 2 ^ n * a + b"
proof -
  assume b: "0 \<le> b" "b < 2 ^ n"
  then have tb: "take_bit n b = b" by (simp add: take_bit_eq_mod)
  have "push_bit n a AND take_bit n b = 0"
    by (rule bit_eqI) (auto simp: bit_simps)
  then have "push_bit n a OR b = push_bit n a + b" by (simp add: tb disjunctive_add_eq_or)
  then show ?thesis by (simp add: push_bit_eq_mult mult.commute)
qed

lemma div_less_iff_less_mult_int: "0 < (m::int) \<Longrightarrow> a div m < q \<longleftrightarrow> a < m * q"
proof -
  assume m: "0 < m"
  have "(a + (- q) * m) div m = a div m - q" using m div_mult_self1[of m a "- q"] by linarith
  then show ?thesis using pos_imp_zdiv_neg_iff[OF m, of "a + (- q) * m"] by (simp add: mult.commute)
qed

lemma mod_shift:
  fixes c y P :: int
  assumes "0 < P" "0 \<le> y" "c mod P + y < P"
  shows "(c + y) mod P = c mod P + y"
proof -
  have "(c + y) mod P = (c mod P + y) mod P" by (simp add: mod_simps)
  with assms show ?thesis by (simp add: mod_pos_pos_trivial)
qed

text \<open>
  \<open>ph\<close> is the phase of the last word of a line. The increment is the one that leads to the next line with
  a word of the stride: \<open>(P - 1 - ph) div W\<close> lines of zeroes follow.
\<close>

definition line_inc :: "int \<Rightarrow> int \<Rightarrow> int \<Rightarrow> int \<Rightarrow> int" where
  "line_inc W P words ph = (if ph < words - 1 \<or> P < W then W else W + W * ((P - 1 - ph) div W))"

lemma line_inc_bounds:
  assumes "0 < W" "0 \<le> ph" "ph < P"
  shows "W \<le> line_inc W P words ph" "line_inc W P words ph < W + P" "W dvd line_inc W P words ph"
    "W \<le> P \<Longrightarrow> line_inc W P words ph < 2 * P"
proof -
  have "W * ((P - 1 - ph) div W) \<le> P - 1 - ph"
    using assms by (metis mult_div_mod_eq pos_mod_sign add_le_same_cancel1 le_add_same_cancel1)
  moreover have "0 \<le> W * ((P - 1 - ph) div W)"
    using assms by (simp add: pos_imp_zdiv_nonneg_iff)
  ultimately show "W \<le> line_inc W P words ph" "line_inc W P words ph < W + P"
      "W \<le> P \<Longrightarrow> line_inc W P words ph < 2 * P"
    using assms by (auto simp: line_inc_def)
  show "W dvd line_inc W P words ph" by (simp add: line_inc_def)
qed

lemma skipped_zero:
  fixes c :: int
  assumes "0 < W" "0 < P" "c + 1 \<le> x" "x < c + 1 + (line_inc W P words (c mod P) - W)"
  shows "words \<le> x mod P"
proof -
  let ?ph = "c mod P"
  have c2: "\<not> (?ph < words - 1 \<or> P < W)"
    using assms(3,4) by (auto simp: line_inc_def split: if_splits)
  have "W * ((P - 1 - ?ph) div W) \<le> P - 1 - ?ph"
    using assms(1) by (metis mult_div_mod_eq pos_mod_sign le_add_same_cancel1)
  then have "?ph + (x - c) < P" using assms(4) c2 by (simp add: line_inc_def)
  then have "(c + (x - c)) mod P = ?ph + (x - c)"
    using assms by (intro mod_shift) auto
  then show ?thesis using c2 assms(3) by simp
qed

lemma next_line_hit:
  fixes c :: int
  assumes "0 < W" "0 < P" "1 \<le> words" "words \<le> P"
  shows "\<exists>i. 0 \<le> i \<and> i < W \<and> (c + 1 + (line_inc W P words (c mod P) - W) + i) mod P < words"
proof (cases "P < W")
  case True
  let ?i = "(- (c + 1)) mod P"
  have "(c + 1 + ?i) mod P = 0" by (simp add: mod_simps)
  then have "(c + 1 + (line_inc W P words (c mod P) - W) + ?i) mod P < words"
    using assms True by (simp add: line_inc_def)
  moreover have "0 \<le> ?i" "?i < W"
    using assms True pos_mod_sign[of P "- (c + 1)"] pos_mod_bound[of P "- (c + 1)"] by linarith+
  ultimately show ?thesis by blast
next
  case False
  show ?thesis
  proof (cases "c mod P < words - 1")
    case True
    then have "(c + 1) mod P = c mod P + 1" using assms by (intro mod_shift) auto
    with True False assms show ?thesis by (intro exI[of _ 0]) (simp add: line_inc_def)
  next
    case c: False
    let ?z = "P - 1 - c mod P"
    have "(c + 1 + (line_inc W P words (c mod P) - W) + ?z mod W) mod P = (c + 1 + ?z) mod P"
      using False c by (simp add: line_inc_def add.assoc)
    also have "\<dots> = (c - c mod P + P) mod P" by (simp add: algebra_simps)
    also have "\<dots> = 0" by (simp add: minus_mod_eq_mult_div)
    finally show ?thesis using assms by (intro exI[of _ "?z mod W"]) simp
  qed
qed

text \<open>The comparison with \<open>skip_rest\<close> decides which of the two numbers of zero lines it is.\<close>

lemma skip_lines:
  fixes W P words ph :: int
  assumes "0 < W" "words - 1 \<le> ph" "ph \<le> words - 1 + (W - 1)"
  defines "sk \<equiv> P - (words + (W - 1))"
  shows "W * ((P - 1 - ph) div W) =
    W * (sk div W) + (if ph < sk mod W + words - 1 then W else 0)"
proof -
  have z: "P - 1 - ph = W * (sk div W) + (sk mod W + (W - 1) - (ph - (words - 1)))"
    by (simp add: sk_def)
  have "(P - 1 - ph) div W = sk div W + (sk mod W + (W - 1) - (ph - (words - 1))) div W"
    unfolding z using assms(1) by simp
  also have "(sk mod W + (W - 1) - (ph - (words - 1))) div W = (if ph < sk mod W + words - 1 then 1 else 0)"
  proof (cases "ph < sk mod W + words - 1")
    case True
    have "(sk mod W + (W - 1) - (ph - (words - 1))) div W = 1"
      using pos_mod_bound[OF assms(1), of sk] True assms(2,3)
      by (intro int_div_pos_eq[where r = "sk mod W - 1 - (ph - (words - 1))"]) linarith+
    with True show ?thesis by simp
  next
    case False
    have "(sk mod W + (W - 1) - (ph - (words - 1))) div W = 0"
      using pos_mod_sign[OF assms(1), of sk] False assms(2,3) by (intro div_pos_pos_trivial) linarith+
    with False show ?thesis by simp
  qed
  finally show ?thesis by (simp add: distrib_left)
qed

subsection \<open>A cycle in closed form\<close>

definition lane_overflows :: "seq \<Rightarrow> int \<Rightarrow> nat \<Rightarrow> bool" where
  "lane_overflows s inc i \<longleftrightarrow> snd (single_overflow_modulo (sd_period (desc s)) (phase s i) inc)"

lemma sc_int_add: "sc_int n (sc_int n x + y) = sc_int n (x + y)"
proof -
  have "(x + 2 ^ (n - 1)) mod 2 ^ n - 2 ^ (n - 1) + y + 2 ^ (n - 1) = (x + 2 ^ (n - 1)) mod 2 ^ n + y"
    by simp
  moreover have "((x + 2 ^ (n - 1)) mod 2 ^ n + y) mod 2 ^ n = (x + y + 2 ^ (n - 1)) mod (2::int) ^ n"
    by (simp add: mod_simps ac_simps)
  ultimately show ?thesis by (simp add: sc_int_def)
qed

lemma advance_lane_eq:
  "advance_lane inc i (ov, s) =
    (lane_overflows s inc i,
     s\<lparr>phase := (phase s)(i := fst (single_overflow_modulo (sd_period (desc s)) (phase s i) inc)),
       line := (line s)(i := sc_int 32 (line s i + line_increment s + (if lane_overflows s inc i \<or> inc = 0 then 1 else 0)))\<rparr>)"
proof (cases "single_overflow_modulo (sd_period (desc s)) (phase s i) inc")
  case (Pair ph o')
  then show ?thesis
    by (simp add: advance_lane_def Let_def lane_overflows_def sc_int_add add.assoc)
qed

lemma advance_lanes:
  "for_upto n (advance_lane inc) (ov, s) =
    (if n = 0 then ov else lane_overflows s inc (n - 1),
     s\<lparr>phase := (\<lambda>i. if i < n then fst (single_overflow_modulo (sd_period (desc s)) (phase s i) inc) else phase s i),
       line := (\<lambda>i. if i < n then sc_int 32 (line s i + line_increment s + (if lane_overflows s inc i \<or> inc = 0 then 1 else 0))
                    else line s i)\<rparr>)"
proof (induction n)
  case 0
  then show ?case by simp
next
  case (Suc n)
  show ?case
    unfolding for_upto_Suc Suc.IH advance_lane_eq
    by (auto simp: lane_overflows_def less_Suc_eq fun_eq_iff intro!: seq.equality)
qed

lemma stride_words_eq:
  "stride_words W T s (k, req) =
    (k + length (filter (word_mask_select s) [0..<W]),
     req\<lparr>br_wordmask := (\<lambda>i. if i < W then word_mask_select s i else br_wordmask req i),
         br_reg_offset := (\<lambda>i. if i < W \<and> word_mask_select s i
                               then regIdx T s (tgt_type (sd_dst (desc s))) i else br_reg_offset req i)\<rparr>)"
  unfolding stride_words_def
proof (induction W)
  case 0
  then show ?case by simp
next
  case (Suc W)
  show ?case
    unfolding for_upto_Suc Suc.IH
    by (auto simp: Let_def less_Suc_eq fun_eq_iff intro!: burst_request.equality)
qed

text \<open>The words a burst transfers: address and target.\<close>

definition burst_words :: "nat \<Rightarrow> burst_request \<Rightarrow> (int \<times> reg_offset) list" where
  "burst_words W r = map (\<lambda>i. (br_addr r + 4 * int i, br_reg_offset r i)) (filter (br_wordmask r) [0..<W])"

subsection \<open>The stride of a descriptor\<close>

text \<open>
  In words: the first one, the end of the last period, and which words belong to the stride. A valid descriptor
  is word-aligned and stays inside the address space, one period and one burst included; its period holds
  its words; and the start is not further into its burst than a period, unless the period is a power of two.
\<close>

definition sd_first :: "stride_descriptor \<Rightarrow> int" where
  "sd_first d = sd_addr d div 4"

definition sd_end :: "stride_descriptor \<Rightarrow> int" where
  "sd_end d = sd_first d + sd_words d + sd_period d * (sd_period_count d - 1)"

definition in_stride :: "stride_descriptor \<Rightarrow> int \<Rightarrow> bool" where
  "in_stride d x \<longleftrightarrow> sd_first d \<le> x \<and> x < sd_end d \<and> (x - sd_first d) mod sd_period d < sd_words d"

definition stride_ok :: "nat \<Rightarrow> stride_descriptor \<Rightarrow> bool" where
  "stride_ok W d \<longleftrightarrow>
    0 \<le> sd_addr d \<and> 4 dvd sd_addr d \<and> 1 \<le> sd_words d \<and> sd_words d \<le> sd_period d \<and> sd_period d < 2 ^ 20 \<and>
    1 \<le> sd_period_count d \<and> sd_addr d + 4 * (sd_period d * (sd_period_count d + 1) + int W) < 2 ^ 32 \<and>
    (sd_period d dvd 2 ^ 64 \<or> sd_first d mod int W \<le> sd_period d)"

text \<open>
  Where word \<open>x\<close> goes. The period a word belongs to is tracked right unless an address increment exceeds the
  period: \<open>lines_ok\<close>.
\<close>

definition word_target :: "nat \<Rightarrow> stride_descriptor \<Rightarrow> int \<Rightarrow> reg_offset" where
  "word_target T d x =
    (if tgt_type (sd_dst d) = TARGET_CAM then reg_offset_idx (nat ((sd_dst_offset d + (x - sd_first d)) mod 2 ^ 32))
     else
       let sh = idx_transform_int (sd_idx_transform d);
           p = ((x - sd_first d) mod sd_period d + sd_dst_off_x d) mod 2 ^ 32;
           ln = sc_int 32 (sd_dst_off_y d + (x - sd_first d) div sd_period d)
       in reg_offset_lane_row T (nat ((((ln * sd_dst_period d) mod 2 ^ 64) OR drop_bit sh p) mod 2 ^ 32))
            (nat (p AND (push_bit sh 1 - 1))))"

definition lines_ok :: "nat \<Rightarrow> stride_descriptor \<Rightarrow> bool" where
  "lines_ok W d \<longleftrightarrow> tgt_type (sd_dst d) = TARGET_CAM \<or> sd_period d < int W \<or> sd_period d mod int W < sd_words d"

text \<open>The registers of the sequencer at the line that starts at word \<open>g\<close>.\<close>

definition seq_regs :: "nat \<Rightarrow> stride_descriptor \<Rightarrow> seq \<Rightarrow> bool" where
  "seq_regs W d s \<longleftrightarrow>
    (let BW = int W; sk = sd_period d - (sd_words d + (BW - 1)) in
     skip s = BW * (sk div BW) \<and> skip_bw s = BW * (sk div BW) + BW \<and> skip_rest s = sk mod BW + sd_words d - 1 \<and>
     end_addr s = 4 * sd_end d \<and>
     line_increment s = (if sd_period d < BW then (BW - 1) div sd_period d else 0))"

definition lines_at :: "nat \<Rightarrow> stride_descriptor \<Rightarrow> int \<Rightarrow> seq \<Rightarrow> bool" where
  "lines_at W d g s \<longleftrightarrow>
    (\<forall>i<W. line s i = sc_int 32 (sd_dst_off_y d + (g + int i - sd_first d) div sd_period d))"

definition seq_at :: "nat \<Rightarrow> stride_descriptor \<Rightarrow> int \<Rightarrow> seq \<Rightarrow> bool" where
  "seq_at W d g s \<longleftrightarrow>
    seq_st s = CMDGEN_ST_RUNNING_STRIDE \<and> \<not> s_blocked s \<and> seq_regs W d s \<and>
    (\<exists>off. desc s = d\<lparr>sd_dst_offset := off\<rparr>) \<and>
    global_addr s = 4 * g \<and> int W dvd g \<and> 0 \<le> g \<and> local_idx s = sc_uint 32 (sd_dst_offset d + (g - sd_first d)) \<and>
    (\<forall>i<W. phase s i = (g + int i - sd_first d) mod sd_period d) \<and>
    (\<exists>i<W. phase s i < sd_words d) \<and>
    (lines_ok W d \<and> tgt_type (sd_dst d) \<noteq> TARGET_CAM \<longrightarrow> lines_at W d g s)"

lemma single_overflow_eq:
  assumes "0 \<le> ph" "ph < P" "0 \<le> m" "m < P" "P < 2 ^ 20"
  shows "single_overflow_modulo P ph m = ((ph + m) mod P, P \<le> ph + m)"
proof -
  have "sc_uint 22 (ph + m) = ph + m" using assms by (intro sc_uint_id) auto
  moreover have "P \<le> ph + m \<Longrightarrow> sc_uint 22 (ph + m - P) = ph + m - P" using assms by (intro sc_uint_id) auto
  ultimately show ?thesis
    using mod_add_once(1)[OF assms(1-4)] by (simp add: single_overflow_modulo_def)
qed

lemma upto_map_upt: "[g..g + int n - 1] = map (\<lambda>i. g + int i) [0..<n]"
  by (induction n) (simp_all add: upto_rec2)

lemma filter_upto_eqI:
  fixes a b :: int
  assumes "\<And>x. P x \<Longrightarrow> a \<le> x \<and> x \<le> b \<longleftrightarrow> (a' \<le> x \<and> x \<le> b') \<or> (c \<le> x \<and> x \<le> e)" and "b' < c"
  shows "filter P [a..b] = filter P [a'..b'] @ filter P [c..e]"
proof (rule sorted_distinct_set_unique)
  show "sorted (filter P [a'..b'] @ filter P [c..e])"
    using assms(2) by (auto simp: sorted_append intro!: sorted_wrt_filter)
  show "set (filter P [a..b]) = set (filter P [a'..b'] @ filter P [c..e])" using assms(1) by auto
qed (use assms(2) in \<open>auto intro: sorted_wrt_filter\<close>)


lemma W_pos:
  assumes W: "W = 2 ^ b" "b \<le> 16" and ok: "stride_ok W d"
  shows "0 < int W" "0 < W" "int W \<le> 2 ^ 16"
proof -
  have "(2::int) ^ b \<le> 2 ^ 16" using W(2) by (intro power_increasing) auto
  then show "0 < int W" "0 < W" "int W \<le> 2 ^ 16" by (simp_all add: W(1))
qed

lemma P_pos:
  assumes W: "W = 2 ^ b" "b \<le> 16" and ok: "stride_ok W d"
  shows "0 < sd_period d" "1 \<le> sd_words d" "sd_words d \<le> sd_period d" "sd_period d < 2 ^ 20"
  using ok by (auto simp: stride_ok_def)

lemma addr_of_lane:
  assumes W: "W = 2 ^ b" "b \<le> 16" and ok: "stride_ok W d"
    and "int W dvd g" "i < W"
  shows "4 * g OR push_bit 2 (int i) = 4 * (g + int i)"
proof -
  obtain q where q: "g = int W * q" using assms(4) by (elim dvdE)
  have "4 * g = 2 ^ (b + 2) * q" by (simp add: q W(1) power_add)
  moreover have "push_bit 2 (int i) = 4 * int i" by (simp add: push_bit_eq_mult)
  moreover have "4 * int i < 2 ^ (b + 2)" using assms(5) by (simp add: W(1) power_add)
  ultimately show ?thesis
    using or_disjoint_add_int[of "4 * int i" "b + 2" q] by (metis distrib_left of_nat_0_le_iff zero_le_mult_iff zero_le_numeral)
qed

lemma mask_at:
  assumes W: "W = 2 ^ b" "b \<le> 16" and ok: "stride_ok W d"
    and "seq_at W d g s" "i < W"
  shows "word_mask_select s i \<longleftrightarrow> in_stride d (g + int i)"
proof -
  have "sd_addr d = 4 * sd_first d" using ok by (auto simp: stride_ok_def sd_first_def)
  with assms addr_of_lane[OF W ok, of g i] show ?thesis
    by (auto simp: word_mask_select_def in_stride_def seq_at_def seq_regs_def Let_def)
qed

lemma phases_at:
  assumes W: "W = 2 ^ b" "b \<le> 16" and ok: "stride_ok W d"
    and "seq_at W d g s" "i < W"
  shows "phase s i = (g + int i - sd_first d) mod sd_period d" "0 \<le> phase s i" "phase s i < sd_period d"
  using assms P_pos[OF W ok] by (auto simp: seq_at_def)

lemma last_phase:
  assumes W: "W = 2 ^ b" "b \<le> 16" and ok: "stride_ok W d"
    and "seq_at W d g s"
  shows "phase s (W - 1) = (g + int W - 1 - sd_first d) mod sd_period d" "0 \<le> phase s (W - 1)"
    "phase s (W - 1) < sd_period d" "phase s (W - 1) \<le> sd_words d - 1 + (int W - 1)"
proof -
  have lt: "W - 1 < W" using W_pos[OF W ok] by simp
  have "int (W - 1) = int W - 1" using W_pos[OF W ok] by simp
  then show ph: "phase s (W - 1) = (g + int W - 1 - sd_first d) mod sd_period d"
    using phases_at(1)[OF assms lt] by (simp add: algebra_simps)
  show "0 \<le> phase s (W - 1)" "phase s (W - 1) < sd_period d" using phases_at[OF assms lt] by simp_all
  obtain i where i: "i < W" "phase s i < sd_words d" using assms unfolding seq_at_def by blast
  have "g + int W - 1 - sd_first d = (g + int i - sd_first d) + (int W - 1 - int i)" by simp
  then have "phase s (W - 1) = (phase s i + (int W - 1 - int i)) mod sd_period d"
    using ph phases_at(1)[OF assms i(1)] by (metis mod_add_left_eq)
  also have "\<dots> \<le> phase s i + (int W - 1 - int i)"
    using phases_at(2)[OF assms i(1)] i(1) P_pos[OF W ok] by (intro zmod_le_nonneg_dividend) simp
  finally show "phase s (W - 1) \<le> sd_words d - 1 + (int W - 1)" using i by simp
qed

lemma sd_at [simp]:
  assumes "seq_at W d g s"
  shows "sd_words (desc s) = sd_words d" "sd_period (desc s) = sd_period d" "sd_dst (desc s) = sd_dst d"
    "sd_write (desc s) = sd_write d"
  using assms by (auto simp: seq_at_def)

lemma address_increment_at:
  assumes W: "W = 2 ^ b" "b \<le> 16" and ok: "stride_ok W d"
    and "seq_at W d g s"
  shows "address_increment (int W) s (phase s (W - 1)) =
    line_inc (int W) (sd_period d) (sd_words d) (phase s (W - 1))"
proof -
  let ?ph = "phase s (W - 1)" and ?P = "sd_period d" and ?w = "sd_words d"
  let ?sk = "?P - (?w + (int W - 1))"
  note lp = last_phase[OF assms] and pp = P_pos[OF W ok]
  have small: "(?w - 1) mod 2 ^ 64 = ?w - 1" using pp by simp
  have lt: "line_inc (int W) ?P ?w ?ph < 2 ^ 22"
    using line_inc_bounds(2)[OF W_pos(1)[OF W ok] lp(2,3), of ?w] pp W_pos(3)[OF W ok] by simp
  have ge: "0 \<le> line_inc (int W) ?P ?w ?ph"
    using line_inc_bounds(1)[OF W_pos(1)[OF W ok] lp(2,3), of ?w] W_pos(1)[OF W ok] by simp
  have regs: "skip s = int W * (?sk div int W)" "skip_bw s = int W * (?sk div int W) + int W"
    "skip_rest s = ?sk mod int W + ?w - 1"
    using assms by (simp_all add: seq_at_def seq_regs_def Let_def)
  show ?thesis
  proof (cases "?ph < ?w - 1 \<or> ?P < int W")
    case True
    have "sc_uint 22 (int W) = int W" using W_pos[OF W ok] by (intro sc_uint_id) simp_all
    with True assms small show ?thesis by (auto simp: address_increment_def line_inc_def)
  next
    case False
    then have inc: "line_inc (int W) ?P ?w ?ph =
        int W + (int W * (?sk div int W) + (if ?ph < ?sk mod int W + ?w - 1 then int W else 0))"
      using skip_lines[of "int W" ?w ?ph ?P] W_pos(1)[OF W ok] lp(4) by (simp add: line_inc_def)
    have "address_increment (int W) s ?ph = sc_uint 22 (line_inc (int W) ?P ?w ?ph)"
      using False small assms inc by (simp add: address_increment_def regs ac_simps)
    with lt ge show ?thesis by simp
  qed
qed

lemma phase_increment_at:
  assumes W: "W = 2 ^ b" "b \<le> 16" and ok: "stride_ok W d"
    and "seq_at W d g s"
  defines "inc \<equiv> line_inc (int W) (sd_period d) (sd_words d) (phase s (W - 1))"
  shows "phase_increment (int W) s inc = inc mod sd_period d"
proof (cases "sd_period d < int W")
  case True
  have "int W mod sd_period d < 2 ^ 22" using pos_mod_bound[OF P_pos(1)[OF W ok], of "int W"] P_pos(4)[OF W ok] by simp
  with True assms(4) P_pos[OF W ok] show ?thesis
    by (simp add: phase_increment_def increment_lut_def inc_def line_inc_def)
next
  case False
  note lp = last_phase[OF W ok assms(4)]
  have "inc < 2 * sd_period d" "0 \<le> inc"
    using line_inc_bounds[OF W_pos(1)[OF W ok] lp(2,3), of "sd_words d"] False W_pos(1)[OF W ok] by (auto simp: inc_def)
  moreover have "inc mod sd_period d = (if sd_period d \<le> inc then inc - sd_period d else inc)"
    using \<open>inc < 2 * sd_period d\<close> \<open>0 \<le> inc\<close> minus_mod_self2[of inc "sd_period d"] by (auto simp del: minus_mod_self2)
  ultimately show ?thesis
    using False assms(4) P_pos[OF W ok] by (simp add: phase_increment_def single_overflow_modulo_def)
qed

lemma lane_step:
  assumes W: "W = 2 ^ b" "b \<le> 16" and ok: "stride_ok W d"
    and "seq_at W d g s" "i < W" "0 \<le> m" "m < sd_period d"
  shows "fst (single_overflow_modulo (sd_period (desc s)) (phase s i) m) = (phase s i + m) mod sd_period d"
    "lane_overflows s m i \<longleftrightarrow> sd_period d \<le> phase s i + m"
  using single_overflow_eq[of "phase s i" "sd_period d" m] assms phases_at(2,3)[OF W ok assms(4,5)] P_pos[OF W ok]
  by (simp_all add: lane_overflows_def)

lemma end_bound:
  assumes W: "W = 2 ^ b" "b \<le> 16" and ok: "stride_ok W d"
    and "g < sd_end d" "0 \<le> g" "inc < int W + sd_period d" "0 \<le> inc"
  shows "sc_uint 32 (4 * g + 4 * inc) = 4 * (g + inc)"
proof -
  have "sd_addr d = 4 * sd_first d" and
    "sd_addr d + 4 * (sd_period d * sd_period_count d) + 4 * sd_period d + 4 * int W < 2 ^ 32"
    using ok by (auto simp: stride_ok_def sd_first_def algebra_simps)
  moreover have "sd_end d \<le> sd_first d + sd_period d * sd_period_count d"
    using P_pos[OF W ok] by (simp add: sd_end_def algebra_simps)
  ultimately have "4 * g + 4 * inc < 2 ^ 32" using assms by linarith
  then show ?thesis using assms by simp
qed

text \<open>How the line of a lane advances.\<close>

lemma line_step:
  fixes c inc :: int
  assumes W: "W = 2 ^ b" "b \<le> 16" and ok: "stride_ok W d"
    and "inc = int W \<or> (int W \<le> sd_period d \<and> inc \<le> sd_period d)" "0 < inc"
    and "sd_period d < int W \<Longrightarrow> inc = int W"
  shows "(c + inc) div sd_period d = c div sd_period d + (if sd_period d < int W then (int W - 1) div sd_period d else 0) +
    (if sd_period d \<le> c mod sd_period d + inc mod sd_period d \<or> inc mod sd_period d = 0 then 1 else 0)"
proof -
  let ?P = "sd_period d"
  note P = P_pos(1)[OF W ok]
  have cm: "0 \<le> c mod ?P" "c mod ?P < ?P" and im: "0 \<le> inc mod ?P" "inc mod ?P < ?P" using P by simp_all
  have "c + inc = (c mod ?P + inc mod ?P) + (c div ?P + inc div ?P) * ?P" by (simp add: algebra_simps)
  then have "(c + inc) div ?P = c div ?P + inc div ?P + (c mod ?P + inc mod ?P) div ?P"
    using P by (simp only: div_mult_self3) simp
  also have "(c mod ?P + inc mod ?P) div ?P = (if ?P \<le> c mod ?P + inc mod ?P then 1 else 0)"
    using mod_add_once(2)[OF cm im] by auto
  finally have eq: "(c + inc) div ?P = c div ?P + inc div ?P + (if ?P \<le> c mod ?P + inc mod ?P then 1 else 0)" .
  have d: "inc div ?P = (if ?P < int W then (int W - 1) div ?P else 0) + (if inc mod ?P = 0 then 1 else 0)"
  proof (cases "?P < int W")
    case True
    then have inc: "inc = int W" by (rule assms(6))
    have "int W div ?P = (int W - 1) div ?P + (if int W mod ?P = 0 then 1 else 0)"
    proof (cases "int W mod ?P = 0")
      case True
      then have "int W - 1 = (?P - 1) + (int W div ?P - 1) * ?P" by (auto simp: algebra_simps)
      then have "(int W - 1) div ?P = (int W div ?P - 1) + (?P - 1) div ?P" using P by (simp only: div_mult_self3) simp
      then show ?thesis using True P by simp
    next
      case False
      have "int W - 1 = (int W mod ?P - 1) + int W div ?P * ?P" by (simp add: algebra_simps)
      then have "(int W - 1) div ?P = int W div ?P + (int W mod ?P - 1) div ?P" using P by (simp only: div_mult_self3) simp
      moreover have "(int W mod ?P - 1) div ?P = 0"
        using False pos_mod_sign[OF P, of "int W"] pos_mod_bound[OF P, of "int W"] by (intro div_pos_pos_trivial) linarith+
      ultimately show ?thesis using False by simp
    qed
    with True inc show ?thesis by simp
  next
    case False
    then have "inc \<le> ?P" using assms(4) by auto
    then show ?thesis using False assms(5) P by (cases "inc = ?P") simp_all
  qed
  have "inc mod ?P = 0 \<Longrightarrow> \<not> ?P \<le> c mod ?P + inc mod ?P" using cm by simp
  then show ?thesis unfolding eq d by auto
qed

text \<open>No increment exceeds the period when the lines are tracked.\<close>

lemma inc_le_period:
  assumes W: "W = 2 ^ b" "b \<le> 16" and ok: "stride_ok W d"
    and "sd_period d mod int W < sd_words d" "int W \<le> sd_period d" "0 \<le> ph" "ph < sd_period d"
  shows "line_inc (int W) (sd_period d) (sd_words d) ph \<le> sd_period d"
proof (cases "ph < sd_words d - 1")
  case True
  with assms show ?thesis by (simp add: line_inc_def)
next
  case False
  let ?P = "sd_period d"
  have "?P - 1 - ph < int W * (?P div int W)"
    using assms(4) False mult_div_mod_eq[of "int W" ?P] by linarith
  then have "(?P - 1 - ph) div int W < ?P div int W"
    using W_pos(1)[OF W ok] by (simp add: div_less_iff_less_mult_int)
  then have "int W * ((?P - 1 - ph) div int W) \<le> int W * (?P div int W - 1)"
    using W_pos(1)[OF W ok] by (intro mult_left_mono) simp_all
  then have "int W + int W * ((?P - 1 - ph) div int W) \<le> int W * (?P div int W)"
    by (simp add: algebra_simps)
  moreover have "int W * (?P div int W) \<le> ?P"
    using W_pos(1)[OF W ok] by (metis mult_div_mod_eq pos_mod_sign le_add_same_cancel1)
  ultimately show ?thesis using False assms(5) by (simp add: line_inc_def)
qed

text \<open>The increment of a cycle, and what the cycle does.\<close>

definition inc_at :: "nat \<Rightarrow> stride_descriptor \<Rightarrow> seq \<Rightarrow> int" where
  "inc_at W d s = line_inc (int W) (sd_period d) (sd_words d) (phase s (W - 1))"

lemma inc_at_bounds:
  assumes W: "W = 2 ^ b" "b \<le> 16" and ok: "stride_ok W d"
    and "seq_at W d g s"
  shows "int W \<le> inc_at W d s" "inc_at W d s < int W + sd_period d" "int W dvd inc_at W d s" "0 < inc_at W d s"
    "sd_period d < int W \<Longrightarrow> inc_at W d s = int W"
  using line_inc_bounds[OF W_pos(1)[OF W ok] last_phase(2,3)[OF assms], of "sd_words d"] W_pos(1)[OF W ok]
  by (auto simp: inc_at_def) (simp add: line_inc_def)

lemma stride_cycle_request:
  assumes W: "W = 2 ^ b" "b \<le> 16" and ok: "stride_ok W d"
    and at: "seq_at W d g s" and g: "g < sd_end d"
  shows "burst_words W (fst (stride_cycle W T s)) =
      map (\<lambda>x. (4 * x, regIdx T s (tgt_type (sd_dst d)) (nat (x - g)))) (filter (in_stride d) [g..g + int W - 1])"
    "br_write (fst (stride_cycle W T s)) = sd_write d" "br_target (fst (stride_cycle W T s)) = sd_dst d"
    "br_last (fst (stride_cycle W T s)) \<longleftrightarrow> sd_end d \<le> g + inc_at W d s"
proof -
  have ga: "global_addr s = 4 * g" "0 \<le> g" "end_addr s = 4 * sd_end d"
    using at by (simp_all add: seq_at_def seq_regs_def Let_def)
  note inc = address_increment_at[OF W ok at, folded inc_at_def] and ph = phase_increment_at[OF W ok at, folded inc_at_def]
  have nx: "sc_uint 32 (4 * g + 4 * inc_at W d s) = 4 * (g + inc_at W d s)"
    using inc_at_bounds[OF W ok at] end_bound[OF W ok g ga(2)] by simp
  have msk: "filter (word_mask_select s) [0..<W] = filter (\<lambda>i. in_stride d (g + int i)) [0..<W]"
    using mask_at[OF W ok at] by (intro filter_cong) auto
  have req: "br_addr (fst (stride_cycle W T s)) = 4 * g"
    "br_wordmask (fst (stride_cycle W T s)) = (\<lambda>i. if i < W then word_mask_select s i else br_wordmask (s_req s) i)"
    "br_reg_offset (fst (stride_cycle W T s)) = (\<lambda>i. if i < W \<and> word_mask_select s i
       then regIdx T s (tgt_type (sd_dst d)) i else br_reg_offset (s_req s) i)"
    "br_write (fst (stride_cycle W T s)) = sd_write d" "br_target (fst (stride_cycle W T s)) = sd_dst d"
    "br_last (fst (stride_cycle W T s)) \<longleftrightarrow> sd_end d \<le> g + inc_at W d s"
    unfolding stride_cycle_def stride_words_eq advance_lanes inc ph using at nx
    by (simp_all add: Let_def split_def ga cong: if_cong)
  show "br_write (fst (stride_cycle W T s)) = sd_write d" "br_target (fst (stride_cycle W T s)) = sd_dst d"
    "br_last (fst (stride_cycle W T s)) \<longleftrightarrow> sd_end d \<le> g + inc_at W d s" by (rule req)+
  have "filter (br_wordmask (fst (stride_cycle W T s))) [0..<W] = filter (word_mask_select s) [0..<W]"
    unfolding req by (intro filter_cong) auto
  then show "burst_words W (fst (stride_cycle W T s)) =
      map (\<lambda>x. (4 * x, regIdx T s (tgt_type (sd_dst d)) (nat (x - g)))) (filter (in_stride d) [g..g + int W - 1])"
    unfolding burst_words_def upto_map_upt using msk
    by (auto simp: req filter_map comp_def mask_at[OF W ok at])
qed

lemma stride_cycle_state:
  fixes T :: nat
  assumes W: "W = 2 ^ b" "b \<le> 16" and ok: "stride_ok W d"
    and at: "seq_at W d g s" and g: "g < sd_end d"
  defines "s' \<equiv> snd (stride_cycle W T s)" and "m \<equiv> inc_at W d s mod sd_period d"
  shows "seq_st s' = (if sd_end d \<le> g + inc_at W d s then CMDGEN_ST_WAIT_ALLPRE else CMDGEN_ST_RUNNING_STRIDE)"
    "\<not> s_blocked s'" "seq_regs W d s'" "\<exists>off. desc s' = d\<lparr>sd_dst_offset := off\<rparr>"
    "global_addr s' = 4 * (g + inc_at W d s)" "local_idx s' = sc_uint 32 (local_idx s + inc_at W d s)"
    "i < W \<Longrightarrow> phase s' i = (phase s i + m) mod sd_period d"
    "i < W \<Longrightarrow> line s' i = sc_int 32 (line s i + line_increment s +
        (if sd_period d \<le> phase s i + m \<or> m = 0 then 1 else 0))"
proof -
  have ga: "global_addr s = 4 * g" "0 \<le> g" "end_addr s = 4 * sd_end d" "seq_st s = CMDGEN_ST_RUNNING_STRIDE" "\<not> s_blocked s"
    using at by (simp_all add: seq_at_def seq_regs_def Let_def)
  have r: "seq_regs W d s" using at by (simp add: seq_at_def)
  obtain off where off: "desc s = d\<lparr>sd_dst_offset := off\<rparr>" using at by (auto simp: seq_at_def)
  note inc = address_increment_at[OF W ok at, folded inc_at_def] and ph = phase_increment_at[OF W ok at, folded inc_at_def]
  have nx: "sc_uint 32 (4 * g + 4 * inc_at W d s) = 4 * (g + inc_at W d s)"
    using inc_at_bounds[OF W ok at] end_bound[OF W ok g ga(2)] by simp
  have m: "0 \<le> m" "m < sd_period d" using P_pos[OF W ok] by (simp_all add: m_def)
  note eqs = stride_cycle_def stride_words_eq advance_lanes inc ph
  show "seq_st s' = (if sd_end d \<le> g + inc_at W d s then CMDGEN_ST_WAIT_ALLPRE else CMDGEN_ST_RUNNING_STRIDE)"
    "\<not> s_blocked s'" "global_addr s' = 4 * (g + inc_at W d s)" "local_idx s' = sc_uint 32 (local_idx s + inc_at W d s)"
    unfolding s'_def eqs using nx by (simp_all add: Let_def split_def ga)
  show "seq_regs W d s'"
    using r unfolding s'_def eqs by (simp add: Let_def split_def seq_regs_def)
  have "desc s' = d\<lparr>sd_dst_offset := sd_dst_offset (desc s')\<rparr>"
    unfolding s'_def eqs by (cases "tgt_type (sd_dst d) = TARGET_SP") (simp_all add: Let_def split_def off)
  then show "\<exists>off. desc s' = d\<lparr>sd_dst_offset := off\<rparr>" by blast
  have P: "sd_period (desc s) = sd_period d" using at by simp
  have ps: "phase s' = (\<lambda>i. if i < W then fst (single_overflow_modulo (sd_period d) (phase s i) m) else phase s i)"
    and ls: "line s' = (\<lambda>i. if i < W then sc_int 32 (line s i + line_increment s + (if lane_overflows s m i \<or> m = 0 then 1 else 0))
                    else line s i)"
    unfolding s'_def eqs m_def by (simp_all add: Let_def split_def P ph cong: if_cong)
  show "i < W \<Longrightarrow> phase s' i = (phase s i + m) mod sd_period d"
    unfolding ps using lane_step(1)[OF W ok at _ m, of i] P by simp
  show "i < W \<Longrightarrow> line s' i = sc_int 32 (line s i + line_increment s +
        (if sd_period d \<le> phase s i + m \<or> m = 0 then 1 else 0))"
    unfolding ls using lane_step(2)[OF W ok at _ m, of i] by simp
qed

lemma stride_cycle_next:
  assumes W: "W = 2 ^ b" "b \<le> 16" and ok: "stride_ok W d"
    and at: "seq_at W d g s" and g: "g + inc_at W d s < sd_end d"
  shows "seq_at W d (g + inc_at W d s) (snd (stride_cycle W T s))"
proof -
  let ?s = "snd (stride_cycle W T s)" and ?P = "sd_period d"
  note b = inc_at_bounds[OF W ok at]
  have g': "g < sd_end d" using g b(4) by simp
  note st = stride_cycle_state[OF W ok at g', where T = T]
  have ph: "phase ?s i = (g + inc_at W d s + int i - sd_first d) mod ?P" if "i < W" for i
    using st(7)[OF that] phases_at(1)[OF W ok at that] mod_add_eq[of "g + int i - sd_first d" ?P "inc_at W d s"]
    by (simp add: algebra_simps)
  obtain j where j: "0 \<le> j" "j < int W"
    "(g + int W - 1 - sd_first d + 1 + (inc_at W d s - int W) + j) mod ?P < sd_words d"
    using next_line_hit[OF W_pos(1)[OF W ok] P_pos(1-3)[OF W ok], of "g + int W - 1 - sd_first d"] last_phase(1)[OF W ok at]
    by (auto simp: inc_at_def)
  have "phase ?s (nat j) < sd_words d"
    using j ph[of "nat j"] by (simp add: algebra_simps)
  then have hit: "\<exists>i<W. phase ?s i < sd_words d" using j by (intro exI[of _ "nat j"]) auto
  have li: "local_idx ?s = sc_uint 32 (sd_dst_offset d + (g + inc_at W d s - sd_first d))"
    using st(6) at by (simp add: seq_at_def sc_uint_def mod_simps algebra_simps)
  have ln: "line ?s i = sc_int 32 (sd_dst_off_y d + (g + inc_at W d s + int i - sd_first d) div ?P)"
    if l: "lines_ok W d \<and> tgt_type (sd_dst d) \<noteq> TARGET_CAM" and i: "i < W" for i
  proof -
    let ?c = "g + int i - sd_first d"
    have "inc_at W d s = int W \<or> (int W \<le> ?P \<and> inc_at W d s \<le> ?P)"
      using l b(5) inc_le_period[OF W ok] last_phase(2,3)[OF W ok at]
      by (cases "?P < int W") (auto simp: lines_ok_def inc_at_def)
    note step = line_step[OF W ok this b(4,5), of ?c]
    let ?X = "line_increment s + (if ?P \<le> phase s i + inc_at W d s mod ?P \<or> inc_at W d s mod ?P = 0 then 1 else 0)"
    have "line_increment s = (if ?P < int W then (int W - 1) div ?P else 0)"
      and l: "line s i = sc_int 32 (sd_dst_off_y d + ?c div ?P)"
      using at l i by (auto simp: seq_at_def seq_regs_def lines_at_def Let_def)
    then have "(?c + inc_at W d s) div ?P = ?c div ?P + ?X"
      using step phases_at(1)[OF W ok at i] by (simp only: add.assoc)
    moreover have "line ?s i = sc_int 32 (sd_dst_off_y d + ?c div ?P + ?X)"
      unfolding st(8)[OF i] l add.assoc[of "sc_int 32 _"] by (rule sc_int_add)
    moreover have "g + inc_at W d s + int i - sd_first d = ?c + inc_at W d s" by simp
    ultimately show ?thesis by (simp only: add.assoc)
  qed
  show ?thesis
    using st(1-5) g hit li ph ln b at by (auto simp: seq_at_def lines_at_def)
qed

lemma stride_words_split:
  assumes W: "W = 2 ^ b" "b \<le> 16" and ok: "stride_ok W d"
    and at: "seq_at W d g s"
  shows "filter (in_stride d) [g..sd_end d - 1] =
    filter (in_stride d) [g..g + int W - 1] @ filter (in_stride d) [g + inc_at W d s..sd_end d - 1]"
proof (rule filter_upto_eqI)
  show "g + int W - 1 < g + inc_at W d s" using inc_at_bounds[OF W ok at] by simp
  fix x
  assume x: "in_stride d x"
  have "sd_words d \<le> (x - sd_first d) mod sd_period d" if "g + int W \<le> x" "x < g + inc_at W d s"
    using that skipped_zero[OF W_pos(1)[OF W ok] P_pos(1)[OF W ok], of "g + int W - 1 - sd_first d" "x - sd_first d"] last_phase(1)[OF W ok at]
    by (simp add: inc_at_def)
  with x show "g \<le> x \<and> x \<le> sd_end d - 1 \<longleftrightarrow>
      g \<le> x \<and> x \<le> g + int W - 1 \<or> g + inc_at W d s \<le> x \<and> x \<le> sd_end d - 1"
    using inc_at_bounds[OF W ok at] W_pos(1)[OF W ok] by (force simp: in_stride_def)
qed

lemma regIdx_target:
  assumes W: "W = 2 ^ b" "b \<le> 16" and ok: "stride_ok W d"
    and at: "seq_at W d g s" and "lines_ok W d" "g \<le> x" "x < g + int W"
  shows "regIdx T s (tgt_type (sd_dst d)) (nat (x - g)) = word_target T d x"
proof -
  obtain off where off: "desc s = d\<lparr>sd_dst_offset := off\<rparr>" using at by (auto simp: seq_at_def)
  have i: "nat (x - g) < W" "g + int (nat (x - g)) = x" using assms by auto
  have "phase s (nat (x - g)) = (x - sd_first d) mod sd_period d" using phases_at(1)[OF W ok at i(1)] i by simp
  moreover have "tgt_type (sd_dst d) \<noteq> TARGET_CAM \<longrightarrow>
      line s (nat (x - g)) = sc_int 32 (sd_dst_off_y d + (x - sd_first d) div sd_period d)"
    using at assms(5) i unfolding seq_at_def lines_at_def by metis
  moreover have "(local_idx s + int (nat (x - g))) mod 2 ^ 32 = (sd_dst_offset d + (x - sd_first d)) mod 2 ^ 32"
  proof -
    have "(local_idx s + int (nat (x - g))) mod 2 ^ 32 = (sd_dst_offset d + (g - sd_first d) + (x - g)) mod 2 ^ 32"
      using at assms(6) unfolding seq_at_def sc_uint_def by (simp only: mod_simps int_nat_eq) simp
    then show ?thesis by simp
  qed
  ultimately show ?thesis by (simp add: regIdx_def word_target_def off Let_def)
qed

text \<open>The run through a stride: what comes out of the request FIFO, when it ends.\<close>

lemma stride_run:
  assumes W: "W = 2 ^ b" "b \<le> 16" and ok: "stride_ok W d"
  shows "seq_at W d g s \<Longrightarrow> g < sd_end d \<Longrightarrow>
    \<exists>n. 0 < n \<and> int W * (int n - 1) < sd_end d - g \<and> (\<forall>is. length is = n \<longrightarrow>
      (\<exists>effs s'. runE (seq_thread_lt W T) is s = Inr (effs, s') \<and> seq_st s' = CMDGEN_ST_WAIT_ALLPRE \<and>
        (let reqs = concat (map eff_reqs effs); ws = filter (in_stride d) [g..sd_end d - 1] in
         map br_last reqs = replicate (n - 1) False @ [True] \<and>
         (\<forall>r\<in>set reqs. br_write r = sd_write d \<and> br_target r = sd_dst d) \<and>
         map fst (concat (map (burst_words W) reqs)) = map ((*) 4) ws \<and>
         (lines_ok W d \<longrightarrow> concat (map (burst_words W) reqs) = map (\<lambda>x. (4 * x, word_target T d x)) ws))))"
proof (induction "nat (sd_end d - g)" arbitrary: g s rule: less_induct)
  case less
  let ?u = "s\<lparr>out_done := False\<rparr>"
  let ?r = "fst (stride_cycle W T ?u)" and ?s = "snd (stride_cycle W T ?u)"
  note g = less.prems(2)
  have at: "seq_at W d g ?u" using less.prems(1) by (simp add: seq_at_def seq_regs_def lines_at_def)
  note b = inc_at_bounds[OF W ok at] and rq = stride_cycle_request[OF W ok at g, of T] and st = stride_cycle_state[OF W ok at g, where T = T]
  let ?g = "g + inc_at W d ?u"
  have step: "seq_thread_lt W T i s = Inr (no_effects\<lparr>eff_reqs := [?r]\<rparr>, ?s)" for i
    using less.prems(1) by (simp add: seq_thread_lt_def seq_at_def split_def Let_def)
  have tgt: "lines_ok W d \<Longrightarrow> burst_words W ?r = map (\<lambda>x. (4 * x, word_target T d x)) (filter (in_stride d) [g..g + int W - 1])"
    unfolding rq(1) using regIdx_target[OF W ok at] by (intro map_cong) auto
  have adr: "map fst (burst_words W ?r) = map ((*) 4) (filter (in_stride d) [g..g + int W - 1])"
    unfolding rq(1) by simp
  note split = stride_words_split[OF W ok at]
  show ?case
  proof (cases "?g < sd_end d")
    case False
    then have "filter (in_stride d) [?g..sd_end d - 1] = []" by simp
    with False show ?thesis
      using rq(2-4) st(1) tgt adr split g
      by (intro exI[of _ 1]) (auto simp: length_Suc_conv step no_effects_def)
  next
    case True
    have "nat (sd_end d - ?g) < nat (sd_end d - g)" using b(4) g by simp
    from less.hyps[OF this stride_cycle_next[OF W ok at True] True] obtain n where n: "0 < n" "int W * (int n - 1) < sd_end d - ?g"
      and run: "\<And>is. length is = n \<Longrightarrow>
      (\<exists>effs s'. runE (seq_thread_lt W T) is ?s = Inr (effs, s') \<and> seq_st s' = CMDGEN_ST_WAIT_ALLPRE \<and>
        (let reqs = concat (map eff_reqs effs); ws = filter (in_stride d) [?g..sd_end d - 1] in
         map br_last reqs = replicate (n - 1) False @ [True] \<and>
         (\<forall>r\<in>set reqs. br_write r = sd_write d \<and> br_target r = sd_dst d) \<and>
         map fst (concat (map (burst_words W) reqs)) = map ((*) 4) ws \<and>
         (lines_ok W d \<longrightarrow> concat (map (burst_words W) reqs) = map (\<lambda>x. (4 * x, word_target T d x)) ws)))" by blast
    have rep: "False # replicate (n - 1) False = replicate n False" using n(1) by (cases n) simp_all
    have "\<exists>effs s'. runE (seq_thread_lt W T) is s = Inr (effs, s') \<and> seq_st s' = CMDGEN_ST_WAIT_ALLPRE \<and>
        (let reqs = concat (map eff_reqs effs); ws = filter (in_stride d) [g..sd_end d - 1] in
         map br_last reqs = replicate (Suc n - 1) False @ [True] \<and>
         (\<forall>r\<in>set reqs. br_write r = sd_write d \<and> br_target r = sd_dst d) \<and>
         map fst (concat (map (burst_words W) reqs)) = map ((*) 4) ws \<and>
         (lines_ok W d \<longrightarrow> concat (map (burst_words W) reqs) = map (\<lambda>x. (4 * x, word_target T d x)) ws))"
      if len: "length is = Suc n" for "is"
    proof -
      obtain i is' where i: "is = i # is'" "length is' = n" using len by (auto simp: length_Suc_conv)
      obtain effs s' where r: "runE (seq_thread_lt W T) is' ?s = Inr (effs, s')" "seq_st s' = CMDGEN_ST_WAIT_ALLPRE"
        "map br_last (concat (map eff_reqs effs)) = replicate (n - 1) False @ [True]"
        "\<forall>r\<in>set (concat (map eff_reqs effs)). br_write r = sd_write d \<and> br_target r = sd_dst d"
        "map fst (concat (map (burst_words W) (concat (map eff_reqs effs)))) = map ((*) 4) (filter (in_stride d) [?g..sd_end d - 1])"
        "lines_ok W d \<longrightarrow> concat (map (burst_words W) (concat (map eff_reqs effs))) =
            map (\<lambda>x. (4 * x, word_target T d x)) (filter (in_stride d) [?g..sd_end d - 1])"
        using run[OF i(2)] by (auto simp: Let_def)
      let ?effs = "no_effects\<lparr>eff_reqs := [?r]\<rparr> # effs"
      have "runE (seq_thread_lt W T) is s = Inr (?effs, s')" using i r(1) by (simp add: step)
      moreover have "map br_last (concat (map eff_reqs ?effs)) = replicate (Suc n - 1) False @ [True]"
        using r(3) rq(4) True rep by simp
      moreover have "\<forall>r\<in>set (concat (map eff_reqs ?effs)). br_write r = sd_write d \<and> br_target r = sd_dst d"
        using r(4) rq(2,3) by simp
      moreover have "map fst (concat (map (burst_words W) (concat (map eff_reqs ?effs)))) =
          map ((*) 4) (filter (in_stride d) [g..sd_end d - 1])"
        using r(5) adr unfolding split by simp
      moreover have "lines_ok W d \<longrightarrow> concat (map (burst_words W) (concat (map eff_reqs ?effs))) =
          map (\<lambda>x. (4 * x, word_target T d x)) (filter (in_stride d) [g..sd_end d - 1])"
        using r(6) tgt unfolding split by simp
      ultimately show ?thesis unfolding Let_def using r(2) by blast
    qed
    moreover have "int W * (int (Suc n) - 1) < sd_end d - g"
      using n(2) b(1) by (simp add: algebra_simps)
    ultimately show ?thesis by (intro exI[of _ "Suc n"]) auto
  qed
qed


end
