(* ===== verification/Stride_Props.thy ===== *)
theory Stride_Props
  imports Stride_Cycle
begin

text \<open>
  What the stride sequencer emits for a descriptor: for a stride exactly its words, in ascending
  order, and for a register target the lane and row of each; for an indexed transfer one burst per index.
\<close>

subsection \<open>The start of a stride\<close>

lemma sc_int_32: "- 2147483648 \<le> x \<Longrightarrow> x < 2147483648 \<Longrightarrow> sc_int 32 x = x"
  by (rule sc_int_id) simp_all

lemma mod32_id: "0 \<le> (x::int) \<Longrightarrow> x < 4294967296 \<Longrightarrow> x mod 2 ^ 32 = x"
  by simp

lemma div_round_up_int: "0 < (P::int) \<Longrightarrow> (m + (P - 1)) div P = - ((- m) div P)"
proof -
  assume P: "0 < P"
  have m: "m = m mod P + m div P * P" by simp
  have "(m + (P - 1)) div P = m div P + (m mod P + (P - 1)) div P"
    using P div_mult_self1[of P "m mod P + (P - 1)" "m div P"] by (simp add: algebra_simps)
  also have "(m mod P + (P - 1)) div P = (if m mod P = 0 then 0 else 1)"
    using P pos_mod_sign[OF P, of m] pos_mod_bound[OF P, of m]
    by (auto intro!: int_div_pos_eq[where r = "m mod P - 1"])
  finally show ?thesis using P by (simp add: zdiv_zminus1_eq_if)
qed

lemma or_pot_add_int: "0 \<le> b \<Longrightarrow> b < 2 ^ n \<Longrightarrow> (a::int) * 2 ^ n OR b = a * 2 ^ n + b"
  using or_disjoint_add_int[of b n a] by (simp add: mult.commute)

lemma init_lanes_eq:
  assumes "0 < P" "P < 2 ^ 20" "0 \<le> it" "it < P"
  shows "init_lanes n P it l s = ((it + int n) mod P, l + (it + int n) div P,
    s\<lparr>phase := (\<lambda>i. if i < n then (it + int i) mod P else phase s i),
      line := (\<lambda>i. if i < n then sc_int 32 (l + (it + int i) div P) else line s i)\<rparr>)"
  unfolding init_lanes_def
proof (induction n)
  case 0
  then show ?case using assms by simp
next
  case (Suc n)
  let ?x = "(it + int n) mod P"
  have x: "0 \<le> ?x" "?x < P" using assms by simp_all
  have ph: "sc_uint 22 ?x = ?x" using x assms(2) by simp
  have m: "(it + int (Suc n)) mod P = (?x + 1) mod P" by (simp add: mod_simps ac_simps)
  have "it + int (Suc n) = (?x + 1) + (it + int n) div P * P" by (simp add: algebra_simps)
  then have d: "(it + int (Suc n)) div P = (it + int n) div P + (?x + 1) div P"
    using assms(1) by (simp only: div_mult_self1)
  have c: "(?x + 1) div P = (if ?x + 1 = P then 1 else 0)" "(?x + 1) mod P = (if ?x + 1 = P then 0 else ?x + 1)"
    using x by auto
  show ?case
    unfolding for_upto_Suc Suc.IH m d c
    using assms(1) x by (auto simp: Let_def ph less_Suc_eq fun_eq_iff m d c intro!: seq.equality)
qed



lemma init_at:
  assumes W: "W = 2 ^ b" "b \<le> 16" and ok: "stride_ok W d"
    and d: "desc s = d" and v: "validate_sd (int W) d" and s: "seq_st s = CMDGEN_ST_RUNNING_STRIDE" "\<not> s_blocked s"
    and off: "0 \<le> sd_dst_offset d"
  shows "\<exists>s'. init_request_regs W s = Inr s' \<and> seq_at W d (int W * (sd_first d div int W)) s' \<and>
    lines_at W d (int W * (sd_first d div int W)) s'"
proof -
  let ?a = "sd_first d" and ?P = "sd_period d" and ?w = "sd_words d" and ?W = "int W"
  let ?m = "?a mod ?W" and ?sk = "?P - (?w + (?W - 1))"
  note wp = W_pos[OF W ok] and pp = P_pos[OF W ok]
  have W16: "?W \<le> 65536" and P20: "?P < 1048576" using wp(3) pp(4) by simp_all
  have a: "sd_addr d = 4 * ?a" "0 \<le> ?a" using ok by (auto simp: stride_ok_def sd_first_def)
  have m: "0 \<le> ?m" "?m < ?W" using wp by simp_all
  have Wb: "?W = 2 ^ b" "push_bit 2 ?W = 2 ^ (b + 2)" by (simp_all add: W(1) push_bit_eq_mult power_add)
  have e1: "drop_bit 2 (sd_addr d) AND (?W - 1) = ?m"
    by (simp add: a(1) drop_bit_eq_div Wb(1) and_mask_int)
  have "sd_addr d div 2 ^ (b + 2) = ?a div ?W" by (simp add: a(1) Wb(1) power_add)
  then have e2: "sd_addr d AND NOT (push_bit 2 ?W - 1) = 4 * (?W * (?a div ?W))"
    unfolding Wb(2) and_not_mask_int by (simp add: Wb(1) power_add)
  have "4 * (?W * (?a div ?W)) - sd_addr d = - 4 * ?m"
    unfolding a(1) by (simp add: minus_mult_div_eq_mod[symmetric] algebra_simps)
  then have e3: "sc_int 32 (4 * (?W * (?a div ?W)) - sd_addr d) = - 4 * ?m"
    using m W16 by (simp only:) (intro sc_int_32, linarith+)
  have e4: "drop_bit 2 (- 4 * ?m) = - ?m" "drop_bit 2 (- (- 4 * ?m)) = ?m"
    by (simp_all add: drop_bit_eq_div)
  have e5: "sc_int 32 ?sk = ?sk" using pp wp by (intro sc_int_32) simp_all
  have e6: "?sk AND (?W - 1) = ?sk mod ?W" "?sk AND NOT (?W - 1) = ?W * (?sk div ?W)"
    unfolding Wb(1) by (rule and_mask_int, rule and_not_mask_int)
  have "?sk mod ?W < ?W" "0 \<le> ?sk mod ?W" using wp by simp_all
  then have e7: "(?sk mod ?W + ?w - 1) mod 2 ^ 32 = ?sk mod ?W + ?w - 1"
    using pp wp W16 P20 by (intro mod32_id) linarith+
  have "?W * (?sk div ?W) = ?sk - ?sk mod ?W" by (simp add: minus_mod_eq_mult_div)
  moreover have "?W * (- 1) \<le> ?W * (?sk div ?W)"
  proof -
    have "(- ?W) div ?W \<le> ?sk div ?W" using pp wp by (intro zdiv_mono1) simp_all
    moreover have "(- ?W) div ?W = - 1" using wp by (simp add: zdiv_zminus1_eq_if)
  ultimately show "?W * (- 1) \<le> ?W * (?sk div ?W)" using wp by (intro mult_left_mono) linarith+
  qed
  ultimately have e8: "(?W * (?sk div ?W) + ?W) mod 2 ^ 32 = ?W * (?sk div ?W) + ?W"
    using pp wp W16 P20 \<open>0 \<le> ?sk mod ?W\<close> by (intro mod32_id) linarith+
  have "sd_addr d + 4 * (?P * (sd_period_count d + 1) + ?W) < 2 ^ 32" "1 \<le> sd_period_count d"
    using ok by (auto simp: stride_ok_def)
  then have bnd: "4 * ?a + 4 * (?P * (sd_period_count d - 1)) + 8 * ?P + 4 * ?W < 4294967296" "0 \<le> ?P * (sd_period_count d - 1)"
    using a pp by (simp_all add: algebra_simps)
  have "4 * sd_end d = sd_addr d + push_bit 2 (?w + ?P * (sd_period_count d - 1))"
    by (simp add: a(1) sd_end_def push_bit_eq_mult)
  moreover have "0 \<le> 4 * sd_end d" "4 * sd_end d < 4294967296"
  proof -
    obtain Q where Q: "Q = ?P * (sd_period_count d - 1)" by blast
    show "0 \<le> 4 * sd_end d" "4 * sd_end d < 4294967296"
      using bnd(1,2) a(2) pp(2,3) wp(1) unfolding sd_end_def Q[symmetric] by simp_all
  qed
  ultimately have e9: "sc_uint 32 (sd_addr d + push_bit 2 (?w + ?P * (sd_period_count d - 1))) = 4 * sd_end d"
    unfolding sc_uint_def using mod32_id by metis
  have e10: "((?P - ?m) mod 2 ^ 64) mod ?P = (- ?m) mod ?P"
  proof (cases "?P dvd 2 ^ 64")
    case True
    then have "((?P - ?m) mod 2 ^ 64) mod ?P = (?P - ?m) mod ?P" by (rule mod_mod_cancel)
    then show ?thesis by simp
  next
    case False
    then have "?m \<le> ?P" using ok by (simp add: stride_ok_def)
    then have "(?P - ?m) mod 2 ^ 64 = ?P - ?m" using m P20 by (intro mod_pos_pos_trivial) simp_all
    then show ?thesis by simp
  qed
  let ?it = "(- ?m) mod ?P"
  let ?l = "sc_int 32 (sd_dst_off_y d - (?m + (?P - 1)) div ?P)"
  have it: "0 \<le> ?it" "?it < ?P" using pp by simp_all
  have ceil: "(?m + (?P - 1)) div ?P = - ((- ?m) div ?P)"
    using pp(1) by (rule div_round_up_int)
  have oit: "(?it + int i) mod ?P = (?a div ?W * ?W + int i - ?a) mod ?P"
    "- ((?m + (?P - 1)) div ?P) + (?it + int i) div ?P = (?a div ?W * ?W + int i - ?a) div ?P" for i
  proof -
    have eq: "?a div ?W * ?W + int i - ?a = - ?m + int i" by (simp add: minus_mult_div_eq_mod[symmetric])
    show "(?it + int i) mod ?P = (?a div ?W * ?W + int i - ?a) mod ?P"
      unfolding eq by (rule mod_add_left_eq)
    have "- ?m + int i = (?it + int i) + (- ?m) div ?P * ?P" by simp
    then have "(- ?m + int i) div ?P = (- ?m) div ?P + (?it + int i) div ?P"
      using pp(1) by (metis div_mult_self1 less_irrefl add.commute)
    then show "- ((?m + (?P - 1)) div ?P) + (?it + int i) div ?P = (?a div ?W * ?W + int i - ?a) div ?P"
      unfolding eq ceil by simp
  qed
  define s' where "s' = snd (snd (init_lanes W ?P ?it ?l
      (s\<lparr>skip := ?W * (?sk div ?W), skip_rest := ?sk mod ?W + ?w - 1, skip_bw := ?W * (?sk div ?W) + ?W,
         end_addr := 4 * sd_end d, global_addr := 4 * (?W * (?a div ?W)),
         local_idx := sc_uint 32 (sd_dst_offset d - ?m),
         line_increment := (if ?P < ?W then line_increment_lut ?W ?P else 0),
         sp_line_addr_increment := (if tgt_type (sd_dst d) = TARGET_SP \<and> sd_dst_period d \<ge> ?w
                    then push_bit 2 (sd_dst_period d - ?w) mod 2 ^ 32 else 0)\<rparr>)))"
  have r: "init_request_regs W s = Inr s'"
    unfolding init_request_regs_def d Let_def
    by (simp only: v e1 e2 e3 e4 e5 e6 e7 e8 e9 e10 s'_def not_True_eq_False if_False add_uminus_conv_diff)
  have "line s' i = sc_int 32 (sd_dst_off_y d + (?W * (?a div ?W) + int i - ?a) div ?P)" if "i < W" for i
  proof -
    have "line s' i = sc_int 32 (?l + (?it + int i) div ?P)"
      using that by (simp add: s'_def init_lanes_eq[OF pp(1,4) it])
    also have "\<dots> = sc_int 32 (sd_dst_off_y d + (- ((?m + (?P - 1)) div ?P) + (?it + int i) div ?P))"
      unfolding sc_int_add by (simp only: diff_conv_add_uminus add.assoc)
    finally show ?thesis unfolding oit(2) by (simp add: mult.commute)
  qed
  then have lns: "lines_at W d (?W * (?a div ?W)) s'" by (simp add: lines_at_def)
  have "seq_at W d (?W * (?a div ?W)) s'"
    unfolding seq_at_def
  proof (intro conjI allI impI)
    show "seq_st s' = CMDGEN_ST_RUNNING_STRIDE" "\<not> s_blocked s'" "\<exists>off. desc s' = d\<lparr>sd_dst_offset := off\<rparr>"
      "global_addr s' = 4 * (?W * (?a div ?W))" "?W dvd ?W * (?a div ?W)"
      using s d by (auto simp: s'_def init_lanes_eq[OF pp(1,4) it] intro: exI[of _ "sd_dst_offset d"])
    show "0 \<le> ?W * (?a div ?W)" using a wp by (simp add: pos_imp_zdiv_nonneg_iff)
    show "seq_regs W d s'"
      unfolding seq_regs_def Let_def
      by (simp add: s'_def init_lanes_eq[OF pp(1,4) it] line_increment_lut_def)
    have "local_idx s' = sc_uint 32 (sd_dst_offset d - ?m)"
      by (simp add: s'_def init_lanes_eq[OF pp(1,4) it])
    also have "sd_dst_offset d - ?m = sd_dst_offset d + (?W * (?a div ?W) - ?a)"
      by (simp add: minus_mult_div_eq_mod[symmetric])
    finally show "local_idx s' = sc_uint 32 (sd_dst_offset d + (?W * (?a div ?W) - ?a))" .
    show ph: "phase s' i = (?W * (?a div ?W) + int i - ?a) mod ?P" if "i < W" for i
      using that by (simp add: s'_def init_lanes_eq[OF pp(1,4) it] oit(1) mult.commute)
    have "phase s' (nat ?m) = 0"
      using ph[of "nat ?m"] m by (simp add: algebra_simps)
    then show "\<exists>i<W. phase s' i < ?w" using m pp by (intro exI[of _ "nat ?m"]) auto
  qed (use lns in simp)
  with r lns show ?thesis by blast
qed

lemma stride_words_list:
  assumes W: "W = 2 ^ b" "b \<le> 16" and ok: "stride_ok W d"
  shows "filter (in_stride d) [int W * (sd_first d div int W)..sd_end d - 1] =
    concat (map (\<lambda>j. [sd_first d + sd_period d * j..sd_first d + sd_period d * j + sd_words d - 1]) [0..sd_period_count d - 1])"
proof -
  let ?a = "sd_first d" and ?P = "sd_period d" and ?w = "sd_words d" and ?g = "int W * (sd_first d div int W)"
  define Q where "Q = (\<lambda>x. ?a \<le> x \<and> (x - ?a) mod ?P < ?w)"
  note wp = W_pos[OF W ok] and pp = P_pos[OF W ok]
  have ga: "?g \<le> ?a" using wp(1) by (metis mult_div_mod_eq pos_mod_sign le_add_same_cancel1)
  have ivl: "filter Q [?a + ?P * int n..?a + ?P * int n + ?w - 1] = [?a + ?P * int n..?a + ?P * int n + ?w - 1]" for n
  proof (rule filter_True, intro ballI)
    fix x assume x: "x \<in> set [?a + ?P * int n..?a + ?P * int n + ?w - 1]"
    have n0: "0 \<le> ?P * int n" using pp by simp
    have "x - ?a = (x - ?a - ?P * int n) + int n * ?P" by simp
    then have "(x - ?a) mod ?P = (x - ?a - ?P * int n) mod ?P" by (metis mod_mult_self1)
    also have "\<dots> = x - ?a - ?P * int n" using x pp by (intro mod_pos_pos_trivial) auto
    finally show "Q x" using x n0 by (auto simp: Q_def)
  qed
  have main: "filter Q [?g..?a + ?P * int n + ?w - 1] =
      concat (map (\<lambda>j. [?a + ?P * j..?a + ?P * j + ?w - 1]) [0..int n])" for n
  proof (induction n)
    case 0
    have "filter Q [?g..?a + ?w - 1] = filter Q [?a..?a - 1] @ filter Q [?a..?a + ?w - 1]"
      using ga by (intro filter_upto_eqI) (auto simp: Q_def)
    then show ?case using ivl[of 0] by simp
  next
    case (Suc n)
    have s: "?P * int (Suc n) = ?P * int n + ?P" by (simp add: algebra_simps)
    have gap: "\<not> (?a + ?P * int n + ?w \<le> x \<and> x < ?a + ?P * int (Suc n))" if "Q x" for x
    proof
      assume x: "?a + ?P * int n + ?w \<le> x \<and> x < ?a + ?P * int (Suc n)"
      have "x - ?a = (x - ?a - ?P * int n) + int n * ?P" by simp
      then have "(x - ?a) mod ?P = (x - ?a - ?P * int n) mod ?P" by (metis mod_mult_self1)
      also have "\<dots> = x - ?a - ?P * int n" using x s pp by (intro mod_pos_pos_trivial) auto
      finally show False using that x by (simp add: Q_def)
    qed
    have "filter Q [?g..?a + ?P * int (Suc n) + ?w - 1] =
        filter Q [?g..?a + ?P * int n + ?w - 1] @ filter Q [?a + ?P * int (Suc n)..?a + ?P * int (Suc n) + ?w - 1]"
    proof (rule filter_upto_eqI)
      show "?a + ?P * int n + ?w - 1 < ?a + ?P * int (Suc n)" using s pp by simp
      fix x assume "Q x"
      from gap[OF this] s pp ga \<open>Q x\<close> show "?g \<le> x \<and> x \<le> ?a + ?P * int (Suc n) + ?w - 1 \<longleftrightarrow>
          ?g \<le> x \<and> x \<le> ?a + ?P * int n + ?w - 1 \<or> ?a + ?P * int (Suc n) \<le> x \<and> x \<le> ?a + ?P * int (Suc n) + ?w - 1"
        unfolding Q_def by (smt (verit) mult_nonneg_nonneg of_nat_0_le_iff)
    qed
    also have "[0..int (Suc n)] = [0..int n] @ [int (Suc n)]" by (simp add: upto_rec2)
    ultimately show ?case using ivl[of "Suc n"] Suc.IH by (simp del: of_nat_Suc)
  qed
  obtain n where n: "sd_period_count d - 1 = int n"
    using ok by (metis stride_ok_def diff_ge_0_iff_ge zero_le_imp_eq_int)
  have f: "filter (in_stride d) [?g..sd_end d - 1] = filter Q [?g..sd_end d - 1]"
    by (intro filter_cong) (auto simp: in_stride_def Q_def)
  have e: "sd_end d - 1 = ?a + ?P * int n + ?w - 1" by (simp add: sd_end_def n)
  show ?thesis unfolding f unfolding e main n ..
qed


text \<open>The elements of a stride: period and word in the period.\<close>

definition stride_elems :: "stride_descriptor \<Rightarrow> (int \<times> int) list" where
  "stride_elems d = List.product [0..sd_period_count d - 1] [0..sd_words d - 1]"

lemma stride_elems_words:
  "concat (map (\<lambda>j. [a + P * j..a + P * j + w - 1]) js) = map (\<lambda>(j, k). a + P * j + k) (List.product js [0..w - 1])"
proof -
  have "map (\<lambda>k. b + k) [0..w - 1] = [b..b + w - 1]" for b
  proof (cases "0 \<le> w")
    case True
    then obtain n where n: "w = int n" by (metis zero_le_imp_eq_int)
    show ?thesis using upto_map_upt[of b n] upto_map_upt[of 0 n] by (simp add: n comp_def)
  qed simp
  then show ?thesis by (induction js) (simp_all add: comp_def)
qed

lemma word_target_elem:
  assumes "stride_ok W d" "W = 2 ^ b" "b \<le> 16" "tgt_type (sd_dst d) \<noteq> TARGET_CAM"
    and "(j, k) \<in> set (stride_elems d)" and x: "x = sd_first d + sd_period d * j + k"
    and dp: "sd_dst_period d = 2 ^ m" and off: "0 \<le> sd_dst_off_x d" "sd_dst_off_x d < 2 ^ 20" "0 \<le> sd_dst_off_y d"
    and sh: "sh = idx_transform_int (sd_idx_transform d)"
    and fit: "sd_dst_off_x d + sd_words d \<le> 2 ^ sh * sd_dst_period d"
      "(sd_dst_off_y d + sd_period_count d) * sd_dst_period d < 2 ^ 31"
  shows "word_target T d x = reg_offset_lane_row T
    (nat ((sd_dst_off_y d + j) * sd_dst_period d + (sd_dst_off_x d + k) div 2 ^ sh))
    (nat ((sd_dst_off_x d + k) mod 2 ^ sh))"
proof -
  note pp = P_pos[OF assms(2,3,1)]
  have jk: "0 \<le> j" "j < sd_period_count d" "0 \<le> k" "k < sd_words d" using assms(5) by (auto simp: stride_elems_def)
  have "x - sd_first d = k + j * sd_period d" by (simp add: x)
  then have div: "(x - sd_first d) div sd_period d = j" and md: "(x - sd_first d) mod sd_period d = k"
    using jk pp by simp_all
  have dp1: "1 \<le> sd_dst_period d" by (simp add: dp)
  let ?y = "sd_dst_off_y d + j" and ?p = "sd_dst_off_x d + k"
  have "0 \<le> ?y" "0 \<le> ?p" using jk off by simp_all
  have "(?y + 1) * sd_dst_period d \<le> (sd_dst_off_y d + sd_period_count d) * sd_dst_period d"
    using jk dp1 by (intro mult_right_mono) simp_all
  then have yb: "?y * sd_dst_period d + sd_dst_period d < 2 ^ 31" using fit(2) by (simp add: distrib_right)
  have "?y * 1 \<le> ?y * sd_dst_period d" using \<open>0 \<le> ?y\<close> dp1 by (intro mult_left_mono) simp_all
  then have ln: "sc_int 32 ?y = ?y" using yb \<open>0 \<le> ?y\<close> dp1 by (intro sc_int_32) simp_all
  have y64: "(?y * sd_dst_period d) mod 2 ^ 64 = ?y * sd_dst_period d"
    using yb \<open>0 \<le> ?y\<close> dp1 by (intro mod_pos_pos_trivial) simp_all
  have p32: "?p mod 2 ^ 32 = ?p" using off jk pp \<open>0 \<le> ?p\<close> by (intro mod_pos_pos_trivial) simp_all
  have "?p < sd_dst_period d * 2 ^ sh" using fit(1) jk by (simp add: mult.commute)
  then have pb: "?p div 2 ^ sh < 2 ^ m" by (simp add: div_less_iff_less_mult_int dp mult.commute)
  have pn: "0 \<le> ?p div 2 ^ sh" using \<open>0 \<le> ?p\<close> by (simp add: pos_imp_zdiv_nonneg_iff)
  have "?y * sd_dst_period d OR drop_bit sh ?p = ?y * sd_dst_period d + ?p div 2 ^ sh"
    using or_pot_add_int[OF pn pb, of ?y] by (simp add: dp drop_bit_eq_div)
  moreover have "(?y * sd_dst_period d + ?p div 2 ^ sh) mod 2 ^ 32 = ?y * sd_dst_period d + ?p div 2 ^ sh"
    using yb pb pn \<open>0 \<le> ?y\<close> dp1 unfolding dp by (intro mod_pos_pos_trivial) simp_all
  moreover have "?p AND (push_bit sh 1 - 1) = ?p mod 2 ^ sh" by (simp add: push_bit_eq_mult and_mask_int)
  ultimately show ?thesis
    using assms(4) by (simp only: word_target_def div md ln y64 Let_def sh[symmetric] add.commute[of k] p32 if_False)
qed


subsection \<open>Properties\<close>

text \<open>A cycle that takes a stride descriptor from the FIFO.\<close>

definition accepts_stride :: "nat \<Rightarrow> seq_inputs \<Rightarrow> seq \<Rightarrow> stride_descriptor \<Rightarrow> bool" where
  "accepts_stride W i s d \<longleftrightarrow>
    seq_st s = CMDGEN_ST_IDLE \<and> \<not> s_blocked s \<and> in_trigger i \<and> \<not> in_ref_pending i \<and> in_desc i = Some d \<and>
    (in_sched_opts i WSS_NO_PARALLEL_DRAM_SP \<longrightarrow> in_ticket_pop i = sd_ticket d) \<and>
    sd_type d = STRIDE \<and> (tgt_type (sd_dst d) \<noteq> TARGET_SP \<longrightarrow> sd_dst_reg d \<noteq> None) \<and>
    validate_sd (int W) d \<and> 0 \<le> sd_dst_offset d"

lemma stride_accepted:
  assumes W: "W = 2 ^ b" "b \<le> 16" and ok: "stride_ok W d" and acc: "accepts_stride W i s d"
  shows "\<exists>e s'. seq_thread_lt W T i s = Inr (e, s') \<and> eff_reqs e = [] \<and>
    seq_at W d (int W * (sd_first d div int W)) s' \<and> lines_at W d (int W * (sd_first d div int W)) s'"
proof -
  have v: "validate_sd (int W) d" and off: "0 \<le> sd_dst_offset d" using acc by (simp_all add: accepts_stride_def)
  define u where "u = s\<lparr>out_done := False, desc := d, out_dst := sd_dst d, cycle_start := in_cycle i,
      seq_st := CMDGEN_ST_RUNNING_STRIDE, s_req := (s_req s)\<lparr>br_sp_offset := 0, br_pre_pol := PRECHARGE_LINEAR\<rparr>\<rparr>"
  define t where "t = (if tgt_type (sd_dst d) = TARGET_SP then u else u\<lparr>out_dst_reg := the (sd_dst_reg d)\<rparr>)"
  have "desc t = d" "seq_st t = CMDGEN_ST_RUNNING_STRIDE" "\<not> s_blocked t"
    using acc by (simp_all add: t_def u_def accepts_stride_def)
  from init_at[OF W ok this(1) v this(2,3) off] obtain s' where s': "init_request_regs W t = Inr s'"
    "seq_at W d (int W * (sd_first d div int W)) s'" "lines_at W d (int W * (sd_first d div int W)) s'" by blast
  have "seq_init W i (s\<lparr>out_done := False, desc := d, seq_st := CMDGEN_ST_INIT_STATE\<rparr>) = Inr (False, s')"
    using acc s'(1)
    by (cases "tgt_type (sd_dst d) = TARGET_SP")
      (auto simp: seq_init_def accepts_stride_def u_def t_def Let_def processTargetReg_def)
  then have "seq_thread_lt W T i s = Inr (no_effects\<lparr>eff_trigger_read := True, eff_desc_read := True\<rparr>, s')"
    using acc by (simp add: seq_thread_lt_def seq_fetch_def accepts_stride_def no_effects_def)
  then show ?thesis using s'(2,3) by (simp add: no_effects_def)
qed

lemma stride_whole_run:
  assumes W: "W = 2 ^ b" "b \<le> 16" and ok: "stride_ok W d" and acc: "accepts_stride W i s d"
  shows "\<exists>n. 0 < n \<and> int W * (int n - 1) < sd_words d + sd_period d * (sd_period_count d - 1) + int W \<and>
    after_cycles (seq_thread_lt W T) [i] n s (\<lambda>effs s'. let reqs = concat (map eff_reqs effs) in
      seq_st s' = CMDGEN_ST_WAIT_ALLPRE \<and> map br_last reqs = replicate (n - 1) False @ [True] \<and>
      (\<forall>r\<in>set reqs. br_write r = sd_write d \<and> br_target r = sd_dst d) \<and>
      map fst (concat (map (burst_words W) reqs)) = map (\<lambda>(j, k). sd_addr d + 4 * (sd_period d * j + k)) (stride_elems d) \<and>
      (lines_ok W d \<longrightarrow> map snd (concat (map (burst_words W) reqs)) =
         map (\<lambda>(j, k). word_target T d (sd_first d + sd_period d * j + k)) (stride_elems d)))"
proof -
  let ?g = "int W * (sd_first d div int W)"
  let ?ws = "filter (in_stride d) [?g..sd_end d - 1]"
  note wp = W_pos[OF W ok] and pp = P_pos[OF W ok]
  obtain e t where e: "seq_thread_lt W T i s = Inr (e, t)" "eff_reqs e = []" "seq_at W d ?g t"
    using stride_accepted[OF W ok acc] by blast
  have gm: "?g = sd_first d - sd_first d mod int W" "sd_first d mod int W < int W" "0 \<le> sd_first d mod int W"
    using wp(1) by (simp_all add: minus_mod_eq_mult_div)
  have cnt: "0 \<le> sd_period d * (sd_period_count d - 1)" using ok pp(1) by (simp add: stride_ok_def)
  then have lt: "?g < sd_end d" using gm pp unfolding sd_end_def by linarith
  have a: "sd_addr d = 4 * sd_first d" using ok by (auto simp: stride_ok_def sd_first_def)
  have ws: "?ws = map (\<lambda>(j, k). sd_first d + sd_period d * j + k) (stride_elems d)"
    unfolding stride_words_list[OF W ok] stride_elems_words stride_elems_def ..
  obtain n where n: "0 < n" "int W * (int n - 1) < sd_end d - ?g" and
    run: "\<And>is. length is = n \<Longrightarrow>
      (\<exists>effs s'. runE (seq_thread_lt W T) is t = Inr (effs, s') \<and> seq_st s' = CMDGEN_ST_WAIT_ALLPRE \<and>
        (let reqs = concat (map eff_reqs effs); ws = ?ws in
         map br_last reqs = replicate (n - 1) False @ [True] \<and>
         (\<forall>r\<in>set reqs. br_write r = sd_write d \<and> br_target r = sd_dst d) \<and>
         map fst (concat (map (burst_words W) reqs)) = map ((*) 4) ws \<and>
         (lines_ok W d \<longrightarrow> concat (map (burst_words W) reqs) = map (\<lambda>x. (4 * x, word_target T d x)) ws)))"
    using stride_run[OF W ok e(3) lt, of T] by blast
  have "int W * (int n - 1) < sd_words d + sd_period d * (sd_period_count d - 1) + int W"
    using n(2) gm unfolding sd_end_def by linarith
  moreover have "\<exists>effs s'. runE (seq_thread_lt W T) ([i] @ is) s = Inr (effs, s') \<and>
        (let reqs = concat (map eff_reqs effs) in
         seq_st s' = CMDGEN_ST_WAIT_ALLPRE \<and> map br_last reqs = replicate (n - 1) False @ [True] \<and>
         (\<forall>r\<in>set reqs. br_write r = sd_write d \<and> br_target r = sd_dst d) \<and>
         map fst (concat (map (burst_words W) reqs)) = map (\<lambda>(j, k). sd_addr d + 4 * (sd_period d * j + k)) (stride_elems d) \<and>
         (lines_ok W d \<longrightarrow> map snd (concat (map (burst_words W) reqs)) =
            map (\<lambda>(j, k). word_target T d (sd_first d + sd_period d * j + k)) (stride_elems d)))"
    if len: "length is = n" for "is"
  proof -
    obtain effs s' where r: "runE (seq_thread_lt W T) is t = Inr (effs, s')" "seq_st s' = CMDGEN_ST_WAIT_ALLPRE"
      "map br_last (concat (map eff_reqs effs)) = replicate (n - 1) False @ [True]"
      "\<forall>r\<in>set (concat (map eff_reqs effs)). br_write r = sd_write d \<and> br_target r = sd_dst d"
      "map fst (concat (map (burst_words W) (concat (map eff_reqs effs)))) = map ((*) 4) ?ws"
      "lines_ok W d \<longrightarrow> concat (map (burst_words W) (concat (map eff_reqs effs))) = map (\<lambda>x. (4 * x, word_target T d x)) ?ws"
      using run[OF len] unfolding Let_def by blast
    have "map ((*) 4) ?ws = map (\<lambda>(j, k). sd_addr d + 4 * (sd_period d * j + k)) (stride_elems d)"
      unfolding ws by (auto simp: a)
    moreover have "lines_ok W d \<longrightarrow> map snd (concat (map (burst_words W) (concat (map eff_reqs effs)))) =
        map (\<lambda>(j, k). word_target T d (sd_first d + sd_period d * j + k)) (stride_elems d)"
      using r(6) unfolding ws by auto
    moreover have "runE (seq_thread_lt W T) ([i] @ is) s = Inr (e # effs, s')" using e(1) r(1) by simp
    moreover have "concat (map eff_reqs (e # effs)) = concat (map eff_reqs effs)" using e(2) by simp
    ultimately show ?thesis unfolding Let_def using r(2-5) by metis
  qed
  ultimately show ?thesis using n(1) unfolding after_cycles_def by blast
qed


lemma stride_elems_concat:
  "map (\<lambda>(j, k). f j k) (stride_elems d) =
    concat (map (\<lambda>j. map (f j) [0..sd_words d - 1]) [0..sd_period_count d - 1])"
  unfolding stride_elems_def by (induction "[0..sd_period_count d - 1]" rule: list.induct) (simp_all add: product_concat_map map_concat comp_def)

text \<open>A concrete sequencer and descriptor, for the witnesses.\<close>

definition seq_idle :: seq where
  "seq_idle = \<lparr>phase = (\<lambda>_. 0), line = (\<lambda>_. 0), desc = stride_descriptor_default, global_addr = 0, local_idx = 0,
    end_addr = 0, skip = 0, skip_bw = 0, skip_rest = 0, line_increment = 0, sp_line_addr_increment = 0,
    cycle_start = 0, cycle_end = 0, seq_st = CMDGEN_ST_IDLE, s_req = burst_request_default, s_idx = idx_last,
    s_addr = 0, s_blocked = False, out_done = False, out_dst = RequestTarget_default,
    out_dst_reg = AbstractRegister_default, out_idx_push_trigger = False, seq_stopped = False\<rparr>"

definition seq_take :: "stride_descriptor \<Rightarrow> idx option \<Rightarrow> seq_inputs" where
  "seq_take d x = \<lparr>in_trigger = True, in_ref_pending = False, in_desc = Some d, in_req_fifo_empty = True, in_DQ_allpre = False,
    in_idx = x, in_cycle = 0, in_sched_opts = (\<lambda>_. False), in_ticket_pop = 0\<rparr>"

definition sd_example :: "int \<Rightarrow> int \<Rightarrow> int \<Rightarrow> stride_descriptor" where
  "sd_example a w p = stride_descriptor_default
    \<lparr>sd_dst_reg := Some (AbstractRegister 0 REGISTER_VGPR 2), sd_dst := \<lparr>tgt_wg = 0, tgt_type = TARGET_REG\<rparr>,
     sd_addr := a, sd_words := w, sd_period := p, sd_period_count := 3, sd_dst_period := 8\<rparr>"

lemmas example_defs = sd_example_def seq_take_def seq_idle_def stride_descriptor_default_def

lemma example_fields:
  "sd_addr (sd_example a w p) = a" "sd_words (sd_example a w p) = w" "sd_period (sd_example a w p) = p"
  "sd_period_count (sd_example a w p) = 3" "sd_dst (sd_example a w p) = \<lparr>tgt_wg = 0, tgt_type = TARGET_REG\<rparr>"
  "sd_dst_period (sd_example a w p) = 8" "sd_dst_off_x (sd_example a w p) = 0" "sd_dst_off_y (sd_example a w p) = 0"
  "sd_idx_transform (sd_example a w p) = IDX_TRANSFORM_UNIT"
  by (simp_all add: sd_example_def stride_descriptor_default_def)

lemma is_pot_8: "is_pot 8"
  by (simp add: is_pot_def)

lemma example_accepted: "0 \<le> a \<Longrightarrow> p \<noteq> 0 \<Longrightarrow> accepts_stride 16 (seq_take (sd_example a w p) x) seq_idle (sd_example a w p)"
  by (simp add: accepts_stride_def example_defs validate_sd_def is_pot_8)

lemma example_ok: "stride_ok 16 (sd_example 100 5 20)" "stride_ok 16 (sd_example 60 1 17)"
  by (simp_all add: stride_ok_def sd_first_def example_defs)

text \<open>
  C4. A stride that keeps the limits of \<open>stride_ok\<close> and that the sequencer accepts is transferred completely and nothing else is:
  the bursts put into the request FIFO hold exactly the words of the stride, period by period, each once and in ascending order;
  every burst carries direction and target of the descriptor, exactly the last one is marked as the last; and the
  sequencer gets there within one cycle per burst-sized line the stride spans, whatever the other inputs do.

  The limits: the address is a multiple of four, a period has at least one word and less than 2 to the 20, the stride ends two
  periods and a burst below 2 to the 32 bytes, and the period is a power of two or not below the offset of the first word in its burst.
  The sequencer accepts descriptors beyond the last limit and transfers wrong words for them.
\<close>

theorem stride_transfers_exact:
  assumes "W = 2 ^ b" "b \<le> 16" "stride_ok W d" "accepts_stride W i s d"
  shows "\<exists>n. 0 < n \<and> int W * (int n - 1) < sd_words d + sd_period d * (sd_period_count d - 1) + int W \<and>
    after_cycles (seq_thread_lt W T) [i] n s (\<lambda>effs s'. let reqs = concat (map eff_reqs effs) in
      seq_st s' = CMDGEN_ST_WAIT_ALLPRE \<and> map br_last reqs = replicate (n - 1) False @ [True] \<and>
      (\<forall>r\<in>set reqs. br_write r = sd_write d \<and> br_target r = sd_dst d) \<and>
      map fst (concat (map (burst_words W) reqs)) =
        concat (map (\<lambda>j. map (\<lambda>k. sd_addr d + 4 * (sd_period d * j + k)) [0..sd_words d - 1])
          [0..sd_period_count d - 1]))"
  using stride_whole_run[OF assms, of T] unfolding stride_elems_concat Let_def
  by (elim exE conjE) (intro exI conjI, assumption, assumption, auto elim: after_cycles_mono)

theorem stride_transfers_exact_witness:
  "\<exists>n. after_cycles (seq_thread_lt 16 1024) [seq_take (sd_example 100 5 20) None] n seq_idle (\<lambda>effs s'.
      map fst (concat (map (burst_words 16) (concat (map eff_reqs effs)))) =
        concat (map (\<lambda>j. map (\<lambda>k. 100 + 4 * (20 * j + k)) [0..5 - 1]) [0..3 - 1]))"
  using stride_transfers_exact[where b = 4 and T = 1024, OF _ _ example_ok(1) example_accepted[where x = None]]
  by (intro after_cycles_ex_mono[where Q = "\<lambda>n effs s'. let reqs = concat (map eff_reqs effs) in
      seq_st s' = CMDGEN_ST_WAIT_ALLPRE \<and> map br_last reqs = replicate (n - 1) False @ [True] \<and>
      (\<forall>r\<in>set reqs. br_write r = sd_write (sd_example 100 5 20) \<and> br_target r = sd_dst (sd_example 100 5 20)) \<and>
      map fst (concat (map (burst_words 16) reqs)) =
        concat (map (\<lambda>j. map (\<lambda>k. sd_addr (sd_example 100 5 20) + 4 * (sd_period (sd_example 100 5 20) * j + k))
          [0..sd_words (sd_example 100 5 20) - 1]) [0..sd_period_count (sd_example 100 5 20) - 1])"])
    (auto simp: Let_def example_fields)

text \<open>
  C5. For a stride into vector registers that keeps the limits of \<open>stride_ok\<close> named above, each word goes where the descriptor
  says: word \<open>k\<close> of period \<open>j\<close> to row \<open>(x + k) mod n\<close> and lane \<open>(y + j) * P + (x + k) div n\<close>, with \<open>(x, y)\<close> the offset of the
  transfer, \<open>P\<close> the destination period and \<open>n\<close> the number of registers of a vector transfer. This holds if a period is
  shorter than a burst or the part of it beyond whole bursts is shorter than its words, and only then in general: one word per period of
  17 goes to a wrong lane, see \<open>stride_line_lost\<close>. The destination period is a power of two that the words of a period fit in, the offsets are
  not negative, the horizontal one below 2 to the 20, and no lane number exceeds 31 bits.
\<close>

theorem stride_registers_exact:
  assumes "W = 2 ^ b" "b \<le> 16" "stride_ok W d" "accepts_stride W i s d"
    and "tgt_type (sd_dst d) = TARGET_REG" "sd_period d < int W \<or> sd_period d mod int W < sd_words d"
    and "sd_dst_period d = 2 ^ m" "0 \<le> sd_dst_off_x d" "sd_dst_off_x d < 2 ^ 20" "0 \<le> sd_dst_off_y d"
    and "n = 2 ^ idx_transform_int (sd_idx_transform d)"
    and "sd_dst_off_x d + sd_words d \<le> n * sd_dst_period d"
    and "(sd_dst_off_y d + sd_period_count d) * sd_dst_period d < 2 ^ 31"
  shows "\<exists>cycles. after_cycles (seq_thread_lt W T) [i] cycles s (\<lambda>effs s'.
      seq_st s' = CMDGEN_ST_WAIT_ALLPRE \<and>
      map snd (concat (map (burst_words W) (concat (map eff_reqs effs)))) =
        concat (map (\<lambda>j. map (\<lambda>k. reg_offset_lane_row T
            (nat ((sd_dst_off_y d + j) * sd_dst_period d + (sd_dst_off_x d + k) div n)) (nat ((sd_dst_off_x d + k) mod n)))
          [0..sd_words d - 1]) [0..sd_period_count d - 1]))"
proof -
  have eq: "map (\<lambda>(j, k). word_target T d (sd_first d + sd_period d * j + k)) (stride_elems d) =
      map (\<lambda>(j, k). reg_offset_lane_row T
            (nat ((sd_dst_off_y d + j) * sd_dst_period d + (sd_dst_off_x d + k) div n)) (nat ((sd_dst_off_x d + k) mod n))) (stride_elems d)"
    using word_target_elem[OF assms(3,1,2) _ _ refl assms(7-10) refl, of _ _ T] assms(5,11-13)
    by (intro map_cong) auto
  have ok: "lines_ok W d" using assms(5,6) by (simp add: lines_ok_def)
  obtain c where "after_cycles (seq_thread_lt W T) [i] c s (\<lambda>effs s'. let reqs = concat (map eff_reqs effs) in
      seq_st s' = CMDGEN_ST_WAIT_ALLPRE \<and> map br_last reqs = replicate (c - 1) False @ [True] \<and>
      (\<forall>r\<in>set reqs. br_write r = sd_write d \<and> br_target r = sd_dst d) \<and>
      map fst (concat (map (burst_words W) reqs)) = map (\<lambda>(j, k). sd_addr d + 4 * (sd_period d * j + k)) (stride_elems d) \<and>
      (lines_ok W d \<longrightarrow> map snd (concat (map (burst_words W) reqs)) =
         map (\<lambda>(j, k). word_target T d (sd_first d + sd_period d * j + k)) (stride_elems d)))"
    using stride_whole_run[OF assms(1-4), of T] by blast
  then have "after_cycles (seq_thread_lt W T) [i] c s (\<lambda>effs s'. seq_st s' = CMDGEN_ST_WAIT_ALLPRE \<and>
      map snd (concat (map (burst_words W) (concat (map eff_reqs effs)))) = map (\<lambda>(j, k). reg_offset_lane_row T
            (nat ((sd_dst_off_y d + j) * sd_dst_period d + (sd_dst_off_x d + k) div n)) (nat ((sd_dst_off_x d + k) mod n))) (stride_elems d))"
    by (rule after_cycles_mono) (simp add: Let_def ok eq)
  then show ?thesis unfolding stride_elems_concat by blast
qed

theorem stride_registers_exact_witness:
  "\<exists>n. after_cycles (seq_thread_lt 16 1024) [seq_take (sd_example 100 5 20) None] n seq_idle (\<lambda>effs s'.
      map snd (concat (map (burst_words 16) (concat (map eff_reqs effs)))) =
        concat (map (\<lambda>j. map (\<lambda>k. reg_offset_lane_row 1024 (nat (8 * j + k)) 0) [0..5 - 1]) [0..3 - 1]))"
  using stride_registers_exact[where b = 4 and T = 1024 and m = 3 and n = 1, OF _ _ example_ok(1) example_accepted[where x = None]]
  by (simp add: example_fields idx_transform_int_def mult.commute) (erule after_cycles_ex_mono, simp)

text \<open>When an increment exceeds the period, every lane is one period behind afterwards.\<close>

lemma lines_behind:
  assumes W: "W = 2 ^ b" "b \<le> 16" and ok: "stride_ok W d" and at: "seq_at W d g s" and ln: "lines_at W d g s"
    and g: "g < sd_end d" and big: "sd_period d < inc_at W d s" "int W \<le> sd_period d" and i: "i < W"
  shows "line (snd (stride_cycle W T s)) i =
    sc_int 32 (sd_dst_off_y d + ((g + inc_at W d s + int i - sd_first d) div sd_period d - 1))"
proof -
  let ?P = "sd_period d" and ?c = "g + int i - sd_first d" and ?inc = "inc_at W d s"
  note pp = P_pos[OF W ok]
  have "?inc < 2 * ?P"
    using line_inc_bounds(4)[OF _ last_phase(2,3)[OF W ok at], of "int W" "sd_words d"] W_pos[OF W ok] big(2)
    by (simp add: inc_at_def)
  then have inc: "?inc mod ?P = ?inc - ?P"
    using big(1) minus_mod_self2[of ?inc ?P] by (simp del: minus_mod_self2)
  have cm: "0 \<le> ?c mod ?P" "?c mod ?P < ?P" "0 \<le> ?inc - ?P" "?inc - ?P < ?P"
    using pp(1) big \<open>?inc < 2 * ?P\<close> by simp_all
  have "?c + ?inc = (?c mod ?P + (?inc - ?P)) + (?c div ?P + 1) * ?P" by (simp add: algebra_simps)
  then have "(?c + ?inc) div ?P = ?c div ?P + 1 + (?c mod ?P + (?inc - ?P)) div ?P"
    using pp(1) by (simp only: div_mult_self1)
  then have q: "(?c + ?inc) div ?P - 1 = ?c div ?P + (if ?P \<le> ?c mod ?P + (?inc - ?P) then 1 else 0)"
    using mod_add_once(2)[OF cm] by auto
  have li: "line_increment s = 0" using at big(2) by (simp add: seq_at_def seq_regs_def Let_def)
  have "line s i = sc_int 32 (sd_dst_off_y d + ?c div ?P)" using ln i by (simp add: lines_at_def)
  then have "line (snd (stride_cycle W T s)) i =
      sc_int 32 (sc_int 32 (sd_dst_off_y d + ?c div ?P) + (if ?P \<le> ?c mod ?P + (?inc - ?P) then 1 else 0))"
    using stride_cycle_state(8)[OF W ok at g i, of T] phases_at(1)[OF W ok at i] li inc big(1) by simp
  then have L: "line (snd (stride_cycle W T s)) i = sc_int 32 (sd_dst_off_y d + ((?c + ?inc) div ?P - 1))"
    unfolding sc_int_add q by (simp only: add.assoc)
  have x: "g + ?inc + int i - sd_first d = ?c + ?inc" by simp
  show ?thesis unfolding x by (rule L)
qed

lemma regIdx_cong:
  assumes "t \<noteq> TARGET_CAM" "phase s i = phase s' i'" "line s i = line s' i'"
    and "desc s = d\<lparr>sd_dst_offset := x\<rparr>" "desc s' = d\<lparr>sd_dst_offset := x'\<rparr>"
  shows "regIdx T s t i = regIdx T s' t i'"
  using assms by (simp add: regIdx_def Let_def)

text \<open>
  The line number of the word lanes goes wrong for periods longer than a burst that are no multiple of it: of a
  stride of single words with such a period whose first word is the last of its burst, the sequencer sends the first
  two words to the same lane of the same register, although they belong to different periods: the
  address increment exceeds the period, and only one of the two periods it passes is counted.
\<close>

lemma stride_line_lost:
  assumes "W = 2 ^ b" "b \<le> 16" "stride_ok W d" "accepts_stride W i s d"
    and "tgt_type (sd_dst d) = TARGET_REG" "sd_words d = 1" "2 \<le> sd_period_count d"
    and "int W < sd_period d" "sd_period d mod int W \<noteq> 0" "sd_first d mod int W = int W - 1"
  shows "\<exists>target. after_cycles (seq_thread_lt W T) [i] 2 s (\<lambda>effs s'.
    concat (map (burst_words W) (concat (map eff_reqs effs))) = [(sd_addr d, target), (sd_addr d + 4 * sd_period d, target)])"
proof -
  note W = assms(1,2) and ok = assms(3)
  let ?P = "sd_period d" and ?a = "sd_first d" and ?g = "int W * (sd_first d div int W)"
  note wp = W_pos[OF W ok] and pp = P_pos[OF W ok]
  obtain e t where e: "seq_thread_lt W T i s = Inr (e, t)" "eff_reqs e = []" "seq_at W d ?g t" "lines_at W d ?g t"
    using stride_accepted[OF W ok assms(4)] by blast
  define t0 where "t0 = t\<lparr>out_done := False\<rparr>"
  have at: "seq_at W d ?g t0" and ln: "lines_at W d ?g t0"
    using e(3,4) by (simp_all add: t0_def seq_at_def seq_regs_def lines_at_def)
  have g: "?g = ?a - (int W - 1)" using assms(10) by (metis minus_mod_eq_mult_div)
  have ph: "phase t0 (W - 1) = 0" using last_phase(1)[OF W ok at] g by simp
  let ?inc = "inc_at W d t0"
  have "(?P - 1) div int W = ?P div int W"
  proof -
    have "?P - 1 = (?P mod int W - 1) + ?P div int W * int W" by simp
    then have "(?P - 1) div int W = ?P div int W + (?P mod int W - 1) div int W" using wp by (metis div_mult_self1 less_irrefl add.commute)
    moreover have "(?P mod int W - 1) div int W = 0"
      using assms(9) wp pos_mod_sign[of "int W" ?P] pos_mod_bound[of "int W" ?P] by (intro div_pos_pos_trivial) linarith+
    ultimately show ?thesis by simp
  qed
  then have inc: "?inc = int W + (?P - ?P mod int W)"
    using assms(6,8) ph by (simp add: inc_at_def line_inc_def minus_mod_eq_mult_div)
  have modW: "0 < ?P mod int W" "?P mod int W < int W" using assms(9) wp pos_mod_sign[of "int W" ?P] pos_mod_bound[of "int W" ?P] by linarith+
  have big: "?P < ?inc" using inc modW by simp
  have E: "?a + ?P < sd_end d"
  proof -
    have "?P * 1 \<le> ?P * (sd_period_count d - 1)" using assms(7) pp by (intro mult_left_mono) simp_all
    then show ?thesis using assms(6) by (simp add: sd_end_def)
  qed
  have gE: "?g < sd_end d" "?g + ?inc < sd_end d" using E g inc pp modW wp by linarith+
  define t1 where "t1 = (snd (stride_cycle W T t0))\<lparr>out_done := False\<rparr>"
  have at1: "seq_at W d (?g + ?inc) t1"
    using stride_cycle_next[OF W ok at gE(2), of T] by (simp add: t1_def seq_at_def seq_regs_def lines_at_def)
  have f0: "filter (in_stride d) [?g..?g + int W - 1] = [?a]"
  proof -
    have "filter (in_stride d) [?g..?g + int W - 1] = filter (in_stride d) [?g..?a - 1] @ filter (in_stride d) [?a..?a]"
      using g wp by (intro filter_upto_eqI) auto
    also have "filter (in_stride d) [?g..?a - 1] = []" by (auto simp: filter_empty_conv in_stride_def)
    also have "in_stride d ?a" using E pp assms(6) by (simp add: in_stride_def)
    then have "[] @ filter (in_stride d) [?a..?a] = [?a]" by simp
    finally show ?thesis .
  qed
  have f1: "filter (in_stride d) [?g + ?inc..?g + ?inc + int W - 1] = [?a + ?P]"
  proof -
    have only: "x = ?a + ?P" if "in_stride d x" "?g + ?inc \<le> x" "x \<le> ?g + ?inc + int W - 1" for x
    proof (rule ccontr)
      assume ne: "x \<noteq> ?a + ?P"
      have b: "?a < x" "x < ?a + 2 * ?P" using that(2,3) g inc modW assms(8) by linarith+
      have m0: "(x - ?a) mod ?P = 0" using that(1) assms(6) pos_mod_sign[OF pp(1), of "x - ?a"] unfolding in_stride_def by linarith
      then have "?P dvd x - ?a" by (simp add: dvd_eq_mod_eq_0)
      then obtain q where q: "x - ?a = ?P * q" by (elim dvdE)
      then have "0 < ?P * q" "?P * q < ?P * 2" using b by linarith+
      then have "0 < q" "q < 2" using pp by (simp_all add: zero_less_mult_iff)
      then have "q = 1" by simp
      with q ne show False by simp
    qed
    have "in_stride d (?a + ?P)" using E pp assms(6) by (simp add: in_stride_def)
    have le: "?g + ?inc \<le> ?a + ?P" "?a + ?P \<le> ?g + ?inc + int W - 1" using g inc modW by linarith+
    have "filter (in_stride d) [?g + ?inc..?g + ?inc + int W - 1] =
        filter (in_stride d) [?a + ?P..?a + ?P] @ filter (in_stride d) [?a + ?P + 1..?a + ?P]"
    proof (rule filter_upto_eqI)
      fix x assume "in_stride d x"
      from only[OF this] le show "?g + ?inc \<le> x \<and> x \<le> ?g + ?inc + int W - 1 \<longleftrightarrow>
          ?a + ?P \<le> x \<and> x \<le> ?a + ?P \<or> ?a + ?P + 1 \<le> x \<and> x \<le> ?a + ?P" by linarith
    qed simp
    then show ?thesis using \<open>in_stride d (?a + ?P)\<close> by simp
  qed
  let ?tt = "TARGET_REG" and ?j = "nat (?a + ?P - (?g + ?inc))"
  have j: "?j < W" "int ?j = ?a + ?P - (?g + ?inc)" using g inc modW by linarith+
  obtain x0 x1 where d0: "desc t0 = d\<lparr>sd_dst_offset := x0\<rparr>" and d1: "desc t1 = d\<lparr>sd_dst_offset := x1\<rparr>"
    using at at1 by (auto simp: seq_at_def)
  have i0: "nat (?a - ?g) = W - 1" "W - 1 < W" using g wp by linarith+
  have "regIdx T t1 ?tt ?j = regIdx T t0 ?tt (W - 1)"
  proof (rule regIdx_cong[OF _ _ _ d1 d0])
    show "phase t1 ?j = phase t0 (W - 1)"
      using phases_at(1)[OF W ok at1 j(1)] j(2) ph by (simp add: algebra_simps)
    have "line t1 ?j = sc_int 32 (sd_dst_off_y d + ((?g + ?inc + int ?j - ?a) div ?P - 1))"
      using lines_behind[OF W ok at ln gE(1) big _ j(1), of T] assms(8) by (simp add: t1_def)
    also have "?g + ?inc + int ?j - ?a = ?P" using j(2) by simp
    also have "?P div ?P - 1 = 0" using pp by simp
    finally have "line t1 ?j = sc_int 32 (sd_dst_off_y d)" by simp
    moreover have "line t0 (W - 1) = sc_int 32 (sd_dst_off_y d + (?g + int (W - 1) - ?a) div ?P)"
      using ln i0(2) by (simp add: lines_at_def)
    moreover have "?g + int (W - 1) - ?a = 0" using g wp by simp
    ultimately show "line t1 ?j = line t0 (W - 1)" by simp
  qed simp
  then have b: "burst_words W (fst (stride_cycle W T t0)) = [(4 * ?a, regIdx T t0 ?tt (W - 1))]"
    "burst_words W (fst (stride_cycle W T t1)) = [(4 * (?a + ?P), regIdx T t0 ?tt (W - 1))]"
    using stride_cycle_request(1)[OF W ok at gE(1), of T] stride_cycle_request(1)[OF W ok at1 gE(2), of T] assms(5) i0(1)
    by (simp_all add: f0 f1)
  have step: "seq_thread_lt W T k u = Inr (no_effects\<lparr>eff_reqs := [fst (stride_cycle W T (u\<lparr>out_done := False\<rparr>))]\<rparr>,
      snd (stride_cycle W T (u\<lparr>out_done := False\<rparr>)))"
    if "seq_st u = CMDGEN_ST_RUNNING_STRIDE" "\<not> s_blocked u" for k u
    using that by (simp add: seq_thread_lt_def split_def Let_def)
  have u: "seq_st t = CMDGEN_ST_RUNNING_STRIDE" "\<not> s_blocked t"
    "seq_st (snd (stride_cycle W T t0)) = CMDGEN_ST_RUNNING_STRIDE" "\<not> s_blocked (snd (stride_cycle W T t0))"
    using e(3) at1 by (simp_all add: seq_at_def t1_def)
  have a: "sd_addr d = 4 * ?a" using ok by (auto simp: stride_ok_def sd_first_def)
  have "after_cycles (seq_thread_lt W T) [i] 2 s (\<lambda>effs s'.
      concat (map (burst_words W) (concat (map eff_reqs effs))) =
        [(sd_addr d, regIdx T t0 ?tt (W - 1)), (sd_addr d + 4 * ?P, regIdx T t0 ?tt (W - 1))])"
    unfolding after_cycles_def
  proof (intro allI impI)
    fix "is" :: "seq_inputs list" assume "length is = 2"
    then obtain k0 k1 where "is = [k0, k1]" by (auto simp: numeral_2_eq_2 length_Suc_conv)
    then show "\<exists>os s'. runE (seq_thread_lt W T) ([i] @ is) s = Inr (os, s') \<and>
        concat (map (burst_words W) (concat (map eff_reqs os))) =
        [(sd_addr d, regIdx T t0 ?tt (W - 1)), (sd_addr d + 4 * ?P, regIdx T t0 ?tt (W - 1))]"
      using e(1,2) b by (simp add: step[OF u(1,2), folded t0_def] step[OF u(3,4), folded t1_def] a no_effects_def distrib_left)
  qed
  then show ?thesis by blast
qed

theorem stride_line_lost_witness:
  "\<exists>target. after_cycles (seq_thread_lt 16 1024) [seq_take (sd_example 60 1 17) None] 2 seq_idle (\<lambda>effs s'.
    concat (map (burst_words 16) (concat (map eff_reqs effs))) = [(60, target), (128, target)])"
  using stride_line_lost[where b = 4 and T = 1024, OF _ _ example_ok(2) example_accepted[where x = None]]
  by (simp add: example_fields sd_first_def)

subsection \<open>Indexed transfers\<close>

text \<open>A cycle that takes the descriptor of an indexed transfer from the FIFO, with the first index \<open>x\<close> ready.\<close>

definition accepts_idxit :: "seq_inputs \<Rightarrow> seq \<Rightarrow> stride_descriptor \<Rightarrow> idx \<Rightarrow> bool" where
  "accepts_idxit i s d x \<longleftrightarrow>
    seq_st s = CMDGEN_ST_IDLE \<and> \<not> s_blocked s \<and> in_trigger i \<and> \<not> in_ref_pending i \<and> in_desc i = Some d \<and>
    (in_sched_opts i WSS_NO_PARALLEL_DRAM_SP \<longrightarrow> in_ticket_pop i = sd_ticket d) \<and>
    sd_type d = IDXIT \<and> tgt_type (sd_dst d) = TARGET_REG \<and> sd_dst_reg d \<noteq> None \<and> in_idx i = Some x"

text \<open>The word an index stands for, and its target.\<close>

definition idx_word :: "nat \<Rightarrow> stride_descriptor \<Rightarrow> idx \<Rightarrow> int \<times> reg_offset" where
  "idx_word T d x = ((sd_addr d + 4 * int (dram_off x)) mod 2 ^ 32, reg_offset_lane_row T (cam_idx x) 0)"

definition idxit_at :: "stride_descriptor \<Rightarrow> idx \<Rightarrow> seq \<Rightarrow> bool" where
  "idxit_at d x s \<longleftrightarrow> seq_st s = CMDGEN_ST_RUNNING_IDXIT \<and> \<not> s_blocked s \<and> desc s = d \<and> s_idx s = x \<and> s_addr s = idx_addr s x"

lemma filter_single_upt: "n < W \<Longrightarrow> filter (\<lambda>i. i = n) [0..<W] = [n]"
proof (induction W)
  case (Suc W)
  then show ?case by (cases "n = W") (auto simp: filter_empty_conv)
qed simp

lemma burst_words_single:
  assumes "0 \<le> k" "k < int W" and "br_addr r = a - 4 * k"
    and "br_wordmask r = (\<lambda>i. if i < W then int i = k else m i)"
    and "br_reg_offset r = (\<lambda>i. if i < W then (if int i = k then t else u) else v i)"
  shows "burst_words W r = [(a, t)]"
proof -
  have "filter (br_wordmask r) [0..<W] = filter (\<lambda>i. i = nat k) [0..<W]"
    unfolding assms(4) using assms(1,2) by (intro filter_cong) auto
  also have "\<dots> = [nat k]" using assms(1,2) by (intro filter_single_upt) auto
  finally have "filter (br_wordmask r) [0..<W] = [nat k]" .
  moreover have "nat k < W" "int (nat k) = k" using assms(1,2) by auto
  ultimately show ?thesis using assms(3,5) by (simp add: burst_words_def)
qed

lemma idxit_burst:
  assumes W: "W = 2 ^ b" "b \<le> 16" and al: "4 dvd sd_addr d" and at: "idxit_at d x s"
  defines "a \<equiv> idx_addr s x"
  shows "idxit_cycle W T None s = ([], snd (idxit_cycle W T None s)) \<and> idxit_at d x (snd (idxit_cycle W T None s))"
    and "\<exists>r s'. idxit_cycle W T (Some y) s = ([r], s') \<and> burst_words W r = [idx_word T d x] \<and>
      br_last r = dummy_last y \<and> br_target r = sd_dst d \<and> br_write r = sd_write d \<and>
      (if dummy_last y then seq_st s' = CMDGEN_ST_WAIT_ALLPRE else idxit_at d y s')"
proof -
  show "idxit_cycle W T None s = ([], snd (idxit_cycle W T None s)) \<and> idxit_at d x (snd (idxit_cycle W T None s))"
    using at by (simp add: idxit_cycle_def idxit_at_def idx_addr_def Let_def)
  have W1: "push_bit 2 (int W) = 2 ^ (b + 2)" by (simp add: W(1) push_bit_eq_mult power_add)
  let ?m = "a mod 2 ^ (b + 2)"
  have a_eq: "a = (sd_addr d + 4 * int (dram_off x)) mod 2 ^ 32"
    using at by (simp add: a_def idx_addr_def idxit_at_def push_bit_eq_mult sc_uint_def mult.commute)
  have "4 dvd a"
  proof -
    have "(4::int) dvd 2 ^ 32" by simp
    then show ?thesis unfolding a_eq using al by (simp add: dvd_mod)
  qed
  moreover have "(4::int) dvd 2 ^ (b + 2)" by (simp add: power_add)
  ultimately have "4 dvd ?m" by (simp add: dvd_mod)
  then obtain k where k: "?m = 4 * k" by (elim dvdE)
  have mb: "0 \<le> ?m" "?m < 2 ^ (b + 2)" by simp_all
  moreover have "(2::int) ^ (b + 2) = 4 * int W" by (simp add: W(1) power_add)
  ultimately have kb: "0 \<le> k" "k < int W" using k by linarith+
  have word: "drop_bit 2 (a AND (push_bit 2 (int W) - 1)) = k"
    unfolding W1 and_mask_int k by (simp add: drop_bit_eq_div)
  have al: "a AND NOT (push_bit 2 (int W) - 1) = a - 4 * k"
    unfolding W1 and_not_mask_int using k by (metis minus_mod_eq_mult_div)
  have sa: "s_addr s = a" "s_idx s = x" "desc s = d" "seq_st s = CMDGEN_ST_RUNNING_IDXIT" "\<not> s_blocked s"
    using at by (simp_all add: idxit_at_def a_def)
  have wd: "idx_word T d x = (a, reg_offset_lane_row T (cam_idx x) 0)" by (simp add: idx_word_def a_eq)
  note words = burst_words_single[OF kb, where a = a]
  show "\<exists>r s'. idxit_cycle W T (Some y) s = ([r], s') \<and> burst_words W r = [idx_word T d x] \<and>
      br_last r = dummy_last y \<and> br_target r = sd_dst d \<and> br_write r = sd_write d \<and>
      (if dummy_last y then seq_st s' = CMDGEN_ST_WAIT_ALLPRE else idxit_at d y s')"
    unfolding idxit_cycle_def Let_def option.case sa word al wd
    by (cases "dummy_last y") (simp_all add: words sa idxit_at_def idx_addr_def)
qed

lemma idxit_run:
  assumes W: "W = 2 ^ b" "b \<le> 16" and al: "4 dvd sd_addr d"
  shows "idxit_at d x s \<Longrightarrow> List.map_filter in_idx is = xs @ [l] \<Longrightarrow> \<forall>y\<in>set xs. \<not> dummy_last y \<Longrightarrow> dummy_last l \<Longrightarrow>
    in_idx (last is) \<noteq> None \<Longrightarrow>
    \<exists>effs s'. runE (seq_thread_lt W T) is s = Inr (effs, s') \<and> seq_st s' = CMDGEN_ST_WAIT_ALLPRE \<and>
      (let reqs = concat (map eff_reqs effs) in
       map (burst_words W) reqs = map (\<lambda>x. [idx_word T d x]) (x # xs) \<and>
       map br_last reqs = replicate (length xs) False @ [True] \<and>
       (\<forall>r\<in>set reqs. br_target r = sd_dst d \<and> br_write r = sd_write d))"
proof (induction "is" arbitrary: s x xs)
  case Nil
  then show ?case by (simp add: map_filter_simps)
next
  case (Cons i "is")
  have at: "idxit_at d x (s\<lparr>out_done := False\<rparr>)" using Cons.prems(1) by (simp add: idxit_at_def idx_addr_def)
  have step: "seq_thread_lt W T i s = (let (reqs, s) = idxit_cycle W T (in_idx i) (s\<lparr>out_done := False\<rparr>)
           in Inr (no_effects\<lparr>eff_idx_read := (in_idx i \<noteq> None), eff_reqs := reqs\<rparr>, s))"
    using Cons.prems(1) by (simp add: seq_thread_lt_def idxit_at_def)
  show ?case
  proof (cases "in_idx i")
    case None
    then have ne: "is \<noteq> []" and mf: "List.map_filter in_idx is = xs @ [l]" and lst: "in_idx (last is) \<noteq> None"
      using Cons.prems(2,5) by (auto simp: map_filter_simps split: if_splits)
    obtain s1 where s1: "idxit_cycle W T None (s\<lparr>out_done := False\<rparr>) = ([], s1)" "idxit_at d x s1"
      using idxit_burst(1)[OF W al at, of T] by metis
    from Cons.IH[OF s1(2) mf Cons.prems(3,4) lst] show ?thesis
      using s1(1) None by (fastforce simp: step no_effects_def Let_def)
  next
    case (Some y)
    obtain r s1 where c: "idxit_cycle W T (Some y) (s\<lparr>out_done := False\<rparr>) = ([r], s1)" "burst_words W r = [idx_word T d x]"
      "br_last r = dummy_last y" "br_target r = sd_dst d" "br_write r = sd_write d"
      "if dummy_last y then seq_st s1 = CMDGEN_ST_WAIT_ALLPRE else idxit_at d y s1"
      using idxit_burst(2)[OF W al at, of T y] by blast
    show ?thesis
    proof (cases xs)
      case Nil
      have y: "y = l" and mf: "List.map_filter in_idx is = []" using Cons.prems(2) Some Nil by (simp_all add: map_filter_simps)
      have "is = []"
      proof (rule ccontr)
        assume "is \<noteq> []"
        with Cons.prems(5) have "last is \<in> set is" "in_idx (last is) \<noteq> None" by simp_all
        then have "List.map_filter in_idx is \<noteq> []" by (force simp: map_filter_def filter_empty_conv)
        with mf show False by simp
      qed
      with c Some y Nil Cons.prems(4) show ?thesis by (simp add: step no_effects_def)
    next
      case (Cons z zs)
      have y: "z = y" and mf: "List.map_filter in_idx is = zs @ [l]"
        using Cons.prems(2) Some Cons by (simp_all add: map_filter_simps)
      then have nd: "\<not> dummy_last y" "\<forall>y\<in>set zs. \<not> dummy_last y" using Cons.prems(3) Cons by simp_all
      have "is \<noteq> []" using mf by (auto simp: map_filter_simps)
      then have lst: "in_idx (last is) \<noteq> None" using Cons.prems(5) by simp
      have "idxit_at d y s1" using c(6) nd by simp
      from Cons.IH[OF this mf nd(2) Cons.prems(4) lst] show ?thesis
        using c Some Cons y nd by (fastforce simp: step no_effects_def Let_def)
    qed
  qed
qed

lemma idxit_accepted:
  assumes "accepts_idxit i s d x"
  shows "\<exists>e s'. seq_thread_lt W T i s = Inr (e, s') \<and> eff_reqs e = [] \<and> idxit_at d x s'"
  using assms
  by (auto simp: accepts_idxit_def seq_thread_lt_def seq_fetch_def seq_init_def processTargetReg_def first_idx_def
      no_effects_def idxit_at_def idx_addr_def Let_def)

text \<open>
  C6. An indexed transfer issues one burst per index the register file pushes, in the order of the indices,
  however the pushes are spread over the cycles: the burst addresses exactly the indexed word of the buffer, and sends it
  to the lane that asked for it; only the burst of the last index is marked as the last one, and on the
  end marker the sequencer leaves the transfer.
\<close>

theorem idxit_transfers_exact:
  assumes "W = 2 ^ b" "b \<le> 16" "4 dvd sd_addr d" "accepts_idxit i s d x"
    and "List.map_filter in_idx is = xs @ [l]" "\<forall>y\<in>set xs. \<not> dummy_last y" "dummy_last l" "in_idx (last is) \<noteq> None"
  shows "\<exists>effs s'. runE (seq_thread_lt W T) (i # is) s = Inr (effs, s') \<and> seq_st s' = CMDGEN_ST_WAIT_ALLPRE \<and>
      (let reqs = concat (map eff_reqs effs) in
       map (burst_words W) reqs =
         map (\<lambda>x. [((sd_addr d + 4 * int (dram_off x)) mod 2 ^ 32, reg_offset_lane_row T (cam_idx x) 0)]) (x # xs) \<and>
       map br_last reqs = replicate (length xs) False @ [True] \<and>
       (\<forall>r\<in>set reqs. br_target r = sd_dst d \<and> br_write r = sd_write d))"
proof -
  obtain e t where e: "seq_thread_lt W T i s = Inr (e, t)" "eff_reqs e = []" "idxit_at d x t"
    using idxit_accepted[OF assms(4)] by blast
  from idxit_run[OF assms(1-3) e(3) assms(5-8), of T] show ?thesis
    unfolding idx_word_def using e(1,2) by (fastforce simp: Let_def)
qed

definition idx_example :: stride_descriptor where
  "idx_example = (sd_example 64 1 1)\<lparr>sd_type := IDXIT\<rparr>"

theorem idxit_transfers_exact_witness:
  "\<exists>effs s'. runE (seq_thread_lt 16 1024)
      [seq_take idx_example (Some (mk_idx 1024 5 7)), seq_take idx_example None, seq_take idx_example (Some (mk_idx 1024 9 2)),
       seq_take idx_example (Some idx_last)] seq_idle = Inr (effs, s') \<and>
    map (burst_words 16) (concat (map eff_reqs effs)) =
      [[(92, reg_offset_lane_row 1024 5 0)], [(72, reg_offset_lane_row 1024 9 0)]]"
proof -
  have c: "const_log2 1024 = 10" using const_log2_pow2[of 10] by simp
  have "accepts_idxit (seq_take idx_example (Some (mk_idx 1024 5 7))) seq_idle idx_example (mk_idx 1024 5 7)"
    by (simp add: accepts_idxit_def idx_example_def example_defs)
  moreover have "4 dvd sd_addr idx_example" "sd_addr idx_example = 64" by (simp_all add: idx_example_def example_fields)
  ultimately show ?thesis
    using idxit_transfers_exact[of 16 4 idx_example "seq_take idx_example (Some (mk_idx 1024 5 7))" seq_idle "mk_idx 1024 5 7"
      "[seq_take idx_example None, seq_take idx_example (Some (mk_idx 1024 9 2)), seq_take idx_example (Some idx_last)]"
      "[mk_idx 1024 9 2]" idx_last 1024]
    by (auto simp: map_filter_simps seq_take_def idx_last_def mk_idx_def Let_def c)
qed

text \<open>
  An indexed transfer of which no lane is enabled never ends: the first index the sequencer reads is then the
  end marker itself, which it takes for an index; it waits for a further one, issues nothing and stays in the
  transfer for as long as none arrives.
\<close>

lemma idxit_empty_hangs:
  assumes "W = 2 ^ b" "b \<le> 16" "4 dvd sd_addr d" "accepts_idxit i s d idx_last" "\<forall>k\<in>set is. in_idx k = None"
  shows "\<exists>effs s'. runE (seq_thread_lt W T) (i # is) s = Inr (effs, s') \<and> concat (map eff_reqs effs) = [] \<and>
    seq_st s' = CMDGEN_ST_RUNNING_IDXIT"
proof -
  obtain e t where e: "seq_thread_lt W T i s = Inr (e, t)" "eff_reqs e = []" "idxit_at d idx_last t"
    using idxit_accepted[OF assms(4)] by blast
  have "\<exists>effs s'. runE (seq_thread_lt W T) is u = Inr (effs, s') \<and> concat (map eff_reqs effs) = [] \<and>
      seq_st s' = CMDGEN_ST_RUNNING_IDXIT" if "idxit_at d idx_last u" for u
    using assms(5) that
  proof (induction "is" arbitrary: u)
    case Nil
    then show ?case by (simp add: idxit_at_def)
  next
    case (Cons k "is")
    have at: "idxit_at d idx_last (u\<lparr>out_done := False\<rparr>)" using Cons.prems(2) by (simp add: idxit_at_def idx_addr_def)
    obtain v where v: "idxit_cycle W T None (u\<lparr>out_done := False\<rparr>) = ([], v)" "idxit_at d idx_last v"
      using idxit_burst(1)[OF assms(1-3) at, of T] by metis
    have "seq_thread_lt W T k u = Inr (no_effects, v)"
      using Cons.prems v(1) by (simp add: seq_thread_lt_def idxit_at_def no_effects_def)
    moreover have "eff_reqs no_effects = []" by (simp add: no_effects_def)
    ultimately show ?case using Cons.IH[OF _ v(2)] Cons.prems(1) by fastforce
  qed
  from this[OF e(3)] show ?thesis using e(1,2) by fastforce
qed

theorem idxit_empty_hangs_witness:
  "\<forall>n. \<exists>effs s'. runE (seq_thread_lt 16 1024) (seq_take idx_example (Some idx_last) # replicate n (seq_take idx_example None))
      seq_idle = Inr (effs, s') \<and> concat (map eff_reqs effs) = [] \<and> seq_st s' = CMDGEN_ST_RUNNING_IDXIT"
  by (intro allI, rule idxit_empty_hangs[where b = 4 and d = idx_example])
    (simp_all add: accepts_idxit_def idx_example_def example_defs)

end
