(* ===== verification/Mc_Storage.thy ===== *)
theory Mc_Storage
  imports Machine Mc_Model
begin

text \<open>
  \<open>mc/control/Storage.h\<close> and \<open>mc/model/storage_ll_elem.h\<close>: the data of the DRAM, a hash table of circular
  doubly linked lists of rows, allocated on demand. The heap is explicit: a finite map from addresses to
  list elements, so that an access through a dangling pointer and one past the end of a data array are
  branches of the model (\<open>Invalid_Access\<close>). \<open>junk p\<close> is what the memory of the element \<open>p\<close> holds
  when \<open>new\<close> returns it.
\<close>

subsection \<open>List elements\<close>

record ll_elem =
  el_prev :: nat
  el_next :: nat
  el_row :: nat
  el_data :: "u32 list"

type_synonym ll_heap = "nat \<rightharpoonup> ll_elem"

definition deref :: "ll_heap \<Rightarrow> nat \<Rightarrow> ll_elem res" where
  "deref h p = (case h p of None \<Rightarrow> Inl Invalid_Access | Some e \<Rightarrow> Inr e)"

definition storage_ll_elem :: "nat \<Rightarrow> nat \<Rightarrow> u32 list \<Rightarrow> ll_elem" where
  "storage_ll_elem this r d = \<lparr>el_prev = this, el_next = this, el_row = r, el_data = d\<rparr>"

definition set_next :: "nat \<Rightarrow> nat \<Rightarrow> ll_heap \<Rightarrow> ll_heap res" where
  "set_next this elem h = bindE (deref h this) (\<lambda>e. Inr (h(this \<mapsto> e\<lparr>el_next := elem\<rparr>)))"

definition set_prev :: "nat \<Rightarrow> nat \<Rightarrow> ll_heap \<Rightarrow> ll_heap res" where
  "set_prev this elem h = bindE (deref h this) (\<lambda>e. Inr (h(this \<mapsto> e\<lparr>el_prev := elem\<rparr>)))"

definition get_next :: "nat \<Rightarrow> ll_heap \<Rightarrow> nat res" where
  "get_next this h = bindE (deref h this) (\<lambda>e. Inr (el_next e))"

definition get_prev :: "nat \<Rightarrow> ll_heap \<Rightarrow> nat res" where
  "get_prev this h = bindE (deref h this) (\<lambda>e. Inr (el_prev e))"

definition get_row :: "nat \<Rightarrow> ll_heap \<Rightarrow> nat res" where
  "get_row this h = bindE (deref h this) (\<lambda>e. Inr (el_row e))"

definition get_data :: "nat \<Rightarrow> nat \<Rightarrow> ll_heap \<Rightarrow> u32 res" where
  "get_data this offset h = bindE (deref h this) (\<lambda>e.
     if offset < length (el_data e) then Inr (el_data e ! offset) else Inl Invalid_Access)"

definition set_data :: "nat \<Rightarrow> nat \<Rightarrow> u32 \<Rightarrow> ll_heap \<Rightarrow> ll_heap res" where
  "set_data this offset val h = bindE (deref h this) (\<lambda>e.
     if offset < length (el_data e) then Inr (h(this \<mapsto> e\<lparr>el_data := (el_data e)[offset := val]\<rparr>))
     else Inl Invalid_Access)"

definition insert_after :: "nat \<Rightarrow> nat \<Rightarrow> ll_heap \<Rightarrow> ll_heap res" where
  "insert_after this elem h =
     bindE (get_next this h) (\<lambda>n. bindE (set_next elem n h) (\<lambda>h.
     bindE (set_prev elem this h) (\<lambda>h.
     bindE (get_next this h) (\<lambda>n. bindE (set_prev n elem h) (\<lambda>h.
     set_next this elem h)))))"

definition insert_before :: "nat \<Rightarrow> nat \<Rightarrow> ll_heap \<Rightarrow> ll_heap res" where
  "insert_before this elem h = bindE (get_prev this h) (\<lambda>p. insert_after p elem h)"

definition unlink :: "nat \<Rightarrow> ll_heap \<Rightarrow> ll_heap res" where
  "unlink this h =
     bindE (get_next this h) (\<lambda>n. bindE (get_prev this h) (\<lambda>p. bindE (set_prev n p h) (\<lambda>h.
     bindE (get_prev this h) (\<lambda>p. bindE (get_next this h) (\<lambda>n. bindE (set_next p n h) (\<lambda>h.
     bindE (set_next this this h) (\<lambda>h. set_prev this this h)))))))"

subsection \<open>The hash table\<close>

record storage =
  st_hashmap :: "nat \<Rightarrow> nat option"
  st_heap :: ll_heap
  st_fresh :: nat

definition Storage :: storage where
  "Storage = \<lparr>st_hashmap = (\<lambda>_. None), st_heap = Map.empty, st_fresh = 0\<rparr>"

definition alloc_row :: "dram_cfg \<Rightarrow> (nat \<Rightarrow> nat \<Rightarrow> u32) \<Rightarrow> nat \<Rightarrow> u32 list" where
  "alloc_row C junk p = map (junk p) [0..<DRAM_COLS C * (BUS_WIDTH C div 8)]"

definition insert_elem :: "nat \<Rightarrow> nat \<Rightarrow> storage \<Rightarrow> storage res" where
  "insert_elem hashmap_entry elem s =
     (case st_hashmap s hashmap_entry of
        None \<Rightarrow> Inr (s\<lparr>st_hashmap := (st_hashmap s)(hashmap_entry \<mapsto> elem)\<rparr>)
      | Some head \<Rightarrow> bindE (insert_before head elem (st_heap s)) (\<lambda>h. Inr (s\<lparr>st_heap := h\<rparr>)))"

text \<open>The loop over a list, which need not end in an arbitrary heap.\<close>

partial_function (option) find_row :: "ll_heap \<Rightarrow> nat \<Rightarrow> nat \<Rightarrow> nat \<Rightarrow> nat option res option" where
  "find_row h row head ptr =
     (case get_row ptr h of Inl e \<Rightarrow> Some (Inl e)
      | Inr r \<Rightarrow> if r = row then Some (Inr (Some ptr))
          else (case get_next ptr h of Inl e \<Rightarrow> Some (Inl e)
            | Inr p \<Rightarrow> if p = head then Some (Inr None) else find_row h row head p))"

definition hash_entry :: "dram_cfg \<Rightarrow> nat \<Rightarrow> nat \<Rightarrow> nat" where
  "hash_entry C bank row = push_bit (const_log2 (DRAM_BANKS C)) (row AND 0x7f) OR bank"

definition new_row :: "dram_cfg \<Rightarrow> (nat \<Rightarrow> nat \<Rightarrow> u32) \<Rightarrow> nat \<Rightarrow> nat \<Rightarrow> storage \<Rightarrow> (nat \<times> storage) res" where
  "new_row C junk hashmap_entry row s =
     (let ptr = st_fresh s;
          data = alloc_row C junk ptr;
          s = s\<lparr>st_heap := (st_heap s)(ptr \<mapsto> storage_ll_elem ptr row data), st_fresh := ptr + 1\<rparr>
      in bindE (insert_elem hashmap_entry ptr s) (\<lambda>s. Inr (ptr, s)))"

definition ensure_row :: "dram_cfg \<Rightarrow> (nat \<Rightarrow> nat \<Rightarrow> u32) \<Rightarrow> nat \<Rightarrow> nat \<Rightarrow> storage \<Rightarrow> (nat \<times> storage) res" where
  "ensure_row C junk bank row s =
     (let hashmap_entry = hash_entry C bank row in
      case st_hashmap s hashmap_entry of
        None \<Rightarrow> new_row C junk hashmap_entry row s
      | Some head \<Rightarrow>
          (case find_row (st_heap s) row head head of
             None \<Rightarrow> Inl Not_Returning
           | Some r \<Rightarrow> bindE r (\<lambda>found. case found of
               Some ptr \<Rightarrow> Inr (ptr, s)
             | None \<Rightarrow> new_row C junk hashmap_entry row s)))"

definition data_offset :: "dram_cfg \<Rightarrow> nat \<Rightarrow> nat \<Rightarrow> nat" where
  "data_offset C col dq_word = ((col * (BUS_WIDTH C div 8)) OR dq_word) mod 2 ^ 32"

text \<open>The arguments of the two accessors are truncated to their parameter types.\<close>

definition get_word ::
  "dram_cfg \<Rightarrow> (nat \<Rightarrow> nat \<Rightarrow> u32) \<Rightarrow> nat \<Rightarrow> nat \<Rightarrow> nat \<Rightarrow> nat \<Rightarrow> storage \<Rightarrow> (u32 \<times> storage) res" where
  "get_word C junk bank row col dq_word s =
     bindE (ensure_row C junk (bank mod 2 ^ const_log2 (DRAM_BANKS C)) (row mod 2 ^ 20) s) (\<lambda>(elem, s).
     bindE (get_data elem (data_offset C (col mod 2 ^ 20) (dq_word mod 2 ^ 10)) (st_heap s)) (\<lambda>v. Inr (v, s)))"

definition set_word ::
  "dram_cfg \<Rightarrow> (nat \<Rightarrow> nat \<Rightarrow> u32) \<Rightarrow> nat \<Rightarrow> nat \<Rightarrow> nat \<Rightarrow> nat \<Rightarrow> u32 \<Rightarrow> storage \<Rightarrow> storage res" where
  "set_word C junk bank row col dq_word val s =
     bindE (ensure_row C junk (bank mod 2 ^ const_log2 (DRAM_BANKS C)) (row mod 2 ^ 20) s) (\<lambda>(elem, s).
     bindE (set_data elem (data_offset C (col mod 2 ^ 20) (dq_word mod 2 ^ 10)) val (st_heap s)) (\<lambda>h.
     Inr (s\<lparr>st_heap := h\<rparr>)))"

text \<open>
  The destructor. The comparison of the two pointers after \<open>delete elem\<close> does not access the memory.
\<close>

definition delete_elem :: "nat \<Rightarrow> ll_heap \<Rightarrow> ll_heap res" where
  "delete_elem elem h = bindE (deref h elem) (\<lambda>_. Inr (h(elem := None)))"

partial_function (option) free_list :: "nat \<Rightarrow> ll_heap \<Rightarrow> ll_heap res option" where
  "free_list elem h =
     (case get_next elem h of Inl e \<Rightarrow> Some (Inl e)
      | Inr nxt \<Rightarrow> (case bindE (unlink elem h) (delete_elem elem) of Inl e \<Rightarrow> Some (Inl e)
          | Inr h \<Rightarrow> if elem \<noteq> nxt then free_list nxt h else Some (Inr h)))"

primrec free_lists :: "nat \<Rightarrow> storage \<Rightarrow> ll_heap res" where
  "free_lists 0 s = Inr (st_heap s)"
| "free_lists (Suc i) s = bindE (free_lists i s) (\<lambda>h.
     case st_hashmap s i of None \<Rightarrow> Inr h
     | Some elem \<Rightarrow> (case free_list elem h of None \<Rightarrow> Inl Not_Returning | Some r \<Rightarrow> r))"

definition destroy_storage :: "dram_cfg \<Rightarrow> storage \<Rightarrow> ll_heap res" where
  "destroy_storage C s = free_lists (DRAM_BANKS C * 128) s"

end
