(* ===== verification/Ring_List.thy ===== *)
theory Ring_List
  imports Mc_Storage
begin

text \<open>
  The shape of the linked lists of \<open>Storage\<close>: what the operations of a list element do to the rings of the heap,
  by the four projections of a heap on links, rows and data.
\<close>

definition nxt_at :: "ll_heap \<Rightarrow> nat \<Rightarrow> nat option" where
  "nxt_at h p = map_option el_next (h p)"

definition prv_at :: "ll_heap \<Rightarrow> nat \<Rightarrow> nat option" where
  "prv_at h p = map_option el_prev (h p)"

definition row_at :: "ll_heap \<Rightarrow> nat \<Rightarrow> nat option" where
  "row_at h p = map_option el_row (h p)"

definition data_at :: "ll_heap \<Rightarrow> nat \<Rightarrow> u32 list option" where
  "data_at h p = map_option el_data (h p)"

lemmas heap_proj = nxt_at_def prv_at_def row_at_def data_at_def

definition linked :: "ll_heap \<Rightarrow> nat \<Rightarrow> nat \<Rightarrow> bool" where
  "linked h a b \<longleftrightarrow> nxt_at h a = Some b \<and> prv_at h b = Some a"

definition ring :: "ll_heap \<Rightarrow> nat list \<Rightarrow> bool" where
  "ring h ps \<longleftrightarrow> ps \<noteq> [] \<and> distinct ps \<and> successively (linked h) (ps @ [hd ps])"

lemma ring_cong:
  assumes "\<And>p. p \<in> set ps \<Longrightarrow> nxt_at h' p = nxt_at h p" "\<And>p. p \<in> set ps \<Longrightarrow> prv_at h' p = prv_at h p"
  shows "ring h' ps \<longleftrightarrow> ring h ps"
proof (cases "ps = []")
  case False
  then have "successively (linked h') (ps @ [hd ps]) \<longleftrightarrow> successively (linked h) (ps @ [hd ps])"
    using assms by (intro successively_cong) (auto simp: linked_def)
  then show ?thesis by (simp add: ring_def)
qed (simp add: ring_def)

lemma ring_next:
  assumes "ring h ps" "ps = xs @ p # ys"
  shows "nxt_at h p = Some (if ys = [] then hd ps else hd ys)"
    "prv_at h (if ys = [] then hd ps else hd ys) = Some p"
proof -
  have "linked h p (hd (ys @ [hd ps]))"
    using assms by (auto simp: ring_def successively_append_iff successively_Cons)
  then show "nxt_at h p = Some (if ys = [] then hd ps else hd ys)"
    "prv_at h (if ys = [] then hd ps else hd ys) = Some p"
    by (cases ys; simp add: linked_def)+
qed

lemma ring_alloc:
  assumes "ring h ps" "p \<in> set ps"
  obtains e where "h p = Some e"
proof -
  obtain xs ys where "ps = xs @ p # ys" using assms(2) by (auto simp: in_set_conv_decomp)
  from ring_next(1)[OF assms(1) this] show thesis using that by (auto simp: nxt_at_def)
qed

lemma ring_single: "h p = Some e \<Longrightarrow> el_next e = p \<Longrightarrow> el_prev e = p \<Longrightarrow> ring h [p]"
  by (simp add: ring_def linked_def heap_proj)

text \<open>The search goes through the ring once.\<close>

lemma find_row_ring:
  assumes "ring h ps" "ps = xs @ p # ys"
  shows "find_row h row (hd ps) p = Some (Inr (List.find (\<lambda>q. row_at h q = Some row) (p # ys)))"
  using assms(2)
proof (induction ys arbitrary: xs p)
  case Nil
  obtain e where e: "h p = Some e" using ring_alloc[OF assms(1), of p] Nil by auto
  have "el_next e = hd ps" using ring_next(1)[OF assms(1) Nil] e by (simp add: nxt_at_def)
  with e show ?case
    by (subst find_row.simps) (simp add: get_row_def get_next_def deref_def row_at_def)
next
  case (Cons q ys)
  obtain e where e: "h p = Some e" using ring_alloc[OF assms(1), of p] Cons.prems by auto
  have n: "el_next e = q" using ring_next(1)[OF assms(1) Cons.prems] e by (simp add: nxt_at_def)
  have "hd ps \<noteq> q" using assms(1) Cons.prems unfolding ring_def by (cases xs) auto
  with e n Cons.IH[of "xs @ [p]" q] Cons.prems show ?case
    by (subst find_row.simps) (auto simp: get_row_def get_next_def deref_def row_at_def)
qed

text \<open>What the operations do to the projections.\<close>

lemma insert_after_heap:
  assumes "h this = Some t" "h elem = Some e" "h (el_next t) = Some n" "elem \<noteq> this" "elem \<noteq> el_next t"
  obtains h' where "insert_after this elem h = Inr h'"
    "nxt_at h' = (nxt_at h)(elem := nxt_at h this, this := Some elem)"
    "prv_at h' = (prv_at h)(elem := Some this, el_next t := Some elem)"
    "row_at h' = row_at h" "data_at h' = data_at h"
proof
  let ?h1 = "h(elem \<mapsto> e\<lparr>el_next := el_next t, el_prev := this\<rparr>)"
  let ?h2 = "?h1(el_next t \<mapsto> (the (?h1 (el_next t)))\<lparr>el_prev := elem\<rparr>)"
  let ?h3 = "?h2(this \<mapsto> (the (?h2 this))\<lparr>el_next := elem\<rparr>)"
  show "insert_after this elem h = Inr ?h3"
    using assms by (cases "el_next t = this") (simp_all add: insert_after_def get_next_def set_next_def set_prev_def deref_def)
  show "nxt_at ?h3 = (nxt_at h)(elem := nxt_at h this, this := Some elem)"
    "prv_at ?h3 = (prv_at h)(elem := Some this, el_next t := Some elem)"
    "row_at ?h3 = row_at h" "data_at ?h3 = data_at h"
    using assms by (auto simp: heap_proj fun_eq_iff)
qed

lemma insert_before_ring:
  assumes r: "ring h ps" and e: "h elem = Some e" "elem \<notin> set ps"
  obtains h' where "insert_before (hd ps) elem h = Inr h'" "ring h' (ps @ [elem])"
    "\<And>q. q \<notin> set ps \<Longrightarrow> q \<noteq> elem \<Longrightarrow> nxt_at h' q = nxt_at h q \<and> prv_at h' q = prv_at h q"
    "row_at h' = row_at h" "data_at h' = data_at h"
proof -
  let ?hd = "hd ps" and ?l = "last ps"
  have ne: "ps \<noteq> []" using r by (simp add: ring_def)
  then have mem: "?hd \<in> set ps" "?l \<in> set ps" by simp_all
  have l: "nxt_at h ?l = Some ?hd" "prv_at h ?hd = Some ?l"
    using ring_next[OF r, of "butlast ps" ?l "[]"] ne by simp_all
  obtain t where t: "h ?l = Some t" using ring_alloc[OF r mem(2)] .
  obtain n where n: "h ?hd = Some n" using ring_alloc[OF r mem(1)] .
  have tn: "el_next t = ?hd" "el_prev n = ?l" using l t n by (simp_all add: heap_proj)
  obtain h' where h': "insert_after ?l elem h = Inr h'"
    "nxt_at h' = (nxt_at h)(elem := nxt_at h ?l, ?l := Some elem)"
    "prv_at h' = (prv_at h)(elem := Some ?l, ?hd := Some elem)"
    "row_at h' = row_at h" "data_at h' = data_at h"
    using insert_after_heap[OF t e(1)] n tn e(2) mem by metis
  have succ: "successively (linked h) ps" using r ne by (auto simp: ring_def successively_append_iff)
  have "successively (linked h') ps"
    unfolding successively_conv_nth
  proof (intro allI impI)
    fix i assume i: "Suc i < length ps"
    then have ln: "linked h (ps ! i) (ps ! Suc i)" using succ by (simp add: successively_conv_nth)
    have "ps ! i \<noteq> ?l" "ps ! Suc i \<noteq> ?hd"
      using r i ne by (simp_all add: ring_def last_conv_nth hd_conv_nth nth_eq_iff_index_eq)
    moreover have "ps ! i \<noteq> elem" "ps ! Suc i \<noteq> elem" using e(2) i by (auto simp: in_set_conv_nth)
    ultimately show "linked h' (ps ! i) (ps ! Suc i)" using ln h'(2,3) by (simp add: linked_def)
  qed
  moreover have "linked h' ?l elem" "linked h' elem ?hd"
    using h'(2,3) l mem e(2) by (auto simp: linked_def)
  ultimately have "ring h' (ps @ [elem])"
    using r e(2) ne by (simp add: ring_def successively_append_iff hd_append)
  moreover have "insert_before ?hd elem h = Inr h'"
    using h'(1) n tn by (simp add: insert_before_def get_prev_def deref_def)
  moreover have "nxt_at h' q = nxt_at h q \<and> prv_at h' q = prv_at h q" if "q \<notin> set ps" "q \<noteq> elem" for q
    using that h'(2,3) mem by auto
  ultimately show thesis using that h'(4,5) by blast
qed

text \<open>Taking the first element out and deleting it leaves the ring of the others; the destructor frees a whole ring.\<close>

lemma heap_eqI:
  assumes "nxt_at h' q = nxt_at h q" "prv_at h' q = prv_at h q" "row_at h' q = row_at h q" "data_at h' q = data_at h q"
  shows "h' q = h q"
  using assms by (cases "h' q"; cases "h q") (auto simp: heap_proj)

lemma unlink_heap:
  assumes "h this = Some t" "h (el_next t) = Some n" "h (el_prev t) = Some l" "el_next t \<noteq> this" "el_prev t \<noteq> this"
  obtains h' where "unlink this h = Inr h'"
    "nxt_at h' = (nxt_at h)(el_prev t := nxt_at h this, this := Some this)"
    "prv_at h' = (prv_at h)(el_next t := prv_at h this, this := Some this)"
    "row_at h' = row_at h" "data_at h' = data_at h"
proof
  let ?h1 = "h(el_next t \<mapsto> n\<lparr>el_prev := el_prev t\<rparr>)"
  let ?h2 = "?h1(el_prev t \<mapsto> (the (?h1 (el_prev t)))\<lparr>el_next := el_next t\<rparr>)"
  let ?h3 = "?h2(this \<mapsto> t\<lparr>el_next := this, el_prev := this\<rparr>)"
  show "unlink this h = Inr ?h3"
    using assms by (cases "el_next t = el_prev t")
      (simp_all add: unlink_def get_next_def get_prev_def set_next_def set_prev_def deref_def)
  show "nxt_at ?h3 = (nxt_at h)(el_prev t := nxt_at h this, this := Some this)"
    "prv_at ?h3 = (prv_at h)(el_next t := prv_at h this, this := Some this)"
    "row_at ?h3 = row_at h" "data_at ?h3 = data_at h"
    using assms by (auto simp: heap_proj fun_eq_iff)
qed

lemma unlink_ring:
  assumes r: "ring h (p # q # ps)"
  obtains h' where "bindE (unlink p h) (delete_elem p) = Inr h'" "get_next p h = Inr q" "ring h' (q # ps)"
    "h' p = None" "\<And>x. x \<notin> set (p # q # ps) \<Longrightarrow> h' x = h x" "dom h' = dom h - {p}"
proof -
  let ?l = "last (q # ps)"
  have d: "distinct (p # q # ps)" using r by (simp add: ring_def)
  obtain t where t: "h p = Some t" using ring_alloc[OF r, of p] by auto
  obtain n where n: "h q = Some n" using ring_alloc[OF r, of q] by auto
  have lm: "?l \<in> set (q # ps)" by (rule last_in_set) simp
  then obtain l where l: "h ?l = Some l" using ring_alloc[OF r, of ?l] by (metis list.set_intros(2))
  have "nxt_at h p = Some q" using ring_next(1)[OF r, of "[]"] by simp
  moreover have "prv_at h p = Some ?l" using ring_next(2)[OF r, of "p # butlast (q # ps)" ?l "[]"] by simp
  ultimately have tn: "el_next t = q" "el_prev t = ?l" using t by (simp_all add: heap_proj)
  have ne: "q \<noteq> p" "?l \<noteq> p" using d lm by (auto simp del: last.simps)
  obtain h1 where h1: "unlink p h = Inr h1" "nxt_at h1 = (nxt_at h)(?l := Some q, p := Some p)"
    "prv_at h1 = (prv_at h)(q := Some ?l, p := Some p)" "row_at h1 = row_at h" "data_at h1 = data_at h"
    using unlink_heap[of h p t n l] t n l ne tn \<open>nxt_at h p = Some q\<close> \<open>prv_at h p = Some ?l\<close> by metis
  have dom: "dom h1 = dom h" using h1(4) by (auto simp: row_at_def fun_eq_iff dom_def) (metis option.map_disc_iff not_None_eq)+
  let ?h = "h1(p := None)"
  have "successively (linked h) ((q # ps) @ [p])" using r by (simp add: ring_def)
  then have succ: "successively (linked h) (q # ps)" by (simp only: successively_append_iff)
  have proj: "x \<noteq> p \<Longrightarrow> nxt_at ?h x = nxt_at h1 x \<and> prv_at ?h x = prv_at h1 x" for x by (simp add: heap_proj)
  have "successively (linked ?h) (q # ps)"
    unfolding successively_conv_nth
  proof (intro allI impI)
    fix i assume i: "Suc i < length (q # ps)"
    let ?a = "(q # ps) ! i" and ?b = "(q # ps) ! Suc i"
    have ln: "linked h ?a ?b" using succ i by (simp add: successively_conv_nth)
    have ds: "distinct (q # ps)" using d by simp
    have "?a \<noteq> ?l" "?b \<noteq> q"
      using i ds nth_eq_iff_index_eq[OF ds, of i "length ps"] nth_eq_iff_index_eq[OF ds, of "Suc i" 0]
      by (simp_all add: last_conv_nth del: nth_Cons_Suc last.simps)
    moreover have "?a \<in> set (q # ps)" "?b \<in> set (q # ps)" using i by (meson Suc_lessD nth_mem)+
    then have "?a \<noteq> p" "?b \<noteq> p" using d by auto
    ultimately show "linked ?h ?a ?b" using ln proj[of ?a] proj[of ?b] by (simp add: linked_def h1(2,3))
  qed
  moreover have "linked ?h ?l q" using ne proj[of ?l] proj[of q] by (simp add: linked_def h1(2,3))
  ultimately have "ring ?h (q # ps)"
    using d unfolding ring_def by (simp add: successively_append_iff del: last.simps append_Cons)
  moreover have "bindE (unlink p h) (delete_elem p) = Inr ?h"
  proof -
    obtain x where "h1 p = Some x" using t dom by (metis domD domI)
    then show ?thesis by (simp add: h1(1) delete_elem_def deref_def)
  qed
  moreover have "?h x = h x" if "x \<notin> set (p # q # ps)" for x
  proof -
    have "x \<noteq> p" "x \<noteq> q" "x \<noteq> ?l" using that lm by (auto simp del: last.simps)
    then show ?thesis using heap_eqI[of h1 x h] by (simp add: h1(2-5))
  qed
  moreover have "get_next p h = Inr q" using t tn by (simp add: get_next_def deref_def)
  ultimately show thesis using that dom by simp
qed

lemma free_list_ring:
  assumes "ring h (p # ps)"
  shows "\<exists>h'. free_list p h = Some (Inr h') \<and> dom h' = dom h - set (p # ps) \<and> (\<forall>x. x \<notin> set (p # ps) \<longrightarrow> h' x = h x)"
  using assms
proof (induction ps arbitrary: p h)
  case Nil
  obtain t where t: "h p = Some t" using ring_alloc[OF Nil, of p] by auto
  then have "el_next t = p" "el_prev t = p"
    using ring_next[OF Nil, of "[]" p "[]"] by (simp_all add: heap_proj)
  with t show ?case
    by (subst free_list.simps)
      (auto simp: unlink_def get_next_def get_prev_def set_next_def set_prev_def deref_def delete_elem_def)
next
  case (Cons q ps)
  obtain h1 where h1: "bindE (unlink p h) (delete_elem p) = Inr h1" "get_next p h = Inr q" "ring h1 (q # ps)"
    "h1 p = None" "\<And>x. x \<notin> set (p # q # ps) \<Longrightarrow> h1 x = h x" "dom h1 = dom h - {p}"
    using unlink_ring[OF Cons.prems] by metis
  obtain h' where h': "free_list q h1 = Some (Inr h')" "dom h' = dom h1 - set (q # ps)"
    "\<And>x. x \<notin> set (q # ps) \<Longrightarrow> h' x = h1 x"
    using Cons.IH[OF h1(3)] by blast
  have "p \<noteq> q" using Cons.prems by (simp add: ring_def)
  then have "free_list p h = Some (Inr h')"
    by (subst free_list.simps) (simp add: h1(1,2) h'(1))
  moreover have "dom h' = dom h - set (p # q # ps)" using h'(2) h1(6) by auto
  moreover have "h' x = h x" if "x \<notin> set (p # q # ps)" for x
    using that h'(3)[of x] h1(5)[of x] by simp
  ultimately show ?case by blast
qed

end
