(* ===== verification/Storage_Props.thy ===== *)
theory Storage_Props
  imports Ring_List
begin

text \<open>
  What \<open>Storage\<close> promises: it is a map from rows to their data that grows on demand. The invariant
  \<open>storage_at B\<close> names the ring of every bucket.
\<close>

subsection \<open>The invariant\<close>

definition storage_at :: "dram_cfg \<Rightarrow> (nat \<Rightarrow> nat list) \<Rightarrow> storage \<Rightarrow> bool" where
  "storage_at C B s \<longleftrightarrow>
    (\<forall>k. st_hashmap s k = (if B k = [] then None else Some (hd (B k)))) \<and>
    (\<forall>k. B k \<noteq> [] \<longrightarrow> k < DRAM_BANKS C * 128 \<and> ring (st_heap s) (B k)) \<and>
    (\<forall>k j. k \<noteq> j \<longrightarrow> set (B k) \<inter> set (B j) = {}) \<and>
    dom (st_heap s) = (\<Union>k. set (B k)) \<and> (\<forall>p\<in>dom (st_heap s). p < st_fresh s) \<and>
    (\<forall>k. distinct (map (row_at (st_heap s)) (B k))) \<and>
    (\<forall>p d. data_at (st_heap s) p = Some d \<longrightarrow> length d = DRAM_COLS C * (BUS_WIDTH C div 8))"

definition storage_inv :: "dram_cfg \<Rightarrow> storage \<Rightarrow> bool" where
  "storage_inv C s \<longleftrightarrow> (\<exists>B. storage_at C B s)"

definition cfg_ok :: "dram_cfg \<Rightarrow> bool" where
  "cfg_ok C \<longleftrightarrow> DRAM_BANKS C = 2 ^ const_log2 (DRAM_BANKS C)"

lemma hash_entry_eq:
  assumes "cfg_ok C" "bank < DRAM_BANKS C"
  shows "hash_entry C bank row = (row mod 128) * DRAM_BANKS C + bank"
proof -
  have "row AND 0x7f = row mod 128" using and_mask_nat[of row 7] by simp
  moreover have "bank < 2 ^ const_log2 (DRAM_BANKS C)" using assms by (simp add: cfg_ok_def)
  ultimately have "hash_entry C bank row = (row mod 128) * 2 ^ const_log2 (DRAM_BANKS C) + bank"
    by (simp add: hash_entry_def push_bit_eq_mult or_disjoint_add_nat)
  then show ?thesis using assms(1) by (simp only: cfg_ok_def)
qed

lemma hash_entry_less:
  assumes "cfg_ok C" "bank < DRAM_BANKS C"
  shows "hash_entry C bank row < DRAM_BANKS C * 128"
proof -
  have "(row mod 128) * DRAM_BANKS C \<le> 127 * DRAM_BANKS C" by (intro mult_right_mono) simp_all
  then show ?thesis unfolding hash_entry_eq[OF assms] using assms(2) by linarith
qed

lemma hash_entry_bank:
  assumes "cfg_ok C" "b < DRAM_BANKS C" "b' < DRAM_BANKS C" "hash_entry C b r = hash_entry C b' r'"
  shows "b = b'"
proof -
  have "((r mod 128) * DRAM_BANKS C + b) mod DRAM_BANKS C = ((r' mod 128) * DRAM_BANKS C + b') mod DRAM_BANKS C"
    using assms(4) by (simp only: hash_entry_eq[OF assms(1,2)] hash_entry_eq[OF assms(1,3)])
  then show ?thesis using assms(2,3) by simp
qed

subsection \<open>The map it stands for\<close>

definition row_of :: "dram_cfg \<Rightarrow> storage \<Rightarrow> nat \<Rightarrow> nat \<Rightarrow> nat option" where
  "row_of C s bank row =
    (case st_hashmap s (hash_entry C bank row) of None \<Rightarrow> None
     | Some head \<Rightarrow> (case find_row (st_heap s) row head head of Some (Inr r) \<Rightarrow> r | _ \<Rightarrow> None))"

definition storage_abs :: "dram_cfg \<Rightarrow> storage \<Rightarrow> nat \<times> (nat \<times> nat \<rightharpoonup> u32 list)" where
  "storage_abs C s =
    (st_fresh s, \<lambda>(bank, row). if bank < DRAM_BANKS C \<and> row < 2 ^ 20
       then Option.bind (row_of C s bank row) (data_at (st_heap s)) else None)"

lemma find_bucket:
  assumes "storage_at C B s"
  shows "(case st_hashmap s k of None \<Rightarrow> Some (Inr None) | Some head \<Rightarrow> find_row (st_heap s) row head head) =
    Some (Inr (List.find (\<lambda>q. row_at (st_heap s) q = Some row) (B k)))"
proof (cases "B k")
  case (Cons p ps)
  have "B k \<noteq> [] \<longrightarrow> ring (st_heap s) (B k)" using assms unfolding storage_at_def by blast
  with Cons have "ring (st_heap s) (p # ps)" by simp
  from find_row_ring[OF this, of "[]"] show ?thesis using assms Cons by (simp add: storage_at_def)
qed (use assms in \<open>simp add: storage_at_def\<close>)

lemma row_of_eq:
  assumes "storage_at C B s"
  shows "row_of C s bank row = List.find (\<lambda>q. row_at (st_heap s) q = Some row) (B (hash_entry C bank row))"
  using find_bucket[OF assms, where k = "hash_entry C bank row" and row = row] unfolding row_of_def
  by (cases "st_hashmap s (hash_entry C bank row)") simp_all

lemma row_of_iff:
  assumes "storage_at C B s"
  shows "row_of C s bank row = Some p \<longleftrightarrow> p \<in> set (B (hash_entry C bank row)) \<and> row_at (st_heap s) p = Some row"
proof
  assume "row_of C s bank row = Some p"
  then show "p \<in> set (B (hash_entry C bank row)) \<and> row_at (st_heap s) p = Some row"
    unfolding row_of_eq[OF assms] by (auto simp: find_Some_iff)
next
  let ?ps = "B (hash_entry C bank row)"
  assume p: "p \<in> set ?ps \<and> row_at (st_heap s) p = Some row"
  have "inj_on (row_at (st_heap s)) (set ?ps)" using assms by (simp add: storage_at_def distinct_map)
  moreover obtain q where q: "List.find (\<lambda>q. row_at (st_heap s) q = Some row) ?ps = Some q"
    using p by (cases "List.find (\<lambda>q. row_at (st_heap s) q = Some row) ?ps") (auto simp: find_None_iff)
  moreover from q have "q \<in> set ?ps" "row_at (st_heap s) q = Some row" by (auto simp: find_Some_iff)
  ultimately have "q = p" using p inj_onD[of "row_at (st_heap s)" "set ?ps" q p] by simp
  with q show "row_of C s bank row = Some p" unfolding row_of_eq[OF assms] by simp
qed

lemma row_of_None:
  assumes "storage_at C B s"
  shows "row_of C s bank row = None \<longleftrightarrow> (\<forall>p\<in>set (B (hash_entry C bank row)). row_at (st_heap s) p \<noteq> Some row)"
  unfolding row_of_eq[OF assms] by (auto simp: find_None_iff)

lemma row_of_data:
  assumes "storage_at C B s" "row_of C s bank row = Some p"
  obtains d where "data_at (st_heap s) p = Some d" "length d = DRAM_COLS C * (BUS_WIDTH C div 8)"
proof -
  have "p \<in> dom (st_heap s)" using assms row_of_iff[OF assms(1)] by (auto simp: storage_at_def)
  then obtain d where d: "data_at (st_heap s) p = Some d" by (auto simp: data_at_def)
  moreover have "length d = DRAM_COLS C * (BUS_WIDTH C div 8)" using d assms(1) unfolding storage_at_def by blast
  ultimately show thesis by (rule that)
qed

text \<open>The specification: a map that allocates the missing row, whose data are what \<open>new\<close> returned.\<close>

definition mem_ensure ::
  "dram_cfg \<Rightarrow> (nat \<Rightarrow> nat \<Rightarrow> u32) \<Rightarrow> nat \<times> nat \<Rightarrow> nat \<times> (nat \<times> nat \<rightharpoonup> u32 list) \<Rightarrow> nat \<times> (nat \<times> nat \<rightharpoonup> u32 list)" where
  "mem_ensure C junk k nm =
    (case nm of (n, m) \<Rightarrow> if k \<in> dom m then (n, m) else (n + 1, m(k \<mapsto> alloc_row C junk n)))"

lemma new_row_props:
  assumes C: "cfg_ok C" and at: "storage_at C B s" and b: "bank < DRAM_BANKS C" and r: "row < 2 ^ 20"
    and none: "row_of C s bank row = None"
  defines "k \<equiv> hash_entry C bank row"
  shows "\<exists>s'. new_row C junk k row s = Inr (st_fresh s, s') \<and> storage_at C (B(k := B k @ [st_fresh s])) s' \<and>
    st_fresh s' = st_fresh s + 1 \<and> row_at (st_heap s') = (row_at (st_heap s))(st_fresh s \<mapsto> row) \<and>
    data_at (st_heap s') = (data_at (st_heap s))(st_fresh s \<mapsto> alloc_row C junk (st_fresh s))"
proof -
  let ?p = "st_fresh s"
  let ?e = "storage_ll_elem ?p row (alloc_row C junk ?p)"
  let ?h = "(st_heap s)(?p \<mapsto> ?e)"
  have fresh: "?p \<notin> set (B j)" for j using at by (fastforce simp: storage_at_def)
  have proj: "row_at ?h = (row_at (st_heap s))(?p \<mapsto> row)"
    "data_at ?h = (data_at (st_heap s))(?p \<mapsto> alloc_row C junk ?p)"
    by (auto simp: heap_proj storage_ll_elem_def fun_eq_iff)
  have rings: "ring ?h (B j)" if "B j \<noteq> []" for j
    using that at fresh[of j] by (subst ring_cong[where h = "st_heap s"]) (auto simp: storage_at_def heap_proj)
  obtain s' where s': "insert_elem k ?p (s\<lparr>st_heap := ?h, st_fresh := ?p + 1\<rparr>) = Inr s'"
    "st_hashmap s' = (\<lambda>j. if (B(k := B k @ [?p])) j = [] then None else Some (hd ((B(k := B k @ [?p])) j)))"
    "st_fresh s' = ?p + 1" "row_at (st_heap s') = row_at ?h" "data_at (st_heap s') = data_at ?h"
    "ring (st_heap s') (B k @ [?p])"
    "\<And>q. q \<notin> set (B k) \<Longrightarrow> q \<noteq> ?p \<Longrightarrow> nxt_at (st_heap s') q = nxt_at ?h q \<and> prv_at (st_heap s') q = prv_at ?h q"
  proof (cases "B k = []")
    case True
    then have "st_hashmap s k = None" using at by (simp add: storage_at_def)
    moreover have "ring ?h [?p]" by (rule ring_single[of _ _ ?e]) (simp_all add: storage_ll_elem_def)
    ultimately show thesis
      using True at that[of "s\<lparr>st_heap := ?h, st_fresh := ?p + 1, st_hashmap := (st_hashmap s)(k \<mapsto> ?p)\<rparr>"]
      by (simp add: insert_elem_def storage_at_def fun_eq_iff)
  next
    case False
    then have h: "st_hashmap s k = Some (hd (B k))" using at by (simp add: storage_at_def)
    obtain h' where h': "insert_before (hd (B k)) ?p ?h = Inr h'" "ring h' (B k @ [?p])"
      "\<And>q. q \<notin> set (B k) \<Longrightarrow> q \<noteq> ?p \<Longrightarrow> nxt_at h' q = nxt_at ?h q \<and> prv_at h' q = prv_at ?h q"
      "row_at h' = row_at ?h" "data_at h' = data_at ?h"
      using insert_before_ring[OF rings[OF False] _ fresh[of k]] by (metis fun_upd_same)
    show thesis
      using that[of "s\<lparr>st_heap := h', st_fresh := ?p + 1\<rparr>"] h h' False at
      by (auto simp: insert_elem_def storage_at_def fun_eq_iff)
  qed
  have nr: "new_row C junk k row s = Inr (?p, s')" using s'(1) by (simp add: new_row_def Let_def)
  have dom_eq: "dom h = dom (row_at h)" for h by (auto simp: row_at_def)
  have dm: "dom (st_heap s') = insert ?p (dom (st_heap s))"
    unfolding dom_eq[of "st_heap s'"] dom_eq[of "st_heap s"] s'(4) proj(1) by simp
  have "storage_at C (B(k := B k @ [?p])) s'"
    unfolding storage_at_def
  proof (intro conjI allI impI ballI)
    show "st_hashmap s' j = (if (B(k := B k @ [?p])) j = [] then None else Some (hd ((B(k := B k @ [?p])) j)))" for j
      unfolding s'(2) ..
    show "j < DRAM_BANKS C * 128" if "(B(k := B k @ [?p])) j \<noteq> []" for j
      using that hash_entry_less[OF C b] at by (cases "j = k") (auto simp: storage_at_def k_def)
    show "ring (st_heap s') ((B(k := B k @ [?p])) j)" if "(B(k := B k @ [?p])) j \<noteq> []" for j
    proof (cases "j = k")
      case False
      then have "set (B j) \<inter> set (B k) = {}" using at by (simp add: storage_at_def)
      with False that show ?thesis using rings[of j] s'(7) fresh[of j]
        by (subst ring_cong[where h = ?h]) auto
    qed (use s'(6) in simp)
    show "set ((B(k := B k @ [?p])) i) \<inter> set ((B(k := B k @ [?p])) j) = {}" if "i \<noteq> j" for i j
      using that fresh at by (auto simp: storage_at_def)
    show "dom (st_heap s') = (\<Union>j. set ((B(k := B k @ [?p])) j))"
    proof -
      have "(\<Union>j. set ((B(k := B k @ [?p])) j)) = insert ?p (\<Union>j. set (B j))"
        by (simp add: fun_upd_def set_eq_iff) metis
      then show ?thesis using at unfolding dm by (simp add: storage_at_def)
    qed
    show "q < st_fresh s'" if "q \<in> dom (st_heap s')" for q
    proof -
      have "q = ?p \<or> q < ?p" using that at unfolding dm storage_at_def by blast
      then show ?thesis unfolding s'(3) by auto
    qed
    show "distinct (map (row_at (st_heap s')) ((B(k := B k @ [?p])) j))" for j
    proof -
      have same: "map (row_at (st_heap s')) (B i) = map (row_at (st_heap s)) (B i)" for i
        using fresh[of i] unfolding s'(4) proj(1) by simp
      have "\<forall>i. distinct (map (row_at (st_heap s)) (B i))" using at unfolding storage_at_def by blast
      moreover have "Some row \<notin> row_at (st_heap s) ` set (B k)"
        using none unfolding row_of_None[OF at] k_def by auto
      moreover have "row_at (st_heap s') ?p = Some row" by (simp add: s'(4) proj(1))
      ultimately show ?thesis by (cases "j = k") (simp_all add: same del: map_eq_conv)
    qed
    show "length d = DRAM_COLS C * (BUS_WIDTH C div 8)" if "data_at (st_heap s') q = Some d" for q d
    proof (cases "q = ?p")
      case True
      then show ?thesis using that unfolding s'(5) proj(2) by (auto simp: alloc_row_def)
    next
      case False
      then have "data_at (st_heap s) q = Some d" using that unfolding s'(5) proj(2) by simp
      then show ?thesis using at unfolding storage_at_def by blast
    qed
  qed
  then show ?thesis
    using nr s'(3) s'(4)[unfolded proj(1)] s'(5)[unfolded proj(2)] by (intro exI[of _ s'] conjI)
qed

lemma ensure_row_props:
  assumes C: "cfg_ok C" and at: "storage_at C B s" and b: "bank < DRAM_BANKS C" and r: "row < 2 ^ 20"
  obtains p s' B' where "ensure_row C junk bank row s = Inr (p, s')" "storage_at C B' s'"
    "row_of C s' bank row = Some p" "storage_abs C s' = mem_ensure C junk (bank, row) (storage_abs C s)"
proof (cases "row_of C s bank row")
  case (Some p)
  then have "ensure_row C junk bank row s = Inr (p, s)"
    using find_bucket[OF at, where k = "hash_entry C bank row" and row = row]
    by (cases "st_hashmap s (hash_entry C bank row)")
      (auto simp: ensure_row_def Let_def row_of_def)
  moreover have "mem_ensure C junk (bank, row) (storage_abs C s) = storage_abs C s"
    using row_of_data[OF at Some] Some b r by (auto simp: mem_ensure_def storage_abs_def dom_def)
  ultimately show thesis using that at Some by metis
next
  case None
  let ?k = "hash_entry C bank row" and ?p = "st_fresh s"
  obtain s' where s': "new_row C junk ?k row s = Inr (?p, s')" "storage_at C (B(?k := B ?k @ [?p])) s'"
    "st_fresh s' = ?p + 1" "row_at (st_heap s') = (row_at (st_heap s))(?p \<mapsto> row)"
    "data_at (st_heap s') = (data_at (st_heap s))(?p \<mapsto> alloc_row C junk ?p)"
    using new_row_props[OF C at b r None] by blast
  have ens: "ensure_row C junk bank row s = Inr (?p, s')"
    using find_bucket[OF at, where k = ?k and row = row] None s'(1)
    by (cases "st_hashmap s ?k") (auto simp: ensure_row_def Let_def row_of_def)
  have rp: "row_of C s' bank row = Some ?p"
    unfolding row_of_iff[OF s'(2)] s'(4) by simp
  have other: "row_of C s' b' r' = row_of C s b' r'" if "b' < DRAM_BANKS C" "(b', r') \<noteq> (bank, row)" for b' r'
  proof -
    have fresh: "?p \<notin> set (B j)" for j using at by (fastforce simp: storage_at_def)
    have "r' = row \<Longrightarrow> hash_entry C b' r' \<noteq> ?k" using that hash_entry_bank[OF C that(1) b] by blast
    moreover have "row_of C s' b' r' = Some q \<longleftrightarrow> row_of C s b' r' = Some q" for q
      unfolding row_of_iff[OF s'(2)] row_of_iff[OF at] s'(4) using calculation fresh[of "hash_entry C b' r'"] by auto
    ultimately show ?thesis by (metis not_None_eq)
  qed
  have fresh: "row_of C s b' r' \<noteq> Some ?p" for b' r'
    unfolding row_of_iff[OF at] using at by (fastforce simp: storage_at_def)
  have "storage_abs C s' = mem_ensure C junk (bank, row) (storage_abs C s)"
  proof -
    have "(bank, row) \<notin> dom (snd (storage_abs C s))" by (simp add: storage_abs_def None domIff)
    moreover have "snd (storage_abs C s') x = ((snd (storage_abs C s))((bank, row) \<mapsto> alloc_row C junk ?p)) x" for x
    proof (cases "x = (bank, row)")
      case True
      then show ?thesis using b r rp s'(5) by (simp add: storage_abs_def)
    next
      case False
      obtain b' r' where x: "x = (b', r')" by (cases x)
      show ?thesis
        using False other[of b' r'] fresh[of b' r'] s'(5)
        by (cases "row_of C s b' r'") (auto simp: storage_abs_def x)
    qed
    ultimately show ?thesis
      unfolding mem_ensure_def by (simp add: storage_abs_def s'(3) fun_eq_iff)
  qed
  with ens rp s'(2) that show thesis by blast
qed


subsection \<open>Refinement\<close>

text \<open>The two operations as the steps of a machine, and the specification.\<close>

datatype mem_op = Get_Word nat nat nat nat | Set_Word nat nat nat nat u32

fun storage_step :: "dram_cfg \<Rightarrow> (nat \<Rightarrow> nat \<Rightarrow> u32) \<Rightarrow> mem_op \<Rightarrow> storage \<Rightarrow> (u32 option \<times> storage) res" where
  "storage_step C junk (Get_Word b r c w) s = bindE (get_word C junk b r c w s) (\<lambda>(v, s). Inr (Some v, s))"
| "storage_step C junk (Set_Word b r c w v) s = bindE (set_word C junk b r c w v s) (\<lambda>s. Inr (None, s))"

fun mem_step :: "dram_cfg \<Rightarrow> (nat \<Rightarrow> nat \<Rightarrow> u32) \<Rightarrow> mem_op \<Rightarrow> nat \<times> (nat \<times> nat \<rightharpoonup> u32 list) \<Rightarrow>
    u32 option \<times> nat \<times> (nat \<times> nat \<rightharpoonup> u32 list)" where
  "mem_step C junk (Get_Word b r c w) nm =
     (case mem_ensure C junk (b, r) nm of (n, m) \<Rightarrow> (Some (the (m (b, r)) ! data_offset C c w), (n, m)))"
| "mem_step C junk (Set_Word b r c w v) nm =
     (case mem_ensure C junk (b, r) nm of (n, m) \<Rightarrow> (None, (n, m((b, r) \<mapsto> (the (m (b, r)))[data_offset C c w := v]))))"

definition in_array :: "dram_cfg \<Rightarrow> nat \<Rightarrow> nat \<Rightarrow> nat \<Rightarrow> nat \<Rightarrow> bool" where
  "in_array C b r c w \<longleftrightarrow> b < DRAM_BANKS C \<and> r < 2 ^ 20 \<and> c < 2 ^ 20 \<and> w < 2 ^ 10 \<and>
     data_offset C c w < DRAM_COLS C * (BUS_WIDTH C div 8)"

fun op_ok :: "dram_cfg \<Rightarrow> mem_op \<Rightarrow> bool" where
  "op_ok C (Get_Word b r c w) = in_array C b r c w"
| "op_ok C (Set_Word b r c w v) = in_array C b r c w"

lemma storage_at_set_data:
  fixes i :: nat and v :: u32
  assumes at: "storage_at C B s" and h: "st_heap s p = Some e"
  defines "h' \<equiv> (st_heap s)(p \<mapsto> e\<lparr>el_data := (el_data e)[i := v]\<rparr>)"
  shows "storage_at C B (s\<lparr>st_heap := h'\<rparr>)" "row_of C (s\<lparr>st_heap := h'\<rparr>) = row_of C s"
proof -
  have proj: "nxt_at h' = nxt_at (st_heap s)" "prv_at h' = prv_at (st_heap s)" "row_at h' = row_at (st_heap s)"
    "data_at h' = (data_at (st_heap s))(p \<mapsto> (el_data e)[i := v])"
    using h by (auto simp: heap_proj h'_def fun_eq_iff)
  have len: "length (el_data e) = DRAM_COLS C * (BUS_WIDTH C div 8)"
    using at h unfolding storage_at_def data_at_def by (metis option.simps(9))
  have "dom h' = dom (st_heap s)" using h by (auto simp: h'_def)
  moreover have "ring h' ps \<longleftrightarrow> ring (st_heap s) ps" for ps by (rule ring_cong) (simp_all add: proj)
  ultimately show at': "storage_at C B (s\<lparr>st_heap := h'\<rparr>)"
    using at len by (auto simp: storage_at_def proj)
  show "row_of C (s\<lparr>st_heap := h'\<rparr>) = row_of C s"
    unfolding row_of_eq[OF at'] row_of_eq[OF at] fun_eq_iff by (simp add: proj(3))
qed

lemma storage_step_simulates:
  assumes C: "cfg_ok C" and inv: "storage_inv C s" and ok: "op_ok C i"
  shows "\<exists>y s'. storage_step C junk i s = Inr (y, s') \<and> mem_step C junk i (storage_abs C s) = (y, storage_abs C s') \<and> storage_inv C s'"
proof -
  obtain B where at: "storage_at C B s" using inv by (auto simp: storage_inv_def)
  obtain b r c w where k: "in_array C b r c w" "i = Get_Word b r c w \<or> (\<exists>v. i = Set_Word b r c w v)"
    using ok by (cases i) auto
  have rng: "b < DRAM_BANKS C" "r < 2 ^ 20" "c < 2 ^ 20" "w < 2 ^ 10" and off: "data_offset C c w < DRAM_COLS C * (BUS_WIDTH C div 8)"
    using k(1) by (simp_all add: in_array_def)
  have tr: "b mod 2 ^ const_log2 (DRAM_BANKS C) = b" "r mod 1048576 = r" "c mod 1048576 = c" "w mod 1024 = w"
    using rng C by (simp_all add: cfg_ok_def)
  obtain p t B' where e: "ensure_row C junk b r s = Inr (p, t)" "storage_at C B' t" "row_of C t b r = Some p"
    "storage_abs C t = mem_ensure C junk (b, r) (storage_abs C s)"
    using ensure_row_props[OF C at rng(1,2)] by metis
  obtain d where d: "data_at (st_heap t) p = Some d" "length d = DRAM_COLS C * (BUS_WIDTH C div 8)"
    using row_of_data[OF e(2,3)] .
  then obtain el where el: "st_heap t p = Some el" "el_data el = d" by (auto simp: data_at_def)
  have m: "mem_ensure C junk (b, r) (storage_abs C s) = (st_fresh t, snd (storage_abs C t))"
    unfolding e(4)[symmetric] by (simp add: storage_abs_def)
  have mbr: "snd (storage_abs C t) (b, r) = Some d" using rng e(3) d by (simp add: storage_abs_def)
  from k(2) show ?thesis
  proof (elim disjE exE)
    assume i: "i = Get_Word b r c w"
    have "storage_step C junk i s = Inr (Some (d ! data_offset C c w), t)"
      using el d(2) off by (simp add: i get_word_def tr e(1) get_data_def deref_def)
    moreover have "mem_step C junk i (storage_abs C s) = (Some (d ! data_offset C c w), storage_abs C t)"
      by (simp add: i m mbr) (simp add: storage_abs_def)
    ultimately show ?thesis using e(2) by (auto simp: storage_inv_def)
  next
    fix v assume i: "i = Set_Word b r c w v"
    let ?h = "(st_heap t)(p \<mapsto> el\<lparr>el_data := (el_data el)[data_offset C c w := v]\<rparr>)"
    note sd = storage_at_set_data[OF e(2) el(1), of "data_offset C c w" v]
    have "storage_step C junk i s = Inr (None, t\<lparr>st_heap := ?h\<rparr>)"
      using el d(2) off by (simp add: i set_word_def tr e(1) set_data_def deref_def)
    moreover have "mem_step C junk i (storage_abs C s) = (None, storage_abs C (t\<lparr>st_heap := ?h\<rparr>))"
    proof -
      have uniq: "row_of C t b' r' = Some p \<Longrightarrow> b' < DRAM_BANKS C \<Longrightarrow> (b', r') = (b, r)" for b' r'
      proof -
        assume b': "row_of C t b' r' = Some p" "b' < DRAM_BANKS C"
        have "r' = r" using b'(1) e(3) unfolding row_of_iff[OF e(2)] by simp
        have "set (B' (hash_entry C b' r')) \<inter> set (B' (hash_entry C b r)) \<noteq> {}"
          using b'(1) e(3) unfolding row_of_iff[OF e(2)] by blast
        then have "hash_entry C b' r' = hash_entry C b r" using e(2) unfolding storage_at_def by blast
        with \<open>r' = r\<close> show "(b', r') = (b, r)" using hash_entry_bank[OF C b'(2) rng(1)] by blast
      qed
      have "snd (storage_abs C (t\<lparr>st_heap := ?h\<rparr>)) x = ((snd (storage_abs C t))((b, r) \<mapsto> d[data_offset C c w := v])) x" for x
      proof (cases "x = (b, r)")
        case True
        then show ?thesis using rng e(3) by (simp add: storage_abs_def sd(2)) (simp add: data_at_def el(2))
      next
        case False
        obtain b' r' where x: "x = (b', r')" by (cases x)
        show ?thesis
          using False uniq[of b' r'] by (cases "row_of C t b' r'") (auto simp: storage_abs_def sd(2) x data_at_def)
      qed
      then have "storage_abs C (t\<lparr>st_heap := ?h\<rparr>) = (st_fresh t, (snd (storage_abs C t))((b, r) \<mapsto> d[data_offset C c w := v]))"
        by (simp add: prod_eq_iff fun_eq_iff) (simp add: storage_abs_def)
      then show ?thesis by (simp add: i m mbr)
    qed
    ultimately show ?thesis using sd(1) by (auto simp: storage_inv_def)
  qed
qed

lemma storage_inv_init: "storage_inv C Storage"
  unfolding storage_inv_def by (rule exI[of _ "\<lambda>_. []"]) (simp add: storage_at_def Storage_def data_at_def)

lemma storage_abs_init: "storage_abs C Storage = (0, Map.empty)"
  by (simp add: storage_abs_def Storage_def row_of_def fun_eq_iff)

lemma ddr4_cfg_ok: "cfg_ok ddr4_cfg" by (simp add: cfg_ok_def ddr4_cfg_def)

interpretation ddr4_store: simulation "storage_step ddr4_cfg junk" "mem_step ddr4_cfg junk" "storage_abs ddr4_cfg"
  "storage_inv ddr4_cfg" "\<lambda>i _. op_ok ddr4_cfg i" for junk
  by unfold_locales (rule storage_step_simulates[OF ddr4_cfg_ok])

text \<open>A single-rank configuration with any power-of-two number of banks.\<close>

lemma storage_simulation: "cfg_ok C \<Longrightarrow>
  simulation (storage_step C junk) (mem_step C junk) (storage_abs C) (storage_inv C) (\<lambda>i _. op_ok C i)"
  by unfold_locales (rule storage_step_simulates)

lemma accepts_all: "accepts (\<lambda>i _. P i) spec is a \<longleftrightarrow> (\<forall>i\<in>set is. P i)"
  by (induction "is" arbitrary: a) simp_all

text \<open>
  C17. For every sequence of reads and writes of words inside the arrays, \<open>Storage\<close> never follows a dangling
  pointer, never leaves the array of a row, ends every search, and returns what a map from (bank, row) to
  row data returns that allocates the missing rows: the hash buckets and their linked lists do not mix up rows.
\<close>

theorem storage_refines:
  assumes "cfg_ok C" "\<forall>i\<in>set is. op_ok C i"
  shows "\<exists>s. runE (storage_step C junk) is Storage = Inr (fst (mealy (mem_step C junk) is (0, Map.empty)), s) \<and>
    storage_abs C s = snd (mealy (mem_step C junk) is (0, Map.empty)) \<and> storage_inv C s"
  using simulation.run_outputs[OF storage_simulation[OF assms(1), of junk] storage_inv_init, of "is"] assms(2)
  by (simp add: accepts_all storage_abs_init)

theorem storage_refines_witness:
  "\<exists>s. runE (storage_step ddr4_cfg (\<lambda>_ _. 0)) [Set_Word 3 5 7 1 42, Set_Word 3 133 7 1 43, Get_Word 3 5 7 1] Storage =
    Inr ([None, None, Some 42], s)"
proof -
  let ?is = "[Set_Word 3 5 7 1 42, Set_Word 3 133 7 1 43, Get_Word 3 5 7 1]"
  have ok: "\<forall>i\<in>set ?is. op_ok ddr4_cfg i" by (simp add: in_array_def data_offset_def ddr4_cfg_def)
  have "fst (mealy (mem_step ddr4_cfg (\<lambda>_ _. 0)) ?is (0, Map.empty)) = [None, None, Some 42]"
    by (simp add: mem_ensure_def data_offset_def alloc_row_def ddr4_cfg_def)
  with storage_refines[OF ddr4_cfg_ok ok, of "\<lambda>_ _. 0"] show ?thesis by metis
qed

subsection \<open>The destructor\<close>

lemma free_lists_props:
  assumes "storage_at C B s"
  shows "\<exists>h. free_lists n s = Inr h \<and> dom h = dom (st_heap s) - (\<Union>k<n. set (B k)) \<and>
    (\<forall>x. x \<notin> (\<Union>k<n. set (B k)) \<longrightarrow> h x = st_heap s x)"
proof (induction n)
  case (Suc n)
  then obtain h where h: "free_lists n s = Inr h" "dom h = dom (st_heap s) - (\<Union>k<n. set (B k))"
    "\<And>x. x \<notin> (\<Union>k<n. set (B k)) \<Longrightarrow> h x = st_heap s x" by blast
  have split: "(\<Union>k<Suc n. set (B k)) = (\<Union>k<n. set (B k)) \<union> set (B n)" by (auto simp: less_Suc_eq)
  show ?case
  proof (cases "B n")
    case Nil
    then have "st_hashmap s n = None" using assms by (simp add: storage_at_def)
    then show ?thesis using h unfolding split by (simp add: Nil)
  next
    case (Cons p ps)
    have hd: "st_hashmap s n = Some p" using assms Cons by (simp add: storage_at_def)
    have r: "ring (st_heap s) (p # ps)"
    proof -
      have "B n \<noteq> [] \<longrightarrow> ring (st_heap s) (B n)" using assms unfolding storage_at_def by blast
      with Cons show ?thesis by simp
    qed
    have keep: "h x = st_heap s x" if "x \<in> set (B n)" for x
    proof (rule h(3))
      have "set (B n) \<inter> set (B k) = {}" if "k < n" for k
        using that assms unfolding storage_at_def by (metis less_irrefl)
      then show "x \<notin> (\<Union>k<n. set (B k))" using that by blast
    qed
    have "ring h (p # ps) \<longleftrightarrow> ring (st_heap s) (p # ps)"
      using keep by (intro ring_cong) (simp_all add: Cons heap_proj)
    then obtain h' where h': "free_list p h = Some (Inr h')" "dom h' = dom h - set (p # ps)"
      "\<And>x. x \<notin> set (p # ps) \<Longrightarrow> h' x = h x"
      using free_list_ring[of h p ps] r by blast
    have "free_lists (Suc n) s = Inr h'" by (simp add: h(1) hd h'(1))
    moreover have "dom h' = dom (st_heap s) - (\<Union>k<Suc n. set (B k))" unfolding h'(2) h(2) split Cons by blast
    moreover have "h' x = st_heap s x" if "x \<notin> (\<Union>k<Suc n. set (B k))" for x
      using that h'(3)[of x] h(3)[of x] unfolding split Cons by simp
    ultimately show ?thesis by blast
  qed
qed simp

text \<open>
  C19. Whatever was read and written before, the destructor of \<open>Storage\<close> ends, never touches an element that has been
  freed, and frees every element.
\<close>

theorem storage_freed:
  assumes "cfg_ok C" "\<forall>i\<in>set is. op_ok C i" "runE (storage_step C junk) is Storage = Inr (vs, s)"
  shows "destroy_storage C s = Inr Map.empty"
proof -
  have "storage_inv C s"
    using simulation.run_outputs[OF storage_simulation[OF assms(1), of junk] storage_inv_init, of "is"] assms(2,3)
    by (auto simp: accepts_all)
  then obtain B where at: "storage_at C B s" by (auto simp: storage_inv_def)
  obtain h where h: "free_lists (DRAM_BANKS C * 128) s = Inr h"
    "dom h = dom (st_heap s) - (\<Union>k<DRAM_BANKS C * 128. set (B k))"
    using free_lists_props[OF at] by blast
  have "set (B k) \<subseteq> (\<Union>k<DRAM_BANKS C * 128. set (B k))" for k
  proof (cases "B k = []")
    case False
    then have "k < DRAM_BANKS C * 128" using at unfolding storage_at_def by blast
    then show ?thesis by blast
  qed simp
  then have "(\<Union>k. set (B k)) \<subseteq> (\<Union>k<DRAM_BANKS C * 128. set (B k))" by blast
  moreover have "dom (st_heap s) = (\<Union>k. set (B k))" using at by (simp add: storage_at_def)
  ultimately have "dom h = {}" unfolding h(2) Diff_eq_empty_iff by simp
  then show ?thesis using h(1) by (simp add: destroy_storage_def)
qed

theorem storage_freed_witness:
  "\<exists>vs s. runE (storage_step ddr4_cfg (\<lambda>_ _. 0)) [Set_Word 3 5 7 1 42, Set_Word 3 133 7 1 43, Get_Word 3 5 7 1] Storage =
    Inr (vs, s) \<and> destroy_storage ddr4_cfg s = Inr Map.empty"
proof -
  let ?is = "[Set_Word 3 5 7 1 42, Set_Word 3 133 7 1 43, Get_Word 3 5 7 1]"
  have ok: "\<forall>i\<in>set ?is. op_ok ddr4_cfg i" by (simp add: in_array_def data_offset_def ddr4_cfg_def)
  obtain vs s where "runE (storage_step ddr4_cfg (\<lambda>_ _. 0)) ?is Storage = Inr (vs, s)"
    using ddr4_store.run_outputs[OF storage_inv_init, of "\<lambda>_ _. 0" ?is] ok by (auto simp: accepts_all)
  with storage_freed[OF ddr4_cfg_ok ok this] show ?thesis by blast
qed

end
