(* ===== verification/Mc_CmdGen.thy ===== *)
theory Mc_CmdGen
  imports Machine Mc_Model
begin

text \<open>
  \<open>mc/control/CmdGen_DDR4.h\<close>: the translation of burst requests into DRAM commands. One iteration of the main
  thread takes a request and puts commands into the FIFOs of the banks; the model returns them in the order
  of the calls of \<open>put\<close>. That a full FIFO delays a \<open>put\<close> changes when a command arrives, not which.
\<close>

record cmdgen =
  cg_bank_active_row :: "nat \<Rightarrow> nat"
  cg_out_busy :: bool

definition bank_inactive :: "dram_cfg \<Rightarrow> nat" where
  "bank_inactive C = (DRAM_ROWS C + (DRAM_ROWS C - 1)) mod 2 ^ (const_log2 (DRAM_ROWS C) + 1)"

definition CmdGen_DDR4 :: "dram_cfg \<Rightarrow> cmdgen" where
  "CmdGen_DDR4 C = \<lparr>cg_bank_active_row = (\<lambda>_. bank_inactive C), cg_out_busy = False\<rparr>"

text \<open>The three results of the address translation: bank, row and column.\<close>

definition address_translate :: "dram_cfg \<Rightarrow> nat \<Rightarrow> nat \<times> nat \<times> nat" where
  "address_translate C addr =
    (let offset = const_log2 (BUS_WIDTH C) + const_log2 (DRAM_COLS C) - 1;
         bank = ((drop_bit (const_log2 (BUS_WIDTH C) + 2) addr AND 1) OR (drop_bit offset addr AND (DRAM_BANKS C - 2)))
                mod 2 ^ const_log2 (DRAM_BANKS C);
         col = (drop_bit (const_log2 (BUS_WIDTH C)) addr AND (DRAM_COLS C - 8)) mod 2 ^ const_log2 (DRAM_COLS C);
         offset = offset + const_log2 (DRAM_BANKS C);
         row = (drop_bit offset addr AND (DRAM_ROWS C - 1)) mod 2 ^ const_log2 (DRAM_ROWS C)
     in (bank, row, col))"

definition rwp_pre :: "RequestTarget \<Rightarrow> cmd_DDR" where
  "rwp_pre t = \<lparr>cmd_row = 0, cmd_col = 0, cmd_pre_pre = False, cmd_act = False, cmd_read = False, cmd_write = False,
     cmd_pre_post = True, cmd_wordmask = (\<lambda>_. False), cmd_sp_offset = 0, cmd_target = t, cmd_reg_offset = (\<lambda>_. 0)\<rparr>"

text \<open>The body of the loop that closes the other banks, and the two cases of the precharge policy.\<close>

definition close_bank :: "dram_cfg \<Rightarrow> RequestTarget \<Rightarrow> nat \<Rightarrow> (nat \<times> cmd_DDR) list \<times> cmdgen \<Rightarrow> (nat \<times> cmd_DDR) list \<times> cmdgen" where
  "close_bank C t next_bank st =
    (case st of (puts, s) \<Rightarrow>
       if cg_bank_active_row s next_bank \<noteq> bank_inactive C
       then (puts @ [(next_bank, rwp_pre t)], s\<lparr>cg_bank_active_row := (cg_bank_active_row s)(next_bank := bank_inactive C)\<rparr>)
       else (puts, s))"

definition precharge_alap ::
  "dram_cfg \<Rightarrow> burst_request \<Rightarrow> nat \<Rightarrow> nat \<Rightarrow> cmd_DDR \<Rightarrow> cmdgen \<Rightarrow> cmd_DDR \<times> (nat \<times> cmd_DDR) list \<times> cmdgen" where
  "precharge_alap C req bank row rwp s =
    (let (rwp, s) =
       (if row \<noteq> cg_bank_active_row s bank
        then (if cg_bank_active_row s bank \<noteq> bank_inactive C
              then rwp\<lparr>cmd_pre_pre := True, cmd_pre_post := False\<rparr> else rwp,
              s\<lparr>cg_bank_active_row := (cg_bank_active_row s)(bank := row)\<rparr>)
        else (rwp, s))
     in if br_addr_next req = 0xffffffff
        then
          let s = s\<lparr>cg_bank_active_row := (cg_bank_active_row s)(bank := bank_inactive C)\<rparr>;
              (puts, s) = fold (\<lambda>i. close_bank C (br_target req) ((bank + i) mod DRAM_BANKS C)) [1..<DRAM_BANKS C] ([], s)
          in (rwp\<lparr>cmd_pre_post := True\<rparr>, puts, s)
        else (rwp, [], s))"

definition precharge_linear ::
  "dram_cfg \<Rightarrow> burst_request \<Rightarrow> nat \<Rightarrow> nat \<Rightarrow> cmd_DDR \<Rightarrow> cmdgen \<Rightarrow> cmd_DDR \<times> (nat \<times> cmd_DDR) list \<times> cmdgen" where
  "precharge_linear C req bank row rwp s =
    (let s = s\<lparr>cg_bank_active_row := (cg_bank_active_row s)(bank := row)\<rparr>;
         (next_bank, next_row, next_col) = address_translate C (nat (br_addr_next req))
     in if (next_bank AND (DRAM_BANKS C - 2)) \<noteq> (bank AND (DRAM_BANKS C - 2)) \<or> next_row \<noteq> row
        then
          let s = s\<lparr>cg_bank_active_row := (cg_bank_active_row s)(bank := bank_inactive C)\<rparr>;
              (puts, s) = close_bank C (br_target req) (bank XOR 1) ([], s)
          in (rwp\<lparr>cmd_pre_post := True\<rparr>, puts, s)
        else (rwp, [], s))"

definition precharge ::
  "dram_cfg \<Rightarrow> burst_request \<Rightarrow> cmd_DDR \<Rightarrow> cmdgen \<Rightarrow> cmd_DDR \<times> (nat \<times> cmd_DDR) list \<times> cmdgen" where
  "precharge C req rwp s =
    (let (bank, row, col) = address_translate C (nat (br_addr req)) in
     case br_pre_pol req of
       PRECHARGE_ALAP \<Rightarrow> precharge_alap C req bank row rwp s
     | PRECHARGE_LINEAR \<Rightarrow> precharge_linear C req bank row rwp s)"

definition cmdgen_reset :: "cmdgen \<Rightarrow> cmdgen" where
  "cmdgen_reset s = s\<lparr>cg_out_busy := False\<rparr>"

text \<open>The command built from a request, and one iteration of \<open>thread_lt\<close>.\<close>

definition request_cmd :: "burst_request \<Rightarrow> nat \<Rightarrow> nat \<Rightarrow> bool \<Rightarrow> cmd_DDR" where
  "request_cmd req row col act =
    \<lparr>cmd_row = row, cmd_col = col, cmd_pre_pre = False, cmd_act = act, cmd_read = (\<not> br_write req),
     cmd_write = br_write req, cmd_pre_post = False, cmd_wordmask = br_wordmask req, cmd_sp_offset = br_sp_offset req,
     cmd_target = br_target req, cmd_reg_offset = br_reg_offset req\<rparr>"

definition cmdgen_thread_lt :: "dram_cfg \<Rightarrow> burst_request \<Rightarrow> cmdgen \<Rightarrow> (nat \<times> cmd_DDR) list \<times> cmdgen" where
  "cmdgen_thread_lt C req s =
    (let s = s\<lparr>cg_out_busy := (\<not> br_last req)\<rparr>;
         (bank, row, col) = address_translate C (nat (br_addr req));
         rwp = request_cmd req row col (cg_bank_active_row s bank \<noteq> row);
         (rwp, puts, s) = precharge C req rwp s
     in (puts @ [(bank, rwp)], s))"

end
