(* ===== verification/Cmd_Protocol.thy ===== *)
theory Cmd_Protocol
  imports Mc_CmdGen
begin

text \<open>
  What a DRAM bank accepts, and that the commands of \<open>CmdGen_DDR4\<close> keep to it: a row is activated
  only in a precharged bank, read or written only while it is open, precharged only when a row is open.
\<close>

subsection \<open>The protocol of a bank\<close>

datatype dram_op = PRE | ACT nat | RW nat nat

text \<open>The operations a command stands for, in the order the command arbiter issues them.\<close>

definition cmd_ops :: "cmd_DDR \<Rightarrow> dram_op list" where
  "cmd_ops c = (if cmd_pre_pre c then [PRE] else []) @ (if cmd_act c then [ACT (cmd_row c)] else []) @
     (if cmd_read c \<or> cmd_write c then [RW (cmd_row c) (cmd_col c)] else []) @ (if cmd_pre_post c then [PRE] else [])"

text \<open>A bank is precharged or has a row open.\<close>

fun bank_op :: "dram_op \<Rightarrow> nat option \<Rightarrow> nat option option" where
  "bank_op PRE (Some r) = Some None"
| "bank_op PRE None = None"
| "bank_op (ACT r) None = Some (Some r)"
| "bank_op (ACT r) (Some r') = None"
| "bank_op (RW r c) (Some r') = (if r = r' then Some (Some r') else None)"
| "bank_op (RW r c) None = None"

primrec bank_ops :: "dram_op list \<Rightarrow> nat option \<Rightarrow> nat option option" where
  "bank_ops [] q = Some q"
| "bank_ops (x # xs) q = Option.bind (bank_op x q) (bank_ops xs)"

lemma bank_ops_append: "bank_ops (xs @ ys) q = Option.bind (bank_ops xs q) (bank_ops ys)"
  by (induction xs arbitrary: q) (auto split: bind_split)

text \<open>The operations that a list of puts sends to a bank.\<close>

definition ops_of :: "nat \<Rightarrow> (nat \<times> cmd_DDR) list \<Rightarrow> dram_op list" where
  "ops_of b puts = concat (map (\<lambda>(b', c). if b' = b then cmd_ops c else []) puts)"

lemma ops_of_simps [simp]:
  "ops_of b [] = []" "ops_of b (p # ps) = (if fst p = b then cmd_ops (snd p) else []) @ ops_of b ps"
  "ops_of b (ps @ qs) = ops_of b ps @ ops_of b qs"
  by (simp_all add: ops_of_def split_def)

subsection \<open>The state of the banks and one request\<close>

definition cg_ok :: "dram_cfg \<Rightarrow> bool" where
  "cg_ok C \<longleftrightarrow> (\<exists>m n k l. BUS_WIDTH C = 2 ^ m \<and> DRAM_BANKS C = 2 ^ n \<and> DRAM_ROWS C = 2 ^ k \<and> DRAM_COLS C = 2 ^ l \<and>
     1 \<le> n \<and> 1 \<le> k \<and> 3 \<le> l)"

text \<open>The row a bank has open, as the generator keeps it.\<close>

definition open_row :: "dram_cfg \<Rightarrow> cmdgen \<Rightarrow> nat \<Rightarrow> nat option" where
  "open_row C s b = (if cg_bank_active_row s b = bank_inactive C then None else Some (cg_bank_active_row s b))"

definition req_bank :: "dram_cfg \<Rightarrow> burst_request \<Rightarrow> nat" where
  "req_bank C r = fst (address_translate C (nat (br_addr r)))"

definition req_row :: "dram_cfg \<Rightarrow> burst_request \<Rightarrow> nat" where
  "req_row C r = fst (snd (address_translate C (nat (br_addr r))))"

text \<open>A bank pair and a row: what a linear transfer keeps open.\<close>

definition page :: "dram_cfg \<Rightarrow> int \<Rightarrow> nat \<times> nat" where
  "page C a = (case address_translate C (nat a) of (b, r, c) \<Rightarrow> (b AND (DRAM_BANKS C - 2), r))"

lemma bank_inactive_row: "cg_ok C \<Longrightarrow> row < DRAM_ROWS C \<Longrightarrow> row \<noteq> bank_inactive C"
proof -
  assume C: "cg_ok C" and r: "row < DRAM_ROWS C"
  then obtain k where k: "DRAM_ROWS C = 2 ^ k" "1 \<le> k" by (auto simp: cg_ok_def)
  have "(2::nat) ^ k + (2 ^ k - 1) < 2 ^ (k + 1)" by (simp add: mult_2)
  then have "bank_inactive C = 2 ^ k + (2 ^ k - 1)" unfolding bank_inactive_def k(1) by (simp del: One_nat_def)
  moreover have "(2::nat) ^ 1 \<le> 2 ^ k" using k(2) by (intro power_increasing) auto
  ultimately show "row \<noteq> bank_inactive C" using r k(1) by simp
qed

lemma translate_bounds:
  assumes "cg_ok C"
  shows "fst (address_translate C a) < DRAM_BANKS C" "fst (snd (address_translate C a)) < DRAM_ROWS C"
  using assms by (auto simp: cg_ok_def address_translate_def Let_def)

lemma page_bank:
  assumes C: "cg_ok C" and b: "b < DRAM_BANKS C" "c < DRAM_BANKS C"
    and eq: "b AND (DRAM_BANKS C - 2) = c AND (DRAM_BANKS C - 2)"
  shows "b = c \<or> b = c XOR 1"
proof -
  obtain n where n: "DRAM_BANKS C = 2 ^ n" "1 \<le> n" using C by (auto simp: cg_ok_def)
  then obtain j where j: "n = Suc j" by (cases n) auto
  have msk: "DRAM_BANKS C - 2 = push_bit 1 (mask j)"
    by (simp add: n(1) j push_bit_eq_mult mask_eq_exp_minus_1)
  have pair: "x AND (DRAM_BANKS C - 2) = push_bit 1 (drop_bit 1 x)" if "x < DRAM_BANKS C" for x
  proof -
    have "drop_bit 1 x < 2 ^ j" using that by (simp add: n(1) j drop_bit_eq_div)
    then have "take_bit j (drop_bit 1 x) = drop_bit 1 x" by (simp add: take_bit_nat_eq_self)
    then show ?thesis unfolding msk and_push_bit_nat by (simp add: take_bit_eq_mask)
  qed
  have "drop_bit 1 b = drop_bit 1 c" using eq unfolding pair[OF b(1)] pair[OF b(2)] by simp
  then have "b div 2 = c div 2" by (simp add: drop_bit_eq_div)
  moreover have "c XOR 1 = (if even c then c + 1 else c - 1)" unfolding xor_one_eq by simp
  moreover have "x = (if even x then 2 * (x div 2) else 2 * (x div 2) + 1)" for x :: nat by simp
  from this[of b] this[of c] have "b = (if even b then 2 * (b div 2) else 2 * (b div 2) + 1)"
    "c = (if even c then 2 * (c div 2) else 2 * (c div 2) + 1)" .
  ultimately show ?thesis by (cases "even b"; cases "even c") (simp_all only: if_True if_False simp_thms, linarith+)
qed

text \<open>Closing a list of banks.\<close>

lemma fold_close_bank:
  "distinct bs \<Longrightarrow> fold (close_bank C t) bs (ps, s) =
    (ps @ map (\<lambda>b. (b, rwp_pre t)) (filter (\<lambda>b. cg_bank_active_row s b \<noteq> bank_inactive C) bs),
     s\<lparr>cg_bank_active_row := (\<lambda>b. if b \<in> set bs then bank_inactive C else cg_bank_active_row s b)\<rparr>)"
proof (induction bs arbitrary: ps s)
  case (Cons b bs)
  let ?A = "cg_bank_active_row s" and ?I = "bank_inactive C"
  have flt: "filter (\<lambda>x. ((?A)(b := ?I)) x \<noteq> ?I) bs = filter (\<lambda>x. ?A x \<noteq> ?I) bs"
    using Cons.prems by (intro filter_cong) auto
  have fns: "(\<lambda>x. if x \<in> set bs then ?I else ((?A)(b := ?I)) x) = (\<lambda>x. if x \<in> set (b # bs) then ?I else ?A x)"
    "?A b = ?I \<Longrightarrow> (\<lambda>x. if x \<in> set bs then ?I else ?A x) = (\<lambda>x. if x \<in> set (b # bs) then ?I else ?A x)"
    by auto
  have IH: "fold (close_bank C t) bs (ps', s') = (ps' @ map (\<lambda>b. (b, rwp_pre t)) (filter (\<lambda>b. cg_bank_active_row s' b \<noteq> ?I) bs),
     s'\<lparr>cg_bank_active_row := (\<lambda>b. if b \<in> set bs then ?I else cg_bank_active_row s' b)\<rparr>)" for ps' s'
    using Cons by simp
  show ?case
  proof (cases "?A b = ?I")
    case True
    then have "close_bank C t b (ps, s) = (ps, s)" by (simp add: close_bank_def)
    then show ?thesis using True by (simp only: fold_simps IH fns(2) filter.simps simp_thms if_False)
  next
    case False
    then have "close_bank C t b (ps, s) = (ps @ [(b, rwp_pre t)], s\<lparr>cg_bank_active_row := (?A)(b := ?I)\<rparr>)"
      by (simp add: close_bank_def)
    moreover have act: "cg_bank_active_row (s\<lparr>cg_bank_active_row := (?A)(b := ?I)\<rparr>) = (?A)(b := ?I)" by simp
    note IH[of "ps @ [(b, rwp_pre t)]" "s\<lparr>cg_bank_active_row := (?A)(b := ?I)\<rparr>", unfolded act flt fns(1)]
    ultimately show ?thesis using False by simp
  qed
qed simp

lemma other_banks:
  assumes "bank < n"
  shows "distinct (map (\<lambda>i. (bank + i) mod n) [1..<n])" "set (map (\<lambda>i. (bank + i) mod n) [1..<n]) = {..<n} - {bank}"
proof -
  have "inj_on (\<lambda>i. (bank + i) mod n) {1..<n}"
    by (rule inj_onI) (rule ring_pos_inj[OF assms], simp_all)
  then show "distinct (map (\<lambda>i. (bank + i) mod n) [1..<n])" by (simp add: distinct_map)
  show "set (map (\<lambda>i. (bank + i) mod n) [1..<n]) = {..<n} - {bank}"
  proof (intro equalityI subsetI)
    fix b assume "b \<in> set (map (\<lambda>i. (bank + i) mod n) [1..<n])"
    then obtain i where i: "1 \<le> i" "i < n" "b = (bank + i) mod n" by auto
    have "b \<noteq> bank"
    proof
      assume "b = bank"
      then have "(bank + i) mod n = (bank + 0) mod n" using i(3) assms by simp
      from ring_pos_inj[OF assms i(2) _ this] i show False by simp
    qed
    then show "b \<in> {..<n} - {bank}" using i assms by simp
  next
    fix b assume "b \<in> {..<n} - {bank}"
    then have b: "b < n" "b \<noteq> bank" by simp_all
    obtain i where i: "i < n" "b = (bank + i) mod n" using ring_pos_ex[OF assms b(1)] .
    have "i \<noteq> 0" using b(2) i(2) assms by (intro notI) simp
    then have "i \<in> set [1..<n]" using i(1) by simp
    then show "b \<in> set (map (\<lambda>i. (bank + i) mod n) [1..<n])" unfolding i(2) set_map by (rule imageI)
  qed
qed

lemma ops_of_closes:
  "distinct bs \<Longrightarrow> ops_of b (map (\<lambda>b. (b, rwp_pre t)) bs) = (if b \<in> set bs then [PRE] else [])"
  by (induction bs) (auto simp: cmd_ops_def rwp_pre_def)

subsection \<open>One request\<close>

definition cg_wf :: "dram_cfg \<Rightarrow> cmdgen \<Rightarrow> bool" where
  "cg_wf C s \<longleftrightarrow> (\<forall>b. cg_bank_active_row s b = bank_inactive C \<or> cg_bank_active_row s b < DRAM_ROWS C)"

text \<open>What a command transfers.\<close>

definition transfers :: "(nat \<times> cmd_DDR) list \<Rightarrow> (nat \<times> cmd_DDR) list" where
  "transfers puts = filter (\<lambda>(b, c). cmd_read c \<or> cmd_write c) puts"

definition carries :: "dram_cfg \<Rightarrow> nat \<times> cmd_DDR \<Rightarrow> burst_request \<Rightarrow> bool" where
  "carries C bc r \<longleftrightarrow> (case bc of (b, c) \<Rightarrow> (b, cmd_row c, cmd_col c) = address_translate C (nat (br_addr r)) \<and>
     cmd_write c = br_write r \<and> cmd_read c = (\<not> br_write r) \<and> cmd_wordmask c = br_wordmask r \<and>
     cmd_sp_offset c = br_sp_offset r \<and> cmd_target c = br_target r \<and> cmd_reg_offset c = br_reg_offset r)"

lemma alap_step:
  assumes C: "cg_ok C" and wf: "cg_wf C s" and pol: "br_pre_pol r = PRECHARGE_ALAP"
    and tr: "address_translate C (nat (br_addr r)) = (bank, row, col)"
  obtains puts s' c where "cmdgen_thread_lt C r s = (puts, s')" "cg_wf C s'"
    "\<And>b. b < DRAM_BANKS C \<Longrightarrow> bank_ops (ops_of b puts) (open_row C s b) = Some (open_row C s' b)"
    "\<And>b. br_addr_next r = 0xffffffff \<Longrightarrow> b < DRAM_BANKS C \<Longrightarrow> open_row C s' b = None"
    "transfers puts = [(bank, c)]" "carries C (bank, c) r"
proof -
  let ?n = "DRAM_BANKS C" and ?I = "bank_inactive C" and ?A = "cg_bank_active_row s"
  have bnd: "bank < ?n" "row < DRAM_ROWS C" using translate_bounds[OF C, of "nat (br_addr r)"] tr by simp_all
  have rI: "row \<noteq> ?I" using bank_inactive_row[OF C bnd(2)] .
  let ?c = "request_cmd r row col (?A bank \<noteq> row)\<lparr>cmd_pre_pre := (?A bank \<noteq> row \<and> ?A bank \<noteq> ?I)\<rparr>"
  let ?s = "s\<lparr>cg_out_busy := (\<not> br_last r)\<rparr>"
  show thesis
  proof (cases "br_addr_next r = 0xffffffff")
    case False
    let ?s' = "?s\<lparr>cg_bank_active_row := (?A)(bank := row)\<rparr>"
    have "cmdgen_thread_lt C r s = ([(bank, ?c)], ?s')"
      using False by (auto simp: cmdgen_thread_lt_def tr precharge_def pol precharge_alap_def Let_def request_cmd_def
          intro!: cmdgen.equality)
    moreover have "cg_wf C ?s'" using wf bnd(2) by (simp add: cg_wf_def)
    moreover have "bank_ops (ops_of b [(bank, ?c)]) (open_row C s b) = Some (open_row C ?s' b)" for b
      using rI by (auto simp: cmd_ops_def request_cmd_def open_row_def)
    moreover have "transfers [(bank, ?c)] = [(bank, ?c)]" "carries C (bank, ?c) r"
      by (auto simp: transfers_def carries_def request_cmd_def tr)
    ultimately show thesis using that False by blast
  next
    case True
    let ?c' = "?c\<lparr>cmd_pre_post := True\<rparr>"
    let ?bs = "map (\<lambda>i. (bank + i) mod ?n) [1..<?n]"
    let ?cl = "filter (\<lambda>b. ((?A)(bank := ?I)) b \<noteq> ?I) ?bs"
    let ?puts = "map (\<lambda>b. (b, rwp_pre (br_target r))) ?cl"
    let ?s' = "?s\<lparr>cg_bank_active_row := (\<lambda>b. if b \<in> set ?bs then ?I else ((?A)(bank := ?I)) b)\<rparr>"
    define G where "G = fold (\<lambda>i. close_bank C (br_target r) ((bank + i) mod ?n)) [1..<?n]"
    have "G = fold (close_bank C (br_target r)) ?bs" by (simp add: G_def fold_map comp_def)
    then have G: "G ([], t) = (map (\<lambda>b. (b, rwp_pre (br_target r))) (filter (\<lambda>b. cg_bank_active_row t b \<noteq> ?I) ?bs),
        t\<lparr>cg_bank_active_row := (\<lambda>b. if b \<in> set ?bs then ?I else cg_bank_active_row t b)\<rparr>)" for t
      using fold_close_bank[OF other_banks(1)[OF bnd(1)], of C "br_target r" "[]" t] by simp
    have "precharge C r (request_cmd r row col (?A bank \<noteq> row)) ?s = (?c', G ([], ?s\<lparr>cg_bank_active_row := (?A)(bank := ?I)\<rparr>))"
      using True by (auto simp: precharge_def tr pol precharge_alap_def request_cmd_def G_def split_def Let_def)
    then have "cmdgen_thread_lt C r s = (?puts @ [(bank, ?c')], ?s')"
      unfolding G cmdgen_thread_lt_def Let_def tr by (simp cong: if_cong)
    moreover have "cg_wf C ?s'" using wf by (simp add: cg_wf_def)
    moreover have "bank_ops (ops_of b (?puts @ [(bank, ?c')])) (open_row C s b) = Some (open_row C ?s' b)" if "b < ?n" for b
    proof -
      have "ops_of b ?puts = (if b \<in> set ?cl then [PRE] else [])"
        using other_banks(1)[OF bnd(1)] by (intro ops_of_closes distinct_filter)
      moreover have "b \<in> set ?cl \<longleftrightarrow> b \<noteq> bank \<and> ?A b \<noteq> ?I"
        using that unfolding set_filter other_banks(2)[OF bnd(1)] by auto
      moreover have "b \<in> set ?bs \<longleftrightarrow> b \<noteq> bank" using that unfolding other_banks(2)[OF bnd(1)] by auto
      ultimately show ?thesis using rI by (auto simp: cmd_ops_def request_cmd_def open_row_def)
    qed
    moreover have "open_row C ?s' b = None" if "b < ?n" for b
      using that unfolding open_row_def other_banks(2)[OF bnd(1)] by simp
    moreover have "transfers (?puts @ [(bank, ?c')]) = [(bank, ?c')]" "carries C (bank, ?c') r"
      by (auto simp: transfers_def carries_def request_cmd_def tr rwp_pre_def filter_empty_conv)
    ultimately show thesis using that by blast
  qed
qed

lemma linear_step:
  assumes C: "cg_ok C" and wf: "cg_wf C s" and pol: "br_pre_pol r = PRECHARGE_LINEAR"
    and tr: "address_translate C (nat (br_addr r)) = (bank, row, col)"
    and opn: "open_row C s bank = None \<or> open_row C s bank = Some row"
  obtains puts s' c where "cmdgen_thread_lt C r s = (puts, s')" "cg_wf C s'"
    "\<And>b. b < DRAM_BANKS C \<Longrightarrow> bank_ops (ops_of b puts) (open_row C s b) = Some (open_row C s' b)"
    "open_row C s' = (if page C (br_addr_next r) = page C (br_addr r) then (open_row C s)(bank \<mapsto> row)
       else (open_row C s)(bank := None, bank XOR 1 := None))"
    "transfers puts = [(bank, c)]" "carries C (bank, c) r"
proof -
  let ?I = "bank_inactive C" and ?A = "cg_bank_active_row s"
  have bnd: "bank < DRAM_BANKS C" "row < DRAM_ROWS C" using translate_bounds[OF C, of "nat (br_addr r)"] tr by simp_all
  have rI: "row \<noteq> ?I" using bank_inactive_row[OF C bnd(2)] .
  have A: "?A bank = ?I \<or> ?A bank = row" using opn by (auto simp: open_row_def split: if_splits)
  obtain nb nr nc where nx: "address_translate C (nat (br_addr_next r)) = (nb, nr, nc)" by (cases "address_translate C (nat (br_addr_next r))")
  have pg: "page C (br_addr_next r) = page C (br_addr r) \<longleftrightarrow>
      (nb AND (DRAM_BANKS C - 2)) = (bank AND (DRAM_BANKS C - 2)) \<and> nr = row"
    by (simp add: page_def nx tr)
  have other: "bank XOR 1 \<noteq> bank" unfolding xor_one_eq by (cases "bank = 0") auto
  let ?c = "request_cmd r row col (?A bank \<noteq> row)"
  let ?s = "s\<lparr>cg_out_busy := (\<not> br_last r)\<rparr>"
  show thesis
  proof (cases "page C (br_addr_next r) = page C (br_addr r)")
    case True
    let ?s' = "?s\<lparr>cg_bank_active_row := (?A)(bank := row)\<rparr>"
    have "cmdgen_thread_lt C r s = ([(bank, ?c)], ?s')"
      using True unfolding pg by (simp add: cmdgen_thread_lt_def tr nx precharge_def pol precharge_linear_def Let_def)
    moreover have "cg_wf C ?s'" using wf bnd(2) by (simp add: cg_wf_def)
    moreover have "bank_ops (ops_of b [(bank, ?c)]) (open_row C s b) = Some (open_row C ?s' b)" for b
      using rI A by (auto simp: cmd_ops_def request_cmd_def open_row_def)
    moreover have "open_row C ?s' = (open_row C s)(bank \<mapsto> row)" using rI by (auto simp: open_row_def fun_eq_iff)
    moreover have "transfers [(bank, ?c)] = [(bank, ?c)]" "carries C (bank, ?c) r"
      by (auto simp: transfers_def carries_def request_cmd_def tr)
    ultimately show thesis using that True by simp
  next
    case False
    let ?c' = "?c\<lparr>cmd_pre_post := True\<rparr>" and ?o = "bank XOR 1"
    let ?puts = "if ?A ?o \<noteq> ?I then [(?o, rwp_pre (br_target r))] else []"
    let ?s' = "?s\<lparr>cg_bank_active_row := (?A)(bank := ?I, ?o := ?I)\<rparr>"
    have upd: "?A ?o = ?I \<Longrightarrow> (?A)(bank := ?I, ?o := ?I) = (?A)(bank := ?I)" using other by (auto simp: fun_eq_iff)
    have pre: "precharge_linear C r bank row ?c ?s = (?c', ?puts, ?s')"
      using False other upd unfolding pg by (auto simp: nx precharge_linear_def close_bank_def Let_def)
    have "cmdgen_thread_lt C r s = (?puts @ [(bank, ?c')], ?s')"
      unfolding cmdgen_thread_lt_def Let_def tr prod.case precharge_def pol PrechargePolicy.case using pre by simp
    moreover have "cg_wf C ?s'" using wf by (simp add: cg_wf_def)
    moreover have "bank_ops (ops_of b (?puts @ [(bank, ?c')])) (open_row C s b) = Some (open_row C ?s' b)" for b
      using rI A other by (cases "b = bank"; cases "b = ?o") (auto simp: cmd_ops_def request_cmd_def rwp_pre_def open_row_def)
    moreover have "open_row C ?s' = (open_row C s)(bank := None, ?o := None)" by (auto simp: open_row_def fun_eq_iff)
    moreover have "transfers (?puts @ [(bank, ?c')]) = [(bank, ?c')]" "carries C (bank, ?c') r"
      by (auto simp: transfers_def carries_def request_cmd_def tr rwp_pre_def)
    ultimately show thesis using that False by simp
  qed
qed

subsection \<open>Transfers\<close>

text \<open>The run over a list of requests.\<close>

primrec cmdgen_run :: "dram_cfg \<Rightarrow> burst_request list \<Rightarrow> cmdgen \<Rightarrow> (nat \<times> cmd_DDR) list \<times> cmdgen" where
  "cmdgen_run C [] s = ([], s)"
| "cmdgen_run C (r # rs) s =
     (let (ps, s) = cmdgen_thread_lt C r s; (qs, s) = cmdgen_run C rs s in (ps @ qs, s))"

lemma cmdgen_run_append:
  "cmdgen_run C (rs @ ts) s = (let (ps, s) = cmdgen_run C rs s; (qs, s) = cmdgen_run C ts s in (ps @ qs, s))"
  by (induction rs arbitrary: s) (simp_all add: Let_def split_def)

text \<open>
  The requests of a transfer as the stride sequencer issues them: of a stride each names the address of the one after
  it, the last one names none; of an indexed transfer the last one names none. \<open>0xffffffff\<close> stands for no
  address, but is one: the last request of a stride must not lie in the page of that address.
\<close>

definition no_addr :: int where
  "no_addr = 0xffffffff"

fun linear_chain :: "dram_cfg \<Rightarrow> burst_request list \<Rightarrow> bool" where
  "linear_chain C [] = False"
| "linear_chain C [r] = (br_pre_pol r = PRECHARGE_LINEAR \<and> br_addr_next r = no_addr \<and> page C (br_addr r) \<noteq> page C no_addr)"
| "linear_chain C (r # r' # rs) =
     (br_pre_pol r = PRECHARGE_LINEAR \<and> br_addr_next r = br_addr r' \<and> linear_chain C (r' # rs))"

definition alap_chain :: "burst_request list \<Rightarrow> bool" where
  "alap_chain rs \<longleftrightarrow> rs \<noteq> [] \<and> (\<forall>r\<in>set rs. br_pre_pol r = PRECHARGE_ALAP) \<and> br_addr_next (last rs) = no_addr"

definition closed :: "dram_cfg \<Rightarrow> cmdgen \<Rightarrow> bool" where
  "closed C s \<longleftrightarrow> cg_wf C s \<and> (\<forall>b<DRAM_BANKS C. open_row C s b = None)"

text \<open>The result of a run: legal for every bank, one transfer for each request in order.\<close>

definition run_ok :: "dram_cfg \<Rightarrow> burst_request list \<Rightarrow> cmdgen \<Rightarrow> bool" where
  "run_ok C rs s \<longleftrightarrow> (case cmdgen_run C rs s of (puts, s') \<Rightarrow>
     (\<forall>b<DRAM_BANKS C. bank_ops (ops_of b puts) (open_row C s b) = Some (open_row C s' b)) \<and>
     list_all2 (carries C) (transfers puts) rs)"

lemma run_ok_Cons:
  assumes "cmdgen_thread_lt C r s = (ps, t)" "run_ok C rs t"
    "\<And>b. b < DRAM_BANKS C \<Longrightarrow> bank_ops (ops_of b ps) (open_row C s b) = Some (open_row C t b)"
    "transfers ps = [(bank, c)]" "carries C (bank, c) r"
  shows "run_ok C (r # rs) s"
  using assms by (auto simp: run_ok_def bank_ops_append Let_def transfers_def split: prod.splits)

lemma alap_run:
  assumes "cg_ok C" "rs \<noteq> []" "cg_wf C s" "\<forall>r\<in>set rs. br_pre_pol r = PRECHARGE_ALAP" "br_addr_next (last rs) = no_addr"
  shows "run_ok C rs s \<and> closed C (snd (cmdgen_run C rs s))"
  using assms(2-5)
proof (induction rs arbitrary: s)
  case (Cons r rs)
  obtain bank row col where tr: "address_translate C (nat (br_addr r)) = (bank, row, col)"
    by (cases "address_translate C (nat (br_addr r))")
  obtain ps t c where st: "cmdgen_thread_lt C r s = (ps, t)" "cg_wf C t"
    "\<And>b. b < DRAM_BANKS C \<Longrightarrow> bank_ops (ops_of b ps) (open_row C s b) = Some (open_row C t b)"
    "\<And>b. br_addr_next r = 0xffffffff \<Longrightarrow> b < DRAM_BANKS C \<Longrightarrow> open_row C t b = None"
    "transfers ps = [(bank, c)]" "carries C (bank, c) r"
    by (rule alap_step[OF assms(1) Cons.prems(2) _ tr]) (use Cons.prems(3) in auto)
  show ?case
  proof (cases "rs = []")
    case True
    then have "closed C t" using st(2,4) Cons.prems(4) by (simp add: closed_def no_addr_def)
    moreover have "run_ok C [] t" by (simp add: run_ok_def transfers_def)
    ultimately show ?thesis using run_ok_Cons[OF st(1) _ st(3,5,6)] st(1) True by simp
  next
    case False
    then have "run_ok C rs t \<and> closed C (snd (cmdgen_run C rs t))"
      using Cons.IH[OF False st(2)] Cons.prems(3,4) by simp
    then show ?thesis using run_ok_Cons[OF st(1) _ st(3,5,6)] st(1) by (simp add: Let_def split_def)
  qed
qed simp

text \<open>While a stride runs, only banks of the pair of the next request are open, on its row.\<close>

definition page_open :: "dram_cfg \<Rightarrow> cmdgen \<Rightarrow> int \<Rightarrow> bool" where
  "page_open C s a \<longleftrightarrow> cg_wf C s \<and> (\<forall>b<DRAM_BANKS C. \<forall>r. open_row C s b = Some r \<longrightarrow> (b AND (DRAM_BANKS C - 2), r) = page C a)"

lemma page_open_step:
  assumes C: "cg_ok C" and po: "page_open C s (br_addr r)" and pol: "br_pre_pol r = PRECHARGE_LINEAR"
    and tr: "address_translate C (nat (br_addr r)) = (bank, row, col)"
  obtains ps t c where "cmdgen_thread_lt C r s = (ps, t)"
    "\<And>b. b < DRAM_BANKS C \<Longrightarrow> bank_ops (ops_of b ps) (open_row C s b) = Some (open_row C t b)"
    "transfers ps = [(bank, c)]" "carries C (bank, c) r"
    "page_open C t (br_addr_next r)" "page C (br_addr r) \<noteq> page C (br_addr_next r) \<Longrightarrow> closed C t"
proof -
  let ?n = "DRAM_BANKS C"
  have bank: "bank < ?n" using translate_bounds[OF C, of "nat (br_addr r)"] tr by simp
  have pg: "page C (br_addr r) = (bank AND (?n - 2), row)" by (simp add: page_def tr)
  have opn: "open_row C s bank = None \<or> open_row C s bank = Some row"
    using po bank unfolding page_open_def pg by (cases "open_row C s bank") auto
  have wf: "cg_wf C s" using po by (simp add: page_open_def)
  obtain ps t c where st: "cmdgen_thread_lt C r s = (ps, t)" "cg_wf C t"
    "\<And>b. b < ?n \<Longrightarrow> bank_ops (ops_of b ps) (open_row C s b) = Some (open_row C t b)"
    "open_row C t = (if page C (br_addr_next r) = page C (br_addr r) then (open_row C s)(bank \<mapsto> row)
       else (open_row C s)(bank := None, bank XOR 1 := None))"
    "transfers ps = [(bank, c)]" "carries C (bank, c) r"
    using linear_step[OF C wf pol tr opn] by blast
  have cl: "closed C t" if ne: "page C (br_addr r) \<noteq> page C (br_addr_next r)"
    unfolding closed_def
  proof (intro conjI allI impI st(2))
    fix b assume b: "b < ?n"
    show "open_row C t b = None"
    proof (cases "b = bank \<or> b = bank XOR 1")
      case False
      have "open_row C s b = None"
      proof (rule ccontr)
        assume "open_row C s b \<noteq> None"
        then have "b AND (?n - 2) = bank AND (?n - 2)" using po b unfolding page_open_def pg by blast
        with page_bank[OF C b bank] False show False by blast
      qed
      then show ?thesis using st(4) ne False by simp
    qed (use st(4) ne in auto)
  qed
  have "page_open C t (br_addr_next r)"
  proof (cases "page C (br_addr_next r) = page C (br_addr r)")
    case True
    then show ?thesis using po st(2,4) unfolding page_open_def pg by auto
  next
    case False
    then show ?thesis using cl st(2) by (simp add: page_open_def closed_def)
  qed
  with st cl that show thesis by blast
qed

lemma linear_run:
  assumes "cg_ok C" "linear_chain C rs" "page_open C s (br_addr (hd rs))"
  shows "run_ok C rs s \<and> closed C (snd (cmdgen_run C rs s))"
  using assms(2,3)
proof (induction rs arbitrary: s)
  case (Cons r rs)
  obtain bank row col where tr: "address_translate C (nat (br_addr r)) = (bank, row, col)"
    by (cases "address_translate C (nat (br_addr r))")
  have pol: "br_pre_pol r = PRECHARGE_LINEAR" using Cons.prems(1) by (cases rs) simp_all
  have po: "page_open C s (br_addr r)" using Cons.prems(2) by simp
  obtain ps t c where st: "cmdgen_thread_lt C r s = (ps, t)"
    "\<And>b. b < DRAM_BANKS C \<Longrightarrow> bank_ops (ops_of b ps) (open_row C s b) = Some (open_row C t b)"
    "transfers ps = [(bank, c)]" "carries C (bank, c) r"
    "page_open C t (br_addr_next r)" "page C (br_addr r) \<noteq> page C (br_addr_next r) \<Longrightarrow> closed C t"
    using page_open_step[OF assms(1) po pol tr] by blast
  note cons = run_ok_Cons[OF st(1) _ st(2,3,4)]
  show ?case
  proof (cases rs)
    case Nil
    then have "closed C t" using st(6) Cons.prems(1) by simp
    moreover have "run_ok C [] t" by (simp add: run_ok_def transfers_def)
    ultimately show ?thesis using cons st(1) Nil by simp
  next
    case (Cons r' rs')
    then have "run_ok C rs t \<and> closed C (snd (cmdgen_run C rs t))"
      using Cons.IH[of t] Cons.prems(1) st(5) by simp
    then show ?thesis using cons st(1) by (simp add: Let_def split_def)
  qed
qed simp

lemma run_ok_append:
  assumes "run_ok C rs s" "run_ok C ts (snd (cmdgen_run C rs s))"
  shows "run_ok C (rs @ ts) s"
  using assms by (auto simp: run_ok_def cmdgen_run_append Let_def bank_ops_append transfers_def list_all2_appendI split: prod.splits)

lemma transfers_run:
  assumes "cg_ok C" "\<forall>rs\<in>set rss. linear_chain C rs \<or> alap_chain rs" "closed C s"
  shows "run_ok C (concat rss) s \<and> closed C (snd (cmdgen_run C (concat rss) s))"
  using assms(2,3)
proof (induction rss arbitrary: s)
  case Nil
  then show ?case by (simp add: run_ok_def transfers_def)
next
  case (Cons rs rss)
  let ?t = "snd (cmdgen_run C rs s)"
  have "run_ok C rs s \<and> closed C ?t"
  proof (cases "linear_chain C rs")
    case True
    moreover have "page_open C s a" for a using Cons.prems(2) by (simp add: closed_def page_open_def)
    ultimately show ?thesis by (rule linear_run[OF assms(1)])
  next
    case False
    then have "alap_chain rs" using Cons.prems(1) by simp
    moreover have "cg_wf C s" using Cons.prems(2) by (simp add: closed_def)
    ultimately show ?thesis using alap_run[OF assms(1)] by (simp add: alap_chain_def)
  qed
  moreover from this have "run_ok C (concat rss) ?t \<and> closed C (snd (cmdgen_run C (concat rss) ?t))"
    using Cons by simp
  ultimately show ?case by (simp add: run_ok_append cmdgen_run_append Let_def split_def)
qed

lemma closed_init: "closed C (CmdGen_DDR4 C)"
  by (simp add: closed_def cg_wf_def open_row_def CmdGen_DDR4_def)

subsection \<open>Address translation\<close>

text \<open>The address of a burst, put together from its bank, row and column.\<close>

definition burst_addr :: "dram_cfg \<Rightarrow> nat \<times> nat \<times> nat \<Rightarrow> nat" where
  "burst_addr C brc = (case brc of (bank, row, col) \<Rightarrow>
     4 * BUS_WIDTH C * (bank mod 2 + 2 * (col div 8 + DRAM_COLS C div 8 * (bank div 2 + DRAM_BANKS C div 2 * row))))"

lemma address_translate_eq:
  assumes "BUS_WIDTH C = 2 ^ m" "DRAM_BANKS C = 2 ^ Suc n" "DRAM_ROWS C = 2 ^ k" "DRAM_COLS C = 2 ^ (l + 3)"
  shows "address_translate C a =
    (a div 2 ^ (m + 2) mod 2 + 2 * (a div 2 ^ (m + l + 3) mod 2 ^ n), a div 2 ^ (m + l + n + 3) mod 2 ^ k,
     8 * (a div 2 ^ (m + 3) mod 2 ^ l))"
proof -
  have msk: "2 ^ Suc n - 2 = push_bit 1 (2 ^ n - Suc 0)" "2 ^ (l + 3) - 8 = push_bit 3 (2 ^ l - Suc 0)"
    by (simp_all add: push_bit_eq_mult power_add diff_mult_distrib)
  have lg: "const_log2 (2 ^ Suc n) = Suc n" by (rule const_log2_pow2)
  have b: "(drop_bit (m + 2) a AND 1) OR (drop_bit (m + (l + 3) - 1) a AND (2 ^ Suc n - 2)) =
      a div 2 ^ (m + 2) mod 2 + 2 * (a div 2 ^ (m + l + 3) mod 2 ^ n)"
  proof -
    have "drop_bit (m + (l + 3) - 1) a AND (2 ^ Suc n - 2) = (a div 2 ^ (m + l + 3) mod 2 ^ n) * 2 ^ 1"
      unfolding msk and_push_bit_nat and_mask_nat
      by (simp add: push_bit_eq_mult drop_bit_eq_div div_mult2_eq[symmetric] power_add ac_simps)
    moreover have "drop_bit (m + 2) a AND 1 = a div 2 ^ (m + 2) mod 2" by (simp add: and_one_eq drop_bit_eq_div)
    moreover have "x OR y * 2 ^ 1 = x + 2 * y" if "x < 2 ^ 1" for x y :: nat
      using or_disjoint_add_nat[OF that, of y] by (simp add: or.commute)
    ultimately show ?thesis by simp
  qed
  have c: "drop_bit m a AND (2 ^ (l + 3) - 8) = 8 * (a div 2 ^ (m + 3) mod 2 ^ l)"
    unfolding msk and_push_bit_nat and_mask_nat
    by (simp add: push_bit_eq_mult drop_bit_eq_div div_mult2_eq[symmetric] power_add)
  have "8 * (a div 2 ^ (m + 3) mod 2 ^ l) < 2 ^ (l + 3)" by (simp add: power_add)
  moreover have "a div 2 ^ (m + 2) mod 2 + 2 * (a div 2 ^ (m + l + 3) mod 2 ^ n) < 2 ^ Suc n"
  proof -
    have "a div 2 ^ (m + l + 3) mod 2 ^ n < 2 ^ n" "a div 2 ^ (m + 2) mod 2 < 2" by simp_all
    then show ?thesis unfolding power_Suc by linarith
  qed
  moreover have "drop_bit (m + (l + 3) - 1 + Suc n) a AND (2 ^ k - Suc 0) = a div 2 ^ (m + l + n + 3) mod 2 ^ k"
    unfolding and_mask_nat drop_bit_eq_div by (simp add: power_add ac_simps)
  ultimately show ?thesis
    unfolding address_translate_def assms const_log2_pow2 Let_def b[unfolded One_nat_def] c One_nat_def by (simp only: mod_less mod_mod_trivial)
qed

lemma mixed_radix: "(a::nat) div d mod r + r * (a div (d * r)) = a div d"
  by (simp add: div_mult2_eq)

text \<open>
  C18. The translation of the address of a burst loses nothing: the address can be put together again from bank, row
  and column, so two bursts never share a place in the DRAM; for every configuration of powers of two large enough
  for the address space.
\<close>

theorem address_roundtrip:
  assumes "BUS_WIDTH C = 2 ^ m" "DRAM_BANKS C = 2 ^ Suc n" "DRAM_ROWS C = 2 ^ k" "DRAM_COLS C = 2 ^ (l + 3)"
    and "4 * BUS_WIDTH C dvd a" "a < 2 ^ (m + l + n + k + 3)"
  shows "burst_addr C (address_translate C a) = a"
proof -
  have p: "(2::nat) ^ (m + 3) = 2 ^ (m + 2) * 2" "(2::nat) ^ (m + l + 3) = 2 ^ (m + 3) * 2 ^ l"
    "(2::nat) ^ (m + l + n + 3) = 2 ^ (m + l + 3) * 2 ^ n"
    by (simp_all add: power_add)
  have "a div 2 ^ (m + l + n + 3) < 2 ^ k"
    using assms(6) by (simp add: less_mult_imp_div_less power_add ac_simps)
  then have row: "a div 2 ^ (m + l + n + 3) mod 2 ^ k = a div 2 ^ (m + l + n + 3)" by simp
  have r: "a div 2 ^ (m + 2) mod 2 + 2 * (a div 2 ^ (m + 3) mod 2 ^ l + 2 ^ l *
      (a div 2 ^ (m + l + 3) mod 2 ^ n + 2 ^ n * (a div 2 ^ (m + l + n + 3)))) = a div 2 ^ (m + 2)"
    by (simp only: p mixed_radix)
  have h: "(x + 2 * y) mod 2 = x" "(x + 2 * y) div 2 = y" if "x < 2" for x y :: nat using that by auto
  have x: "a div 2 ^ (m + 2) mod 2 < 2" by simp
  have "4 * BUS_WIDTH C = 2 ^ (m + 2)" by (simp add: assms(1) power_add)
  moreover have "DRAM_COLS C div 8 = 2 ^ l" "DRAM_BANKS C div 2 = 2 ^ n" by (simp_all add: assms power_add)
  ultimately have "burst_addr C (address_translate C a) = 2 ^ (m + 2) * (a div 2 ^ (m + 2))"
    unfolding address_translate_eq[OF assms(1-4)] burst_addr_def prod.case row h[OF x] using r by simp
  then show ?thesis using assms(5) \<open>4 * BUS_WIDTH C = 2 ^ (m + 2)\<close> by simp
qed

theorem address_roundtrip_witness:
  "burst_addr ddr4_cfg (address_translate ddr4_cfg 0xabcdef40) = 0xabcdef40"
  by (rule address_roundtrip[where m = 4 and n = 2 and k = 16 and l = 7]) (simp_all add: ddr4_cfg_def)

subsection \<open>The protocol property\<close>

text \<open>
  C16. Whatever strides and indexed transfers come, no stride ending in the page of the address \<open>0xffffffff\<close>, the commands of
  \<open>CmdGen_DDR4\<close> keep to the protocol of the DRAM: no bank is activated while a row is open, accessed with another row open, or
  precharged without need; after the last transfer all banks are precharged; and every burst request is carried out by exactly one
  read or write command, in order, at the bank, row and column of its address. The strides left out break the protocol, see
  \<open>top_page_left_open\<close>. The requests of a transfer are linked as the sequencer links them: each request of a stride names the address of
  the next, the last one of a transfer names none.
\<close>

theorem cmdgen_protocol:
  assumes "cg_ok C" "\<forall>rs\<in>set rss. linear_chain C rs \<or> alap_chain rs"
  shows "(case cmdgen_run C (concat rss) (CmdGen_DDR4 C) of (puts, s) \<Rightarrow>
    (\<forall>b<DRAM_BANKS C. bank_ops (ops_of b puts) None = Some None) \<and> list_all2 (carries C) (transfers puts) (concat rss))"
  using transfers_run[OF assms closed_init] closed_init[of C] by (auto simp: run_ok_def closed_def)

definition burst_at :: "int \<Rightarrow> int \<Rightarrow> PrechargePolicy \<Rightarrow> burst_request" where
  "burst_at a n p = burst_request_default\<lparr>br_addr := a, br_addr_next := n, br_pre_pol := p\<rparr>"

lemma ddr4_cg_ok: "cg_ok ddr4_cfg"
  unfolding cg_ok_def ddr4_cfg_def by (rule exI[of _ 4], rule exI[of _ 3], rule exI[of _ 16], rule exI[of _ 10]) simp

theorem cmdgen_protocol_witness:
  "let rss = [[burst_at 0x40 0x4080 PRECHARGE_LINEAR, burst_at 0x4080 no_addr PRECHARGE_LINEAR],
              [burst_at 0x40000 0x60000 PRECHARGE_ALAP, burst_at 0x60000 no_addr PRECHARGE_ALAP]] in
   case cmdgen_run ddr4_cfg (concat rss) (CmdGen_DDR4 ddr4_cfg) of (puts, s) \<Rightarrow>
    (\<forall>b<DRAM_BANKS ddr4_cfg. bank_ops (ops_of b puts) None = Some None) \<and>
    list_all2 (carries ddr4_cfg) (transfers puts) (concat rss)"
proof -
  have "linear_chain ddr4_cfg [burst_at 0x40 0x4080 PRECHARGE_LINEAR, burst_at 0x4080 no_addr PRECHARGE_LINEAR]"
    by (simp add: ddr4_cfg_def burst_at_def burst_request_default_def no_addr_def page_def
        address_translate_eq[of _ 4 2 16 7])
  moreover have "alap_chain [burst_at 0x40000 0x60000 PRECHARGE_ALAP, burst_at 0x60000 no_addr PRECHARGE_ALAP]"
    by (simp add: alap_chain_def burst_at_def burst_request_default_def)
  ultimately show ?thesis unfolding Let_def by (intro cmdgen_protocol ddr4_cg_ok) simp_all
qed

text \<open>
  A stride whose last burst lies in the page of \<open>0xffffffff\<close> leaves its bank open, and the next stride that uses another
  row of the bank activates it without a precharge.
\<close>

lemma top_page_left_open:
  assumes "rs = [burst_at 0xffffffc0 no_addr PRECHARGE_LINEAR, burst_at 0xffc0 no_addr PRECHARGE_LINEAR]"
  shows "bank_ops (ops_of 7 (fst (cmdgen_run ddr4_cfg rs (CmdGen_DDR4 ddr4_cfg)))) None = None"
proof -
  have "address_translate ddr4_cfg 0xffffffc0 = (7, 65535, 1016)" "address_translate ddr4_cfg 0xffc0 = (7, 0, 1016)"
    "address_translate ddr4_cfg 0xffffffff = (7, 65535, 1016)"
    by (simp_all add: ddr4_cfg_def address_translate_eq[of _ 4 2 16 7])
  moreover have "DRAM_BANKS ddr4_cfg = 8" "bank_inactive ddr4_cfg = 131071"
    by (simp_all add: ddr4_cfg_def bank_inactive_def)
  ultimately show ?thesis
    by (simp add: assms cmdgen_thread_lt_def precharge_def precharge_linear_def close_bank_def burst_at_def
        burst_request_default_def no_addr_def CmdGen_DDR4_def request_cmd_def cmd_ops_def rwp_pre_def Let_def)
qed

end
