(* ===== verification/Mc_Frontend.thy ===== *)
theory Mc_Frontend
  imports Stride_Props Cmd_Protocol
begin

text \<open>
  The stride sequencer and the command generator together, connected by the FIFO of burst requests: the words of a
  stride arrive at the banks of the DRAM, each once, and the banks are used according to their protocol.
\<close>

lemma stride_cycle_chain:
  assumes W: "W = 2 ^ b" "b \<le> 16" and ok: "stride_ok W d" and at: "seq_at W d g s" and g: "g < sd_end d"
  shows "br_addr (fst (stride_cycle W T s)) = 4 * g"
    "br_addr_next (fst (stride_cycle W T s)) = (if sd_end d \<le> g + inc_at W d s then no_addr else 4 * (g + inc_at W d s))"
    "br_pre_pol (fst (stride_cycle W T s)) = br_pre_pol (s_req s)"
    "s_req (snd (stride_cycle W T s)) = fst (stride_cycle W T s)"
proof -
  have ga: "global_addr s = 4 * g" "0 \<le> g" "end_addr s = 4 * sd_end d"
    using at by (simp_all add: seq_at_def seq_regs_def Let_def)
  note inc = address_increment_at[OF W ok at, folded inc_at_def] and ph = phase_increment_at[OF W ok at, folded inc_at_def]
  have nx: "sc_uint 32 (4 * g + 4 * inc_at W d s) = 4 * (g + inc_at W d s)"
    using inc_at_bounds[OF W ok at] end_bound[OF W ok g ga(2)] by simp
  show "br_addr (fst (stride_cycle W T s)) = 4 * g"
    "br_addr_next (fst (stride_cycle W T s)) = (if sd_end d \<le> g + inc_at W d s then no_addr else 4 * (g + inc_at W d s))"
    "br_pre_pol (fst (stride_cycle W T s)) = br_pre_pol (s_req s)"
    "s_req (snd (stride_cycle W T s)) = fst (stride_cycle W T s)"
    unfolding stride_cycle_def stride_words_eq advance_lanes inc ph using at nx
    by (simp_all add: Let_def split_def ga no_addr_def cong: if_cong)
qed

text \<open>The requests of a stride form a chain of aligned addresses.\<close>

lemma stride_chain:
  assumes W: "W = 2 ^ b" "b \<le> 16" and ok: "stride_ok W d"
    and low: "\<And>x. 0 \<le> x \<Longrightarrow> x < 4 * sd_end d \<Longrightarrow> page C x \<noteq> page C no_addr"
  shows "seq_at W d g s \<Longrightarrow> g < sd_end d \<Longrightarrow> br_pre_pol (s_req s) = PRECHARGE_LINEAR \<Longrightarrow>
    runE (seq_thread_lt W T) is s = Inr (effs, s') \<Longrightarrow> is \<noteq> [] \<Longrightarrow>
    map br_last (concat (map eff_reqs effs)) = replicate (length is - 1) False @ [True] \<Longrightarrow>
    linear_chain C (concat (map eff_reqs effs)) \<and> br_addr (hd (concat (map eff_reqs effs))) = 4 * g \<and>
    (\<forall>r\<in>set (concat (map eff_reqs effs)). 4 * int W dvd br_addr r \<and> 0 \<le> br_addr r \<and> br_addr r < 4 * sd_end d)"
proof (induction "is" arbitrary: g s effs)
  case (Cons i "is")
  let ?u = "s\<lparr>out_done := False\<rparr>"
  let ?r = "fst (stride_cycle W T ?u)" and ?s = "snd (stride_cycle W T ?u)"
  note g = Cons.prems(2)
  have at: "seq_at W d g ?u" using Cons.prems(1) by (simp add: seq_at_def seq_regs_def lines_at_def)
  have gb: "int W dvd g" "0 \<le> g" using at by (simp_all add: seq_at_def)
  note ch = stride_cycle_chain[OF W ok at g, of T] and rq = stride_cycle_request[OF W ok at g, of T]
  have step: "seq_thread_lt W T i s = Inr (no_effects\<lparr>eff_reqs := [?r]\<rparr>, ?s)"
    using Cons.prems(1) by (simp add: seq_thread_lt_def seq_at_def split_def Let_def)
  obtain effs' where e: "effs = no_effects\<lparr>eff_reqs := [?r]\<rparr> # effs'" "runE (seq_thread_lt W T) is ?s = Inr (effs', s')"
    using Cons.prems(4) by (auto simp: step bindE_Inr_iff)
  have al: "4 * int W dvd br_addr ?r \<and> 0 \<le> br_addr ?r \<and> br_addr ?r < 4 * sd_end d"
    using ch(1) gb g by (simp add: mult_dvd_mono)
  have pol: "br_pre_pol ?r = PRECHARGE_LINEAR" using ch(3) Cons.prems(3) by simp
  let ?reqs = "concat (map eff_reqs effs')"
  have lasts: "br_last ?r # map br_last ?reqs = replicate (length is) False @ [True]"
    using Cons.prems(6) by (simp add: e(1) no_effects_def)
  show ?case
  proof (cases "is")
    case Nil
    then have nil: "?reqs = []" and l: "br_last ?r" using lasts by auto
    then have "br_addr_next ?r = no_addr" using ch(2) rq(4) by simp
    moreover have "page C (br_addr ?r) \<noteq> page C no_addr" using low al by simp
    ultimately show ?thesis using al pol ch(1) by (simp add: e(1) no_effects_def nil)
  next
    case (Cons i' is')
    then have nl: "\<not> br_last ?r" and ls: "map br_last ?reqs = replicate (length is - 1) False @ [True]"
      using lasts by auto
    have lt: "g + inc_at W d ?u < sd_end d" using nl rq(4) by simp
    have "br_pre_pol (s_req ?s) = PRECHARGE_LINEAR" using pol ch(4) by simp
    from Cons.IH[OF stride_cycle_next[OF W ok at lt, of T] lt this e(2) _ ls] Cons
    have IH: "linear_chain C ?reqs" "br_addr (hd ?reqs) = 4 * (g + inc_at W d ?u)"
      "\<forall>r\<in>set ?reqs. 4 * int W dvd br_addr r \<and> 0 \<le> br_addr r \<and> br_addr r < 4 * sd_end d" by simp_all
    have "linear_chain C (?r # ?reqs)"
    proof (cases ?reqs)
      case (Cons q qs)
      then show ?thesis using IH(1,2) pol ch(2) lt by simp
    next
      case Nil
      then have "linear_chain C []" using IH(1) by (simp del: concat_eq_Nil_conv)
      then show ?thesis by simp
    qed
    then show ?thesis using al IH(3) ch(1) by (simp add: e(1) no_effects_def)
  qed
qed simp

lemma init_lanes_req: "s_req (snd (snd (init_lanes W P it l s))) = s_req s"
  unfolding init_lanes_def
  by (rule for_upto_invariant[where P = "\<lambda>x. s_req (snd (snd x)) = s_req s"]) (auto simp: Let_def split_def)

lemma init_request_regs_req: "init_request_regs W s = Inr s' \<Longrightarrow> s_req s' = s_req s"
  unfolding init_request_regs_def Let_def
  by (simp only: init_lanes_req seq.simps sum.inject split: if_splits) (auto simp: init_lanes_req)

lemma stride_accepted_linear:
  assumes "accepts_stride W i s d" "seq_thread_lt W T i s = Inr (e, s')"
  shows "br_pre_pol (s_req s') = PRECHARGE_LINEAR"
  using assms
  by (auto simp: seq_thread_lt_def seq_fetch_def accepts_stride_def seq_init_def bindE_Inr_iff processTargetReg_def Let_def
      dest!: init_request_regs_req split: if_splits option.splits)

subsection \<open>Words in the DRAM\<close>

text \<open>The words a command transfers: the address its bank, row and column stand for, and the target.\<close>

definition cmd_words :: "dram_cfg \<Rightarrow> nat \<times> cmd_DDR \<Rightarrow> (int \<times> reg_offset) list" where
  "cmd_words C bc = (case bc of (b, c) \<Rightarrow>
     map (\<lambda>i. (int (burst_addr C (b, cmd_row c, cmd_col c)) + 4 * int i, cmd_reg_offset c i))
       (filter (cmd_wordmask c) [0..<BUS_WIDTH C]))"

lemma carries_words:
  assumes "carries ddr4_cfg bc r" "4 * 16 dvd br_addr r" "0 \<le> br_addr r" "br_addr r < 2 ^ 32"
  shows "cmd_words ddr4_cfg bc = burst_words 16 r"
proof -
  obtain b c where bc: "bc = (b, c)" by (cases bc)
  have d: "4 * BUS_WIDTH ddr4_cfg dvd nat (br_addr r)"
    using assms(2,3) by (simp add: ddr4_cfg_def) (metis int_nat_eq of_nat_dvd_iff of_nat_numeral)
  have "burst_addr ddr4_cfg (address_translate ddr4_cfg (nat (br_addr r))) = nat (br_addr r)"
    using d assms(3,4) by (intro address_roundtrip[where m = 4 and n = 2 and k = 16 and l = 7]) (simp_all add: ddr4_cfg_def)
  then show ?thesis
    using assms(1,3) by (simp add: carries_def bc cmd_words_def burst_words_def) (simp add: ddr4_cfg_def)
qed

lemma page_top:
  assumes "0 \<le> x" "x < 0xffffc000"
  shows "page ddr4_cfg x \<noteq> page ddr4_cfg no_addr"
proof
  have m: "DRAM_BANKS ddr4_cfg - 2 = 6" by (simp add: ddr4_cfg_def)
  let ?a = "nat x"
  have a: "?a < 0xffffc000" using assms by simp
  have "y AND 6 = 2 * (y div 2 mod 4)" for y :: nat
    using and_push_bit_nat[of y 1 3] and_mask_nat[of "y div 2" 2] by (simp add: push_bit_eq_mult drop_bit_eq_div)
  moreover have "(z mod 2 + 2 * y) div 2 = y" for y z :: nat by simp
  ultimately have and6: "(z mod 2 + 2 * y) AND 6 = 2 * (y mod 4)" for y z :: nat by simp
  have tra: "address_translate ddr4_cfg n = (n div 64 mod 2 + 2 * (n div 16384 mod 4), n div 65536 mod 65536,
      8 * (n div 128 mod 128))" for n
    using address_translate_eq[of ddr4_cfg 4 2 16 7 n] by (simp add: ddr4_cfg_def)
  have p: "page ddr4_cfg x = (2 * (?a div 16384 mod 4), ?a div 65536 mod 65536)"
    "page ddr4_cfg no_addr = (6, 65535)"
    unfolding page_def tra prod.case m and6 by (simp_all add: no_addr_def)
  assume "page ddr4_cfg x = page ddr4_cfg no_addr"
  then have eq: "?a div 16384 mod 4 = 3" "?a div 65536 mod 65536 = 65535" by (simp_all add: p)
  have "?a div 65536 < 65536" using a by simp
  then have "?a div 65536 = 65535" using eq(2) by simp
  moreover have "?a div 65536 = ?a div 16384 div 4" by (simp add: div_mult2_eq[symmetric])
  ultimately have "?a div 16384 = 4 * 65535 + 3" using eq(1) by (metis mult_div_mod_eq)
  then show False using a by (simp add: div_nat_eqI)
qed

text \<open>
  C15. From a descriptor to the DRAM, in the default configuration: for every stride that ends below \<open>0xffffc000\<close> and keeps the limits of
  \<open>stride_ok\<close> (word aligned, at least one word in a period of less than 2 to the 20, the period a power of two or not below the offset
  of the first word in its burst), the requests of the stride sequencer, passed through the command generator, access exactly the
  words of the stride, each once and in order, with every command legal for its bank, and leave all banks precharged for the
  next transfer. The bound leaves out the last pages, for which the generator goes wrong, see \<open>top_page_left_open\<close>.
\<close>

theorem stride_reaches_dram:
  assumes "stride_ok 16 d" "accepts_stride 16 i s d" "4 * sd_end d \<le> 0xffffc000" "closed ddr4_cfg cg"
  shows "\<exists>n. after_cycles (seq_thread_lt 16 T) [i] n s (\<lambda>effs s'.
    case cmdgen_run ddr4_cfg (concat (map eff_reqs effs)) cg of (puts, cg') \<Rightarrow>
      closed ddr4_cfg cg' \<and> (\<forall>b<8. bank_ops (ops_of b puts) None = Some None) \<and>
      map fst (concat (map (cmd_words ddr4_cfg) (transfers puts))) =
        concat (map (\<lambda>j. map (\<lambda>k. sd_addr d + 4 * (sd_period d * j + k)) [0..sd_words d - 1]) [0..sd_period_count d - 1]))"
proof -
  have W: "(16::nat) = 2 ^ 4" "(4::nat) \<le> 16" by simp_all
  obtain e t where e: "seq_thread_lt 16 T i s = Inr (e, t)" "eff_reqs e = []"
    "seq_at 16 d (int 16 * (sd_first d div int 16)) t"
    using stride_accepted[OF W assms(1,2)] by blast
  note lin = stride_accepted_linear[OF assms(2) e(1)]
  obtain n where n: "0 < n" and run: "after_cycles (seq_thread_lt 16 T) [i] n s (\<lambda>effs s'. let reqs = concat (map eff_reqs effs) in
      seq_st s' = CMDGEN_ST_WAIT_ALLPRE \<and> map br_last reqs = replicate (n - 1) False @ [True] \<and>
      (\<forall>r\<in>set reqs. br_write r = sd_write d \<and> br_target r = sd_dst d) \<and>
      map fst (concat (map (burst_words 16) reqs)) = map (\<lambda>(j, k). sd_addr d + 4 * (sd_period d * j + k)) (stride_elems d) \<and>
      (lines_ok 16 d \<longrightarrow> map snd (concat (map (burst_words 16) reqs)) =
         map (\<lambda>(j, k). word_target T d (sd_first d + sd_period d * j + k)) (stride_elems d)))"
    using stride_whole_run[OF W assms(1,2), of T] by blast
  have g: "int 16 * (sd_first d div int 16) < sd_end d"
  proof -
    have "int 16 * (sd_first d div int 16) \<le> sd_first d" by simp
    moreover have "0 \<le> sd_period d * (sd_period_count d - 1)" "1 \<le> sd_words d" using assms(1) by (auto simp: stride_ok_def)
    ultimately show ?thesis by (simp add: sd_end_def)
  qed
  show ?thesis unfolding after_cycles_def stride_elems_concat[symmetric]
  proof (intro exI[of _ n] allI impI)
    fix "is" :: "seq_inputs list" assume len: "length is = n"
    from after_cycles_at[OF run len] obtain effs s' where r: "runE (seq_thread_lt 16 T) ([i] @ is) s = Inr (effs, s')"
      "map br_last (concat (map eff_reqs effs)) = replicate (n - 1) False @ [True]"
      "map fst (concat (map (burst_words 16) (concat (map eff_reqs effs)))) =
        map (\<lambda>(j, k). sd_addr d + 4 * (sd_period d * j + k)) (stride_elems d)"
      by (auto simp: Let_def)
    then obtain effs' where effs: "effs = e # effs'" "runE (seq_thread_lt 16 T) is t = Inr (effs', s')"
      by (auto simp: e(1) bindE_Inr_iff)
    let ?reqs = "concat (map eff_reqs effs)"
    have eq: "?reqs = concat (map eff_reqs effs')" by (simp add: effs(1) e(2))
    have "is \<noteq> []" using len n by auto
    from stride_chain[OF W assms(1) page_top e(3) g lin effs(2) this] assms(3) r(2) len
    have ch: "linear_chain ddr4_cfg ?reqs"
      "\<And>r. r \<in> set ?reqs \<Longrightarrow> 4 * 16 dvd br_addr r \<and> 0 \<le> br_addr r \<and> br_addr r < 2 ^ 32"
      unfolding eq by force+
    obtain puts cg' where c: "cmdgen_run ddr4_cfg ?reqs cg = (puts, cg')" by (cases "cmdgen_run ddr4_cfg ?reqs cg")
    have tr: "run_ok ddr4_cfg ?reqs cg" "closed ddr4_cfg cg'"
      using transfers_run[OF ddr4_cg_ok _ assms(4), of "[?reqs]"] ch(1) c by simp_all
    have b8: "DRAM_BANKS ddr4_cfg = 8" by (simp add: ddr4_cfg_def)
    have legal: "\<forall>b<8. bank_ops (ops_of b puts) None = Some None"
      using tr assms(4) c by (simp add: run_ok_def closed_def b8)
    have "list_all2 (carries ddr4_cfg) (transfers puts) ?reqs" using tr(1) c by (simp add: run_ok_def)
    then have "list_all2 (\<lambda>bc r. cmd_words ddr4_cfg bc = burst_words 16 r) (transfers puts) ?reqs"
      by (rule list.rel_mono_strong) (use carries_words ch(2) in blast)
    then have "map (cmd_words ddr4_cfg) (transfers puts) = map (burst_words 16) ?reqs"
      by (simp add: list_all2_conv_all_nth list_eq_iff_nth_eq)
    with r(1,3) c tr(2) legal show "\<exists>os s'. runE (seq_thread_lt 16 T) ([i] @ is) s = Inr (os, s') \<and>
        (case cmdgen_run ddr4_cfg (concat (map eff_reqs os)) cg of (puts, cg') \<Rightarrow>
          closed ddr4_cfg cg' \<and> (\<forall>b<8. bank_ops (ops_of b puts) None = Some None) \<and>
          map fst (concat (map (cmd_words ddr4_cfg) (transfers puts))) =
            map (\<lambda>(j, k). sd_addr d + 4 * (sd_period d * j + k)) (stride_elems d))"
      by (intro exI[of _ effs] exI[of _ s']) simp
  qed
qed

theorem stride_reaches_dram_witness:
  "\<exists>n. after_cycles (seq_thread_lt 16 1024) [seq_take (sd_example 100 5 20) None] n seq_idle (\<lambda>effs s'.
    case cmdgen_run ddr4_cfg (concat (map eff_reqs effs)) (CmdGen_DDR4 ddr4_cfg) of (puts, cg') \<Rightarrow>
      map fst (concat (map (cmd_words ddr4_cfg) (transfers puts))) =
        concat (map (\<lambda>j. map (\<lambda>k. 100 + 4 * (20 * j + k)) [0..4]) [0..2]))"
proof -
  have "4 * sd_end (sd_example 100 5 20) \<le> 0xffffc000" by (simp add: sd_end_def sd_first_def example_fields)
  from stride_reaches_dram[OF example_ok(1) example_accepted[where x = None] this closed_init, of 1024] show ?thesis
    by (simp add: example_fields) (erule after_cycles_ex_mono, auto split: prod.splits)
qed

end
