(* ===== verification/Mc_DQ.thy ===== *)
theory Mc_DQ
  imports Mc_Storage Registers
begin

text \<open>
  \<open>mc/control/DQ.h\<close>: the data path between the DRAM and the register file or the scratchpad. A burst takes four
  beats of a quarter of its words. Data to be written to the DRAM come two cycles after they were
  asked for, hence the two pipeline stages.
\<close>

record dq_pipe =
  dp_valid :: bool
  dp_beat :: nat
  dp_res :: DQ_reservation
  dp_sp_addr :: nat
  dp_wordmask :: nat

datatype dq_state = DQ_IDLE | DQ_WAIT | DQ_BUSY

text \<open>
  The fields of the class, the local variables of the main thread that outlive an iteration, and the output ports.
\<close>

record dq =
  dqs_pipeline0 :: dq_pipe
  dqs_pipeline1 :: dq_pipe
  dqs_state :: dq_state
  dqs_beat :: nat
  dqs_store :: storage
  dqs_res :: DQ_reservation
  dqs_sp_addr :: nat
  out_vreg_idx_w :: "nat \<Rightarrow> reg_offset"
  out_sp_addr :: nat
  out_enable :: bool
  out_data :: "nat \<Rightarrow> u32"
  out_mask_w :: "nat \<Rightarrow> bool"
  out_write :: bool

record dq_inputs =
  dqi_cycle :: int
  dqi_res :: "DQ_reservation option"
  dqi_data :: "req_if \<Rightarrow> nat \<Rightarrow> u32"
  dqi_reg_mask_w :: "nat \<Rightarrow> bool"

text \<open>The constructor does not set the \<open>valid\<close> flags of the pipeline: its contents are arguments.\<close>

definition DQ :: "dq_pipe \<Rightarrow> dq_pipe \<Rightarrow> DQ_reservation \<Rightarrow> dq" where
  "DQ p0 p1 r = \<lparr>dqs_pipeline0 = p0, dqs_pipeline1 = p1, dqs_state = DQ_IDLE, dqs_beat = 0, dqs_store = Storage,
     dqs_res = r, dqs_sp_addr = 0, out_vreg_idx_w = (\<lambda>_. 0), out_sp_addr = 0, out_enable = False,
     out_data = (\<lambda>_. 0), out_mask_w = (\<lambda>_. False), out_write = False\<rparr>"

definition debug_store_init ::
  "dram_cfg \<Rightarrow> (nat \<Rightarrow> nat \<Rightarrow> u32) \<Rightarrow> nat \<Rightarrow> nat \<Rightarrow> nat \<Rightarrow> nat \<Rightarrow> u32 \<Rightarrow> dq \<Rightarrow> dq res" where
  "debug_store_init C junk bank row col dq_word val s =
     bindE (set_word C junk bank row col dq_word val (dqs_store s)) (\<lambda>st. Inr (s\<lparr>dqs_store := st\<rparr>))"

definition debug_store_read ::
  "dram_cfg \<Rightarrow> (nat \<Rightarrow> nat \<Rightarrow> u32) \<Rightarrow> nat \<Rightarrow> nat \<Rightarrow> nat \<Rightarrow> nat \<Rightarrow> dq \<Rightarrow> (u32 \<times> dq) res" where
  "debug_store_read C junk bank row col dq_word s =
     bindE (get_word C junk bank row col dq_word (dqs_store s)) (\<lambda>(v, st). Inr (v, s\<lparr>dqs_store := st\<rparr>))"

text \<open>The column of word \<open>i\<close> of a beat: two words for each column.\<close>

definition beat_col :: "nat \<Rightarrow> nat \<Rightarrow> nat \<Rightarrow> nat" where
  "beat_col col beat i = col OR drop_bit 1 (i AND 2) OR push_bit 1 beat"

definition dq_lanes :: "dram_cfg \<Rightarrow> nat" where
  "dq_lanes C = BUS_WIDTH C div 4"

definition do_read_word ::
  "dram_cfg \<Rightarrow> (nat \<Rightarrow> nat \<Rightarrow> u32) \<Rightarrow> DQ_reservation \<Rightarrow> nat \<Rightarrow> nat \<Rightarrow> nat \<times> dq \<Rightarrow> (nat \<times> dq) res" where
  "do_read_word C junk R wordmask i js =
    (case js of (j, s) \<Rightarrow>
      if \<not> bit wordmask i then Inr (j, s)
      else
        bindE (get_word C junk (dq_bank R) (dq_row R) (beat_col (dq_col R) (dqs_beat s) i) (i AND 1) (dqs_store s))
          (\<lambda>(v, st). Inr ((j + 1) mod dq_lanes C,
             s\<lparr>dqs_store := st, out_data := (out_data s)(j := v), out_mask_w := (out_mask_w s)(j := True),
               out_vreg_idx_w := (out_vreg_idx_w s)(j := dq_reg_offset R (i + dqs_beat s * BUS_WIDTH C div 4))\<rparr>)))"

definition do_read ::
  "dram_cfg \<Rightarrow> (nat \<Rightarrow> nat \<Rightarrow> u32) \<Rightarrow> DQ_reservation \<Rightarrow> nat \<Rightarrow> nat \<Rightarrow> dq \<Rightarrow> dq res" where
  "do_read C junk R wordmask sp_addr s =
    (let s = s\<lparr>out_data := (\<lambda>i. if i < dq_lanes C then 0 else out_data s i), out_mask_w := (\<lambda>_. False)\<rparr>;
         j = drop_bit 2 sp_addr AND (dq_lanes C - 1)
     in bindE (for_uptoE (dq_lanes C) (do_read_word C junk R wordmask) (j, s))
          (\<lambda>(j, s). Inr (s\<lparr>out_sp_addr := sp_addr mod 2 ^ 18, out_write := True, out_enable := True\<rparr>)))"

definition do_write_req_sp :: "dram_cfg \<Rightarrow> DQ_reservation \<Rightarrow> nat \<Rightarrow> nat \<Rightarrow> dq \<Rightarrow> dq" where
  "do_write_req_sp C R wordmask sp_addr s =
    (let s = s\<lparr>out_sp_addr := sp_addr mod 2 ^ 18, out_mask_w := (\<lambda>_. False)\<rparr>;
         s = for_upto (dq_lanes C) (\<lambda>i s.
           if \<not> bit wordmask i then s
           else s\<lparr>out_vreg_idx_w := (out_vreg_idx_w s)(i := dq_reg_offset R (i + dqs_beat s * BUS_WIDTH C div 4)),
                  out_mask_w := (out_mask_w s)(i := True)\<rparr>) s
     in s\<lparr>out_write := False, out_enable := True\<rparr>)"

definition do_write_word ::
  "dram_cfg \<Rightarrow> (nat \<Rightarrow> nat \<Rightarrow> u32) \<Rightarrow> dq_inputs \<Rightarrow> dq_pipe \<Rightarrow> (nat \<Rightarrow> bool) \<Rightarrow> nat \<Rightarrow> nat \<times> storage \<Rightarrow> (nat \<times> storage) res" where
  "do_write_word C junk inp p wm i js =
    (case js of (j, st) \<Rightarrow>
      if \<not> bit (dp_wordmask p) i then Inr (j, st)
      else
        let R = dp_res p;
            (lane, j) = (if tgt_type (dq_target R) = TARGET_SP then (j, (j + 1) mod dq_lanes C) else (i, j));
            data = dqi_data inp (get_interface (dq_target R)) lane
        in if wm i
           then bindE (set_word C junk (dq_bank R) (dq_row R) (beat_col (dq_col R) (dp_beat p) i) (i AND 1) data st) (\<lambda>st. Inr (j, st))
           else Inr (j, st))"

definition do_write_storage ::
  "dram_cfg \<Rightarrow> (nat \<Rightarrow> nat \<Rightarrow> u32) \<Rightarrow> dq_inputs \<Rightarrow> dq_pipe \<Rightarrow> storage \<Rightarrow> storage res" where
  "do_write_storage C junk inp p st =
    (let sp = tgt_type (dq_target (dp_res p)) = TARGET_SP;
         j = (if sp then drop_bit 2 (dp_sp_addr p) AND (dq_lanes C - 1) else 0);
         wm = (if sp then (\<lambda>_. True) else dqi_reg_mask_w inp)
     in bindE (for_uptoE (dq_lanes C) (do_write_word C junk inp p wm) (j, st)) (\<lambda>(j, st). Inr st))"

text \<open>\<open>sc_bv::to_uint\<close> and the population count of an \<open>unsigned int\<close>.\<close>

definition to_uint :: "nat \<Rightarrow> (nat \<Rightarrow> bool) \<Rightarrow> nat" where
  "to_uint n m = horner_sum of_bool 2 (map m [0..<n]) mod 2 ^ 32"

definition popcount :: "nat \<Rightarrow> nat" where
  "popcount n = length (filter (bit n) [0..<32])"

subsection \<open>The main thread\<close>

text \<open>The case \<open>DQ_BUSY\<close>.\<close>

definition dq_busy :: "dram_cfg \<Rightarrow> (nat \<Rightarrow> nat \<Rightarrow> u32) \<Rightarrow> dq \<Rightarrow> dq res" where
  "dq_busy C junk s =
    (let R = dqs_res s;
         wordmask = drop_bit (dqs_beat s * dq_lanes C) (to_uint (BUS_WIDTH C) (dq_wordmask R)) AND (BUS_WIDTH C - 1);
         words = popcount wordmask
     in bindE
         (if wordmask = 0 then Inr s
          else if dq_write R
          then Inr (let s = do_write_req_sp C R wordmask (dqs_sp_addr s) s in
                 s\<lparr>dqs_pipeline0 := \<lparr>dp_valid = True, dp_beat = dqs_beat s, dp_res = R,
                     dp_sp_addr = dqs_sp_addr s mod 2 ^ 18, dp_wordmask = wordmask\<rparr>\<rparr>)
          else do_read C junk R wordmask (dqs_sp_addr s) s)
         (\<lambda>s. Inr (s\<lparr>dqs_state := (if dqs_beat s = 3 then DQ_IDLE else dqs_state s),
                     dqs_sp_addr := (if tgt_type (dq_target R) = TARGET_SP then (dqs_sp_addr s + 4 * words) mod 2 ^ 32
                                     else dqs_sp_addr s),
                     dqs_beat := dqs_beat s + 1\<rparr>)))"

definition dq_wait :: "dram_cfg \<Rightarrow> (nat \<Rightarrow> nat \<Rightarrow> u32) \<Rightarrow> dq_inputs \<Rightarrow> dq \<Rightarrow> dq res" where
  "dq_wait C junk inp s =
    assertE (dq_cycle (dqs_res s) \<ge> dqi_cycle inp)
      (if dq_cycle (dqs_res s) \<noteq> dqi_cycle inp then Inr s else dq_busy C junk (s\<lparr>dqs_state := DQ_BUSY\<rparr>))"

text \<open>An iteration of the main thread; the output says whether it takes a reservation from the FIFO.\<close>

definition dq_thread_lt :: "dram_cfg \<Rightarrow> (nat \<Rightarrow> nat \<Rightarrow> u32) \<Rightarrow> dq_inputs \<Rightarrow> dq \<Rightarrow> (bool \<times> dq) res" where
  "dq_thread_lt C junk inp s =
    bindE (if dp_valid (dqs_pipeline1 s) then do_write_storage C junk inp (dqs_pipeline1 s) (dqs_store s) else Inr (dqs_store s))
     (\<lambda>st.
      let s = s\<lparr>out_enable := False, dqs_store := st, dqs_pipeline1 := dqs_pipeline0 s,
                dqs_pipeline0 := (dqs_pipeline0 s)\<lparr>dp_valid := False\<rparr>\<rparr>
      in case dqs_state s of
           DQ_IDLE \<Rightarrow>
             (let s = s\<lparr>out_write := False, dqs_beat := 0\<rparr> in
              case dqi_res inp of
                None \<Rightarrow> Inr (False, s)
              | Some R \<Rightarrow>
                  assertE (tgt_type (dq_target R) = TARGET_SP \<or> dq_sp_offset R = 0)
                    (bindE (dq_wait C junk inp (s\<lparr>dqs_res := R, dqs_sp_addr := nat (dq_sp_offset R), dqs_state := DQ_WAIT\<rparr>))
                      (\<lambda>s. Inr (True, s))))
         | DQ_WAIT \<Rightarrow> bindE (dq_wait C junk inp s) (\<lambda>s. Inr (False, s))
         | DQ_BUSY \<Rightarrow> bindE (dq_busy C junk s) (\<lambda>s. Inr (False, s)))"

end
