(* ===== verification/DQ_Props.thy ===== *)
theory DQ_Props
  imports Mc_DQ Storage_Props
begin

text \<open>
  What the data path does with a burst, in terms of the map that \<open>Storage\<close> stands for.
\<close>

subsection \<open>Words of a row\<close>

lemma ddr4_simps [simp]:
  "BUS_WIDTH ddr4_cfg = 16" "DRAM_BANKS ddr4_cfg = 8" "DRAM_COLS ddr4_cfg = 1024" "dq_lanes ddr4_cfg = 4"
  by (simp_all add: ddr4_cfg_def dq_lanes_def)

lemma less4_cases: "(i::nat) < 4 \<Longrightarrow> i = 0 \<or> i = 1 \<or> i = 2 \<or> i = 3" by linarith

text \<open>Word \<open>i\<close> of beat \<open>b\<close> is word \<open>4 b + i\<close> of the burst: the columns of a burst lie side by side.\<close>

lemma or_low: "(8 * q :: nat) OR k = 8 * q + k" if "k < 8"
  using or_disjoint_add_nat[of k 3 q] that by (simp add: mult.commute)

lemma beat_col_eq:
  assumes "8 dvd col" "beat < 4" "i < 4"
  shows "beat_col col beat i = col + 2 * beat + i div 2"
proof -
  obtain q where q: "col = 8 * q" using assms(1) by (elim dvdE)
  have "drop_bit 1 (i AND 2) OR push_bit 1 beat = 2 * beat + i div 2"
    using less4_cases[OF assms(2)] less4_cases[OF assms(3)] by (elim disjE) simp_all
  moreover have "2 * beat + i div 2 < 8" using assms(2,3) by simp
  ultimately show ?thesis using or_low[of "2 * beat + i div 2" q] by (simp add: beat_col_def or.assoc q)
qed

lemma burst_offset:
  assumes "8 dvd col" "col < 1024" "beat < 4" "i < 4"
  shows "data_offset ddr4_cfg (beat_col col beat i) (i AND 1) = 2 * col + (4 * beat + i)"
    "beat_col col beat i < 1024"
proof -
  obtain q where q: "col = 8 * q" using assms(1) by (elim dvdE)
  have "(c * 2) OR (i AND 1) = c * 2 + i mod 2" for c :: nat
    using or_disjoint_add_nat[of "i mod 2" 1 c] by (simp add: and_one_eq)
  from this[of "col + 2 * beat + i div 2"]
  have "data_offset ddr4_cfg (beat_col col beat i) (i AND 1) = ((col + 2 * beat + i div 2) * 2 + i mod 2) mod 2 ^ 32"
    unfolding data_offset_def beat_col_eq[OF assms(1,3,4)] by (simp del: add_mult_distrib)
  also have "(col + 2 * beat + i div 2) * 2 + i mod 2 = 2 * col + (4 * beat + i)" by simp
  finally show "data_offset ddr4_cfg (beat_col col beat i) (i AND 1) = 2 * col + (4 * beat + i)"
    using assms by simp
  show "beat_col col beat i < 1024" using assms by (simp add: beat_col_eq q)
qed

lemma burst_in_array:
  assumes "8 dvd col" "col < 1024" "beat < 4" "i < 4" "b < 8" "r < 2 ^ 20"
  shows "in_array ddr4_cfg b r (beat_col col beat i) (i AND 1)"
proof -
  obtain q where q: "col = 8 * q" using assms(1) by (elim dvdE)
  have "i AND 1 < 2 ^ 10" by (simp add: and_one_eq)
  moreover have "2 * col + (4 * beat + i) < 2048" using assms by (simp add: q)
  ultimately show ?thesis
    using burst_offset[OF assms(1-4)] assms(5,6) by (simp add: in_array_def)
qed

text \<open>Reading a row allocates it, once.\<close>

lemma get_word_row:
  assumes inv: "storage_inv ddr4_cfg st" and b: "b < 8" "r < 2 ^ 20"
  obtains st' d where "storage_inv ddr4_cfg st'" "storage_abs ddr4_cfg st' = mem_ensure ddr4_cfg junk (b, r) (storage_abs ddr4_cfg st)"
    "snd (storage_abs ddr4_cfg st') (b, r) = Some d" "length d = 2048"
    "\<And>c w. in_array ddr4_cfg b r c w \<Longrightarrow> get_word ddr4_cfg junk b r c w st = Inr (d ! data_offset ddr4_cfg c w, st')"
    "\<And>c w. in_array ddr4_cfg b r c w \<Longrightarrow> get_word ddr4_cfg junk b r c w st' = Inr (d ! data_offset ddr4_cfg c w, st')"
proof -
  note C = ddr4_cfg_ok
  obtain B where at: "storage_at ddr4_cfg B st" using inv by (auto simp: storage_inv_def)
  obtain p st' B' where e: "ensure_row ddr4_cfg junk b r st = Inr (p, st')" "storage_at ddr4_cfg B' st'"
    "row_of ddr4_cfg st' b r = Some p" "storage_abs ddr4_cfg st' = mem_ensure ddr4_cfg junk (b, r) (storage_abs ddr4_cfg st)"
    using ensure_row_props[OF C at, of b r] b by (metis ddr4_simps(2))
  have e2: "ensure_row ddr4_cfg junk b r st' = Inr (p, st')"
    using find_bucket[OF e(2), where k = "hash_entry ddr4_cfg b r" and row = r] e(3)
    by (cases "st_hashmap st' (hash_entry ddr4_cfg b r)") (auto simp: ensure_row_def Let_def row_of_def)
  obtain d where d: "data_at (st_heap st') p = Some d" "length d = DRAM_COLS ddr4_cfg * (BUS_WIDTH ddr4_cfg div 8)"
    using row_of_data[OF e(2,3)] .
  then obtain el where el: "st_heap st' p = Some el" "el_data el = d" by (auto simp: data_at_def)
  have "get_word ddr4_cfg junk b r c w t = Inr (d ! data_offset ddr4_cfg c w, st')"
    if "ensure_row ddr4_cfg junk b r t = Inr (p, st')" "in_array ddr4_cfg b r c w" for t c w
    using that el d(2) by (simp add: get_word_def in_array_def get_data_def deref_def)
  note gw = this
  have "snd (storage_abs ddr4_cfg st') (b, r) = Some d" using e(3) d(1) b by (simp add: storage_abs_def)
  moreover have "storage_inv ddr4_cfg st'" using e(2) by (auto simp: storage_inv_def)
  ultimately show thesis using that[of st' d] e(4) d(2) gw[OF e(1)] gw[OF e2] by simp
qed

subsection \<open>The word mask\<close>

definition beat_mask :: "DQ_reservation \<Rightarrow> nat \<Rightarrow> nat" where
  "beat_mask R beat = drop_bit (beat * 4) (to_uint 16 (dq_wordmask R)) AND 15"

definition beat_words :: "DQ_reservation \<Rightarrow> nat \<Rightarrow> nat list" where
  "beat_words R beat = filter (\<lambda>i. dq_wordmask R (4 * beat + i)) [0..<4]"

lemma beat_mask_bit:
  assumes "beat < 4"
  shows "bit (beat_mask R beat) i \<longleftrightarrow> i < 4 \<and> dq_wordmask R (4 * beat + i)"
proof -
  have "horner_sum of_bool 2 (map (dq_wordmask R) [0..<16]) < (2::nat) ^ 16"
    using horner_sum_of_bool_2_less[of "map (dq_wordmask R) [0..<16]"] by (simp add: of_nat_less_imp_less)
  then have u: "to_uint 16 (dq_wordmask R) = horner_sum of_bool 2 (map (dq_wordmask R) [0..<16])"
    by (simp add: to_uint_def)
  have m: "(15::nat) = mask 4" by (simp add: mask_eq_exp_minus_1)
  show ?thesis
    unfolding beat_mask_def u m using assms by (auto simp: bit_simps bit_horner_sum_bit_iff ac_simps simp del: mask_numeral)
qed

lemma beat_mask_filter: "beat < 4 \<Longrightarrow> filter (bit (beat_mask R beat)) [0..<4] = beat_words R beat"
  unfolding beat_words_def by (intro filter_cong) (auto simp: beat_mask_bit)

lemma beat_mask_zero: "beat < 4 \<Longrightarrow> beat_mask R beat = 0 \<longleftrightarrow> beat_words R beat = []"
proof -
  assume b: "beat < 4"
  have "beat_mask R beat = 0 \<longleftrightarrow> (\<forall>i. \<not> bit (beat_mask R beat) i)" by (simp add: bit_eq_iff)
  also have "\<dots> \<longleftrightarrow> beat_words R beat = []" by (auto simp: beat_mask_bit[OF b] beat_words_def filter_empty_conv)
  finally show ?thesis .
qed

lemma popcount_beat: "beat < 4 \<Longrightarrow> popcount (beat_mask R beat) = length (beat_words R beat)"
proof -
  assume b: "beat < 4"
  have "[0..<32] = [0..<4] @ [4..<32]" using upt_add_eq_append[of 0 4 28] by simp
  moreover have "filter (bit (beat_mask R beat)) [4..<32] = []" by (auto simp: filter_empty_conv beat_mask_bit[OF b])
  ultimately show ?thesis by (simp add: popcount_def beat_mask_filter[OF b] del: upt_rec_numeral)
qed

lemma beat_words_concat:
  "concat (map (\<lambda>beat. map ((+) (4 * beat)) (beat_words R beat)) [0..<4]) = filter (dq_wordmask R) [0..<16]"
proof -
  have "[0..<16] = concat (map (\<lambda>beat. map ((+) (4 * beat)) [0..<4]) [0..<4])" by (simp add: upt_conv_Cons)
  then have "filter (dq_wordmask R) [0..<16] = concat (map (\<lambda>beat. filter (dq_wordmask R) (map ((+) (4 * beat)) [0..<4])) [0..<4])"
    by (simp only: filter_concat map_map comp_def)
  then show ?thesis by (simp only: filter_map comp_def beat_words_def)
qed

subsection \<open>Reading a beat\<close>

text \<open>What the data path delivers in a cycle, from its ports: word number in the scratchpad, place in a register, data.\<close>

definition dq_delivers :: "dram_cfg \<Rightarrow> dq \<Rightarrow> (nat \<times> reg_offset \<times> u32) list" where
  "dq_delivers C s =
    (if out_enable s \<and> out_write s
     then map (\<lambda>k. let l = (drop_bit 2 (out_sp_addr s) + k) mod dq_lanes C in
             (drop_bit 2 (out_sp_addr s) + k, out_vreg_idx_w s l, out_data s l))
           [0..<length (filter (out_mask_w s) [0..<dq_lanes C])]
     else [])"

text \<open>The burst a reservation is for: the row it reads and where its words are.\<close>

definition res_ok :: "DQ_reservation \<Rightarrow> bool" where
  "res_ok R \<longleftrightarrow> dq_bank R < 8 \<and> dq_row R < 2 ^ 20 \<and> 8 dvd dq_col R \<and> dq_col R < 1024"

definition row_ready :: "(nat \<Rightarrow> nat \<Rightarrow> u32) \<Rightarrow> DQ_reservation \<Rightarrow> storage \<Rightarrow> storage \<Rightarrow> u32 list \<Rightarrow> bool" where
  "row_ready junk R st st' d \<longleftrightarrow>
    (\<forall>beat<4. \<forall>i<4. \<forall>t\<in>{st, st'}.
       get_word ddr4_cfg junk (dq_bank R) (dq_row R) (beat_col (dq_col R) beat i) (i AND 1) t =
         Inr (d ! (2 * dq_col R + (4 * beat + i)), st'))"

lemma row_ready_ex:
  assumes inv: "storage_inv ddr4_cfg st" and ok: "res_ok R"
  obtains st' d where "storage_inv ddr4_cfg st'"
    "storage_abs ddr4_cfg st' = mem_ensure ddr4_cfg junk (dq_bank R, dq_row R) (storage_abs ddr4_cfg st)"
    "snd (storage_abs ddr4_cfg st') (dq_bank R, dq_row R) = Some d" "length d = 2048" "row_ready junk R st st' d"
proof -
  have b: "dq_bank R < 8" "dq_row R < 2 ^ 20" "8 dvd dq_col R" "dq_col R < 1024" using ok by (simp_all add: res_ok_def)
  obtain st' d where g: "storage_inv ddr4_cfg st'"
    "storage_abs ddr4_cfg st' = mem_ensure ddr4_cfg junk (dq_bank R, dq_row R) (storage_abs ddr4_cfg st)"
    "snd (storage_abs ddr4_cfg st') (dq_bank R, dq_row R) = Some d" "length d = 2048"
    "\<And>c w. in_array ddr4_cfg (dq_bank R) (dq_row R) c w \<Longrightarrow>
       get_word ddr4_cfg junk (dq_bank R) (dq_row R) c w st = Inr (d ! data_offset ddr4_cfg c w, st')"
    "\<And>c w. in_array ddr4_cfg (dq_bank R) (dq_row R) c w \<Longrightarrow>
       get_word ddr4_cfg junk (dq_bank R) (dq_row R) c w st' = Inr (d ! data_offset ddr4_cfg c w, st')"
    using get_word_row[OF inv b(1,2)] by metis
  have "row_ready junk R st st' d"
    unfolding row_ready_def
  proof (intro allI impI ballI)
    fix beat i t assume "beat < (4::nat)" "i < (4::nat)" "t \<in> {st, st'}"
    then show "get_word ddr4_cfg junk (dq_bank R) (dq_row R) (beat_col (dq_col R) beat i) (i AND 1) t =
         Inr (d ! (2 * dq_col R + (4 * beat + i)), st')"
      using g(5,6)[OF burst_in_array[OF b(3,4) _ _ b(1,2)]] burst_offset(1)[OF b(3,4)] by auto
  qed
  with g(1-4) that show thesis by blast
qed

lemma do_read_loop:
  fixes wm :: nat
  assumes rdy: "row_ready junk R (dqs_store s) st' d" and beat: "dqs_beat s < 4" and j0: "j0 < 4" and n: "n \<le> 4"
    and m: "out_mask_w s = (\<lambda>_. False)"
  defines "ws \<equiv> \<lambda>n. filter (bit wm) [0..<n]"
  shows "\<exists>x. for_uptoE n (do_read_word ddr4_cfg junk R wm) (j0, s) = Inr ((j0 + length (ws n)) mod 4, x) \<and>
    x = s\<lparr>dqs_store := if ws n = [] then dqs_store s else st', out_data := out_data x, out_mask_w := out_mask_w x,
          out_vreg_idx_w := out_vreg_idx_w x\<rparr> \<and>
    (\<forall>k<length (ws n). out_data x ((j0 + k) mod 4) = d ! (2 * dq_col R + (4 * dqs_beat s + ws n ! k)) \<and>
       out_vreg_idx_w x ((j0 + k) mod 4) = dq_reg_offset R (4 * dqs_beat s + ws n ! k)) \<and>
    (\<forall>l. out_mask_w x l \<longleftrightarrow> (\<exists>k<length (ws n). l = (j0 + k) mod 4))"
  using n
proof (induction n)
  case 0
  then show ?case using j0 m by (simp add: ws_def)
next
  case (Suc n)
  then obtain x where x: "for_uptoE n (do_read_word ddr4_cfg junk R wm) (j0, s) = Inr ((j0 + length (ws n)) mod 4, x)"
    "x = s\<lparr>dqs_store := if ws n = [] then dqs_store s else st', out_data := out_data x, out_mask_w := out_mask_w x,
          out_vreg_idx_w := out_vreg_idx_w x\<rparr>"
    "\<And>k. k < length (ws n) \<Longrightarrow> out_data x ((j0 + k) mod 4) = d ! (2 * dq_col R + (4 * dqs_beat s + ws n ! k)) \<and>
       out_vreg_idx_w x ((j0 + k) mod 4) = dq_reg_offset R (4 * dqs_beat s + ws n ! k)"
    "\<And>l. out_mask_w x l \<longleftrightarrow> (\<exists>k<length (ws n). l = (j0 + k) mod 4)" by auto
  show ?case
  proof (cases "bit wm n")
    case False
    then have "ws (Suc n) = ws n" by (simp add: ws_def)
    moreover have "do_read_word ddr4_cfg junk R wm n (j, x) = Inr (j, x)" for j using False by (simp add: do_read_word_def)
    ultimately have "for_uptoE (Suc n) (do_read_word ddr4_cfg junk R wm) (j0, s) = Inr ((j0 + length (ws (Suc n))) mod 4, x)"
      using x(1) by simp
    moreover note x(2)[folded \<open>ws (Suc n) = ws n\<close>]
    moreover note x(3,4)[folded \<open>ws (Suc n) = ws n\<close>]
    ultimately show ?thesis by (intro exI[of _ x] conjI) (assumption, assumption, fast, fast)
  next
    case True
    let ?len = "length (ws n)"
    have ws: "ws (Suc n) = ws n @ [n]" using True by (simp add: ws_def)
    have len: "?len < 4" using Suc.prems length_filter_le[of "bit wm" "[0..<n]"] by (simp add: ws_def)
    have bx: "dqs_beat x = dqs_beat s" "dqs_store x = (if ws n = [] then dqs_store s else st')"
      by (subst x(2), simp)+
    have "get_word ddr4_cfg junk (dq_bank R) (dq_row R) (beat_col (dq_col R) (dqs_beat s) n) (n AND 1) (dqs_store x) =
        Inr (d ! (2 * dq_col R + (4 * dqs_beat s + n)), st')"
      using rdy beat Suc.prems by (auto simp: row_ready_def bx(2))
    then have step: "do_read_word ddr4_cfg junk R wm n ((j0 + ?len) mod 4, x) = Inr ((j0 + Suc ?len) mod 4,
        x\<lparr>dqs_store := st', out_data := (out_data x)((j0 + ?len) mod 4 := d ! (2 * dq_col R + (4 * dqs_beat s + n))),
          out_mask_w := (out_mask_w x)((j0 + ?len) mod 4 := True),
          out_vreg_idx_w := (out_vreg_idx_w x)((j0 + ?len) mod 4 := dq_reg_offset R (4 * dqs_beat s + n))\<rparr>)"
      using True by (simp add: do_read_word_def bx(1) mod_Suc_eq mult.commute add.commute)
    have upd: "x\<lparr>dqs_store := st', out_data := f, out_mask_w := g, out_vreg_idx_w := h\<rparr> =
        s\<lparr>dqs_store := st', out_data := f, out_mask_w := g, out_vreg_idx_w := h\<rparr>" for f g h
      by (subst x(2)) simp
    have neq: "(j0 + k) mod 4 \<noteq> (j0 + ?len) mod 4" if "k < ?len" for k
      using ring_pos_inj[OF j0, of k ?len] that len by auto
    define y where "y = s\<lparr>dqs_store := st', out_data := (out_data x)((j0 + ?len) mod 4 := d ! (2 * dq_col R + (4 * dqs_beat s + n))),
          out_mask_w := (out_mask_w x)((j0 + ?len) mod 4 := True),
          out_vreg_idx_w := (out_vreg_idx_w x)((j0 + ?len) mod 4 := dq_reg_offset R (4 * dqs_beat s + n))\<rparr>"
    have y: "out_data y = (out_data x)((j0 + ?len) mod 4 := d ! (2 * dq_col R + (4 * dqs_beat s + n)))"
      "out_mask_w y = (out_mask_w x)((j0 + ?len) mod 4 := True)"
      "out_vreg_idx_w y = (out_vreg_idx_w x)((j0 + ?len) mod 4 := dq_reg_offset R (4 * dqs_beat s + n))"
      by (simp_all add: y_def)
    show ?thesis
    proof (intro exI[of _ y] conjI allI impI)
      show "for_uptoE (Suc n) (do_read_word ddr4_cfg junk R wm) (j0, s) = Inr ((j0 + length (ws (Suc n))) mod 4, y)"
        using step unfolding upd by (simp add: x(1) ws y_def)
      show "y = s\<lparr>dqs_store := if ws (Suc n) = [] then dqs_store s else st', out_data := out_data y, out_mask_w := out_mask_w y,
          out_vreg_idx_w := out_vreg_idx_w y\<rparr>"
        by (simp add: y_def ws)
      show "out_mask_w y l \<longleftrightarrow> (\<exists>k<length (ws (Suc n)). l = (j0 + k) mod 4)" for l
        using x(4)[of l] unfolding y ws by (auto simp: less_Suc_eq)
      fix k assume k: "k < length (ws (Suc n))"
      show "out_data y ((j0 + k) mod 4) = d ! (2 * dq_col R + (4 * dqs_beat s + ws (Suc n) ! k))"
        "out_vreg_idx_w y ((j0 + k) mod 4) = dq_reg_offset R (4 * dqs_beat s + ws (Suc n) ! k)"
        using k x(3)[of k] neq[of k] unfolding y ws by (cases "k = ?len"; simp add: nth_append)+
    qed
  qed
qed

lemma do_read_beat:
  assumes rdy: "row_ready junk R (dqs_store s) st' d" and beat: "dqs_beat s < 4" and sp: "sp + 16 < 2 ^ 18" "4 dvd sp"
  defines "ws \<equiv> beat_words R (dqs_beat s)"
  shows "\<exists>x. do_read ddr4_cfg junk R (beat_mask R (dqs_beat s)) sp s = Inr x \<and>
    dqs_store x = (if ws = [] then dqs_store s else st') \<and>
    (dqs_beat x, dqs_state x, dqs_res x, dqs_sp_addr x, dqs_pipeline0 x, dqs_pipeline1 x) =
      (dqs_beat s, dqs_state s, dqs_res s, dqs_sp_addr s, dqs_pipeline0 s, dqs_pipeline1 s) \<and>
    dq_delivers ddr4_cfg x = map (\<lambda>k. (sp div 4 + k, dq_reg_offset R (4 * dqs_beat s + ws ! k),
      d ! (2 * dq_col R + (4 * dqs_beat s + ws ! k)))) [0..<length ws]"
proof -
  let ?s = "s\<lparr>out_data := (\<lambda>i. if i < 4 then 0 else out_data s i), out_mask_w := (\<lambda>_. False)\<rparr>"
  let ?j = "sp div 4 mod 4"
  have j: "drop_bit 2 sp AND (4 - 1) = ?j" using and_mask_nat[of "sp div 4" 2] by (simp add: drop_bit_eq_div)
  have flt: "filter (bit (beat_mask R (dqs_beat s))) [0..<4] = ws" unfolding ws_def by (rule beat_mask_filter[OF beat])
  obtain x where x: "for_uptoE 4 (do_read_word ddr4_cfg junk R (beat_mask R (dqs_beat s))) (?j, ?s) = Inr ((?j + length ws) mod 4, x)"
    "x = ?s\<lparr>dqs_store := if ws = [] then dqs_store ?s else st', out_data := out_data x, out_mask_w := out_mask_w x,
          out_vreg_idx_w := out_vreg_idx_w x\<rparr>"
    "\<And>k. k < length ws \<Longrightarrow> out_data x ((?j + k) mod 4) = d ! (2 * dq_col R + (4 * dqs_beat s + ws ! k)) \<and>
       out_vreg_idx_w x ((?j + k) mod 4) = dq_reg_offset R (4 * dqs_beat s + ws ! k)"
    "\<And>l. out_mask_w x l \<longleftrightarrow> (\<exists>k<length ws. l = (?j + k) mod 4)"
    using do_read_loop[of junk R ?s st' d ?j 4 "beat_mask R (dqs_beat s)"] rdy beat by (auto simp: flt)
  let ?x = "x\<lparr>out_sp_addr := sp mod 2 ^ 18, out_write := True, out_enable := True\<rparr>"
  have rd: "do_read ddr4_cfg junk R (beat_mask R (dqs_beat s)) sp s = Inr ?x"
    by (simp add: do_read_def Let_def j[simplified] x(1))
  have fields: "dqs_store ?x = (if ws = [] then dqs_store s else st')"
    "(dqs_beat ?x, dqs_state ?x, dqs_res ?x, dqs_sp_addr ?x, dqs_pipeline0 ?x, dqs_pipeline1 ?x) =
      (dqs_beat s, dqs_state s, dqs_res s, dqs_sp_addr s, dqs_pipeline0 s, dqs_pipeline1 s)"
    by (subst x(2), simp)+
  have len: "length ws \<le> 4" unfolding ws_def beat_words_def using length_filter_le[of _ "[0..<4]"] by (metis length_upt diff_zero)
  have cnt: "length (filter (out_mask_w x) [0..<4]) = length ws"
  proof -
    have "length (filter (out_mask_w x) [0..<4]) = card {l. l < 4 \<and> out_mask_w x l}"
      by (simp add: length_filter_conv_card cong: conj_cong)
    also have "{l. l < 4 \<and> out_mask_w x l} = (\<lambda>k. (?j + k) mod 4) ` {..<length ws}" by (auto simp: x(4))
    also have "card \<dots> = length ws"
    proof -
      have "inj_on (\<lambda>k. (?j + k) mod 4) {..<length ws}"
      proof (rule inj_onI)
        fix k k' assume "k \<in> {..<length ws}" "k' \<in> {..<length ws}" "(?j + k) mod 4 = (?j + k') mod 4"
        then show "k = k'" using ring_pos_inj[of ?j 4 k k'] len by simp
      qed
      then show ?thesis by (simp add: card_image)
    qed
    finally show ?thesis .
  qed
  have sa: "drop_bit 2 (out_sp_addr ?x) = sp div 4" using sp by (simp add: drop_bit_eq_div)
  have "dq_delivers ddr4_cfg ?x = map (\<lambda>k. (sp div 4 + k, out_vreg_idx_w x ((sp div 4 + k) mod 4), out_data x ((sp div 4 + k) mod 4)))
      [0..<length ws]"
    unfolding dq_delivers_def sa by (simp add: cnt Let_def)
  also have "\<dots> = map (\<lambda>k. (sp div 4 + k, dq_reg_offset R (4 * dqs_beat s + ws ! k),
      d ! (2 * dq_col R + (4 * dqs_beat s + ws ! k)))) [0..<length ws]"
  proof (intro map_cong refl)
    fix k assume "k \<in> set [0..<length ws]"
    moreover have "(sp div 4 + k) mod 4 = (?j + k) mod 4" by (simp add: mod_add_left_eq)
    ultimately show "(sp div 4 + k, out_vreg_idx_w x ((sp div 4 + k) mod 4), out_data x ((sp div 4 + k) mod 4)) =
      (sp div 4 + k, dq_reg_offset R (4 * dqs_beat s + ws ! k), d ! (2 * dq_col R + (4 * dqs_beat s + ws ! k)))"
      using x(3)[of k] by simp
  qed
  finally have "dq_delivers ddr4_cfg ?x = map (\<lambda>k. (sp div 4 + k, dq_reg_offset R (4 * dqs_beat s + ws ! k),
      d ! (2 * dq_col R + (4 * dqs_beat s + ws ! k)))) [0..<length ws]" .
  with rd fields show ?thesis by blast
qed

end
