(* ===== verification/DQ_Read.thy ===== *)
theory DQ_Read
  imports DQ_Props
begin

text \<open>The run of the data path over a read burst, from the reservation to the last beat.\<close>

definition dq_step ::
  "dram_cfg \<Rightarrow> (nat \<Rightarrow> nat \<Rightarrow> u32) \<Rightarrow> dq_inputs \<Rightarrow> dq \<Rightarrow> ((bool \<times> (nat \<times> reg_offset \<times> u32) list) \<times> dq) res" where
  "dq_step C junk i s = bindE (dq_thread_lt C junk i s) (\<lambda>(b, s). Inr ((b, dq_delivers C s), s))"

definition words_upto :: "DQ_reservation \<Rightarrow> nat \<Rightarrow> nat list" where
  "words_upto R k = concat (map (\<lambda>beat. map ((+) (4 * beat)) (beat_words R beat)) [0..<k])"

lemma words_upto_simps [simp]:
  "words_upto R 0 = []" "words_upto R (Suc k) = words_upto R k @ map ((+) (4 * k)) (beat_words R k)"
  by (simp_all add: words_upto_def)

lemma words_upto_4: "words_upto R 4 = filter (dq_wordmask R) [0..<16]"
  unfolding words_upto_def by (rule beat_words_concat)

lemma words_upto_length: "length (words_upto R k) \<le> 4 * k"
proof (induction k)
  case (Suc k)
  have "length (beat_words R k) \<le> 4" using length_filter_le[of _ "[0..<4]"] unfolding beat_words_def by (metis length_upt diff_zero)
  with Suc show ?case by simp
qed simp

text \<open>Where the words go in the scratchpad: to consecutive words from the offset of the reservation.\<close>

definition sp_start :: "DQ_reservation \<Rightarrow> nat \<Rightarrow> nat" where
  "sp_start R k = (if tgt_type (dq_target R) = TARGET_SP then nat (dq_sp_offset R) + 4 * length (words_upto R k) else nat (dq_sp_offset R))"

definition sp_ok :: "DQ_reservation \<Rightarrow> bool" where
  "sp_ok R \<longleftrightarrow> (if tgt_type (dq_target R) = TARGET_SP then 0 \<le> dq_sp_offset R \<and> 4 dvd dq_sp_offset R \<and> dq_sp_offset R + 80 < 2 ^ 18
     else dq_sp_offset R = 0)"

definition beat_data :: "DQ_reservation \<Rightarrow> u32 list \<Rightarrow> nat \<Rightarrow> (nat \<times> reg_offset \<times> u32) list" where
  "beat_data R d k = map (\<lambda>i. (sp_start R k div 4 + i, dq_reg_offset R (4 * k + beat_words R k ! i),
     d ! (2 * dq_col R + (4 * k + beat_words R k ! i)))) [0..<length (beat_words R k)]"

definition idle_pipe :: "dq \<Rightarrow> bool" where
  "idle_pipe s \<longleftrightarrow> \<not> dp_valid (dqs_pipeline0 s) \<and> \<not> dp_valid (dqs_pipeline1 s)"

text \<open>The state before beat \<open>k\<close>.\<close>

definition rd_at :: "DQ_reservation \<Rightarrow> storage \<Rightarrow> storage \<Rightarrow> nat \<Rightarrow> dq \<Rightarrow> bool" where
  "rd_at R st st' k s \<longleftrightarrow> dqs_res s = R \<and> dqs_beat s = k \<and> idle_pipe s \<and>
     dqs_store s = (if words_upto R k = [] then st else st') \<and> dqs_sp_addr s = sp_start R k"

lemma sp_start_bounds:
  assumes "sp_ok R" "k \<le> 4"
  shows "sp_start R k + 16 < 2 ^ 18" "4 dvd sp_start R k"
proof -
  have "length (words_upto R k) \<le> 16" using words_upto_length[of R k] assms(2) by simp
  then show "sp_start R k + 16 < 2 ^ 18" using assms(1) by (auto simp: sp_start_def sp_ok_def split: if_splits)
  have "4 dvd dq_sp_offset R \<Longrightarrow> 4 dvd nat (dq_sp_offset R)"
    by (metis int_dvd_int_iff nat_0_le nat_eq_iff2 dvd_0_right of_nat_numeral int_eq_iff)
  then show "4 dvd sp_start R k" using assms(1) by (auto simp: sp_start_def sp_ok_def split: if_splits)
qed

lemma busy_read:
  assumes rdy: "row_ready junk R st st' d" and R: "\<not> dq_write R" "sp_ok R" and k: "k < 4" and at: "rd_at R st st' k s"
    and e: "\<not> out_enable s"
  obtains x where "dq_busy ddr4_cfg junk s = Inr x" "rd_at R st st' (Suc k) x"
    "dqs_state x = (if k = 3 then DQ_IDLE else dqs_state s)" "dq_delivers ddr4_cfg x = beat_data R d k"
proof -
  have s: "dqs_res s = R" "dqs_beat s = k" "idle_pipe s" "dqs_store s = (if words_upto R k = [] then st else st')"
    "dqs_sp_addr s = sp_start R k" using at by (simp_all add: rd_at_def)
  note sp = sp_start_bounds[OF R(2), of k] sp_start_bounds[OF R(2), of "Suc k"]
  let ?ws = "beat_words R k"
  have wm: "drop_bit (dqs_beat s * dq_lanes ddr4_cfg) (to_uint (BUS_WIDTH ddr4_cfg) (dq_wordmask R)) AND (BUS_WIDTH ddr4_cfg - 1) = beat_mask R k"
    by (simp add: beat_mask_def s(2))
  have spn: "(if tgt_type (dq_target R) = TARGET_SP then (sp_start R k + 4 * popcount (beat_mask R k)) mod 2 ^ 32 else sp_start R k) =
      sp_start R (Suc k)"
    using sp(3) k by (cases "tgt_type (dq_target R) = TARGET_SP") (simp_all add: sp_start_def popcount_beat)
  define upd where "upd = (\<lambda>x :: dq. x\<lparr>dqs_state := (if dqs_beat x = 3 then DQ_IDLE else dqs_state x), dqs_sp_addr := sp_start R (Suc k), dqs_beat := dqs_beat x + 1\<rparr>)"
  have fin: "x\<lparr>dqs_state := (if dqs_beat x = 3 then DQ_IDLE else dqs_state x),
      dqs_sp_addr := (if tgt_type (dq_target R) = TARGET_SP then (dqs_sp_addr x + 4 * popcount (beat_mask R k)) mod 2 ^ 32 else dqs_sp_addr x),
      dqs_beat := dqs_beat x + 1\<rparr> = upd x" if "dqs_sp_addr x = sp_start R k" for x :: dq
    unfolding that spn upd_def ..
  have dl: "dq_delivers ddr4_cfg (upd x) = dq_delivers ddr4_cfg x" for x by (simp add: dq_delivers_def upd_def)
  show thesis
  proof (cases "?ws = []")
    case True
    then have z: "(beat_mask R k = 0) = True" using beat_mask_zero[OF k] by simp
    have "dq_busy ddr4_cfg junk s = Inr (upd s)"
      unfolding dq_busy_def s(1) wm Let_def z by (simp only: if_True bindE_simps fin[OF s(5)])
    moreover have "rd_at R st st' (Suc k) (upd s)" using s True by (simp add: rd_at_def upd_def idle_pipe_def)
    moreover have "dqs_state (upd s) = (if k = 3 then DQ_IDLE else dqs_state s)" by (simp add: upd_def s)
    moreover have "dq_delivers ddr4_cfg (upd s) = beat_data R d k" unfolding dl using e True by (simp add: dq_delivers_def beat_data_def)
    ultimately show thesis by (rule that)
  next
    case False
    then have nz: "(beat_mask R k = 0) = False" using beat_mask_zero[OF k] by simp
    have "row_ready junk R (dqs_store s) st' d" using rdy unfolding s(4) by (auto simp: row_ready_def)
    from do_read_beat[OF this, of "sp_start R k"] sp(1,2) k False obtain x where
      x: "do_read ddr4_cfg junk R (beat_mask R k) (sp_start R k) s = Inr x" "dqs_store x = st'"
      "(dqs_beat x, dqs_state x, dqs_res x, dqs_sp_addr x, dqs_pipeline0 x, dqs_pipeline1 x) =
        (k, dqs_state s, R, sp_start R k, dqs_pipeline0 s, dqs_pipeline1 s)"
      "dq_delivers ddr4_cfg x = beat_data R d k"
      unfolding s(1,2,5) beat_data_def by auto
    have "dq_busy ddr4_cfg junk s = Inr (upd x)"
    proof -
      have sx: "dqs_sp_addr x = sp_start R k" and w: "dq_write R = False" using x(3) R(1) by simp_all
      show ?thesis unfolding dq_busy_def s(1) wm Let_def nz by (simp only: if_False bindE_simps fin[OF sx] s(5) x(1) w)
    qed
    moreover have "rd_at R st st' (Suc k) (upd x)" using s x False by (simp add: rd_at_def upd_def idle_pipe_def)
    moreover have "dqs_state (upd x) = (if k = 3 then DQ_IDLE else dqs_state s)" using x(3) by (simp add: upd_def)
    moreover have "dq_delivers ddr4_cfg (upd x) = beat_data R d k" unfolding dl by (rule x(4))
    ultimately show thesis by (rule that)
  qed
qed

text \<open>The cycles of a burst in turn, then the wait before it.\<close>

lemma start_of_cycle:
  assumes "idle_pipe s"
  shows "\<exists>u. idle_pipe u \<and> \<not> out_enable u \<and> dqs_res u = dqs_res s \<and> dqs_beat u = dqs_beat s \<and> dqs_store u = dqs_store s \<and>
    dqs_sp_addr u = dqs_sp_addr s \<and> dqs_state u = dqs_state s \<and>
    (dqs_state s = DQ_BUSY \<longrightarrow> dq_thread_lt C junk i s = bindE (dq_busy C junk u) (\<lambda>s. Inr (False, s))) \<and>
    (dqs_state s = DQ_WAIT \<longrightarrow> dq_thread_lt C junk i s = bindE (dq_wait C junk i u) (\<lambda>s. Inr (False, s)))"
  using assms
  by (intro exI[of _ "s\<lparr>out_enable := False, dqs_pipeline1 := dqs_pipeline0 s,
        dqs_pipeline0 := (dqs_pipeline0 s)\<lparr>dp_valid := False\<rparr>\<rparr>"]) (auto simp: dq_thread_lt_def idle_pipe_def Let_def)

lemma busy_run:
  assumes rdy: "row_ready junk R st st' d" and R: "\<not> dq_write R" "sp_ok R"
  shows "rd_at R st st' k s \<Longrightarrow> dqs_state s = DQ_BUSY \<Longrightarrow> k + length is = 4 \<Longrightarrow> k < 4 \<Longrightarrow>
    \<exists>os s'. runE (dq_step ddr4_cfg junk) is s = Inr (os, s') \<and> concat (map snd os) = concat (map (beat_data R d) [k..<4]) \<and>
      rd_at R st st' 4 s' \<and> dqs_state s' = DQ_IDLE"
proof (induction "is" arbitrary: k s)
  case (Cons i "is")
  have "idle_pipe s" using Cons.prems(1) by (simp add: rd_at_def)
  from start_of_cycle[OF this, of ddr4_cfg junk i] obtain u where u: "idle_pipe u" "\<not> out_enable u" "dqs_res u = dqs_res s"
    "dqs_beat u = dqs_beat s" "dqs_store u = dqs_store s" "dqs_sp_addr u = dqs_sp_addr s" "dqs_state u = DQ_BUSY"
    "dq_thread_lt ddr4_cfg junk i s = bindE (dq_busy ddr4_cfg junk u) (\<lambda>s. Inr (False, s))"
    using Cons.prems(2) by auto
  have "rd_at R st st' k u" using Cons.prems(1) u by (simp add: rd_at_def)
  from busy_read[OF rdy R Cons.prems(4) this u(2)] obtain x where x: "dq_busy ddr4_cfg junk u = Inr x" "rd_at R st st' (Suc k) x"
    "dqs_state x = (if k = 3 then DQ_IDLE else DQ_BUSY)" "dq_delivers ddr4_cfg x = beat_data R d k"
    using u(7) by metis
  have step: "dq_step ddr4_cfg junk i s = Inr ((False, beat_data R d k), x)"
    by (simp add: dq_step_def u(8) x(1,4))
  have split: "[k..<4] = k # [Suc k..<4]" using Cons.prems(4) by (simp add: upt_conv_Cons)
  show ?case
  proof (cases "k = 3")
    case True
    then have "is = []" using Cons.prems(3) by simp
    with True show ?thesis using x(2,3) by (simp add: step split)
  next
    case False
    then have "Suc k + length is = 4" "Suc k < 4" using Cons.prems(3,4) by auto
    from Cons.IH[OF x(2) _ this] x(3) False obtain os s' where
      "runE (dq_step ddr4_cfg junk) is x = Inr (os, s')" "concat (map snd os) = concat (map (beat_data R d) [Suc k..<4])"
      "rd_at R st st' 4 s'" "dqs_state s' = DQ_IDLE" by auto
    then show ?thesis by (simp add: step split)
  qed
qed simp

text \<open>The state of the data path when nothing is in its pipeline: what the burst at hand depends on.\<close>

definition same_burst :: "dq \<Rightarrow> dq \<Rightarrow> bool" where
  "same_burst u s \<longleftrightarrow> idle_pipe u \<and> dqs_res u = dqs_res s \<and> dqs_beat u = dqs_beat s \<and> dqs_store u = dqs_store s \<and>
     dqs_sp_addr u = dqs_sp_addr s"

lemma wait_is_busy:
  assumes "idle_pipe s" "dqs_state s = DQ_WAIT" "dqi_cycle i = dq_cycle (dqs_res s)"
  shows "dq_step C junk i s = dq_step C junk i (s\<lparr>dqs_state := DQ_BUSY\<rparr>)"
proof -
  let ?u = "s\<lparr>out_enable := False, dqs_pipeline1 := dqs_pipeline0 s, dqs_pipeline0 := (dqs_pipeline0 s)\<lparr>dp_valid := False\<rparr>\<rparr>"
  have "?u\<lparr>dqs_state := DQ_BUSY\<rparr> = s\<lparr>dqs_state := DQ_BUSY, out_enable := False, dqs_pipeline1 := dqs_pipeline0 s,
      dqs_pipeline0 := (dqs_pipeline0 s)\<lparr>dp_valid := False\<rparr>\<rparr>"
    by (rule dq.equality) simp_all
  moreover have "dq_thread_lt C junk i s = bindE (dq_busy C junk (?u\<lparr>dqs_state := DQ_BUSY\<rparr>)) (\<lambda>s. Inr (False, s))"
    using assms by (simp add: dq_thread_lt_def idle_pipe_def Let_def dq_wait_def)
  moreover have "dq_thread_lt C junk i (s\<lparr>dqs_state := DQ_BUSY\<rparr>) = bindE (dq_busy C junk (s\<lparr>dqs_state := DQ_BUSY,
      out_enable := False, dqs_pipeline1 := dqs_pipeline0 s, dqs_pipeline0 := (dqs_pipeline0 s)\<lparr>dp_valid := False\<rparr>\<rparr>))
      (\<lambda>s. Inr (False, s))"
    using assms by (simp add: dq_thread_lt_def idle_pipe_def Let_def)
  ultimately show ?thesis by (simp only: dq_step_def)
qed

text \<open>Waiting for the data takes the cycles before the one of the reservation; in that one the first beat is due.\<close>

lemma wait_phase:
  "idle_pipe s \<Longrightarrow> dqs_state s = DQ_WAIT \<Longrightarrow> n < length is \<Longrightarrow>
    (\<And>j. j \<le> n \<Longrightarrow> dqi_cycle (is ! j) = dq_cycle (dqs_res s) - int (n - j)) \<Longrightarrow>
    \<exists>u. same_burst u s \<and> dqs_state u = DQ_BUSY \<and>
      runE (dq_step C junk) is s =
        bindE (runE (dq_step C junk) (drop n is) u) (\<lambda>(os, s'). Inr (replicate n (False, []) @ os, s'))"
proof (induction n arbitrary: "is" s)
  case 0
  then obtain i is' where i: "is = i # is'" by (cases "is") auto
  have "runE (dq_step C junk) is s = runE (dq_step C junk) is (s\<lparr>dqs_state := DQ_BUSY\<rparr>)"
    using wait_is_busy[OF 0(1,2), of i C junk] 0(4)[of 0] by (simp add: i)
  then show ?case
    using 0(1) by (intro exI[of _ "s\<lparr>dqs_state := DQ_BUSY\<rparr>"]) (simp add: same_burst_def idle_pipe_def bindE_Inr_right del: runE.simps)
next
  case (Suc n)
  then obtain i is' where i: "is = i # is'" by (cases "is") auto
  from start_of_cycle[OF Suc.prems(1), of C junk i] obtain u where u: "idle_pipe u" "\<not> out_enable u" "dqs_res u = dqs_res s"
    "dqs_beat u = dqs_beat s" "dqs_store u = dqs_store s" "dqs_sp_addr u = dqs_sp_addr s" "dqs_state u = DQ_WAIT"
    "dq_thread_lt C junk i s = bindE (dq_wait C junk i u) (\<lambda>s. Inr (False, s))"
    using Suc.prems(2) by auto
  have "dqi_cycle i = dq_cycle (dqs_res u) - int (Suc n)" using Suc.prems(4)[of 0] i u(3) by simp
  then have step: "dq_step C junk i s = Inr ((False, []), u)"
    using u(2) by (simp add: dq_step_def u(8) dq_wait_def dq_delivers_def)
  have "dqi_cycle (is' ! j) = dq_cycle (dqs_res u) - int (n - j)" if "j \<le> n" for j
    using Suc.prems(4)[of "Suc j"] that i u(3) by simp
  moreover have "n < length is'" using Suc.prems(3) i by simp
  ultimately obtain v where v: "same_burst v u" "dqs_state v = DQ_BUSY" "runE (dq_step C junk) is' u =
        bindE (runE (dq_step C junk) (drop n is') v) (\<lambda>(os, s'). Inr (replicate n (False, []) @ os, s'))"
    using Suc.IH[OF u(1,7), of is'] by auto
  have "runE (dq_step C junk) is s =
      bindE (runE (dq_step C junk) (drop (Suc n) is) v) (\<lambda>(os, s'). Inr (replicate (Suc n) (False, []) @ os, s'))"
    unfolding i by (cases "runE (dq_step C junk) (drop n is') v") (auto simp: step v(3))
  with v(1,2) u show ?case by (intro exI[of _ v]) (simp add: same_burst_def)
qed

lemma wait_run:
  assumes rdy: "row_ready junk R st st' d" and R: "\<not> dq_write R" "sp_ok R"
    and s: "rd_at R st st' 0 s" "dqs_state s = DQ_WAIT" and len: "length is = n + 4"
    and cyc: "\<And>j. j \<le> n \<Longrightarrow> dqi_cycle (is ! j) = dq_cycle R - int (n - j)"
  shows "\<exists>os s'. runE (dq_step ddr4_cfg junk) is s = Inr (os, s') \<and> concat (map snd os) = concat (map (beat_data R d) [0..<4]) \<and>
      rd_at R st st' 4 s' \<and> dqs_state s' = DQ_IDLE"
proof -
  have "idle_pipe s" "dqs_res s = R" using s(1) by (simp_all add: rd_at_def)
  with wait_phase[OF this(1) s(2), of n "is" ddr4_cfg junk] len cyc obtain u where
    u: "same_burst u s" "dqs_state u = DQ_BUSY" "runE (dq_step ddr4_cfg junk) is s =
        bindE (runE (dq_step ddr4_cfg junk) (drop n is) u) (\<lambda>(os, s'). Inr (replicate n (False, []) @ os, s'))"
    by auto
  have "rd_at R st st' 0 u" using u(1) s(1) by (simp add: same_burst_def rd_at_def)
  from busy_run[OF rdy R this u(2), of "drop n is"] len obtain os s' where
    "runE (dq_step ddr4_cfg junk) (drop n is) u = Inr (os, s')" "concat (map snd os) = concat (map (beat_data R d) [0..<4])"
    "rd_at R st st' 4 s'" "dqs_state s' = DQ_IDLE" by auto
  then show ?thesis by (intro exI[of _ "replicate n (False, []) @ os"] exI[of _ s']) (simp add: u(3) map_replicate_const)
qed

text \<open>Taking the reservation from the FIFO.\<close>

definition takes_res :: "dq_inputs \<Rightarrow> dq \<Rightarrow> DQ_reservation \<Rightarrow> bool" where
  "takes_res i s R \<longleftrightarrow> dqs_state s = DQ_IDLE \<and> idle_pipe s \<and> dqi_res i = Some R \<and> res_ok R \<and> sp_ok R"

lemma idle_like_wait:
  assumes "takes_res i s R"
  obtains u where "dq_step C junk i s = bindE (dq_step C junk i u) (\<lambda>((b, ds), x). Inr ((True, ds), x))"
    "dqs_state u = DQ_WAIT" "dqs_res u = R" "dqs_beat u = 0" "idle_pipe u" "dqs_store u = dqs_store s"
    "dqs_sp_addr u = sp_start R 0"
proof -
  let ?u = "s\<lparr>out_write := False, dqs_beat := 0, dqs_res := R, dqs_sp_addr := nat (dq_sp_offset R), dqs_state := DQ_WAIT\<rparr>"
  have a: "tgt_type (dq_target R) = TARGET_SP \<or> dq_sp_offset R = 0"
    using assms by (auto simp: takes_res_def sp_ok_def split: if_splits)
  let ?v = "s\<lparr>out_enable := False, dqs_pipeline1 := dqs_pipeline0 s, dqs_pipeline0 := (dqs_pipeline0 s)\<lparr>dp_valid := False\<rparr>,
      out_write := False, dqs_beat := 0, dqs_res := R, dqs_sp_addr := nat (dq_sp_offset R), dqs_state := DQ_WAIT\<rparr>"
  let ?w = "?u\<lparr>out_enable := False, dqs_pipeline1 := dqs_pipeline0 s, dqs_pipeline0 := (dqs_pipeline0 s)\<lparr>dp_valid := False\<rparr>\<rparr>"
  have eq: "?w = ?v" by (rule dq.equality) simp_all
  have "dq_thread_lt C junk i s = bindE (dq_wait C junk i ?v) (\<lambda>s. Inr (True, s))"
    using assms a by (simp add: dq_thread_lt_def takes_res_def idle_pipe_def Let_def)
  moreover have "dq_thread_lt C junk i ?u = bindE (dq_wait C junk i ?w) (\<lambda>s. Inr (False, s))"
    using assms by (simp add: dq_thread_lt_def takes_res_def idle_pipe_def Let_def)
  ultimately have "dq_step C junk i s = bindE (dq_step C junk i ?u) (\<lambda>((b, ds), x). Inr ((True, ds), x))"
    unfolding eq by (cases "dq_wait C junk i ?v") (simp_all add: dq_step_def)
  then show thesis by (rule that[of ?u]) (use assms in \<open>auto simp: takes_res_def idle_pipe_def sp_start_def\<close>)
qed

lemma beat_data_list:
  "map snd (concat (map (beat_data R d) [0..<n])) = map (\<lambda>w. (dq_reg_offset R w, d ! (2 * dq_col R + w))) (words_upto R n)"
proof (induction n)
  case (Suc n)
  have "map snd (beat_data R d n) = map (\<lambda>w. (dq_reg_offset R (4 * n + w), d ! (2 * dq_col R + (4 * n + w)))) (beat_words R n)"
    by (rule nth_equalityI) (simp_all add: beat_data_def)
  with Suc show ?case by (simp add: comp_def)
qed simp

lemma beat_data_places:
  assumes "tgt_type (dq_target R) = TARGET_SP" "4 dvd nat (dq_sp_offset R)"
  shows "map fst (concat (map (beat_data R d) [0..<n])) =
    [nat (dq_sp_offset R) div 4..<nat (dq_sp_offset R) div 4 + length (words_upto R n)]"
proof (induction n)
  case (Suc n)
  let ?a = "nat (dq_sp_offset R) div 4"
  have "map fst (beat_data R d n) = map (\<lambda>i. sp_start R n div 4 + i) [0..<length (beat_words R n)]"
    by (simp add: beat_data_def comp_def)
  also have "\<dots> = [sp_start R n div 4..<sp_start R n div 4 + length (beat_words R n)]" using map_add_upt[of "sp_start R n div 4" "length (beat_words R n)"] by (simp add: add.commute)
  also have "sp_start R n div 4 = nat (dq_sp_offset R) div 4 + length (words_upto R n)" using assms by (auto simp: sp_start_def)
  finally have "map fst (beat_data R d n) = [?a + length (words_upto R n)..<?a + length (words_upto R n) + length (beat_words R n)]" .
  then show ?case
    using Suc upt_add_eq_append[of ?a "?a + length (words_upto R n)" "length (beat_words R n)"] by (simp add: add.assoc)
qed simp

text \<open>
  C20. A read burst, in the default configuration of 8 banks of 1024 columns, for a reservation whose bank, row and column exist: from the
  cycle in which the data path, with its pipeline empty, takes the reservation, over the wait for the data and the four beats, it delivers exactly the words of the
  word mask, in order, with the data the memory holds at the bank, row and column of the reservation and the register place of each; words
  for the scratchpad go to consecutive places from the offset of the reservation. The memory keeps its contents, but for a row allocated
  because it was not there yet.
\<close>

theorem dq_reads_burst:
  assumes "takes_res (is ! 0) s R" "\<not> dq_write R" "storage_inv ddr4_cfg (dqs_store s)"
    and "length is = n + 4" "\<And>j. j \<le> n \<Longrightarrow> dqi_cycle (is ! j) = dq_cycle R - int (n - j)"
  shows "\<exists>os s' d. runE (dq_step ddr4_cfg junk) is s = Inr (os, s') \<and> dqs_state s' = DQ_IDLE \<and>
    snd (mem_ensure ddr4_cfg junk (dq_bank R, dq_row R) (storage_abs ddr4_cfg (dqs_store s))) (dq_bank R, dq_row R) = Some d \<and>
    map snd (concat (map snd os)) = map (\<lambda>w. (dq_reg_offset R w, d ! (2 * dq_col R + w))) (filter (dq_wordmask R) [0..<16]) \<and>
    (tgt_type (dq_target R) = TARGET_SP \<longrightarrow> map fst (concat (map snd os)) =
      [nat (dq_sp_offset R) div 4..<nat (dq_sp_offset R) div 4 + length (filter (dq_wordmask R) [0..<16])]) \<and>
    storage_abs ddr4_cfg (dqs_store s') = (if filter (dq_wordmask R) [0..<16] = [] then storage_abs ddr4_cfg (dqs_store s)
      else mem_ensure ddr4_cfg junk (dq_bank R, dq_row R) (storage_abs ddr4_cfg (dqs_store s)))"
proof -
  have ok: "res_ok R" "sp_ok R" using assms(1) by (simp_all add: takes_res_def)
  obtain st' d where st: "storage_abs ddr4_cfg st' = mem_ensure ddr4_cfg junk (dq_bank R, dq_row R) (storage_abs ddr4_cfg (dqs_store s))"
    "snd (storage_abs ddr4_cfg st') (dq_bank R, dq_row R) = Some d" "row_ready junk R (dqs_store s) st' d"
    using row_ready_ex[OF assms(3) ok(1)] by metis
  obtain i is' where i: "is = i # is'" using assms(4) by (cases "is") auto
  obtain u where u: "dq_step ddr4_cfg junk i s = bindE (dq_step ddr4_cfg junk i u) (\<lambda>((b, ds), x). Inr ((True, ds), x))"
    "dqs_state u = DQ_WAIT" "dqs_res u = R" "dqs_beat u = 0" "idle_pipe u" "dqs_store u = dqs_store s" "dqs_sp_addr u = sp_start R 0"
    using idle_like_wait[of i s R ddr4_cfg junk] assms(1) i by auto
  have "rd_at R (dqs_store s) st' 0 u" using u by (simp add: rd_at_def)
  from wait_run[OF st(3) assms(2) ok(2) this u(2) assms(4,5)] obtain os s' where
    r: "runE (dq_step ddr4_cfg junk) is u = Inr (os, s')" "concat (map snd os) = concat (map (beat_data R d) [0..<4])"
      "rd_at R (dqs_store s) st' 4 s'" "dqs_state s' = DQ_IDLE" by blast
  obtain b ds x os' where x: "dq_step ddr4_cfg junk i u = Inr ((b, ds), x)" "runE (dq_step ddr4_cfg junk) is' x = Inr (os', s')"
    "os = (b, ds) # os'"
    using r(1) by (auto simp: i bindE_Inr_iff)
  have "runE (dq_step ddr4_cfg junk) is s = Inr ((True, ds) # os', s')" by (simp add: i u(1) x(1,2))
  moreover have eq: "concat (map snd ((True, ds) # os')) = concat (map (beat_data R d) [0..<4])" using r(2) x(3) by simp
  moreover have "4 dvd nat (dq_sp_offset R)" using sp_start_bounds(2)[OF ok(2), of 0] by (simp add: sp_start_def split: if_splits)
  ultimately show ?thesis
    using r(3,4) st(1,2) beat_data_list[of R d 4] beat_data_places[of R d 4]
    by (intro exI[of _ "(True, ds) # os'"] exI[of _ s'] exI[of _ d]) (simp add: eq words_upto_4 rd_at_def)
qed

definition example_res :: "bool \<Rightarrow> DQ_reservation" where
  "example_res w = \<lparr>dq_cycle = 10, dq_wordmask = (\<lambda>i. i = 3 \<or> i = 9), dq_row = 5, dq_col = 16, dq_bank = 2,
     dq_target = \<lparr>tgt_wg = 0, tgt_type = TARGET_REG\<rparr>, dq_reg_offset = (\<lambda>i. reg_offset_lane_row 1024 i 0), dq_write = w, dq_sp_offset = 0\<rparr>"

definition dq_idle :: dq where
  "dq_idle = (let p = \<lparr>dp_valid = False, dp_beat = 0, dp_res = example_res False, dp_sp_addr = 0, dp_wordmask = 0\<rparr>
     in DQ p p (example_res False))"

definition dq_at :: "int \<Rightarrow> bool \<Rightarrow> dq_inputs" where
  "dq_at c w = \<lparr>dqi_cycle = c, dqi_res = Some (example_res w), dqi_data = (\<lambda>_ i. of_nat (40 + i)), dqi_reg_mask_w = (\<lambda>_. True)\<rparr>"

lemma example_takes: "takes_res (dq_at c w) dq_idle (example_res w)"
  by (simp add: takes_res_def dq_idle_def DQ_def dq_at_def example_res_def idle_pipe_def res_ok_def sp_ok_def Let_def)

lemma example_store: "dqs_store dq_idle = Storage"
  by (simp add: dq_idle_def DQ_def Let_def)

theorem dq_reads_burst_witness:
  "\<exists>os s'. runE (dq_step ddr4_cfg (\<lambda>_ i. of_nat i)) [dq_at 9 False, dq_at 10 False, dq_at 11 False, dq_at 12 False, dq_at 13 False] dq_idle =
      Inr (os, s') \<and>
    map snd (concat (map snd os)) = [(reg_offset_lane_row 1024 3 0, 35), (reg_offset_lane_row 1024 9 0, 41)]"
proof -
  let ?is = "[dq_at 9 False, dq_at 10 False, dq_at 11 False, dq_at 12 False, dq_at 13 False]" and ?j = "\<lambda>_ i. of_nat i :: u32"
  have t: "takes_res (?is ! 0) dq_idle (example_res False)" using example_takes by simp
  have inv: "storage_inv ddr4_cfg (dqs_store dq_idle)" by (simp add: example_store storage_inv_init)
  have cyc: "j \<le> 1 \<Longrightarrow> dqi_cycle (?is ! j) = dq_cycle (example_res False) - int (1 - j)" for j
    by (cases j) (simp_all add: dq_at_def example_res_def)
  have len: "length ?is = 1 + 4" by simp
  have flt: "filter (dq_wordmask (example_res False)) [0..<16] = [3, 9]"
    by (simp add: example_res_def upt_conv_Cons)
  have w: "\<not> dq_write (example_res False)" by (simp add: example_res_def)
  from dq_reads_burst[OF t w inv len cyc, of ?j] obtain os s' d where r: "runE (dq_step ddr4_cfg ?j) ?is dq_idle = Inr (os, s')"
    "snd (mem_ensure ddr4_cfg ?j (dq_bank (example_res False), dq_row (example_res False)) (storage_abs ddr4_cfg (dqs_store dq_idle)))
      (dq_bank (example_res False), dq_row (example_res False)) = Some d"
    "map snd (concat (map snd os)) = map (\<lambda>w. (dq_reg_offset (example_res False) w, d ! (2 * dq_col (example_res False) + w))) [3, 9]"
    unfolding flt by blast
  have "d = map (?j 0) [0..<2048]" using r(2) by (simp add: example_store storage_abs_init mem_ensure_def alloc_row_def)
  then show ?thesis using r(1,3) by (intro exI[of _ os] exI[of _ s']) (simp add: example_res_def)
qed

end
