(* ===== verification/DQ_Write.thy ===== *)
theory DQ_Write
  imports DQ_Read
begin

text \<open>
  The run of the data path over a write burst. The data of a beat come from the register file or the scratchpad two
  cycles after they were asked for.
\<close>

definition beat_writes :: "DQ_reservation \<Rightarrow> dq_inputs \<Rightarrow> nat \<Rightarrow> mem_op list" where
  "beat_writes R inp beat = concat (map (\<lambda>(k, i).
     if tgt_type (dq_target R) = TARGET_SP \<or> dqi_reg_mask_w inp i
     then [Set_Word (dq_bank R) (dq_row R) (beat_col (dq_col R) beat i) (i AND 1)
             (dqi_data inp (get_interface (dq_target R))
               (if tgt_type (dq_target R) = TARGET_SP then (sp_start R beat div 4 + k) mod 4 else i))]
     else []) (enumerate 0 (beat_words R beat)))"

definition mem_after :: "(nat \<Rightarrow> nat \<Rightarrow> u32) \<Rightarrow> mem_op list \<Rightarrow> nat \<times> (nat \<times> nat \<rightharpoonup> u32 list) \<Rightarrow> nat \<times> (nat \<times> nat \<rightharpoonup> u32 list)" where
  "mem_after junk ops a = snd (mealy (mem_step ddr4_cfg junk) ops a)"

lemma mem_after_simps [simp]:
  "mem_after junk [] a = a" "mem_after junk (x # xs) a = mem_after junk xs (snd (mem_step ddr4_cfg junk x a))"
  by (simp_all add: mem_after_def split_def Let_def)

lemma mem_after_append [simp]: "mem_after junk (xs @ ys) a = mem_after junk ys (mem_after junk xs a)"
  by (induction xs arbitrary: a) simp_all

lemma set_word_mem:
  assumes "storage_inv ddr4_cfg st" "in_array ddr4_cfg b r c w"
  obtains st' where "set_word ddr4_cfg junk b r c w v st = Inr st'" "storage_inv ddr4_cfg st'"
    "storage_abs ddr4_cfg st' = mem_after junk [Set_Word b r c w v] (storage_abs ddr4_cfg st)"
  using storage_step_simulates[OF ddr4_cfg_ok assms(1), of "Set_Word b r c w v" junk] assms(2)
  by (auto simp: bindE_Inr_iff)

text \<open>The pipeline register of a beat.\<close>

definition beat_pipe :: "DQ_reservation \<Rightarrow> nat \<Rightarrow> dq_pipe" where
  "beat_pipe R beat = \<lparr>dp_valid = True, dp_beat = beat, dp_res = R, dp_sp_addr = sp_start R beat, dp_wordmask = beat_mask R beat\<rparr>"

lemma do_write_loop:
  assumes inv: "storage_inv ddr4_cfg st" and ok: "res_ok R" and beat: "beat < 4" and n: "n \<le> 4" and j0: "j0 < 4"
    and wm: "wm = (if tgt_type (dq_target R) = TARGET_SP then (\<lambda>_. True) else dqi_reg_mask_w inp)"
    and sp: "tgt_type (dq_target R) = TARGET_SP \<longrightarrow> j0 = sp_start R beat div 4 mod 4"
  defines "ws \<equiv> \<lambda>n. filter (bit (beat_mask R beat)) [0..<n]"
  defines "f \<equiv> \<lambda>(k, i). if tgt_type (dq_target R) = TARGET_SP \<or> dqi_reg_mask_w inp i
     then [Set_Word (dq_bank R) (dq_row R) (beat_col (dq_col R) beat i) (i AND 1)
             (dqi_data inp (get_interface (dq_target R))
               (if tgt_type (dq_target R) = TARGET_SP then (sp_start R beat div 4 + k) mod 4 else i))] else []"
  shows "\<exists>st'. for_uptoE n (do_write_word ddr4_cfg junk inp (beat_pipe R beat) wm) (j0, st) =
      Inr (if tgt_type (dq_target R) = TARGET_SP then (j0 + length (ws n)) mod 4 else j0, st') \<and>
    storage_inv ddr4_cfg st' \<and> storage_abs ddr4_cfg st' = mem_after junk (concat (map f (enumerate 0 (ws n)))) (storage_abs ddr4_cfg st)"
  using n
proof (induction n)
  case 0
  then show ?case using j0 inv by (simp add: ws_def)
next
  case (Suc n)
  let ?sp = "tgt_type (dq_target R) = TARGET_SP"
  obtain st' where st: "for_uptoE n (do_write_word ddr4_cfg junk inp (beat_pipe R beat) wm) (j0, st) =
      Inr (if ?sp then (j0 + length (ws n)) mod 4 else j0, st')" "storage_inv ddr4_cfg st'"
    "storage_abs ddr4_cfg st' = mem_after junk (concat (map f (enumerate 0 (ws n)))) (storage_abs ddr4_cfg st)"
    using Suc by auto
  let ?j = "if ?sp then (j0 + length (ws n)) mod 4 else j0"
  show ?case
  proof (cases "bit (beat_mask R beat) n")
    case False
    then have "ws (Suc n) = ws n" by (simp add: ws_def)
    moreover have "do_write_word ddr4_cfg junk inp (beat_pipe R beat) wm n (?j, st') = Inr (?j, st')"
      using False by (simp add: do_write_word_def beat_pipe_def)
    ultimately show ?thesis using st by simp
  next
    case True
    have ws: "ws (Suc n) = ws n @ [n]" using True by (simp add: ws_def)
    have en: "enumerate 0 (ws (Suc n)) = enumerate 0 (ws n) @ [(length (ws n), n)]" by (simp add: ws enumerate_append_eq)
    have j': "(if ?sp then (?j + 1) mod 4 else ?j) = (if ?sp then (j0 + length (ws (Suc n))) mod 4 else j0)"
      by (simp add: ws mod_Suc_eq)
    have lane: "?sp \<Longrightarrow> ?j = (sp_start R beat div 4 + length (ws n)) mod 4" using sp by (simp add: mod_add_left_eq)
    have n4: "n < 4" using Suc.prems by simp
    let ?v = "dqi_data inp (get_interface (dq_target R)) (if ?sp then ?j else n)"
    show ?thesis
    proof (cases "wm n")
      case False
      then have "f (length (ws n), n) = []" by (auto simp: f_def wm split: if_splits)
      moreover have "do_write_word ddr4_cfg junk inp (beat_pipe R beat) wm n (?j, st') =
          Inr (if ?sp then (j0 + length (ws (Suc n))) mod 4 else j0, st')"
        using True False j' by (auto simp: do_write_word_def beat_pipe_def Let_def)
      ultimately show ?thesis using st by (simp add: en)
    next
      case w: True
      have arr: "in_array ddr4_cfg (dq_bank R) (dq_row R) (beat_col (dq_col R) beat n) (n AND 1)"
        using ok beat n4 by (intro burst_in_array) (simp_all add: res_ok_def)
      obtain st2 where st2: "set_word ddr4_cfg junk (dq_bank R) (dq_row R) (beat_col (dq_col R) beat n) (n AND 1) ?v st' = Inr st2"
        "storage_inv ddr4_cfg st2" "storage_abs ddr4_cfg st2 = mem_after junk
          [Set_Word (dq_bank R) (dq_row R) (beat_col (dq_col R) beat n) (n AND 1) ?v] (storage_abs ddr4_cfg st')"
        using set_word_mem[OF st(2) arr] by metis
      have "f (length (ws n), n) = [Set_Word (dq_bank R) (dq_row R) (beat_col (dq_col R) beat n) (n AND 1) ?v]"
        using w lane by (auto simp: f_def wm split: if_splits)
      moreover have "do_write_word ddr4_cfg junk inp (beat_pipe R beat) wm n (?j, st') =
          Inr (if ?sp then (j0 + length (ws (Suc n))) mod 4 else j0, st2)"
        using True w j' st2(1) by (auto simp: do_write_word_def beat_pipe_def Let_def)
      ultimately show ?thesis using st st2(2,3) by (simp add: en del: mem_after_simps(2))
    qed
  qed
qed

lemma do_write_beat:
  assumes inv: "storage_inv ddr4_cfg st" and ok: "res_ok R" and beat: "beat < 4"
  obtains st' where "do_write_storage ddr4_cfg junk inp (beat_pipe R beat) st = Inr st'" "storage_inv ddr4_cfg st'"
    "storage_abs ddr4_cfg st' = mem_after junk (beat_writes R inp beat) (storage_abs ddr4_cfg st)"
proof -
  let ?sp = "tgt_type (dq_target R) = TARGET_SP"
  let ?wm = "if ?sp then (\<lambda>_. True) else dqi_reg_mask_w inp"
  have m3: "drop_bit 2 (sp_start R beat) AND (4 - 1) = sp_start R beat div 4 mod 4"
    using and_mask_nat[of "sp_start R beat div 4" 2] by (simp add: drop_bit_eq_div)
  let ?j = "if ?sp then sp_start R beat div 4 mod 4 else 0"
  have "?j < 4" "?sp \<longrightarrow> ?j = sp_start R beat div 4 mod 4" by simp_all
  from do_write_loop[OF inv ok beat le_refl this(1) refl this(2), where inp = inp and junk = junk] obtain st' j' where
    w: "for_uptoE 4 (do_write_word ddr4_cfg junk inp (beat_pipe R beat) ?wm) (?j, st) = Inr (j', st')" "storage_inv ddr4_cfg st'"
    "storage_abs ddr4_cfg st' = mem_after junk (beat_writes R inp beat) (storage_abs ddr4_cfg st)"
    unfolding beat_mask_filter[OF beat] beat_writes_def by blast
  have "dp_res (beat_pipe R beat) = R" "drop_bit 2 (dp_sp_addr (beat_pipe R beat)) AND (4 - 1) = sp_start R beat div 4 mod 4"
    using m3 by (simp_all only: beat_pipe_def dq_pipe.simps)
  then have "do_write_storage ddr4_cfg junk inp (beat_pipe R beat) st = Inr st'"
    unfolding do_write_storage_def Let_def by (simp only: w(1) ddr4_simps bindE_simps case_prod_conv)
  with w(2,3) that show thesis by blast
qed

text \<open>The contents of a pipeline register: the beat it holds, if its word mask is not empty.\<close>

definition pipe_is :: "DQ_reservation \<Rightarrow> nat option \<Rightarrow> dq_pipe \<Rightarrow> bool" where
  "pipe_is R b p \<longleftrightarrow> (case b of None \<Rightarrow> \<not> dp_valid p | Some k \<Rightarrow> k < 4 \<and> (if beat_words R k = [] then \<not> dp_valid p else p = beat_pipe R k))"

definition pipe_writes :: "DQ_reservation \<Rightarrow> dq_inputs \<Rightarrow> nat option \<Rightarrow> mem_op list" where
  "pipe_writes R inp b = (case b of None \<Rightarrow> [] | Some k \<Rightarrow> beat_writes R inp k)"

lemma beat_writes_none: "beat_words R k = [] \<Longrightarrow> beat_writes R inp k = []"
  by (simp add: beat_writes_def)

lemma pipe_store:
  assumes "storage_inv ddr4_cfg st" "res_ok R" "pipe_is R b p"
  obtains st' where "(if dp_valid p then do_write_storage ddr4_cfg junk inp p st else Inr st) = Inr st'"
    "storage_inv ddr4_cfg st'" "storage_abs ddr4_cfg st' = mem_after junk (pipe_writes R inp b) (storage_abs ddr4_cfg st)"
proof (cases "dp_valid p")
  case True
  then obtain k where k: "b = Some k" "k < 4" "p = beat_pipe R k" using assms(3)
    by (cases b) (auto simp: pipe_is_def split: if_splits)
  with do_write_beat[OF assms(1,2) k(2), of junk inp] True that show thesis by (auto simp: pipe_writes_def)
next
  case False
  then have "pipe_writes R inp b = []" using assms(3)
    by (cases b) (auto simp: pipe_is_def pipe_writes_def beat_pipe_def beat_writes_none split: if_splits)
  with False that[of st] assms(1) show thesis by simp
qed

definition wr_at :: "DQ_reservation \<Rightarrow> nat \<Rightarrow> nat option \<Rightarrow> nat option \<Rightarrow> nat \<times> (nat \<times> nat \<rightharpoonup> u32 list) \<Rightarrow> dq_state \<Rightarrow> dq \<Rightarrow> bool" where
  "wr_at R k b0 b1 m q s \<longleftrightarrow> dqs_state s = q \<and>
     (q = DQ_BUSY \<longrightarrow> dqs_res s = R \<and> dqs_beat s = k \<and> dqs_sp_addr s = sp_start R k) \<and>
     pipe_is R b0 (dqs_pipeline0 s) \<and> pipe_is R b1 (dqs_pipeline1 s) \<and> storage_inv ddr4_cfg (dqs_store s) \<and>
     storage_abs ddr4_cfg (dqs_store s) = m"

text \<open>What asking for the data leaves alone: all but the output ports.\<close>

definition dq_core :: "dq \<Rightarrow> DQ_reservation \<times> nat \<times> nat \<times> dq_state \<times> dq_pipe \<times> dq_pipe \<times> storage" where
  "dq_core s = (dqs_res s, dqs_beat s, dqs_sp_addr s, dqs_state s, dqs_pipeline0 s, dqs_pipeline1 s, dqs_store s)"

lemma do_write_req_sp_core: "dq_core (do_write_req_sp C R wm sp s) = dq_core s"
proof -
  have "dq_core (for_upto n (\<lambda>i s. if \<not> bit wm i then s
           else s\<lparr>out_vreg_idx_w := (out_vreg_idx_w s)(i := dq_reg_offset R (i + dqs_beat s * BUS_WIDTH C div 4)),
                  out_mask_w := (out_mask_w s)(i := True)\<rparr>) t) = dq_core t" for n and t :: dq
    by (induction n) (simp_all add: dq_core_def)
  then show ?thesis by (simp add: do_write_req_sp_def Let_def dq_core_def)
qed

lemma busy_write:
  assumes R: "dq_write R" "sp_ok R" and k: "k < 4" and at: "wr_at R k None b1 m DQ_BUSY s"
  obtains x where "dq_busy ddr4_cfg junk s = Inr x" "wr_at R (Suc k) (Some k) b1 m (if k = 3 then DQ_IDLE else DQ_BUSY) x"
proof -
  have s: "dqs_res s = R" "dqs_beat s = k" "dqs_sp_addr s = sp_start R k" "dqs_state s = DQ_BUSY"
    "\<not> dp_valid (dqs_pipeline0 s)" "pipe_is R b1 (dqs_pipeline1 s)" "storage_inv ddr4_cfg (dqs_store s)"
    "storage_abs ddr4_cfg (dqs_store s) = m"
    using at by (simp_all add: wr_at_def pipe_is_def)
  note sp = sp_start_bounds[OF R(2), of k] sp_start_bounds[OF R(2), of "Suc k"]
  have wm: "drop_bit (k * dq_lanes ddr4_cfg) (to_uint (BUS_WIDTH ddr4_cfg) (dq_wordmask R)) AND (BUS_WIDTH ddr4_cfg - 1) = beat_mask R k"
    by (simp add: beat_mask_def)
  have spn: "(if tgt_type (dq_target R) = TARGET_SP then (sp_start R k + 4 * popcount (beat_mask R k)) mod 2 ^ 32 else sp_start R k) =
      sp_start R (Suc k)"
    using sp(3) k by (cases "tgt_type (dq_target R) = TARGET_SP") (simp_all add: sp_start_def popcount_beat)
  define fin where "fin x = x\<lparr>dqs_state := (if dqs_beat x = 3 then DQ_IDLE else dqs_state x),
      dqs_sp_addr := (if tgt_type (dq_target R) = TARGET_SP then (dqs_sp_addr x + 4 * popcount (beat_mask R k)) mod 2 ^ 32 else dqs_sp_addr x),
      dqs_beat := dqs_beat x + 1\<rparr>" for x :: dq
  have fin: "wr_at R (Suc k) (Some k) b1 m (if k = 3 then DQ_IDLE else DQ_BUSY) (fin x)"
    if "dq_core x = (R, k, sp_start R k, DQ_BUSY, p0, dqs_pipeline1 s, dqs_store s)" "pipe_is R (Some k) p0" for x p0
    using that s(6-8) spn by (auto simp: wr_at_def fin_def dq_core_def)
  show thesis
  proof (cases "beat_words R k = []")
    case True
    then have z: "(beat_mask R k = 0) = True" using beat_mask_zero[OF k] by simp
    have "dq_busy ddr4_cfg junk s = Inr (fin s)"
      unfolding dq_busy_def s(1,2) wm Let_def z by (simp only: if_True bindE_simps fin_def)
    moreover have "pipe_is R (Some k) (dqs_pipeline0 s)" using True s(5) k by (simp add: pipe_is_def)
    ultimately show thesis using that fin[of s] s by (simp add: dq_core_def)
  next
    case False
    then have nz: "(beat_mask R k = 0) = False" and w: "dq_write R = True" using beat_mask_zero[OF k] R(1) by simp_all
    let ?t = "do_write_req_sp ddr4_cfg R (beat_mask R k) (sp_start R k) s"
    have t: "dq_core ?t = (R, k, sp_start R k, DQ_BUSY, dqs_pipeline0 s, dqs_pipeline1 s, dqs_store s)"
      unfolding do_write_req_sp_core by (simp add: dq_core_def s)
    have sm: "sp_start R k mod 2 ^ 18 = sp_start R k" using sp(1) k by simp
    have pp: "\<lparr>dp_valid = True, dp_beat = dqs_beat ?t, dp_res = R, dp_sp_addr = dqs_sp_addr ?t mod 2 ^ 18, dp_wordmask = beat_mask R k\<rparr> =
        beat_pipe R k"
      using t sm by (simp add: dq_core_def beat_pipe_def)
    have "dq_busy ddr4_cfg junk s = Inr (fin (?t\<lparr>dqs_pipeline0 := beat_pipe R k\<rparr>))"
      unfolding dq_busy_def s(1,2,3) wm Let_def nz w pp by (simp only: if_True if_False bindE_simps fin_def)
    moreover have "dq_core (?t\<lparr>dqs_pipeline0 := beat_pipe R k\<rparr>) = (R, k, sp_start R k, DQ_BUSY, beat_pipe R k, dqs_pipeline1 s, dqs_store s)"
      using t by (simp add: dq_core_def)
    moreover have "pipe_is R (Some k) (beat_pipe R k)" using False k by (simp add: pipe_is_def)
    ultimately show thesis using that fin by blast
  qed
qed

text \<open>A cycle: the beat in the second stage of the pipeline is stored, the others move on.\<close>

lemma write_cycle:
  assumes ok: "res_ok R" and at: "wr_at R k b0 b1 m q s" and q: "q = DQ_BUSY \<or> q = DQ_IDLE \<and> dqi_res i = None"
  obtains u where "wr_at R k None b0 (mem_after junk (pipe_writes R i b1) m) q u"
    "dq_thread_lt ddr4_cfg junk i s = (if q = DQ_BUSY then bindE (dq_busy ddr4_cfg junk u) (\<lambda>s. Inr (False, s)) else Inr (False, u))"
proof -
  note s = at[unfolded wr_at_def]
  obtain st' where st: "(if dp_valid (dqs_pipeline1 s) then do_write_storage ddr4_cfg junk i (dqs_pipeline1 s) (dqs_store s) else Inr (dqs_store s)) =
      Inr st'" "storage_inv ddr4_cfg st'" "storage_abs ddr4_cfg st' = mem_after junk (pipe_writes R i b1) m"
    using pipe_store[of "dqs_store s" R b1 "dqs_pipeline1 s" junk i] s ok by metis
  let ?u = "s\<lparr>out_enable := False, dqs_store := st', dqs_pipeline1 := dqs_pipeline0 s, dqs_pipeline0 := (dqs_pipeline0 s)\<lparr>dp_valid := False\<rparr>\<rparr>"
  show thesis
  proof (cases "q = DQ_BUSY")
    case True
    then show thesis using that[of ?u] s st by (simp add: dq_thread_lt_def Let_def wr_at_def pipe_is_def)
  next
    case False
    with q have "q = DQ_IDLE" "dqi_res i = None" by auto
    then show thesis using that[of "?u\<lparr>out_write := False, dqs_beat := 0\<rparr>"] s st
      by (simp add: dq_thread_lt_def Let_def wr_at_def pipe_is_def)
  qed
qed

lemma busy_write_cycle:
  assumes "res_ok R" "dq_write R" "sp_ok R" "k < 4" "wr_at R k b0 b1 m DQ_BUSY s"
  obtains ds x where "dq_step ddr4_cfg junk i s = Inr ((False, ds), x)"
    "wr_at R (Suc k) (Some k) b0 (mem_after junk (pipe_writes R i b1) m) (if k = 3 then DQ_IDLE else DQ_BUSY) x"
proof -
  obtain u where u: "wr_at R k None b0 (mem_after junk (pipe_writes R i b1) m) DQ_BUSY u"
    "dq_thread_lt ddr4_cfg junk i s = bindE (dq_busy ddr4_cfg junk u) (\<lambda>s. Inr (False, s))"
    using write_cycle[OF assms(1,5), of i junk] by auto
  obtain x where "dq_busy ddr4_cfg junk u = Inr x"
    "wr_at R (Suc k) (Some k) b0 (mem_after junk (pipe_writes R i b1) m) (if k = 3 then DQ_IDLE else DQ_BUSY) x"
    using busy_write[OF assms(2-4) u(1)] by metis
  then show thesis using that u(2) by (simp add: dq_step_def)
qed

lemma idle_write_cycle:
  assumes "res_ok R" "wr_at R k b0 b1 m DQ_IDLE s" "dqi_res i = None"
  obtains ds x where "dq_step ddr4_cfg junk i s = Inr ((False, ds), x)"
    "wr_at R k None b0 (mem_after junk (pipe_writes R i b1) m) DQ_IDLE x"
proof -
  obtain x where "wr_at R k None b0 (mem_after junk (pipe_writes R i b1) m) DQ_IDLE x"
    "dq_thread_lt ddr4_cfg junk i s = Inr (False, x)"
    using write_cycle[OF assms(1,2), of i junk] assms(3) by auto
  then show thesis using that by (simp add: dq_step_def)
qed

lemma write_run:
  assumes ok: "res_ok R" "dq_write R" "sp_ok R" and s: "wr_at R 0 None None m DQ_BUSY s"
    and none: "dqi_res i4 = None" "dqi_res i5 = None"
  shows "\<exists>os s'. runE (dq_step ddr4_cfg junk) [i0, i1, i2, i3, i4, i5] s = Inr (os, s') \<and>
    wr_at R 4 None None (mem_after junk (beat_writes R i2 0 @ beat_writes R i3 1 @ beat_writes R i4 2 @ beat_writes R i5 3) m) DQ_IDLE s'"
proof -
  note B = busy_write_cycle[OF ok, where junk = junk] and I = idle_write_cycle[OF ok(1), where junk = junk]
  obtain d0 s0 where 0: "dq_step ddr4_cfg junk i0 s = Inr ((False, d0), s0)" "wr_at R 1 (Some 0) None m DQ_BUSY s0"
    using B[OF _ s, of i0] by (auto simp: pipe_writes_def)
  obtain d1 s1 where 1: "dq_step ddr4_cfg junk i1 s0 = Inr ((False, d1), s1)" "wr_at R 2 (Some 1) (Some 0) m DQ_BUSY s1"
    using B[OF _ 0(2), of i1] by (auto simp: pipe_writes_def numeral_2_eq_2)
  let ?m2 = "mem_after junk (beat_writes R i2 0) m"
  obtain d2 s2 where 2: "dq_step ddr4_cfg junk i2 s1 = Inr ((False, d2), s2)" "wr_at R 3 (Some 2) (Some 1) ?m2 DQ_BUSY s2"
    using B[OF _ 1(2), of i2] by (auto simp: pipe_writes_def numeral_3_eq_3 numeral_2_eq_2)
  let ?m3 = "mem_after junk (beat_writes R i3 1) ?m2"
  obtain d3 s3 where 3: "dq_step ddr4_cfg junk i3 s2 = Inr ((False, d3), s3)" "wr_at R 4 (Some 3) (Some 2) ?m3 DQ_IDLE s3"
    using B[OF _ 2(2), of i3] by (auto simp: pipe_writes_def)
  let ?m4 = "mem_after junk (beat_writes R i4 2) ?m3"
  obtain d4 s4 where 4: "dq_step ddr4_cfg junk i4 s3 = Inr ((False, d4), s4)" "wr_at R 4 None (Some 3) ?m4 DQ_IDLE s4"
    using I[OF 3(2) none(1)] by (auto simp: pipe_writes_def)
  obtain d5 s5 where 5: "dq_step ddr4_cfg junk i5 s4 = Inr ((False, d5), s5)"
    "wr_at R 4 None None (mem_after junk (beat_writes R i5 3) ?m4) DQ_IDLE s5"
    using I[OF 4(2) none(2)] by (auto simp: pipe_writes_def)
  show ?thesis
    by (intro exI[of _ s5] exI[of _ "[(False, d0), (False, d1), (False, d2), (False, d3), (False, d4), (False, d5)]"] conjI)
      (simp_all only: runE.simps 0(1) 1(1) 2(1) 3(1) 4(1) 5 bindE_simps case_prod_conv mem_after_append)
qed

lemma list6:
  assumes "length xs = n + 6"
  shows "drop n xs = [xs ! n, xs ! (n + 1), xs ! (n + 2), xs ! (n + 3), xs ! (n + 4), xs ! (n + 5)]"
  using assms by (intro nth_equalityI) (auto simp: less_Suc_eq numeral_eq_Suc)

text \<open>
  C21. A write burst, in the default configuration of 8 banks of 1024 columns, for a reservation whose bank, row and column exist and that is
  taken with the pipeline empty: when the two
  cycles after its last beat bring no new reservation, the data path stores, for each of its beats, the words of the word mask that the
  registers enable (all of them when the source is the scratchpad), with the data that arrive two cycles after the beat, in the lane
  of the word or, from the scratchpad, in the lane of its address; nothing else in the memory changes, and the pipeline is empty again.
\<close>

theorem dq_writes_burst:
  assumes "takes_res (is ! 0) s R" "dq_write R" "storage_inv ddr4_cfg (dqs_store s)"
    and "length is = n + 6" "\<And>j. j \<le> n \<Longrightarrow> dqi_cycle (is ! j) = dq_cycle R - int (n - j)"
    and "dqi_res (is ! (n + 4)) = None" "dqi_res (is ! (n + 5)) = None"
  shows "\<exists>os s'. runE (dq_step ddr4_cfg junk) is s = Inr (os, s') \<and> dqs_state s' = DQ_IDLE \<and> idle_pipe s' \<and>
    storage_inv ddr4_cfg (dqs_store s') \<and>
    storage_abs ddr4_cfg (dqs_store s') = mem_after junk
      (beat_writes R (is ! (n + 2)) 0 @ beat_writes R (is ! (n + 3)) 1 @ beat_writes R (is ! (n + 4)) 2 @ beat_writes R (is ! (n + 5)) 3)
      (storage_abs ddr4_cfg (dqs_store s))"
proof -
  have ok: "res_ok R" "dq_write R" "sp_ok R" using assms(1,2) by (simp_all add: takes_res_def)
  obtain i is' where i: "is = i # is'" using assms(4) by (cases "is") auto
  obtain u where u: "dq_step ddr4_cfg junk i s = bindE (dq_step ddr4_cfg junk i u) (\<lambda>((b, ds), x). Inr ((True, ds), x))"
    "dqs_state u = DQ_WAIT" "dqs_res u = R" "dqs_beat u = 0" "idle_pipe u" "dqs_store u = dqs_store s" "dqs_sp_addr u = sp_start R 0"
    using idle_like_wait[of i s R ddr4_cfg junk] assms(1) i by auto
  obtain v where v: "same_burst v u" "dqs_state v = DQ_BUSY" "runE (dq_step ddr4_cfg junk) is u =
      bindE (runE (dq_step ddr4_cfg junk) (drop n is) v) (\<lambda>(os, s'). Inr (replicate n (False, []) @ os, s'))"
    using wait_phase[OF u(5,2), of n "is" ddr4_cfg junk] assms(4,5) u(3) by auto
  have "wr_at R 0 None None (storage_abs ddr4_cfg (dqs_store s)) DQ_BUSY v"
    using u v assms(3) by (simp add: wr_at_def same_burst_def idle_pipe_def pipe_is_def)
  from write_run[OF ok this assms(6,7), where junk = junk and ?i0.0 = "is ! n" and ?i1.0 = "is ! (n + 1)" and ?i2.0 = "is ! (n + 2)"
      and ?i3.0 = "is ! (n + 3)"] obtain os s' where
    "runE (dq_step ddr4_cfg junk) (drop n is) v = Inr (os, s')" and w: "wr_at R 4 None None (mem_after junk
      (beat_writes R (is ! (n + 2)) 0 @ beat_writes R (is ! (n + 3)) 1 @ beat_writes R (is ! (n + 4)) 2 @ beat_writes R (is ! (n + 5)) 3)
      (storage_abs ddr4_cfg (dqs_store s))) DQ_IDLE s'"
    unfolding list6[OF assms(4)] by blast
  then have "runE (dq_step ddr4_cfg junk) is u = Inr (replicate n (False, []) @ os, s')" by (simp add: v(3))
  then obtain b ds x os' where x: "dq_step ddr4_cfg junk i u = Inr ((b, ds), x)" "runE (dq_step ddr4_cfg junk) is' x = Inr (os', s')"
    by (auto simp: i bindE_Inr_iff)
  have "runE (dq_step ddr4_cfg junk) is s = Inr ((True, ds) # os', s')" by (simp add: i u(1) x(1,2))
  with w show ?thesis unfolding wr_at_def by (intro exI[of _ "(True, ds) # os'"] exI[of _ s']) (simp add: pipe_is_def idle_pipe_def)
qed

definition dq_after :: "int \<Rightarrow> dq_inputs" where
  "dq_after c = (dq_at c True)\<lparr>dqi_res := None\<rparr>"

theorem dq_writes_burst_witness:
  "\<exists>os s' d. runE (dq_step ddr4_cfg (\<lambda>_ i. of_nat i))
      (map (\<lambda>c. dq_at c True) [10, 11, 12, 13] @ map dq_after [14, 15]) dq_idle = Inr (os, s') \<and>
    snd (storage_abs ddr4_cfg (dqs_store s')) (2, 5) = Some d \<and> d ! 35 = 43 \<and> d ! 36 = 36 \<and> d ! 41 = 41"
proof -
  let ?is = "map (\<lambda>c. dq_at c True) [10, 11, 12, 13] @ map dq_after [14, 15]" and ?j = "\<lambda>_ i. of_nat i :: u32"
  let ?R = "example_res True"
  have t: "takes_res (?is ! 0) dq_idle ?R" using example_takes by simp
  have inv: "storage_inv ddr4_cfg (dqs_store dq_idle)" by (simp add: example_store storage_inv_init)
  have cyc: "j \<le> 0 \<Longrightarrow> dqi_cycle (?is ! j) = dq_cycle ?R - int (0 - j)" for j
    by (simp add: dq_at_def example_res_def)
  have len: "length ?is = 0 + 6" by simp
  have w: "dq_write ?R" by (simp add: example_res_def)
  have n: "dqi_res (?is ! (0 + 4)) = None" "dqi_res (?is ! (0 + 5)) = None" by (simp_all add: dq_after_def)
  have bw: "beat_words ?R 0 = [3]" "beat_words ?R 1 = []" "beat_words ?R 2 = [1]" "beat_words ?R 3 = []"
    by (simp_all add: beat_words_def example_res_def upt_conv_Cons)
  have wr: "beat_writes ?R (?is ! 2) 0 = [Set_Word 2 5 17 1 43]" "beat_writes ?R (?is ! 3) 1 = []"
    "beat_writes ?R (?is ! 4) 2 = [Set_Word 2 5 20 1 41]" "beat_writes ?R (?is ! 5) 3 = []"
    by (simp_all add: beat_writes_def bw bw[unfolded One_nat_def]) (simp_all add: example_res_def dq_at_def dq_after_def beat_col_def)
  let ?st = "storage_abs ddr4_cfg (dqs_store dq_idle)"
  have "data_offset ddr4_cfg 17 1 = 35" "data_offset ddr4_cfg 20 1 = 41" by (simp_all add: data_offset_def)
  then have m: "snd (mem_after ?j [Set_Word 2 5 17 1 43, Set_Word 2 5 20 1 41] ?st) (2, 5) = Some ((map (?j 0) [0..<2048])[35 := 43, 41 := 41])"
    by (simp add: example_store storage_abs_init mem_ensure_def alloc_row_def)
  obtain os s' where "runE (dq_step ddr4_cfg ?j) ?is dq_idle = Inr (os, s')"
    "storage_abs ddr4_cfg (dqs_store s') = mem_after ?j [Set_Word 2 5 17 1 43, Set_Word 2 5 20 1 41] ?st"
    using dq_writes_burst[OF t w inv len cyc n, of ?j] unfolding add_0 wr append_Nil append_Nil2 append_Cons by blast
  then show ?thesis using m by (intro exI[of _ os] exI[of _ s'] exI[of _ "(map (?j 0) [0..<2048])[35 := 43, 41 := 41]"]) simp
qed

end
