(* ===== verification/Mc_CmdArb.thy ===== *)
theory Mc_CmdArb
  imports Machine Mc_Model Constmath
begin

text \<open>
  \<open>mc/control/CmdArb_DDR4.h\<close>: the arbiter that picks, each DRAM cycle, the command to issue from the heads of the
  command FIFOs of the banks, refreshes the DRAM when there is nothing else to do, and reserves the data bus. The timing of
  the DRAM is known to ramulator, which is not part of the repository: its operations are the fields of \<open>ramulator\<close>.
  The energy model of DRAMPower only counts and is left out.
\<close>

datatype ram_cmd = RC_ACT | RC_PRE | RC_RD | RC_RDA | RC_WR | RC_WRA | RC_REF

record ram_addr =
  ra_channel :: int
  ra_rank :: int
  ra_bankgroup :: int
  ra_bank :: int
  ra_row :: int
  ra_column :: int

text \<open>\<open>DRAM<DDR4>\<close>: \<open>check\<close>, \<open>update\<close> and \<open>get_next\<close>, and the numbers the arbiter reads from the DDR4 specification.\<close>

record 'd ramulator =
  ram_check :: "ram_cmd \<Rightarrow> ram_addr \<Rightarrow> int \<Rightarrow> 'd \<Rightarrow> bool"
  ram_update :: "ram_cmd \<Rightarrow> ram_addr \<Rightarrow> int \<Rightarrow> 'd \<Rightarrow> 'd"
  ram_get_next :: "ram_cmd \<Rightarrow> ram_addr \<Rightarrow> 'd \<Rightarrow> int"
  ram_bankgroups :: nat
  ram_banks :: nat
  nCL :: int
  nCWL :: int
  nREFI :: int

definition ref_addr :: ram_addr where
  "ref_addr = \<lparr>ra_channel = 0, ra_rank = 0, ra_bankgroup = - 1, ra_bank = - 1, ra_row = - 1, ra_column = - 1\<rparr>"

record cmdarb_stats =
  cs_lid :: int
  cs_lda :: nat
  cs_act_c :: nat
  cs_pre_c :: nat
  cs_cas_c :: nat
  cs_ref_c :: nat
  cs_bytes :: nat

text \<open>The fields of the class, the previous bank of the main thread, the DRAM object and the contents of the FIFOs.\<close>

record 'd cmdarb =
  ca_stats :: cmdarb_stats
  ca_dram :: 'd
  ca_cmd :: "nat \<Rightarrow> cmd_DDR"
  ca_cmd_valid :: "nat \<Rightarrow> bool"
  ca_refi_count :: int
  ca_ref_enq :: nat
  ca_allpre_cycle :: int
  ca_ref_fini_cycle :: int
  ca_dst :: RequestTarget
  ca_bank :: nat
  ca_cmd_fifo :: "nat \<Rightarrow> cmd_DDR list"
  ca_out_ref_pending :: bool

record arb_inputs =
  ai_cycle :: int
  ai_cmdgen_busy :: bool

definition CmdArb_DDR4 :: "'d \<Rightarrow> (nat \<Rightarrow> cmd_DDR) \<Rightarrow> RequestTarget \<Rightarrow> 'd cmdarb" where
  "CmdArb_DDR4 d cmd t = \<lparr>ca_stats = \<lparr>cs_lid = 0, cs_lda = 0, cs_act_c = 0, cs_pre_c = 0, cs_cas_c = 0, cs_ref_c = 0, cs_bytes = 0\<rparr>,
     ca_dram = d, ca_cmd = cmd, ca_cmd_valid = (\<lambda>_. False), ca_refi_count = 0, ca_ref_enq = 0,
     ca_allpre_cycle = - (2 ^ 63), ca_ref_fini_cycle = - (2 ^ 63), ca_dst = t, ca_bank = 0, ca_cmd_fifo = (\<lambda>_. []),
     ca_out_ref_pending = False\<rparr>"

definition set_refresh_counter :: "int \<Rightarrow> 'd cmdarb \<Rightarrow> 'd cmdarb" where
  "set_refresh_counter refc s = s\<lparr>ca_refi_count := refc\<rparr>"

text \<open>The conversion of a 32-bit row to \<open>int\<close> is the signed reading of its bits.\<close>

definition xlat_addr_ramulator :: "'d ramulator \<Rightarrow> cmd_DDR \<Rightarrow> nat \<Rightarrow> ram_addr" where
  "xlat_addr_ramulator M c bank =
    (let bankgroups = ram_bankgroups M; banks = ram_banks M
     in \<lparr>ra_channel = 0, ra_rank = 0,
         ra_bankgroup = int (bank AND (bankgroups - 1)),
         ra_bank = int (drop_bit (const_log2 bankgroups) bank AND (banks - 1)),
         ra_row = sc_int 32 (int (cmd_row c)), ra_column = int (cmd_col c)\<rparr>)"

definition fetch_fifo_heads :: "dram_cfg \<Rightarrow> 'd cmdarb \<Rightarrow> 'd cmdarb" where
  "fetch_fifo_heads C s =
    for_upto (DRAM_BANKS C) (\<lambda>i s.
      if ca_cmd_valid s i then s
      else case ca_cmd_fifo s i of
          [] \<Rightarrow> s
        | c # q \<Rightarrow> s\<lparr>ca_cmd_fifo := (ca_cmd_fifo s)(i := q), ca_cmd := (ca_cmd s)(i := c),
                    ca_cmd_valid := (ca_cmd_valid s)(i := True)\<rparr>) s"

definition fifo_heads_empty :: "dram_cfg \<Rightarrow> 'd cmdarb \<Rightarrow> bool" where
  "fifo_heads_empty C s \<longleftrightarrow> (\<forall>i\<in>set [0..<DRAM_BANKS C]. \<not> ca_cmd_valid s i \<and> ca_cmd_fifo s i = [])"

subsection \<open>The distance to the next precharge\<close>

definition nb_peek :: "cmd_DDR list \<Rightarrow> nat \<Rightarrow> cmd_DDR option" where
  "nb_peek q j = (if j < length q then Some (q ! j) else None)"

text \<open>The loop over the FIFO; \<open>item\<close> is the local variable that \<open>nb_peek\<close> fills when it succeeds.\<close>

primrec peek_precharge :: "cmd_DDR list \<Rightarrow> cmd_DDR \<Rightarrow> nat list \<Rightarrow> int \<Rightarrow> int" where
  "peek_precharge q item [] d = d"
| "peek_precharge q item (j # js) d =
    (case nb_peek q j of
       Some _ \<Rightarrow> d
     | None \<Rightarrow> if cmd_pre_post item then int j + 2
               else if cmd_pre_pre item then int j + 1
               else peek_precharge q item js d)"

definition precharge_distance :: "cmd_DDR \<Rightarrow> 'd cmdarb \<Rightarrow> nat \<Rightarrow> int" where
  "precharge_distance item s i =
    (let used = length (ca_cmd_fifo s i);
         d = int used - 1;
         d = (if ca_cmd_valid s i then if cmd_pre_post (ca_cmd s i) then 1 else d + 1 else d)
     in peek_precharge (ca_cmd_fifo s i) item [0..<used] d)"

subsection \<open>The candidates\<close>

record candidates =
  ppre_bank :: "nat option"
  act_bank :: "nat option"
  rw_bank :: "nat option"
  p_bank :: "nat option"
  act_fifo_entries :: int
  rw_count :: nat

definition no_candidates :: candidates where
  "no_candidates = \<lparr>ppre_bank = None, act_bank = None, rw_bank = None, p_bank = None, act_fifo_entries = - 1, rw_count = 0\<rparr>"

text \<open>Bank \<open>i\<close> comes sooner than the candidate when the banks are visited round-robin from \<open>bank\<close> on.\<close>

definition comes_sooner :: "dram_cfg \<Rightarrow> nat \<Rightarrow> nat \<Rightarrow> nat \<Rightarrow> bool" where
  "comes_sooner C bank i b \<longleftrightarrow> (i + (DRAM_BANKS C - bank)) mod DRAM_BANKS C < (b + (DRAM_BANKS C - bank)) mod DRAM_BANKS C"

definition better :: "dram_cfg \<Rightarrow> nat \<Rightarrow> nat \<Rightarrow> nat option \<Rightarrow> bool" where
  "better C bank i best \<longleftrightarrow> (case best of None \<Rightarrow> True | Some b \<Rightarrow> comes_sooner C bank i b)"

definition cas_cmd :: "cmd_DDR \<Rightarrow> ram_cmd" where
  "cas_cmd c = (if cmd_read c then if cmd_pre_post c then RC_RDA else RC_RD
                else if cmd_pre_post c then RC_WRA else RC_WR)"

definition candidate_step :: "dram_cfg \<Rightarrow> 'd ramulator \<Rightarrow> cmd_DDR \<Rightarrow> int \<Rightarrow> nat \<Rightarrow> 'd cmdarb \<Rightarrow> nat \<Rightarrow> candidates \<Rightarrow> candidates" where
  "candidate_step C M item cycle bank s i k =
    (if \<not> ca_cmd_valid s i then k
     else
       let c = ca_cmd s i;
           k = (if cmd_read c \<or> cmd_write c then k\<lparr>rw_count := rw_count k + 1\<rparr> else k);
           addr = xlat_addr_ramulator M c i;
           pre_dist = precharge_distance item s i
       in if cmd_pre_pre c then
            if better C bank i (ppre_bank k) \<and> ram_check M RC_PRE addr cycle (ca_dram s)
            then k\<lparr>ppre_bank := Some i\<rparr> else k
          else if cmd_act c then
            if (act_bank k = None \<or> pre_dist > act_fifo_entries k \<or> better C bank i (act_bank k)) \<and>
               ram_check M RC_ACT addr cycle (ca_dram s)
            then k\<lparr>act_bank := Some i, act_fifo_entries := pre_dist\<rparr> else k
          else if cmd_read c \<or> cmd_write c then
            if rw_bank k \<noteq> None \<and> \<not> better C bank i (rw_bank k) then k
            else if ram_check M (cas_cmd c) addr cycle (ca_dram s) then k\<lparr>rw_bank := Some i\<rparr> else k
          else if cmd_pre_post c \<and> better C bank i (p_bank k) \<and> ram_check M RC_PRE addr cycle (ca_dram s)
          then k\<lparr>p_bank := Some i\<rparr> else k)"

definition cmd_best_candidates :: "dram_cfg \<Rightarrow> 'd ramulator \<Rightarrow> cmd_DDR \<Rightarrow> int \<Rightarrow> nat \<Rightarrow> 'd cmdarb \<Rightarrow> candidates" where
  "cmd_best_candidates C M item cycle bank s =
    for_upto (DRAM_BANKS C) (candidate_step C M item cycle bank s) no_candidates"

subsection \<open>Refresh and the end of a transfer\<close>

definition refresh :: "'d ramulator \<Rightarrow> int \<Rightarrow> 'd cmdarb \<Rightarrow> bool \<times> 'd cmdarb" where
  "refresh M cycle s =
    (if ram_check M RC_REF ref_addr cycle (ca_dram s)
     then let d = ram_update M RC_REF ref_addr cycle (ca_dram s)
          in (True, s\<lparr>ca_dram := d, ca_stats := (ca_stats s)\<lparr>cs_ref_c := (cs_ref_c (ca_stats s) + 1) mod 2 ^ 32\<rparr>,
                     ca_ref_fini_cycle := ram_get_next M RC_REF ref_addr d\<rparr>)
     else (False, s))"

definition update_lid :: "dram_cfg \<Rightarrow> 'd ramulator \<Rightarrow> arb_inputs \<Rightarrow> RequestTarget \<Rightarrow> 'd cmdarb \<Rightarrow> 'd cmdarb" where
  "update_lid C M inp d s =
    (if ai_cmdgen_busy inp then s
     else
       let lid = ram_get_next M RC_REF ref_addr (ca_dram s);
           s = s\<lparr>ca_stats := (ca_stats s)\<lparr>cs_lid := max lid (cs_lid (ca_stats s))\<rparr>\<rparr>
       in if \<not> fifo_heads_empty C s then s
          else s\<lparr>ca_allpre_cycle := max (lid - 2) (ca_allpre_cycle s), ca_dst := d\<rparr>)"

subsection \<open>The main thread\<close>

text \<open>What an iteration issues: a command to a bank, with the request it belongs to, or a refresh.\<close>

datatype issue = Issue ram_cmd nat cmd_DDR | Refresh

definition dq_reservation :: "dram_cfg \<Rightarrow> 'd ramulator \<Rightarrow> int \<Rightarrow> nat \<Rightarrow> cmd_DDR \<Rightarrow> DQ_reservation" where
  "dq_reservation C M cycle b c =
    \<lparr>dq_cycle = (if cmd_write c then cycle + (nCWL M - 2) else cycle + nCL M), dq_wordmask = cmd_wordmask c,
     dq_row = cmd_row c, dq_col = cmd_col c, dq_bank = b mod 2 ^ const_log2 (DRAM_BANKS C), dq_target = cmd_target c,
     dq_reg_offset = cmd_reg_offset c, dq_write = cmd_write c, dq_sp_offset = sc_uint 18 (cmd_sp_offset c)\<rparr>"

definition issue_rw :: "dram_cfg \<Rightarrow> 'd ramulator \<Rightarrow> arb_inputs \<Rightarrow> bool \<Rightarrow> nat \<Rightarrow> 'd cmdarb \<Rightarrow> DQ_reservation \<times> 'd cmdarb" where
  "issue_rw C M inp last_rw b s =
    (let c = ca_cmd s b;
         s = s\<lparr>ca_bank := unset_bit 0 b, ca_cmd_valid := (ca_cmd_valid s)(b := False),
               ca_dram := ram_update M (cas_cmd c) (xlat_addr_ramulator M c b) (ai_cycle inp) (ca_dram s)\<rparr>;
         s = (if cmd_pre_post c then update_lid C M inp (cmd_target c) s else s);
         R = dq_reservation C M (ai_cycle inp) b c;
         lda = (if last_rw \<and> \<not> ai_cmdgen_busy inp
                then nat ((dq_cycle R + (if dq_write R then 5 else 3)) mod 2 ^ 64) else cs_lda (ca_stats s));
         bytes = 4 * length (filter (dq_wordmask R) [0..<BUS_WIDTH C])
     in (R, s\<lparr>ca_stats := (ca_stats s)\<lparr>cs_lda := lda, cs_cas_c := (cs_cas_c (ca_stats s) + 1) mod 2 ^ 32,
                 cs_bytes := (cs_bytes (ca_stats s) + bytes) mod 2 ^ 64\<rparr>\<rparr>))"

definition issue_ppre :: "dram_cfg \<Rightarrow> 'd ramulator \<Rightarrow> arb_inputs \<Rightarrow> nat \<Rightarrow> 'd cmdarb \<Rightarrow> 'd cmdarb" where
  "issue_ppre C M inp b s =
    (let c = (ca_cmd s b)\<lparr>cmd_pre_pre := False\<rparr>
     in update_lid C M inp (cmd_target c)
         (s\<lparr>ca_cmd := (ca_cmd s)(b := c),
            ca_dram := ram_update M RC_PRE (xlat_addr_ramulator M c b) (ai_cycle inp) (ca_dram s),
            ca_stats := (ca_stats s)\<lparr>cs_pre_c := (cs_pre_c (ca_stats s) + 1) mod 2 ^ 32\<rparr>\<rparr>))"

definition issue_act :: "'d ramulator \<Rightarrow> arb_inputs \<Rightarrow> nat \<Rightarrow> 'd cmdarb \<Rightarrow> 'd cmdarb" where
  "issue_act M inp b s =
    (let c = (ca_cmd s b)\<lparr>cmd_act := False\<rparr>
     in s\<lparr>ca_cmd := (ca_cmd s)(b := c),
          ca_dram := ram_update M RC_ACT (xlat_addr_ramulator M c b) (ai_cycle inp) (ca_dram s),
          ca_stats := (ca_stats s)\<lparr>cs_act_c := (cs_act_c (ca_stats s) + 1) mod 2 ^ 32\<rparr>\<rparr>)"

definition issue_p :: "dram_cfg \<Rightarrow> 'd ramulator \<Rightarrow> arb_inputs \<Rightarrow> nat \<Rightarrow> 'd cmdarb \<Rightarrow> 'd cmdarb" where
  "issue_p C M inp b s =
    update_lid C M inp (cmd_target (ca_cmd s b))
      (s\<lparr>ca_cmd_valid := (ca_cmd_valid s)(b := False),
         ca_dram := ram_update M RC_PRE (xlat_addr_ramulator M (ca_cmd s b) b) (ai_cycle inp) (ca_dram s),
         ca_stats := (ca_stats s)\<lparr>cs_pre_c := (cs_pre_c (ca_stats s) + 1) mod 2 ^ 32\<rparr>\<rparr>)"

definition arb_issue ::
  "dram_cfg \<Rightarrow> 'd ramulator \<Rightarrow> cmd_DDR \<Rightarrow> arb_inputs \<Rightarrow> 'd cmdarb \<Rightarrow> issue option \<times> DQ_reservation option \<times> 'd cmdarb" where
  "arb_issue C M item inp s =
    (let k = cmd_best_candidates C M item (ai_cycle inp) (ca_bank s) s in
     case rw_bank k of
       Some b \<Rightarrow>
         (case issue_rw C M inp (rw_count k = 1) b s of
            (R, t) \<Rightarrow> (Some (Issue (cas_cmd (ca_cmd s b)) b (ca_cmd s b)), Some R, t))
     | None \<Rightarrow>
     case ppre_bank k of
       Some b \<Rightarrow> (Some (Issue RC_PRE b (ca_cmd s b)), None, issue_ppre C M inp b s)
     | None \<Rightarrow>
     case act_bank k of
       Some b \<Rightarrow> (Some (Issue RC_ACT b (ca_cmd s b)), None, issue_act M inp b s)
     | None \<Rightarrow>
     case p_bank k of
       Some b \<Rightarrow> (Some (Issue RC_PRE b (ca_cmd s b)), None, issue_p C M inp b s)
     | None \<Rightarrow>
       if 0 < ca_ref_enq s \<and> fifo_heads_empty C s \<and> \<not> ai_cmdgen_busy inp
       then case refresh M (ai_cycle inp) s of
              (True, s) \<Rightarrow> (Some Refresh, None, s\<lparr>ca_ref_enq := ca_ref_enq s - 1\<rparr>)
            | (False, s) \<Rightarrow> (None, None, s)
       else (None, None, s))"

text \<open>The refresh counter at the end of an iteration.\<close>

definition count_refi :: "'d ramulator \<Rightarrow> 'd cmdarb \<Rightarrow> 'd cmdarb res" where
  "count_refi M s =
    (let n = ca_refi_count s + 1 in
     if n \<ge> nREFI M
     then assertE (ca_ref_enq s + 1 \<le> 8) (Inr (s\<lparr>ca_refi_count := n mod nREFI M, ca_ref_enq := ca_ref_enq s + 1\<rparr>))
     else Inr (s\<lparr>ca_refi_count := n\<rparr>))"

definition cmdarb_thread_lt ::
  "dram_cfg \<Rightarrow> 'd ramulator \<Rightarrow> cmd_DDR \<Rightarrow> arb_inputs \<Rightarrow> 'd cmdarb \<Rightarrow>
    ((issue option \<times> DQ_reservation option) \<times> 'd cmdarb) res" where
  "cmdarb_thread_lt C M item inp s =
    (case arb_issue C M item inp (fetch_fifo_heads C s) of
       (iss, R, s) \<Rightarrow>
         bindE (count_refi M s) (\<lambda>s. Inr ((iss, R), s\<lparr>ca_out_ref_pending := (ca_ref_enq s > 0)\<rparr>)))"

text \<open>The other thread: the outputs \<open>out_allpre\<close> and \<open>out_ref\<close>, and what goes into \<open>out_done_dst\<close>.\<close>

definition arb_thread_status :: "arb_inputs \<Rightarrow> 'd cmdarb \<Rightarrow> bool \<times> RequestTarget option \<times> bool" where
  "arb_thread_status inp s =
    (ai_cycle inp = ca_allpre_cycle s,
     if ai_cycle inp = ca_allpre_cycle s then Some (ca_dst s) else None,
     ai_cycle inp < ca_ref_fini_cycle s)"

text \<open>A command that arrives in the FIFO of its bank.\<close>

definition put_cmd :: "nat \<times> cmd_DDR \<Rightarrow> 'd cmdarb \<Rightarrow> 'd cmdarb" where
  "put_cmd bc s = s\<lparr>ca_cmd_fifo := (ca_cmd_fifo s)(fst bc := ca_cmd_fifo s (fst bc) @ [snd bc])\<rparr>"

end
