(* ===== verification/Arb_Props.thy ===== *)
theory Arb_Props
  imports Mc_CmdArb Cmd_Protocol
begin

text \<open>
  What the arbiter does with the commands of the banks: it issues the operations of each bank in the order of its
  FIFO, only when ramulator allows them, and leaves no cycle idle in which one could be issued.
\<close>

subsection \<open>The candidates\<close>

text \<open>The kind of operation that the head of a FIFO waits for.\<close>

definition is_rw :: "cmd_DDR \<Rightarrow> bool" where
  "is_rw c \<longleftrightarrow> cmd_read c \<or> cmd_write c"

definition head_op :: "cmd_DDR \<Rightarrow> ram_cmd option" where
  "head_op c = (if cmd_pre_pre c then Some RC_PRE else if cmd_act c then Some RC_ACT
     else if is_rw c then Some (cas_cmd c) else if cmd_pre_post c then Some RC_PRE else None)"

text \<open>The operation that bank \<open>i\<close> waits for can be issued in this cycle.\<close>

definition schedulable :: "'d ramulator \<Rightarrow> int \<Rightarrow> 'd cmdarb \<Rightarrow> nat \<Rightarrow> bool" where
  "schedulable M cycle s i \<longleftrightarrow> ca_cmd_valid s i \<and>
     (case head_op (ca_cmd s i) of None \<Rightarrow> False | Some k \<Rightarrow> ram_check M k (xlat_addr_ramulator M (ca_cmd s i) i) cycle (ca_dram s))"

definition rw_head :: "cmd_DDR \<Rightarrow> bool" where
  "rw_head c \<longleftrightarrow> \<not> cmd_pre_pre c \<and> \<not> cmd_act c \<and> is_rw c"

definition p_head :: "cmd_DDR \<Rightarrow> bool" where
  "p_head c \<longleftrightarrow> \<not> cmd_pre_pre c \<and> \<not> cmd_act c \<and> \<not> is_rw c \<and> cmd_pre_post c"

text \<open>What the loop over the banks has found among the first \<open>n\<close>.\<close>

definition found :: "nat \<Rightarrow> (nat \<Rightarrow> bool) \<Rightarrow> nat option \<Rightarrow> bool" where
  "found n P best \<longleftrightarrow> (\<forall>b. best = Some b \<longrightarrow> b < n \<and> P b) \<and> (best = None \<longrightarrow> (\<forall>i<n. \<not> P i))"

definition nearest :: "dram_cfg \<Rightarrow> nat \<Rightarrow> nat \<Rightarrow> (nat \<Rightarrow> bool) \<Rightarrow> nat option \<Rightarrow> bool" where
  "nearest C bank n P best \<longleftrightarrow> found n P best \<and> (\<forall>b. best = Some b \<longrightarrow> (\<forall>i<n. P i \<longrightarrow> \<not> comes_sooner C bank i b))"

lemma comes_sooner_trans: "comes_sooner C k i b \<Longrightarrow> \<not> comes_sooner C k j b \<Longrightarrow> \<not> comes_sooner C k j i"
  by (auto simp: comes_sooner_def)

lemma comes_sooner_irrefl: "\<not> comes_sooner C k i i"
  by (simp add: comes_sooner_def)

lemma nearest_Suc:
  assumes "nearest C bank n P best" "best' = (if P n \<and> better C bank n best then Some n else best)"
  shows "nearest C bank (Suc n) P best'"
proof (cases best)
  case None
  then show ?thesis using assms by (auto simp: nearest_def found_def better_def less_Suc_eq comes_sooner_def)
next
  case (Some b)
  then have b: "b < n" "P b" "\<And>i. i < n \<Longrightarrow> P i \<Longrightarrow> \<not> comes_sooner C bank i b"
    using assms(1) by (auto simp: nearest_def found_def)
  show ?thesis
  proof (cases "P n \<and> comes_sooner C bank n b")
    case True
    then have "\<not> comes_sooner C bank i n" if "i < Suc n" "P i" for i
      using that b(3)[of i] comes_sooner_trans[of C bank n b i] True by (auto simp: less_Suc_eq comes_sooner_irrefl)
    then show ?thesis using True assms(2) Some by (auto simp: nearest_def found_def better_def)
  next
    case False
    then show ?thesis using b assms(2) Some by (auto simp: nearest_def found_def better_def less_Suc_eq)
  qed
qed

definition ready :: "'d ramulator \<Rightarrow> int \<Rightarrow> 'd cmdarb \<Rightarrow> (cmd_DDR \<Rightarrow> bool) \<Rightarrow> nat \<Rightarrow> bool" where
  "ready M cycle s Q i \<longleftrightarrow> schedulable M cycle s i \<and> Q (ca_cmd s i)"

definition act_head :: "cmd_DDR \<Rightarrow> bool" where
  "act_head c \<longleftrightarrow> \<not> cmd_pre_pre c \<and> cmd_act c"

lemma schedulable_ready:
  "schedulable M cycle s i \<longleftrightarrow> ready M cycle s rw_head i \<or> ready M cycle s cmd_pre_pre i \<or> ready M cycle s act_head i \<or> ready M cycle s p_head i"
proof -
  have "head_op c \<noteq> None \<Longrightarrow> rw_head c \<or> cmd_pre_pre c \<or> act_head c \<or> p_head c" for c
    by (auto simp: head_op_def rw_head_def act_head_def p_head_def split: if_splits)
  moreover have "schedulable M cycle s i \<Longrightarrow> head_op (ca_cmd s i) \<noteq> None" by (cases "head_op (ca_cmd s i)") (simp_all add: schedulable_def)
  ultimately show ?thesis by (auto simp: ready_def)
qed

lemma candidate_fields:
  fixes M :: "'d ramulator" and s :: "'d cmdarb" and C cycle bank item i
  defines "step \<equiv> candidate_step C M item cycle bank s i"
  shows "rw_bank (step k) = (if ready M cycle s rw_head i \<and> better C bank i (rw_bank k) then Some i else rw_bank k)"
    and "ppre_bank (step k) = (if ready M cycle s cmd_pre_pre i \<and> better C bank i (ppre_bank k) then Some i else ppre_bank k)"
    and "p_bank (step k) = (if ready M cycle s p_head i \<and> better C bank i (p_bank k) then Some i else p_bank k)"
    and "act_bank (step k) = (if ready M cycle s act_head i \<and> (better C bank i (act_bank k) \<or> precharge_distance item s i > act_fifo_entries k)
      then Some i else act_bank k)"
    and "rw_count (step k) = rw_count k + (if ca_cmd_valid s i \<and> is_rw (ca_cmd s i) then 1 else 0)"
  by (auto simp: step_def candidate_step_def Let_def ready_def schedulable_def head_op_def rw_head_def p_head_def act_head_def
      is_rw_def better_def)

lemma candidates_found:
  fixes M :: "'d ramulator" and s :: "'d cmdarb" and C cycle bank item
  defines "k \<equiv> cmd_best_candidates C M item cycle bank s"
  shows "nearest C bank (DRAM_BANKS C) (ready M cycle s rw_head) (rw_bank k)"
    and "nearest C bank (DRAM_BANKS C) (ready M cycle s cmd_pre_pre) (ppre_bank k)"
    and "nearest C bank (DRAM_BANKS C) (ready M cycle s p_head) (p_bank k)"
    and "found (DRAM_BANKS C) (ready M cycle s act_head) (act_bank k)"
    and "rw_count k = length (filter (\<lambda>i. ca_cmd_valid s i \<and> is_rw (ca_cmd s i)) [0..<DRAM_BANKS C])"
proof -
  let ?k = "\<lambda>n. for_upto n (candidate_step C M item cycle bank s) no_candidates"
  have k: "k = ?k (DRAM_BANKS C)" by (simp add: k_def cmd_best_candidates_def)
  have nil: "nearest C bank 0 P None" for P by (simp add: nearest_def found_def)
  have rw: "nearest C bank n (ready M cycle s rw_head) (rw_bank (?k n))" for n
    by (induction n) (simp add: no_candidates_def nil, simp add: nearest_Suc candidate_fields(1))
  have pp: "nearest C bank n (ready M cycle s cmd_pre_pre) (ppre_bank (?k n))" for n
    by (induction n) (simp add: no_candidates_def nil, simp add: nearest_Suc candidate_fields(2))
  have p: "nearest C bank n (ready M cycle s p_head) (p_bank (?k n))" for n
    by (induction n) (simp add: no_candidates_def nil, simp add: nearest_Suc candidate_fields(3))
  have act: "found n (ready M cycle s act_head) (act_bank (?k n))" for n
    by (induction n) (auto simp: no_candidates_def found_def candidate_fields(4) better_def less_Suc_eq)
  have cnt: "rw_count (?k n) = length (filter (\<lambda>i. ca_cmd_valid s i \<and> is_rw (ca_cmd s i)) [0..<n])" for n
    by (induction n) (simp_all add: no_candidates_def candidate_fields(5))
  show "nearest C bank (DRAM_BANKS C) (ready M cycle s rw_head) (rw_bank k)"
    "nearest C bank (DRAM_BANKS C) (ready M cycle s cmd_pre_pre) (ppre_bank k)"
    "nearest C bank (DRAM_BANKS C) (ready M cycle s p_head) (p_bank k)"
    "found (DRAM_BANKS C) (ready M cycle s act_head) (act_bank k)"
    "rw_count k = length (filter (\<lambda>i. ca_cmd_valid s i \<and> is_rw (ca_cmd s i)) [0..<DRAM_BANKS C])"
    unfolding k by (rule rw pp p act cnt)+
qed

text \<open>
  The loop over the FIFO ends at its first entry, as \<open>nb_peek\<close> succeeds: no queued command is looked at, and the distance
  is the number of queued commands, whatever they are.
\<close>

lemma precharge_distance_eq:
  "precharge_distance item s i = (let used = int (length (ca_cmd_fifo s i)) in
     if ca_cmd_valid s i then if cmd_pre_post (ca_cmd s i) then 1 else used else used - 1)"
proof -
  have "peek_precharge q item [0..<length q] d = d" for q d
    by (cases "length q") (simp_all add: nb_peek_def upt_conv_Cons del: upt_Suc)
  then show ?thesis by (simp add: precharge_distance_def Let_def)
qed

subsection \<open>What is issued\<close>

text \<open>The DRAM operations that an iteration issues to bank \<open>b\<close>.\<close>

fun ram_ops :: "ram_cmd \<Rightarrow> cmd_DDR \<Rightarrow> dram_op list" where
  "ram_ops RC_ACT c = [ACT (cmd_row c)]"
| "ram_ops RC_PRE c = [PRE]"
| "ram_ops RC_RD c = [RW (cmd_row c) (cmd_col c)]"
| "ram_ops RC_RDA c = [RW (cmd_row c) (cmd_col c), PRE]"
| "ram_ops RC_WR c = [RW (cmd_row c) (cmd_col c)]"
| "ram_ops RC_WRA c = [RW (cmd_row c) (cmd_col c), PRE]"
| "ram_ops RC_REF c = []"

definition issued :: "nat \<Rightarrow> issue option \<Rightarrow> dram_op list" where
  "issued b iss = (case iss of Some (Issue k b' c) \<Rightarrow> if b' = b then ram_ops k c else [] | _ \<Rightarrow> [])"

text \<open>The operations of bank \<open>b\<close> that are still to be issued.\<close>

definition pending :: "'d cmdarb \<Rightarrow> nat \<Rightarrow> dram_op list" where
  "pending s b = (if ca_cmd_valid s b then cmd_ops (ca_cmd s b) else []) @ concat (map cmd_ops (ca_cmd_fifo s b))"

definition arb_rest :: "'d cmdarb \<Rightarrow> 'd \<times> nat \<times> int \<times> nat" where
  "arb_rest s = (ca_dram s, ca_ref_enq s, ca_refi_count s, ca_bank s)"

lemma fetch_keeps: "pending (fetch_fifo_heads C s) = pending s" "arb_rest (fetch_fifo_heads C s) = arb_rest s"
proof -
  let ?f = "\<lambda>i s. if ca_cmd_valid s i then s
      else case ca_cmd_fifo s i of [] \<Rightarrow> s
        | c # q \<Rightarrow> s\<lparr>ca_cmd_fifo := (ca_cmd_fifo s)(i := q), ca_cmd := (ca_cmd s)(i := c), ca_cmd_valid := (ca_cmd_valid s)(i := True)\<rparr>"
  have "pending (?f i t) b = pending t b" for i t b
    by (cases "ca_cmd_fifo t i"; cases "b = i") (simp_all add: pending_def)
  then have p: "pending (?f i t) = pending t" for i t by (rule ext)
  show "pending (fetch_fifo_heads C s) = pending s"
    unfolding fetch_fifo_heads_def by (rule for_upto_invariant[where P = "\<lambda>t. pending t = pending s"]) (simp_all only: p)
  have r: "arb_rest (?f i t) = arb_rest t" for i t by (cases "ca_cmd_fifo t i") (simp_all add: arb_rest_def)
  show "arb_rest (fetch_fifo_heads C s) = arb_rest s"
    unfolding fetch_fifo_heads_def by (rule for_upto_invariant[where P = "\<lambda>t. arb_rest t = arb_rest s"]) (simp_all only: r)
qed

lemma update_lid_keeps:
  "ca_cmd (update_lid C M inp d s) = ca_cmd s" "ca_cmd_valid (update_lid C M inp d s) = ca_cmd_valid s"
  "ca_cmd_fifo (update_lid C M inp d s) = ca_cmd_fifo s" "ca_dram (update_lid C M inp d s) = ca_dram s"
  "ca_ref_enq (update_lid C M inp d s) = ca_ref_enq s" "ca_refi_count (update_lid C M inp d s) = ca_refi_count s"
  by (simp_all add: update_lid_def Let_def)

lemma head_ops:
  "cmd_pre_pre c \<Longrightarrow> cmd_ops c = PRE # cmd_ops (c\<lparr>cmd_pre_pre := False\<rparr>)"
  "act_head c \<Longrightarrow> cmd_ops c = ACT (cmd_row c) # cmd_ops (c\<lparr>cmd_act := False\<rparr>)"
  "rw_head c \<Longrightarrow> cmd_ops c = ram_ops (cas_cmd c) c"
  "p_head c \<Longrightarrow> cmd_ops c = [PRE]"
  by (auto simp: cmd_ops_def act_head_def rw_head_def p_head_def is_rw_def cas_cmd_def)

text \<open>The four ways to issue a command, and refresh.\<close>

definition issues :: "'d ramulator \<Rightarrow> int \<Rightarrow> ram_cmd \<Rightarrow> nat \<Rightarrow> 'd cmdarb \<Rightarrow> 'd cmdarb \<Rightarrow> bool" where
  "issues M cycle k b s t \<longleftrightarrow>
    ca_dram t = ram_update M k (xlat_addr_ramulator M (ca_cmd s b) b) cycle (ca_dram s) \<and>
    pending s b = ram_ops k (ca_cmd s b) @ pending t b \<and> (\<forall>b'. b' \<noteq> b \<longrightarrow> pending t b' = pending s b') \<and>
    ca_ref_enq t = ca_ref_enq s \<and> ca_refi_count t = ca_refi_count s"

lemma xlat_flags [simp]:
  "xlat_addr_ramulator M (c\<lparr>cmd_pre_pre := x\<rparr>) b = xlat_addr_ramulator M c b"
  "xlat_addr_ramulator M (c\<lparr>cmd_act := x\<rparr>) b = xlat_addr_ramulator M c b"
  by (simp_all add: xlat_addr_ramulator_def)

lemma issue_rw_issues:
  assumes "ca_cmd_valid s b" "rw_head (ca_cmd s b)"
  shows "issues M (ai_cycle inp) (cas_cmd (ca_cmd s b)) b s (snd (issue_rw C M inp l b s))"
  using assms head_ops(3)[OF assms(2)]
  by (auto simp: issues_def issue_rw_def Let_def update_lid_keeps pending_def)

lemma issue_ppre_issues:
  assumes "ca_cmd_valid s b" "cmd_pre_pre (ca_cmd s b)"
  shows "issues M (ai_cycle inp) RC_PRE b s (issue_ppre C M inp b s)"
  using assms head_ops(1)[OF assms(2)] by (auto simp: issues_def issue_ppre_def Let_def update_lid_keeps pending_def)

lemma issue_act_issues:
  assumes "ca_cmd_valid s b" "act_head (ca_cmd s b)"
  shows "issues M (ai_cycle inp) RC_ACT b s (issue_act M inp b s)"
  using assms head_ops(2)[OF assms(2)] by (auto simp: issues_def issue_act_def Let_def pending_def)

lemma issue_p_issues:
  assumes "ca_cmd_valid s b" "p_head (ca_cmd s b)"
  shows "issues M (ai_cycle inp) RC_PRE b s (issue_p C M inp b s)"
  using assms head_ops(4)[OF assms(2)] by (auto simp: issues_def issue_p_def Let_def update_lid_keeps pending_def)

lemma empty_pending: "fifo_heads_empty C s \<Longrightarrow> b < DRAM_BANKS C \<Longrightarrow> pending s b = []"
  by (simp add: fifo_heads_empty_def pending_def)

text \<open>All that an iteration can issue.\<close>

lemma arb_issue_cases:
  assumes "arb_issue C M item inp s = (iss, R, t)"
  obtains (rw) b where "ready M (ai_cycle inp) s rw_head b" "b < DRAM_BANKS C"
      "\<forall>i<DRAM_BANKS C. ready M (ai_cycle inp) s rw_head i \<longrightarrow> \<not> comes_sooner C (ca_bank s) i b"
      "iss = Some (Issue (cas_cmd (ca_cmd s b)) b (ca_cmd s b))" "R = Some (dq_reservation C M (ai_cycle inp) b (ca_cmd s b))"
      "issues M (ai_cycle inp) (cas_cmd (ca_cmd s b)) b s t" "ca_bank t = unset_bit 0 b"
    | (ppre) b where "ready M (ai_cycle inp) s cmd_pre_pre b" "b < DRAM_BANKS C"
      "\<forall>i<DRAM_BANKS C. \<not> ready M (ai_cycle inp) s rw_head i"
      "iss = Some (Issue RC_PRE b (ca_cmd s b))" "R = None" "issues M (ai_cycle inp) RC_PRE b s t"
    | (act) b where "ready M (ai_cycle inp) s act_head b" "b < DRAM_BANKS C"
      "\<forall>i<DRAM_BANKS C. \<not> ready M (ai_cycle inp) s rw_head i \<and> \<not> ready M (ai_cycle inp) s cmd_pre_pre i"
      "iss = Some (Issue RC_ACT b (ca_cmd s b))" "R = None" "issues M (ai_cycle inp) RC_ACT b s t"
    | (p) b where "ready M (ai_cycle inp) s p_head b" "b < DRAM_BANKS C"
      "\<forall>i<DRAM_BANKS C. \<not> ready M (ai_cycle inp) s rw_head i \<and> \<not> ready M (ai_cycle inp) s cmd_pre_pre i \<and>
         \<not> ready M (ai_cycle inp) s act_head i"
      "iss = Some (Issue RC_PRE b (ca_cmd s b))" "R = None" "issues M (ai_cycle inp) RC_PRE b s t"
    | (ref) "0 < ca_ref_enq s" "fifo_heads_empty C s" "\<not> ai_cmdgen_busy inp"
      "ram_check M RC_REF ref_addr (ai_cycle inp) (ca_dram s)" "iss = Some Refresh" "R = None"
      "ca_dram t = ram_update M RC_REF ref_addr (ai_cycle inp) (ca_dram s)" "pending t = pending s"
      "ca_ref_enq t = ca_ref_enq s - 1" "ca_refi_count t = ca_refi_count s"
    | (idle) "\<forall>i<DRAM_BANKS C. \<not> schedulable M (ai_cycle inp) s i" "iss = None" "R = None" "t = s"
      "fifo_heads_empty C s \<Longrightarrow> 0 < ca_ref_enq s \<Longrightarrow> \<not> ai_cmdgen_busy inp \<Longrightarrow> \<not> ram_check M RC_REF ref_addr (ai_cycle inp) (ca_dram s)"
proof -
  define k where "k = cmd_best_candidates C M item (ai_cycle inp) (ca_bank s) s"
  note f = candidates_found[where C = C and M = M and item = item and cycle = "ai_cycle inp" and bank = "ca_bank s" and s = s, folded k_def]
  have v: "ca_cmd_valid s b \<and> Q (ca_cmd s b)" if "ready M (ai_cycle inp) s Q b" for Q b
    using that by (simp add: ready_def schedulable_def)
  note a = assms[unfolded arb_issue_def Let_def, folded k_def]
  show thesis
  proof (cases "rw_bank k")
    case (Some b)
    then have b: "ready M (ai_cycle inp) s rw_head b" "b < DRAM_BANKS C"
      "\<forall>i<DRAM_BANKS C. ready M (ai_cycle inp) s rw_head i \<longrightarrow> \<not> comes_sooner C (ca_bank s) i b"
      using f(1) by (auto simp: nearest_def found_def)
    have "fst (issue_rw C M inp (rw_count k = 1) b s) = dq_reservation C M (ai_cycle inp) b (ca_cmd s b)"
      by (simp add: issue_rw_def Let_def)
    moreover have "ca_bank (snd (issue_rw C M inp (rw_count k = 1) b s)) = unset_bit 0 b"
      by (simp add: issue_rw_def Let_def update_lid_def)
    ultimately show thesis
      using rw[OF b] a Some v[OF b(1)] issue_rw_issues[of s b M inp C "rw_count k = 1"] by (auto split: prod.splits)
  next
    case None
    then have nrw: "\<forall>i<DRAM_BANKS C. \<not> ready M (ai_cycle inp) s rw_head i" using f(1) by (auto simp: nearest_def found_def)
    show thesis
    proof (cases "ppre_bank k")
      case (Some b)
      then have b: "ready M (ai_cycle inp) s cmd_pre_pre b" "b < DRAM_BANKS C" using f(2) by (auto simp: nearest_def found_def)
      then show thesis using ppre[OF b nrw] a \<open>rw_bank k = None\<close> Some v[OF b(1)] issue_ppre_issues[of s b M inp C] by auto
    next
      case None
      then have npp: "\<forall>i<DRAM_BANKS C. \<not> ready M (ai_cycle inp) s cmd_pre_pre i" using f(2) by (auto simp: nearest_def found_def)
      show thesis
      proof (cases "act_bank k")
        case (Some b)
        then have b: "ready M (ai_cycle inp) s act_head b" "b < DRAM_BANKS C" using f(4) by (auto simp: found_def)
        then show thesis using act[OF b] nrw npp a \<open>rw_bank k = None\<close> \<open>ppre_bank k = None\<close> Some v[OF b(1)] issue_act_issues[of s b M inp]
          by auto
      next
        case None
        then have nact: "\<forall>i<DRAM_BANKS C. \<not> ready M (ai_cycle inp) s act_head i" using f(4) by (auto simp: found_def)
        show thesis
        proof (cases "p_bank k")
          case (Some b)
          then have b: "ready M (ai_cycle inp) s p_head b" "b < DRAM_BANKS C" using f(3) by (auto simp: nearest_def found_def)
          then show thesis
            using p[OF b] nrw npp nact a \<open>rw_bank k = None\<close> \<open>ppre_bank k = None\<close> \<open>act_bank k = None\<close> Some v[OF b(1)]
              issue_p_issues[of s b M inp C] by auto
        next
          case None
          then have "\<forall>i<DRAM_BANKS C. \<not> ready M (ai_cycle inp) s p_head i" using f(3) by (auto simp: nearest_def found_def)
          then have n: "\<forall>i<DRAM_BANKS C. \<not> schedulable M (ai_cycle inp) s i"
            using nrw npp nact unfolding schedulable_ready by blast
          note a' = a[unfolded \<open>rw_bank k = None\<close> \<open>ppre_bank k = None\<close> \<open>act_bank k = None\<close> None option.case]
          show thesis
          proof (cases "0 < ca_ref_enq s \<and> fifo_heads_empty C s \<and> \<not> ai_cmdgen_busy inp \<and> ram_check M RC_REF ref_addr (ai_cycle inp) (ca_dram s)")
            case True
            then show thesis using ref a' by (auto simp: refresh_def Let_def pending_def fun_eq_iff)
          next
            case False
            then show thesis using idle[OF n] a' by (auto simp: refresh_def split: if_splits)
          qed
        qed
      qed
    qed
  qed
qed

end
