(* ===== verification/Arb_Bus.thy ===== *)
theory Arb_Bus
  imports Arb_Props
begin

text \<open>The arbiter over many cycles, with the commands that arrive from the command generator.\<close>

definition arb_step ::
  "dram_cfg \<Rightarrow> 'd ramulator \<Rightarrow> cmd_DDR \<Rightarrow> arb_inputs \<times> (nat \<times> cmd_DDR) list \<Rightarrow> 'd cmdarb \<Rightarrow>
    ((issue option \<times> DQ_reservation option) \<times> 'd cmdarb) res" where
  "arb_step C M item ip s =
    bindE (cmdarb_thread_lt C M item (fst ip) s) (\<lambda>(out, s). Inr (out, fold put_cmd (snd ip) s))"


lemma count_refi_keeps: "count_refi M s = Inr t \<Longrightarrow> pending t = pending s \<and> ca_dram t = ca_dram s"
  by (auto simp: count_refi_def Let_def pending_def fun_eq_iff split: if_splits)




text \<open>Each bank gets its operations in the order of its FIFO: what was issued and what is left make up what arrived.\<close>

definition bus_ops :: "nat \<Rightarrow> (issue option \<times> DQ_reservation option) list \<Rightarrow> dram_op list" where
  "bus_ops b os = concat (map (\<lambda>out. issued b (fst out)) os)"

lemma bus_ops_simps [simp]:
  "bus_ops b [] = []" "bus_ops b (out # os) = issued b (fst out) @ bus_ops b os" "bus_ops b (os @ os') = bus_ops b os @ bus_ops b os'"
  by (simp_all add: bus_ops_def)








text \<open>A small configuration, and a ramulator that allows everything.\<close>

definition tiny_cfg :: dram_cfg where
  "tiny_cfg = \<lparr>BUS_WIDTH = 4, DRAM_BANKS = 2, DRAM_COLS = 8, DRAM_ROWS = 4\<rparr>"

definition eager_ram :: "int \<Rightarrow> unit ramulator" where
  "eager_ram n = \<lparr>ram_check = (\<lambda>_ _ _ _. True), ram_update = (\<lambda>_ _ _ d. d), ram_get_next = (\<lambda>_ _ _. 0), ram_bankgroups = 1,
     ram_banks = 2, nCL = 3, nCWL = 3, nREFI = n\<rparr>"


definition tiny_cmd :: cmd_DDR where
  "tiny_cmd = \<lparr>cmd_row = 0, cmd_col = 0, cmd_pre_pre = False, cmd_act = True, cmd_read = True, cmd_write = False,
     cmd_pre_post = True, cmd_wordmask = (\<lambda>_. False), cmd_sp_offset = 0, cmd_target = RequestTarget_default, cmd_reg_offset = (\<lambda>_. 0)\<rparr>"




subsection \<open>Refresh\<close>

text \<open>The refreshes that are due: one for every \<open>nREFI\<close> cycles. Without one being issued, each cycle adds one.\<close>

definition refi_ok :: "'d ramulator \<Rightarrow> 'd cmdarb \<Rightarrow> bool" where
  "refi_ok M s \<longleftrightarrow> 0 \<le> ca_refi_count s \<and> ca_refi_count s < nREFI M \<and> ca_ref_enq s \<le> 8"

definition refi_due :: "'d ramulator \<Rightarrow> 'd cmdarb \<Rightarrow> int" where
  "refi_due M s = int (ca_ref_enq s) * nREFI M + ca_refi_count s"

lemma count_refi_due:
  assumes "refi_ok M s"
  shows "if refi_due M s + 1 < 9 * nREFI M then \<exists>t. count_refi M s = Inr t \<and> refi_ok M t \<and> refi_due M t = refi_due M s + 1
    else count_refi M s = Inl Assert_Failed"
proof (cases "ca_refi_count s + 1 = nREFI M")
  case True
  then have "refi_due M s + 1 = (int (ca_ref_enq s) + 1) * nREFI M" by (simp add: refi_due_def algebra_simps)
  moreover have "0 < nREFI M" using assms by (simp add: refi_ok_def)
  ultimately have "refi_due M s + 1 < 9 * nREFI M \<longleftrightarrow> ca_ref_enq s + 1 \<le> 8" by (auto simp: mult_less_cancel_right)
  then show ?thesis
    using True assms by (auto simp: count_refi_def refi_ok_def refi_due_def algebra_simps)
next
  case False
  then have lt: "ca_refi_count s + 1 < nREFI M" using assms by (simp add: refi_ok_def)
  have "int (ca_ref_enq s) * nREFI M \<le> 8 * nREFI M" using assms by (intro mult_right_mono) (auto simp: refi_ok_def)
  with lt have "refi_due M s + 1 < 9 * nREFI M" unfolding refi_due_def by linarith
  then show ?thesis using assms lt by (auto simp: count_refi_def refi_ok_def refi_due_def)
qed

lemma arb_issue_refi:
  assumes "arb_issue C M item inp s = (iss, R, t)" "refi_ok M s"
  shows "refi_ok M t" "refi_due M t \<le> refi_due M s" "ai_cmdgen_busy inp \<Longrightarrow> refi_due M t = refi_due M s"
proof -
  have "ca_refi_count t = ca_refi_count s \<and> (ca_ref_enq t = ca_ref_enq s \<or> ca_ref_enq t = ca_ref_enq s - 1 \<and> \<not> ai_cmdgen_busy inp)"
    using assms(1) by (cases rule: arb_issue_cases) (auto simp: issues_def)
  moreover have "int (ca_ref_enq s - 1) * nREFI M \<le> int (ca_ref_enq s) * nREFI M"
    using assms(2) by (intro mult_right_mono) (auto simp: refi_ok_def)
  ultimately show "refi_ok M t" "refi_due M t \<le> refi_due M s" "ai_cmdgen_busy inp \<Longrightarrow> refi_due M t = refi_due M s"
    using assms(2) by (auto simp: refi_ok_def refi_due_def)
qed

lemma refi_rest: "arb_rest s = arb_rest t \<Longrightarrow> refi_ok M s = refi_ok M t \<and> refi_due M s = refi_due M t"
  by (simp add: refi_ok_def refi_due_def arb_rest_def)

lemma put_cmd_rest: "arb_rest (fold put_cmd puts s) = arb_rest s"
  by (induction puts arbitrary: s) (simp_all add: put_cmd_def arb_rest_def)

lemma arb_step_refi:
  assumes "refi_ok M s"
  shows "refi_due M s + 1 < 9 * nREFI M \<Longrightarrow> \<exists>out t. arb_step C M item ip s = Inr (out, t) \<and> refi_ok M t \<and> refi_due M t \<le> refi_due M s + 1 \<and>
      (ai_cmdgen_busy (fst ip) \<longrightarrow> refi_due M t = refi_due M s + 1)"
    and "ai_cmdgen_busy (fst ip) \<Longrightarrow> \<not> refi_due M s + 1 < 9 * nREFI M \<Longrightarrow> arb_step C M item ip s = Inl Assert_Failed"
proof -
  let ?u = "fetch_fifo_heads C s"
  obtain iss R t where t: "arb_issue C M item (fst ip) ?u = (iss, R, t)" by (cases "arb_issue C M item (fst ip) ?u") auto
  have u: "refi_ok M ?u" "refi_due M ?u = refi_due M s" using assms refi_rest[OF fetch_keeps(2)] by auto
  note r = arb_issue_refi[OF t u(1), unfolded u(2)]
  have step: "arb_step C M item ip s = bindE (count_refi M t) (\<lambda>s. Inr ((iss, R), fold put_cmd (snd ip) (s\<lparr>ca_out_ref_pending := (ca_ref_enq s > 0)\<rparr>)))"
    by (cases "count_refi M t") (simp_all add: arb_step_def cmdarb_thread_lt_def t)
  have puts: "refi_ok M (fold put_cmd (snd ip) (v\<lparr>ca_out_ref_pending := x\<rparr>)) = refi_ok M v \<and>
      refi_due M (fold put_cmd (snd ip) (v\<lparr>ca_out_ref_pending := x\<rparr>)) = refi_due M v" for v x
    by (intro refi_rest) (simp only: put_cmd_rest, simp add: arb_rest_def)
  show "\<exists>out t. arb_step C M item ip s = Inr (out, t) \<and> refi_ok M t \<and> refi_due M t \<le> refi_due M s + 1 \<and>
      (ai_cmdgen_busy (fst ip) \<longrightarrow> refi_due M t = refi_due M s + 1)" if "refi_due M s + 1 < 9 * nREFI M"
  proof -
    have "refi_due M t + 1 < 9 * nREFI M" using r(2) that by linarith
    then obtain v where "count_refi M t = Inr v" "refi_ok M v" "refi_due M v = refi_due M t + 1"
      using count_refi_due[OF r(1)] by auto
    then show ?thesis using r(2,3) by (simp add: step puts)
  qed
  show "arb_step C M item ip s = Inl Assert_Failed" if "ai_cmdgen_busy (fst ip)" "\<not> refi_due M s + 1 < 9 * nREFI M"
    using count_refi_due[OF r(1)] r(3)[OF that(1)] that(2) by (simp add: step)
qed

lemma arb_returns:
  "refi_ok M s \<Longrightarrow> refi_due M s + int (length is) < 9 * nREFI M \<Longrightarrow> \<exists>os t. runE (arb_step C M item) is s = Inr (os, t)"
proof (induction "is" arbitrary: s)
  case (Cons i "is")
  obtain out t where t: "arb_step C M item i s = Inr (out, t)" "refi_ok M t" "refi_due M t \<le> refi_due M s + 1"
    using arb_step_refi(1)[OF Cons.prems(1), of C item i] Cons.prems(2) by auto
  then obtain os t' where "runE (arb_step C M item) is t = Inr (os, t')" using Cons.IH[OF t(2)] Cons.prems(2) by auto
  then show ?case using t(1) by simp
qed simp

lemma starved_run:
  "refi_ok M s \<Longrightarrow> refi_due M s < 9 * nREFI M \<Longrightarrow> \<forall>i\<in>set is. ai_cmdgen_busy (fst i) \<Longrightarrow>
    \<not> refi_due M s + int (length is) < 9 * nREFI M \<Longrightarrow> runE (arb_step C M item) is s = Inl Assert_Failed"
proof (induction "is" arbitrary: s)
  case (Cons i "is")
  show ?case
  proof (cases "refi_due M s + 1 < 9 * nREFI M")
    case True
    then obtain out t where t: "arb_step C M item i s = Inr (out, t)" "refi_ok M t" "refi_due M t = refi_due M s + 1"
      using arb_step_refi(1)[OF Cons.prems(1), of C item i] Cons.prems(3) by auto
    then have "runE (arb_step C M item) is t = Inl Assert_Failed" using Cons.IH[OF t(2)] Cons.prems True by auto
    then show ?thesis using t(1) by simp
  next
    case False
    then show ?thesis using arb_step_refi(2)[OF Cons.prems(1), of i C item] Cons.prems(3) by simp
  qed
qed simp

lemma init_refi: "0 < nREFI M \<Longrightarrow> refi_ok M (CmdArb_DDR4 d cmd t) \<and> refi_due M (CmdArb_DDR4 d cmd t) = 0"
  by (simp add: refi_ok_def refi_due_def CmdArb_DDR4_def)

text \<open>
  C24. The arbiter never postpones more refreshes than the DDR4 standard allows, at the price of stopping: when the command generator is
  busy without a break, the assertion on the number of postponed refreshes fails after exactly nine refresh intervals; whatever
  the inputs, it does not fail before.
\<close>

theorem refresh_starved:
  assumes "0 < nREFI M"
  shows "(int (length is) < 9 * nREFI M \<longrightarrow> (\<exists>os s. runE (arb_step C M item) is (CmdArb_DDR4 d cmd tgt) = Inr (os, s))) \<and>
    ((\<forall>i\<in>set is. ai_cmdgen_busy (fst i)) \<and> 9 * nREFI M \<le> int (length is) \<longrightarrow>
      runE (arb_step C M item) is (CmdArb_DDR4 d cmd tgt) = Inl Assert_Failed)"
  using arb_returns[of M "CmdArb_DDR4 d cmd tgt" "is" C item] starved_run[of M "CmdArb_DDR4 d cmd tgt" "is" C item]
    init_refi[OF assms, of d cmd tgt] assms by auto

theorem refresh_starved_witness:
  "runE (arb_step tiny_cfg (eager_ram 2) tiny_cmd) (replicate 18 (\<lparr>ai_cycle = 0, ai_cmdgen_busy = True\<rparr>, []))
    (CmdArb_DDR4 () (\<lambda>_. tiny_cmd) RequestTarget_default) = Inl Assert_Failed"
  using refresh_starved[of "eager_ram 2" "replicate 18 (\<lparr>ai_cycle = 0, ai_cmdgen_busy = True\<rparr>, [])" tiny_cfg tiny_cmd "()" "\<lambda>_. tiny_cmd"
      RequestTarget_default]
  by (simp add: eager_ram_def)


subsection \<open>Timing\<close>

text \<open>
  C23. In every cycle the arbiter issues only what ramulator allows in that cycle, tells ramulator of it, and
  loses no cycle: when it issues nothing, no bank can issue the operation its head waits for. A read or write that can be
  issued goes first, from the bank that comes soonest after the last one served, and reserves the data bus for the bank,
  row, column and words of its request, the latency of the DRAM later; a refresh is issued only when nothing is queued.
\<close>

theorem arb_timing:
  assumes "cmdarb_thread_lt C M item inp s = Inr ((iss, R), t)"
  defines "u \<equiv> fetch_fifo_heads C s" and "now \<equiv> ai_cycle inp"
  shows "case iss of
    None \<Rightarrow> R = None \<and> (\<forall>i<DRAM_BANKS C. \<not> schedulable M now u i) \<and> ca_dram t = ca_dram s
  | Some (Issue k b c) \<Rightarrow> b < DRAM_BANKS C \<and> ca_cmd_valid u b \<and> c = ca_cmd u b \<and> head_op c = Some k \<and>
      ram_check M k (xlat_addr_ramulator M c b) now (ca_dram s) \<and>
      ca_dram t = ram_update M k (xlat_addr_ramulator M c b) now (ca_dram s) \<and>
      (if rw_head c
       then R = Some (dq_reservation C M now b c) \<and>
         (\<forall>i<DRAM_BANKS C. ready M now u rw_head i \<longrightarrow> \<not> comes_sooner C (ca_bank s) i b)
       else R = None \<and> (\<forall>i<DRAM_BANKS C. \<not> ready M now u rw_head i))
  | Some Refresh \<Rightarrow> R = None \<and> \<not> ai_cmdgen_busy inp \<and> (\<forall>b<DRAM_BANKS C. pending s b = []) \<and> 0 < ca_ref_enq s \<and>
      ram_check M RC_REF ref_addr now (ca_dram s) \<and> ca_dram t = ram_update M RC_REF ref_addr now (ca_dram s)"
proof -
  obtain v w where v: "arb_issue C M item inp u = (iss, R, v)" "count_refi M v = Inr w" "t = w\<lparr>ca_out_ref_pending := (ca_ref_enq w > 0)\<rparr>"
    using assms(1) unfolding u_def by (auto simp: cmdarb_thread_lt_def bindE_Inr_iff split: prod.splits)
  have d: "ca_dram t = ca_dram v" using count_refi_keeps[OF v(2)] by (simp add: v(3))
  have s: "ca_dram u = ca_dram s" "ca_bank u = ca_bank s" "ca_ref_enq u = ca_ref_enq s" "pending u = pending s"
    using fetch_keeps[of C s] by (simp_all add: u_def arb_rest_def)
  have h: "rw_head c \<Longrightarrow> head_op c = Some (cas_cmd c)" "cmd_pre_pre c \<Longrightarrow> head_op c = Some RC_PRE \<and> \<not> rw_head c"
    "act_head c \<Longrightarrow> head_op c = Some RC_ACT \<and> \<not> rw_head c" "p_head c \<Longrightarrow> head_op c = Some RC_PRE \<and> \<not> rw_head c" for c
    by (auto simp: head_op_def rw_head_def act_head_def p_head_def)
  show ?thesis
    using v(1)
  proof (cases rule: arb_issue_cases)
    case (rw b)
    then show ?thesis using h(1)[of "ca_cmd u b"] by (auto simp: d s ready_def schedulable_def issues_def now_def)
  next
    case (ppre b)
    then show ?thesis using h(2)[of "ca_cmd u b"] by (auto simp: d s ready_def schedulable_def issues_def now_def)
  next
    case (act b)
    then show ?thesis using h(3)[of "ca_cmd u b"] by (auto simp: d s ready_def schedulable_def issues_def now_def)
  next
    case (p b)
    then show ?thesis using h(4)[of "ca_cmd u b"] by (auto simp: d s ready_def schedulable_def issues_def now_def)
  next
    case ref
    then show ?thesis using empty_pending[OF ref(2)] by (simp add: d s now_def)
  next
    case idle
    then show ?thesis by (simp add: d s now_def)
  qed
qed

definition tiny_state :: "unit cmdarb" where
  "tiny_state = put_cmd (0, tiny_cmd) (CmdArb_DDR4 () (\<lambda>_. tiny_cmd) RequestTarget_default)"

lemma tiny_fetch: "fetch_fifo_heads tiny_cfg tiny_state =
    tiny_state\<lparr>ca_cmd_fifo := (\<lambda>_. []), ca_cmd_valid := (\<lambda>_. False)(0 := True)\<rparr>"
proof -
  have "for_upto 2 f x = f 1 (f 0 x)" for f and x :: "unit cmdarb" by (simp add: numeral_2_eq_2)
  then show ?thesis
    by (simp add: fetch_fifo_heads_def tiny_cfg_def tiny_state_def put_cmd_def CmdArb_DDR4_def fun_eq_iff)
qed

lemma tiny_issue:
  "\<exists>t. cmdarb_thread_lt tiny_cfg (eager_ram 2) tiny_cmd \<lparr>ai_cycle = 0, ai_cmdgen_busy = False\<rparr> tiny_state =
    Inr ((Some (Issue RC_ACT 0 tiny_cmd), None), t)"
proof -
  let ?u = "fetch_fifo_heads tiny_cfg tiny_state" and ?inp = "\<lparr>ai_cycle = 0, ai_cmdgen_busy = False\<rparr>"
  have v: "ca_cmd ?u = (\<lambda>_. tiny_cmd)" "ca_cmd_valid ?u = (\<lambda>_. False)(0 := True)"
    by (simp_all add: tiny_fetch) (simp_all add: tiny_state_def put_cmd_def CmdArb_DDR4_def)
  obtain iss R t where i: "arb_issue tiny_cfg (eager_ram 2) tiny_cmd ?inp ?u = (iss, R, t)"
    by (cases "arb_issue tiny_cfg (eager_ram 2) tiny_cmd ?inp ?u") auto
  then have "iss = Some (Issue RC_ACT 0 tiny_cmd) \<and> R = None"
  proof (cases rule: arb_issue_cases)
    case idle
    moreover have "DRAM_BANKS tiny_cfg = 2" by (simp add: tiny_cfg_def)
    ultimately have "\<not> schedulable (eager_ram 2) 0 ?u 0" by simp
    then show ?thesis by (simp add: schedulable_def v head_op_def tiny_cmd_def eager_ram_def)
  next
    case ref
    moreover have "DRAM_BANKS tiny_cfg = 2" by (simp add: tiny_cfg_def)
    ultimately have "\<not> ca_cmd_valid ?u 0" by (simp add: fifo_heads_empty_def)
    then show ?thesis by (simp add: v)
  qed (auto simp: ready_def schedulable_def v rw_head_def p_head_def tiny_cmd_def split: if_splits)
  moreover have "refi_ok (eager_ram 2) ?u" "refi_due (eager_ram 2) ?u = 0"
    by (simp_all add: tiny_fetch) (simp_all add: refi_ok_def refi_due_def tiny_state_def put_cmd_def CmdArb_DDR4_def eager_ram_def)
  then have "\<exists>v. count_refi (eager_ram 2) t = Inr v"
    using count_refi_due[OF arb_issue_refi(1)[OF i]] arb_issue_refi(2)[OF i] by (auto simp: eager_ram_def split: if_splits)
  ultimately show ?thesis by (auto simp: cmdarb_thread_lt_def i)
qed

theorem arb_timing_witness:
  "\<exists>t. cmdarb_thread_lt tiny_cfg (eager_ram 2) tiny_cmd \<lparr>ai_cycle = 0, ai_cmdgen_busy = False\<rparr> tiny_state =
      Inr ((Some (Issue RC_ACT 0 tiny_cmd), None), t) \<and> head_op tiny_cmd = Some RC_ACT \<and>
    (\<forall>i<2. \<not> ready (eager_ram 2) 0 (fetch_fifo_heads tiny_cfg tiny_state) rw_head i)"
proof -
  obtain t where t: "cmdarb_thread_lt tiny_cfg (eager_ram 2) tiny_cmd \<lparr>ai_cycle = 0, ai_cmdgen_busy = False\<rparr> tiny_state =
      Inr ((Some (Issue RC_ACT 0 tiny_cmd), None), t)"
    using tiny_issue by blast
  have "\<not> rw_head tiny_cmd" "DRAM_BANKS tiny_cfg = 2" by (simp_all add: rw_head_def tiny_cmd_def tiny_cfg_def)
  with arb_timing[OF t] t show ?thesis by (intro exI[of _ t]) simp
qed

end
