(* ===== verification/Exec_State.thy ===== *)
theory Exec_State
  imports Isa_Instruction Work_Sched Ctrl_Stack Score_Board Ringbuffer
begin

text \<open>
  \<open>compute/control/IExecute.h\<close>, the execute stage of the pipeline: its state. A pipeline stage is the class
  \<open>IExecute_pipe\<close>, the template parameters are the record \<open>ex_cfg\<close>, the input ports a record read once a cycle, the
  output ports part of the state, since an output keeps its value until it is written. A write into one of the
  output FIFOs, which suspends the thread while the FIFO is full, is an entry of the outputs of the cycle.

  Words are \<open>32 word\<close>. Signed overflow is taken to wrap, as the machine's instructions do. The arithmetic of
  single-precision numbers that rounds, and the functions of the mathematical library, belong to the machine the
  simulator runs on; they are the record \<open>fpu\<close>, an argument of the definitions that use them. What needs no
  rounding (the sign, comparison, minimum and maximum) is defined on the bits of the IEEE format.
\<close>

record ex_cfg =
  x_THREADS :: nat
  x_LANES :: nat
  x_RCPUS :: nat
  x_PC_WIDTH :: nat

datatype enum_print = PRINT_NONE | PRINT_SGPR | PRINT_VGPR | PRINT_PR | PRINT_CMASK | PRINT_TRACE

record exec_pipe =
  xp_pc_do_w :: bool
  xp_pc_w :: nat
  xp_out_w :: bool
  xp_req_w :: reg
  xp_subcol_w :: nat
  xp_wg_w :: slot
  xp_data_w :: "nat \<Rightarrow> u32"
  xp_col_mask_w :: nat
  xp_dequeue_sb :: bool
  xp_dequeue_sb_cstack_entry :: bool
  xp_ignore_mask_w :: bool
  xp_cstack_action :: ctrlstack_action
  xp_cstack_entry :: ctrlstack_entry
  xp_store_target :: "req_if"
  xp_desc_fifo :: stride_descriptor
  xp_wg_state_next :: "slot \<Rightarrow> workgroup_state"
  xp_wg_exit_commit :: "slot \<Rightarrow> bool"
  xp_op :: Instruction
  xp_print :: enum_print

text \<open>The default constructor leaves the work-group states indeterminate: the argument \<open>g\<close>.\<close>

definition IExecute_pipe_default :: "(slot \<Rightarrow> workgroup_state) \<Rightarrow> exec_pipe" where
  "IExecute_pipe_default g = \<lparr>xp_pc_do_w = False, xp_pc_w = 0, xp_out_w = False, xp_req_w = Register_wg 0, xp_subcol_w = 0,
     xp_wg_w = 0, xp_data_w = (\<lambda>_. 0), xp_col_mask_w = 0, xp_dequeue_sb = False, xp_dequeue_sb_cstack_entry = False,
     xp_ignore_mask_w = False, xp_cstack_action = CTRLSTACK_IDLE, xp_cstack_entry = ctrlstack_entry_default,
     xp_store_target = IF_SENTINEL, xp_desc_fifo = stride_descriptor_default, xp_wg_state_next = g,
     xp_wg_exit_commit = (\<lambda>_. False), xp_op = Instruction_default 0, xp_print = PRINT_NONE\<rparr>"

definition IExecute_pipe :: "slot \<Rightarrow> exec_pipe" where
  "IExecute_pipe wg = (IExecute_pipe_default (\<lambda>_. WG_STATE_NONE))\<lparr>xp_req_w := Register_wg wg, xp_wg_w := wg\<rparr>"

definition invalidate :: "exec_pipe \<Rightarrow> exec_pipe" where
  "invalidate ps = ps\<lparr>xp_pc_do_w := False, xp_out_w := False, xp_store_target := IF_SENTINEL, xp_print := PRINT_NONE,
     xp_wg_state_next := (\<lambda>_. WG_STATE_NONE), xp_cstack_action := CTRLSTACK_IDLE, xp_op := kill (xp_op ps)\<rparr>"

subsection \<open>Ports and state\<close>

record exec_inputs =
  xi_pc :: nat
  xi_insn :: Instruction
  xi_wg :: slot
  xi_col_w :: nat
  xi_subcol_w :: nat
  xi_operand :: "nat \<Rightarrow> nat \<Rightarrow> u32"
  xi_sd :: "slot \<Rightarrow> stride_descriptor"
  xi_thread_active :: "slot \<Rightarrow> bool"
  xi_xlat_phys :: Buffer
  xi_sp_xlat_phys :: Buffer
  xi_cstack_top :: ctrlstack_entry
  xi_wg_off :: "slot \<Rightarrow> nat \<Rightarrow> u32"
  xi_dim :: "nat \<Rightarrow> u32"
  xi_wg_width :: workgroup_width

record exec_outputs =
  xo_pc_w :: nat
  xo_pc_do_w :: bool
  xo_req_w :: reg
  xo_wg_w :: slot
  xo_data_w :: "nat \<Rightarrow> u32"
  xo_w :: bool
  xo_dequeue_sb :: bool
  xo_dequeue_sb_cstack_write :: bool
  xo_ignore_mask_w :: bool
  xo_cstack_action :: ctrlstack_action
  xo_cstack_entry :: ctrlstack_entry
  xo_wg_state_next :: "slot \<Rightarrow> workgroup_state"
  xo_wg_exit_commit :: "slot \<Rightarrow> bool"
  xo_col_mask_w :: "nat option"
  xo_desc_fifo :: "(req_if \<times> stride_descriptor) option"
  xo_store_kick :: "req_if option"

text \<open>The pointer to the scoreboard, which only an assertion reads, is an argument of \<open>commit\<close>.\<close>

record exec =
  xs_cstack_entry :: ctrlstack_entry
  xs_pipe :: "exec_pipe ringbuffer"
  xs_sidebuf :: exec_pipe
  xs_hold_counter :: int
  xs_commit_vec :: "ISACategory \<Rightarrow> 64 word"
  xs_commit_sc :: "ISACategory \<Rightarrow> 64 word"
  xs_commit_nop :: "64 word"
  xs_ticket_push :: int
  xs_out :: exec_outputs
  xs_trace :: bool

definition reset_cstack_entry :: "exec \<Rightarrow> exec" where
  "reset_cstack_entry s = s\<lparr>xs_cstack_entry := \<lparr>pred_mask = (\<lambda>_. False), e_pc = 0, mask_type = unat VSP_CTRL_RUN\<rparr>\<rparr>"

definition exec_outputs_init :: exec_outputs where
  "exec_outputs_init = \<lparr>xo_pc_w = 0, xo_pc_do_w = False, xo_req_w = Register_wg 0, xo_wg_w = 0, xo_data_w = (\<lambda>_. 0), xo_w = False,
     xo_dequeue_sb = False, xo_dequeue_sb_cstack_write = False, xo_ignore_mask_w = False, xo_cstack_action = CTRLSTACK_IDLE,
     xo_cstack_entry = ctrlstack_entry_default, xo_wg_state_next = (\<lambda>_. WG_STATE_NONE), xo_wg_exit_commit = (\<lambda>_. False),
     xo_col_mask_w = None, xo_desc_fifo = None, xo_store_kick = None\<rparr>"

text \<open>The constructor, and \<open>set_pipeline_stages\<close> after it; \<open>g\<close> as above, \<open>trace\<close> the global debug switch.\<close>

definition IExecute :: "(slot \<Rightarrow> workgroup_state) \<Rightarrow> bool \<Rightarrow> exec res" where
  "IExecute g trace = bindE (resize 3 (IExecute_pipe_default g)) (\<lambda>p. Inr (reset_cstack_entry
     \<lparr>xs_cstack_entry = ctrlstack_entry_default, xs_pipe = p, xs_sidebuf = IExecute_pipe_default g, xs_hold_counter = 0,
      xs_commit_vec = (\<lambda>_. 0), xs_commit_sc = (\<lambda>_. 0), xs_commit_nop = 0, xs_ticket_push = 0, xs_out = exec_outputs_init,
      xs_trace = trace\<rparr>))"

definition set_pipeline_stages :: "(slot \<Rightarrow> workgroup_state) \<Rightarrow> nat \<Rightarrow> exec \<Rightarrow> exec res" where
  "set_pipeline_stages g stages s =
    (if stages < 3 then Inl Invalid_Argument
     else bindE (resize stages (IExecute_pipe_default g)) (\<lambda>p. Inr (s\<lparr>xs_pipe := p\<rparr>)))"

subsection \<open>Single-precision numbers\<close>

record fpu =
  fp_add :: "u32 \<Rightarrow> u32 \<Rightarrow> u32"
  fp_mul :: "u32 \<Rightarrow> u32 \<Rightarrow> u32"
  fp_mad :: "u32 \<Rightarrow> u32 \<Rightarrow> u32 \<Rightarrow> u32"
  fp_div :: "u32 \<Rightarrow> u32 \<Rightarrow> u32"
  fp_sqrt :: "u32 \<Rightarrow> u32"
  fp_sin :: "u32 \<Rightarrow> u32"
  fp_cos :: "u32 \<Rightarrow> u32"
  fp_of_uint :: "u32 \<Rightarrow> u32"
  fp_to_uint :: "u32 \<Rightarrow> u32"

definition fp_neg :: "u32 \<Rightarrow> u32" where
  "fp_neg x = x XOR 0x80000000"

definition fp_nan :: "u32 \<Rightarrow> bool" where
  "fp_nan x \<longleftrightarrow> x AND 0x7fffffff > 0x7f800000"

text \<open>The order of the numbers that are no NaN: the magnitude with its sign, so that both zeroes are equal.\<close>

definition fp_ord :: "u32 \<Rightarrow> int" where
  "fp_ord x = (if bit x 31 then - uint (x AND 0x7fffffff) else uint x)"

definition fp_less :: "u32 \<Rightarrow> u32 \<Rightarrow> bool" where
  "fp_less x y \<longleftrightarrow> \<not> fp_nan x \<and> \<not> fp_nan y \<and> fp_ord x < fp_ord y"

definition fp_eq :: "u32 \<Rightarrow> u32 \<Rightarrow> bool" where
  "fp_eq x y \<longleftrightarrow> \<not> fp_nan x \<and> \<not> fp_nan y \<and> fp_ord x = fp_ord y"

definition fp_le :: "u32 \<Rightarrow> u32 \<Rightarrow> bool" where
  "fp_le x y \<longleftrightarrow> fp_less x y \<or> fp_eq x y"

text \<open>\<open>std::min\<close> and \<open>std::max\<close>, which return their first argument unless the second compares better.\<close>

definition std_min :: "('a \<Rightarrow> 'a \<Rightarrow> bool) \<Rightarrow> 'a \<Rightarrow> 'a \<Rightarrow> 'a" where
  "std_min lt a b = (if lt b a then b else a)"

definition std_max :: "('a \<Rightarrow> 'a \<Rightarrow> bool) \<Rightarrow> 'a \<Rightarrow> 'a \<Rightarrow> 'a" where
  "std_max lt a b = (if lt a b then b else a)"

definition int_less :: "u32 \<Rightarrow> u32 \<Rightarrow> bool" where
  "int_less a b \<longleftrightarrow> sint a < sint b"

subsection \<open>Writing the result of a stage\<close>

definition set_lanes :: "ex_cfg \<Rightarrow> (nat \<Rightarrow> u32) \<Rightarrow> exec_pipe \<Rightarrow> exec_pipe" where
  "set_lanes C f ps = ps\<lparr>xp_data_w := for_upto (x_LANES C) (\<lambda>l d. d(l := f l)) (xp_data_w ps)\<rparr>"

definition set_scalar :: "u32 \<Rightarrow> exec_pipe \<Rightarrow> exec_pipe" where
  "set_scalar v ps = ps\<lparr>xp_data_w := (xp_data_w ps)(0 := v)\<rparr>"

lemma set_lanes_data: "xp_data_w (set_lanes C f ps) = (\<lambda>l. if l < x_LANES C then f l else xp_data_w ps l)"
  using for_upto_store[of "x_LANES C" 0 f "xp_data_w ps"] by (auto simp: set_lanes_def)

lemma set_scalar_data [simp]: "xp_data_w (set_scalar v ps) 0 = v"
  by (simp add: set_scalar_def)

end
