(* ===== verification/Exec_Alu.thy ===== *)
theory Exec_Alu
  imports Exec_State "HOL-Library.Signed_Division"
begin

text \<open>
  The operations of \<open>IExecute.h\<close> that compute: floating point, copies and conversions, predicates, control flow, integer
  arithmetic of vectors and scalars, the reciprocal unit. Each is the code's \<open>do_\<dots>\<close> function; it reads the operands
  off the input ports and fills in the fields of the pipeline stage. An operation whose result the language leaves
  undefined for some operands returns \<open>Inl\<close> there.
\<close>

type_synonym exec_op = "ex_cfg \<Rightarrow> exec_inputs \<Rightarrow> exec_pipe \<Rightarrow> exec_pipe"

abbreviation op0 :: "exec_inputs \<Rightarrow> nat \<Rightarrow> u32" where "op0 i \<equiv> xi_operand i 0"
abbreviation op1 :: "exec_inputs \<Rightarrow> nat \<Rightarrow> u32" where "op1 i \<equiv> xi_operand i 1"
abbreviation op2 :: "exec_inputs \<Rightarrow> nat \<Rightarrow> u32" where "op2 i \<equiv> xi_operand i 2"

subsection \<open>Floating point\<close>

definition fpu_mod :: "ISASubOpFPUMod \<Rightarrow> u32 \<Rightarrow> u32" where
  "fpu_mod m x = (if m = FPU_NEG then fp_neg x else x)"

definition do_VMAD :: "fpu \<Rightarrow> ISASubOpFPUMod \<Rightarrow> exec_op" where
  "do_VMAD F m C i = set_lanes C (\<lambda>l. fp_mad F (op0 i l) (fpu_mod m (op1 i l)) (op2 i l))"

definition do_VADD :: "fpu \<Rightarrow> ISASubOpFPUMod \<Rightarrow> exec_op" where
  "do_VADD F m C i = set_lanes C (\<lambda>l. fp_add F (op0 i l) (fpu_mod m (op1 i l)))"

definition do_VMUL :: "fpu \<Rightarrow> ISASubOpFPUMod \<Rightarrow> exec_op" where
  "do_VMUL F m C i = set_lanes C (\<lambda>l. fp_mul F (op0 i l) (fpu_mod m (op1 i l)))"

definition do_VMIN :: exec_op where
  "do_VMIN C i = set_lanes C (\<lambda>l. std_min fp_less (op0 i l) (op1 i l))"

definition do_VMAX :: exec_op where
  "do_VMAX C i = set_lanes C (\<lambda>l. std_max fp_less (op0 i l) (op1 i l))"

definition do_VABS :: exec_op where
  "do_VABS C i = set_lanes C (\<lambda>l. op0 i l AND NOT 0x80000000)"

subsection \<open>Copies, conversions, buffer queries\<close>

definition do_MOV :: exec_op where
  "do_MOV C i = set_lanes C (op0 i)"

definition do_CVT :: "fpu \<Rightarrow> ISASubOpCVT \<Rightarrow> exec_op" where
  "do_CVT F m C i = set_lanes C (\<lambda>l. if m = CVT_I2F then fp_of_uint F (op0 i l) else fp_to_uint F (op0 i l))"

definition do_SCVT :: "fpu \<Rightarrow> ISASubOpCVT \<Rightarrow> exec_op" where
  "do_SCVT F m C i = set_scalar (if m = CVT_I2F then fp_of_uint F (op0 i 0) else fp_to_uint F (op0 i 0))"

definition do_BUFQUERY :: "ISASubOpBUFQUERY \<Rightarrow> exec_inputs \<Rightarrow> exec_pipe \<Rightarrow> exec_pipe res" where
  "do_BUFQUERY m i ps =
    (let b = xi_xlat_phys i in
     if \<not> buf_valid b then Inl Process_Exit
     else case m of
       BUFQUERY_DIM_X \<Rightarrow> Inr (set_scalar (buf_dim_x b) ps)
     | BUFQUERY_DIM_Y \<Rightarrow> Inr (set_scalar (buf_dim_y b) ps)
     | BUFQUERY_SENTINEL \<Rightarrow> Inl Assert_Failed)"

subsection \<open>Tests and predicates\<close>

text \<open>A test with no modifier of its own leaves the lane as it is.\<close>

definition fp_test :: "ISASubOpTEST \<Rightarrow> u32 \<Rightarrow> u32 \<Rightarrow> u32" where
  "fp_test t x old =
    (let b = of_bool :: bool \<Rightarrow> u32; neg_zero = fp_neg 0 in
     case t of
       TEST_EZ \<Rightarrow> b (fp_eq x 0 \<or> fp_eq x neg_zero)
     | TEST_NZ \<Rightarrow> b (\<not> fp_eq x 0 \<and> \<not> fp_eq x neg_zero)
     | TEST_L \<Rightarrow> b (fp_less x 0)
     | TEST_LE \<Rightarrow> b (fp_le x 0 \<or> fp_eq x neg_zero)
     | TEST_G \<Rightarrow> b (fp_less 0 x)
     | TEST_GE \<Rightarrow> b (fp_le 0 x \<or> fp_eq x neg_zero)
     | TEST_SENTINEL \<Rightarrow> old)"

definition do_TEST :: "ISASubOpTEST \<Rightarrow> exec_op" where
  "do_TEST t C i ps = set_lanes C (\<lambda>l. fp_test t (op0 i l) (xp_data_w ps l)) ps"

definition int_test :: "ISASubOpTEST \<Rightarrow> int \<Rightarrow> bool option" where
  "int_test t x =
    (case t of
       TEST_EZ \<Rightarrow> Some (x = 0)
     | TEST_NZ \<Rightarrow> Some (x \<noteq> 0)
     | TEST_L \<Rightarrow> Some (x < 0)
     | TEST_LE \<Rightarrow> Some (x \<le> 0)
     | TEST_G \<Rightarrow> Some (x > 0)
     | TEST_GE \<Rightarrow> Some (x \<ge> 0)
     | TEST_SENTINEL \<Rightarrow> None)"

definition do_ITEST :: "ISASubOpTEST \<Rightarrow> exec_op" where
  "do_ITEST t C i ps =
    set_lanes C (\<lambda>l. case int_test t (sint (op0 i l)) of Some b \<Rightarrow> of_bool b | None \<Rightarrow> xp_data_w ps l) ps"

definition pbool :: "ISASubOpPBOOL \<Rightarrow> u32 \<Rightarrow> u32 \<Rightarrow> u32 \<Rightarrow> u32" where
  "pbool m b1 b2 old =
    (case m of
       PBOOL_AND \<Rightarrow> b1 AND b2
     | PBOOL_OR \<Rightarrow> b1 OR b2
     | PBOOL_NAND \<Rightarrow> of_bool (b1 AND b2 = 0)
     | PBOOL_NOR \<Rightarrow> of_bool (b1 OR b2 = 0)
     | PBOOL_SENTINEL \<Rightarrow> old)"

definition do_PBOOL :: "ISASubOpPBOOL \<Rightarrow> exec_op" where
  "do_PBOOL m C i ps = set_lanes C (\<lambda>l. pbool m (op0 i l AND 1) (op1 i l AND 1) (xp_data_w ps l)) ps"

subsection \<open>Control flow\<close>

definition pc_trunc :: "ex_cfg \<Rightarrow> nat \<Rightarrow> nat" where
  "pc_trunc C n = n mod 2 ^ x_PC_WIDTH C"

definition do_J :: exec_op where
  "do_J C i ps = ps\<lparr>xp_pc_w := pc_trunc C (unat (op0 i 0)), xp_pc_do_w := True\<rparr>"

definition do_SICJ :: "ISASubOpTEST \<Rightarrow> exec_op" where
  "do_SICJ t C i ps = (if int_test t (sint (op1 i 0)) = Some True then do_J C i ps else ps)"

definition do_CPOP :: "bool \<Rightarrow> exec_op" where
  "do_CPOP com C i ps =
    (let col = xi_col_w i; e = xi_cstack_top i;
         ps = (set_lanes C (\<lambda>l. of_bool (pred_mask e (col * x_LANES C + l))) ps)
           \<lparr>xp_req_w := Register (xi_wg i) REGISTER_VSP (of_nat (mask_type e)) col, xp_ignore_mask_w := True, xp_out_w := True\<rparr>
     in if com then ps\<lparr>xp_cstack_action := CTRLSTACK_POP, xp_pc_w := e_pc e, xp_pc_do_w := True\<rparr> else ps)"

text \<open>The shadow entry collects the predicates of a column at a time; the last column pushes it.\<close>

definition cpush_mask :: "ISASubOpCPUSH \<Rightarrow> nat res" where
  "cpush_mask m =
    (case m of
       CPUSH_IF \<Rightarrow> Inr (unat VSP_CTRL_RUN)
     | CPUSH_BRK \<Rightarrow> Inr (unat VSP_CTRL_BREAK)
     | CPUSH_RET \<Rightarrow> Inr (unat VSP_CTRL_RET)
     | CPUSH_SENTINEL \<Rightarrow> Inl Assert_Failed)"

definition do_CPUSH ::
  "ISASubOpCPUSH \<Rightarrow> nat \<Rightarrow> bool \<Rightarrow> ex_cfg \<Rightarrow> exec_inputs \<Rightarrow> exec \<times> exec_pipe \<Rightarrow> (exec \<times> exec_pipe) res" where
  "do_CPUSH m pc com C i = (\<lambda>(s, ps).
    let offset = xi_col_w i * x_LANES C;
        pm = for_upto (x_LANES C) (\<lambda>l p. p(offset + l := (op1 i l \<noteq> 0))) (pred_mask (xs_cstack_entry s))
    in bindE (cpush_mask m) (\<lambda>mt.
      let e = \<lparr>pred_mask = pm, e_pc = pc_trunc C pc, mask_type = mt\<rparr>
      in Inr (s\<lparr>xs_cstack_entry := e\<rparr>,
              if com then ps\<lparr>xp_cstack_action := CTRLSTACK_PUSH, xp_cstack_entry := e\<rparr> else ps)))"

definition do_CMASK :: "nat \<Rightarrow> exec_op" where
  "do_CMASK src C i = set_lanes C (\<lambda>l. if xi_operand i src l \<noteq> 0 then 0 else 1)"

definition do_CALL_MASK :: "nat \<Rightarrow> exec_op" where
  "do_CALL_MASK src C i = set_lanes C (\<lambda>l. if xi_operand i src l \<noteq> 0 then 1 else 0)"

subsection \<open>Integer arithmetic\<close>

definition do_IADD :: exec_op where "do_IADD C i = set_lanes C (\<lambda>l. op0 i l + op1 i l)"

definition do_ISUB :: exec_op where "do_ISUB C i = set_lanes C (\<lambda>l. op0 i l - op1 i l)"

definition do_IMUL :: exec_op where "do_IMUL C i = set_lanes C (\<lambda>l. op0 i l * op1 i l)"

definition do_IMAD :: exec_op where "do_IMAD C i = set_lanes C (\<lambda>l. op0 i l * op1 i l + op2 i l)"

definition do_IMIN :: exec_op where "do_IMIN C i = set_lanes C (\<lambda>l. std_min int_less (op0 i l) (op1 i l))"

definition do_IMAX :: exec_op where "do_IMAX C i = set_lanes C (\<lambda>l. std_max int_less (op0 i l) (op1 i l))"

text \<open>A shift by a negative number or by 32 and more is undefined.\<close>

definition shift_left :: "u32 \<Rightarrow> u32 \<Rightarrow> u32 res" where
  "shift_left a b = (if unat b < 32 then Inr (push_bit (unat b) a) else Inl Undefined_Arith)"

definition shift_right :: "u32 \<Rightarrow> u32 \<Rightarrow> u32 res" where
  "shift_right a b = (if unat b < 32 then Inr (signed_drop_bit (unat b) a) else Inl Undefined_Arith)"

definition set_lanesE :: "ex_cfg \<Rightarrow> (nat \<Rightarrow> u32 res) \<Rightarrow> exec_pipe \<Rightarrow> exec_pipe res" where
  "set_lanesE C f ps = bindE (for_uptoE (x_LANES C) (\<lambda>l d. bindE (f l) (\<lambda>v. Inr (d(l := v)))) (xp_data_w ps))
     (\<lambda>d. Inr (ps\<lparr>xp_data_w := d\<rparr>))"

definition do_SHL :: "ex_cfg \<Rightarrow> exec_inputs \<Rightarrow> exec_pipe \<Rightarrow> exec_pipe res" where
  "do_SHL C i = set_lanesE C (\<lambda>l. shift_left (op0 i l) (op1 i 0))"

definition do_SHR :: "ex_cfg \<Rightarrow> exec_inputs \<Rightarrow> exec_pipe \<Rightarrow> exec_pipe res" where
  "do_SHR C i = set_lanesE C (\<lambda>l. shift_right (op0 i l) (op1 i 0))"

definition do_AND :: exec_op where "do_AND C i = set_lanes C (\<lambda>l. op0 i l AND op1 i l)"

definition do_OR :: exec_op where "do_OR C i = set_lanes C (\<lambda>l. op0 i l OR op1 i l)"

definition do_XOR :: exec_op where "do_XOR C i = set_lanes C (\<lambda>l. op0 i l XOR op1 i l)"

definition do_NOT :: exec_op where "do_NOT C i = set_lanes C (\<lambda>l. NOT (op0 i l))"

subsection \<open>Scalar integer arithmetic\<close>

type_synonym scalar_op = "exec_inputs \<Rightarrow> exec_pipe \<Rightarrow> exec_pipe"

definition do_SMOV :: scalar_op where "do_SMOV i = set_scalar (op0 i 0)"

definition do_SIADD :: scalar_op where "do_SIADD i = set_scalar (op0 i 0 + op1 i 0)"

definition do_SISUB :: scalar_op where "do_SISUB i = set_scalar (op0 i 0 - op1 i 0)"

definition do_SIMUL :: scalar_op where "do_SIMUL i = set_scalar (op0 i 0 * op1 i 0)"

definition do_SIMAD :: scalar_op where "do_SIMAD i = set_scalar (op0 i 0 * op1 i 0 + op2 i 0)"

definition do_SIMIN :: scalar_op where "do_SIMIN i = set_scalar (std_min int_less (op0 i 0) (op1 i 0))"

definition do_SIMAX :: scalar_op where "do_SIMAX i = set_scalar (std_max int_less (op0 i 0) (op1 i 0))"

definition do_SINEG :: scalar_op where "do_SINEG i = set_scalar (- op0 i 0)"

text \<open>\<open>__builtin_clz\<close> counts the zero bits above the most significant one; the argument is never 0.\<close>

definition builtin_clz :: "u32 \<Rightarrow> nat" where
  "builtin_clz a = length (takeWhile (\<lambda>k. \<not> bit a k) (rev [0..<32]))"

definition sibfind :: "u32 \<Rightarrow> u32" where
  "sibfind a = (let a = (if a AND 0x80000000 \<noteq> 0 then NOT a else a); a = push_bit 1 a OR 1 in 30 - of_nat (builtin_clz a))"

definition do_SIBFIND :: scalar_op where "do_SIBFIND i = set_scalar (sibfind (op0 i 0))"

definition do_SSHL :: "exec_inputs \<Rightarrow> exec_pipe \<Rightarrow> exec_pipe res" where
  "do_SSHL i ps = bindE (shift_left (op0 i 0) (op1 i 0)) (\<lambda>v. Inr (set_scalar v ps))"

definition do_SSHR :: "exec_inputs \<Rightarrow> exec_pipe \<Rightarrow> exec_pipe res" where
  "do_SSHR i ps = bindE (shift_right (op0 i 0) (op1 i 0)) (\<lambda>v. Inr (set_scalar v ps))"

text \<open>
  The quotient is cut towards zero and the remainder has the sign of the dividend; a division by 0, and the one
  whose quotient does not fit, stop the program. The divider is busy for eight cycles, counted in the hold counter.
\<close>

definition div_undefined :: "u32 \<Rightarrow> u32 \<Rightarrow> bool" where
  "div_undefined a b \<longleftrightarrow> b = 0 \<or> (a = 0x80000000 \<and> b = - 1)"

definition hold_divider :: "exec \<Rightarrow> exec" where
  "hold_divider s = s\<lparr>xs_hold_counter := max (8 - int (rb_entries (xs_pipe s))) 0\<rparr>"

definition do_SIDIV :: "exec_inputs \<Rightarrow> exec \<times> exec_pipe \<Rightarrow> (exec \<times> exec_pipe) res" where
  "do_SIDIV i = (\<lambda>(s, ps).
    if div_undefined (op0 i 0) (op1 i 0) then Inl Undefined_Arith
    else Inr (hold_divider s, set_scalar (word_of_int (sint (op0 i 0) sdiv sint (op1 i 0))) ps))"

definition do_SIMOD :: "exec_inputs \<Rightarrow> exec \<times> exec_pipe \<Rightarrow> (exec \<times> exec_pipe) res" where
  "do_SIMOD i = (\<lambda>(s, ps).
    if div_undefined (op0 i 0) (op1 i 0) then Inl Undefined_Arith
    else Inr (hold_divider s, set_scalar (word_of_int (sint (op0 i 0) smod sint (op1 i 0))) ps))"

definition do_SAND :: scalar_op where "do_SAND i = set_scalar (op0 i 0 AND op1 i 0)"

definition do_SOR :: scalar_op where "do_SOR i = set_scalar (op0 i 0 OR op1 i 0)"

definition do_SNOT :: scalar_op where "do_SNOT i = set_scalar (NOT (op0 i 0))"

subsection \<open>The reciprocal unit\<close>

text \<open>All lanes are computed when the last sub-column commits, and none before.\<close>

definition rcpu_lanes :: "(u32 \<Rightarrow> u32) \<Rightarrow> exec_op" where
  "rcpu_lanes f C i ps = (if \<not> xp_out_w ps then ps else set_lanes C (\<lambda>l. f (op0 i l)) ps)"

abbreviation (input) "fp_one \<equiv> 0x3f800000 :: u32"

definition do_RCP :: "fpu \<Rightarrow> exec_op" where "do_RCP F = rcpu_lanes (fp_div F fp_one)"

definition do_RSQRT :: "fpu \<Rightarrow> exec_op" where "do_RSQRT F = rcpu_lanes (\<lambda>x. fp_div F fp_one (fp_sqrt F x))"

definition do_SIN :: "fpu \<Rightarrow> exec_op" where "do_SIN F = rcpu_lanes (fp_sin F)"

definition do_COS :: "fpu \<Rightarrow> exec_op" where "do_COS F = rcpu_lanes (fp_cos F)"

end
