(* ===== verification/Exec_Mem.thy ===== *)
theory Exec_Mem
  imports Exec_Alu
begin

text \<open>
  The loads and stores of \<open>IExecute.h\<close>: each builds the stride descriptor of its transfer from the buffer, the operands
  and the place of the work-group in the index space, and hands it to \<open>ldst_kick\<close>. SystemC computes in 64 bits and
  cuts the result to the width of the variable or field; since the widths divide 64 bits the intermediate results are
  taken as integers, with the cuts written out.
\<close>

subsection \<open>The kick\<close>

definition ldst_kick ::
  "ex_cfg \<Rightarrow> exec_inputs \<Rightarrow> exec \<Rightarrow> Instruction \<Rightarrow> req_if \<Rightarrow> stride_descriptor \<Rightarrow> exec_pipe \<Rightarrow> exec_pipe" where
  "ldst_kick C i s op target sd ps = ps
     \<lparr>xp_desc_fifo := sd\<lparr>sd_ticket := xs_ticket_push s\<rparr>,
      xp_store_target := target,
      xp_wg_state_next := (xp_wg_state_next ps)(xi_wg i :=
        (if target = IF_DRAM then if i_post_exit op then WG_STATE_BLOCKED_DRAM_POSTEXIT else WG_STATE_BLOCKED_DRAM
         else WG_STATE_BLOCKED_SP)),
      xp_pc_w := pc_trunc C (xi_pc i + 1),
      xp_pc_do_w := True\<rparr>"

definition sp_interface :: "slot \<Rightarrow> req_if" where
  "sp_interface wg = (if wg = 0 then IF_SP_WG0 else IF_SP_WG1)"

text \<open>The destination register of the instruction, the base of its descriptor.\<close>

definition dst_areg :: "Instruction \<Rightarrow> slot \<Rightarrow> areg res" where
  "dst_areg op wg = bindE (getRegister_wg (i_dst op) wg 0) (\<lambda>r. Inr (areg.truncate r))"

subsection \<open>Clipping at the edges of a buffer\<close>

text \<open>
  What lies above or left of the buffer is cut off: the number of periods or words shrinks by the negative offset.
  The two operations on registers also tell the destination where to start.
\<close>

definition clip_y :: "int \<Rightarrow> stride_descriptor \<Rightarrow> stride_descriptor" where
  "clip_y off sd = (if off < 0 then sd\<lparr>sd_period_count := sc_uint 20 (sd_period_count sd + off)\<rparr> else sd)"

definition clip_x :: "int \<Rightarrow> stride_descriptor \<Rightarrow> stride_descriptor" where
  "clip_x off sd = (if off < 0 then sd\<lparr>sd_words := sc_uint 20 (sd_words sd + off)\<rparr> else sd)"

definition dst_off_yx :: "int \<Rightarrow> int \<Rightarrow> stride_descriptor \<Rightarrow> stride_descriptor" where
  "dst_off_yx y x sd = sd\<lparr>sd_dst_off_y := (if y < 0 then sc_uint 20 (- y) else sd_dst_off_y sd),
     sd_dst_off_x := (if x < 0 then sc_uint 20 (- x) else sd_dst_off_x sd)\<rparr>"

definition word_offset :: "Buffer \<Rightarrow> int \<Rightarrow> int \<Rightarrow> int" where
  "word_offset b y x = y * uint (buf_dim_x b) + x"

definition buf_addr_at :: "Buffer \<Rightarrow> int \<Rightarrow> int" where
  "buf_addr_at b off = sc_uint 32 (uint (buf_addr b) + 4 * off)"

definition wg_width_of :: "exec_inputs \<Rightarrow> int" where
  "wg_width_of i = 32 * 2 ^ wgw (xi_wg_width i)"

subsection \<open>The operations\<close>

definition lin_words :: "ISASubOpLDSTLIN \<Rightarrow> int \<times> idx_transform_scheme" where
  "lin_words m = (case m of LIN_VEC2 \<Rightarrow> (2, IDX_TRANSFORM_VEC2) | LIN_VEC4 \<Rightarrow> (4, IDX_TRANSFORM_VEC4) | _ \<Rightarrow> (1, IDX_TRANSFORM_UNIT))"

definition sd_LDSTLIN :: "ex_cfg \<Rightarrow> exec_inputs \<Rightarrow> Instruction \<Rightarrow> areg \<Rightarrow> stride_descriptor" where
  "sd_LDSTLIN C i op dst =
    (let wg = xi_wg i; ww = wg_width_of i; b = xi_xlat_phys i;
         ox = sc_int 32 (uint (xi_wg_off i wg 0) * 32 + sint (op1 i 0));
         oy = sc_int 32 (uint (xi_wg_off i wg 1) + sint (op2 i 0));
         (wl, tr) = lin_words (so_ldstlin (i_subop op));
         sd = (stride_descriptor_of_reg dst)
           \<lparr>sd_idx_transform := tr,
            sd_write := (i_op op = OP_STGLIN),
            sd_period := sc_uint 20 (uint (buf_dim_x b)),
            sd_period_count := sc_uint 20 (min (int (x_THREADS C) div ww) (sc_uint 32 (uint (xi_dim i 1) - uint (xi_wg_off i wg 1)))),
            sd_words := sc_uint 20 (min (sc_uint 32 (wl * ww)) (sc_uint 32 (uint (buf_dim_x b) - ox * wl))),
            sd_dst_period := sc_uint 20 ww,
            sd_dst_offset := 0\<rparr>;
         sd = dst_off_yx oy ox (clip_x ox (clip_y oy sd));
         off = word_offset b (max oy 0) (max ox 0 * wl);
         sd = sd\<lparr>sd_addr := buf_addr_at b off\<rparr>
     in if rtype dst = REGISTER_VSP then sd\<lparr>sd_dst_offset := sc_uint 32 off\<rparr> else sd)"

definition do_LDSTLIN :: "ex_cfg \<Rightarrow> exec_inputs \<Rightarrow> Instruction \<Rightarrow> exec \<Rightarrow> exec_pipe \<Rightarrow> exec_pipe res" where
  "do_LDSTLIN C i op s ps = bindE (dst_areg op (xi_wg i)) (\<lambda>dst. Inr (ldst_kick C i s op IF_DRAM (sd_LDSTLIN C i op dst) ps))"

definition sd_LDSTSPLIN :: "ex_cfg \<Rightarrow> exec_inputs \<Rightarrow> Instruction \<Rightarrow> areg \<Rightarrow> stride_descriptor" where
  "sd_LDSTSPLIN C i op dst =
    (let ww = wg_width_of i; b = xi_sp_xlat_phys i; ox = sint (op1 i 0); oy = sint (op2 i 0);
         sd = (stride_descriptor_of_reg dst)
           \<lparr>sd_write := (i_op op = OP_STSPLIN),
            sd_period := sc_uint 20 (uint (buf_dim_x b)),
            sd_period_count := sc_uint 20 (min (int (x_THREADS C) div ww) (sc_uint 32 (uint (buf_dim_y b) - oy))),
            sd_words := sc_uint 20 (min ww (sc_uint 32 (uint (buf_dim_x b) - ox))),
            sd_dst_period := sc_uint 20 ww,
            sd_dst_offset := 0\<rparr>;
         sd = dst_off_yx oy ox (clip_x ox (clip_y oy sd));
         off = word_offset b (max oy 0) (max ox 0);
         sd = sd\<lparr>sd_addr := buf_addr_at b off\<rparr>
     in if rtype dst = REGISTER_VSP then sd\<lparr>sd_dst_offset := sc_uint 32 off\<rparr> else sd)"

definition do_LDSTSPLIN :: "ex_cfg \<Rightarrow> exec_inputs \<Rightarrow> Instruction \<Rightarrow> exec \<Rightarrow> exec_pipe \<Rightarrow> exec_pipe res" where
  "do_LDSTSPLIN C i op s ps =
    bindE (dst_areg op (xi_wg i)) (\<lambda>dst. Inr (ldst_kick C i s op (sp_interface (xi_wg i)) (sd_LDSTSPLIN C i op dst) ps))"

definition sd_LDSTBIDX :: "exec_inputs \<Rightarrow> Instruction \<Rightarrow> areg \<Rightarrow> stride_descriptor" where
  "sd_LDSTBIDX i op dst =
    (let b = xi_xlat_phys i
     in (stride_descriptor_of_reg dst)
       \<lparr>sd_write := (i_op op = OP_STGBIDX),
        sd_period := sc_uint 20 (uint (buf_dim_x b)),
        sd_period_count := sc_uint 20 (uint (buf_dim_y b)),
        sd_words := sc_uint 20 (uint (buf_dim_x b)),
        sd_dst_period := sc_uint 20 (wg_width_of i),
        sd_dst_offset := 0,
        sd_addr := uint (buf_addr b)\<rparr>)"

definition do_LDSTBIDX :: "ex_cfg \<Rightarrow> exec_inputs \<Rightarrow> Instruction \<Rightarrow> exec \<Rightarrow> exec_pipe \<Rightarrow> exec_pipe res" where
  "do_LDSTBIDX C i op s ps = bindE (dst_areg op (xi_wg i)) (\<lambda>dst. Inr (ldst_kick C i s op IF_DRAM (sd_LDSTBIDX i op dst) ps))"

definition sd_LDSTCIDX :: "exec_inputs \<Rightarrow> Instruction \<Rightarrow> areg \<Rightarrow> stride_descriptor" where
  "sd_LDSTCIDX i op dst =
    (let params = xi_sd i (xi_wg i); b = xi_xlat_phys i; ox = sint (op1 i 0); oy = sint (op2 i 0);
         sd = (stride_descriptor_of_reg dst)
           \<lparr>sd_write := (i_op op = OP_STGCIDX),
            sd_period := sd_period params,
            sd_period_count := sd_period_count params,
            sd_words := sd_words params,
            sd_dst_period := 0\<rparr>;
         sd = clip_x ox (clip_y oy sd);
         off = word_offset b (max oy 0) (max ox 0)
     in sd\<lparr>sd_addr := buf_addr_at b off, sd_dst_offset := sc_uint 32 off\<rparr>)"

definition do_LDSTCIDX :: "ex_cfg \<Rightarrow> exec_inputs \<Rightarrow> Instruction \<Rightarrow> exec \<Rightarrow> exec_pipe \<Rightarrow> exec_pipe res" where
  "do_LDSTCIDX C i op s ps = bindE (dst_areg op (xi_wg i)) (\<lambda>dst. Inr (ldst_kick C i s op IF_DRAM (sd_LDSTCIDX i op dst) ps))"

definition sd_LDSTGIDXIT :: "exec_inputs \<Rightarrow> Instruction \<Rightarrow> areg \<Rightarrow> stride_descriptor" where
  "sd_LDSTGIDXIT i op dst = (stride_descriptor_of_reg dst)
     \<lparr>sd_type := IDXIT, sd_write := (i_op op = OP_STGIDXIT), sd_dst_offset := 0, sd_addr := uint (buf_addr (xi_xlat_phys i))\<rparr>"

definition do_LDSTGIDXIT :: "ex_cfg \<Rightarrow> exec_inputs \<Rightarrow> Instruction \<Rightarrow> exec \<Rightarrow> exec_pipe \<Rightarrow> exec_pipe res" where
  "do_LDSTGIDXIT C i op s ps = bindE (dst_areg op (xi_wg i)) (\<lambda>dst. Inr (ldst_kick C i s op IF_DRAM (sd_LDSTGIDXIT i op dst) ps))"

definition sd_LDSPG2SPTILE :: "exec_inputs \<Rightarrow> Instruction \<Rightarrow> stride_descriptor" where
  "sd_LDSPG2SPTILE i op =
    (let b = xi_xlat_phys i; spb = xi_sp_xlat_phys i; ox = sint (op1 i 0); oy = sint (op2 i 0);
         sd = stride_descriptor_default
           \<lparr>sd_dst := \<lparr>tgt_wg = xi_wg i, tgt_type = TARGET_SP\<rparr>,
            sd_write := (i_op op = OP_STG2SPTILE),
            sd_period := sc_uint 20 (uint (buf_dim_x b)),
            sd_period_count := sc_uint 20 (min (uint (buf_dim_y spb)) (sc_uint 32 (uint (buf_dim_y b) - oy))),
            sd_words := sc_uint 20 (min (uint (buf_dim_x spb)) (sc_uint 32 (uint (buf_dim_x b) - ox))),
            sd_dst_period := sc_uint 20 (uint (buf_dim_x spb)),
            sd_dst_offset := uint (buf_addr spb)\<rparr>;
         sd = (if oy < 0 then sd\<lparr>sd_dst_offset := sc_uint 32 (sd_dst_offset sd + sd_dst_period sd * - oy * 4)\<rparr> else sd);
         sd = clip_y oy sd;
         sd = (if ox < 0 then sd\<lparr>sd_dst_offset := sc_uint 32 (sd_dst_offset sd - ox * 4)\<rparr> else sd);
         sd = clip_x ox sd
     in sd\<lparr>sd_addr := buf_addr_at b (word_offset b (max oy 0) (max ox 0))\<rparr>)"

definition do_LDSPG2SPTILE :: "ex_cfg \<Rightarrow> exec_inputs \<Rightarrow> Instruction \<Rightarrow> exec \<Rightarrow> exec_pipe \<Rightarrow> exec_pipe res" where
  "do_LDSPG2SPTILE C i op s ps = Inr (ldst_kick C i s op IF_DRAM (sd_LDSPG2SPTILE i op) ps)"

definition sd_LDSTSPBIDX :: "exec_inputs \<Rightarrow> Instruction \<Rightarrow> areg \<Rightarrow> stride_descriptor" where
  "sd_LDSTSPBIDX i op dst =
    (let b = xi_sp_xlat_phys i
     in (stride_descriptor_of_reg dst)
       \<lparr>sd_write := (i_op op = OP_STSPBIDX),
        sd_period := sc_uint 20 (uint (buf_dim_x b)),
        sd_period_count := sc_uint 20 (uint (buf_dim_y b)),
        sd_words := sc_uint 20 (uint (buf_dim_x b)),
        sd_dst_period := sc_uint 20 (uint (buf_dim_x b)),
        sd_dst_offset := 0,
        sd_addr := uint (buf_addr b)\<rparr>)"

definition do_LDSTSPBIDX :: "ex_cfg \<Rightarrow> exec_inputs \<Rightarrow> Instruction \<Rightarrow> exec \<Rightarrow> exec_pipe \<Rightarrow> exec_pipe res" where
  "do_LDSTSPBIDX C i op s ps =
    bindE (dst_areg op (xi_wg i)) (\<lambda>dst. Inr (ldst_kick C i s op (sp_interface (xi_wg i)) (sd_LDSTSPBIDX i op dst) ps))"

definition sd_SLD :: "exec_inputs \<Rightarrow> areg \<Rightarrow> stride_descriptor" where
  "sd_SLD i dst = (stride_descriptor_of_reg dst)
     \<lparr>sd_write := False, sd_addr := uint (buf_addr (xi_xlat_phys i)), sd_period := sc_uint 20 (uint (op1 i 0)),
      sd_period_count := 1, sd_words := sc_uint 20 (uint (op1 i 0))\<rparr>"

definition do_SLD :: "ex_cfg \<Rightarrow> exec_inputs \<Rightarrow> Instruction \<Rightarrow> exec \<Rightarrow> exec_pipe \<Rightarrow> exec_pipe res" where
  "do_SLD C i op s ps = bindE (dst_areg op (xi_wg i)) (\<lambda>dst. Inr (ldst_kick C i s op IF_DRAM (sd_SLD i dst) ps))"

definition sd_SLDSP :: "exec_inputs \<Rightarrow> areg \<Rightarrow> stride_descriptor" where
  "sd_SLDSP i dst =
    (let params = xi_sd i (xi_wg i); b = xi_sp_xlat_phys i;
         ox = sc_uint 32 (uint (op1 i 0) * 4);
         oy = sc_uint 32 (uint (op2 i 0) * uint (buf_dim_x b) * 4)
     in (stride_descriptor_of_reg dst)
       \<lparr>sd_write := False, sd_addr := sc_uint 32 (uint (buf_addr b) + ox + oy), sd_period := sd_words params,
        sd_period_count := 1, sd_words := sd_words params\<rparr>)"

definition do_SLDSP :: "ex_cfg \<Rightarrow> exec_inputs \<Rightarrow> Instruction \<Rightarrow> exec \<Rightarrow> exec_pipe \<Rightarrow> exec_pipe res" where
  "do_SLDSP C i op s ps =
    bindE (dst_areg op (xi_wg i)) (\<lambda>dst. Inr (ldst_kick C i s op (sp_interface (xi_wg i)) (sd_SLDSP i dst) ps))"

end
