(* ===== verification/Exec_Stage.thy ===== *)
theory Exec_Stage
  imports Exec_Mem
begin

text \<open>
  The stage itself: which operation an instruction runs, the signals of the write-back, the commit at the end of the
  pipeline and the cycle of the thread.
\<close>

subsection \<open>Executing an instruction\<close>

definition do_PRINTTRACE :: "exec_inputs \<Rightarrow> exec_pipe \<Rightarrow> exec_pipe" where
  "do_PRINTTRACE i ps = (set_scalar (of_bool (op0 i 0 \<noteq> 0)) ps)\<lparr>xp_print := PRINT_TRACE\<rparr>"

definition exit_commit :: "exec_inputs \<Rightarrow> bool \<Rightarrow> exec_pipe \<Rightarrow> exec_pipe" where
  "exit_commit i com ps = (if com then ps\<lparr>xp_wg_exit_commit := (xp_wg_exit_commit ps)(xi_wg i := True)\<rparr> else ps)"

definition keep :: "exec \<Rightarrow> exec_pipe \<Rightarrow> (exec \<times> exec_pipe) res" where
  "keep s ps = Inr (s, ps)"

definition keepE :: "exec \<Rightarrow> exec_pipe res \<Rightarrow> (exec \<times> exec_pipe) res" where
  "keepE s r = bindE r (keep s)"

text \<open>The operations group by group, as the switch lists them; each group passes the others on.\<close>

definition exec_ctrl ::
  "ex_cfg \<Rightarrow> exec_inputs \<Rightarrow> Instruction \<Rightarrow> exec \<Rightarrow> exec_pipe \<Rightarrow> (exec \<times> exec_pipe) res \<Rightarrow> (exec \<times> exec_pipe) res" where
  "exec_ctrl C i op s ps others = (case i_op op of
      OP_TEST \<Rightarrow> keep s (do_TEST (so_test (i_subop op)) C i ps)
    | OP_ITEST \<Rightarrow> keep s (do_ITEST (so_test (i_subop op)) C i ps)
    | OP_PBOOL \<Rightarrow> keep s (do_PBOOL (so_pbool (i_subop op)) C i ps)
    | OP_J \<Rightarrow> keep s (do_J C i ps)
    | OP_SICJ \<Rightarrow> keep s (do_SICJ (so_test (i_subop op)) C i ps)
    | OP_BRA \<Rightarrow> bindE (do_CPUSH CPUSH_IF (unat (op0 i 0)) (i_commit op) C i (s, ps)) (\<lambda>(s, ps). keep s (do_CMASK 1 C i ps))
    | OP_CALL \<Rightarrow> bindE (do_CPUSH CPUSH_RET (xi_pc i + 1) (i_commit op) C i (s, ps)) (\<lambda>(s, ps).
        let ps = do_CALL_MASK 1 C i ps in keep s (if i_commit op then do_J C i ps else ps))
    | OP_CPOP \<Rightarrow> keep s (do_CPOP (i_commit op) C i ps)
    | OP_CPUSH \<Rightarrow> do_CPUSH (so_cpush (i_subop op)) (unat (op0 i 0)) (i_commit op) C i (s, ps)
    | OP_EXIT \<Rightarrow> keep s (do_CMASK 0 C i (exit_commit i (i_commit op) ps))
    | OP_BRK \<Rightarrow> keep s (do_CMASK 0 C i ps)
    | OP_CMASK \<Rightarrow> keep s (do_CMASK 0 C i ps)
    | _ \<Rightarrow> others)"

definition exec_fp ::
  "fpu \<Rightarrow> ex_cfg \<Rightarrow> exec_inputs \<Rightarrow> Instruction \<Rightarrow> exec \<Rightarrow> exec_pipe \<Rightarrow> (exec \<times> exec_pipe) res \<Rightarrow> (exec \<times> exec_pipe) res" where
  "exec_fp F C i op s ps others = (case i_op op of
      OP_MAD \<Rightarrow> keep s (do_VMAD F (so_fpumod (i_subop op)) C i ps)
    | OP_ADD \<Rightarrow> keep s (do_VADD F (so_fpumod (i_subop op)) C i ps)
    | OP_MUL \<Rightarrow> keep s (do_VMUL F (so_fpumod (i_subop op)) C i ps)
    | OP_MIN \<Rightarrow> keep s (do_VMIN C i ps)
    | OP_MAX \<Rightarrow> keep s (do_VMAX C i ps)
    | OP_ABS \<Rightarrow> keep s (do_VABS C i ps)
    | OP_MOV \<Rightarrow> keep s (do_MOV C i ps)
    | OP_MOVVSP \<Rightarrow> keep s (do_MOV C i ps)
    | OP_CVT \<Rightarrow> keep s (do_CVT F (so_cvt (i_subop op)) C i ps)
    | OP_SCVT \<Rightarrow> keep s (do_SCVT F (so_cvt (i_subop op)) C i ps)
    | OP_BUFQUERY \<Rightarrow> keepE s (do_BUFQUERY (so_bufquery (i_subop op)) i ps)
    | OP_RCP \<Rightarrow> keep s (do_RCP F C i ps)
    | OP_RSQRT \<Rightarrow> keep s (do_RSQRT F C i ps)
    | OP_SIN \<Rightarrow> keep s (do_SIN F C i ps)
    | OP_COS \<Rightarrow> keep s (do_COS F C i ps)
    | _ \<Rightarrow> others)"

definition exec_int ::
  "ex_cfg \<Rightarrow> exec_inputs \<Rightarrow> Instruction \<Rightarrow> exec \<Rightarrow> exec_pipe \<Rightarrow> (exec \<times> exec_pipe) res \<Rightarrow> (exec \<times> exec_pipe) res" where
  "exec_int C i op s ps others = (case i_op op of
      OP_IADD \<Rightarrow> keep s (do_IADD C i ps)
    | OP_ISUB \<Rightarrow> keep s (do_ISUB C i ps)
    | OP_IMUL \<Rightarrow> keep s (do_IMUL C i ps)
    | OP_IMAD \<Rightarrow> keep s (do_IMAD C i ps)
    | OP_IMIN \<Rightarrow> keep s (do_IMIN C i ps)
    | OP_IMAX \<Rightarrow> keep s (do_IMAX C i ps)
    | OP_SHL \<Rightarrow> keepE s (do_SHL C i ps)
    | OP_SHR \<Rightarrow> keepE s (do_SHR C i ps)
    | OP_AND \<Rightarrow> keep s (do_AND C i ps)
    | OP_OR \<Rightarrow> keep s (do_OR C i ps)
    | OP_XOR \<Rightarrow> keep s (do_XOR C i ps)
    | OP_NOT \<Rightarrow> keep s (do_NOT C i ps)
    | _ \<Rightarrow> others)"

definition exec_scalar ::
  "exec_inputs \<Rightarrow> Instruction \<Rightarrow> exec \<Rightarrow> exec_pipe \<Rightarrow> (exec \<times> exec_pipe) res \<Rightarrow> (exec \<times> exec_pipe) res" where
  "exec_scalar i op s ps others = (case i_op op of
      OP_SMOV \<Rightarrow> keep s (do_SMOV i ps)
    | OP_SMOVSSP \<Rightarrow> keep s (do_SMOV i ps)
    | OP_SIADD \<Rightarrow> keep s (do_SIADD i ps)
    | OP_SISUB \<Rightarrow> keep s (do_SISUB i ps)
    | OP_SIMUL \<Rightarrow> keep s (do_SIMUL i ps)
    | OP_SIMAD \<Rightarrow> keep s (do_SIMAD i ps)
    | OP_SIMIN \<Rightarrow> keep s (do_SIMIN i ps)
    | OP_SIMAX \<Rightarrow> keep s (do_SIMAX i ps)
    | OP_SINEG \<Rightarrow> keep s (do_SINEG i ps)
    | OP_SIBFIND \<Rightarrow> keep s (do_SIBFIND i ps)
    | OP_SSHL \<Rightarrow> keepE s (do_SSHL i ps)
    | OP_SSHR \<Rightarrow> keepE s (do_SSHR i ps)
    | OP_SIDIV \<Rightarrow> do_SIDIV i (s, ps)
    | OP_SIMOD \<Rightarrow> do_SIMOD i (s, ps)
    | OP_SAND \<Rightarrow> keep s (do_SAND i ps)
    | OP_SOR \<Rightarrow> keep s (do_SOR i ps)
    | OP_SNOT \<Rightarrow> keep s (do_SNOT i ps)
    | _ \<Rightarrow> others)"

definition exec_ldst ::
  "ex_cfg \<Rightarrow> exec_inputs \<Rightarrow> Instruction \<Rightarrow> exec \<Rightarrow> exec_pipe \<Rightarrow> (exec \<times> exec_pipe) res \<Rightarrow> (exec \<times> exec_pipe) res" where
  "exec_ldst C i op s ps others = (case i_op op of
      OP_LDGLIN \<Rightarrow> keepE s (do_LDSTLIN C i op s ps)
    | OP_STGLIN \<Rightarrow> keepE s (do_LDSTLIN C i op s ps)
    | OP_LDSPLIN \<Rightarrow> keepE s (do_LDSTSPLIN C i op s ps)
    | OP_STSPLIN \<Rightarrow> keepE s (do_LDSTSPLIN C i op s ps)
    | OP_SLDG \<Rightarrow> keepE s (do_SLD C i op s ps)
    | OP_SLDSP \<Rightarrow> keepE s (do_SLDSP C i op s ps)
    | OP_LDGBIDX \<Rightarrow> keepE s (do_LDSTBIDX C i op s ps)
    | OP_STGBIDX \<Rightarrow> keepE s (do_LDSTBIDX C i op s ps)
    | OP_LDGCIDX \<Rightarrow> keepE s (do_LDSTCIDX C i op s ps)
    | OP_STGCIDX \<Rightarrow> keepE s (do_LDSTCIDX C i op s ps)
    | OP_LDGIDXIT \<Rightarrow> keepE s (do_LDSTGIDXIT C i op s ps)
    | OP_STGIDXIT \<Rightarrow> keepE s (do_LDSTGIDXIT C i op s ps)
    | OP_LDG2SPTILE \<Rightarrow> keepE s (do_LDSPG2SPTILE C i op s ps)
    | OP_STG2SPTILE \<Rightarrow> keepE s (do_LDSPG2SPTILE C i op s ps)
    | OP_LDSPBIDX \<Rightarrow> keepE s (do_LDSTSPBIDX C i op s ps)
    | OP_STSPBIDX \<Rightarrow> keepE s (do_LDSTSPBIDX C i op s ps)
    | _ \<Rightarrow> others)"

text \<open>\<open>lane AND (LANES - 1)\<close>, on unsigned integers.\<close>

definition exec_debug ::
  "ex_cfg \<Rightarrow> exec_inputs \<Rightarrow> Instruction \<Rightarrow> exec \<Rightarrow> exec_pipe \<Rightarrow> (exec \<times> exec_pipe) res \<Rightarrow> (exec \<times> exec_pipe) res" where
  "exec_debug C i op s ps others = (case i_op op of
      OP_DBG_PRINTSGPR \<Rightarrow> keep s ((set_scalar (op0 i 0) ps)\<lparr>xp_print := PRINT_SGPR\<rparr>)
    | OP_DBG_PRINTVGPR \<Rightarrow> assertE (unat (op1 i 0) < x_THREADS C)
        (keep s ((set_scalar (op0 i (unat (op1 i 0) AND (x_LANES C - 1))) ps)\<lparr>xp_print := PRINT_VGPR\<rparr>))
    | OP_DBG_PRINTPR \<Rightarrow> keep s ((set_lanes C (op0 i) ps)\<lparr>xp_print := PRINT_PR\<rparr>)
    | OP_DBG_PRINTCMASK \<Rightarrow> keep s ((set_lanes C (op0 i) ps)\<lparr>xp_print := PRINT_CMASK\<rparr>)
    | OP_DBG_PRINTTRACE \<Rightarrow> keep s (do_PRINTTRACE i ps)
    | _ \<Rightarrow> others)"

text \<open>Operations that no case names, the first one of which does nothing; the others are reported and do nothing.\<close>

definition doExecute ::
  "fpu \<Rightarrow> ex_cfg \<Rightarrow> exec_inputs \<Rightarrow> Instruction \<Rightarrow> exec \<times> exec_pipe \<Rightarrow> (exec \<times> exec_pipe) res" where
  "doExecute F C i op = (\<lambda>(s, ps).
    if i_dead op then keep s ps
    else exec_ctrl C i op s ps (exec_fp F C i op s ps (exec_int C i op s ps (exec_scalar i op s ps (exec_ldst C i op s ps
      (exec_debug C i op s ps (keep s ps)))))))"

subsection \<open>Write-back\<close>

definition setWrite :: "exec_inputs \<Rightarrow> Instruction \<Rightarrow> exec_pipe \<Rightarrow> exec_pipe res" where
  "setWrite i op ps =
    bindE (getRegister_wg (i_dst op) (xi_wg i) (xi_col_w i)) (\<lambda>r.
    let ps = ps\<lparr>xp_dequeue_sb := i_on_sb op, xp_dequeue_sb_cstack_entry := i_on_cstack_sb op, xp_req_w := r\<rparr> in
    if i_dead op \<or> \<not> hasDst op \<or> ldst op then Inr ps
    else assertE (o_type (i_dst op) \<noteq> OPERAND_IMM)
      (Inr (ps\<lparr>xp_col_mask_w := (if o_isVectorType (i_dst op) then xi_col_w i else xp_col_mask_w ps),
               xp_subcol_w := xi_subcol_w i,
               xp_out_w := (if opCategory (i_op op) = CAT_ARITH_RCPU then i_commit op else True)\<rparr>)))"

subsection \<open>Commit\<close>

definition debug_sb_contains_reg :: "scoreboard option \<Rightarrow> reg \<Rightarrow> unit res" where
  "debug_sb_contains_reg sb r =
    (case sb of
       None \<Rightarrow> Inr ()
     | Some q \<Rightarrow> (case debug_contains r q of None \<Rightarrow> Inl Not_Returning | Some c \<Rightarrow> assertE c (Inr ())))"

definition commit_pcount :: "exec_pipe \<Rightarrow> exec \<Rightarrow> exec" where
  "commit_pcount ps s =
    (let op = xp_op ps; c = opCategory (i_op op) in
     if i_dead op \<or> i_op op = NOP then s\<lparr>xs_commit_nop := xs_commit_nop s + 1\<rparr>
     else if isVectorInstruction op then s\<lparr>xs_commit_vec := (xs_commit_vec s)(c := xs_commit_vec s c + 1)\<rparr>
     else s\<lparr>xs_commit_sc := (xs_commit_sc s)(c := xs_commit_sc s c + 1)\<rparr>)"

definition commit_data :: "ex_cfg \<Rightarrow> exec_pipe \<Rightarrow> (nat \<Rightarrow> u32) \<Rightarrow> nat \<Rightarrow> u32" where
  "commit_data C ps d =
    (if isVectorType (rtype (xp_req_w ps)) then for_upto (x_LANES C) (\<lambda>l d. d(l := xp_data_w ps l)) d
     else d(0 := xp_data_w ps 0))"

definition commit_outputs :: "ex_cfg \<Rightarrow> exec_pipe \<Rightarrow> exec_outputs \<Rightarrow> exec_outputs" where
  "commit_outputs C ps out = \<lparr>
     xo_pc_w = xp_pc_w ps, xo_pc_do_w = xp_pc_do_w ps, xo_req_w = xp_req_w ps, xo_wg_w = xp_wg_w ps,
     xo_data_w = commit_data C ps (xo_data_w out), xo_w = xp_out_w ps, xo_dequeue_sb = xp_dequeue_sb ps,
     xo_dequeue_sb_cstack_write = xp_dequeue_sb_cstack_entry ps, xo_ignore_mask_w = xp_ignore_mask_w ps,
     xo_cstack_action = xp_cstack_action ps, xo_cstack_entry = xp_cstack_entry ps,
     xo_wg_state_next = xp_wg_state_next ps, xo_wg_exit_commit = xp_wg_exit_commit ps,
     xo_col_mask_w = (if xp_out_w ps \<and> isVectorType (rtype (xp_req_w ps)) \<and> \<not> xp_ignore_mask_w ps then Some (xp_col_mask_w ps)
       else None),
     xo_desc_fifo = (if xp_store_target ps \<noteq> IF_SENTINEL then Some (xp_store_target ps, xp_desc_fifo ps) else None),
     xo_store_kick = (if xp_store_target ps \<noteq> IF_SENTINEL then Some (xp_store_target ps) else None)\<rparr>"

text \<open>\<open>sc_is_running\<close> holds once the simulation has started. What is printed is left out, but the trace switch is set.\<close>

definition commit :: "ex_cfg \<Rightarrow> scoreboard option \<Rightarrow> bool \<Rightarrow> exec_pipe \<Rightarrow> exec \<Rightarrow> exec res" where
  "commit C sb running ps s =
    bindE (if xp_dequeue_sb ps then debug_sb_contains_reg sb (xp_req_w ps) else Inr ()) (\<lambda>_.
    let s = s\<lparr>xs_out := commit_outputs C ps (xs_out s),
              xs_ticket_push := (if xp_store_target ps \<noteq> IF_SENTINEL then sc_uint 4 (xs_ticket_push s + 1) else xs_ticket_push s),
              xs_trace := (if xp_print ps = PRINT_TRACE then xp_data_w ps 0 \<noteq> 0 else xs_trace s)\<rparr>
    in Inr (if running then commit_pcount ps s else s))"

subsection \<open>The cycle\<close>

definition invalidate_elem :: "exec_pipe \<Rightarrow> exec_pipe" where
  "invalidate_elem ps = (if i_injected (xp_op ps) then ps else invalidate ps)"

definition pipe_invalidate :: "exec \<Rightarrow> exec" where
  "pipe_invalidate s = s\<lparr>xs_pipe := (xs_pipe s)\<lparr>rb_buf := map invalidate_elem (rb_buf (xs_pipe s))\<rparr>\<rparr>"

definition exec_writesCMASK :: "exec \<Rightarrow> Instruction \<Rightarrow> bool res" where
  "exec_writesCMASK s op =
    (if rb_entries (xs_pipe s) = 1 then Inr (writesCMASK op) else bindE (top (xs_pipe s)) (\<lambda>ps. Inr (isCMASK (xp_req_w ps))))"

definition flush :: "exec_inputs \<Rightarrow> exec \<Rightarrow> bool" where
  "flush i s \<longleftrightarrow> xo_pc_do_w (xs_out s) \<or> \<not> xi_thread_active i (xi_wg i)"

text \<open>The first half of the cycle takes an instruction into the side buffer, unless the divider holds it.\<close>

definition exec_accept :: "fpu \<Rightarrow> ex_cfg \<Rightarrow> exec_inputs \<Rightarrow> exec \<Rightarrow> exec res" where
  "exec_accept F C i s =
    (let op = (if flush i s then kill (xi_insn i) else xi_insn i);
         s = (if flush i s then pipe_invalidate s else s)
     in bindE (setWrite i op ((IExecute_pipe (xi_wg i))\<lparr>xp_op := op\<rparr>)) (\<lambda>ps.
        bindE (doExecute F C i op (s, ps)) (\<lambda>(s, ps). Inr (s\<lparr>xs_sidebuf := ps\<rparr>))))"

definition decrement_hold :: "exec \<Rightarrow> exec" where
  "decrement_hold s = s\<lparr>xs_hold_counter := max (xs_hold_counter s - 1) 0\<rparr>"

definition exec_swap :: "exec_inputs \<Rightarrow> exec \<Rightarrow> exec_pipe \<times> exec" where
  "exec_swap i s =
    (let (ps, p) = swapHead (if xs_hold_counter s = 0 then xs_sidebuf s else IExecute_pipe (xi_wg i)) (xs_pipe s)
     in (ps, s\<lparr>xs_pipe := p\<rparr>))"

definition exec_thread_lt :: "fpu \<Rightarrow> ex_cfg \<Rightarrow> scoreboard option \<Rightarrow> bool \<Rightarrow> exec_inputs \<Rightarrow> exec \<Rightarrow> exec res" where
  "exec_thread_lt F C sb running i s =
    bindE (if xs_hold_counter s = 0 then exec_accept F C i s else Inr s) (\<lambda>s.
    let (ps, s) = exec_swap i (decrement_hold s) in commit C sb running ps s)"

end
