(* ===== verification/Exec_Aborts.thy ===== *)
theory Exec_Aborts
  imports Exec_Stage Isa_Props
begin

text \<open>Which instructions stop the execute stage: validated ones only for operands that have no result.\<close>

text \<open>What the constructors of \<open>Operand\<close> and the resolution of the branch targets establish.\<close>

definition operand_ok :: "Operand \<Rightarrow> bool" where
  "operand_ok v \<longleftrightarrow> (o_type v \<in> {OPERAND_IMM, OPERAND_BRANCH_TARGET} \<longrightarrow> o_rtype v = REGISTER_IMM) \<and>
     (o_type v = OPERAND_BRANCH_TARGET \<longrightarrow> branch_target_resolved v)"

lemma ISAOpSpec_sel [simp]:
  "sp_dst_type (ISAOpSpec c n subs srcs d v bssp cp) = d" "sp_cat (ISAOpSpec c n subs srcs d v bssp cp) = c"
  "sp_dst_type ISAOpSpec_default = [REGISTER_NONE]"
  by (simp_all add: ISAOpSpec_def ISAOpSpec_default_def)

lemma dst_imm_iff: "REGISTER_IMM \<in> set (sp_dst_type (op_validate op)) \<longleftrightarrow> op = OP_LDG2SPTILE \<or> op = OP_STG2SPTILE"
  by (cases op) (simp_all add: op_validate_def op_validate_table)

lemma cat_ldst_tile: "op = OP_LDG2SPTILE \<or> op = OP_STG2SPTILE \<Longrightarrow> sp_cat (op_validate op) = CAT_LDST"
  by (elim disjE) (simp_all add: op_validate_def op_validate_table)

lemma getRegister_wg_ok: "operand_ok v \<Longrightarrow> \<exists>r. getRegister_wg v wg c = Inr r"
  by (auto simp: getRegister_wg_def operand_ok_def assertE_def)

lemma setWrite_ok:
  assumes "well_typed op" "operand_ok (i_dst op)"
  shows "\<exists>ps'. setWrite i op ps = Inr ps'"
proof -
  obtain r where r: "getRegister_wg (i_dst op) (xi_wg i) (xi_col_w i) = Inr r"
    using getRegister_wg_ok[OF assms(2)] by blast
  have "ldst op" if "o_type (i_dst op) = OPERAND_IMM"
  proof -
    have "REGISTER_IMM \<in> set (sp_dst_type (op_validate (i_op op)))"
      using that assms by (auto simp: well_typed_def operand_ok_def)
    then show ?thesis using dst_imm_iff[of "i_op op"] cat_ldst_tile[of "i_op op"] by (auto simp: ldst_def)
  qed
  then show ?thesis by (auto simp: setWrite_def r Let_def assertE_def)
qed

lemma for_uptoE_ok: "(\<And>l d. l < n \<Longrightarrow> \<exists>d'. f l d = Inr d') \<Longrightarrow> \<exists>d'. for_uptoE n f d = Inr d'"
proof (induction n)
  case (Suc n)
  then obtain d' where "for_uptoE n f d = Inr d'" by force
  then show ?case using Suc.prems[of n d'] by auto
qed simp

lemma for_uptoE_fails: "0 < n \<Longrightarrow> (\<And>l d. \<exists>e. f l d = Inl e) \<Longrightarrow> \<exists>e. for_uptoE n f d = Inl e"
proof (induction n)
  case (Suc n)
  show ?case
  proof (cases "for_uptoE n f d")
    case (Inr d')
    then show ?thesis using Suc.prems(2)[of n d'] by auto
  qed simp
qed simp

lemma shift_lanes_iff:
  assumes "0 < x_LANES C" "sh = shift_left \<or> sh = shift_right"
  shows "(\<exists>r. set_lanesE C (\<lambda>l. sh (f l) b) ps = Inr r) \<longleftrightarrow> unat b < 32"
proof (cases "unat b < 32")
  case True
  with assms(2) have "\<exists>d'. for_uptoE (x_LANES C) (\<lambda>l d. bindE (sh (f l) b) (\<lambda>v. Inr (d(l := v)))) (xp_data_w ps) = Inr d'"
    by (intro for_uptoE_ok) (auto simp: shift_left_def shift_right_def)
  with True show ?thesis by (auto simp: set_lanesE_def)
next
  case False
  with assms have "\<exists>e. for_uptoE (x_LANES C) (\<lambda>l d. bindE (sh (f l) b) (\<lambda>v. Inr (d(l := v)))) (xp_data_w ps) = Inl e"
    by (intro for_uptoE_fails) (auto simp: shift_left_def shift_right_def)
  with False show ?thesis by (auto simp: set_lanesE_def)
qed

definition no_result :: "ex_cfg \<Rightarrow> exec_inputs \<Rightarrow> Instruction \<Rightarrow> bool" where
  "no_result C i op \<longleftrightarrow>
    (i_op op \<in> {OP_SHL, OP_SHR, OP_SSHL, OP_SSHR} \<and> unat (op1 i 0) \<ge> 32) \<or>
    (i_op op \<in> {OP_SIDIV, OP_SIMOD} \<and> div_undefined (op0 i 0) (op1 i 0)) \<or>
    (i_op op = OP_BUFQUERY \<and> (\<not> buf_valid (xi_xlat_phys i) \<or> so_bufquery (i_subop op) = BUFQUERY_SENTINEL)) \<or>
    (i_op op = OP_CPUSH \<and> so_cpush (i_subop op) = CPUSH_SENTINEL) \<or>
    (i_op op = OP_DBG_PRINTVGPR \<and> unat (op1 i 0) \<ge> x_THREADS C)"

lemmas exec_groups = exec_ctrl_def exec_fp_def exec_int_def exec_scalar_def exec_ldst_def exec_debug_def

lemma dst_areg_ok: "operand_ok (i_dst op) \<Longrightarrow> \<exists>a. dst_areg op wg = Inr a"
  using getRegister_wg_ok[of "i_dst op" wg 0] by (auto simp: dst_areg_def)

lemma doExecute_iff:
  assumes "operand_ok (i_dst op)" "0 < x_LANES C"
  shows "(\<exists>r. doExecute F C i op (s, ps) = Inr r) \<longleftrightarrow> i_dead op \<or> \<not> no_result C i op"
proof -
  obtain a where a: "dst_areg op (xi_wg i) = Inr a" using dst_areg_ok[OF assms(1)] by blast
  have sh: "(\<exists>s' ps'. keepE s (do_SHL C i ps) = Inr (s', ps')) \<longleftrightarrow> unat (op1 i 0) < 32"
    "(\<exists>s' ps'. keepE s (do_SHR C i ps) = Inr (s', ps')) \<longleftrightarrow> unat (op1 i 0) < 32"
    using shift_lanes_iff[OF assms(2)] by (auto simp: do_SHL_def do_SHR_def keepE_def keep_def bindE_Inr_iff)
  show ?thesis
    by (cases "i_op op") (simp_all add: doExecute_def exec_groups sh[unfolded One_nat_def] no_result_def keep_def not_le, simp_all add: keepE_def keep_def a
        do_LDSTLIN_def do_LDSTSPLIN_def do_SLD_def do_SLDSP_def do_LDSTBIDX_def do_LDSTCIDX_def do_LDSTGIDXIT_def
        do_LDSPG2SPTILE_def do_LDSTSPBIDX_def do_CPUSH_def cpush_mask_def do_BUFQUERY_def do_SSHL_def do_SSHR_def
        do_SIDIV_def do_SIMOD_def Let_def case_prod_beta shift_left_def shift_right_def assertE_def split: ISASubOpCPUSH.split ISASubOpBUFQUERY.split)
qed

text \<open>
  C27. A validated instruction whose operands are resolved stops the stage in no case but these: a shift by 32 or
  more, a division without a result, a query of a buffer that is not mapped, a lane to print that does not exist, and
  a modifier one past the last, which the validation lets through. In particular no assertion about the destination
  ever fails.
\<close>

theorem exec_aborts_exact:
  assumes "validate op = Inr ()" "operand_ok (i_dst op)" "0 < x_LANES C"
  shows "(\<exists>r. bindE (setWrite i op ps) (\<lambda>ps. doExecute F C i op (s, ps)) = Inr r) \<longleftrightarrow> i_dead op \<or> \<not> no_result C i op"
proof -
  obtain ps' where "setWrite i op ps = Inr ps'"
    using setWrite_ok[of op i ps] assms(1,2) by (auto simp: validate_iff)
  then show ?thesis using doExecute_iff[OF assms(2,3)] by simp
qed


text \<open>A cluster of four lanes, and the input ports with an instruction of slot 0.\<close>

definition tiny_ex :: ex_cfg where
  "tiny_ex = \<lparr>x_THREADS = 8, x_LANES = 4, x_RCPUS = 2, x_PC_WIDTH = 11\<rparr>"

definition insn_inputs :: "nat \<Rightarrow> Instruction \<Rightarrow> (nat \<Rightarrow> nat \<Rightarrow> u32) \<Rightarrow> exec_inputs" where
  "insn_inputs pc op vals = \<lparr>xi_pc = pc, xi_insn = op, xi_wg = 0, xi_col_w = 0, xi_subcol_w = 0, xi_operand = vals,
     xi_sd = (\<lambda>_. stride_descriptor_default), xi_thread_active = (\<lambda>_. True), xi_xlat_phys = Buffer_default,
     xi_sp_xlat_phys = Buffer_default, xi_cstack_top = ctrlstack_entry_default, xi_wg_off = (\<lambda>_ _. 0), xi_dim = (\<lambda>_. 0),
     xi_wg_width = WG_WIDTH_32\<rparr>"

lemma exec_aborts_exact_witness:
  "\<forall>F s. \<exists>r. bindE (setWrite (insn_inputs 0 (iadd_v1_v2 REGISTER_SGPR) (\<lambda>_ _. 7)) (iadd_v1_v2 REGISTER_SGPR) (IExecute_pipe 0))
     (\<lambda>ps. doExecute F tiny_ex (insn_inputs 0 (iadd_v1_v2 REGISTER_SGPR) (\<lambda>_ _. 7)) (iadd_v1_v2 REGISTER_SGPR) (s, ps)) = Inr r"
proof (intro allI)
  fix F s
  show "\<exists>r. bindE (setWrite (insn_inputs 0 (iadd_v1_v2 REGISTER_SGPR) (\<lambda>_ _. 7)) (iadd_v1_v2 REGISTER_SGPR) (IExecute_pipe 0))
     (\<lambda>ps. doExecute F tiny_ex (insn_inputs 0 (iadd_v1_v2 REGISTER_SGPR) (\<lambda>_ _. 7)) (iadd_v1_v2 REGISTER_SGPR) (s, ps)) = Inr r"
    using exec_aborts_exact[of "iadd_v1_v2 REGISTER_SGPR" tiny_ex "insn_inputs 0 (iadd_v1_v2 REGISTER_SGPR) (\<lambda>_ _. 7)"]
    by (simp add: iadd_v1_v2_valid iadd_v1_v2_simps operand_ok_def tiny_ex_def no_result_def)
qed

end
