(* ===== verification/Exec_Sibfind.thy ===== *)
theory Exec_Sibfind
  imports Exec_Stage
begin

text \<open>The search for the most significant bit that is no sign bit, against its definition.\<close>

lemma takeWhile_rev_upt:
  assumes "bit a p" "p < n" "\<And>j. p < j \<Longrightarrow> j < n \<Longrightarrow> \<not> bit a j"
  shows "length (takeWhile (\<lambda>k. \<not> bit a k) (rev [0..<n])) = n - 1 - p"
  using assms
proof (induction n)
  case (Suc n)
  then show ?case by (cases "p = n") (auto simp: not_less_eq less_Suc_eq Suc_diff_Suc intro: Suc.IH)
qed simp

lemma builtin_clz_top:
  assumes "bit (a::u32) p" "\<And>j. p < j \<Longrightarrow> j < 32 \<Longrightarrow> \<not> bit a j"
  shows "builtin_clz a = 31 - p"
proof -
  have "p < 32" using bit_imp_le_length[OF assms(1)] by simp
  with assms show ?thesis using takeWhile_rev_upt[of a p 32] by (simp add: builtin_clz_def)
qed

definition unsigned_part :: "u32 \<Rightarrow> u32" where
  "unsigned_part a = (if bit a 31 then NOT a else a)"

lemma bit_unsigned_part: "k < 32 \<Longrightarrow> bit (unsigned_part a) k \<longleftrightarrow> bit a k \<noteq> bit a 31"
  by (auto simp: unsigned_part_def bit_simps)

lemma msb_mask: "(a::u32) AND 0x80000000 \<noteq> 0 \<longleftrightarrow> bit a 31"
proof -
  have "(0x80000000::u32) = 2 ^ 31" by simp
  then show ?thesis by (simp only: and_exp_eq_0_iff_not_bit not_not)
qed

lemma sibfind_alt: "sibfind a = 30 - of_nat (builtin_clz (push_bit 1 (unsigned_part a) OR 1))"
  by (simp add: sibfind_def unsigned_part_def msb_mask Let_def)

lemma bit_shifted: "bit (push_bit 1 (x::u32) OR 1) j \<longleftrightarrow> j < 32 \<and> (j = 0 \<or> bit x (j - 1))"
  unfolding bit_or_iff bit_push_bit_iff bit_1_iff using bit_imp_le_length[of x "j - 1"] by auto

text \<open>
  C29. \<open>SIBFIND\<close> finds the most significant bit that differs from the sign: it is the position of that bit where
  there is one, and -1 for 0 and -1, whose bits are all alike. The bit search never meets the argument 0, for which it
  has no result.
\<close>

theorem sibfind_exact:
  "(if \<exists>k<31. bit a k \<noteq> bit a 31
    then \<exists>k<31. sibfind a = of_nat k \<and> bit a k \<noteq> bit a 31 \<and> (\<forall>j. k < j \<and> j < 32 \<longrightarrow> bit a j = bit a 31)
    else (a = 0 \<or> a = - 1) \<and> sibfind a = - 1) \<and>
   push_bit 1 (unsigned_part a) OR 1 \<noteq> 0"
proof -
  let ?x = "push_bit 1 (unsigned_part a) OR 1"
  have "bit ?x 0" by (rule bit_shifted[THEN iffD2]) simp
  then have nz: "?x \<noteq> 0" by (metis bit_0_eq bot_apply bot_bool_def)
  show ?thesis
  proof (cases "\<exists>k<31. bit a k \<noteq> bit a 31")
    case True
    define k where "k = Max {k. k < 31 \<and> bit a k \<noteq> bit a 31}"
    have f: "finite {k. k < 31 \<and> bit a k \<noteq> bit a 31}" by simp
    have k: "k < 31" "bit a k \<noteq> bit a 31"
      using Max_in[OF f] True by (auto simp: k_def)
    have m: "bit a j = bit a 31" if "k < j" "j < 32" for j
    proof (cases "j = 31")
      case False
      with that have "j < 31" by simp
      then have "bit a j \<noteq> bit a 31 \<Longrightarrow> j \<le> k" unfolding k_def by (intro Max_ge[OF f]) simp
      with that show ?thesis by linarith
    qed simp
    have "bit ?x (k + 1)" using k by (intro bit_shifted[THEN iffD2]) (simp add: bit_unsigned_part)
    moreover have "\<not> bit ?x j" if "k + 1 < j" "j < 32" for j
      using that m[of "j - 1"] unfolding bit_shifted by (simp add: bit_unsigned_part)
    ultimately have "builtin_clz ?x = 31 - (k + 1)" by (rule builtin_clz_top)
    also have "\<dots> = 30 - k" by simp
    finally have "sibfind a = 30 - of_nat (30 - k)" by (simp only: sibfind_alt)
    also have "\<dots> = of_nat k" using k by (simp add: of_nat_diff)
    finally have "\<exists>k<31. sibfind a = of_nat k \<and> bit a k \<noteq> bit a 31 \<and> (\<forall>j. k < j \<and> j < 32 \<longrightarrow> bit a j = bit a 31)"
      using k m by blast
    then show ?thesis unfolding if_P[OF True] using nz by (rule conjI)
  next
    case False
    then have n: "bit a k = bit a 31" if "k < 32" for k
      using that by (cases "k = 31") auto
    have "\<not> bit ?x j" if "0 < j" "j < 32" for j
      using that n[of "j - 1"] unfolding bit_shifted by (simp add: bit_unsigned_part)
    then have "builtin_clz ?x = 31 - 0" using \<open>bit ?x 0\<close> by (intro builtin_clz_top)
    then have "sibfind a = 30 - of_nat (31 - 0)" by (simp only: sibfind_alt)
    then have "sibfind a = - 1" by simp
    moreover have "a = 0 \<or> a = - 1"
    proof (cases "bit a 31")
      case True
      then have "bit a k" if "k < 32" for k using n[OF that] by blast
      then have "a = - 1" by (intro bit_word_eqI) simp
      then show ?thesis ..
    next
      case f: False
      then have "\<not> bit a k" if "k < 32" for k using n[OF that] by blast
      then have "a = 0" by (intro bit_word_eqI) simp
      then show ?thesis ..
    qed
    ultimately show ?thesis unfolding if_not_P[OF False] using nz by blast
  qed
qed

lemma sibfind_exact_witness: "sibfind 0x100 = 8"
proof -
  have e: "\<exists>k<31. bit (0x100 :: 32 word) k \<noteq> bit (0x100 :: 32 word) 31" by (rule exI[of _ 8]) simp
  from sibfind_exact[of "0x100", unfolded if_P[OF e]] obtain k where
    k: "k < 31" "sibfind 0x100 = of_nat k" "bit (0x100 :: 32 word) k \<noteq> bit (0x100 :: 32 word) 31" by blast
  have p: "bit (0x100 :: 32 word) j \<longleftrightarrow> j = 8" for j
  proof -
    have "(0x100 :: 32 word) = 2 ^ 8" by simp
    then have "bit (0x100 :: 32 word) j = bit (2 ^ 8 :: 32 word) j" by (simp only:)
    also have "\<dots> \<longleftrightarrow> j = 8" unfolding bit_exp_iff by auto
    finally show ?thesis .
  qed
  have "k = 8" using k(3) unfolding p by simp
  with k(2) show ?thesis by simp
qed

end
