(* ===== verification/Exec_Pipe.thy ===== *)
theory Exec_Pipe
  imports Exec_Aborts
begin

text \<open>
  The pipeline of the execute stage, seen as the list of the stages in flight: what one cycle does to it, which of
  them have an effect when they are committed, and what an operation may change.
\<close>

abbreviation in_flight :: "exec \<Rightarrow> exec_pipe list" where
  "in_flight s \<equiv> rb_pending (xs_pipe s)"

text \<open>A stage without effect, and the outputs of a cycle that commits one.\<close>

definition stage_quiet :: "exec_pipe \<Rightarrow> bool" where
  "stage_quiet ps \<longleftrightarrow> \<not> xp_pc_do_w ps \<and> \<not> xp_out_w ps \<and> xp_store_target ps = IF_SENTINEL \<and>
     xp_cstack_action ps = CTRLSTACK_IDLE \<and> xp_wg_state_next ps = (\<lambda>_. WG_STATE_NONE)"

definition out_quiet :: "exec_outputs \<Rightarrow> bool" where
  "out_quiet out \<longleftrightarrow> \<not> xo_pc_do_w out \<and> \<not> xo_w out \<and> xo_col_mask_w out = None \<and> xo_desc_fifo out = None \<and>
     xo_store_kick out = None \<and> xo_cstack_action out = CTRLSTACK_IDLE \<and> xo_wg_state_next out = (\<lambda>_. WG_STATE_NONE)"

lemma stage_quiet_invalidate [simp]: "stage_quiet (invalidate ps)"
  by (simp add: stage_quiet_def invalidate_def)

lemma stage_quiet_invalidate_elem: "\<not> i_injected (xp_op ps) \<or> stage_quiet ps \<Longrightarrow> stage_quiet (invalidate_elem ps)"
  by (auto simp: invalidate_elem_def)

lemma stage_quiet_bubble [simp]: "stage_quiet (IExecute_pipe wg)"
  by (simp add: stage_quiet_def IExecute_pipe_def IExecute_pipe_default_def)

lemma out_quiet_commit: "stage_quiet ps \<Longrightarrow> out_quiet (commit_outputs C ps out)"
  by (simp add: stage_quiet_def out_quiet_def commit_outputs_def)

subsection \<open>What executing an instruction changes\<close>

text \<open>The instructions that send the program counter elsewhere, and where to.\<close>

definition redirects :: "exec_inputs \<Rightarrow> Instruction \<Rightarrow> bool" where
  "redirects i op \<longleftrightarrow> i_op op = OP_J \<or> (i_op op = OP_SICJ \<and> int_test (so_test (i_subop op)) (sint (op1 i 0)) = Some True) \<or>
     (i_op op \<in> {OP_CALL, OP_CPOP} \<and> i_commit op) \<or> ldst op"

definition redirect_pc :: "ex_cfg \<Rightarrow> exec_inputs \<Rightarrow> Instruction \<Rightarrow> nat" where
  "redirect_pc C i op = (if ldst op then pc_trunc C (xi_pc i + 1) else if i_op op = OP_CPOP then e_pc (xi_cstack_top i)
     else pc_trunc C (unat (op0 i 0)))"

definition is_division :: "Instruction \<Rightarrow> bool" where
  "is_division op \<longleftrightarrow> i_op op = OP_SIDIV \<or> i_op op = OP_SIMOD"

lemma ISAOpSpec_default_cat [simp]: "sp_cat ISAOpSpec_default = CAT_DEBUG"
  by (simp add: ISAOpSpec_default_def)

lemma cat_ldst_iff: "sp_cat (op_validate op) = CAT_LDST \<longleftrightarrow>
    op \<in> {OP_LDGLIN, OP_STGLIN, OP_LDGBIDX, OP_STGBIDX, OP_LDGCIDX, OP_STGCIDX, OP_LDGIDXIT, OP_STGIDXIT, OP_LDG2SPTILE,
      OP_STG2SPTILE, OP_LDSPLIN, OP_STSPLIN, OP_LDSPBIDX, OP_STSPBIDX, OP_SLDG, OP_SLDSP}"
  by (cases op) (simp_all add: op_validate_def op_validate_table)

lemma ldst_iff: "ldst op \<longleftrightarrow>
    i_op op \<in> {OP_LDGLIN, OP_STGLIN, OP_LDGBIDX, OP_STGBIDX, OP_LDGCIDX, OP_STGCIDX, OP_LDGIDXIT, OP_STGIDXIT, OP_LDG2SPTILE,
      OP_STG2SPTILE, OP_LDSPLIN, OP_STSPLIN, OP_LDSPBIDX, OP_STSPBIDX, OP_SLDG, OP_SLDSP}"
  by (auto simp: ldst_def cat_ldst_iff)

text \<open>The parts of the state and of the stage that an operation may change.\<close>

definition same_rest :: "exec \<Rightarrow> exec \<Rightarrow> bool" where
  "same_rest s s' \<longleftrightarrow> xs_pipe s' = xs_pipe s \<and> xs_out s' = xs_out s \<and> xs_ticket_push s' = xs_ticket_push s"

lemma same_rest_refl [simp]: "same_rest s s"
  by (simp add: same_rest_def)

text \<open>Most operations write data only.\<close>

definition data_only :: "exec_pipe \<Rightarrow> exec_pipe \<Rightarrow> bool" where
  "data_only ps ps' \<longleftrightarrow> ps' = ps\<lparr>xp_data_w := xp_data_w ps'\<rparr>"

lemma data_only_set [simp]: "data_only ps (set_lanes C f ps)" "data_only ps (set_scalar v ps)" "data_only ps ps"
  by (simp_all add: data_only_def set_lanes_def set_scalar_def)

lemma set_lanes_sel [simp]:
  "xp_op (set_lanes C f ps) = xp_op ps" "xp_pc_do_w (set_lanes C f ps) = xp_pc_do_w ps" "xp_pc_w (set_lanes C f ps) = xp_pc_w ps"
  "xp_store_target (set_lanes C f ps) = xp_store_target ps" "xp_desc_fifo (set_lanes C f ps) = xp_desc_fifo ps"
  "xp_out_w (set_lanes C f ps) = xp_out_w ps" "xp_req_w (set_lanes C f ps) = xp_req_w ps"
  by (simp_all add: set_lanes_def)

lemma data_only_setE: "set_lanesE C f ps = Inr ps' \<Longrightarrow> data_only ps ps'"
  by (auto simp: set_lanesE_def bindE_Inr_iff data_only_def)

lemmas lanes_simps = do_TEST_def do_ITEST_def do_PBOOL_def do_CMASK_def do_CALL_MASK_def
  do_VMAD_def do_VADD_def do_VMUL_def do_VMIN_def do_VMAX_def do_VABS_def do_MOV_def do_CVT_def do_SCVT_def
  do_RCP_def do_RSQRT_def do_SIN_def do_COS_def rcpu_lanes_def do_IADD_def do_ISUB_def do_IMUL_def do_IMAD_def do_IMIN_def
  do_IMAX_def do_AND_def do_OR_def do_XOR_def do_NOT_def do_SMOV_def do_SIADD_def do_SISUB_def do_SIMUL_def do_SIMAD_def
  do_SIMIN_def do_SIMAX_def do_SINEG_def do_SIBFIND_def do_SAND_def do_SOR_def do_SNOT_def

lemma exec_fp_frame:
  assumes "exec_fp F C i op s ps others = Inr (s', ps')"
  shows "others = Inr (s', ps') \<or> (s' = s \<and> data_only ps ps' \<and> sp_cat (op_validate (i_op op)) \<notin> {CAT_LDST, CAT_CTRLFLOW} \<and> \<not> is_division op)"
  using assms
  by (cases "i_op op") (simp_all add: exec_fp_def keep_def keepE_def, auto simp: keep_def lanes_simps do_BUFQUERY_def bindE_Inr_iff Let_def
      is_division_def op_validate_def op_validate_table split: if_splits ISASubOpBUFQUERY.splits)

lemma exec_int_frame:
  assumes "exec_int C i op s ps others = Inr (s', ps')"
  shows "others = Inr (s', ps') \<or> (s' = s \<and> data_only ps ps' \<and> sp_cat (op_validate (i_op op)) \<notin> {CAT_LDST, CAT_CTRLFLOW} \<and> \<not> is_division op)"
  using assms
  by (cases "i_op op") (simp_all add: exec_int_def keep_def keepE_def, auto simp: keep_def lanes_simps do_SHL_def do_SHR_def bindE_Inr_iff
      is_division_def op_validate_def op_validate_table dest: data_only_setE)

definition exec_frame :: "ex_cfg \<Rightarrow> exec_inputs \<Rightarrow> Instruction \<Rightarrow> exec \<Rightarrow> exec_pipe \<Rightarrow> exec \<Rightarrow> exec_pipe \<Rightarrow> bool" where
  "exec_frame C i op s ps s' ps' \<longleftrightarrow> same_rest s s' \<and> xp_op ps' = xp_op ps \<and>
     (\<not> is_division op \<longrightarrow> xs_hold_counter s' = xs_hold_counter s) \<and>
     (is_division op \<longrightarrow> xs_hold_counter s' = max (8 - int (rb_entries (xs_pipe s))) 0) \<and>
     (if redirects i op then xp_pc_do_w ps' \<and> xp_pc_w ps' = redirect_pc C i op else xp_pc_do_w ps' = xp_pc_do_w ps) \<and>
     (if ldst op then xp_store_target ps' \<noteq> IF_SENTINEL \<and> sd_ticket (xp_desc_fifo ps') = xs_ticket_push s
      else xp_store_target ps' = xp_store_target ps) \<and>
     (i_op op \<noteq> OP_CPOP \<longrightarrow> xp_out_w ps' = xp_out_w ps \<and> xp_req_w ps' = xp_req_w ps)"

lemma data_only_frame:
  "data_only ps ps' \<Longrightarrow> sp_cat (op_validate (i_op op)) \<notin> {CAT_LDST, CAT_CTRLFLOW} \<Longrightarrow> \<not> is_division op \<Longrightarrow> exec_frame C i op s ps s ps'"
proof -
  assume d: "data_only ps ps'" and c: "sp_cat (op_validate (i_op op)) \<notin> {CAT_LDST, CAT_CTRLFLOW}" "\<not> is_division op"
  from d obtain v where "ps' = ps\<lparr>xp_data_w := v\<rparr>" by (auto simp: data_only_def)
  moreover from c have "\<not> redirects i op" "\<not> ldst op" "i_op op \<noteq> OP_CPOP"
    by (auto simp: redirects_def cat_ctrlflow_iff cat_ldst_iff ldst_iff)
  ultimately show ?thesis using c by (simp add: exec_frame_def)
qed

lemma exec_scalar_frame:
  assumes "exec_scalar i op s ps others = Inr (s', ps')"
  shows "(others = Inr (s', ps') \<and> \<not> is_division op) \<or> exec_frame C i op s ps s' ps'"
proof (cases "is_division op")
  case True
  then have "exec_scalar i op s ps others = do_SIDIV i (s, ps) \<or> exec_scalar i op s ps others = do_SIMOD i (s, ps)"
    by (auto simp: is_division_def exec_scalar_def)
  with assms have d: "s' = hold_divider s \<and> data_only ps ps'"
    by (auto simp: do_SIDIV_def do_SIMOD_def split: if_splits)
  then obtain v where "ps' = ps\<lparr>xp_data_w := v\<rparr>" by (auto simp: data_only_def)
  moreover from True have "\<not> redirects i op" "\<not> ldst op"
    by (auto simp: is_division_def redirects_def ldst_iff)
  ultimately show ?thesis using d True by (simp add: exec_frame_def hold_divider_def same_rest_def)
next
  case False
  have "others = Inr (s', ps') \<or> (s' = s \<and> data_only ps ps' \<and> sp_cat (op_validate (i_op op)) \<notin> {CAT_LDST, CAT_CTRLFLOW})"
    using assms False
    by (cases "i_op op") (simp_all add: exec_scalar_def keep_def keepE_def is_division_def, auto simp: keep_def lanes_simps
        do_SSHL_def do_SSHR_def bindE_Inr_iff op_validate_def op_validate_table)
  with data_only_frame False show ?thesis by blast
qed

definition kicks :: "ex_cfg \<Rightarrow> exec_inputs \<Rightarrow> exec \<Rightarrow> Instruction \<Rightarrow> exec_pipe \<Rightarrow> exec_pipe \<Rightarrow> bool" where
  "kicks C i s op ps ps' \<longleftrightarrow> (\<exists>target sd. target \<noteq> IF_SENTINEL \<and> ps' = ldst_kick C i s op target sd ps)"

lemma kicks_simps [simp]: "kicks C i s op ps (ldst_kick C i s op IF_DRAM sd ps)"
  "kicks C i s op ps (ldst_kick C i s op (sp_interface wg) sd ps)"
  by (auto simp: kicks_def sp_interface_def)

lemma exec_ldst_frame:
  assumes "exec_ldst C i op s ps others = Inr (s', ps')"
  shows "(others = Inr (s', ps') \<and> \<not> ldst op) \<or> exec_frame C i op s ps s' ps'"
proof (cases "ldst op")
  case True
  have "s' = s \<and> kicks C i s op ps ps'"
    using assms True unfolding ldst_iff
    by (cases "i_op op") (simp_all add: exec_ldst_def keepE_def keep_def, auto simp: keep_def bindE_Inr_iff do_LDSTLIN_def do_LDSTSPLIN_def do_SLD_def
      do_SLDSP_def do_LDSTBIDX_def do_LDSTCIDX_def do_LDSTGIDXIT_def do_LDSPG2SPTILE_def do_LDSTSPBIDX_def)
  with True show ?thesis
    by (auto simp: kicks_def exec_frame_def ldst_kick_def redirects_def redirect_pc_def is_division_def ldst_iff)
next
  case False
  with assms show ?thesis unfolding ldst_iff by (cases "i_op op") (simp_all add: exec_ldst_def)
qed

lemma division_cat: "is_division op \<Longrightarrow> sp_cat (op_validate (i_op op)) = CAT_ARITH_INT"
  unfolding is_division_def by (elim disjE) (simp_all add: op_validate_def op_validate_table)

definition print_only :: "exec_pipe \<Rightarrow> exec_pipe \<Rightarrow> bool" where
  "print_only ps ps' \<longleftrightarrow> (\<exists>v p. ps' = ps\<lparr>xp_data_w := v, xp_print := p\<rparr>)"

lemma print_only_simps:
  "print_only ps ((set_scalar v ps)\<lparr>xp_print := p\<rparr>)" "print_only ps ((set_lanes C f ps)\<lparr>xp_print := p\<rparr>)"
  "print_only ps (do_PRINTTRACE i ps)"
  unfolding print_only_def set_scalar_def set_lanes_def do_PRINTTRACE_def by blast+

lemma exec_debug_frame:
  assumes "exec_debug C i op s ps others = Inr (s', ps')"
  shows "others = Inr (s', ps') \<or> exec_frame C i op s ps s' ps'"
proof -
  have "others = Inr (s', ps') \<or> (s' = s \<and> sp_cat (op_validate (i_op op)) = CAT_DEBUG \<and> print_only ps ps')"
    using assms
    by (cases "i_op op") (simp_all add: exec_debug_def keep_def, auto simp: print_only_simps op_validate_def op_validate_table)
  moreover have "exec_frame C i op s ps s ps'" if "sp_cat (op_validate (i_op op)) = CAT_DEBUG" "print_only ps ps'"
  proof -
    have "\<not> is_ctrlflow op" "\<not> ldst op" "\<not> is_division op"
      using that by (auto simp: is_ctrlflow_def ldst_def dest: division_cat)
    moreover from this have "\<not> redirects i op" "i_op op \<noteq> OP_CPOP" by (auto simp: redirects_def is_ctrlflow_iff)
    ultimately show ?thesis using that(2) by (auto simp: exec_frame_def print_only_def)
  qed
  ultimately show ?thesis by blast
qed

lemma do_CPUSH_frame:
  "do_CPUSH m pc com C i (s, ps) = Inr (s', ps') \<Longrightarrow> same_rest s s' \<and> xs_hold_counter s' = xs_hold_counter s \<and> xp_op ps' = xp_op ps \<and>
     xp_pc_do_w ps' = xp_pc_do_w ps \<and> xp_store_target ps' = xp_store_target ps \<and> xp_out_w ps' = xp_out_w ps \<and> xp_req_w ps' = xp_req_w ps"
  unfolding do_CPUSH_def bindE_Inr_iff Let_def prod.case
  by (elim exE conjE, drule sum.inject(2)[THEN iffD1], drule prod.inject[THEN iffD1], elim conjE, hypsubst) (simp add: same_rest_def)

lemma frame_plain:
  assumes "data_only ps ps'" "\<not> redirects i op" "\<not> ldst op" "\<not> is_division op"
  shows "exec_frame C i op s ps s ps'"
proof -
  from assms(1) obtain v where "ps' = ps\<lparr>xp_data_w := v\<rparr>" by (auto simp: data_only_def)
  with assms show ?thesis by (simp add: exec_frame_def)
qed

lemma frame_push:
  assumes "do_CPUSH m pc com C i (s, ps) = Inr (s', ps1)" "data_only ps1 ps'" "\<not> redirects i op" "\<not> ldst op" "\<not> is_division op"
  shows "exec_frame C i op s ps s' ps'"
proof -
  from assms(2) obtain v where "ps' = ps1\<lparr>xp_data_w := v\<rparr>" by (auto simp: data_only_def)
  with assms do_CPUSH_frame[OF assms(1)] show ?thesis by (simp add: exec_frame_def)
qed

lemma frame_redirect:
  assumes "same_rest s s'" "xs_hold_counter s' = xs_hold_counter s" "redirects i op" "\<not> ldst op" "\<not> is_division op"
    "xp_op ps' = xp_op ps" "xp_pc_do_w ps'" "xp_pc_w ps' = redirect_pc C i op" "xp_store_target ps' = xp_store_target ps"
    "i_op op \<noteq> OP_CPOP \<longrightarrow> xp_out_w ps' = xp_out_w ps \<and> xp_req_w ps' = xp_req_w ps"
  shows "exec_frame C i op s ps s' ps'"
  using assms by (simp add: exec_frame_def)

lemmas frame_cases = redirects_def ldst_iff is_division_def redirect_pc_def

lemma frame_J: "i_op op = OP_J \<Longrightarrow> exec_frame C i op s ps s (do_J C i ps)"
  by (rule frame_redirect) (simp_all add: do_J_def frame_cases)

lemma frame_SICJ: "i_op op = OP_SICJ \<Longrightarrow> exec_frame C i op s ps s (do_SICJ (so_test (i_subop op)) C i ps)"
  by (cases "int_test (so_test (i_subop op)) (sint (op1 i 0)) = Some True")
    (simp_all add: exec_frame_def do_SICJ_def do_J_def frame_cases)

lemma frame_CPOP: "i_op op = OP_CPOP \<Longrightarrow> exec_frame C i op s ps s (do_CPOP (i_commit op) C i ps)"
  by (cases "i_commit op") (simp_all add: exec_frame_def do_CPOP_def Let_def frame_cases)

lemma frame_EXIT: "i_op op = OP_EXIT \<Longrightarrow> exec_frame C i op s ps s (do_CMASK 0 C i (exit_commit i com ps))"
  by (simp add: exec_frame_def do_CMASK_def exit_commit_def frame_cases)

lemma frame_CALL:
  assumes "i_op op = OP_CALL" "do_CPUSH CPUSH_RET pc (i_commit op) C i (s, ps) = Inr (s', ps1)"
  shows "exec_frame C i op s ps s' (if i_commit op then do_J C i (do_CALL_MASK 1 C i ps1) else do_CALL_MASK 1 C i ps1)"
  using assms(1) do_CPUSH_frame[OF assms(2)] by (simp add: exec_frame_def do_J_def do_CALL_MASK_def frame_cases)

lemma frame_lanes:
  assumes "i_op op \<in> {OP_TEST, OP_ITEST, OP_PBOOL, OP_BRK, OP_CMASK}"
  shows "exec_frame C i op s ps s (do_TEST t C i ps)" "exec_frame C i op s ps s (do_ITEST t C i ps)"
    "exec_frame C i op s ps s (do_PBOOL m C i ps)" "exec_frame C i op s ps s (do_CMASK k C i ps)"
  by (rule frame_plain; use assms in \<open>auto simp: lanes_simps frame_cases\<close>)+

lemma frame_CPUSH:
  assumes "i_op op \<in> {OP_CPUSH, OP_BRA}" "do_CPUSH m pc com C i (s, ps) = Inr (s', ps')"
  shows "exec_frame C i op s ps s' ps'" "exec_frame C i op s ps s' (do_CMASK k C i ps')"
  by (rule frame_push[OF assms(2)]; use assms(1) in \<open>auto simp: lanes_simps frame_cases\<close>)+

lemma exec_ctrl_frame:
  assumes "exec_ctrl C i op s ps others = Inr (s', ps')"
  shows "(others = Inr (s', ps') \<and> (is_ctrlflow op \<longrightarrow> i_op op = OP_RET)) \<or> exec_frame C i op s ps s' ps'"
  using assms
  by (cases "i_op op") (simp_all add: exec_ctrl_def keep_def is_ctrlflow_iff,
    auto simp: bindE_Inr_iff Let_def frame_J frame_SICJ frame_CPOP frame_EXIT frame_lanes[unfolded One_nat_def]
      frame_CPUSH[unfolded One_nat_def] split del: if_split intro: frame_CALL[unfolded One_nat_def])

lemma doExecute_frame:
  assumes "doExecute F C i op (s, ps) = Inr (s', ps')" "\<not> i_dead op"
  shows "exec_frame C i op s ps s' ps'"
proof (rule ccontr)
  assume n: "\<not> ?thesis"
  let ?dbg = "exec_debug C i op s ps (keep s ps)"
  let ?ldst = "exec_ldst C i op s ps ?dbg"
  let ?sc = "exec_scalar i op s ps ?ldst"
  let ?int = "exec_int C i op s ps ?sc"
  let ?fp = "exec_fp F C i op s ps ?int"
  have "exec_ctrl C i op s ps ?fp = Inr (s', ps')" using assms by (simp add: doExecute_def)
  from exec_ctrl_frame[OF this] n have fp: "?fp = Inr (s', ps')" and cf: "is_ctrlflow op \<longrightarrow> i_op op = OP_RET" by simp_all
  from exec_fp_frame[OF fp] n data_only_frame have int: "?int = Inr (s', ps')" by blast
  from exec_int_frame[OF int] n data_only_frame have sc: "?sc = Inr (s', ps')" by blast
  from exec_scalar_frame[OF sc, of C] n have l: "?ldst = Inr (s', ps')" and nd: "\<not> is_division op" by simp_all
  from exec_ldst_frame[OF l] n have d: "?dbg = Inr (s', ps')" and nl: "\<not> ldst op" by simp_all
  from exec_debug_frame[OF d] n have k: "s' = s" "ps' = ps" by (simp_all add: keep_def)
  with n k cf nl nd show False
    using frame_plain[of ps ps i op C s] by (auto simp: redirects_def is_ctrlflow_iff)
qed

end
