(* ===== verification/Exec_Cycle.thy ===== *)
theory Exec_Cycle
  imports Exec_Pipe
begin

text \<open>One cycle of the execute stage on the stages in flight, and the runs of the stage.\<close>

subsection \<open>Taking in an instruction\<close>

lemma setWrite_frame:
  assumes "setWrite i op ps = Inr ps'"
  shows "xp_op ps' = xp_op ps" "xp_pc_do_w ps' = xp_pc_do_w ps" "xp_store_target ps' = xp_store_target ps"
    "xp_cstack_action ps' = xp_cstack_action ps" "xp_wg_state_next ps' = xp_wg_state_next ps" "i_dead op \<Longrightarrow> xp_out_w ps' = xp_out_w ps"
    "getRegister_wg (i_dst op) (xi_wg i) (xi_col_w i) = Inr (xp_req_w ps')"
    "\<not> i_dead op \<Longrightarrow> hasDst op \<Longrightarrow> \<not> ldst op \<Longrightarrow> opCategory (i_op op) \<noteq> CAT_ARITH_RCPU \<Longrightarrow> xp_out_w ps'"
proof -
  obtain r where g: "getRegister_wg (i_dst op) (xi_wg i) (xi_col_w i) = Inr r"
    using assms by (auto simp: setWrite_def bindE_Inr_iff)
  have "(i_dead op \<or> \<not> hasDst op \<or> ldst op) \<and> ps' = ps\<lparr>xp_dequeue_sb := i_on_sb op, xp_dequeue_sb_cstack_entry := i_on_cstack_sb op, xp_req_w := r\<rparr> \<or>
      \<not> (i_dead op \<or> \<not> hasDst op \<or> ldst op) \<and> (\<exists>c b. ps' = ps\<lparr>xp_dequeue_sb := i_on_sb op, xp_dequeue_sb_cstack_entry := i_on_cstack_sb op,
        xp_req_w := r, xp_col_mask_w := c, xp_subcol_w := xi_subcol_w i, xp_out_w := b\<rparr> \<and> (opCategory (i_op op) \<noteq> CAT_ARITH_RCPU \<longrightarrow> b))"
    using assms unfolding setWrite_def g bindE_simps Let_def
    by (cases "i_dead op \<or> \<not> hasDst op \<or> ldst op") (simp_all add: if_P if_not_P del: de_Morgan_disj, force)
  then show "xp_op ps' = xp_op ps" "xp_pc_do_w ps' = xp_pc_do_w ps" "xp_store_target ps' = xp_store_target ps"
    "xp_cstack_action ps' = xp_cstack_action ps" "xp_wg_state_next ps' = xp_wg_state_next ps" "i_dead op \<Longrightarrow> xp_out_w ps' = xp_out_w ps"
    "getRegister_wg (i_dst op) (xi_wg i) (xi_col_w i) = Inr (xp_req_w ps')"
    "\<not> i_dead op \<Longrightarrow> hasDst op \<Longrightarrow> \<not> ldst op \<Longrightarrow> opCategory (i_op op) \<noteq> CAT_ARITH_RCPU \<Longrightarrow> xp_out_w ps'"
    by (auto simp: g)
qed

definition accepted :: "exec_inputs \<Rightarrow> exec \<Rightarrow> Instruction" where
  "accepted i s = (if flush i s then kill (xi_insn i) else xi_insn i)"

definition flushed :: "exec_inputs \<Rightarrow> exec \<Rightarrow> exec_pipe list" where
  "flushed i s = (if flush i s then map invalidate_elem (in_flight s) else in_flight s)"

text \<open>What the new stage \<open>x\<close> is, given the instruction it holds.\<close>

definition fresh_stage :: "ex_cfg \<Rightarrow> exec_inputs \<Rightarrow> exec \<Rightarrow> exec_pipe \<Rightarrow> bool" where
  "fresh_stage C i s x \<longleftrightarrow>
    (let op = accepted i s in
     xp_op x = op \<and>
     (if i_dead op then stage_quiet x
      else (xp_pc_do_w x \<longleftrightarrow> redirects i op) \<and> (redirects i op \<longrightarrow> xp_pc_w x = redirect_pc C i op) \<and>
        (xp_store_target x \<noteq> IF_SENTINEL \<longleftrightarrow> ldst op) \<and> (ldst op \<longrightarrow> sd_ticket (xp_desc_fifo x) = xs_ticket_push s) \<and>
        (i_op op \<noteq> OP_CPOP \<longrightarrow> getRegister_wg (i_dst op) (xi_wg i) (xi_col_w i) = Inr (xp_req_w x)) \<and>
        (i_op op \<noteq> OP_CPOP \<and> hasDst op \<and> \<not> ldst op \<and> opCategory (i_op op) \<noteq> CAT_ARITH_RCPU \<longrightarrow> xp_out_w x)))"

definition hold_after :: "exec_inputs \<Rightarrow> exec \<Rightarrow> int" where
  "hold_after i s = (if is_division (accepted i s) \<and> \<not> i_dead (accepted i s)
     then max (max (8 - int (rb_entries (xs_pipe s))) 0 - 1) 0 else 0)"

lemma pending_map: "rb_wf r \<Longrightarrow> rb_pending (r\<lparr>rb_buf := map f (rb_buf r)\<rparr>) = map f (rb_pending r)"
  by (rule nth_equalityI) (simp_all add: rb_pending_def rb_wf_def)

lemma pipe_invalidate_simps [simp]:
  "xs_out (pipe_invalidate s) = xs_out s" "xs_ticket_push (pipe_invalidate s) = xs_ticket_push s"
  "xs_hold_counter (pipe_invalidate s) = xs_hold_counter s" "rb_entries (xs_pipe (pipe_invalidate s)) = rb_entries (xs_pipe s)"
  by (simp_all add: pipe_invalidate_def)

lemma pipe_invalidate_wf [simp]: "rb_wf (xs_pipe (pipe_invalidate s)) = rb_wf (xs_pipe s)"
  by (simp add: pipe_invalidate_def rb_wf_def)

lemma pipe_invalidate_in_flight: "rb_wf (xs_pipe s) \<Longrightarrow> in_flight (pipe_invalidate s) = map invalidate_elem (in_flight s)"
  by (simp add: pipe_invalidate_def pending_map)

lemma exec_accept_result:
  assumes "exec_accept F C i s = Inr s'" "rb_wf (xs_pipe s)" "xs_hold_counter s = 0"
  shows "in_flight s' = flushed i s" "xs_out s' = xs_out s" "xs_ticket_push s' = xs_ticket_push s" "rb_wf (xs_pipe s')"
    "rb_entries (xs_pipe s') = rb_entries (xs_pipe s)" "fresh_stage C i s (xs_sidebuf s')"
    "max (xs_hold_counter s' - 1) 0 = hold_after i s"
proof -
  let ?op = "accepted i s" and ?s = "if flush i s then pipe_invalidate s else s"
  let ?x = "(IExecute_pipe (xi_wg i))\<lparr>xp_op := ?op\<rparr>"
  obtain ps s1 ps1 where w: "setWrite i ?op ?x = Inr ps" and x: "doExecute F C i ?op (?s, ps) = Inr (s1, ps1)"
    and s': "s' = s1\<lparr>xs_sidebuf := ps1\<rparr>"
    using assms(1) unfolding exec_accept_def Let_def accepted_def bindE_Inr_iff by auto
  note sw = setWrite_frame[OF w]
  have q: "stage_quiet ?x" "xp_op ?x = ?op"
    by (simp_all add: stage_quiet_def IExecute_pipe_def IExecute_pipe_default_def)
  have d: "s1 = ?s \<and> ps1 = ps" if "i_dead ?op" using x that by (simp add: doExecute_def keep_def)
  have f: "exec_frame C i ?op ?s ps s1 ps1" if "\<not> i_dead ?op" using doExecute_frame[OF x that] .
  have "same_rest ?s s1" using d f by (cases "i_dead ?op") (auto simp: exec_frame_def)
  then show "in_flight s' = flushed i s" "xs_out s' = xs_out s" "xs_ticket_push s' = xs_ticket_push s" "rb_wf (xs_pipe s')"
    "rb_entries (xs_pipe s') = rb_entries (xs_pipe s)"
    using assms(2) by (auto simp: s' same_rest_def flushed_def pipe_invalidate_in_flight)
  show "fresh_stage C i s (xs_sidebuf s')"
  proof (cases "i_dead ?op")
    case True
    with d sw q show ?thesis by (simp add: fresh_stage_def s' Let_def stage_quiet_def)
  next
    case False
    have x0: "\<not> xp_pc_do_w ?x" "xp_store_target ?x = IF_SENTINEL" using q(1) by (simp_all add: stage_quiet_def)
    note ff = f[OF False, unfolded exec_frame_def]
    have "xp_op ps1 = ?op" using ff sw(1) q(2) by simp
    moreover have "xp_pc_do_w ps1 \<longleftrightarrow> redirects i ?op" using ff sw(2) x0 by (cases "redirects i ?op") simp_all
    moreover have "redirects i ?op \<longrightarrow> xp_pc_w ps1 = redirect_pc C i ?op" using ff by simp
    moreover have "xp_store_target ps1 \<noteq> IF_SENTINEL \<longleftrightarrow> ldst ?op" using ff sw(3) x0 by (cases "ldst ?op") simp_all
    moreover have "ldst ?op \<longrightarrow> sd_ticket (xp_desc_fifo ps1) = xs_ticket_push s" using ff by simp
    moreover have "i_op ?op \<noteq> OP_CPOP \<longrightarrow> getRegister_wg (i_dst ?op) (xi_wg i) (xi_col_w i) = Inr (xp_req_w ps1)" using ff sw(7) by simp
    moreover have "i_op ?op \<noteq> OP_CPOP \<and> hasDst ?op \<and> \<not> ldst ?op \<and> opCategory (i_op ?op) \<noteq> CAT_ARITH_RCPU \<longrightarrow> xp_out_w ps1"
      using ff sw(8)[OF False] by simp
    ultimately show ?thesis using False by (simp add: fresh_stage_def Let_def s')
  qed
  show "max (xs_hold_counter s' - 1) 0 = hold_after i s"
  proof (cases "i_dead ?op")
    case True
    with d assms(3) show ?thesis by (simp add: hold_after_def s')
  next
    case False
    with f[OF False] assms(3) show ?thesis by (auto simp: hold_after_def s' exec_frame_def split: if_splits)
  qed
qed

subsection \<open>The cycle\<close>

text \<open>A cycle of a stage that is not held: what comes in, what goes out, what is left.\<close>

definition commits :: "ex_cfg \<Rightarrow> exec \<Rightarrow> exec_pipe \<Rightarrow> exec \<Rightarrow> bool" where
  "commits C s ps s' \<longleftrightarrow> xs_out s' = commit_outputs C ps (xs_out s) \<and>
     xs_ticket_push s' = (if xp_store_target ps \<noteq> IF_SENTINEL then sc_uint 4 (xs_ticket_push s + 1) else xs_ticket_push s) \<and>
     rb_wf (xs_pipe s') \<and> rb_entries (xs_pipe s') = rb_entries (xs_pipe s)"

lemma commit_result:
  assumes "commit C sb r ps s = Inr s'"
  shows "xs_out s' = commit_outputs C ps (xs_out s)" "xs_pipe s' = xs_pipe s" "xs_hold_counter s' = xs_hold_counter s"
    "xs_sidebuf s' = xs_sidebuf s"
    "xs_ticket_push s' = (if xp_store_target ps \<noteq> IF_SENTINEL then sc_uint 4 (xs_ticket_push s + 1) else xs_ticket_push s)"
  using assms by (auto simp: commit_def bindE_Inr_iff Let_def commit_pcount_def split: if_splits)

lemma exec_cycle:
  assumes "exec_thread_lt F C sb r i s = Inr s'" "rb_wf (xs_pipe s)" "xs_hold_counter s = 0"
  obtains x where "fresh_stage C i s x \<or> (hold_after i s \<noteq> 0 \<and> x = IExecute_pipe (xi_wg i))" "hold_after i s = 0 \<Longrightarrow> fresh_stage C i s x"
    "commits C s (hd (flushed i s @ [x])) s'" "in_flight s' = tl (flushed i s @ [x])" "xs_hold_counter s' = hold_after i s"
    "fresh_stage C i s (xs_sidebuf s')"
proof -
  from assms obtain s1 where a: "exec_accept F C i s = Inr s1"
    and k: "(case exec_swap i (decrement_hold s1) of (ps, s) \<Rightarrow> commit C sb r ps s) = Inr s'"
    by (auto simp: exec_thread_lt_def bindE_Inr_iff)
  obtain ps s2 where sw: "exec_swap i (decrement_hold s1) = (ps, s2)" by (cases "exec_swap i (decrement_hold s1)")
  with k have c: "commit C sb r ps s2 = Inr s'" by simp
  note r = exec_accept_result[OF a assms(2,3)] and cr = commit_result[OF c]
  let ?x = "if hold_after i s = 0 then xs_sidebuf s1 else IExecute_pipe (xi_wg i)"
  have sw': "ps = fst (swapHead ?x (xs_pipe s1))" "s2 = (decrement_hold s1)\<lparr>xs_pipe := snd (swapHead ?x (xs_pipe s1))\<rparr>"
    using sw r(7) by (auto simp: exec_swap_def decrement_hold_def split_def Let_def prod_eq_iff split: if_splits)
  have "ps = hd (flushed i s @ [?x])" "in_flight s' = tl (flushed i s @ [?x])"
    using swapHead_output[OF r(4)] swapHead_pending[OF r(4)] by (simp_all add: sw' cr(2) r(1))
  moreover have "commits C s ps s'"
    using cr r swapHead_wf[OF r(4)] by (simp add: commits_def sw' decrement_hold_def)
  moreover have "xs_hold_counter s' = hold_after i s" using cr r by (simp add: sw' decrement_hold_def)
  moreover have "xs_sidebuf s' = xs_sidebuf s1" using cr by (simp add: sw' decrement_hold_def)
  ultimately show ?thesis using that[of ?x] r(6) by simp
qed

text \<open>A cycle of a held stage: a bubble enters, or the held stage when the hold ends.\<close>

lemma held_cycle:
  assumes "exec_thread_lt F C sb r i s = Inr s'" "rb_wf (xs_pipe s)" "xs_hold_counter s \<noteq> 0"
  shows "commits C s (hd (in_flight s @ [if max (xs_hold_counter s - 1) 0 = 0 then xs_sidebuf s else IExecute_pipe (xi_wg i)])) s'"
    "in_flight s' = tl (in_flight s @ [if max (xs_hold_counter s - 1) 0 = 0 then xs_sidebuf s else IExecute_pipe (xi_wg i)])"
    "xs_hold_counter s' = max (xs_hold_counter s - 1) 0" "xs_sidebuf s' = xs_sidebuf s"
proof -
  let ?x = "if max (xs_hold_counter s - 1) 0 = 0 then xs_sidebuf s else IExecute_pipe (xi_wg i)"
  from assms obtain ps s2 where sw: "exec_swap i (decrement_hold s) = (ps, s2)" and c: "commit C sb r ps s2 = Inr s'"
    by (auto simp: exec_thread_lt_def split: prod.splits)
  have sw': "ps = fst (swapHead ?x (xs_pipe s))" "s2 = (decrement_hold s)\<lparr>xs_pipe := snd (swapHead ?x (xs_pipe s))\<rparr>"
    using sw by (auto simp: exec_swap_def decrement_hold_def split_def Let_def prod_eq_iff split: if_splits)
  note cr = commit_result[OF c]
  show "commits C s (hd (in_flight s @ [?x])) s'" "in_flight s' = tl (in_flight s @ [?x])"
    using cr swapHead_output[OF assms(2)] swapHead_pending[OF assms(2)] swapHead_wf[OF assms(2)]
    by (simp_all add: commits_def sw' decrement_hold_def)
  show "xs_hold_counter s' = max (xs_hold_counter s - 1) 0" "xs_sidebuf s' = xs_sidebuf s"
    using cr by (simp_all add: sw' decrement_hold_def)
qed

end
