(* ===== verification/Exec_Jump.thy ===== *)
theory Exec_Jump
  imports Exec_Cycle
begin

text \<open>
  The shadow of a jump: the instructions that enter the pipeline between an instruction that redirects the program
  counter and its commit. The run of the stage outputs what it commits.
\<close>

definition exec_step :: "fpu \<Rightarrow> ex_cfg \<Rightarrow> scoreboard option \<Rightarrow> bool \<Rightarrow> exec_inputs \<Rightarrow> exec \<Rightarrow> (exec_outputs \<times> exec) res" where
  "exec_step F C sb r i s = bindE (exec_thread_lt F C sb r i s) (\<lambda>s. Inr (xs_out s, s))"

lemma exec_step_iff: "exec_step F C sb r i s = Inr (out, s') \<longleftrightarrow> exec_thread_lt F C sb r i s = Inr s' \<and> out = xs_out s'"
  by (auto simp: exec_step_def bindE_Inr_iff)

lemma run_Cons_iff:
  "runE (exec_step F C sb r) (i # is) s = Inr (os, s') \<longleftrightarrow>
     (\<exists>s1 os'. exec_thread_lt F C sb r i s = Inr s1 \<and> runE (exec_step F C sb r) is s1 = Inr (os', s') \<and> os = xs_out s1 # os')"
  by (auto simp: bindE_Inr_iff exec_step_iff)

lemma run_append_iff:
  "runE (exec_step F C sb r) (is @ js) s = Inr (os, s') \<longleftrightarrow>
     (\<exists>s1 os1 os2. runE (exec_step F C sb r) is s = Inr (os1, s1) \<and> runE (exec_step F C sb r) js s1 = Inr (os2, s') \<and> os = os1 @ os2)"
proof (induction "is" arbitrary: s os)
  case Nil
  show ?case by auto
next
  case (Cons i "is")
  show ?case unfolding append_Cons run_Cons_iff Cons.IH by auto
qed

lemma run_length: "runE (exec_step F C sb r) is s = Inr (os, s') \<Longrightarrow> length os = length is"
  by (induction "is" arbitrary: s os) (auto simp: run_Cons_iff simp del: runE.simps(2))

subsection \<open>Quiet stages\<close>

definition quiet_for :: "nat \<Rightarrow> exec \<Rightarrow> bool" where
  "quiet_for m s \<longleftrightarrow> rb_wf (xs_pipe s) \<and> m \<le> length (in_flight s) \<and> (\<forall>k<m. stage_quiet (in_flight s ! k))"

lemma commits_quiet: "commits C s ps s' \<Longrightarrow> stage_quiet ps \<Longrightarrow> out_quiet (xs_out s')"
  by (simp add: commits_def out_quiet_commit)

lemma flushed_length [simp]: "length (flushed i s) = length (in_flight s)"
  by (simp add: flushed_def)

lemma flushed_quiet: "k < length (in_flight s) \<Longrightarrow> stage_quiet (in_flight s ! k) \<Longrightarrow> stage_quiet (flushed i s ! k)"
  by (simp add: flushed_def stage_quiet_invalidate_elem)

lemma quiet_for_shift:
  assumes "commits C s (hd (xs @ [x])) s'" "in_flight s' = tl (xs @ [x])" "Suc m \<le> length xs" "\<forall>k<Suc m. stage_quiet (xs ! k)"
  shows "out_quiet (xs_out s') \<and> quiet_for m s'"
proof -
  have "hd (xs @ [x]) = xs ! 0" using assms(3) by (cases xs) auto
  with assms have "out_quiet (xs_out s')" using commits_quiet by fastforce
  moreover have "in_flight s' ! k = xs ! Suc k" if "k < m" for k
    using that assms(2,3) by (simp add: nth_tl nth_append)
  moreover have "m \<le> length (in_flight s')" using assms(2,3) by simp
  ultimately show ?thesis using assms(1,4) by (auto simp: quiet_for_def commits_def)
qed

lemma quiet_step:
  assumes "quiet_for (Suc m) s" "exec_thread_lt F C sb r i s = Inr s'"
  shows "out_quiet (xs_out s') \<and> quiet_for m s'"
proof (cases "xs_hold_counter s = 0")
  case True
  from assms(1) have w: "rb_wf (xs_pipe s)" by (simp add: quiet_for_def)
  obtain x where "commits C s (hd (flushed i s @ [x])) s'" "in_flight s' = tl (flushed i s @ [x])"
    by (rule exec_cycle[OF assms(2) w True])
  then show ?thesis
    using assms(1) by (rule_tac quiet_for_shift) (auto simp: quiet_for_def intro!: flushed_quiet)
next
  case False
  from assms(1) have w: "rb_wf (xs_pipe s)" by (simp add: quiet_for_def)
  from held_cycle(1,2)[OF assms(2) w False] assms(1) show ?thesis
    by (rule_tac quiet_for_shift) (auto simp: quiet_for_def)
qed

lemma quiet_run:
  "quiet_for m s \<Longrightarrow> length is \<le> m \<Longrightarrow> runE (exec_step F C sb r) is s = Inr (os, s') \<Longrightarrow> \<forall>out\<in>set os. out_quiet out"
proof (induction "is" arbitrary: m s os)
  case (Cons i "is")
  then obtain m' where m: "m = Suc m'" by (cases m) auto
  from Cons.prems(3) obtain s1 os' where s: "exec_thread_lt F C sb r i s = Inr s1"
    "runE (exec_step F C sb r) is s1 = Inr (os', s')" "os = xs_out s1 # os'" unfolding run_Cons_iff by blast
  with quiet_step[OF _ s(1), of m'] Cons m show ?case by auto
qed simp

subsection \<open>Behind a jump\<close>

text \<open>The stage that jumps, with the older stages before it and the shadow behind it.\<close>

definition behind_jump :: "nat \<Rightarrow> exec_pipe list \<Rightarrow> exec_pipe list \<Rightarrow> exec \<Rightarrow> bool" where
  "behind_jump pc pre post s \<longleftrightarrow> rb_wf (xs_pipe s) \<and> xs_hold_counter s = 0 \<and> \<not> xo_pc_do_w (xs_out s) \<and>
     (\<exists>J. in_flight s = pre @ J # post \<and> xp_pc_do_w J \<and> xp_pc_w J = pc) \<and>
     (\<forall>ps\<in>set pre. \<not> xp_pc_do_w ps) \<and> (\<forall>ps\<in>set post. \<not> i_injected (xp_op ps))"

definition shadow_input :: "exec_inputs \<Rightarrow> bool" where
  "shadow_input i \<longleftrightarrow> \<not> i_injected (xi_insn i) \<and> xi_thread_active i (xi_wg i) \<and> (is_division (xi_insn i) \<longrightarrow> i_dead (xi_insn i))"

text \<open>A cycle without a flush and without a division: what is taken in is the instruction at the input.\<close>

lemma plain_cycle:
  assumes "exec_thread_lt F C sb r i s = Inr s'" "rb_wf (xs_pipe s)" "xs_hold_counter s = 0" "\<not> xo_pc_do_w (xs_out s)"
    "xi_thread_active i (xi_wg i)" "is_division (xi_insn i) \<longrightarrow> i_dead (xi_insn i)"
  obtains x where "fresh_stage C i s x" "xp_op x = xi_insn i" "commits C s (hd (in_flight s @ [x])) s'"
    "in_flight s' = tl (in_flight s @ [x])" "xs_hold_counter s' = 0"
proof -
  have nf: "\<not> flush i s" and a: "accepted i s = xi_insn i" and f: "flushed i s = in_flight s"
    using assms(4,5) by (simp_all add: flush_def accepted_def flushed_def)
  then have h: "hold_after i s = 0" using assms(6) by (auto simp: hold_after_def)
  show ?thesis
    by (rule exec_cycle[OF assms(1-3)]) (use that h in \<open>auto simp: f a fresh_stage_def Let_def\<close>)
qed

lemma behind_jump_step:
  assumes "behind_jump pc (p # pre) post s" "shadow_input i" "exec_thread_lt F C sb r i s = Inr s'"
  shows "\<exists>x. behind_jump pc pre (post @ [x]) s'"
proof -
  from assms(1,2) have a: "rb_wf (xs_pipe s)" "xs_hold_counter s = 0" "\<not> xo_pc_do_w (xs_out s)"
    "xi_thread_active i (xi_wg i)" "is_division (xi_insn i) \<longrightarrow> i_dead (xi_insn i)"
    by (simp_all add: behind_jump_def shadow_input_def)
  obtain x where x: "xp_op x = xi_insn i" "commits C s (hd (in_flight s @ [x])) s'" "in_flight s' = tl (in_flight s @ [x])"
    "xs_hold_counter s' = 0" by (rule plain_cycle[OF assms(3) a])
  then have "behind_jump pc pre (post @ [x]) s'"
    using assms(1,2) by (auto simp: behind_jump_def commits_def commit_outputs_def shadow_input_def)
  then show ?thesis ..
qed

lemma behind_jump_commit:
  assumes "behind_jump pc [] post s" "shadow_input i" "exec_thread_lt F C sb r i s = Inr s'"
  shows "xo_pc_do_w (xs_out s')" "xo_pc_w (xs_out s') = pc" "rb_wf (xs_pipe s')" "xs_hold_counter s' = 0"
    "\<forall>ps\<in>set (in_flight s'). \<not> i_injected (xp_op ps)"
proof -
  from assms(1,2) have a: "rb_wf (xs_pipe s)" "xs_hold_counter s = 0" "\<not> xo_pc_do_w (xs_out s)"
    "xi_thread_active i (xi_wg i)" "is_division (xi_insn i) \<longrightarrow> i_dead (xi_insn i)"
    by (simp_all add: behind_jump_def shadow_input_def)
  obtain x where x: "xp_op x = xi_insn i" "commits C s (hd (in_flight s @ [x])) s'" "in_flight s' = tl (in_flight s @ [x])"
    "xs_hold_counter s' = 0" by (rule plain_cycle[OF assms(3) a])
  then show "xo_pc_do_w (xs_out s')" "xo_pc_w (xs_out s') = pc" "rb_wf (xs_pipe s')" "xs_hold_counter s' = 0"
    "\<forall>ps\<in>set (in_flight s'). \<not> i_injected (xp_op ps)"
    using assms(1,2) by (auto simp: behind_jump_def commits_def commit_outputs_def shadow_input_def)
qed

lemma behind_jump_run:
  assumes "behind_jump pc pre post s" "\<forall>i\<in>set is. shadow_input i" "length is = Suc (length pre)"
    "runE (exec_step F C sb r) is s = Inr (os, s')"
  shows "xo_pc_do_w (last os) \<and> xo_pc_w (last os) = pc \<and> xo_pc_do_w (xs_out s') \<and> rb_wf (xs_pipe s') \<and> xs_hold_counter s' = 0 \<and>
    (\<forall>ps\<in>set (in_flight s'). \<not> i_injected (xp_op ps)) \<and> length (in_flight s') = length (in_flight s)"
  using assms
proof (induction "is" arbitrary: pre post s os)
  case (Cons i "is")
  from Cons.prems(4) obtain s1 os' where s: "exec_thread_lt F C sb r i s = Inr s1"
    "runE (exec_step F C sb r) is s1 = Inr (os', s')" "os = xs_out s1 # os'" unfolding run_Cons_iff by blast
  have i: "shadow_input i" using Cons.prems(2) by simp
  have len: "length (in_flight s1) = length (in_flight s)"
  proof -
    have "rb_wf (xs_pipe s)" "xs_hold_counter s = 0" using Cons.prems(1) by (simp_all add: behind_jump_def)
    then obtain x where "in_flight s1 = tl (flushed i s @ [x])" by (rule exec_cycle[OF s(1)])
    then show ?thesis by simp
  qed
  show ?case
  proof (cases pre)
    case Nil
    with Cons.prems(3) have "is = []" by simp
    with s(2) have e: "s' = s1" "os' = []" by simp_all
    show ?thesis using behind_jump_commit[OF Cons.prems(1)[unfolded Nil] i s(1)] len by (simp only: e s(3) last.simps if_True simp_thms)
  next
    case pr: (Cons p pre')
    with Cons.prems(1) obtain x where b: "behind_jump pc pre' (post @ [x]) s1"
      using behind_jump_step[OF _ i s(1)] by blast
    have "length is = Suc (length pre')" "\<forall>i\<in>set is. shadow_input i" using Cons.prems(2,3) pr by simp_all
    from Cons.IH[OF b this(2,1) s(2)] have "xo_pc_do_w (last os') \<and> xo_pc_w (last os') = pc \<and> xo_pc_do_w (xs_out s') \<and>
      rb_wf (xs_pipe s') \<and> xs_hold_counter s' = 0 \<and> (\<forall>ps\<in>set (in_flight s'). \<not> i_injected (xp_op ps)) \<and>
      length (in_flight s') = length (in_flight s1)" .
    moreover have "os' \<noteq> []" using run_length[OF s(2)] \<open>length is = Suc (length pre')\<close> by auto
    then have "last os = last os'" by (simp add: s(3))
    ultimately show ?thesis unfolding len by (elim conjE) simp
  qed
qed simp

text \<open>The cycle after the commit flushes: everything in flight and the instruction that enters are quiet.\<close>

lemma flush_cycle:
  assumes "exec_thread_lt F C sb r i s = Inr s'" "rb_wf (xs_pipe s)" "xs_hold_counter s = 0" "xo_pc_do_w (xs_out s)"
    "\<forall>ps\<in>set (in_flight s). \<not> i_injected (xp_op ps)" "\<not> i_injected (xi_insn i)"
  shows "out_quiet (xs_out s') \<and> quiet_for (length (in_flight s)) s'"
proof -
  have f: "flush i s" using assms(4) by (simp add: flush_def)
  then have dead: "i_dead (accepted i s)" using assms(6) by (simp add: accepted_def kill_def)
  then have h: "hold_after i s = 0" by (simp add: hold_after_def)
  obtain x where x: "fresh_stage C i s x" "commits C s (hd (flushed i s @ [x])) s'" "in_flight s' = tl (flushed i s @ [x])"
    by (rule exec_cycle[OF assms(1-3)]) (use h in auto)
  have "stage_quiet x" using x(1) dead by (simp add: fresh_stage_def Let_def)
  then have q: "\<forall>ps\<in>set (flushed i s @ [x]). stage_quiet ps"
    using f assms(5) by (auto simp: flushed_def stage_quiet_invalidate_elem)
  then have "stage_quiet (hd (flushed i s @ [x]))" by (cases "flushed i s") auto
  moreover have "\<forall>ps\<in>set (in_flight s'). stage_quiet ps" using q x(3) by (cases "flushed i s") auto
  moreover have "length (in_flight s') = length (in_flight s)" using x(3) by simp
  ultimately show ?thesis using x(2) by (auto simp: quiet_for_def out_quiet_commit commits_def)
qed

text \<open>
  C25. The shadow of a jump is squashed, as far as it holds neither divisions nor injected instructions and its work-groups have active
  threads. Take a stage of \<open>n\<close> cycles that is not
  held, with no jump in flight, and let an instruction enter that redirects the program counter (a jump, a taken conditional jump,
  the last column of a call or a pop, a load or store). Its commit \<open>n - 1\<close> cycles later sends the program counter where it should; and
  whatever entered behind it until then, and the instruction of the cycle after, writes neither a program counter nor a register nor a
  column mask, does nothing to the control stack, pushes no descriptor, kicks off no transfer and requests no state of a work-group. The
  signal of a committed exit is not among these: a squashed exit still drives it. A division in the shadow is not squashed, see
  \<open>jump_shadow_division\<close>.
\<close>

theorem jump_shadow_squashed:
  assumes "rb_wf (xs_pipe s)" "rb_entries (xs_pipe s) = n" "2 \<le> n" "xs_hold_counter s = 0" "\<not> xo_pc_do_w (xs_out s)"
    "\<forall>ps\<in>set (in_flight s). \<not> xp_pc_do_w ps"
    "redirects j (xi_insn j)" "\<not> i_dead (xi_insn j)" "xi_thread_active j (xi_wg j)"
    "length sh = n - 1" "\<forall>i\<in>set sh. shadow_input i" "\<not> i_injected (xi_insn k)" "length later = n - 1"
    "runE (exec_step F C sb r) (j # sh @ k # later) s = Inr (os, s')"
  shows "xo_pc_do_w (os ! (n - 1)) \<and> xo_pc_w (os ! (n - 1)) = redirect_pc C j (xi_insn j) \<and> (\<forall>c. n \<le> c \<and> c < 2 * n \<longrightarrow> out_quiet (os ! c))"
proof -
  from assms(14) obtain s1 os1 where s1: "exec_thread_lt F C sb r j s = Inr s1"
    and r1: "runE (exec_step F C sb r) (sh @ k # later) s1 = Inr (os1, s')" and os: "os = xs_out s1 # os1"
    unfolding run_Cons_iff by blast
  from r1 obtain s2 os2 os3 where r2: "runE (exec_step F C sb r) sh s1 = Inr (os2, s2)"
    and r3: "runE (exec_step F C sb r) (k # later) s2 = Inr (os3, s')" and os1: "os1 = os2 @ os3"
    unfolding run_append_iff by blast
  have nd: "\<not> is_division (xi_insn j)" using assms(7) by (auto simp: redirects_def is_division_def ldst_iff)
  obtain x where x: "fresh_stage C j s x" "xp_op x = xi_insn j" "commits C s (hd (in_flight s @ [x])) s1"
    "in_flight s1 = tl (in_flight s @ [x])" "xs_hold_counter s1 = 0"
    by (rule plain_cycle[OF s1 assms(1,4,5,9)]) (use nd in auto)
  have ne: "in_flight s \<noteq> []" "length (in_flight s) = n - 1" using assms(2,3) by (auto simp flip: length_0_conv)
  have "accepted j s = xi_insn j" using assms(5,9) by (simp add: accepted_def flush_def)
  then have xj: "xp_pc_do_w x" "xp_pc_w x = redirect_pc C j (xi_insn j)"
    using x(1) assms(7,8) by (auto simp: fresh_stage_def Let_def)
  have b: "behind_jump (redirect_pc C j (xi_insn j)) (tl (in_flight s)) [] s1"
    using x xj ne assms(6) by (auto simp: behind_jump_def commits_def commit_outputs_def dest: list.set_sel(2))
  have l: "length sh = Suc (length (tl (in_flight s)))" using assms(3,10) ne by simp
  note J = behind_jump_run[OF b assms(11) l r2]
  have len2: "length os2 = n - 1" "length os1 = length os2 + length os3" "length os3 = n"
    using run_length[OF r2] run_length[OF r3] assms(3,10,13) os1 by auto
  have "os2 \<noteq> []" using len2 assms(3) by auto
  then have lst: "os ! (n - 1) = last os2"
    using len2 assms(3) by (simp add: os os1 nth_Cons' nth_append last_conv_nth)
  from r3 obtain s3 os4 where s3: "exec_thread_lt F C sb r k s2 = Inr s3"
    and r4: "runE (exec_step F C sb r) later s3 = Inr (os4, s')" and os3: "os3 = xs_out s3 # os4" unfolding run_Cons_iff by blast
  have "length (in_flight s2) = n - 1" using J ne(2) x(4) by simp
  with flush_cycle[OF s3] J assms(12) have "out_quiet (xs_out s3) \<and> quiet_for (n - 1) s3" by simp
  then have "\<forall>out\<in>set os3. out_quiet out"
    using quiet_run[OF _ _ r4, of "n - 1"] assms(13) by (simp add: os3)
  then have "out_quiet (os ! c)" if "n \<le> c \<and> c < 2 * n" for c
  proof -
    have "os ! c = os3 ! (c - n)" using that len2 assms(3) by (auto simp: os os1 nth_Cons' nth_append)
    moreover have "c - n < length os3" using that len2 by linarith
    ultimately show ?thesis using \<open>\<forall>out\<in>set os3. out_quiet out\<close> by simp
  qed
  then show ?thesis using J lst by presburger
qed

subsection \<open>Runs that return\<close>

definition ready :: "ex_cfg \<Rightarrow> exec_inputs \<Rightarrow> bool" where
  "ready C i \<longleftrightarrow> well_typed (xi_insn i) \<and> operand_ok (i_dst (xi_insn i)) \<and> \<not> no_result C i (xi_insn i)"

lemma kill_sel [simp]: "i_op (kill op) = i_op op" "i_dst (kill op) = i_dst op" "i_subop (kill op) = i_subop op"
  by (simp_all add: kill_def)

lemma well_typed_kill [simp]: "well_typed (kill op) = well_typed op"
  by (simp add: kill_def well_typed_def valid_src_def)

lemma exec_returns:
  assumes "ready C i" "0 < x_LANES C"
  shows "\<exists>s'. exec_thread_lt F C None r i s = Inr s'"
proof -
  have c: "\<exists>s'. commit C None r ps s = Inr s'" for ps s
    by (auto simp: commit_def debug_sb_contains_reg_def Let_def)
  have "\<exists>s'. exec_accept F C i s = Inr s'"
  proof -
    let ?op = "accepted i s"
    have op: "well_typed ?op" "operand_ok (i_dst ?op)" "\<not> no_result C i ?op"
      using assms(1) by (auto simp: ready_def accepted_def no_result_def)
    obtain ps where "setWrite i ?op ((IExecute_pipe (xi_wg i))\<lparr>xp_op := ?op\<rparr>) = Inr ps" using setWrite_ok[OF op(1,2)] by blast
    then show ?thesis
      using doExecute_iff[OF op(2) assms(2), of F i] op(3) by (auto simp: exec_accept_def Let_def bindE_Inr_iff accepted_def)
  qed
  then obtain s1 where "(if xs_hold_counter s = 0 then exec_accept F C i s else Inr s) = Inr s1" by (cases "xs_hold_counter s = 0") auto
  with c show ?thesis by (auto simp: exec_thread_lt_def split: prod.split)
qed

lemma run_returns:
  "\<forall>i\<in>set is. ready C i \<Longrightarrow> 0 < x_LANES C \<Longrightarrow> \<exists>os s'. runE (exec_step F C None r) is s = Inr (os, s')"
proof (induction "is" arbitrary: s)
  case (Cons i "is")
  then obtain s1 where "exec_thread_lt F C None r i s = Inr s1" using exec_returns[of C i F r s] by auto
  moreover obtain os' s' where "runE (exec_step F C None r) is s1 = Inr (os', s')" using Cons.IH[of s1] Cons.prems by auto
  ultimately show ?case unfolding run_Cons_iff by blast
qed simp

text \<open>The stage after reset, and a jump, a division and an addition.\<close>

definition fresh_exec :: exec where
  "fresh_exec = projr (IExecute (\<lambda>_. WG_STATE_NONE) False)"

lemma fresh_exec:
  "rb_wf (xs_pipe fresh_exec)" "rb_entries (xs_pipe fresh_exec) = 3" "xs_hold_counter fresh_exec = 0"
  "xs_out fresh_exec = exec_outputs_init" "\<forall>ps\<in>set (in_flight fresh_exec). \<not> xp_pc_do_w ps"
proof -
  obtain p where p: "resize 3 (IExecute_pipe_default (\<lambda>_. WG_STATE_NONE)) = Inr p" by (simp add: resize_def)
  then have x: "xs_pipe fresh_exec = p" "xs_hold_counter fresh_exec = 0" "xs_out fresh_exec = exec_outputs_init"
    by (simp_all add: fresh_exec_def IExecute_def reset_cstack_entry_def)
  then show "rb_wf (xs_pipe fresh_exec)" using rb_wf_resize[OF p] by simp
  show "rb_entries (xs_pipe fresh_exec) = 3" using p x by (auto simp: resize_def)
  show "xs_hold_counter fresh_exec = 0" "xs_out fresh_exec = exec_outputs_init" by (rule x)+
  show "\<forall>ps\<in>set (in_flight fresh_exec). \<not> xp_pc_do_w ps"
    by (simp add: x rb_pending_resize[OF p] IExecute_pipe_default_def)
qed

definition sgpr :: "u32 \<Rightarrow> Operand" where
  "sgpr k = Operand_none\<lparr>o_type := OPERAND_REG, o_rtype := REGISTER_SGPR, o_payload := k\<rparr>"

definition jump_insn :: Instruction where
  "jump_insn = (Instruction_default 0)\<lparr>i_op := OP_J, i_srcs := 1, i_src := [Operand_imm 40, Operand_none, Operand_none], i_dead := False\<rparr>"

definition sidiv_insn :: Instruction where
  "sidiv_insn = (Instruction_default 0)\<lparr>i_op := OP_SIDIV, i_dst := sgpr 1, i_srcs := 2, i_src := [sgpr 2, sgpr 3, Operand_none], i_dead := False\<rparr>"

lemma jump_insn_simps [simp]:
  "i_op jump_insn = OP_J" "\<not> i_dead jump_insn" "\<not> i_injected jump_insn" "i_dst jump_insn = Operand_none" "i_srcs jump_insn = 1"
  "i_src jump_insn = [Operand_imm 40, Operand_none, Operand_none]"
  by (simp_all add: jump_insn_def Instruction_default_def)

lemma sidiv_insn_simps [simp]:
  "i_op sidiv_insn = OP_SIDIV" "\<not> i_dead sidiv_insn" "\<not> i_injected sidiv_insn" "i_dst sidiv_insn = sgpr 1" "i_srcs sidiv_insn = 2"
  "i_src sidiv_insn = [sgpr 2, sgpr 3, Operand_none]"
  by (simp_all add: sidiv_insn_def Instruction_default_def)

lemma insn_inputs_simps [simp]:
  "xi_insn (insn_inputs pc op v) = op" "xi_wg (insn_inputs pc op v) = 0" "xi_thread_active (insn_inputs pc op v) w"
  "xi_operand (insn_inputs pc op v) = v" "xi_col_w (insn_inputs pc op v) = 0"
  by (simp_all add: insn_inputs_def)

lemma iadd_alive [simp]: "\<not> i_injected (iadd_v1_v2 t)" "\<not> i_dead (iadd_v1_v2 t)"
  by (simp_all add: iadd_v1_v2_def Instruction_default_def)

abbreviation "add_in \<equiv> insn_inputs 1 (iadd_v1_v2 REGISTER_SGPR) (\<lambda>_ _. 7)"
abbreviation "jump_in \<equiv> insn_inputs 0 jump_insn (\<lambda>_ _. 40)"
abbreviation "sidiv_in \<equiv> insn_inputs 1 sidiv_insn (\<lambda>_ _. 7)"

lemma add_ready: "ready tiny_ex add_in"
  by (simp add: ready_def iadd_v1_v2_valid flip: validate_iff) (simp add: iadd_v1_v2_simps operand_ok_def no_result_def)

lemma jump_ready: "ready tiny_ex jump_in"
proof -
  have "valid_src jump_insn 0"
    by (simp add: valid_src_def op_validate_def op_validate_table ISAOpSpec_def Operand_imm_def)
  then have "well_typed jump_insn"
    by (simp add: well_typed_def op_validate_def op_validate_table ISAOpSpec_def Operand_none_def)
  then show ?thesis by (simp add: ready_def operand_ok_def no_result_def Operand_none_def)
qed

lemma sidiv_ready: "ready tiny_ex sidiv_in"
proof -
  have "valid_src sidiv_insn 0" "valid_src sidiv_insn 1"
    by (simp_all add: valid_src_def op_validate_def op_validate_table ISAOpSpec_def sgpr_def)
  then have "well_typed sidiv_insn"
    by (simp add: well_typed_def op_validate_def op_validate_table ISAOpSpec_def sgpr_def All_less_Suc numeral_2_eq_2)
  then show ?thesis by (simp add: ready_def operand_ok_def no_result_def sgpr_def div_undefined_def)
qed

lemma shadow_add: "shadow_input add_in"
  by (simp add: shadow_input_def is_division_def iadd_v1_v2_simps)

lemma tiny_lanes: "0 < x_LANES tiny_ex"
  by (simp add: tiny_ex_def)

lemma jump_shadow_squashed_witness:
  "\<forall>F. \<exists>os s'. runE (exec_step F tiny_ex None True) (jump_in # replicate 5 add_in) fresh_exec = Inr (os, s') \<and>
     xo_pc_do_w (os ! 2) \<and> xo_pc_w (os ! 2) = 40 \<and> out_quiet (os ! 3) \<and> out_quiet (os ! 4) \<and> out_quiet (os ! 5)"
proof
  fix F
  let ?is = "jump_in # [add_in, add_in] @ add_in # [add_in, add_in]"
  have e: "jump_in # replicate 5 add_in = ?is" by (simp add: numeral_eq_Suc)
  have "\<forall>i\<in>set ?is. ready tiny_ex i" using add_ready jump_ready by simp
  then obtain os s' where r: "runE (exec_step F tiny_ex None True) ?is fresh_exec = Inr (os, s')"
    using run_returns tiny_lanes by blast
  have "redirects jump_in (xi_insn jump_in)" "redirect_pc tiny_ex jump_in (xi_insn jump_in) = 40"
    by (simp_all add: redirects_def redirect_pc_def ldst_iff pc_trunc_def tiny_ex_def)
  moreover have "\<not> xo_pc_do_w (xs_out fresh_exec)" by (simp add: fresh_exec(4) exec_outputs_init_def)
  ultimately have "xo_pc_do_w (os ! (3 - 1)) \<and> xo_pc_w (os ! (3 - 1)) = 40 \<and> (\<forall>c. 3 \<le> c \<and> c < 2 * 3 \<longrightarrow> out_quiet (os ! c))"
    using jump_shadow_squashed[OF fresh_exec(1,2) _ fresh_exec(3) _ fresh_exec(5) _ _ _ _ _ _ _ r] shadow_add by simp
  then show "\<exists>os s'. runE (exec_step F tiny_ex None True) (jump_in # replicate 5 add_in) fresh_exec = Inr (os, s') \<and>
     xo_pc_do_w (os ! 2) \<and> xo_pc_w (os ! 2) = 40 \<and> out_quiet (os ! 3) \<and> out_quiet (os ! 4) \<and> out_quiet (os ! 5)"
    using r unfolding e by auto
qed

subsection \<open>A division behind a jump\<close>

lemma held_step:
  assumes "exec_thread_lt F C sb r i s = Inr s'" "rb_wf (xs_pipe s)" "0 < xs_hold_counter s" "in_flight s = [p, q]"
  shows "xs_hold_counter s' = xs_hold_counter s - 1" "xs_sidebuf s' = xs_sidebuf s" "rb_wf (xs_pipe s')"
    "in_flight s' = [q, if xs_hold_counter s = 1 then xs_sidebuf s else IExecute_pipe (xi_wg i)]" "xs_out s' = commit_outputs C p (xs_out s)"
  using held_cycle[OF assms(1,2)] assms(3,4) by (auto simp: commits_def max_def)

text \<open>
  C31. A division that enters a stage of three cycles right behind a jump is not squashed: the jump commits while the
  divider holds the stage, so nothing sees the flush, and five cycles after the jump the division writes its
  destination register.
\<close>

theorem jump_shadow_division:
  assumes "rb_wf (xs_pipe s)" "rb_entries (xs_pipe s) = 3" "xs_hold_counter s = 0" "\<not> xo_pc_do_w (xs_out s)"
    "\<forall>ps\<in>set (in_flight s). \<not> xp_pc_do_w ps"
    "redirects j (xi_insn j)" "\<not> i_dead (xi_insn j)" "xi_thread_active j (xi_wg j)"
    "is_division (xi_insn d)" "\<not> i_dead (xi_insn d)" "hasDst (xi_insn d)" "xi_thread_active d (xi_wg d)"
    "length held = 4" "xi_thread_active a (xi_wg a)" "xi_thread_active b (xi_wg b)"
    "runE (exec_step F C sb r) (j # d # held @ [a, b]) s = Inr (os, s')"
  shows "xo_pc_do_w (os ! 2) \<and> xo_w (os ! 7) \<and>
    getRegister_wg (i_dst (xi_insn d)) (xi_wg d) (xi_col_w d) = Inr (xo_req_w (os ! 7))"
proof -
  obtain h1 h2 h3 h4 where held: "held = [h1, h2, h3, h4]" using assms(13) by (auto simp: numeral_eq_Suc length_Suc_conv)
  from assms(16) obtain s0 s1 s2 s3 s4 s5 s6 where c: "exec_thread_lt F C sb r j s = Inr s0" "exec_thread_lt F C sb r d s0 = Inr s1"
    "exec_thread_lt F C sb r h1 s1 = Inr s2" "exec_thread_lt F C sb r h2 s2 = Inr s3" "exec_thread_lt F C sb r h3 s3 = Inr s4"
    "exec_thread_lt F C sb r h4 s4 = Inr s5" "exec_thread_lt F C sb r a s5 = Inr s6" "exec_thread_lt F C sb r b s6 = Inr s'"
    and os: "os = map xs_out [s0, s1, s2, s3, s4, s5, s6, s']"
    unfolding held append_Cons append_Nil run_Cons_iff by auto
  have "length (in_flight s) = 2" using assms(2) by simp
  then obtain p q where pq: "in_flight s = [p, q]" by (auto simp: numeral_2_eq_2 length_Suc_conv simp del: rb_pending_length)
  have nd: "\<not> is_division (xi_insn j)" using assms(6) by (auto simp: redirects_def is_division_def ldst_iff)
  obtain x where x: "fresh_stage C j s x" "commits C s (hd (in_flight s @ [x])) s0" "in_flight s0 = tl (in_flight s @ [x])"
    "xs_hold_counter s0 = 0" by (rule plain_cycle[OF c(1) assms(1,3,4,8)]) (use nd in auto)
  have "accepted j s = xi_insn j" using assms(4,8) by (simp add: accepted_def flush_def)
  then have xj: "xp_pc_do_w x" using x(1) assms(6,7) by (simp add: fresh_stage_def Let_def)
  have s0: "rb_wf (xs_pipe s0)" "in_flight s0 = [q, x]" "rb_entries (xs_pipe s0) = 3" "\<not> xo_pc_do_w (xs_out s0)"
  proof -
    have c: "commits C s p s0" using x(2) by (simp add: pq)
    then show "rb_wf (xs_pipe s0)" "rb_entries (xs_pipe s0) = 3" using assms(2) by (simp_all add: commits_def)
    show "in_flight s0 = [q, x]" using x(3) by (simp add: pq)
    have "\<not> xp_pc_do_w p" using assms(5) by (simp add: pq)
    with c show "\<not> xo_pc_do_w (xs_out s0)" by (simp add: commits_def commit_outputs_def)
  qed
  have ad: "\<not> flush d s0" "accepted d s0 = xi_insn d" using s0(4) assms(12) by (simp_all add: accepted_def flush_def)
  then have h: "hold_after d s0 = 4" using s0(3) assms(9,10) by (simp add: hold_after_def)
  obtain y where s1: "xs_hold_counter s1 = 4" "fresh_stage C d s0 (xs_sidebuf s1)" "in_flight s1 = [x, y]" "rb_wf (xs_pipe s1)"
  proof (rule exec_cycle[OF c(2) s0(1) x(4)])
    fix z assume "commits C s0 (hd (flushed d s0 @ [z])) s1" "in_flight s1 = tl (flushed d s0 @ [z])" "xs_hold_counter s1 = hold_after d s0"
      "fresh_stage C d s0 (xs_sidebuf s1)"
    then show thesis using that[of z] h s0 ad by (simp add: flushed_def commits_def)
  qed
  let ?D = "xs_sidebuf s1"
  have cat: "sp_cat (op_validate (i_op (xi_insn d))) = CAT_ARITH_INT" using division_cat[OF assms(9)] .
  then have D: "xp_out_w ?D" "getRegister_wg (i_dst (xi_insn d)) (xi_wg d) (xi_col_w d) = Inr (xp_req_w ?D)"
    using s1(2) assms(9-11) ad(2) by (auto simp: fresh_stage_def Let_def is_division_def opCategory_def ldst_def)
  have s2: "xs_hold_counter s2 = 3" "xs_sidebuf s2 = ?D" "rb_wf (xs_pipe s2)" "in_flight s2 = [y, IExecute_pipe (xi_wg h1)]"
    "xo_pc_do_w (xs_out s2)"
    using held_step[OF c(3) s1(4) _ s1(3)] s1(1) xj by (simp_all add: commit_outputs_def)
  have s3: "xs_hold_counter s3 = 2" "xs_sidebuf s3 = ?D" "rb_wf (xs_pipe s3)" "in_flight s3 = [IExecute_pipe (xi_wg h1), IExecute_pipe (xi_wg h2)]"
    using held_step[OF c(4) s2(3) _ s2(4)] s2(1,2) by simp_all
  have s4: "xs_hold_counter s4 = 1" "xs_sidebuf s4 = ?D" "rb_wf (xs_pipe s4)" "in_flight s4 = [IExecute_pipe (xi_wg h2), IExecute_pipe (xi_wg h3)]"
    using held_step[OF c(5) s3(3) _ s3(4)] s3(1,2) by simp_all
  have s5: "xs_hold_counter s5 = 0" "rb_wf (xs_pipe s5)" "in_flight s5 = [IExecute_pipe (xi_wg h3), ?D]" "\<not> xo_pc_do_w (xs_out s5)"
    using held_step[OF c(6) s4(3) _ s4(4)] s4(1,2) by (simp_all add: commit_outputs_def IExecute_pipe_def IExecute_pipe_default_def)
  have na: "flushed a s5 = in_flight s5" using s5(4) assms(14) by (simp add: flushed_def flush_def)
  obtain z where s6: "in_flight s6 = [?D, z]" "\<not> xo_pc_do_w (xs_out s6)" "rb_wf (xs_pipe s6)"
    by (rule exec_cycle[OF c(7) s5(2,1)])
      (use that s5(3) na in \<open>simp add: commits_def commit_outputs_def IExecute_pipe_def IExecute_pipe_default_def\<close>)
  have "xs_out s' = commit_outputs C ?D (xs_out s6)"
  proof (cases "xs_hold_counter s6 = 0")
    case True
    have nb: "flushed b s6 = in_flight s6" using s6(2) assms(15) by (simp add: flushed_def flush_def)
    show ?thesis by (rule exec_cycle[OF c(8) s6(3) True]) (simp add: commits_def nb s6(1))
  next
    case False
    with held_cycle(1)[OF c(8) s6(3) False] s6(1) show ?thesis by (simp add: commits_def)
  qed
  then have "xo_w (os ! 7) \<and> xo_req_w (os ! 7) = xp_req_w ?D" using D(1) by (simp add: os commit_outputs_def)
  moreover have "xo_pc_do_w (os ! 2)" using s2(5) by (simp add: os numeral_2_eq_2)
  ultimately show ?thesis using D(2) by simp
qed

lemma jump_shadow_division_witness:
  "\<forall>F. \<exists>os s'. runE (exec_step F tiny_ex None True) (jump_in # sidiv_in # replicate 4 add_in @ [add_in, add_in]) fresh_exec = Inr (os, s') \<and>
     xo_pc_do_w (os ! 2) \<and> xo_w (os ! 7) \<and> xo_req_w (os ! 7) = Register 0 REGISTER_SGPR 1 0"
proof
  fix F
  let ?is = "jump_in # sidiv_in # replicate 4 add_in @ [add_in, add_in]"
  have "\<forall>i\<in>set ?is. ready tiny_ex i" using add_ready jump_ready sidiv_ready by simp
  then obtain os s' where r: "runE (exec_step F tiny_ex None True) ?is fresh_exec = Inr (os, s')"
    using run_returns tiny_lanes by blast
  have "redirects jump_in (xi_insn jump_in)" "is_division (xi_insn sidiv_in)" "hasDst (xi_insn sidiv_in)"
    by (simp_all add: redirects_def is_division_def hasDst_def sgpr_def)
  moreover have "\<not> xo_pc_do_w (xs_out fresh_exec)" by (simp add: fresh_exec(4) exec_outputs_init_def)
  ultimately have "xo_pc_do_w (os ! 2) \<and> xo_w (os ! 7) \<and>
      getRegister_wg (i_dst (xi_insn sidiv_in)) (xi_wg sidiv_in) (xi_col_w sidiv_in) = Inr (xo_req_w (os ! 7))"
    using jump_shadow_division[OF fresh_exec(1,2,3) _ fresh_exec(5) _ _ _ _ _ _ _ _ _ _ r] by simp
  moreover have "getRegister_wg (sgpr 1) 0 0 = Inr (Register 0 REGISTER_SGPR 1 0)"
    by (simp add: getRegister_wg_def sgpr_def)
  ultimately have "xo_pc_do_w (os ! 2) \<and> xo_w (os ! 7) \<and> xo_req_w (os ! 7) = Register 0 REGISTER_SGPR 1 0" by simp
  with r show "\<exists>os s'. runE (exec_step F tiny_ex None True) ?is fresh_exec = Inr (os, s') \<and>
     xo_pc_do_w (os ! 2) \<and> xo_w (os ! 7) \<and> xo_req_w (os ! 7) = Register 0 REGISTER_SGPR 1 0" by blast
qed

end
