(* ===== verification/Exec_Tickets.thy ===== *)
theory Exec_Tickets
  imports Exec_Jump
begin

text \<open>
  The tickets of the stride descriptors: a load or store takes the value of the counter when it is executed, the
  counter advances when it is committed. The invariant of the pipeline says that the load or store that will be
  committed next has the present value.
\<close>

text \<open>A load or store that no jump precedes will not be squashed; its ticket is \<open>t\<close>.\<close>

definition tickets_ok :: "exec_pipe list \<Rightarrow> int \<Rightarrow> bool" where
  "tickets_ok xs t \<longleftrightarrow> (\<forall>k<length xs. xp_store_target (xs ! k) \<noteq> IF_SENTINEL \<longrightarrow>
     xp_pc_do_w (xs ! k) \<and> ((\<forall>j<k. \<not> xp_pc_do_w (xs ! j)) \<longrightarrow> sd_ticket (xp_desc_fifo (xs ! k)) = t))"

definition no_transfer :: "exec_pipe \<Rightarrow> bool" where
  "no_transfer ps \<longleftrightarrow> xp_store_target ps = IF_SENTINEL"

definition ticket_inv :: "exec \<Rightarrow> bool" where
  "ticket_inv s \<longleftrightarrow> rb_wf (xs_pipe s) \<and> 2 \<le> rb_entries (xs_pipe s) \<and> xs_hold_counter s = 0 \<and>
     0 \<le> xs_ticket_push s \<and> xs_ticket_push s < 16 \<and>
     (\<forall>ps\<in>set (in_flight s). i_injected (xp_op ps) \<longrightarrow> no_transfer ps) \<and>
     (xo_pc_do_w (xs_out s) \<or> tickets_ok (in_flight s) (xs_ticket_push s))"

text \<open>The instructions the stage is fed: no division, and what the decoder injects is no load or store.\<close>

definition ticket_input :: "exec_inputs \<Rightarrow> bool" where
  "ticket_input i \<longleftrightarrow> (is_division (xi_insn i) \<longrightarrow> i_dead (xi_insn i)) \<and> (i_injected (xi_insn i) \<longrightarrow> \<not> ldst (xi_insn i))"

lemma tickets_ok_none: "\<forall>ps\<in>set xs. no_transfer ps \<Longrightarrow> tickets_ok xs t"
  by (auto simp: tickets_ok_def no_transfer_def)

lemma tickets_ok_shift:
  assumes "tickets_ok (y # xs) t" "\<not> xp_pc_do_w y" "xp_store_target x \<noteq> IF_SENTINEL \<longrightarrow> xp_pc_do_w x \<and> sd_ticket (xp_desc_fifo x) = t"
  shows "tickets_ok (xs @ [x]) t"
  unfolding tickets_ok_def
proof (intro allI impI)
  fix k assume k: "k < length (xs @ [x])" "xp_store_target ((xs @ [x]) ! k) \<noteq> IF_SENTINEL"
  show "xp_pc_do_w ((xs @ [x]) ! k) \<and> ((\<forall>j<k. \<not> xp_pc_do_w ((xs @ [x]) ! j)) \<longrightarrow> sd_ticket (xp_desc_fifo ((xs @ [x]) ! k)) = t)"
  proof (cases "k < length xs")
    case True
    have "xp_pc_do_w (xs ! k) \<and> ((\<forall>j<Suc k. \<not> xp_pc_do_w ((y # xs) ! j)) \<longrightarrow> sd_ticket (xp_desc_fifo (xs ! k)) = t)"
      using assms(1)[unfolded tickets_ok_def, rule_format, of "Suc k"] k True by (simp add: nth_append)
    then show ?thesis using True assms(2) by (auto simp: nth_append All_less_Suc2)
  next
    case False
    with k assms(3) show ?thesis by (simp add: nth_append)
  qed
qed

lemma no_transfer_invalidate: "no_transfer (invalidate ps)"
  by (simp add: no_transfer_def invalidate_def)

lemma stage_quiet_no_transfer: "stage_quiet ps \<Longrightarrow> no_transfer ps"
  by (simp add: stage_quiet_def no_transfer_def)

lemma fresh_no_transfer:
  assumes "fresh_stage C i s x" "ticket_input i" "flush i s \<or> i_injected (xp_op x)"
  shows "no_transfer x"
proof (cases "i_dead (accepted i s)")
  case True
  with assms(1) show ?thesis by (auto simp: fresh_stage_def Let_def stage_quiet_no_transfer)
next
  case False
  have "i_injected (xi_insn i)"
    using assms False by (auto simp: fresh_stage_def Let_def accepted_def kill_def split: if_splits)
  then have "\<not> ldst (accepted i s)" using assms(2) by (simp add: ticket_input_def accepted_def ldst_def)
  with assms(1) False show ?thesis by (simp add: fresh_stage_def Let_def no_transfer_def)
qed

text \<open>One cycle keeps the invariant, and a descriptor that is committed has the value of the counter.\<close>

lemma ticket_step:
  assumes "ticket_inv s" "ticket_input i" "exec_thread_lt F C sb r i s = Inr s'"
  shows "ticket_inv s' \<and> (case xo_desc_fifo (xs_out s') of
    None \<Rightarrow> xs_ticket_push s' = xs_ticket_push s
  | Some d \<Rightarrow> sd_ticket (snd d) = xs_ticket_push s \<and> xs_ticket_push s' = sc_uint 4 (xs_ticket_push s + 1))"
proof -
  from assms(1) have w: "rb_wf (xs_pipe s)" "xs_hold_counter s = 0" "2 \<le> rb_entries (xs_pipe s)" by (simp_all add: ticket_inv_def)
  have h: "hold_after i s = 0" using assms(2) by (auto simp: ticket_input_def hold_after_def accepted_def kill_def is_division_def)
  obtain x where x: "fresh_stage C i s x" "commits C s (hd (flushed i s @ [x])) s'" "in_flight s' = tl (flushed i s @ [x])"
    "xs_hold_counter s' = 0" by (rule exec_cycle[OF assms(3) w(1,2)]) (use h in auto)
  have "length (flushed i s) \<noteq> 0" using w(3) by simp
  then obtain y ys where f: "flushed i s = y # ys" by (cases "flushed i s") auto
  have c: "commits C s y s'" and fl: "in_flight s' = ys @ [x]" using x(2,3) by (simp_all add: f)
  have inj: "\<forall>ps\<in>set (y # ys). i_injected (xp_op ps) \<longrightarrow> no_transfer ps"
    using assms(1) unfolding f[symmetric] by (auto simp: ticket_inv_def flushed_def invalidate_elem_def no_transfer_invalidate)
  have injx: "i_injected (xp_op x) \<longrightarrow> no_transfer x" using fresh_no_transfer[OF x(1) assms(2)] by blast
  have key: "(no_transfer y \<or> sd_ticket (xp_desc_fifo y) = xs_ticket_push s \<and> xp_pc_do_w y) \<and>
     (xp_pc_do_w y \<or> tickets_ok (ys @ [x]) (xs_ticket_push s))"
  proof (cases "flush i s")
    case True
    have "\<forall>ps\<in>set (flushed i s). no_transfer ps"
      using assms(1) True by (auto simp: ticket_inv_def flushed_def invalidate_elem_def no_transfer_invalidate)
    moreover have "no_transfer x" using fresh_no_transfer[OF x(1) assms(2)] True by blast
    ultimately show ?thesis using f tickets_ok_none[of "ys @ [x]"] by auto
  next
    case False
    then have t: "tickets_ok (y # ys) (xs_ticket_push s)" using assms(1) f by (simp add: ticket_inv_def flush_def flushed_def)
    have "no_transfer y \<or> sd_ticket (xp_desc_fifo y) = xs_ticket_push s \<and> xp_pc_do_w y"
      using t[unfolded tickets_ok_def, rule_format, of 0] by (auto simp: no_transfer_def)
    moreover have "xp_store_target x \<noteq> IF_SENTINEL \<longrightarrow> xp_pc_do_w x \<and> sd_ticket (xp_desc_fifo x) = xs_ticket_push s"
      using x(1) by (cases "i_dead (accepted i s)") (auto simp: fresh_stage_def Let_def stage_quiet_def redirects_def)
    ultimately show ?thesis using tickets_ok_shift[OF t] by blast
  qed
  have tr: "0 \<le> xs_ticket_push s'" "xs_ticket_push s' < 16"
    using c assms(1) sc_uint_bounds[of 4 "xs_ticket_push s + 1"] by (auto simp: commits_def ticket_inv_def)
  have "ticket_inv s'"
    using c key inj injx w x(4) tr fl by (auto simp: ticket_inv_def commits_def commit_outputs_def no_transfer_def)
  moreover have "case xo_desc_fifo (xs_out s') of None \<Rightarrow> xs_ticket_push s' = xs_ticket_push s
    | Some d \<Rightarrow> sd_ticket (snd d) = xs_ticket_push s \<and> xs_ticket_push s' = sc_uint 4 (xs_ticket_push s + 1)"
    using c key by (auto simp: commits_def commit_outputs_def no_transfer_def)
  ultimately show ?thesis ..
qed

text \<open>The descriptors a run hands out, in order.\<close>

primrec descs :: "exec_outputs list \<Rightarrow> stride_descriptor list" where
  "descs [] = []"
| "descs (out # os) = (case xo_desc_fifo out of None \<Rightarrow> descs os | Some d \<Rightarrow> snd d # descs os)"

lemma sc_uint_add: "sc_uint n (sc_uint n a + b) = sc_uint n (a + b)"
  by (simp add: sc_uint_def mod_simps)

text \<open>
  The descriptors that the stage hands to the memories carry consecutive tickets, in the order they are handed out, for
  every stream of instructions without a live \<open>SIDIV\<close> or \<open>SIMOD\<close> and without injected loads and stores: no squashed load or store takes a ticket
  away, and no two that are carried out share one. A division is left out because the cycles in which it holds the stage skip the flush.
\<close>

lemma tickets_consecutive:
  assumes "ticket_inv s" "\<forall>i\<in>set is. ticket_input i" "runE (exec_step F C sb r) is s = Inr (os, s')"
  shows "map sd_ticket (descs os) = map (\<lambda>k. (xs_ticket_push s + int k) mod 16) [0..<length (descs os)] \<and> ticket_inv s'"
  using assms
proof (induction "is" arbitrary: s os)
  case Nil
  then show ?case by simp
next
  case (Cons i "is")
  from Cons.prems(3) obtain s1 os' where s: "exec_thread_lt F C sb r i s = Inr s1"
    "runE (exec_step F C sb r) is s1 = Inr (os', s')" "os = xs_out s1 # os'" unfolding run_Cons_iff by blast
  have "ticket_input i" "\<forall>i\<in>set is. ticket_input i" using Cons.prems(2) by simp_all
  note st = ticket_step[OF Cons.prems(1) this(1) s(1)]
  have IH: "map sd_ticket (descs os') = map (\<lambda>k. (xs_ticket_push s1 + int k) mod 16) [0..<length (descs os')]" "ticket_inv s'"
    using Cons.IH[OF _ \<open>\<forall>i\<in>set is. ticket_input i\<close> s(2)] st by simp_all
  have t: "0 \<le> xs_ticket_push s" "xs_ticket_push s < 16" using Cons.prems(1) by (simp_all add: ticket_inv_def)
  show ?case
  proof (cases "xo_desc_fifo (xs_out s1)")
    case None
    with st IH show ?thesis by (simp add: s(3))
  next
    case (Some d)
    have "map (\<lambda>k. (xs_ticket_push s1 + int k) mod 16) [0..<m] = map (\<lambda>k. (xs_ticket_push s + int k) mod 16) [1..<Suc m]" for m
      using st Some by (auto intro!: nth_equalityI simp: sc_uint_def mod_simps algebra_simps simp del: upt_Suc)
    then show ?thesis
      using st Some IH t by (simp add: s(3) upt_conv_Cons del: upt_Suc)
  qed
qed

text \<open>A stage that is fed scalar loads, one a cycle, from reset.\<close>

definition sldg_insn :: Instruction where
  "sldg_insn = (Instruction_default 0)\<lparr>i_op := OP_SLDG, i_dst := sgpr 1, i_srcs := 1, i_src := [Operand_imm 0, Operand_none, Operand_none],
     i_dead := False\<rparr>"

abbreviation "sldg_in \<equiv> insn_inputs 1 sldg_insn (\<lambda>_ _. 1)"

lemma sldg_insn_simps [simp]:
  "i_op sldg_insn = OP_SLDG" "\<not> i_injected sldg_insn" "i_dst sldg_insn = sgpr 1" "i_srcs sldg_insn = 1"
  "i_src sldg_insn = [Operand_imm 0, Operand_none, Operand_none]"
  by (simp_all add: sldg_insn_def Instruction_default_def)

lemma sldg_ready: "ready tiny_ex sldg_in"
proof -
  have "valid_src sldg_insn 0" "valid_src sldg_insn 1"
    by (simp_all add: valid_src_def op_validate_def op_validate_table ISAOpSpec_def Operand_imm_def)
  then have "well_typed sldg_insn"
    by (simp add: well_typed_def op_validate_def op_validate_table ISAOpSpec_def sgpr_def All_less_Suc numeral_2_eq_2)
  then show ?thesis by (simp add: ready_def operand_ok_def no_result_def sgpr_def)
qed

lemma ticket_inv_fresh: "ticket_inv fresh_exec" "xs_ticket_push fresh_exec = 0"
proof -
  obtain p where p: "resize 3 (IExecute_pipe_default (\<lambda>_. WG_STATE_NONE)) = Inr p" by (simp add: resize_def)
  then have x: "xs_pipe fresh_exec = p" "xs_ticket_push fresh_exec = 0"
    by (simp_all add: fresh_exec_def IExecute_def reset_cstack_entry_def)
  then show "xs_ticket_push fresh_exec = 0" by simp
  have "\<forall>ps\<in>set (in_flight fresh_exec). no_transfer ps"
    by (simp add: x rb_pending_resize[OF p] IExecute_pipe_default_def no_transfer_def)
  then show "ticket_inv fresh_exec"
    using fresh_exec x(2) by (auto simp: ticket_inv_def intro: tickets_ok_none)
qed

lemma tickets_consecutive_witness:
  "\<forall>F. \<exists>os s'. runE (exec_step F tiny_ex None True) (replicate 9 sldg_in) fresh_exec = Inr (os, s') \<and>
     map sd_ticket (descs os) = map (\<lambda>k. int k mod 16) [0..<length (descs os)]"
proof
  fix F
  have "\<forall>i\<in>set (replicate 9 sldg_in). ready tiny_ex i" using sldg_ready by simp
  then obtain os s' where r: "runE (exec_step F tiny_ex None True) (replicate 9 sldg_in) fresh_exec = Inr (os, s')"
    using run_returns tiny_lanes by blast
  have "\<forall>i\<in>set (replicate 9 sldg_in). ticket_input i" by (simp add: ticket_input_def is_division_def)
  from tickets_consecutive[OF ticket_inv_fresh(1) this r]
  have "map sd_ticket (descs os) = map (\<lambda>k. int k mod 16) [0..<length (descs os)]" by (simp add: ticket_inv_fresh(2))
  with r show "\<exists>os s'. runE (exec_step F tiny_ex None True) (replicate 9 sldg_in) fresh_exec = Inr (os, s') \<and>
     map sd_ticket (descs os) = map (\<lambda>k. int k mod 16) [0..<length (descs os)]" by blast
qed

end
