(* ===== verification/Exec_Tile.thy ===== *)
theory Exec_Tile
  imports Exec_Aborts
begin

text \<open>
  The descriptors of tiles: which words of the DRAM buffer and of the scratchpad buffer a transfer names. Word \<open>w\<close> of
  period \<open>p\<close> lies \<open>p\<close> periods and \<open>w\<close> words behind the start of a descriptor.
\<close>

definition src_addr :: "stride_descriptor \<Rightarrow> int \<Rightarrow> int \<Rightarrow> int" where
  "src_addr sd p w = sd_addr sd + 4 * (p * sd_period sd + w)"

definition dst_addr :: "stride_descriptor \<Rightarrow> int \<Rightarrow> int \<Rightarrow> int" where
  "dst_addr sd p w = sd_dst_offset sd + 4 * (p * sd_dst_period sd + w)"

definition tile_bufs :: "exec_inputs \<Rightarrow> int \<Rightarrow> int \<Rightarrow> int \<Rightarrow> int \<Rightarrow> bool" where
  "tile_bufs i bx by sx sy \<longleftrightarrow>
    bx = uint (buf_dim_x (xi_xlat_phys i)) \<and> by = uint (buf_dim_y (xi_xlat_phys i)) \<and>
    sx = uint (buf_dim_x (xi_sp_xlat_phys i)) \<and> sy = uint (buf_dim_y (xi_sp_xlat_phys i)) \<and>
    0 < bx \<and> 0 < by \<and> 0 < sx \<and> 0 < sy \<and> bx < 2 ^ 20 \<and> by < 2 ^ 20 \<and> sx < 2 ^ 20 \<and> sy < 2 ^ 20 \<and>
    uint (buf_addr (xi_xlat_phys i)) + 4 * (bx * by) \<le> 2 ^ 32 \<and> uint (buf_addr (xi_sp_xlat_phys i)) + 4 * (sx * sy) \<le> 2 ^ 32"

lemma clipped:
  assumes "0 \<le> d" "d < 2 ^ 20" "0 \<le> s" "s < 2 ^ 20" "off < d" "0 < off + s" "m = sc_uint 20 (min s (sc_uint 32 (d - off)))"
  shows "(if off < 0 then sc_uint 20 (m + off) else m) = min (off + s) d - max off 0"
proof -
  have r: "0 < d - off" "d - off < 2 ^ 32" using assms(1-6) by simp_all
  then have "m = min s (d - off)" using assms by (simp add: sc_uint_def)
  with assms r show ?thesis by (auto simp: sc_uint_def min_def max_def)
qed

lemma index_bound:
  assumes "0 \<le> (y::int)" "y < h" "0 \<le> x" "x < w"
  shows "0 \<le> y * w + x" "y * w + x < w * h"
proof -
  have "0 \<le> y * w" using assms by (intro mult_nonneg_nonneg) simp_all
  then show "0 \<le> y * w + x" using assms by simp
  have "(y + 1) * w \<le> h * w" using assms by (intro mult_right_mono) simp_all
  then show "y * w + x < w * h" using assms by (simp add: algebra_simps)
qed

lemma tile_fields:
  assumes t: "tile_bufs i bx by sx sy" and o: "ox = sint (op1 i 0)" "oy = sint (op2 i 0)" "ox < bx" "0 < ox + sx" "oy < by" "0 < oy + sy"
  shows "sd_words (sd_LDSPG2SPTILE i op) = min (ox + sx) bx - max ox 0" "sd_period_count (sd_LDSPG2SPTILE i op) = min (oy + sy) by - max oy 0"
    "sd_period (sd_LDSPG2SPTILE i op) = bx" "sd_dst_period (sd_LDSPG2SPTILE i op) = sx"
    "sd_addr (sd_LDSPG2SPTILE i op) = uint (buf_addr (xi_xlat_phys i)) + 4 * (max oy 0 * bx + max ox 0)"
    "sd_dst_offset (sd_LDSPG2SPTILE i op) = uint (buf_addr (xi_sp_xlat_phys i)) + 4 * (max (- oy) 0 * sx + max (- ox) 0)"
proof -
  let ?sd = "sd_LDSPG2SPTILE i op" and ?b = "uint (buf_addr (xi_xlat_phys i))" and ?s = "uint (buf_addr (xi_sp_xlat_phys i))"
  have os: "sint (xi_operand i (Suc 0) 0) = ox" "sint (op2 i 0) = oy" using o(1,2) by simp_all
  note d = os sd_LDSPG2SPTILE_def Let_def clip_x_def clip_y_def stride_descriptor_default_def
  from t have pos: "0 < bx" "0 < by" "0 < sx" "0 < sy" by (simp_all add: tile_bufs_def)
  from t have u: "0 \<le> bx" "0 \<le> by" "0 \<le> sx" "0 \<le> sy" "bx < 2 ^ 20" "by < 2 ^ 20" "sx < 2 ^ 20" "sy < 2 ^ 20"
    by (simp_all add: tile_bufs_def)
  have w: "uint (buf_dim_x (xi_xlat_phys i)) = bx" "uint (buf_dim_y (xi_xlat_phys i)) = by"
    "uint (buf_dim_x (xi_sp_xlat_phys i)) = sx" "uint (buf_dim_y (xi_sp_xlat_phys i)) = sy"
    using t by (simp_all add: tile_bufs_def)
  have "sd_words ?sd = (if ox < 0 then sc_uint 20 (sc_uint 20 (min sx (sc_uint 32 (bx - ox))) + ox) else sc_uint 20 (min sx (sc_uint 32 (bx - ox))))"
    by (simp add: d w)
  with clipped[OF u(1,5,3,7) o(3,4) refl] show "sd_words ?sd = min (ox + sx) bx - max ox 0" by simp
  have "sd_period_count ?sd = (if oy < 0 then sc_uint 20 (sc_uint 20 (min sy (sc_uint 32 (by - oy))) + oy) else sc_uint 20 (min sy (sc_uint 32 (by - oy))))"
    by (simp add: d w)
  with clipped[OF u(2,6,4,8) o(5,6) refl] show "sd_period_count ?sd = min (oy + sy) by - max oy 0" by simp
  show "sd_period ?sd = bx" "sd_dst_period ?sd = sx"
    by (simp_all add: d w sc_uint_id[OF u(1,5)] sc_uint_id[OF u(3,7)])
  have "0 \<le> max oy 0 * bx + max ox 0" "max oy 0 * bx + max ox 0 < bx * by"
    using index_bound[of "max oy 0" "by" "max ox 0" bx] o(3,5) pos by simp_all
  moreover have "?b + 4 * (bx * by) \<le> 2 ^ 32" using t unfolding tile_bufs_def by blast
  ultimately have "sc_uint 32 (?b + 4 * (max oy 0 * bx + max ox 0)) = ?b + 4 * (max oy 0 * bx + max ox 0)"
    by (intro sc_uint_id) simp_all
  then show "sd_addr ?sd = ?b + 4 * (max oy 0 * bx + max ox 0)"
    by (simp add: d w buf_addr_at_def word_offset_def)
  let ?y = "max (- oy) 0" and ?x = "max (- ox) 0"
  have b: "0 \<le> ?y * sx" "?y * sx + ?x < sx * sy" "0 \<le> ?x"
    using index_bound[of ?y sy ?x sx] index_bound[of ?y sy 0 sx] o(4,6) pos by simp_all
  moreover have s: "?s + 4 * (sx * sy) \<le> 2 ^ 32" using t unfolding tile_bufs_def by blast
  ultimately have "sc_uint 32 (?s + 4 * (?y * sx)) = ?s + 4 * (?y * sx)" "sc_uint 32 (?s + 4 * (?y * sx) + 4 * ?x) = ?s + 4 * (?y * sx) + 4 * ?x"
    by (simp_all add: sc_uint_def del: max_less_iff_conj)
  note c = this
  let ?Y = "if oy < 0 then sc_uint 32 (?s + sx * - oy * 4) else ?s"
  have Y: "?Y = ?s + 4 * (?y * sx)"
  proof (cases "oy < 0")
    case True
    then have "?s + sx * - oy * 4 = ?s + 4 * (?y * sx)" by simp
    with c(1) True show ?thesis by (simp only: if_True)
  qed simp
  have "sd_dst_offset ?sd = (if ox < 0 then sc_uint 32 (?Y - ox * 4) else ?Y)"
    by (simp add: d w sc_uint_id[OF u(3,7)])
  also have "\<dots> = ?s + 4 * (?y * sx) + 4 * ?x"
  proof (cases "ox < 0")
    case True
    then have "?s + 4 * (?y * sx) - ox * 4 = ?s + 4 * (?y * sx) + 4 * ?x" by simp
    with c(2) True show ?thesis by (simp only: if_True Y)
  next
    case False
    then show ?thesis by (simp only: if_False Y)
  qed
  finally show "sd_dst_offset ?sd = ?s + 4 * (?y * sx + ?x)" by (simp add: algebra_simps)
qed

text \<open>
  C26. A tile that overlaps its buffer is clipped exactly: the transfer names, once each, the words of the tile that
  lie inside the DRAM buffer, and every one of them goes to its own place of the tile in the scratchpad buffer, which
  it never leaves.
\<close>

theorem tile_exact:
  assumes "tile_bufs i bx by sx sy" "ox = sint (op1 i 0)" "oy = sint (op2 i 0)" "ox < bx" "0 < ox + sx" "oy < by" "0 < oy + sy"
  shows "let sd = sd_LDSPG2SPTILE i op in
    {(max oy 0 + p, max ox 0 + w) | p w. 0 \<le> p \<and> p < sd_period_count sd \<and> 0 \<le> w \<and> w < sd_words sd} =
      {(y, x). 0 \<le> y \<and> y < by \<and> oy \<le> y \<and> y < oy + sy \<and> 0 \<le> x \<and> x < bx \<and> ox \<le> x \<and> x < ox + sx} \<and>
    (\<forall>p w. 0 \<le> p \<and> p < sd_period_count sd \<and> 0 \<le> w \<and> w < sd_words sd \<longrightarrow>
      (let y = max oy 0 + p; x = max ox 0 + w in
       src_addr sd p w = uint (buf_addr (xi_xlat_phys i)) + 4 * (y * bx + x) \<and>
       src_addr sd p w < uint (buf_addr (xi_xlat_phys i)) + 4 * (bx * by) \<and>
       dst_addr sd p w = uint (buf_addr (xi_sp_xlat_phys i)) + 4 * ((y - oy) * sx + (x - ox)) \<and>
       dst_addr sd p w < uint (buf_addr (xi_sp_xlat_phys i)) + 4 * (sx * sy)))"
proof -
  let ?sd = "sd_LDSPG2SPTILE i op" and ?b = "uint (buf_addr (xi_xlat_phys i))" and ?s = "uint (buf_addr (xi_sp_xlat_phys i))"
  note f = tile_fields[OF assms, of op]
  have "{(max oy 0 + p, max ox 0 + w) | p w. 0 \<le> p \<and> p < sd_period_count ?sd \<and> 0 \<le> w \<and> w < sd_words ?sd} =
      {(y, x). 0 \<le> y \<and> y < by \<and> oy \<le> y \<and> y < oy + sy \<and> 0 \<le> x \<and> x < bx \<and> ox \<le> x \<and> x < ox + sx}" (is "?L = ?R")
  proof (rule set_eqI)
    fix z show "z \<in> ?L \<longleftrightarrow> z \<in> ?R"
    proof
      assume "z \<in> ?R"
      then obtain y x where z: "z = (y, x)" "0 \<le> y" "y < by" "oy \<le> y" "y < oy + sy" "0 \<le> x" "x < bx" "ox \<le> x" "x < ox + sx" by auto
      then have "0 \<le> y - max oy 0" "y - max oy 0 < sd_period_count ?sd" "0 \<le> x - max ox 0" "x - max ox 0 < sd_words ?sd"
        by (simp_all add: f)
      with z(1) show "z \<in> ?L" by (intro CollectI exI[of _ "y - max oy 0"] exI[of _ "x - max ox 0"]) simp
    qed (auto simp: f)
  qed
  moreover have "src_addr ?sd p w = ?b + 4 * ((max oy 0 + p) * bx + (max ox 0 + w)) \<and> src_addr ?sd p w < ?b + 4 * (bx * by) \<and>
     dst_addr ?sd p w = ?s + 4 * ((max oy 0 + p - oy) * sx + (max ox 0 + w - ox)) \<and> dst_addr ?sd p w < ?s + 4 * (sx * sy)"
    if "0 \<le> p" "p < sd_period_count ?sd" "0 \<le> w" "w < sd_words ?sd" for p w
  proof -
    have s: "src_addr ?sd p w = ?b + 4 * ((max oy 0 + p) * bx + (max ox 0 + w))"
      by (simp add: src_addr_def f algebra_simps)
    have "max (- oy) 0 = max oy 0 - oy" "max (- ox) 0 = max ox 0 - ox" by simp_all
    then have d: "dst_addr ?sd p w = ?s + 4 * ((max oy 0 + p - oy) * sx + (max ox 0 + w - ox))"
      by (simp only: dst_addr_def f) (simp add: algebra_simps)
    have "(max oy 0 + p) * bx + (max ox 0 + w) < bx * by" "(max oy 0 + p - oy) * sx + (max ox 0 + w - ox) < sx * sy"
      using that by (auto simp: f intro!: index_bound(2))
    with s d show ?thesis by simp
  qed
  ultimately show ?thesis unfolding Let_def by blast
qed

text \<open>A tile of 8 by 8 words that sticks out at the top left corner of a buffer of 100 by 50 words.\<close>

definition tile_in :: "int \<Rightarrow> int \<Rightarrow> exec_inputs" where
  "tile_in ox oy = (insn_inputs 0 (Instruction_default 0) (\<lambda>k _. if k = 1 then word_of_int ox else word_of_int oy))
     \<lparr>xi_xlat_phys := mk_Buffer 1000 100 50, xi_sp_xlat_phys := mk_Buffer 64 8 8\<rparr>"

lemma tile_in_bufs: "tile_bufs (tile_in ox oy) 100 50 8 8"
  by (simp add: tile_bufs_def tile_in_def mk_Buffer_def)

lemma tile_in_ops [simp]:
  "op1 (tile_in ox oy) 0 = word_of_int ox" "op2 (tile_in ox oy) 0 = word_of_int oy"
  "buf_addr (xi_xlat_phys (tile_in ox oy)) = 1000" "buf_addr (xi_sp_xlat_phys (tile_in ox oy)) = 64"
  by (simp_all add: tile_in_def mk_Buffer_def insn_inputs_def)

lemma tile_exact_witness:
  "let sd = sd_LDSPG2SPTILE (tile_in (- 2) (- 3)) (Instruction_default 0) in
   sd_words sd = 6 \<and> sd_period_count sd = 5 \<and> src_addr sd 4 5 = 1000 + 4 * (4 * 100 + 5) \<and> dst_addr sd 4 5 = 64 + 4 * (7 * 8 + 7)"
proof -
  let ?i = "tile_in (- 2) (- 3)" and ?op = "Instruction_default 0"
  have o: "(- 2 :: int) = sint (op1 ?i 0)" "(- 3 :: int) = sint (op2 ?i 0)" by (simp_all only: tile_in_ops) simp_all
  note f = tile_fields[OF tile_in_bufs o, of ?op]
  have "sd_words (sd_LDSPG2SPTILE ?i ?op) = 6" "sd_period_count (sd_LDSPG2SPTILE ?i ?op) = 5"
    using f(1,2) by simp_all
  with tile_exact[OF tile_in_bufs o, of ?op, unfolded Let_def] show ?thesis
    unfolding Let_def by (auto dest!: conjunct2 spec[of _ 4] spec[of _ 5])
qed

text \<open>
  A tile that starts right of its buffer is not clipped at all: the width that is left wraps around to a large number, and
  the transfer reads a whole tile from behind the end of the row.
\<close>

lemma tile_outside:
  assumes "tile_bufs i bx by sx sy" "bx < sint (op1 i 0)"
  shows "sd_words (sd_LDSPG2SPTILE i op) = sx"
proof -
  have u: "0 \<le> bx" "sx < 2 ^ 20" "0 \<le> sx" "uint (buf_dim_x (xi_xlat_phys i)) = bx" "uint (buf_dim_x (xi_sp_xlat_phys i)) = sx" "bx < 2 ^ 20"
    using assms(1) by (simp_all add: tile_bufs_def)
  let ?d = "bx - sint (op1 i 0)"
  have s: "sint (op1 i 0) < 2 ^ 31" using sint_lt[of "op1 i 0"] by simp
  have "?d mod 2 ^ 32 = (?d + 2 ^ 32) mod 2 ^ 32" by simp
  also have "\<dots> = ?d + 2 ^ 32" using assms(2) u s by (intro mod_pos_pos_trivial) simp_all
  finally have "sc_uint 32 ?d = ?d + 2 ^ 32" by (simp add: sc_uint_def)
  moreover have "sx \<le> ?d + 2 ^ 32" using u s by simp
  ultimately have "min sx (sc_uint 32 ?d) = sx" by simp
  with u assms(2) show ?thesis by (simp add: sd_LDSPG2SPTILE_def Let_def clip_x_def clip_y_def)
qed

end
