(* ===== verification/Instr_Fetch.thy ===== *)
theory Instr_Fetch
  imports Local_Memories Work_Sched Machine
begin

text \<open>
  \<open>compute/control/IFetch.h\<close>, the fetch stage: one program counter for each of the two work-group slots, the choice of
  the slot that runs, and the request to the instruction memory. A cycle returns what is written into the request
  FIFO, \<open>None\<close> when nothing is; the output \<open>out_wg\<close> keeps its value. \<open>PCW\<close> is the template parameter \<open>PC_WIDTH\<close>.
\<close>

subsection \<open>The stage\<close>

record ifetch =
  if_pc :: "slot \<Rightarrow> nat"
  if_wg :: slot
  if_out_wg :: slot

record fetch_inputs =
  fi_stall_d :: bool
  fi_wg_state :: "slot \<Rightarrow> workgroup_state"
  fi_wg_finished :: "slot \<Rightarrow> bool"
  fi_pc_write :: bool
  fi_pc_w :: nat
  fi_pc_wg_w :: slot
  fi_pc_rst_wg :: slot
  fi_pc_rst :: bool
  fi_sched_opts :: sched_opts

definition IFetch :: ifetch where
  "IFetch = \<lparr>if_pc = (\<lambda>_. 0), if_wg = 0, if_out_wg = 0\<rparr>"

text \<open>The result \<open>IFETCH_WG_NONE\<close> is \<open>None\<close>. The arguments are the ports the function reads and the current slot.\<close>

definition select_wg ::
  "sched_opts \<Rightarrow> (slot \<Rightarrow> workgroup_state) \<Rightarrow> (slot \<Rightarrow> bool) \<Rightarrow> slot \<Rightarrow> slot option" where
  "select_wg sched wg_state finished wg =
    (if sched WSS_NO_PARALLEL_COMPUTE_SP \<and> (wg_state 0 = WG_STATE_BLOCKED_SP \<or> wg_state 1 = WG_STATE_BLOCKED_SP) then None
     else if wg_state wg = WG_STATE_RUN \<and> \<not> finished wg then Some wg
     else if wg_state (1 - wg) = WG_STATE_RUN \<and> \<not> finished (1 - wg) then Some (1 - wg)
     else None)"

text \<open>The writes to the program counters come first; a jump overrides a reset of the same slot.\<close>

definition fetch_writes :: "nat \<Rightarrow> fetch_inputs \<Rightarrow> (slot \<Rightarrow> nat) \<Rightarrow> slot \<Rightarrow> nat" where
  "fetch_writes PCW i pc =
    (let pc = (if fi_pc_rst i then pc(fi_pc_rst_wg i := 0) else pc)
     in if fi_pc_write i then pc(fi_pc_wg_w i := fi_pc_w i mod 2 ^ PCW) else pc)"

definition ifetch_thread_lt :: "nat \<Rightarrow> fetch_inputs \<Rightarrow> ifetch \<Rightarrow> imem_request option \<times> ifetch" where
  "ifetch_thread_lt PCW i s =
    (let pc = fetch_writes PCW i (if_pc s) in
     case select_wg (fi_sched_opts i) (fi_wg_state i) (fi_wg_finished i) (if_wg s) of
       None \<Rightarrow> (Some \<lparr>req_pc = 0, req_valid = False\<rparr>, s\<lparr>if_pc := pc\<rparr>)
     | Some wg \<Rightarrow>
         if \<not> fi_stall_d i \<or> fi_pc_write i then
           (Some \<lparr>req_pc = pc wg, req_valid = True\<rparr>,
            s\<lparr>if_pc := pc(wg := (pc wg + 1) mod 2 ^ PCW), if_wg := wg, if_out_wg := wg\<rparr>)
         else (None, s\<lparr>if_pc := pc, if_wg := wg\<rparr>))"

subsection \<open>What is fetched\<close>

text \<open>The program counters a run requests for the slot \<open>w\<close>, in order. \<open>out_wg\<close> names the slot of a valid request.\<close>

definition fetch_step :: "nat \<Rightarrow> fetch_inputs \<Rightarrow> ifetch \<Rightarrow> (slot \<times> nat) option \<times> ifetch" where
  "fetch_step PCW i s =
    (case ifetch_thread_lt PCW i s of
       (r, s') \<Rightarrow> (case r of None \<Rightarrow> None | Some q \<Rightarrow> if req_valid q then Some (if_out_wg s', req_pc q) else None, s'))"

definition fetched_by :: "slot \<Rightarrow> (slot \<times> nat) option list \<Rightarrow> nat list" where
  "fetched_by w os = concat (map (\<lambda>x. case x of None \<Rightarrow> [] | Some (v, p) \<Rightarrow> if v = w then [p] else []) os)"

lemma fetched_by_simps [simp]:
  "fetched_by w [] = []"
  "fetched_by w (None # os) = fetched_by w os"
  "fetched_by w (Some (v, p) # os) = (if v = w then p # fetched_by w os else fetched_by w os)"
  by (simp_all add: fetched_by_def)

definition leaves_pc :: "slot \<Rightarrow> fetch_inputs \<Rightarrow> bool" where
  "leaves_pc w i \<longleftrightarrow> \<not> (fi_pc_write i \<and> fi_pc_wg_w i = w) \<and> \<not> (fi_pc_rst i \<and> fi_pc_rst_wg i = w)"

lemma fetch_writes_leaves: "leaves_pc w i \<Longrightarrow> fetch_writes PCW i pc w = pc w"
  by (auto simp: leaves_pc_def fetch_writes_def Let_def)

lemma fetch_step_Some:
  "fetch_step PCW i s = (Some (v, p), s') \<Longrightarrow>
    p = fetch_writes PCW i (if_pc s) v \<and> if_pc s' = (fetch_writes PCW i (if_pc s))(v := (p + 1) mod 2 ^ PCW)"
  by (auto simp: fetch_step_def ifetch_thread_lt_def select_wg_def Let_def split: if_splits option.splits)

lemma fetch_step_None:
  "fetch_step PCW i s = (None, s') \<Longrightarrow> if_pc s' = fetch_writes PCW i (if_pc s)"
  by (auto simp: fetch_step_def ifetch_thread_lt_def Let_def split: if_splits option.splits)

lemma fetch_step_slot:
  assumes "fetch_step PCW i s = (x, s1)" "b = fetch_writes PCW i (if_pc s) w"
  shows "(x = Some (w, b) \<and> if_pc s1 w = (b + 1) mod 2 ^ PCW) \<or> ((\<forall>p. x \<noteq> Some (w, p)) \<and> if_pc s1 w = b)"
proof (cases x)
  case None
  then show ?thesis using fetch_step_None[of PCW i s s1] assms by simp
next
  case (Some y)
  obtain v p where "y = (v, p)" by (cases y)
  then show ?thesis using fetch_step_Some[of PCW i s v p s1] assms Some by (cases "v = w") simp_all
qed

text \<open>The \<open>n\<close> program counters from \<open>b\<close> on, which wrap at the end of the memory.\<close>

definition pcs_from :: "nat \<Rightarrow> nat \<Rightarrow> nat \<Rightarrow> nat list" where
  "pcs_from PCW b n = map (\<lambda>k. (b + k) mod 2 ^ PCW) [0..<n]"

lemma pcs_from_Suc: "b < 2 ^ PCW \<Longrightarrow> pcs_from PCW b (Suc n) = b # pcs_from PCW ((b + 1) mod 2 ^ PCW) n"
  unfolding pcs_from_def upt_conv_Cons[OF zero_less_Suc] map_Suc_upt[symmetric] by (simp add: o_def mod_simps)

lemma fetched_by_other: "\<forall>p. x \<noteq> Some (w, p) \<Longrightarrow> fetched_by w (x # os) = fetched_by w os"
  by (cases x) auto

lemma fetch_step_run:
  assumes "fetch_step PCW i s = (x, s1)" "b = fetch_writes PCW i (if_pc s) w" "b < 2 ^ PCW"
    "fetched_by w os = pcs_from PCW (if_pc s1 w) (length (fetched_by w os))"
  shows "fetched_by w (x # os) = pcs_from PCW b (length (fetched_by w (x # os)))"
  using fetch_step_slot[OF assms(1,2)]
proof
  assume "x = Some (w, b) \<and> if_pc s1 w = (b + 1) mod 2 ^ PCW"
  with assms(3,4) show ?thesis by (simp add: pcs_from_Suc)
next
  assume "(\<forall>p. x \<noteq> Some (w, p)) \<and> if_pc s1 w = b"
  with assms(4) show ?thesis by (simp add: fetched_by_other)
qed

lemma mealy_ConsD:
  assumes "mealy f (i # is) s = (os, s')"
  obtains x s1 os' where "f i s = (x, s1)" "mealy f is s1 = (os', s')" "os = x # os'"
  using assms by (auto simp: split_def Let_def prod_eq_iff)

lemma fetch_run:
  assumes "\<forall>i\<in>set is. leaves_pc w i" "if_pc s w < 2 ^ PCW" "mealy (fetch_step PCW) is s = (os, s')"
  shows "fetched_by w os = pcs_from PCW (if_pc s w) (length (fetched_by w os))"
  using assms
proof (induction "is" arbitrary: s os)
  case Nil
  then show ?case by (simp add: pcs_from_def)
next
  case (Cons i "is")
  obtain x s1 os' where st: "fetch_step PCW i s = (x, s1)" and r: "mealy (fetch_step PCW) is s1 = (os', s')" and os: "os = x # os'"
    using Cons.prems(3) by (rule mealy_ConsD)
  have b: "if_pc s w = fetch_writes PCW i (if_pc s) w" using Cons.prems(1) by (simp add: fetch_writes_leaves)
  have "if_pc s1 w < 2 ^ PCW" using fetch_step_slot[OF st b] Cons.prems(2) by auto
  with Cons.IH[OF _ _ r] Cons.prems(1) show ?case
    unfolding os by (intro fetch_step_run[OF st b Cons.prems(2)]) simp
qed

text \<open>
  C32. Once the program counter of a work-group is written (a jump, or the address behind a load or store), the fetch
  stage requests for it exactly the instructions from there on, one after the other and none twice, in whatever cycles
  the decoder stalls, the work-group is blocked or the other one runs, until the next write or reset.
\<close>

theorem fetch_resumes_at_target:
  assumes "fi_pc_write i" "fi_pc_wg_w i = w" "fi_pc_w i < 2 ^ PCW" "\<forall>i\<in>set is. leaves_pc w i"
    "mealy (fetch_step PCW) (i # is) s = (os, s')"
  shows "fetched_by w os = pcs_from PCW (fi_pc_w i) (length (fetched_by w os))"
proof -
  obtain x s1 os' where st: "fetch_step PCW i s = (x, s1)" and r: "mealy (fetch_step PCW) is s1 = (os', s')" and os: "os = x # os'"
    using assms(5) by (rule mealy_ConsD)
  have b: "fi_pc_w i = fetch_writes PCW i (if_pc s) w" using assms(1-3) by (simp add: fetch_writes_def)
  have "if_pc s1 w < 2 ^ PCW" using fetch_step_slot[OF st b] assms(3) by auto
  from fetch_run[OF assms(4) this r] show ?thesis unfolding os by (rule fetch_step_run[OF st b assms(3)])
qed

text \<open>A jump of slot 0 to address 5, a stall, a cycle in which slot 1 runs instead, and one that runs slot 0 again.\<close>

definition fetch_example :: "bool \<Rightarrow> bool \<Rightarrow> slot \<Rightarrow> fetch_inputs" where
  "fetch_example jump stall run = \<lparr>fi_stall_d = stall,
     fi_wg_state = (\<lambda>w. if w = run then WG_STATE_RUN else WG_STATE_BLOCKED_DRAM), fi_wg_finished = (\<lambda>_. False),
     fi_pc_write = jump, fi_pc_w = 5, fi_pc_wg_w = 0, fi_pc_rst_wg = 1, fi_pc_rst = False, fi_sched_opts = (\<lambda>_. False)\<rparr>"

lemma fetch_resumes_at_target_witness:
  "fetched_by 0 (fst (mealy (fetch_step 11) [fetch_example True False 0, fetch_example False True 0,
     fetch_example False False 1, fetch_example False False 0] IFetch)) = [5, 6]"
proof -
  let ?is = "[fetch_example False True 0, fetch_example False False 1, fetch_example False False 0]"
  let ?r = "mealy (fetch_step 11) (fetch_example True False 0 # ?is) IFetch"
  have lv: "\<forall>i\<in>set ?is. leaves_pc 0 i" by (simp add: leaves_pc_def fetch_example_def)
  have f: "fi_pc_write (fetch_example True False 0)" "fi_pc_wg_w (fetch_example True False 0) = 0"
    "fi_pc_w (fetch_example True False 0) = 5" by (simp_all add: fetch_example_def)
  have "?r = (fst ?r, snd ?r)" by simp
  from fetch_resumes_at_target[OF f(1,2) _ lv this, unfolded f(3)]
  have "fetched_by 0 (fst ?r) = pcs_from 11 5 (length (fetched_by 0 (fst ?r)))" by simp
  moreover have "length (fetched_by 0 (fst ?r)) = 2"
    by (simp add: fetch_step_def ifetch_thread_lt_def fetch_example_def select_wg_def fetch_writes_def IFetch_def)
  moreover have "pcs_from 11 5 2 = [5, 6]" by (simp add: pcs_from_def upt_rec)
  ultimately show ?thesis by (simp only:)
qed

end
