(* ===== verification/Simd_Cluster.thy ===== *)
theory Simd_Cluster
  imports Instr_Fetch
begin

text \<open>
  \<open>compute/control/SimdCluster.h\<close>: the thread that keeps the state of the two work-group slots. It takes work-groups from
  the scheduler, blocks a slot when the execute stage hands out a load or store, unblocks it when a memory reports the
  end of the transfer, and retires it when its last thread has exited. The rest of the class connects the ports of the
  components that have theories of their own.

  A cycle reads the reset at the clock edge and the other ports after a delta cycle, when the values that the execute
  stage and the register file write at the same edge are visible; the record of inputs holds the values read. A FIFO
  that is polled is an optional value. Debug output is left out.
\<close>

subsection \<open>Ports and state\<close>

record cluster_inputs =
  ci_rst :: bool
  ci_wg :: "workgroup option"
  ci_sched_opts :: sched_opts
  ci_end_prg :: bool
  ci_dram_done_dst :: "RequestTarget option"
  ci_sp_wg_done :: "slot \<Rightarrow> slot option"
  ci_wg_state_next :: "slot \<Rightarrow> workgroup_state"
  ci_wg_finished :: "slot \<Rightarrow> bool"
  ci_wg_exit_commit :: "slot \<Rightarrow> bool"
  ci_dram_dst :: RequestTarget
  ci_ifetch_wg :: slot

record cluster =
  cl_wg_state :: "slot \<Rightarrow> workgroup_state"
  cl_wg_accept_next :: "slot \<Rightarrow> bool"
  cl_ticket_pop :: int
  cl_mask_exit :: "slot \<Rightarrow> bool"
  cl_dram_active :: "64 word"
  cl_compute_active :: "64 word"
  cl_sp_active :: "slot \<Rightarrow> 64 word"
  co_wg_off :: "slot \<Rightarrow> nat \<Rightarrow> u32"
  co_last_warp :: "slot \<Rightarrow> nat"
  co_wg_state :: "slot \<Rightarrow> workgroup_state"
  co_rst_wg :: slot
  co_rst :: bool
  co_ticket_pop :: int
  co_exec_fini :: bool

definition cluster_do_reset :: "cluster \<Rightarrow> cluster" where
  "cluster_do_reset s = s\<lparr>cl_wg_state := (\<lambda>_. WG_STATE_NONE), cl_wg_accept_next := (\<lambda>_. True), cl_ticket_pop := 0,
     co_rst := False\<rparr>"

definition SimdCluster :: cluster where
  "SimdCluster = cluster_do_reset \<lparr>cl_wg_state = (\<lambda>_. WG_STATE_NONE), cl_wg_accept_next = (\<lambda>_. True), cl_ticket_pop = 0,
     cl_mask_exit = (\<lambda>_. False), cl_dram_active = 0, cl_compute_active = 0, cl_sp_active = (\<lambda>_. 0),
     co_wg_off = (\<lambda>_ _. 0), co_last_warp = (\<lambda>_. 0), co_wg_state = (\<lambda>_. WG_STATE_NONE), co_rst_wg = 0, co_rst = False,
     co_ticket_pop = 0, co_exec_fini = False\<rparr>"

subsection \<open>The parts of a cycle\<close>

text \<open>The result tells whether the head of the FIFO of work-groups is taken.\<close>

definition wg_try_obtain :: "cluster_inputs \<Rightarrow> slot \<Rightarrow> cluster \<Rightarrow> workgroup option \<times> cluster" where
  "wg_try_obtain i sl s =
    (case ci_wg i of
       None \<Rightarrow> (None, s\<lparr>co_rst := False\<rparr>)
     | Some wg \<Rightarrow> (Some wg,
         s\<lparr>co_wg_off := (co_wg_off s)(sl := (\<lambda>d. if d = 0 then of_nat (off_x wg) else off_y wg)),
           co_last_warp := (co_last_warp s)(sl := last_warp wg),
           cl_wg_state := (cl_wg_state s)(sl := WG_STATE_RUN),
           co_rst_wg := sl, co_rst := True,
           cl_wg_accept_next := (if ci_sched_opts i WSS_PAIRWISE_WG then (cl_wg_accept_next s)(sl := False)
             else cl_wg_accept_next s)\<rparr>))"

definition unblock_dram :: "RequestTarget option \<Rightarrow> cluster \<Rightarrow> cluster res" where
  "unblock_dram r s =
    (case r of
       None \<Rightarrow> Inr s
     | Some t \<Rightarrow> let w = tgt_wg t; st = cl_wg_state s w in
         assertE (st = WG_STATE_BLOCKED_DRAM \<or> st = WG_STATE_BLOCKED_DRAM_POSTEXIT)
           (Inr (s\<lparr>cl_wg_state := (cl_wg_state s)(w := (if st = WG_STATE_BLOCKED_DRAM then WG_STATE_RUN else WG_STATE_NONE)),
                   cl_ticket_pop := sc_uint 4 (cl_ticket_pop s + 1)\<rparr>)))"

definition unblock_sp :: "slot option \<Rightarrow> cluster \<Rightarrow> cluster res" where
  "unblock_sp r s =
    (case r of
       None \<Rightarrow> Inr s
     | Some w \<Rightarrow> assertE (cl_wg_state s w = WG_STATE_BLOCKED_SP)
         (Inr (s\<lparr>cl_wg_state := (cl_wg_state s)(w := WG_STATE_RUN), cl_ticket_pop := sc_uint 4 (cl_ticket_pop s + 1)\<rparr>)))"

definition wg_try_unblock :: "cluster_inputs \<Rightarrow> cluster \<Rightarrow> cluster res" where
  "wg_try_unblock i s =
    bindE (unblock_dram (ci_dram_done_dst i) s) (\<lambda>s.
    bindE (unblock_sp (ci_sp_wg_done i 0) s) (\<lambda>s.
    bindE (unblock_sp (ci_sp_wg_done i 1) s) (\<lambda>s.
    Inr (s\<lparr>co_ticket_pop := cl_ticket_pop s\<rparr>))))"

definition wg_update_block :: "cluster_inputs \<Rightarrow> slot \<Rightarrow> cluster \<Rightarrow> cluster" where
  "wg_update_block i w s =
    (let s' = s\<lparr>cl_wg_state := (cl_wg_state s)(w := ci_wg_state_next i w)\<rparr> in
     case ci_wg_state_next i w of
       WG_STATE_BLOCKED_DRAM_POSTEXIT \<Rightarrow> s'\<lparr>cl_wg_accept_next := (cl_wg_accept_next s)(1 - w := True)\<rparr>
     | WG_STATE_BLOCKED_DRAM \<Rightarrow> s'
     | WG_STATE_BLOCKED_SP \<Rightarrow> s'
     | _ \<Rightarrow> s)"

definition wg_retire :: "cluster_inputs \<Rightarrow> slot \<Rightarrow> cluster \<Rightarrow> cluster" where
  "wg_retire i w s =
    (if ci_wg_finished i w \<and> cl_mask_exit s w then
       s\<lparr>cl_wg_state := (cl_wg_state s)(w := WG_STATE_NONE), cl_wg_accept_next := (cl_wg_accept_next s)(1 - w := True)\<rparr>
     else s)"

definition wg_update_status :: "cluster_inputs \<Rightarrow> cluster \<Rightarrow> cluster" where
  "wg_update_status i s = wg_retire i 1 (wg_retire i 0 (wg_update_block i 1 (wg_update_block i 0 s)))"

definition wg_obtain :: "cluster_inputs \<Rightarrow> cluster \<Rightarrow> workgroup option \<times> cluster" where
  "wg_obtain i s =
    (if cl_wg_state s 0 = WG_STATE_NONE \<and> cl_wg_accept_next s 0 then wg_try_obtain i 0 s
     else if cl_wg_state s 1 = WG_STATE_NONE \<and> cl_wg_accept_next s 1 then wg_try_obtain i 1 s
     else (None, s\<lparr>co_rst := False\<rparr>))"

definition cluster_drive :: "cluster_inputs \<Rightarrow> cluster \<Rightarrow> cluster" where
  "cluster_drive i s = s\<lparr>co_wg_state := cl_wg_state s,
     co_exec_fini := (ci_end_prg i \<and> cl_wg_state s 0 = WG_STATE_NONE \<and> cl_wg_state s 1 = WG_STATE_NONE)\<rparr>"

text \<open>The fetch stage is asked which slot it would run now.\<close>

definition update_pcounter :: "cluster_inputs \<Rightarrow> slot \<Rightarrow> cluster \<Rightarrow> cluster" where
  "update_pcounter i w s =
    (case cl_wg_state s w of
       WG_STATE_NONE \<Rightarrow> s
     | WG_STATE_BLOCKED_SP \<Rightarrow> s\<lparr>cl_sp_active := (cl_sp_active s)(w := cl_sp_active s w + 1)\<rparr>
     | WG_STATE_RUN \<Rightarrow>
         if select_wg (ci_sched_opts i) (co_wg_state s) (ci_wg_finished i) (ci_ifetch_wg i) = Some w
         then s\<lparr>cl_compute_active := cl_compute_active s + 1\<rparr> else s
     | _ \<Rightarrow> if tgt_type (ci_dram_dst i) \<noteq> TARGET_NONE \<and> tgt_wg (ci_dram_dst i) = w
         then s\<lparr>cl_dram_active := cl_dram_active s + 1\<rparr> else s)"

definition update_pcounters :: "cluster_inputs \<Rightarrow> cluster \<Rightarrow> cluster" where
  "update_pcounters i s = update_pcounter i 1 (update_pcounter i 0 s)"

definition cluster_thread_lt :: "cluster_inputs \<Rightarrow> cluster \<Rightarrow> (workgroup option \<times> cluster) res" where
  "cluster_thread_lt i s =
    (if ci_rst i then Inr (None, cluster_do_reset s)
     else bindE (wg_try_unblock i s) (\<lambda>s.
       let (wg, s) = wg_obtain i (wg_update_status i s);
           s = cluster_drive i s
       in Inr (wg, update_pcounters i (s\<lparr>cl_mask_exit := ci_wg_exit_commit i\<rparr>))))"

subsection \<open>No work is left behind\<close>

text \<open>
  A slot is live from the start of its work-group until its exit. The other slot may be refilled after an exit only, so
  two slots that both refuse work cannot both be dead.
\<close>

definition live :: "workgroup_state \<Rightarrow> bool" where
  "live st \<longleftrightarrow> st \<noteq> WG_STATE_NONE \<and> st \<noteq> WG_STATE_BLOCKED_DRAM_POSTEXIT"

definition accept_inv :: "cluster \<Rightarrow> bool" where
  "accept_inv s \<longleftrightarrow> cl_wg_accept_next s 0 \<or> cl_wg_accept_next s 1 \<or> live (cl_wg_state s 0) \<or> live (cl_wg_state s 1)"

lemmas accept_simps = accept_inv_def live_def

lemma accept_inv_init: "accept_inv SimdCluster" "accept_inv (cluster_do_reset s)"
  by (simp_all add: accept_simps SimdCluster_def cluster_do_reset_def)

lemma unblock_dram_inv: "accept_inv s \<Longrightarrow> unblock_dram r s = Inr s' \<Longrightarrow> accept_inv s'"
  by (auto simp: unblock_dram_def accept_simps Let_def split: option.splits if_splits)

lemma unblock_sp_inv: "accept_inv s \<Longrightarrow> unblock_sp r s = Inr s' \<Longrightarrow> accept_inv s'"
  by (auto simp: unblock_sp_def accept_simps split: option.splits if_splits)

lemma wg_try_unblock_inv:
  assumes "accept_inv s" "wg_try_unblock i s = Inr s'"
  shows "accept_inv s'"
proof -
  from assms(2) obtain s1 s2 s3 where "unblock_dram (ci_dram_done_dst i) s = Inr s1" "unblock_sp (ci_sp_wg_done i 0) s1 = Inr s2"
    "unblock_sp (ci_sp_wg_done i 1) s2 = Inr s3" "s' = s3\<lparr>co_ticket_pop := cl_ticket_pop s3\<rparr>"
    by (auto simp: wg_try_unblock_def bindE_Inr_iff)
  then have "accept_inv s3" using assms(1) by (blast intro: unblock_dram_inv unblock_sp_inv)
  then show ?thesis using \<open>s' = _\<close> by (simp add: accept_simps)
qed

lemma wg_update_block_inv: "accept_inv s \<Longrightarrow> accept_inv (wg_update_block i w s)"
proof -
  assume a: "accept_inv s"
  from slot_cases[of w] show "accept_inv (wg_update_block i w s)"
    by (elim disjE; cases "ci_wg_state_next i w") (use a in \<open>auto simp: wg_update_block_def accept_simps\<close>)
qed

lemma wg_retire_inv: "accept_inv s \<Longrightarrow> accept_inv (wg_retire i w s)"
  using slot_cases[of w] by (auto simp: wg_retire_def accept_simps)

lemma wg_try_obtain_inv: "accept_inv s \<Longrightarrow> accept_inv (snd (wg_try_obtain i w s))"
  using slot_cases[of w] by (auto simp: wg_try_obtain_def accept_simps split: option.splits)

lemma wg_obtain_inv: "accept_inv s \<Longrightarrow> accept_inv (snd (wg_obtain i s))"
  by (simp add: wg_obtain_def wg_try_obtain_inv) (simp add: accept_simps)

lemma update_pcounters_sel [simp]:
  "cl_wg_state (update_pcounters i s) = cl_wg_state s" "cl_wg_accept_next (update_pcounters i s) = cl_wg_accept_next s"
  "co_exec_fini (update_pcounters i s) = co_exec_fini s" "co_rst_wg (update_pcounters i s) = co_rst_wg s"
  "cl_mask_exit (update_pcounters i s) = cl_mask_exit s"
  by (simp_all add: update_pcounters_def update_pcounter_def split: workgroup_state.splits)

text \<open>A cycle without reset, as the equations the proofs use.\<close>

lemma cluster_cycle:
  assumes "cluster_thread_lt i s = Inr (wg, s')" "\<not> ci_rst i"
  obtains s1 s2 where "wg_try_unblock i s = Inr s1" "wg_obtain i (wg_update_status i s1) = (wg, s2)"
    "s' = update_pcounters i ((cluster_drive i s2)\<lparr>cl_mask_exit := ci_wg_exit_commit i\<rparr>)"
proof -
  from assms obtain s1 where s1: "wg_try_unblock i s = Inr s1"
    and r: "(let (wg, s) = wg_obtain i (wg_update_status i s1); s = cluster_drive i s
      in Inr (wg, update_pcounters i (s\<lparr>cl_mask_exit := ci_wg_exit_commit i\<rparr>))) = (Inr (wg, s') :: _ res)"
    by (auto simp: cluster_thread_lt_def bindE_Inr_iff)
  obtain wg' s2 where "wg_obtain i (wg_update_status i s1) = (wg', s2)" by fastforce
  with r s1 that show thesis by (simp add: Let_def)
qed

lemma wg_update_status_inv: "accept_inv s \<Longrightarrow> accept_inv (wg_update_status i s)"
  by (simp add: wg_update_status_def wg_update_block_inv wg_retire_inv)

lemma cluster_inv:
  assumes "accept_inv s" "cluster_thread_lt i s = Inr (wg, s')"
  shows "accept_inv s'"
proof (cases "ci_rst i")
  case True
  then show ?thesis using assms(2) by (auto simp: cluster_thread_lt_def accept_inv_init)
next
  case False
  from cluster_cycle[OF assms(2) False] obtain s1 s2 where c: "wg_try_unblock i s = Inr s1"
    "wg_obtain i (wg_update_status i s1) = (wg, s2)"
    "s' = update_pcounters i ((cluster_drive i s2)\<lparr>cl_mask_exit := ci_wg_exit_commit i\<rparr>)" .
  have "accept_inv s2"
    using wg_obtain_inv[OF wg_update_status_inv[OF wg_try_unblock_inv[OF assms(1) c(1)], of i], of i] by (simp add: c(2))
  then show ?thesis by (simp add: c(3) accept_simps cluster_drive_def)
qed

lemma cluster_run_inv:
  "runE cluster_thread_lt is s = Inr (os, s') \<Longrightarrow> accept_inv s \<Longrightarrow> accept_inv s'"
proof (induction "is" arbitrary: s os)
  case Nil
  then show ?case by simp
next
  case (Cons i "is")
  from Cons.prems(1) obtain wg s1 os' where "cluster_thread_lt i s = Inr (wg, s1)" "runE cluster_thread_lt is s1 = Inr (os', s')"
    by (auto simp: bindE_Inr_iff split: prod.splits)
  with Cons.IH Cons.prems(2) show ?case by (blast intro: cluster_inv)
qed

lemma wg_obtain_idle:
  assumes "accept_inv s" "wg_obtain i s = (wg, s')" "\<forall>w. cl_wg_state s' w = WG_STATE_NONE"
  shows "ci_wg i = None"
proof -
  have idle: "cl_wg_state s w = WG_STATE_NONE" for w
    using assms(2) assms(3)[rule_format, of w]
    by (auto simp: wg_obtain_def wg_try_obtain_def split: if_splits option.splits)
  with assms(1) have "cl_wg_accept_next s 0 \<or> cl_wg_accept_next s 1" by (simp add: accept_simps)
  then show ?thesis
    using assms(2) assms(3)[rule_format, of 0] assms(3)[rule_format, of 1]
    by (auto simp: wg_obtain_def wg_try_obtain_def idle split: if_splits option.splits)
qed

lemma all_slots: "(\<forall>w :: slot. P w) \<longleftrightarrow> P 0 \<and> P 1"
  using slot_cases by metis

text \<open>
  C33. The cluster signals the end of the program exactly when there is none left: whatever the components did since
  the start, in pairwise scheduling or not, \<open>out_exec_fini\<close> is raised in a cycle exactly when the scheduler has issued
  its last work-group, both slots are idle and no work-group waits in the FIFO. In particular the cluster never leaves
  a waiting work-group lying with both slots idle.
\<close>

theorem cluster_finishes_exact:
  assumes "runE cluster_thread_lt is SimdCluster = Inr (os, s)" "cluster_thread_lt i s = Inr (wg, s')" "\<not> ci_rst i"
  shows "co_exec_fini s' \<longleftrightarrow> ci_end_prg i \<and> ci_wg i = None \<and> (\<forall>w. cl_wg_state s' w = WG_STATE_NONE)"
proof -
  from cluster_cycle[OF assms(2,3)] obtain s1 s2 where c: "wg_try_unblock i s = Inr s1"
    "wg_obtain i (wg_update_status i s1) = (wg, s2)"
    "s' = update_pcounters i ((cluster_drive i s2)\<lparr>cl_mask_exit := ci_wg_exit_commit i\<rparr>)" .
  have "accept_inv s" using cluster_run_inv[OF assms(1) accept_inv_init(1)] .
  then have inv: "accept_inv (wg_update_status i s1)" using wg_update_status_inv wg_try_unblock_inv c(1) by blast
  have "co_exec_fini s' \<longleftrightarrow> ci_end_prg i \<and> (\<forall>w. cl_wg_state s2 w = WG_STATE_NONE)"
    by (simp add: c(3) cluster_drive_def all_slots)
  moreover have "cl_wg_state s' = cl_wg_state s2" by (simp add: c(3) cluster_drive_def)
  ultimately show ?thesis using wg_obtain_idle[OF inv c(2)] by auto
qed

subsection \<open>Pairwise scheduling\<close>

text \<open>
  The events of a cycle: the slot in which a work-group starts, and the slots whose work-group exits, be it for good
  or with a last store under way.
\<close>

definition exits :: "cluster_inputs \<Rightarrow> cluster \<Rightarrow> slot \<Rightarrow> bool" where
  "exits i s w \<longleftrightarrow> ci_wg_state_next i w = WG_STATE_BLOCKED_DRAM_POSTEXIT \<or> (ci_wg_finished i w \<and> cl_mask_exit s w)"

definition cluster_events :: "cluster_inputs \<Rightarrow> cluster \<Rightarrow> ((slot option \<times> (slot \<Rightarrow> bool)) \<times> cluster) res" where
  "cluster_events i s =
    bindE (cluster_thread_lt i s) (\<lambda>(wg, s'). Inr ((if wg = None then None else Some (co_rst_wg s'), exits i s), s'))"

definition starts_of :: "slot \<Rightarrow> (slot option \<times> (slot \<Rightarrow> bool)) list \<Rightarrow> nat" where
  "starts_of w os = length (filter (\<lambda>e. fst e = Some w) os)"

definition exits_of :: "slot \<Rightarrow> (slot option \<times> (slot \<Rightarrow> bool)) list \<Rightarrow> nat" where
  "exits_of w os = length (filter (\<lambda>e. snd e w) os)"

lemma unblock_dram_keeps:
  "unblock_dram r s = Inr s' \<Longrightarrow> cl_wg_accept_next s' = cl_wg_accept_next s \<and> cl_mask_exit s' = cl_mask_exit s"
  by (auto simp: unblock_dram_def Let_def split: option.splits if_splits)

lemma unblock_sp_keeps:
  "unblock_sp r s = Inr s' \<Longrightarrow> cl_wg_accept_next s' = cl_wg_accept_next s \<and> cl_mask_exit s' = cl_mask_exit s"
  by (auto simp: unblock_sp_def split: option.splits if_splits)

lemma wg_try_unblock_keeps:
  "wg_try_unblock i s = Inr s' \<Longrightarrow> cl_wg_accept_next s' = cl_wg_accept_next s \<and> cl_mask_exit s' = cl_mask_exit s"
  by (auto simp: wg_try_unblock_def bindE_Inr_iff dest!: unblock_dram_keeps unblock_sp_keeps)

lemma wg_update_block_accept:
  "cl_wg_accept_next (wg_update_block i v s) w \<longleftrightarrow>
    cl_wg_accept_next s w \<or> (w = 1 - v \<and> ci_wg_state_next i v = WG_STATE_BLOCKED_DRAM_POSTEXIT)"
  by (cases "ci_wg_state_next i v") (auto simp: wg_update_block_def)

lemma wg_update_block_mask [simp]: "cl_mask_exit (wg_update_block i v s) = cl_mask_exit s"
  by (cases "ci_wg_state_next i v") (auto simp: wg_update_block_def)

lemma wg_retire_accept:
  "cl_wg_accept_next (wg_retire i v s) w \<longleftrightarrow>
    cl_wg_accept_next s w \<or> (w = 1 - v \<and> ci_wg_finished i v \<and> cl_mask_exit s v)"
  by (auto simp: wg_retire_def)

lemma wg_retire_mask [simp]: "cl_mask_exit (wg_retire i v s) = cl_mask_exit s"
  by (simp add: wg_retire_def)

text \<open>A slot that refuses work accepts it again when the other one exits, and in no other case.\<close>

lemma wg_update_status_accept:
  "cl_wg_accept_next (wg_update_status i s) w \<longleftrightarrow> cl_wg_accept_next s w \<or> exits i s (1 - w)"
  using slot_cases[of w]
  by (auto simp: wg_update_status_def wg_retire_accept wg_update_block_accept exits_def)

lemma wg_obtain_pairwise:
  assumes "wg_obtain i s = (wg, s')" "ci_sched_opts i WSS_PAIRWISE_WG"
  shows "(wg = None \<and> cl_wg_accept_next s' = cl_wg_accept_next s) \<or>
    (wg \<noteq> None \<and> cl_wg_accept_next s (co_rst_wg s') \<and> cl_wg_accept_next s' = (cl_wg_accept_next s)(co_rst_wg s' := False))"
  using assms by (auto simp: wg_obtain_def wg_try_obtain_def split: if_splits option.splits)

text \<open>A slot that accepts work now has started at most as often as the other one has exited.\<close>

lemma pairwise_step:
  assumes "cluster_events i s = Inr ((st, ex), s')" "ci_sched_opts i WSS_PAIRWISE_WG" "\<not> ci_rst i"
  shows "(if st = Some w then 1 else 0) + (if cl_wg_accept_next s' w then 1 else 0) \<le>
    (if cl_wg_accept_next s w then 1 else 0) + (if ex (1 - w) then 1 else (0::nat))"
proof -
  from assms(1) obtain wg where wg: "cluster_thread_lt i s = Inr (wg, s')" "st = (if wg = None then None else Some (co_rst_wg s'))"
    "ex = exits i s" by (auto simp: cluster_events_def bindE_Inr_iff)
  from cluster_cycle[OF wg(1) assms(3)] obtain s1 s2 where c: "wg_try_unblock i s = Inr s1"
    "wg_obtain i (wg_update_status i s1) = (wg, s2)"
    "s' = update_pcounters i ((cluster_drive i s2)\<lparr>cl_mask_exit := ci_wg_exit_commit i\<rparr>)" .
  have sel: "cl_wg_accept_next s' = cl_wg_accept_next s2" "co_rst_wg s' = co_rst_wg s2" by (simp_all add: c(3) cluster_drive_def)
  have "exits i s1 = exits i s" using wg_try_unblock_keeps[OF c(1)] by (simp add: exits_def fun_eq_iff)
  then have acc: "cl_wg_accept_next (wg_update_status i s1) w \<longleftrightarrow> cl_wg_accept_next s w \<or> ex (1 - w)"
    by (simp add: wg_update_status_accept wg_try_unblock_keeps[OF c(1)] wg(3))
  from wg_obtain_pairwise[OF c(2) assms(2)] show ?thesis
    by (elim disjE conjE; cases "w = co_rst_wg s2") (use acc in \<open>auto simp: sel wg(2)\<close>)
qed

lemma pairwise_run:
  assumes "runE cluster_events is s = Inr (os, s')" "\<forall>i\<in>set is. ci_sched_opts i WSS_PAIRWISE_WG \<and> \<not> ci_rst i"
  shows "starts_of w os + (if cl_wg_accept_next s' w then 1 else 0) \<le>
    (if cl_wg_accept_next s w then 1 else 0) + exits_of (1 - w) os"
  using assms
proof (induction "is" arbitrary: s os)
  case Nil
  then show ?case by (simp add: starts_of_def exits_of_def)
next
  case (Cons i "is")
  from Cons.prems(1) obtain e s1 os' where st: "cluster_events i s = Inr (e, s1)" "runE cluster_events is s1 = Inr (os', s')" "os = e # os'"
    by (auto simp: bindE_Inr_iff split: prod.splits)
  obtain a b where e: "e = (a, b)" by (cases e)
  have "starts_of w os = (if a = Some w then 1 else 0) + starts_of w os'"
    "exits_of (1 - w) os = (if b (1 - w) then 1 else 0) + exits_of (1 - w) os'"
    by (simp_all add: st(3) e starts_of_def exits_of_def)
  with pairwise_step[OF st(1)[unfolded e], of w] Cons.IH[OF st(2)] Cons.prems(2) show ?case
    by (simp split: if_splits)
qed

text \<open>A slot that starts does not accept before the other one exits.\<close>

lemma start_closes:
  assumes "cluster_events i s = Inr ((Some w, ex), s')" "ci_sched_opts i WSS_PAIRWISE_WG" "\<not> ci_rst i"
  shows "\<not> cl_wg_accept_next s' w"
proof -
  from assms(1) obtain wg where wg: "cluster_thread_lt i s = Inr (wg, s')" "wg \<noteq> None" "w = co_rst_wg s'"
    by (auto simp: cluster_events_def bindE_Inr_iff split: if_splits)
  from cluster_cycle[OF wg(1) assms(3)] obtain s1 s2 where c: "wg_obtain i (wg_update_status i s1) = (wg, s2)"
    "s' = update_pcounters i ((cluster_drive i s2)\<lparr>cl_mask_exit := ci_wg_exit_commit i\<rparr>)" by blast
  have "cl_wg_accept_next s' = cl_wg_accept_next s2" "co_rst_wg s' = co_rst_wg s2" by (simp_all add: c(2) cluster_drive_def)
  with wg_obtain_pairwise[OF c(1) assms(2)] wg(2,3) show ?thesis by auto
qed

lemma exits_ofD: "0 < exits_of w os \<Longrightarrow> \<exists>c<length os. snd (os ! c) w"
  by (simp add: exits_of_def filter_empty_conv) (metis in_set_conv_nth)

lemma starts_ofI: "b < length os \<Longrightarrow> fst (os ! b) = Some w \<Longrightarrow> 0 < starts_of w os"
  by (simp add: starts_of_def filter_empty_conv) (metis nth_mem)

text \<open>From the first of two starts on.\<close>

lemma between_starts:
  assumes "runE cluster_events is s = Inr (os, s')" "\<forall>i\<in>set is. ci_sched_opts i WSS_PAIRWISE_WG \<and> \<not> ci_rst i"
    "a < b" "b < length os" "fst (os ! a) = Some w" "fst (os ! b) = Some w"
  shows "\<exists>c. a < c \<and> c \<le> b \<and> snd (os ! c) (1 - w)"
  using assms
proof (induction "is" arbitrary: s os a b)
  case Nil
  then show ?case by simp
next
  case (Cons i "is")
  from Cons.prems(1) obtain e s1 os' where st: "cluster_events i s = Inr (e, s1)" "runE cluster_events is s1 = Inr (os', s')" "os = e # os'"
    by (auto simp: bindE_Inr_iff split: prod.splits)
  have in_is: "\<forall>i\<in>set is. ci_sched_opts i WSS_PAIRWISE_WG \<and> \<not> ci_rst i" using Cons.prems(2) by simp
  from Cons.prems(3) obtain b' where b: "b = Suc b'" by (cases b) simp_all
  show ?case
  proof (cases a)
    case (Suc a')
    from Cons.IH[OF st(2) in_is, of a' b'] Cons.prems(3-6) Suc b obtain c where "a' < c" "c \<le> b'" "snd (os' ! c) (1 - w)"
      by (auto simp: st(3))
    then show ?thesis using Suc b by (intro exI[of _ "Suc c"]) (simp add: st(3))
  next
    case 0
    obtain ex where e: "e = (Some w, ex)" using Cons.prems(5) 0 by (cases e) (simp add: st(3))
    have cl: "\<not> cl_wg_accept_next s1 w" by (rule start_closes[OF st(1)[unfolded e]]) (use Cons.prems(2) in simp_all)
    have b': "b' < length os'" "fst (os' ! b') = Some w" using Cons.prems(4,6) by (simp_all add: st(3) b)
    have len: "length is = length os'" using runE_length[OF st(2)] by simp
    from runE_prefix[OF st(2), of "Suc b'"] obtain u where u: "runE cluster_events (take (Suc b') is) s1 = Inr (take (Suc b') os', u)"
      by blast
    have "0 < starts_of w (take (Suc b') os')" using b' by (intro starts_ofI[of b']) simp_all
    moreover have "\<forall>i\<in>set (take (Suc b') is). ci_sched_opts i WSS_PAIRWISE_WG \<and> \<not> ci_rst i" using in_is by (auto dest: in_set_takeD)
    ultimately have "0 < exits_of (1 - w) (take (Suc b') os')" using pairwise_run[OF u, of w] cl by (auto split: if_splits)
    from exits_ofD[OF this] obtain c where "c \<le> b'" "snd (os' ! c) (1 - w)"
      using b'(1) by (auto simp: less_Suc_eq_le)
    then show ?thesis using 0 b by (intro exI[of _ "Suc c"]) (simp add: st(3))
  qed
qed

text \<open>
  C34. Under pairwise scheduling the two slots take turns. Whenever a slot begins a work-group in two cycles \<open>a\<close> and \<open>b\<close>
  of a run from reset with no further reset, the other slot finishes one in a cycle after \<open>a\<close>, at the latest in \<open>b\<close>; and no slot has ever begun
  more work-groups than the other one has finished, plus one.
\<close>

theorem pairwise_alternates:
  assumes "runE cluster_events is SimdCluster = Inr (os, s)" "\<forall>i\<in>set is. ci_sched_opts i WSS_PAIRWISE_WG \<and> \<not> ci_rst i"
  shows "(\<forall>a b. a < b \<and> b < length os \<and> fst (os ! a) = Some w \<and> fst (os ! b) = Some w \<longrightarrow>
      (\<exists>c. a < c \<and> c \<le> b \<and> snd (os ! c) (1 - w))) \<and>
    starts_of w os \<le> exits_of (1 - w) os + 1"
  using between_starts[OF assms] pairwise_run[OF assms, of w] by (auto split: if_splits)

subsection \<open>An example\<close>

text \<open>A cycle with a work-group waiting; \<open>done\<close> gives the slots whose work-group has finished, \<open>ex\<close> those that commit an exit.\<close>

definition cluster_example :: "bool \<Rightarrow> (slot \<Rightarrow> bool) \<Rightarrow> (slot \<Rightarrow> bool) \<Rightarrow> cluster_inputs" where
  "cluster_example avail fin ex = \<lparr>ci_rst = False, ci_wg = (if avail then Some \<lparr>off_x = 0, off_y = 0, last_warp = 7\<rparr> else None),
     ci_sched_opts = (\<lambda>k. k = WSS_PAIRWISE_WG), ci_end_prg = (\<not> avail), ci_dram_done_dst = None, ci_sp_wg_done = (\<lambda>_. None),
     ci_wg_state_next = (\<lambda>_. WG_STATE_NONE), ci_wg_finished = fin, ci_wg_exit_commit = ex, ci_dram_dst = RequestTarget_default,
     ci_ifetch_wg = 0\<rparr>"

lemmas cluster_example_simps = cluster_example_def cluster_thread_lt_def wg_try_unblock_def unblock_dram_def unblock_sp_def
  wg_update_status_def wg_update_block_def wg_retire_def wg_obtain_def wg_try_obtain_def cluster_drive_def
  update_pcounters_def update_pcounter_def select_wg_def

lemma cluster_example_run:
  "\<exists>s. runE cluster_thread_lt [cluster_example True (\<lambda>_. False) (\<lambda>_. False), cluster_example False (\<lambda>_. False) (\<lambda>w. w = 0)] SimdCluster =
     Inr ([Some \<lparr>off_x = 0, off_y = 0, last_warp = 7\<rparr>, None], s) \<and>
     cl_wg_state s 0 = WG_STATE_RUN \<and> cl_wg_state s 1 = WG_STATE_NONE \<and> cl_mask_exit s = (\<lambda>w. w = 0)"
  by (simp add: cluster_example_simps SimdCluster_def cluster_do_reset_def)

lemma cluster_finishes_exact_witness:
  "\<exists>s s'. runE cluster_thread_lt [cluster_example True (\<lambda>_. False) (\<lambda>_. False), cluster_example False (\<lambda>_. False) (\<lambda>w. w = 0)] SimdCluster =
     Inr ([Some \<lparr>off_x = 0, off_y = 0, last_warp = 7\<rparr>, None], s) \<and>
     cluster_thread_lt (cluster_example False (\<lambda>w. w = 0) (\<lambda>_. False)) s = Inr (None, s') \<and> co_exec_fini s'"
proof -
  let ?i = "cluster_example False (\<lambda>w. w = 0) (\<lambda>_. False)"
  obtain s where s: "runE cluster_thread_lt [cluster_example True (\<lambda>_. False) (\<lambda>_. False),
      cluster_example False (\<lambda>_. False) (\<lambda>w. w = 0)] SimdCluster = Inr ([Some \<lparr>off_x = 0, off_y = 0, last_warp = 7\<rparr>, None], s)"
    "cl_wg_state s 0 = WG_STATE_RUN" "cl_wg_state s 1 = WG_STATE_NONE" "cl_mask_exit s = (\<lambda>w. w = 0)"
    using cluster_example_run by blast
  obtain s' where s': "cluster_thread_lt ?i s = Inr (None, s')" "cl_wg_state s' 0 = WG_STATE_NONE" "cl_wg_state s' 1 = WG_STATE_NONE"
    using s(2-4) by (simp add: cluster_example_simps)
  have "\<not> ci_rst ?i" "ci_end_prg ?i" "ci_wg ?i = None" by (simp_all add: cluster_example_def)
  with cluster_finishes_exact[OF s(1) s'(1)] s'(2,3) have "co_exec_fini s'" by (simp add: all_slots)
  with s(1) s'(1) show ?thesis by blast
qed

definition pairwise_inputs :: "cluster_inputs list" where
  "pairwise_inputs = [cluster_example True (\<lambda>_. False) (\<lambda>_. False), cluster_example True (\<lambda>_. False) (\<lambda>_. False),
     cluster_example True (\<lambda>_. False) (\<lambda>_. True), cluster_example True (\<lambda>_. True) (\<lambda>_. False)]"

lemma pairwise_alternates_witness:
  "\<exists>os s. runE cluster_events pairwise_inputs SimdCluster = Inr (os, s) \<and> fst (os ! 0) = Some 0 \<and> fst (os ! 3) = Some 0 \<and>
     (\<exists>c. 0 < c \<and> c \<le> 3 \<and> snd (os ! c) 1)"
proof -
  obtain os s where r: "runE cluster_events pairwise_inputs SimdCluster = Inr (os, s)" "fst (os ! 0) = Some 0" "fst (os ! 3) = Some 0"
    "length os = 4"
    by (simp add: pairwise_inputs_def cluster_events_def cluster_example_simps SimdCluster_def cluster_do_reset_def)
  have "\<forall>i\<in>set pairwise_inputs. ci_sched_opts i WSS_PAIRWISE_WG \<and> \<not> ci_rst i"
    by (simp add: pairwise_inputs_def cluster_example_def)
  from pairwise_alternates[OF r(1) this, of 0, THEN conjunct1, rule_format, of 0 3] r show ?thesis by auto
qed

end
