(* ===== verification/Decode.thy ===== *)
theory Decode
  imports Isa_Instruction Exec_State Machine
begin

text \<open>
  \<open>compute/control/IDecode.h\<close>, the base class of the two decoders: how the next instruction is selected, its operands
  and its destination completed, its registers requested, its destination entered in the scoreboard, and when the
  divider lets it go. The two decoders are the theories \<open>Decode_1S\<close> and \<open>Decode_3S\<close>.

  The decoder sends its read requests and waits, on two FIFOs, for the answers of the same cycle. What it reads before
  is read at the clock edge; what it reads after has the values that the other components write at that edge. The slot
  \<open>in_wg\<close> is read on both sides of the wait, so it is two inputs, \<open>di_wg\<close> and \<open>di_wg_late\<close>.
\<close>

subsection \<open>Ports and state\<close>

record dec_cfg = ex_cfg +
  x_XLAT_ENTRIES :: nat

record dec_inputs =
  di_insn :: Instruction
  di_pc :: nat
  di_wg :: slot
  di_wg_late :: slot
  di_last_warp :: "slot \<Rightarrow> nat"
  di_thread_active :: "slot \<Rightarrow> bool"
  di_wg_finished :: "slot \<Rightarrow> bool"
  di_sb_cpop_stall :: "slot \<Rightarrow> bool"
  di_entries_pop :: "slot \<Rightarrow> nat \<Rightarrow> bool"
  di_pipe_flush :: bool
  di_raw :: "nat \<Rightarrow> bool"
  di_req_conflicts :: "nat \<Rightarrow> bool"
  di_operand :: "nat \<Rightarrow> nat \<Rightarrow> u32"

record dec =
  dc_active_warp :: nat
  dc_raw_stalls :: "64 word"
  dc_read_bank_conflict_stalls :: "64 word"
  dc_resource_busy_stalls :: "64 word"
  dc_last_warp :: nat
  dc_sidiv_pipe_stall :: int
  dc_sidiv_issue_dist_stall :: int
  dc_iexec_pipeline_stages :: nat
  dc_cpop_can_inject :: bool
  dc_req :: reg_read_req
  do_pc :: nat
  do_insn :: Instruction
  do_ssp_match :: bool
  do_enqueue_sb :: bool
  do_enqueue_sb_cstack_write :: bool
  do_enqueue_sb_cstack_wg :: slot
  do_req_w_sb :: reg
  do_wg :: slot
  do_col_w :: nat
  do_subcol_w :: nat
  do_stall_f :: bool
  do_xlat_idx :: nat
  do_sp_xlat_idx :: nat

text \<open>
  \<open>set_iexec_pipeline_stages\<close>, and the constructor. \<open>last_warp\<close> and the request are not initialised: the arguments \<open>lw\<close>
  and \<open>rq\<close>. \<open>dc_req\<close> is the local variable of the thread that holds the request, which is also what both FIFOs get.
\<close>

definition set_iexec_pipeline_stages :: "nat \<Rightarrow> 'a dec_scheme \<Rightarrow> 'a dec_scheme res" where
  "set_iexec_pipeline_stages n s = (if n = 0 then Inl Invalid_Argument else Inr (s\<lparr>dc_iexec_pipeline_stages := n\<rparr>))"

definition IDecode :: "nat \<Rightarrow> reg_read_req \<Rightarrow> dec" where
  "IDecode lw rq = \<lparr>dc_active_warp = 0, dc_raw_stalls = 0, dc_read_bank_conflict_stalls = 0, dc_resource_busy_stalls = 0,
     dc_last_warp = lw, dc_sidiv_pipe_stall = 0, dc_sidiv_issue_dist_stall = 0, dc_iexec_pipeline_stages = 3,
     dc_cpop_can_inject = False, dc_req = rq, do_pc = 0, do_insn = Instruction_default 0, do_ssp_match = False,
     do_enqueue_sb = False, do_enqueue_sb_cstack_write = False, do_enqueue_sb_cstack_wg = 0, do_req_w_sb = Register_wg 0,
     do_wg = 0, do_col_w = 0, do_subcol_w = 0, do_stall_f = False, do_xlat_idx = 0, do_sp_xlat_idx = 0\<rparr>"

text \<open>The constructor \<open>Instruction(op, {})\<close> for the two operations the decoder makes up itself.\<close>

definition insn_of :: "ISAOp \<Rightarrow> Instruction" where
  "insn_of op = (Instruction_default 0)\<lparr>i_op := op, i_dead := False\<rparr>"

lemma insn_of_mk:
  "mk_Instruction NOP 0 Operand_none [] = Inr (insn_of NOP)" "mk_Instruction OP_CPOP 0 Operand_none [] = Inr (insn_of OP_CPOP)"
  by (simp_all add: mk_Instruction_def validated_def validate_iff insn_of_def Instruction_default_def validate_def valid_src_def
    op_validate_def op_validate_ctrl_def ISAOpSpec_def ISAOpSpec_default_def Operand_none_def)

subsection \<open>Columns\<close>

definition rcpu_ratio :: "'a ex_cfg_scheme \<Rightarrow> nat" where
  "rcpu_ratio C = x_LANES C div x_RCPUS C"

definition getCol :: "'b ex_cfg_scheme \<Rightarrow> 'a dec_scheme \<Rightarrow> Instruction \<Rightarrow> nat" where
  "getCol C s op = (if opCategory (i_op op) = CAT_ARITH_RCPU then dc_active_warp s div rcpu_ratio C else dc_active_warp s)"

definition getSubcol :: "'b ex_cfg_scheme \<Rightarrow> 'a dec_scheme \<Rightarrow> Instruction \<Rightarrow> nat" where
  "getSubcol C s op = (if opCategory (i_op op) = CAT_ARITH_RCPU then dc_active_warp s mod rcpu_ratio C else 0)"

subsection \<open>Implicit operands\<close>

definition so_printcmask :: "ISASubOp \<Rightarrow> ISASubOpPRINTCMASK" where
  "so_printcmask = enum_of [PRINTCMASK_IF, PRINTCMASK_BRK, PRINTCMASK_RET, PRINTCMASK_EXIT] PRINTCMASK_SENTINEL"

definition add_vsp :: "row \<Rightarrow> Instruction \<Rightarrow> Instruction res" where
  "add_vsp r op = bindE (Operand_reg REGISTER_VSP (ucast r)) (addSrc op)"

definition add_zeros :: "Instruction \<Rightarrow> Instruction res" where
  "add_zeros op = bindE (if i_srcs op < 2 then addSrc op (Operand_imm 0) else Inr op)
     (\<lambda>op. if i_srcs op < 3 then addSrc op (Operand_imm 0) else Inr op)"

definition op_add_implicit_src :: "Instruction \<Rightarrow> Instruction res" where
  "op_add_implicit_src op =
    (if i_op op \<in> {OP_LDGLIN, OP_STGLIN, OP_LDSPLIN, OP_STSPLIN, OP_SLDSP, OP_LDG2SPTILE, OP_STG2SPTILE} then add_zeros op
     else if i_op op = OP_SLDG then (if i_srcs op < 2 then addSrc op (Operand_imm 1) else Inr op)
     else if i_op op = OP_EXIT then (if i_srcs op = 0 then add_vsp VSP_ONE op else Inr op)
     else if i_op op = OP_CALL then (if i_srcs op = 1 then add_vsp VSP_ONE op else Inr op)
     else if i_op op = OP_CPUSH then
       if i_srcs op \<ge> 2 then Inr op
       else case so_cpush (i_subop op) of
           CPUSH_IF \<Rightarrow> add_vsp VSP_CTRL_RUN op
         | CPUSH_BRK \<Rightarrow> add_vsp VSP_CTRL_BREAK op
         | CPUSH_RET \<Rightarrow> add_vsp VSP_CTRL_RET op
         | CPUSH_SENTINEL \<Rightarrow> Inl Assert_Failed
     else if i_op op = OP_DBG_PRINTCMASK then
       if i_srcs op \<noteq> 0 then Inr op
       else case so_printcmask (i_subop op) of
           PRINTCMASK_IF \<Rightarrow> add_vsp VSP_CTRL_RUN op
         | PRINTCMASK_BRK \<Rightarrow> add_vsp VSP_CTRL_BREAK op
         | PRINTCMASK_RET \<Rightarrow> add_vsp VSP_CTRL_RET op
         | PRINTCMASK_EXIT \<Rightarrow> add_vsp VSP_CTRL_EXIT op
         | PRINTCMASK_SENTINEL \<Rightarrow> Inl Assert_Failed
     else Inr op)"

text \<open>The destination, and the bit that tells the last warp of an operation that must see them all.\<close>

definition set_vsp :: "row \<Rightarrow> Instruction \<Rightarrow> Instruction res" where
  "set_vsp r op = bindE (Operand_reg REGISTER_VSP (ucast r)) (setDst op)"

definition implicit_dst :: "bool \<Rightarrow> Instruction \<Rightarrow> Instruction res" where
  "implicit_dst at_last op =
    (if i_op op = OP_CPUSH then Inr (op\<lparr>i_commit := at_last\<rparr>)
     else if i_op op \<in> {OP_BRA, OP_CMASK} then set_vsp VSP_CTRL_RUN op
     else if i_op op = OP_BRK then set_vsp VSP_CTRL_BREAK op
     else if i_op op = OP_EXIT then set_vsp VSP_CTRL_EXIT op
     else if i_op op \<in> {OP_CALL, OP_RET} then set_vsp VSP_CTRL_RET op
     else if i_op op \<in> {OP_LDGBIDX, OP_STGBIDX, OP_LDGCIDX, OP_STGCIDX, OP_LDSPBIDX, OP_STSPBIDX} then set_vsp VSP_MEM_DATA op
     else if i_op op = OP_SENTINEL then Inr (kill op)
     else Inr op)"

definition op_process_implicit_dst :: "'b ex_cfg_scheme \<Rightarrow> 'a dec_scheme \<Rightarrow> Instruction \<Rightarrow> Instruction res" where
  "op_process_implicit_dst C s op =
    (let at_last = (dc_active_warp s = dc_last_warp s);
         op = (if opCategory (i_op op) = CAT_ARITH_RCPU
               then op\<lparr>i_commit := (int (getSubcol C s op) = int (rcpu_ratio C) - 1)\<rparr> else op)
     in bindE (implicit_dst at_last op) (\<lambda>op. Inr (if writesCMASK op then op\<lparr>i_commit := at_last\<rparr> else op)))"

subsection \<open>Buffers and registers\<close>

definition xlat_trunc :: "dec_cfg \<Rightarrow> Operand \<Rightarrow> nat" where
  "xlat_trunc C v = unat (getValue v) mod 2 ^ const_log2 (x_XLAT_ENTRIES C)"

definition op_ldst_xlat_idx :: "dec_cfg \<Rightarrow> Instruction \<Rightarrow> 'a dec_scheme \<Rightarrow> 'a dec_scheme res" where
  "op_ldst_xlat_idx C op s =
    (if i_dead op \<or> (\<not> ldst op \<and> i_op op \<noteq> OP_BUFQUERY) then Inr s
     else if i_op op \<in> {OP_LDSPLIN, OP_STSPLIN, OP_LDSPBIDX, OP_STSPBIDX, OP_SLDSP} then
       bindE (getSrc op 0) (\<lambda>v. Inr (s\<lparr>do_sp_xlat_idx := xlat_trunc C v\<rparr>))
     else if i_op op \<in> {OP_LDG2SPTILE, OP_STG2SPTILE} then
       bindE (getSrc op 0) (\<lambda>v. Inr (s\<lparr>do_sp_xlat_idx := xlat_trunc C (i_dst op), do_xlat_idx := xlat_trunc C v\<rparr>))
     else if i_op op \<in> {OP_LDGLIN, OP_STGLIN, OP_LDGBIDX, OP_STGBIDX, OP_LDGCIDX, OP_STGCIDX, OP_LDGIDXIT, OP_STGIDXIT, OP_SLDG,
         OP_BUFQUERY} then
       bindE (getSrc op 0) (\<lambda>v. Inr (s\<lparr>do_xlat_idx := xlat_trunc C v\<rparr>))
     else Inr s)"

text \<open>The column is truncated to the width of the register's column field.\<close>

definition col_trunc :: "'b ex_cfg_scheme \<Rightarrow> nat \<Rightarrow> nat" where
  "col_trunc C c = c mod 2 ^ const_log2 (x_THREADS C div x_LANES C)"

definition forward_read_req ::
  "'b ex_cfg_scheme \<Rightarrow> 'a dec_scheme \<Rightarrow> nat \<Rightarrow> Instruction \<Rightarrow> nat \<Rightarrow> slot \<Rightarrow> reg_read_req \<Rightarrow> reg_read_req res" where
  "forward_read_req C s k op col wg req =
    (if opCategory (i_op op) = CAT_ARITH_RCPU \<and> getSubcol C s op \<noteq> 0 then Inr req
     else bindE (if i_op op = OP_DBG_PRINTVGPR \<and> k = 0
                 then bindE (getSrc op 1) (\<lambda>v. Inr (unat (drop_bit (const_log2 (x_LANES C)) (getValue v)))) else Inr col) (\<lambda>col.
       bindE (getSrc op k) (\<lambda>v.
       bindE (getRegister_wg v wg (col_trunc C col)) (\<lambda>r.
       Inr (req\<lparr>rq_r := (rq_r req)(k := True), rq_reg := (rq_reg req)(k := r),
                rq_imm := (if rtype r = REGISTER_IMM then (rq_imm req)(k := getValue v) else rq_imm req)\<rparr>)))))"

text \<open>The destination enters the scoreboard once; \<open>wg\<close> is the slot read at that time.\<close>

definition sb_write_req :: "'b ex_cfg_scheme \<Rightarrow> slot \<Rightarrow> Instruction \<Rightarrow> 'a dec_scheme \<Rightarrow> (Instruction \<times> 'a dec_scheme) res" where
  "sb_write_req C wg op s =
    (if i_dead op \<or> ldst op then Inr (op, s\<lparr>do_enqueue_sb := False, do_enqueue_sb_cstack_write := False\<rparr>)
     else let push = (doesCPUSH op \<and> i_commit op \<and> \<not> i_on_cstack_sb op);
              s = s\<lparr>do_enqueue_sb_cstack_write := push,
                    do_enqueue_sb_cstack_wg := (if push then wg else do_enqueue_sb_cstack_wg s)\<rparr>;
              op = (if push then op\<lparr>i_on_cstack_sb := True\<rparr> else op)
       in if hasDst op \<and> (opCategory (i_op op) \<noteq> CAT_ARITH_RCPU \<or> i_commit op) then
            bindE (getRegister_wg (i_dst op) wg (col_trunc C (getCol C s op))) (\<lambda>r.
              Inr (op\<lparr>i_on_sb := True\<rparr>, s\<lparr>do_enqueue_sb := \<not> i_on_sb op, do_req_w_sb := r\<rparr>))
          else Inr (op, s\<lparr>do_enqueue_sb := False\<rparr>))"

subsection \<open>Selection\<close>

text \<open>
  The argument \<open>hook\<close> is the virtual \<open>pipe_invalidate\<close>. The value of \<open>out_stall_f\<close> that is read is the one of the cycle
  before; all writes come later.
\<close>

definition fetch_op :: "'b ex_cfg_scheme \<Rightarrow> dec_inputs \<Rightarrow> 'a dec_scheme \<Rightarrow> (Instruction \<times> 'a dec_scheme) res" where
  "fetch_op C i s =
    (let op = di_insn i;
         lw = (if isVectorInstruction op then di_last_warp i (di_wg i) else 0);
         lw = (if opCategory (i_op op) = CAT_ARITH_RCPU then (lw + 1) * rcpu_ratio C - 1 else lw)
     in bindE (op_add_implicit_src op) (\<lambda>op. Inr (op, s\<lparr>dc_last_warp := lw\<rparr>)))"

definition select_op ::
  "'b ex_cfg_scheme \<Rightarrow> ('a dec_scheme \<Rightarrow> 'a dec_scheme) \<Rightarrow> dec_inputs \<Rightarrow> Instruction \<Rightarrow> nat \<Rightarrow> 'a dec_scheme \<Rightarrow>
   (Instruction \<times> nat \<times> 'a dec_scheme) res" where
  "select_op C hook i op pc s =
    (if di_wg_finished i (di_wg i) then Inr (insn_of NOP, pc, s\<lparr>dc_active_warp := 0, dc_last_warp := 0\<rparr>)
     else if di_pipe_flush i then
       let s = hook s in
       if \<not> i_injected op \<or> dc_active_warp s = 0 then
         Inr (kill (insn_of NOP), pc, s\<lparr>dc_active_warp := 0, dc_last_warp := 0, do_stall_f := False, do_enqueue_sb := False,
           do_enqueue_sb_cstack_write := False, dc_cpop_can_inject := True\<rparr>)
       else Inr (op, pc, s)
     else if \<not> di_thread_active i (di_wg i) \<and> \<not> do_stall_f s then
       if dc_cpop_can_inject s then
         Inr (inject (insn_of OP_CPOP), pc, s\<lparr>dc_last_warp := di_last_warp i (di_wg i), dc_active_warp := 0, dc_cpop_can_inject := False\<rparr>)
       else if dc_active_warp s = 0 then Inr (insn_of NOP, pc, s\<lparr>dc_active_warp := 0, dc_last_warp := 0\<rparr>)
       else Inr (op, pc, s)
     else if dc_active_warp s = 0 \<and> \<not> do_stall_f s then
       bindE (fetch_op C i s) (\<lambda>(op, s). Inr (op, di_pc i, s))
     else Inr (op, pc, s))"

definition first_conflict :: "(nat \<Rightarrow> bool) \<Rightarrow> (nat \<Rightarrow> bool) \<Rightarrow> int" where
  "first_conflict raw conflicts =
    (case filter (\<lambda>k. raw k \<or> conflicts k) [0..<3] of [] \<Rightarrow> - 1 | k # _ \<Rightarrow> int k)"

definition or_reduce :: "(nat \<Rightarrow> bool) \<Rightarrow> bool" where
  "or_reduce b \<longleftrightarrow> b 0 \<or> b 1 \<or> b 2"

subsection \<open>The divider\<close>

definition set_sidiv_stall_counters :: "'a dec_scheme \<Rightarrow> 'a dec_scheme" where
  "set_sidiv_stall_counters s =
    s\<lparr>dc_sidiv_issue_dist_stall := 8, dc_sidiv_pipe_stall := max (8 - int (dc_iexec_pipeline_stages s)) 0\<rparr>"

definition decrement_sidiv_stall_counters :: "'a dec_scheme \<Rightarrow> 'a dec_scheme" where
  "decrement_sidiv_stall_counters s =
    s\<lparr>dc_sidiv_issue_dist_stall := max (dc_sidiv_issue_dist_stall s - 1) 0, dc_sidiv_pipe_stall := max (dc_sidiv_pipe_stall s - 1) 0\<rparr>"

definition op_can_issue :: "dec_inputs \<Rightarrow> Instruction \<Rightarrow> slot \<Rightarrow> 'a dec_scheme \<Rightarrow> bool" where
  "op_can_issue i op wg s \<longleftrightarrow>
    (if i_op op = OP_CPOP \<and> \<not> i_dead op \<and> di_sb_cpop_stall i wg then False
     else if i_op op = OP_SIDIV \<or> i_op op = OP_SIMOD then dc_sidiv_issue_dist_stall s = 0
     else dc_sidiv_pipe_stall s = 0)"

text \<open>The performance counter of a cycle in which nothing issues.\<close>

definition count_stall :: "(nat \<Rightarrow> bool) \<Rightarrow> (nat \<Rightarrow> bool) \<Rightarrow> bool \<Rightarrow> 'a dec_scheme \<Rightarrow> 'a dec_scheme" where
  "count_stall raw conflicts resource_free s =
    (if or_reduce raw then s\<lparr>dc_raw_stalls := dc_raw_stalls s + 1\<rparr>
     else if or_reduce conflicts then s\<lparr>dc_read_bank_conflict_stalls := dc_read_bank_conflict_stalls s + 1\<rparr>
     else if \<not> resource_free then s\<lparr>dc_resource_busy_stalls := dc_resource_busy_stalls s + 1\<rparr>
     else s)"

end
