(* ===== verification/Decode_1S.thy ===== *)
theory Decode_1S
  imports Decode Isa_Props Score_Board
begin

text \<open>
  \<open>compute/control/IDecode_1S.h\<close>, the decoder of a single stage that fetches all operands of an instruction in the cycle
  that issues it. A cycle returns the instruction it issues, \<open>None\<close> when it stalls and sends an empty one.
\<close>

subsection \<open>The stage\<close>

text \<open>The local variables of the thread that live from cycle to cycle.\<close>

record dec1 = dec +
  d1_op :: Instruction
  d1_pc :: nat
  d1_op_retry :: "nat \<Rightarrow> bool"

definition IDecode_1S :: "nat \<Rightarrow> reg_read_req \<Rightarrow> dec1" where
  "IDecode_1S lw rq = dec.extend (IDecode lw rq) \<lparr>d1_op = Instruction_default 0, d1_pc = 0, d1_op_retry = (\<lambda>_. True)\<rparr>"

definition forward_read_reqs_1S ::
  "'b ex_cfg_scheme \<Rightarrow> dec_inputs \<Rightarrow> 'a dec_scheme \<Rightarrow> (nat \<Rightarrow> bool) \<Rightarrow> Instruction \<Rightarrow> reg_read_req res" where
  "forward_read_reqs_1S C i s conflicts op =
    for_uptoE (i_srcs op)
      (\<lambda>k req. if i_dead op \<or> \<not> conflicts k then Inr req else forward_read_req C s k op (getCol C s op) (di_wg i) req)
      ((dc_req s)\<lparr>rq_r := (\<lambda>_. False)\<rparr>)"

definition next_warp :: "'b ex_cfg_scheme \<Rightarrow> 'a dec_scheme \<Rightarrow> 'a dec_scheme" where
  "next_warp C s =
    (if dc_active_warp s = dc_last_warp s then s\<lparr>do_stall_f := False, dc_active_warp := 0\<rparr>
     else s\<lparr>do_stall_f := True,
            dc_active_warp := (dc_active_warp s + 1) mod 2 ^ const_log2 (x_THREADS C div x_RCPUS C)\<rparr>)"

text \<open>What follows the selection: the outputs, the answers of the scoreboard and the register file, and the issue.\<close>

definition dec1_outputs :: "'b ex_cfg_scheme \<Rightarrow> dec_inputs \<Rightarrow> nat \<Rightarrow> Instruction \<Rightarrow> reg_read_req \<Rightarrow> dec1 \<Rightarrow> dec1" where
  "dec1_outputs C i pc op req s = s\<lparr>dc_req := req, d1_pc := pc, do_pc := pc, do_wg := di_wg i,
     do_col_w := col_trunc C (getCol C s op), do_subcol_w := getSubcol C s op mod 2 ^ const_log2 (rcpu_ratio C),
     do_ssp_match := blockOnSSPWrites op\<rparr>"

definition dec1_issue :: "'b ex_cfg_scheme \<Rightarrow> dec_inputs \<Rightarrow> Instruction \<Rightarrow> dec1 \<Rightarrow> (Instruction option \<times> dec1) res" where
  "dec1_issue C i op s =
    (let retry = (\<lambda>k. di_req_conflicts i k \<or> di_raw i k);
         free = op_can_issue i op (di_wg_late i) s;
         s = decrement_sidiv_stall_counters s
     in if or_reduce retry \<or> \<not> free then
          Inr (None, count_stall (di_raw i) (di_req_conflicts i) free
            (s\<lparr>do_insn := insn_of NOP, do_stall_f := True, do_enqueue_sb := False, d1_op := op, d1_op_retry := retry\<rparr>))
        else bindE (sb_write_req C (di_wg_late i) op s) (\<lambda>(op, s).
          let s = s\<lparr>do_insn := op, d1_op_retry := (\<lambda>_. True),
                    d1_op := (if dc_active_warp s = dc_last_warp s then op else op\<lparr>i_on_sb := False\<rparr>)\<rparr>;
              s = (if i_op op = OP_SIDIV \<or> i_op op = OP_SIMOD then set_sidiv_stall_counters s else s)
          in Inr (Some op, next_warp C s)))"

definition dec1_rest :: "dec_cfg \<Rightarrow> dec_inputs \<Rightarrow> Instruction \<Rightarrow> nat \<Rightarrow> dec1 \<Rightarrow> (Instruction option \<times> dec1) res" where
  "dec1_rest C i op pc s =
    bindE (forward_read_reqs_1S C i s (d1_op_retry s) op) (\<lambda>req.
    bindE (op_process_implicit_dst C s op) (\<lambda>op.
    bindE (op_ldst_xlat_idx C op s) (\<lambda>s.
    dec1_issue C i op (dec1_outputs C i pc op req s))))"

definition dec1_thread_lt :: "dec_cfg \<Rightarrow> dec_inputs \<Rightarrow> dec1 \<Rightarrow> (Instruction option \<times> dec1) res" where
  "dec1_thread_lt C i s =
    bindE (select_op C (\<lambda>s. s) i (d1_op s) (d1_pc s) s) (\<lambda>(op, pc, s). dec1_rest C i op pc s)"

subsection \<open>What stays the same from warp to warp\<close>

definition insn_core :: "Instruction \<Rightarrow> Instruction" where
  "insn_core op = op\<lparr>i_dst := Operand_none, i_commit := False, i_on_sb := False, i_on_cstack_sb := False\<rparr>"

lemma insn_core_upd [simp]:
  "insn_core (op\<lparr>i_dst := d\<rparr>) = insn_core op" "insn_core (op\<lparr>i_commit := c\<rparr>) = insn_core op"
  "insn_core (op\<lparr>i_on_sb := b\<rparr>) = insn_core op" "insn_core (op\<lparr>i_on_cstack_sb := b\<rparr>) = insn_core op"
  by (simp_all add: insn_core_def)

lemma insn_core_op: "insn_core a = insn_core b \<Longrightarrow> i_op a = i_op b"
  by (drule arg_cong[where f = i_op]) (simp add: insn_core_def)

lemma setDst_Inr: "setDst op v = Inr op' \<Longrightarrow> op' = op\<lparr>i_dst := v\<rparr>"
  by (auto simp: setDst_def validated_def bindE_Inr_iff)

lemma set_vsp_core: "set_vsp r op = Inr op' \<Longrightarrow> insn_core op' = insn_core op"
  by (auto simp: set_vsp_def bindE_Inr_iff dest!: setDst_Inr)

lemma implicit_dst_core:
  "implicit_dst b op = Inr op' \<Longrightarrow> i_op op \<noteq> OP_SENTINEL \<Longrightarrow>
    insn_core op' = insn_core op \<and> (i_op op \<noteq> OP_CPUSH \<or> i_commit op' = b) \<and> (i_op op = OP_CPUSH \<or> i_commit op' = i_commit op)"
  unfolding implicit_dst_def
  by (auto split: if_splits dest: set_vsp_core) (auto simp: set_vsp_def bindE_Inr_iff dest!: setDst_Inr)

text \<open>The operations that must see all warps commit with the last one.\<close>

definition needs_all :: "Instruction \<Rightarrow> bool" where
  "needs_all op \<longleftrightarrow> i_op op = OP_CPUSH \<or> writesCMASK op"

lemma process_dst_core:
  assumes "op_process_implicit_dst C s op = Inr op'" "i_op op \<noteq> OP_SENTINEL"
  shows "insn_core op' = insn_core op \<and> (needs_all op' \<longrightarrow> (i_commit op' \<longleftrightarrow> dc_active_warp s = dc_last_warp s))"
proof -
  let ?op = "if opCategory (i_op op) = CAT_ARITH_RCPU
    then op\<lparr>i_commit := (int (getSubcol C s op) = int (rcpu_ratio C) - 1)\<rparr> else op"
  from assms(1) obtain op1 where op1: "implicit_dst (dc_active_warp s = dc_last_warp s) ?op = Inr op1"
    "op' = (if writesCMASK op1 then op1\<lparr>i_commit := (dc_active_warp s = dc_last_warp s)\<rparr> else op1)"
    by (auto simp: op_process_implicit_dst_def Let_def bindE_Inr_iff)
  have "i_op ?op \<noteq> OP_SENTINEL" "insn_core ?op = insn_core op" using assms(2) by simp_all
  with implicit_dst_core[OF op1(1)] have c: "insn_core op1 = insn_core op"
    "i_op op1 = OP_CPUSH \<longrightarrow> i_commit op1 = (dc_active_warp s = dc_last_warp s)"
    using insn_core_op[of op1 ?op] by auto
  have w: "writesCMASK (op1\<lparr>i_commit := c\<rparr>) = writesCMASK op1" for c by (simp add: writesCMASK_def hasDst_def)
  show ?thesis using c op1(2) by (auto simp: needs_all_def w)
qed

text \<open>The fields the enumeration depends on, which the operations in between leave alone.\<close>

lemma xlat_keeps:
  "op_ldst_xlat_idx C op s = Inr s' \<Longrightarrow>
    dc_active_warp s' = dc_active_warp s \<and> dc_last_warp s' = dc_last_warp s \<and> dc_sidiv_issue_dist_stall s' = dc_sidiv_issue_dist_stall s \<and>
    dc_sidiv_pipe_stall s' = dc_sidiv_pipe_stall s \<and> do_enqueue_sb_cstack_write s' = do_enqueue_sb_cstack_write s \<and>
    do_enqueue_sb_cstack_wg s' = do_enqueue_sb_cstack_wg s"
  by (auto simp: op_ldst_xlat_idx_def bindE_Inr_iff split: if_splits)

lemma sb_write_keeps:
  assumes "sb_write_req C w op s = Inr (op', s')"
  shows "insn_core op' = insn_core op \<and> i_commit op' = i_commit op \<and> i_dst op' = i_dst op \<and>
    dc_active_warp s' = dc_active_warp s \<and> dc_last_warp s' = dc_last_warp s \<and> do_col_w s' = do_col_w s \<and> do_subcol_w s' = do_subcol_w s"
  using assms by (auto simp: sb_write_req_def bindE_Inr_iff Let_def split: if_splits)

lemma needs_all_cong: "i_op a = i_op b \<Longrightarrow> i_dst a = i_dst b \<Longrightarrow> needs_all a = needs_all b"
  by (simp add: needs_all_def writesCMASK_def hasDst_def)

lemma count_stall_keeps [simp]:
  "dc_active_warp (count_stall r c f s) = dc_active_warp s" "dc_last_warp (count_stall r c f s) = dc_last_warp s"
  "do_stall_f (count_stall r c f s) = do_stall_f s" "d1_op (count_stall r c f s1) = d1_op s1"
  "do_enqueue_sb_cstack_write (count_stall r c f s) = do_enqueue_sb_cstack_write s"
  "do_enqueue_sb_cstack_wg (count_stall r c f s) = do_enqueue_sb_cstack_wg s"
  by (simp_all add: count_stall_def)

lemma decrement_keeps [simp]:
  "dc_active_warp (decrement_sidiv_stall_counters s) = dc_active_warp s"
  "dc_last_warp (decrement_sidiv_stall_counters s) = dc_last_warp s"
  "do_col_w (decrement_sidiv_stall_counters s) = do_col_w s" "do_subcol_w (decrement_sidiv_stall_counters s) = do_subcol_w s"
  "do_enqueue_sb_cstack_write (decrement_sidiv_stall_counters s) = do_enqueue_sb_cstack_write s"
  "do_enqueue_sb_cstack_wg (decrement_sidiv_stall_counters s) = do_enqueue_sb_cstack_wg s"
  by (simp_all add: decrement_sidiv_stall_counters_def)

text \<open>The step of the enumeration: a stalled cycle repeats the warp, an issue goes on to the next one.\<close>

definition warp_step :: "dec_cfg \<Rightarrow> Instruction \<Rightarrow> dec1 \<Rightarrow> Instruction option \<Rightarrow> dec1 \<Rightarrow> bool" where
  "warp_step C op s r s' \<longleftrightarrow>
    (case r of
       None \<Rightarrow> do_stall_f s' \<and> dc_active_warp s' = dc_active_warp s \<and> insn_core (d1_op s') = insn_core op
     | Some op' \<Rightarrow> insn_core op' = insn_core op \<and> do_col_w s' = col_trunc C (getCol C s op) \<and>
         do_subcol_w s' = getSubcol C s op mod 2 ^ const_log2 (rcpu_ratio C) \<and>
         (needs_all op' \<longrightarrow> (i_commit op' \<longleftrightarrow> dc_active_warp s = dc_last_warp s)) \<and>
         (if dc_active_warp s = dc_last_warp s then \<not> do_stall_f s' \<and> dc_active_warp s' = 0
          else do_stall_f s' \<and> dc_active_warp s' = (dc_active_warp s + 1) mod 2 ^ const_log2 (x_THREADS C div x_RCPUS C) \<and>
            insn_core (d1_op s') = insn_core op)) \<and>
    dc_last_warp s' = dc_last_warp s"

lemma dec1_issue_step:
  assumes "dec1_issue C i op s = Inr (r, s')" "do_col_w s = c" "do_subcol_w s = sc"
    "needs_all op \<longrightarrow> (i_commit op \<longleftrightarrow> dc_active_warp s = dc_last_warp s)"
  shows "(case r of
       None \<Rightarrow> do_stall_f s' \<and> dc_active_warp s' = dc_active_warp s \<and> insn_core (d1_op s') = insn_core op
     | Some op' \<Rightarrow> insn_core op' = insn_core op \<and> do_col_w s' = c \<and> do_subcol_w s' = sc \<and>
         (needs_all op' \<longrightarrow> (i_commit op' \<longleftrightarrow> dc_active_warp s = dc_last_warp s)) \<and>
         (if dc_active_warp s = dc_last_warp s then \<not> do_stall_f s' \<and> dc_active_warp s' = 0
          else do_stall_f s' \<and> dc_active_warp s' = (dc_active_warp s + 1) mod 2 ^ const_log2 (x_THREADS C div x_RCPUS C) \<and>
            insn_core (d1_op s') = insn_core op)) \<and>
    dc_last_warp s' = dc_last_warp s"
proof -
  let ?free = "op_can_issue i op (di_wg_late i) s" and ?s = "decrement_sidiv_stall_counters s"
  show ?thesis
  proof (cases "or_reduce (\<lambda>k. di_req_conflicts i k \<or> di_raw i k) \<or> \<not> ?free")
    case True
    with assms(1) show ?thesis by (auto simp: dec1_issue_def Let_def)
  next
    case False
    with assms(1) obtain op' s1 where w: "sb_write_req C (di_wg_late i) op ?s = Inr (op', s1)" and r: "r = Some op'"
      and s': "s' = next_warp C (let s = s1\<lparr>do_insn := op', d1_op_retry := (\<lambda>_. True),
          d1_op := (if dc_active_warp s1 = dc_last_warp s1 then op' else op'\<lparr>i_on_sb := False\<rparr>)\<rparr>
        in if i_op op' = OP_SIDIV \<or> i_op op' = OP_SIMOD then set_sidiv_stall_counters s else s)"
      by (auto simp: dec1_issue_def Let_def bindE_Inr_iff)
    note k = sb_write_keeps[OF w]
    have "needs_all op' = needs_all op" using k by (intro needs_all_cong insn_core_op) simp_all
    with k assms(2-4) show ?thesis
      by (simp add: r s' next_warp_def set_sidiv_stall_counters_def Let_def)
  qed
qed

lemma dec1_rest_step:
  assumes "dec1_rest C i op pc s = Inr (r, s')" "i_op op \<noteq> OP_SENTINEL"
  shows "warp_step C op s r s'"
proof -
  from assms(1) obtain req op1 s1 where
    p: "op_process_implicit_dst C s op = Inr op1" and x: "op_ldst_xlat_idx C op1 s = Inr s1"
    and iss: "dec1_issue C i op1 (dec1_outputs C i pc op1 req s1) = Inr (r, s')"
    unfolding dec1_rest_def bindE_Inr_iff by blast
  note c = process_dst_core[OF p assms(2)] and k = xlat_keeps[OF x]
  have o: "i_op op1 = i_op op" using c by (intro insn_core_op) simp
  have cols: "do_col_w (dec1_outputs C i pc op1 req s1) = col_trunc C (getCol C s op)"
    "do_subcol_w (dec1_outputs C i pc op1 req s1) = getSubcol C s op mod 2 ^ const_log2 (rcpu_ratio C)"
    using k o by (simp_all add: dec1_outputs_def getCol_def getSubcol_def)
  have aw: "dc_active_warp (dec1_outputs C i pc op1 req s1) = dc_active_warp s" "dc_last_warp (dec1_outputs C i pc op1 req s1) = dc_last_warp s"
    using k by (simp_all add: dec1_outputs_def)
  have n: "needs_all op1 \<longrightarrow> (i_commit op1 \<longleftrightarrow> dc_active_warp (dec1_outputs C i pc op1 req s1) = dc_last_warp (dec1_outputs C i pc op1 req s1))"
    using c by (simp add: aw)
  from c have core: "insn_core op1 = insn_core op" ..
  from dec1_issue_step[OF iss cols n] show ?thesis unfolding warp_step_def aw core .
qed

subsection \<open>The enumeration of warps\<close>

text \<open>What a cycle issues: the instruction with the column and the sub-column it works on.\<close>

definition dec1_step :: "dec_cfg \<Rightarrow> dec_inputs \<Rightarrow> dec1 \<Rightarrow> ((Instruction \<times> nat \<times> nat) option \<times> dec1) res" where
  "dec1_step C i s =
    bindE (dec1_thread_lt C i s) (\<lambda>(r, s'). Inr (map_option (\<lambda>op. (op, do_col_w s', do_subcol_w s')) r, s'))"

definition issued :: "'x option list \<Rightarrow> 'x list" where
  "issued os = map the (filter (\<lambda>x. x \<noteq> None) os)"

lemma issued_simps [simp]: "issued [] = []" "issued (None # os) = issued os" "issued (Some x # os) = x # issued os"
  by (simp_all add: issued_def)

definition undisturbed :: "dec_inputs \<Rightarrow> bool" where
  "undisturbed i \<longleftrightarrow> \<not> di_wg_finished i (di_wg i) \<and> \<not> di_pipe_flush i"

text \<open>The column and the sub-column of warp \<open>w\<close>, and what the issue for it must look like.\<close>

definition warp_col :: "dec_cfg \<Rightarrow> Instruction \<Rightarrow> nat \<Rightarrow> nat" where
  "warp_col C op w = col_trunc C (if opCategory (i_op op) = CAT_ARITH_RCPU then w div rcpu_ratio C else w)"

definition warp_subcol :: "dec_cfg \<Rightarrow> Instruction \<Rightarrow> nat \<Rightarrow> nat" where
  "warp_subcol C op w =
    (if opCategory (i_op op) = CAT_ARITH_RCPU then w mod rcpu_ratio C else 0) mod 2 ^ const_log2 (rcpu_ratio C)"

definition warp_issue :: "dec_cfg \<Rightarrow> Instruction \<Rightarrow> nat \<Rightarrow> nat \<Rightarrow> Instruction \<times> nat \<times> nat \<Rightarrow> bool" where
  "warp_issue C op L w x \<longleftrightarrow>
    (case x of (op', c, sc) \<Rightarrow> insn_core op' = insn_core op \<and> c = warp_col C op w \<and> sc = warp_subcol C op w \<and>
      (needs_all op' \<longrightarrow> (i_commit op' \<longleftrightarrow> w = L)))"

text \<open>The decoder in the middle of an instruction: warp \<open>w\<close> of \<open>op\<close> is the next one to issue.\<close>

definition at_warp :: "Instruction \<Rightarrow> nat \<Rightarrow> nat \<Rightarrow> dec1 \<Rightarrow> bool" where
  "at_warp op L w s \<longleftrightarrow>
    insn_core (d1_op s) = insn_core op \<and> dc_active_warp s = w \<and> dc_last_warp s = L \<and> do_stall_f s"

lemma at_warp_rest:
  assumes "at_warp op L w s" "undisturbed i" "dec1_thread_lt C i s = Inr (r, s')"
  shows "dec1_rest C i (d1_op s) (d1_pc s) s = Inr (r, s')"
  using assms by (simp add: dec1_thread_lt_def select_op_def undisturbed_def at_warp_def)

lemma warp_step_cases:
  assumes "warp_step C op' s r s'" "insn_core op' = insn_core op" "dc_active_warp s = w" "dc_last_warp s = L" "w \<le> L"
    "L < 2 ^ const_log2 (x_THREADS C div x_RCPUS C)"
  shows "(r = None \<and> at_warp op L w s') \<or>
    (\<exists>x. r = Some x \<and> warp_issue C op L w (x, do_col_w s', do_subcol_w s') \<and>
      (if w = L then \<not> do_stall_f s' \<and> dc_active_warp s' = 0 else at_warp op L (Suc w) s'))"
proof (cases r)
  case None
  with assms show ?thesis by (simp add: warp_step_def at_warp_def)
next
  case (Some x)
  have o: "i_op op' = i_op op" using assms(2) by (rule insn_core_op)
  have "(w + 1) mod 2 ^ const_log2 (x_THREADS C div x_RCPUS C) = Suc w" if "w \<noteq> L" using that assms(5,6) by simp
  with Some assms show ?thesis
    by (auto simp: warp_step_def at_warp_def warp_issue_def warp_col_def warp_subcol_def getCol_def getSubcol_def o)
qed

text \<open>From warp \<open>w\<close> on, for a run that ends with the last issue.\<close>

definition enum_ok :: "dec_cfg \<Rightarrow> Instruction \<Rightarrow> nat \<Rightarrow> nat \<Rightarrow> (Instruction \<times> nat \<times> nat) option list \<Rightarrow> dec1 \<Rightarrow> bool" where
  "enum_ok C op L w os s' \<longleftrightarrow>
    (\<forall>k < length (issued os). warp_issue C op L (w + k) (issued os ! k)) \<and> \<not> do_stall_f s' \<and> dc_active_warp s' = 0"

lemma issued_empty: "issued os = [] \<Longrightarrow> os = [] \<or> last os = None"
proof (rule ccontr)
  assume a: "issued os = []" "\<not> (os = [] \<or> last os = None)"
  then have "last os \<in> set (filter (\<lambda>x. x \<noteq> None) os)" by simp
  with a(1) show False unfolding issued_def by (metis empty_iff empty_set map_is_Nil_conv)
qed

lemma enum_step:
  assumes st: "(r = None \<and> at_warp op L w s1) \<or>
      (\<exists>x. r = Some x \<and> warp_issue C op L w (x, do_col_w s1, do_subcol_w s1) \<and>
        (if w = L then \<not> do_stall_f s1 \<and> dc_active_warp s1 = 0 else at_warp op L (Suc w) s1))"
    and rn: "runE (dec1_step C) is s1 = Inr (os', s')" and os: "os = map_option (\<lambda>op. (op, do_col_w s1, do_subcol_w s1)) r # os'"
    and w: "w \<le> L" and len: "length (issued os) = Suc L - w" and l: "last os \<noteq> None"
    and IH: "\<And>w. at_warp op L w s1 \<Longrightarrow> w \<le> L \<Longrightarrow> length (issued os') = Suc L - w \<Longrightarrow> last os' \<noteq> None \<Longrightarrow> enum_ok C op L w os' s'"
  shows "enum_ok C op L w os s'"
  using st
proof (elim disjE exE conjE)
  assume n: "r = None" "at_warp op L w s1"
  with len l have "length (issued os') = Suc L - w" "last os' \<noteq> None" by (auto simp: os split: if_splits)
  with IH[OF n(2) w] show ?thesis by (simp add: os n(1) enum_ok_def)
next
  fix y assume y: "r = Some y" "warp_issue C op L w (y, do_col_w s1, do_subcol_w s1)"
    "if w = L then \<not> do_stall_f s1 \<and> dc_active_warp s1 = 0 else at_warp op L (Suc w) s1"
  have len': "length (issued os') = Suc L - Suc w" using len by (simp add: os y(1))
  show ?thesis
  proof (cases "w = L")
    case True
    with len' have "issued os' = []" by simp
    from issued_empty[OF this] l have "os' = []" by (simp add: os split: if_splits)
    with rn have "s' = s1" by (cases "is") (auto simp: bindE_Inr_iff)
    with True y \<open>os' = []\<close> show ?thesis by (simp add: os enum_ok_def)
  next
    case False
    with w have w': "Suc w \<le> L" by simp
    with len' have "os' \<noteq> []" by (cases os') auto
    with l have "last os' \<noteq> None" by (simp add: os)
    from IH[OF _ w' len' this] False y(3) have ok: "enum_ok C op L (Suc w) os' s'" by simp
    have "warp_issue C op L (w + k) (issued os ! k)" if "k < length (issued os)" for k
      using that ok y(2) by (cases k) (simp_all add: os y(1) enum_ok_def)
    with ok show ?thesis by (simp add: enum_ok_def)
  qed
qed

lemma dec1_run:
  assumes "L < 2 ^ const_log2 (x_THREADS C div x_RCPUS C)" "i_op op \<noteq> OP_SENTINEL"
    "at_warp op L w s" "w \<le> L" "\<forall>i\<in>set is. undisturbed i" "runE (dec1_step C) is s = Inr (os, s')"
    "length (issued os) = Suc L - w" "last os \<noteq> None"
  shows "enum_ok C op L w os s'"
  using assms(3-8)
proof (induction "is" arbitrary: s os w)
  case Nil
  then show ?case by simp
next
  case (Cons i "is")
  from Cons.prems(4) obtain x s1 os' where st: "dec1_step C i s = Inr (x, s1)" and rn: "runE (dec1_step C) is s1 = Inr (os', s')"
    and os: "os = x # os'" by (rule runE_ConsD)
  from st obtain r where r: "dec1_thread_lt C i s = Inr (r, s1)" "x = map_option (\<lambda>op. (op, do_col_w s1, do_subcol_w s1)) r"
    by (auto simp: dec1_step_def bindE_Inr_iff)
  have und: "undisturbed i" "\<forall>i\<in>set is. undisturbed i" using Cons.prems(3) by simp_all
  have a: "insn_core (d1_op s) = insn_core op" "dc_active_warp s = w" "dc_last_warp s = L"
    using Cons.prems(1) by (simp_all add: at_warp_def)
  have "i_op (d1_op s) \<noteq> OP_SENTINEL" using insn_core_op[OF a(1)] assms(2) by simp
  from dec1_rest_step[OF at_warp_rest[OF Cons.prems(1) und(1) r(1)] this] have ws: "warp_step C (d1_op s) s r s1" .
  show ?case
    using enum_step[OF warp_step_cases[OF ws a Cons.prems(2) assms(1)] rn _ Cons.prems(2,5,6)] Cons.IH[OF _ _ und(2) rn] os r(2)
    by blast
qed

text \<open>A run that ends with the last issue has issued the operation for every warp, in order.\<close>

lemma decode_issues_warps:
  assumes "dc_active_warp s = 0" "\<not> do_stall_f s" "di_thread_active i (di_wg i)" "\<forall>j\<in>set (i # is). undisturbed j"
    "fetch_op C i s = Inr (op, s1)" "L = dc_last_warp s1" "L < 2 ^ const_log2 (x_THREADS C div x_RCPUS C)" "i_op op \<noteq> OP_SENTINEL"
    "runE (dec1_step C) (i # is) s = Inr (os, s')" "length (issued os) = Suc L" "last os \<noteq> None"
  shows "(\<forall>w \<le> L. warp_issue C op L w (issued os ! w)) \<and> \<not> do_stall_f s' \<and> dc_active_warp s' = 0"
proof -
  let ?s = "s1\<lparr>d1_op := op, do_stall_f := True\<rparr>"
  from assms(5) have s1: "dc_active_warp s1 = 0" using assms(1) by (auto simp: fetch_op_def Let_def bindE_Inr_iff)
  from assms(9) obtain x s2 os' where st: "dec1_step C i s = Inr (x, s2)" and rn: "runE (dec1_step C) is s2 = Inr (os', s')"
    and os: "os = x # os'" by (rule runE_ConsD)
  from st obtain r where r: "dec1_thread_lt C i s = Inr (r, s2)" "x = map_option (\<lambda>op. (op, do_col_w s2, do_subcol_w s2)) r"
    by (auto simp: dec1_step_def bindE_Inr_iff)
  have und: "undisturbed i" "\<forall>i\<in>set is. undisturbed i" using assms(4) by simp_all
  have "dec1_rest C i op (di_pc i) s1 = Inr (r, s2)"
    using r(1) assms(1-3,5) und(1) by (simp add: dec1_thread_lt_def select_op_def undisturbed_def)
  note ws = warp_step_cases[OF dec1_rest_step[OF this assms(8)] refl s1 assms(6)[symmetric] le0 assms(7)]
  have "enum_ok C op L 0 os s'"
    using enum_step[OF ws rn _ le0 _ assms(11)] dec1_run[OF assms(7,8) _ _ und(2) rn] assms(10) os r(2) by simp
  then show ?thesis using assms(10) by (simp add: enum_ok_def less_Suc_eq_le)
qed

subsection \<open>Progress\<close>

text \<open>
  A cycle is clear when neither the scoreboard nor the register file holds the decoder back. The divider does as long as the
  counter that concerns the operation, another one for a division than for the rest, is not down to zero;
  \<open>divider_busy dv b\<close> says that it is there after \<open>b\<close> more cycles. The issue of a division sets it to eight.
\<close>

definition clear_cycle :: "dec_inputs \<Rightarrow> bool" where
  "clear_cycle i \<longleftrightarrow> \<not> or_reduce (\<lambda>k. di_req_conflicts i k \<or> di_raw i k) \<and> \<not> di_sb_cpop_stall i (di_wg_late i)"

definition divides :: "Instruction \<Rightarrow> bool" where
  "divides op \<longleftrightarrow> i_op op = OP_SIDIV \<or> i_op op = OP_SIMOD"

definition divider_busy :: "bool \<Rightarrow> nat \<Rightarrow> 'a dec_scheme \<Rightarrow> bool" where
  "divider_busy dv b s \<longleftrightarrow> (let n = (if dv then dc_sidiv_issue_dist_stall s else dc_sidiv_pipe_stall s) in 0 \<le> n \<and> n \<le> int b)"

definition issue_stall :: "bool \<Rightarrow> nat" where
  "issue_stall dv = (if dv then 8 else 0)"

lemma divider_busy_mono: "divider_busy dv b s \<Longrightarrow> b \<le> c \<Longrightarrow> divider_busy dv c s"
  by (auto simp: divider_busy_def Let_def)

lemma divider_busy_keeps [simp]:
  "divider_busy dv b (count_stall r c f s) = divider_busy dv b s" "divider_busy dv b (next_warp C s) = divider_busy dv b s"
  by (simp_all add: divider_busy_def count_stall_def next_warp_def)

lemma divider_busy_decrement: "divider_busy dv b s \<Longrightarrow> divider_busy dv (b - 1) (decrement_sidiv_stall_counters s)"
  by (auto simp: divider_busy_def decrement_sidiv_stall_counters_def Let_def)

lemma sb_write_divider: "sb_write_req C w op s = Inr (op', s') \<Longrightarrow> divider_busy dv b s' = divider_busy dv b s"
  by (auto simp: sb_write_req_def bindE_Inr_iff Let_def divider_busy_def split: if_splits)

lemma dec1_issue_progress:
  assumes "dec1_issue C i op s = Inr (r, s')" "divider_busy (divides op) b s"
  shows "r = None \<Longrightarrow> divider_busy (divides op) (b - 1) s'" and "r \<noteq> None \<Longrightarrow> divider_busy (divides op) (issue_stall (divides op)) s'"
    and "r = None \<Longrightarrow> clear_cycle i \<Longrightarrow> 0 < b"
proof -
  let ?free = "op_can_issue i op (di_wg_late i) s" and ?s = "decrement_sidiv_stall_counters s"
  let ?stall = "or_reduce (\<lambda>k. di_req_conflicts i k \<or> di_raw i k) \<or> \<not> ?free"
  have r: "r = None \<longleftrightarrow> ?stall" using assms(1) by (auto simp: dec1_issue_def Let_def bindE_Inr_iff)
  show "divider_busy (divides op) (b - 1) s'" if "r = None"
    using assms(1) that r divider_busy_decrement[OF assms(2)] by (auto simp: dec1_issue_def Let_def divider_busy_def count_stall_def)
  show "divider_busy (divides op) (issue_stall (divides op)) s'" if "r \<noteq> None"
  proof -
    from that r have f: "\<not> ?stall" by simp
    with assms(1) obtain op' s1 where w: "sb_write_req C (di_wg_late i) op ?s = Inr (op', s1)"
      and s': "s' = next_warp C (let s = s1\<lparr>do_insn := op', d1_op_retry := (\<lambda>_. True),
          d1_op := (if dc_active_warp s1 = dc_last_warp s1 then op' else op'\<lparr>i_on_sb := False\<rparr>)\<rparr>
        in if i_op op' = OP_SIDIV \<or> i_op op' = OP_SIMOD then set_sidiv_stall_counters s else s)"
      by (auto simp: dec1_issue_def Let_def bindE_Inr_iff)
    have o: "i_op op' = i_op op" using sb_write_keeps[OF w] insn_core_op by blast
    show ?thesis
    proof (cases "divides op")
      case True
      then show ?thesis by (simp add: s' o divides_def Let_def issue_stall_def divider_busy_def set_sidiv_stall_counters_def next_warp_def)
    next
      case False
      then have "divider_busy False 0 s" using f by (auto simp: op_can_issue_def divides_def divider_busy_def split: if_splits)
      then have "divider_busy False 0 s1" using sb_write_divider[OF w] divider_busy_decrement by fastforce
      then show ?thesis using False by (simp add: s' o divides_def Let_def issue_stall_def) (simp add: divider_busy_def)
    qed
  qed
  show "0 < b" if "r = None" "clear_cycle i"
    using that r assms(2) by (cases b) (auto simp: clear_cycle_def op_can_issue_def divider_busy_def divides_def Let_def split: if_splits)
qed

lemma dec1_rest_progress:
  assumes "dec1_rest C i op pc s = Inr (r, s')" "i_op op \<noteq> OP_SENTINEL" "divides op = dv" "divider_busy dv b s"
  shows "if r = None then divider_busy dv (b - 1) s' \<and> (clear_cycle i \<longrightarrow> 0 < b) else divider_busy dv (issue_stall dv) s'"
proof -
  from assms(1) obtain req op1 s1 where p: "op_process_implicit_dst C s op = Inr op1" and x: "op_ldst_xlat_idx C op1 s = Inr s1"
    and iss: "dec1_issue C i op1 (dec1_outputs C i pc op1 req s1) = Inr (r, s')"
    unfolding dec1_rest_def bindE_Inr_iff by blast
  have "i_op op1 = i_op op" using process_dst_core[OF p assms(2)] by (intro insn_core_op) simp
  then have dv: "divides op1 = dv" using assms(3) by (simp add: divides_def)
  have "divider_busy (divides op1) b (dec1_outputs C i pc op1 req s1)"
    unfolding dv using xlat_keeps[OF x] assms(4) by (cases dv) (simp_all add: dec1_outputs_def divider_busy_def)
  from dec1_issue_progress[OF iss this, unfolded dv] show ?thesis by simp
qed

definition clear_cycles :: "dec_inputs list \<Rightarrow> nat" where
  "clear_cycles is = length (filter clear_cycle is)"

lemma clear_cycles_simps [simp]:
  "clear_cycles [] = 0" "clear_cycles (i # is) = (if clear_cycle i then Suc (clear_cycles is) else clear_cycles is)"
  by (simp_all add: clear_cycles_def)

text \<open>A prefix of the run that ends with the last issue.\<close>

definition done_by :: "dec_cfg \<Rightarrow> dec_inputs list \<Rightarrow> dec1 \<Rightarrow> (Instruction \<times> nat \<times> nat) option list \<Rightarrow> nat \<Rightarrow> bool" where
  "done_by C is s os n \<longleftrightarrow> (\<exists>m u. m \<le> length is \<and> runE (dec1_step C) (take m is) s = Inr (take m os, u) \<and>
     length (issued (take m os)) = n \<and> take m os \<noteq> [] \<and> last (take m os) \<noteq> None)"

lemma done_by_step:
  assumes "done_by C is s1 os n" "dec1_step C i s = Inr (x, s1)"
  shows "done_by C (i # is) s (x # os) (n + (if x = None then 0 else 1))"
proof -
  from assms(1) obtain m u where m: "m \<le> length is" "runE (dec1_step C) (take m is) s1 = Inr (take m os, u)"
    "length (issued (take m os)) = n" "take m os \<noteq> []" "last (take m os) \<noteq> None"
    by (auto simp: done_by_def)
  then show ?thesis
    using assms(2) unfolding done_by_def
    by (intro exI[of _ "Suc m"] exI[of _ u]) (auto simp: issued_def)
qed

lemma progress_step:
  assumes "dec1_step C i s = Inr (x, s1)" "x = map_option (\<lambda>op. (op, do_col_w s1, do_subcol_w s1)) r"
    "(r = None \<and> at_warp op L w s1) \<or>
      (\<exists>x. r = Some x \<and> warp_issue C op L w (x, do_col_w s1, do_subcol_w s1) \<and>
        (if w = L then \<not> do_stall_f s1 \<and> dc_active_warp s1 = 0 else at_warp op L (Suc w) s1))"
    "if r = None then divider_busy dv (b - 1) s1 \<and> (clear_cycle i \<longrightarrow> 0 < b) else divider_busy dv (issue_stall dv) s1"
    "w \<le> L" "Suc b + Suc (issue_stall dv) * (L - w) \<le> clear_cycles (i # is)"
    "\<And>w b. at_warp op L w s1 \<Longrightarrow> w \<le> L \<Longrightarrow> divider_busy dv b s1 \<Longrightarrow> Suc b + Suc (issue_stall dv) * (L - w) \<le> clear_cycles is \<Longrightarrow>
      done_by C is s1 os' (Suc L - w)"
  shows "done_by C (i # is) s (x # os') (Suc L - w)"
  using assms(3)
proof (elim disjE exE conjE)
  assume n: "r = None" "at_warp op L w s1"
  have "Suc (b - 1) + Suc (issue_stall dv) * (L - w) \<le> clear_cycles is \<or> Suc b + Suc (issue_stall dv) * (L - w) \<le> clear_cycles is"
    using assms(4) n(1) assms(6) by (cases "clear_cycle i") (auto simp: not_less)
  moreover have b: "divider_busy dv (b - 1) s1" using assms(4) n(1) by simp
  moreover from b have "divider_busy dv b s1" by (rule divider_busy_mono) simp
  ultimately have "done_by C is s1 os' (Suc L - w)"
    using assms(7)[OF n(2) assms(5), of "b - 1"] assms(7)[OF n(2) assms(5), of b] by blast
  from done_by_step[OF this assms(1)] show ?thesis by (simp add: assms(2) n(1))
next
  fix y assume y: "r = Some y" "if w = L then \<not> do_stall_f s1 \<and> dc_active_warp s1 = 0 else at_warp op L (Suc w) s1"
  show ?thesis
  proof (cases "w = L")
    case True
    then show ?thesis using assms(1)
      unfolding done_by_def by (intro exI[of _ 1] exI[of _ s1]) (simp add: assms(2) y(1))
  next
    case False
    with assms(5) have w: "Suc w \<le> L" "L - w = Suc (L - Suc w)" by simp_all
    have "Suc (issue_stall dv) + Suc (issue_stall dv) * (L - Suc w) = Suc (issue_stall dv) * (L - w)" by (simp add: w(2))
    then have "Suc (issue_stall dv) + Suc (issue_stall dv) * (L - Suc w) \<le> clear_cycles is"
      using assms(6) by (simp split: if_splits)
    moreover have "divider_busy dv (issue_stall dv) s1" using assms(4) y(1) by simp
    ultimately have "done_by C is s1 os' (Suc L - Suc w)" using assms(7)[OF _ w(1)] y(2) False by simp
    from done_by_step[OF this assms(1)] show ?thesis using w by (simp add: assms(2) y(1) Suc_diff_le)
  qed
qed

lemma progress_run:
  assumes "L < 2 ^ const_log2 (x_THREADS C div x_RCPUS C)" "i_op op \<noteq> OP_SENTINEL" "divides op = dv"
    "at_warp op L w s" "w \<le> L" "\<forall>i\<in>set is. undisturbed i" "runE (dec1_step C) is s = Inr (os, s')"
    "divider_busy dv b s" "Suc b + Suc (issue_stall dv) * (L - w) \<le> clear_cycles is"
  shows "done_by C is s os (Suc L - w)"
  using assms(4-9)
proof (induction "is" arbitrary: s os w b)
  case Nil
  then show ?case by simp
next
  case (Cons i "is")
  from Cons.prems(4) obtain x s1 os' where st: "dec1_step C i s = Inr (x, s1)" and rn: "runE (dec1_step C) is s1 = Inr (os', s')"
    and os: "os = x # os'" by (rule runE_ConsD)
  from st obtain r where r: "dec1_thread_lt C i s = Inr (r, s1)" "x = map_option (\<lambda>op. (op, do_col_w s1, do_subcol_w s1)) r"
    by (auto simp: dec1_step_def bindE_Inr_iff)
  have und: "undisturbed i" "\<forall>i\<in>set is. undisturbed i" using Cons.prems(3) by simp_all
  have a: "insn_core (d1_op s) = insn_core op" "dc_active_warp s = w" "dc_last_warp s = L"
    using Cons.prems(1) by (simp_all add: at_warp_def)
  have o: "i_op (d1_op s) \<noteq> OP_SENTINEL" "divides (d1_op s) = dv" using insn_core_op[OF a(1)] assms(2,3) by (simp_all add: divides_def)
  note rest = at_warp_rest[OF Cons.prems(1) und(1) r(1)]
  note ws = warp_step_cases[OF dec1_rest_step[OF rest o(1)] a Cons.prems(2) assms(1)]
  note P = dec1_rest_progress[OF rest o Cons.prems(5)]
  show ?case
    unfolding os by (rule progress_step[OF st r(2) ws P Cons.prems(2,6)]) (rule Cons.IH[OF _ _ und(2) rn])
qed

text \<open>
  C35. The decoder issues every instruction once for each of its warps, in order. Take a decoder that is ready for an
  instruction and an instruction that arrives and is not flushed, with its work-group not finished meanwhile. Whatever hazards stall
  it, in whatever cycles: as soon as enough cycles were clear of scoreboard and register file hazards, one for each warp, nine for
  each warp of a division, and one more for every cycle the divider was still busy, it has issued exactly that
  operation with its operands, for warp 0, 1 and so on, each for its own column (an operation of the reciprocal unit for its own
  part of a column); the commit bit of an operation that collects a mask is set for the last warp and no other; and then
  the decoder is ready for the next instruction. No cycle of the run may abort.
\<close>

theorem decode_enumerates_warps:
  assumes "dc_active_warp s = 0" "\<not> do_stall_f s" "di_thread_active i (di_wg i)" "\<forall>j\<in>set (i # is). undisturbed j"
    "fetch_op C i s = Inr (op, s1)" "L = dc_last_warp s1" "L < 2 ^ const_log2 (x_THREADS C div x_RCPUS C)" "i_op op \<noteq> OP_SENTINEL"
    "runE (dec1_step C) (i # is) s = Inr (os, s')" "divider_busy (divides op) b s"
    "Suc b + (if divides op then 9 else 1) * L \<le> clear_cycles (i # is)"
  shows "\<exists>m u. m \<le> length (i # is) \<and> runE (dec1_step C) (take m (i # is)) s = Inr (take m os, u) \<and>
    length (issued (take m os)) = Suc L \<and> (\<forall>w \<le> L. warp_issue C op L w (issued (take m os) ! w)) \<and>
    \<not> do_stall_f u \<and> dc_active_warp u = 0"
proof -
  from assms(5) have s1: "dc_active_warp s1 = 0" "divider_busy (divides op) b s1"
    using assms(1,10) by (auto simp: fetch_op_def Let_def bindE_Inr_iff divider_busy_def)
  from assms(9) obtain x s2 os' where st: "dec1_step C i s = Inr (x, s2)" and rn: "runE (dec1_step C) is s2 = Inr (os', s')"
    and os: "os = x # os'" by (rule runE_ConsD)
  from st obtain r where r: "dec1_thread_lt C i s = Inr (r, s2)" "x = map_option (\<lambda>op. (op, do_col_w s2, do_subcol_w s2)) r"
    by (auto simp: dec1_step_def bindE_Inr_iff)
  have und: "undisturbed i" "\<forall>i\<in>set is. undisturbed i" using assms(4) by simp_all
  have rest: "dec1_rest C i op (di_pc i) s1 = Inr (r, s2)"
    using r(1) assms(1-3,5) und(1) by (simp add: dec1_thread_lt_def select_op_def undisturbed_def)
  note ws = warp_step_cases[OF dec1_rest_step[OF rest assms(8)] refl s1(1) assms(6)[symmetric] le0 assms(7)]
  note P = dec1_rest_progress[OF rest assms(8) refl s1(2)]
  have c: "Suc b + Suc (issue_stall (divides op)) * (L - 0) \<le> clear_cycles (i # is)"
    using assms(11) by (cases "divides op") (simp_all add: issue_stall_def)
  have "done_by C (i # is) s (x # os') (Suc L - 0)"
    by (rule progress_step[OF st r(2) ws P le0 c]) (rule progress_run[OF assms(7,8) refl _ _ und(2) rn])
  then obtain m u where m: "m \<le> length (i # is)" "runE (dec1_step C) (take m (i # is)) s = Inr (take m os, u)"
    "length (issued (take m os)) = Suc L" "take m os \<noteq> []" "last (take m os) \<noteq> None"
    by (auto simp: done_by_def os)
  then obtain k where k: "m = Suc k" by (cases m) auto
  have "\<forall>j\<in>set (i # take k is). undisturbed j" using assms(4) by (auto dest: in_set_takeD)
  from decode_issues_warps[OF assms(1-3) this assms(5-8) _ m(3,5)] m k show ?thesis by auto
qed

text \<open>A pop of the control stack on two warps, with a hazard between them.\<close>

definition dec_example :: "Instruction \<Rightarrow> bool \<Rightarrow> dec_inputs" where
  "dec_example op hazard = \<lparr>di_insn = op, di_pc = 3, di_wg = 0, di_wg_late = 0, di_last_warp = (\<lambda>_. 1), di_thread_active = (\<lambda>_. True),
     di_wg_finished = (\<lambda>_. False), di_sb_cpop_stall = (\<lambda>_. False), di_entries_pop = (\<lambda>_ _. True), di_pipe_flush = False,
     di_raw = (\<lambda>k. hazard \<and> k = 0), di_req_conflicts = (\<lambda>_. False), di_operand = (\<lambda>_ _. 0)\<rparr>"

definition tiny_dec :: dec_cfg where
  "tiny_dec = \<lparr>x_THREADS = 8, x_LANES = 4, x_RCPUS = 2, x_PC_WIDTH = 11, x_XLAT_ENTRIES = 32\<rparr>"

lemma insn_of_sel [simp]:
  "i_op (insn_of op) = op" "i_srcs (insn_of op) = 0" "i_dst (insn_of op) = Operand_none" "i_dead (insn_of op) = False"
  "i_injected (insn_of op) = False" "i_on_sb (insn_of op) = False" "i_on_cstack_sb (insn_of op) = False"
  by (simp_all add: insn_of_def Instruction_default_def)

lemma cpop_table:
  "opCategory OP_CPOP = CAT_CTRLFLOW" "isVectorInstruction (insn_of OP_CPOP) = True" "ldst (insn_of OP_CPOP) = False"
  "doesCPUSH (insn_of OP_CPOP) = False"
  by (simp_all add: opCategory_def isVectorInstruction_def ldst_def doesCPUSH_def op_validate_def op_validate_table
    ISAOpSpec_def ISAOpSpec_default_def)

lemma flag_upd [simp]:
  "ldst (op\<lparr>i_commit := c\<rparr>) = ldst op" "doesCPUSH (op\<lparr>i_commit := c\<rparr>) = doesCPUSH op" "hasDst (op\<lparr>i_commit := c\<rparr>) = hasDst op"
  "ldst (op\<lparr>i_on_sb := c\<rparr>) = ldst op" "doesCPUSH (op\<lparr>i_on_sb := c\<rparr>) = doesCPUSH op" "hasDst (op\<lparr>i_on_sb := c\<rparr>) = hasDst op"
  by (simp_all add: ldst_def doesCPUSH_def hasDst_def)

lemma decode_enumerates_warps_witness:
  "\<exists>u m os. runE (dec1_step tiny_dec) (take m [dec_example (insn_of OP_CPOP) False, dec_example (insn_of OP_CPOP) True,
      dec_example (insn_of OP_CPOP) False]) (IDecode_1S 0 \<lparr>rq_reg = (\<lambda>_. Register_wg 0), rq_r = (\<lambda>_. False), rq_imm = (\<lambda>_. 0)\<rparr>) =
     Inr (os, u) \<and> map snd (issued os) = [(0, 0), (1, 0)] \<and> dc_active_warp u = 0"
proof -
  let ?i = "\<lambda>h. dec_example (insn_of OP_CPOP) h"
  let ?s = "IDecode_1S 0 \<lparr>rq_reg = (\<lambda>_. Register_wg 0), rq_r = (\<lambda>_. False), rq_imm = (\<lambda>_. 0)\<rparr>"
  have s: "dc_active_warp ?s = 0" "\<not> do_stall_f ?s" by (simp_all add: IDecode_1S_def IDecode_def dec.extend_def)
  obtain s1 where f: "fetch_op tiny_dec (?i False) ?s = Inr (insn_of OP_CPOP, s1)" "dc_last_warp s1 = 1"
    by (simp add: fetch_op_def dec_example_def cpop_table op_add_implicit_src_def)
  obtain os s' where r: "runE (dec1_step tiny_dec) [?i False, ?i True, ?i False] ?s = Inr (os, s')"
    by (simp add: dec1_step_def dec1_thread_lt_def select_op_def fetch_op_def dec_example_def cpop_table op_add_implicit_src_def
      IDecode_1S_def IDecode_def dec.extend_def dec1_rest_def forward_read_reqs_1S_def op_process_implicit_dst_def implicit_dst_def
      writesCMASK_def op_ldst_xlat_idx_def dec1_issue_def dec1_outputs_def op_can_issue_def or_reduce_def sb_write_req_def
      hasDst_def Operand_none_def next_warp_def tiny_dec_def Let_def const_log2_numeral decrement_sidiv_stall_counters_def count_stall_def issued_def)
  have "\<forall>j\<in>set [?i False, ?i True, ?i False]. undisturbed j" "di_thread_active (?i False) (di_wg (?i False))"
    by (simp_all add: undisturbed_def dec_example_def)
  note und = this
  have dv: "\<not> divides (insn_of OP_CPOP)" by (simp add: divides_def)
  have bz: "divider_busy (divides (insn_of OP_CPOP)) 0 ?s"
    by (simp add: dv divider_busy_def IDecode_1S_def IDecode_def dec.extend_def)
  have cl: "Suc 0 + (if divides (insn_of OP_CPOP) then 9 else 1) * 1 \<le> clear_cycles [?i False, ?i True, ?i False]"
    by (simp add: dv clear_cycle_def dec_example_def or_reduce_def)
  have L: "(1::nat) < 2 ^ const_log2 (x_THREADS tiny_dec div x_RCPUS tiny_dec)" "i_op (insn_of OP_CPOP) \<noteq> OP_SENTINEL"
    by (simp_all add: tiny_dec_def const_log2_numeral)
  from decode_enumerates_warps[OF s und(2,1) f(1) f(2)[symmetric] L r bz cl] obtain m u where
    m: "runE (dec1_step tiny_dec) (take m [?i False, ?i True, ?i False]) ?s = Inr (take m os, u)" "length (issued (take m os)) = Suc 1"
    "\<forall>w\<le>1. warp_issue tiny_dec (insn_of OP_CPOP) 1 w (issued (take m os) ! w)" "dc_active_warp u = 0" by blast
  from m(3) have "warp_issue tiny_dec (insn_of OP_CPOP) 1 0 (issued (take m os) ! 0)"
    "warp_issue tiny_dec (insn_of OP_CPOP) 1 1 (issued (take m os) ! 1)" by blast+
  moreover have "const_log2 2 = 1" using const_log2_pow2[of 1] by simp
  ultimately have "snd (issued (take m os) ! 0) = (0, 0)" "snd (issued (take m os) ! 1) = (1, 0)"
    by (auto simp: warp_issue_def warp_col_def warp_subcol_def cpop_table tiny_dec_def col_trunc_def rcpu_ratio_def split: prod.splits)
  moreover obtain x y where "issued (take m os) = [x, y]" using m(2) by (auto simp: length_Suc_conv)
  ultimately have "map snd (issued (take m os)) = [(0, 0), (1, 0)]" by simp
  note i = this
  show ?thesis by (rule exI[of _ u], rule exI[of _ m], rule exI[of _ "take m os"], intro conjI, rule m(1), rule i, rule m(4))
qed

subsection \<open>Decoder and scoreboard\<close>

text \<open>
  The scoreboard counts the control stack writes that are under way: at every clock edge at which
  \<open>out_enqueue_sb_cstack_write\<close> is set it counts one. The pair of both, in which nothing is dequeued.
\<close>

definition sb_inputs_of :: "'a dec_scheme \<Rightarrow> sb_inputs" where
  "sb_inputs_of s = \<lparr>in_dequeue = False, in_enqueue = do_enqueue_sb s, in_dequeue_cstack_write = False, in_dequeue_cstack_wg = 0,
     in_enqueue_cstack_write = do_enqueue_sb_cstack_write s, in_enqueue_cstack_wg = do_enqueue_sb_cstack_wg s,
     in_req_w = do_req_w_sb s, in_entries_disable = False, in_entries_disable_wg = 0\<rparr>"

definition front_step :: "dec_cfg \<Rightarrow> dec_inputs \<Rightarrow> dec1 \<times> scoreboard \<Rightarrow> (Instruction option \<times> dec1 \<times> scoreboard) res" where
  "front_step C i = (\<lambda>(s, q). bindE (dec1_thread_lt C i s) (\<lambda>(r, s'). Inr (r, s', snd (sb_push_pop (sb_inputs_of s) q))))"

text \<open>The cycle in which a push arrives at the control stack.\<close>

definition cstack_done :: "slot \<Rightarrow> sb_inputs" where
  "cstack_done w = \<lparr>in_dequeue = False, in_enqueue = False, in_dequeue_cstack_write = True, in_dequeue_cstack_wg = w,
     in_enqueue_cstack_write = False, in_enqueue_cstack_wg = 0, in_req_w = Register_wg 0, in_entries_disable = False,
     in_entries_disable_wg = 0\<rparr>"

lemma pending_enqueue [simp]: "cstack_writes_pending (snd (sb_enqueue r q)) = cstack_writes_pending q"
  by (simp add: sb_enqueue_def)

lemma sb_counts:
  "cstack_writes_pending (snd (sb_push_pop (sb_inputs_of s) q)) w =
    cstack_writes_pending q w + (if do_enqueue_sb_cstack_write s \<and> do_enqueue_sb_cstack_wg s = w then 1 else 0)"
proof -
  obtain v q1 where e: "sb_enqueue (do_req_w_sb s) q = (v, q1)" by fastforce
  then have "cstack_writes_pending q1 = cstack_writes_pending q" using pending_enqueue[of "do_req_w_sb s" q] by simp
  with e show ?thesis by (simp add: sb_push_pop_def sb_inputs_of_def Let_def)
qed

lemma sb_done:
  "sb_cpop_stall (fst (sb_push_pop (cstack_done w) q)) w \<longleftrightarrow> cstack_writes_pending q w - 1 > 0"
  by (simp add: sb_push_pop_def cstack_done_def Let_def)

text \<open>The flag is set when a push is issued for the last warp, and a stalled cycle leaves it set.\<close>

lemma push_sets_flag:
  assumes "dec1_issue C i op s = Inr (Some op', s')" "doesCPUSH op" "i_commit op" "\<not> i_on_cstack_sb op" "\<not> i_dead op" "\<not> ldst op"
  shows "do_enqueue_sb_cstack_write s' \<and> do_enqueue_sb_cstack_wg s' = di_wg_late i"
  using assms
  by (auto simp: dec1_issue_def Let_def bindE_Inr_iff sb_write_req_def next_warp_def set_sidiv_stall_counters_def split: if_splits)

lemma select_keeps_flag:
  assumes "select_op C (\<lambda>s. s) i op pc s = Inr (op', pc', s')" "\<not> di_pipe_flush i"
  shows "do_enqueue_sb_cstack_write s' = do_enqueue_sb_cstack_write s \<and> do_enqueue_sb_cstack_wg s' = do_enqueue_sb_cstack_wg s"
  using assms by (auto simp: select_op_def fetch_op_def Let_def bindE_Inr_iff split: if_splits)

lemma stall_keeps_flag:
  assumes "dec1_thread_lt C i s = Inr (None, s')" "\<not> di_pipe_flush i"
  shows "do_enqueue_sb_cstack_write s' = do_enqueue_sb_cstack_write s \<and> do_enqueue_sb_cstack_wg s' = do_enqueue_sb_cstack_wg s"
proof -
  obtain op pc s1 where sel: "select_op C (\<lambda>s. s) i (d1_op s) (d1_pc s) s = Inr (op, pc, s1)"
    and rest: "dec1_rest C i op pc s1 = Inr (None, s')"
    using assms(1) by (auto simp: dec1_thread_lt_def bindE_Inr_iff)
  from rest obtain req op1 s2 where x: "op_ldst_xlat_idx C op1 s1 = Inr s2"
    and iss: "dec1_issue C i op1 (dec1_outputs C i pc op1 req s2) = Inr (None, s')"
    unfolding dec1_rest_def bindE_Inr_iff by blast
  have "do_enqueue_sb_cstack_write s' = do_enqueue_sb_cstack_write s2 \<and> do_enqueue_sb_cstack_wg s' = do_enqueue_sb_cstack_wg s2"
    using iss by (auto simp: dec1_issue_def dec1_outputs_def Let_def bindE_Inr_iff split: if_splits)
  then show ?thesis using xlat_keeps[OF x] select_keeps_flag[OF sel assms(2)] by simp
qed

lemma counted_run:
  assumes "do_enqueue_sb_cstack_write s" "do_enqueue_sb_cstack_wg s = w" "\<forall>i\<in>set is. \<not> di_pipe_flush i"
    "runE (front_step C) is (s, q) = Inr (os, s', q')" "set os \<subseteq> {None}"
  shows "do_enqueue_sb_cstack_write s' \<and> do_enqueue_sb_cstack_wg s' = w \<and>
    cstack_writes_pending q' w = cstack_writes_pending q w + of_nat (length is)"
  using assms
proof (induction "is" arbitrary: s q os)
  case Nil
  then show ?case by simp
next
  case (Cons i "is")
  from Cons.prems(4) obtain x z os' where st: "front_step C i (s, q) = Inr (x, z)"
    and rn: "runE (front_step C) is z = Inr (os', s', q')" and os: "os = x # os'" by (rule runE_ConsD)
  have x: "x = None" "set os' \<subseteq> {None}" using Cons.prems(5) by (simp_all add: os)
  from st x obtain s1 where s1: "dec1_thread_lt C i s = Inr (None, s1)" and z: "z = (s1, snd (sb_push_pop (sb_inputs_of s) q))"
    by (auto simp: front_step_def bindE_Inr_iff)
  have f: "do_enqueue_sb_cstack_write s1" "do_enqueue_sb_cstack_wg s1 = w"
    using stall_keeps_flag[OF s1] Cons.prems(1-3) by simp_all
  from Cons.IH[OF f _ rn[unfolded z] x(2)] Cons.prems(1-3) show ?case by (simp add: sb_counts)
qed

text \<open>
  C36. A push on the control stack is counted once for every cycle the next instruction is stalled, and once more. The
  decoder sets \<open>out_enqueue_sb_cstack_write\<close> when it issues the push and does not reset it in a cycle that stalls, so
  after \<open>k\<close> stalled cycles the scoreboard has counted \<open>k + 1\<close> writes. Only one is ever taken off again: from the first
  stall on the scoreboard holds back every pop of the work-group, for good.
\<close>

theorem cpush_counted_per_stall:
  assumes "do_enqueue_sb_cstack_write s" "do_enqueue_sb_cstack_wg s = w" "cstack_writes_pending q w = 0"
    "\<forall>i\<in>set is. \<not> di_pipe_flush i" "runE (front_step C) is (s, q) = Inr (os, s', q')" "set os \<subseteq> {None}"
    "1 \<le> length is" "length is + 1 < 2 ^ 32"
  shows "let q'' = snd (sb_push_pop (sb_inputs_of s') q') in
    cstack_writes_pending q'' w = of_nat (length is + 1) \<and> sb_cpop_stall (fst (sb_push_pop (cstack_done w) q'')) w"
proof -
  have c: "cstack_writes_pending (snd (sb_push_pop (sb_inputs_of s') q')) w = of_nat (length is + 1)"
    using counted_run[OF assms(1,2,4-6)] assms(3) by (simp add: sb_counts)
  have "unat (of_nat (length is) :: u32) = length is" using assms(8) by (simp add: unat_of_nat)
  then have "(of_nat (length is) :: u32) > 0" using assms(7) by (cases "is") (simp_all add: word_less_nat_alt)
  then show ?thesis by (simp add: c sb_done)
qed

lemma cpush_counted_per_stall_witness:
  "\<exists>s' q'. runE (front_step tiny_dec) [dec_example (insn_of OP_CPOP) True]
      ((IDecode_1S 0 \<lparr>rq_reg = (\<lambda>_. Register_wg 0), rq_r = (\<lambda>_. False), rq_imm = (\<lambda>_. 0)\<rparr>)\<lparr>do_enqueue_sb_cstack_write := True\<rparr>,
       sb_new) = Inr ([None], s', q') \<and>
     cstack_writes_pending (snd (sb_push_pop (sb_inputs_of s') q')) 0 = 2"
proof -
  let ?i = "dec_example (insn_of OP_CPOP) True"
  let ?s = "(IDecode_1S 0 \<lparr>rq_reg = (\<lambda>_. Register_wg 0), rq_r = (\<lambda>_. False), rq_imm = (\<lambda>_. 0)\<rparr>)\<lparr>do_enqueue_sb_cstack_write := True\<rparr>"
  have s: "do_enqueue_sb_cstack_write ?s" "do_enqueue_sb_cstack_wg ?s = 0" "cstack_writes_pending sb_new 0 = 0"
    by (simp_all add: IDecode_1S_def IDecode_def dec.extend_def sb_new_def)
  obtain s' where "dec1_thread_lt tiny_dec ?i ?s = Inr (None, s')"
    by (simp add: dec1_thread_lt_def select_op_def fetch_op_def dec_example_def cpop_table op_add_implicit_src_def
      IDecode_1S_def IDecode_def dec.extend_def dec1_rest_def forward_read_reqs_1S_def op_process_implicit_dst_def implicit_dst_def
      writesCMASK_def op_ldst_xlat_idx_def dec1_issue_def or_reduce_def Let_def)
  then obtain q' where r: "runE (front_step tiny_dec) [?i] (?s, sb_new) = Inr ([None], s', q')" by (simp add: front_step_def)
  have "\<forall>i\<in>set [?i]. \<not> di_pipe_flush i" by (simp add: dec_example_def)
  from cpush_counted_per_stall[OF s this r] r show ?thesis by (auto simp: Let_def)
qed

end
