(* ===== verification/Decode_3S.thy ===== *)
theory Decode_3S
  imports Decode Decode_1S
begin

text \<open>
  \<open>compute/control/IDecode_3S.h\<close>, the decoder of three stages that fetches one operand of each of its instructions in
  a cycle. A cycle returns the stage it issues and the stage that enters, if any.
\<close>

subsection \<open>The stages\<close>

record idecode_pipe =
  p_insn :: Instruction
  p_wg :: slot
  p_pc :: nat
  p_col_w :: nat
  p_subcol_w :: nat
  p_req_sb_pop :: "nat \<Rightarrow> bool"

definition mk_idecode_pipe :: "Instruction \<Rightarrow> slot \<Rightarrow> nat \<Rightarrow> nat \<Rightarrow> nat \<Rightarrow> idecode_pipe" where
  "mk_idecode_pipe i w p c sc =
    \<lparr>p_insn = i, p_wg = w, p_pc = p, p_col_w = c, p_subcol_w = sc, p_req_sb_pop = (\<lambda>k. k < 32)\<rparr>"

definition pipe_reset :: "idecode_pipe \<Rightarrow> idecode_pipe" where
  "pipe_reset p = p\<lparr>p_insn := kill (insn_of NOP), p_pc := 0, p_col_w := 0, p_subcol_w := 0, p_req_sb_pop := (\<lambda>_. False)\<rparr>"

definition pipe_isEmpty :: "idecode_pipe \<Rightarrow> bool" where
  "pipe_isEmpty p \<longleftrightarrow> i_dead (p_insn p)"

text \<open>The last three fields are local variables that a cycle reads before it sets them: the answers of the cycle before.\<close>

record dec3 = dec +
  d3_op :: Instruction
  d3_pc :: nat
  d3_op_retry :: "nat \<Rightarrow> bool"
  d3_pipe :: "nat \<Rightarrow> idecode_pipe"
  d3_operand_0 :: "nat \<Rightarrow> u32"
  d3_out_operand :: "nat \<Rightarrow> nat \<Rightarrow> u32"
  d3_out_req_sb_pop :: "nat \<Rightarrow> nat \<Rightarrow> bool"
  d3_raw :: "nat \<Rightarrow> bool"
  d3_conflicts :: "nat \<Rightarrow> bool"
  d3_resource_free :: bool

definition IDecode_3S :: "nat \<Rightarrow> reg_read_req \<Rightarrow> bool \<Rightarrow> dec3" where
  "IDecode_3S lw rq free = dec.extend (IDecode lw rq)
     \<lparr>d3_op = Instruction_default 0, d3_pc = 0, d3_op_retry = (\<lambda>_. True),
      d3_pipe = (\<lambda>_. pipe_reset (mk_idecode_pipe (insn_of NOP) 0 0 0 0)), d3_operand_0 = (\<lambda>_. 0), d3_out_operand = (\<lambda>_ _. 0),
      d3_out_req_sb_pop = (\<lambda>_ _. False), d3_raw = (\<lambda>_. False), d3_conflicts = (\<lambda>_. False), d3_resource_free = free\<rparr>"

definition pipe_invalidate_3S :: "dec3 \<Rightarrow> dec3" where
  "pipe_invalidate_3S s = s\<lparr>d3_pipe := for_upto 3 (\<lambda>k p. if i_injected (p_insn (p k)) then p
       else p(k := (p k)\<lparr>p_insn := kill (p_insn (p k))\<rparr>)) (d3_pipe s), d3_op_retry := (\<lambda>_. True)\<rparr>"

definition pipe_invalidate_wg :: "slot \<Rightarrow> dec3 \<Rightarrow> dec3" where
  "pipe_invalidate_wg w s = s\<lparr>d3_pipe := for_upto 3 (\<lambda>k p. if p_wg (p k) = w
       then p(k := (p k)\<lparr>p_insn := kill (p_insn (p k))\<rparr>) else p) (d3_pipe s)\<rparr>"

definition forward_read_reqs_3S :: "'b ex_cfg_scheme \<Rightarrow> dec3 \<Rightarrow> reg_read_req res" where
  "forward_read_reqs_3S C s =
    for_uptoE 3
      (\<lambda>k req. let p = d3_pipe s k in
         if \<not> d3_op_retry s k \<or> i_dead (p_insn p) \<or> i_srcs (p_insn p) \<le> k then Inr req
         else forward_read_req C s k (p_insn p) (p_col_w p) (p_wg p) req)
      ((dc_req s)\<lparr>rq_r := (\<lambda>_. False)\<rparr>)"

subsection \<open>The parts of a cycle\<close>

definition finish_kills :: "dec_inputs \<Rightarrow> dec3 \<Rightarrow> dec3" where
  "finish_kills i s =
    (let s = (if di_wg_finished i 0 then pipe_invalidate_wg 0 s else s)
     in if di_wg_finished i 1 then pipe_invalidate_wg 1 s else s)"

definition update_pops :: "dec_inputs \<Rightarrow> dec3 \<Rightarrow> dec3" where
  "update_pops i s = s\<lparr>d3_pipe := for_upto 3
     (\<lambda>k p. p(k := (p k)\<lparr>p_req_sb_pop := (\<lambda>e. p_req_sb_pop (p k) e \<and> di_entries_pop i (p_wg (p k)) e)\<rparr>)) (d3_pipe s)\<rparr>"

definition advance_2 :: "dec_cfg \<Rightarrow> dec_inputs \<Rightarrow> dec3 \<Rightarrow> dec3 res" where
  "advance_2 C i s =
    (if pipe_isEmpty (d3_pipe s 2) \<and> \<not> d3_op_retry s 1 then
       let p = d3_pipe s 1;
           s = s\<lparr>d3_out_operand := (\<lambda>k l. if k = 0 then d3_operand_0 s l else di_operand i 1 l),
                 d3_pipe := (d3_pipe s)(2 := p, 1 := pipe_reset p),
                 do_wg := p_wg p, do_col_w := p_col_w p, do_subcol_w := p_subcol_w p, do_pc := p_pc p\<rparr>
       in bindE (op_ldst_xlat_idx C (p_insn p) s) (\<lambda>s. Inr (s\<lparr>d3_op_retry := (d3_op_retry s)(2 := True)\<rparr>))
     else Inr s)"

definition advance_1 :: "dec_inputs \<Rightarrow> dec3 \<Rightarrow> dec3" where
  "advance_1 i s =
    (if pipe_isEmpty (d3_pipe s 1) \<and> \<not> d3_op_retry s 0 then
       s\<lparr>d3_pipe := (d3_pipe s)(1 := d3_pipe s 0, 0 := pipe_reset (d3_pipe s 0)), d3_operand_0 := di_operand i 0,
         d3_op_retry := (d3_op_retry s)(1 := True)\<rparr>
     else s)"

definition enter_0 :: "dec_cfg \<Rightarrow> dec_inputs \<Rightarrow> Instruction \<Rightarrow> nat \<Rightarrow> dec3 \<Rightarrow> (idecode_pipe option \<times> dec3) res" where
  "enter_0 C i op pc s =
    (if i_dead op then Inr (None, s\<lparr>do_enqueue_sb := False, do_enqueue_sb_cstack_write := False\<rparr>)
     else if pipe_isEmpty (d3_pipe s 0) then
       let p = mk_idecode_pipe op (di_wg i) pc (col_trunc C (getCol C s op)) (getSubcol C s op mod 2 ^ const_log2 (rcpu_ratio C))
       in bindE (op_process_implicit_dst C s op) (\<lambda>op'.
          bindE (if \<not> i_on_sb op' then sb_write_req C (di_wg i) op' s else Inr (op', s\<lparr>do_enqueue_sb := False\<rparr>)) (\<lambda>(op', s).
          let p = p\<lparr>p_insn := op'\<rparr>
          in Inr (Some p, next_warp C (s\<lparr>d3_pipe := (d3_pipe s)(0 := p), d3_op_retry := (d3_op_retry s)(0 := True)\<rparr>))))
     else Inr (None, (count_stall (d3_raw s) (d3_conflicts s) (d3_resource_free s) s)\<lparr>do_stall_f := True, do_enqueue_sb := False\<rparr>))"

definition issue_2 :: "dec_inputs \<Rightarrow> dec3 \<Rightarrow> idecode_pipe option \<times> dec3" where
  "issue_2 i s =
    (let p = d3_pipe s 2; free = op_can_issue i (p_insn p) (p_wg p) s;
         s = (decrement_sidiv_stall_counters s)\<lparr>d3_resource_free := free\<rparr>
     in if \<not> d3_op_retry s 2 \<and> free then
          let s = (if i_op (p_insn p) = OP_SIDIV \<or> i_op (p_insn p) = OP_SIMOD then set_sidiv_stall_counters s else s)
          in (Some p, s\<lparr>do_insn := p_insn p, d3_pipe := (d3_pipe s)(2 := pipe_reset p)\<rparr>)
        else (None, s\<lparr>do_insn := insn_of NOP\<rparr>))"

definition dec3_answers :: "dec_inputs \<Rightarrow> reg_read_req \<Rightarrow> dec3 \<Rightarrow> dec3" where
  "dec3_answers i req s = s\<lparr>d3_out_req_sb_pop := (\<lambda>k. p_req_sb_pop (d3_pipe s k)), dc_req := req,
     do_ssp_match := blockOnSSPWrites (p_insn (d3_pipe s 0)), d3_raw := di_raw i, d3_conflicts := di_req_conflicts i,
     d3_op_retry := (\<lambda>k. di_req_conflicts i k \<or> di_raw i k)\<rparr>"

definition dec3_thread_lt ::
  "dec_cfg \<Rightarrow> dec_inputs \<Rightarrow> dec3 \<Rightarrow> ((idecode_pipe option \<times> idecode_pipe option) \<times> dec3) res" where
  "dec3_thread_lt C i s =
    bindE (select_op C pipe_invalidate_3S i (d3_op s) (d3_pc s) (finish_kills i s)) (\<lambda>(op, pc, s).
    bindE (advance_2 C i (update_pops i (s\<lparr>d3_op := op, d3_pc := pc\<rparr>))) (\<lambda>s.
    bindE (enter_0 C i op pc (advance_1 i s)) (\<lambda>(entered, s).
    bindE (forward_read_reqs_3S C s) (\<lambda>req.
    let (iss, s) = issue_2 i (dec3_answers i req s) in Inr ((iss, entered), s)))))"

subsection \<open>The pipeline is a queue\<close>

text \<open>The stages that hold a living instruction, oldest first, without the bookkeeping of the scoreboard entries.\<close>

definition stage_core :: "idecode_pipe \<Rightarrow> idecode_pipe" where
  "stage_core p = p\<lparr>p_req_sb_pop := (\<lambda>_. False)\<rparr>"

definition stages :: "(nat \<Rightarrow> idecode_pipe) \<Rightarrow> idecode_pipe list" where
  "stages p = map stage_core (filter (\<lambda>q. \<not> pipe_isEmpty q) [p 2, p 1, p 0])"

definition living :: "idecode_pipe option list \<Rightarrow> idecode_pipe list" where
  "living os = map stage_core (filter (\<lambda>q. \<not> pipe_isEmpty q) (issued os))"

lemma living_simps [simp]:
  "living [] = []" "living (None # os) = living os"
  "living (Some p # os) = (if pipe_isEmpty p then living os else stage_core p # living os)"
  by (simp_all add: living_def)

lemma pipe_reset_empty [simp]: "pipe_isEmpty (pipe_reset p)"
  by (simp add: pipe_isEmpty_def pipe_reset_def kill_def)

lemma three: "for_upto 3 f s = f 2 (f 1 (f 0 s))"
  by (simp add: numeral_3_eq_3 numeral_2_eq_2)

lemma stages_pops: "stages (d3_pipe (update_pops i s)) = stages (d3_pipe s)"
  by (simp add: update_pops_def three stages_def stage_core_def pipe_isEmpty_def)

lemma xlat_pipe: "op_ldst_xlat_idx C op (s :: dec3) = Inr s' \<Longrightarrow> d3_pipe s' = d3_pipe s"
  by (auto simp: op_ldst_xlat_idx_def bindE_Inr_iff split: if_splits)

lemma stages_advance_2:
  assumes "advance_2 C i s = Inr s'"
  shows "stages (d3_pipe s') = stages (d3_pipe s)"
proof (cases "pipe_isEmpty (d3_pipe s 2) \<and> \<not> d3_op_retry s 1")
  case True
  with assms have "d3_pipe s' = (d3_pipe s)(2 := d3_pipe s 1, 1 := pipe_reset (d3_pipe s 1))"
    by (auto simp: advance_2_def Let_def bindE_Inr_iff dest!: xlat_pipe)
  with True show ?thesis by (simp add: stages_def)
qed (use assms in \<open>auto simp: advance_2_def\<close>)

lemma stages_advance_1: "stages (d3_pipe (advance_1 i s)) = stages (d3_pipe s)"
  by (simp add: advance_1_def stages_def)

lemma sb_write_pipe: "sb_write_req C w op (s :: dec3) = Inr (op', s') \<Longrightarrow> d3_pipe s' = d3_pipe s"
  by (auto simp: sb_write_req_def bindE_Inr_iff Let_def split: if_splits)

lemma next_warp_pipe [simp]: "d3_pipe (next_warp C s) = d3_pipe s"
  by (simp add: next_warp_def)

lemma stages_enter_0:
  assumes "enter_0 C i op pc s = Inr (e, s')"
  shows "stages (d3_pipe s') = stages (d3_pipe s) @ living [e]"
proof -
  consider (dead) "i_dead op" | (full) "\<not> i_dead op" "\<not> pipe_isEmpty (d3_pipe s 0)" | (enter) "\<not> i_dead op" "pipe_isEmpty (d3_pipe s 0)" by blast
  then show ?thesis
  proof cases
    case dead
    with assms show ?thesis by (auto simp: enter_0_def)
  next
    case full
    with assms have "d3_pipe s' = d3_pipe s" "e = None" by (auto simp: enter_0_def count_stall_def)
    then show ?thesis by simp
  next
    case enter
    then obtain op1 op2 s1 where w: "(if \<not> i_on_sb op1 then sb_write_req C (di_wg i) op1 s else Inr (op1, s\<lparr>do_enqueue_sb := False\<rparr>)) = Inr (op2, s1)"
      and s': "d3_pipe s' = (d3_pipe s1)(0 := the e)" "e \<noteq> None"
      using assms by (auto simp: enter_0_def Let_def bindE_Inr_iff)
    have "d3_pipe s1 = d3_pipe s" using w by (auto split: if_splits dest!: sb_write_pipe)
    with s' obtain p where "d3_pipe s' = (d3_pipe s)(0 := p)" "e = Some p" by auto
    with enter(2) show ?thesis by (simp add: stages_def)
  qed
qed

lemma stages_issue_2:
  assumes "issue_2 i s = (r, s')"
  shows "stages (d3_pipe s) = living [r] @ stages (d3_pipe s')"
proof (cases "\<not> d3_op_retry s 2 \<and> op_can_issue i (p_insn (d3_pipe s 2)) (p_wg (d3_pipe s 2)) s")
  case True
  with assms have "r = Some (d3_pipe s 2)" "d3_pipe s' = (d3_pipe s)(2 := pipe_reset (d3_pipe s 2))"
    by (auto simp: issue_2_def Let_def decrement_sidiv_stall_counters_def set_sidiv_stall_counters_def)
  then show ?thesis by (simp add: stages_def)
next
  case False
  with assms have "r = None" "d3_pipe s' = d3_pipe s"
    by (auto simp: issue_2_def Let_def decrement_sidiv_stall_counters_def)
  then show ?thesis by simp
qed

lemma select_pipe:
  assumes "select_op C pipe_invalidate_3S i op pc s = Inr (op', pc', s')" "\<not> di_pipe_flush i"
  shows "d3_pipe s' = d3_pipe s"
  using assms by (auto simp: select_op_def fetch_op_def Let_def bindE_Inr_iff split: if_splits)

definition flow_undisturbed :: "dec_inputs \<Rightarrow> bool" where
  "flow_undisturbed i \<longleftrightarrow> \<not> di_wg_finished i 0 \<and> \<not> di_wg_finished i 1 \<and> \<not> di_pipe_flush i"

lemma dec3_cycle:
  assumes "dec3_thread_lt C i s = Inr ((r, e), s')" "flow_undisturbed i"
  shows "stages (d3_pipe s) @ living [e] = living [r] @ stages (d3_pipe s')"
proof -
  from assms(1) obtain op pc s1 where sel: "select_op C pipe_invalidate_3S i (d3_op s) (d3_pc s) (finish_kills i s) = Inr (op, pc, s1)"
    and b1: "bindE (advance_2 C i (update_pops i (s1\<lparr>d3_op := op, d3_pc := pc\<rparr>))) (\<lambda>s.
      bindE (enter_0 C i op pc (advance_1 i s)) (\<lambda>(entered, s). bindE (forward_read_reqs_3S C s) (\<lambda>req.
      let (iss, s) = issue_2 i (dec3_answers i req s) in Inr ((iss, entered), s)))) = Inr ((r, e), s')"
    by (auto simp: dec3_thread_lt_def bindE_Inr_iff)
  from b1 obtain s2 where adv: "advance_2 C i (update_pops i (s1\<lparr>d3_op := op, d3_pc := pc\<rparr>)) = Inr s2"
    and b2: "bindE (enter_0 C i op pc (advance_1 i s2)) (\<lambda>(entered, s). bindE (forward_read_reqs_3S C s) (\<lambda>req.
      let (iss, s) = issue_2 i (dec3_answers i req s) in Inr ((iss, entered), s))) = Inr ((r, e), s')"
    by (auto simp: bindE_Inr_iff)
  from b2 obtain e' s3 req where ent: "enter_0 C i op pc (advance_1 i s2) = Inr (e', s3)"
    and b3: "(let (iss, s) = issue_2 i (dec3_answers i req s3) in Inr ((iss, e'), s)) = (Inr ((r, e), s') :: _ res)"
    by (auto simp: bindE_Inr_iff)
  obtain r' s4 where iss: "issue_2 i (dec3_answers i req s3) = (r', s4)" by fastforce
  with b3 have eq: "r' = r" "e' = e" "s4 = s'" by simp_all
  have "d3_pipe s1 = d3_pipe s"
    using select_pipe[OF sel] assms(2) by (simp add: flow_undisturbed_def finish_kills_def)
  then have "stages (d3_pipe s2) = stages (d3_pipe s)"
    using stages_advance_2[OF adv] stages_pops[of i "s1\<lparr>d3_op := op, d3_pc := pc\<rparr>"] by simp
  then have "stages (d3_pipe s3) = stages (d3_pipe s) @ living [e]"
    using stages_enter_0[OF ent] by (simp add: stages_advance_1 eq)
  moreover have "d3_pipe (dec3_answers i req s3) = d3_pipe s3" by (simp add: dec3_answers_def)
  ultimately show ?thesis using stages_issue_2[OF iss] by (simp add: eq)
qed

text \<open>
  C37. The three stages are a queue: as long as nothing is flushed, whatever hazards stall the stages and however often,
  what was in the decoder at the start followed by what entered is exactly what it issued followed by what is still in
  it. No instruction is lost, none is issued twice, and they leave in the order they entered, with their work-group,
  program counter and column.
\<close>

theorem decode_3S_queue:
  assumes "\<forall>i\<in>set is. flow_undisturbed i" "runE (dec3_thread_lt C) is s = Inr (os, s')"
  shows "stages (d3_pipe s) @ living (map snd os) = living (map fst os) @ stages (d3_pipe s')"
  using assms
proof (induction "is" arbitrary: s os)
  case Nil
  then show ?case by simp
next
  case (Cons i "is")
  from Cons.prems(2) obtain x s1 os' where st: "dec3_thread_lt C i s = Inr (x, s1)" and rn: "runE (dec3_thread_lt C) is s1 = Inr (os', s')"
    and os: "os = x # os'" by (rule runE_ConsD)
  obtain r e where x: "x = (r, e)" by (cases x)
  have c: "stages (d3_pipe s) @ living [e] = living [r] @ stages (d3_pipe s1)"
    using dec3_cycle[OF st[unfolded x]] Cons.prems(1) by simp
  have IH: "stages (d3_pipe s1) @ living (map snd os') = living (map fst os') @ stages (d3_pipe s')"
    using Cons.IH[OF _ rn] Cons.prems(1) by simp
  have l: "living (y # ys) = living [y] @ living ys" for y ys by (cases y) simp_all
  have "stages (d3_pipe s) @ living (map snd os) = (stages (d3_pipe s) @ living [e]) @ living (map snd os')"
    by (simp add: os x l[of e "map snd os'"])
  also have "\<dots> = living [r] @ living (map fst os') @ stages (d3_pipe s')" by (simp add: c IH)
  finally show ?case by (simp add: os x l[of r "map fst os'"])
qed

lemma decode_3S_queue_witness:
  "\<exists>q p s'. runE (dec3_thread_lt tiny_dec) [dec_example (insn_of OP_CPOP) False]
      (IDecode_3S 0 \<lparr>rq_reg = (\<lambda>_. Register_wg 0), rq_r = (\<lambda>_. False), rq_imm = (\<lambda>_. 0)\<rparr> True) = Inr ([(q, Some p)], s') \<and>
     stages (d3_pipe s') = [stage_core p]"
proof -
  let ?i = "dec_example (insn_of OP_CPOP) False"
  let ?s = "IDecode_3S 0 \<lparr>rq_reg = (\<lambda>_. Register_wg 0), rq_r = (\<lambda>_. False), rq_imm = (\<lambda>_. 0)\<rparr> True"
  have "\<exists>q p s'. dec3_thread_lt tiny_dec ?i ?s = Inr ((q, Some p), s') \<and> \<not> pipe_isEmpty p \<and> living [q] = []"
    by (simp add: dec3_thread_lt_def finish_kills_def select_op_def fetch_op_def dec_example_def cpop_table op_add_implicit_src_def
      IDecode_3S_def IDecode_def dec.extend_def advance_2_def advance_1_def update_pops_def three pipe_isEmpty_def pipe_reset_def kill_def
      enter_0_def mk_idecode_pipe_def op_process_implicit_dst_def implicit_dst_def writesCMASK_def sb_write_req_def hasDst_def
      Operand_none_def Let_def tiny_dec_def next_warp_def forward_read_reqs_3S_def numeral_3_eq_3 issue_2_def dec3_answers_def
      op_can_issue_def decrement_sidiv_stall_counters_def)
  then obtain q p s' where c: "dec3_thread_lt tiny_dec ?i ?s = Inr ((q, Some p), s')" "\<not> pipe_isEmpty p" "living [q] = []" by blast
  then have r: "runE (dec3_thread_lt tiny_dec) [?i] ?s = Inr ([(q, Some p)], s')" by simp
  have "\<forall>i\<in>set [?i]. flow_undisturbed i" by (simp add: flow_undisturbed_def dec_example_def)
  from decode_3S_queue[OF this r] c(2,3) have "stages (d3_pipe ?s) @ [stage_core p] = stages (d3_pipe s')" by simp
  moreover have "stages (d3_pipe ?s) = []" by (simp add: IDecode_3S_def dec.extend_def stages_def)
  ultimately have "stages (d3_pipe s') = [stage_core p]" by simp
  with r show ?thesis by blast
qed

end
