(* ===== verification/Sp_Array.thy ===== *)
theory Sp_Array
  imports Machine Registers Stride_Cycle
begin

text \<open>
  The scratchpad, part one: \<open>sp/model/DQ_reservation.h\<close>, the data that passes between its stages, and
  \<open>sp/control/StorageArray.h\<close>, the banks of memory words with unaligned access. A burst of \<open>n\<close> words starts at any word; lane
  \<open>l\<close> of the data bus carries the word of the burst whose number is \<open>l\<close> modulo \<open>n\<close>. The theorem here is that the banks
  together are one flat memory.
\<close>

declare bindE_Inr_right [simp]

subsection \<open>Reservations\<close>

text \<open>\<open>BUS_WIDTH\<close> and \<open>SIZE_BYTES\<close> are the template parameters; \<open>BUS_WIDTH_DRAM\<close> is the number of words on the DRAM side.\<close>

record sp_cfg =
  SP_BUS_WIDTH_DRAM :: nat
  SP_BUS_WIDTH :: nat
  SIZE_BYTES :: nat

record dq_pipe_rf =
  prf_rw :: bool
  prf_write_w :: bool
  prf_mask_w :: "nat \<Rightarrow> bool"
  prf_idx_w :: "nat \<Rightarrow> reg_offset"
  prf_last :: bool

record dq_pipe_sa =
  psa_rw :: bool
  psa_write_w :: bool
  psa_mask_w :: "nat \<Rightarrow> bool"
  psa_addr :: nat
  psa_last :: bool

record sp_reservation =
  spr_rw :: bool
  spr_wordmask :: "nat \<Rightarrow> bool"
  spr_sp_offset :: nat
  spr_target :: req_dest_type
  spr_reg_offset :: "nat \<Rightarrow> reg_offset"
  spr_write :: bool
  spr_last :: bool

definition dq_pipe_rf_default :: dq_pipe_rf where
  "dq_pipe_rf_default = \<lparr>prf_rw = False, prf_write_w = False, prf_mask_w = (\<lambda>_. False), prf_idx_w = (\<lambda>_. 0), prf_last = False\<rparr>"

definition dq_pipe_sa_default :: dq_pipe_sa where
  "dq_pipe_sa_default = \<lparr>psa_rw = False, psa_write_w = False, psa_mask_w = (\<lambda>_. False), psa_addr = 0, psa_last = False\<rparr>"

definition sp_reservation_default :: sp_reservation where
  "sp_reservation_default = \<lparr>spr_rw = False, spr_wordmask = (\<lambda>_. False), spr_sp_offset = 0, spr_target = TARGET_REG,
     spr_reg_offset = (\<lambda>_. 0), spr_write = False, spr_last = False\<rparr>"

text \<open>The constructor rotates the words of a burst to their lanes. The loop variables are the lane and the reservation.\<close>

definition mk_sp_reservation ::
  "nat \<Rightarrow> int \<Rightarrow> (nat \<Rightarrow> bool) \<Rightarrow> bool \<Rightarrow> req_dest_type \<Rightarrow> (nat \<Rightarrow> reg_offset) \<Rightarrow> sp_reservation" where
  "mk_sp_reservation BW a m w t ri =
    (let r = sp_reservation_default\<lparr>spr_rw := True, spr_sp_offset := nat (sc_uint 18 a), spr_target := t, spr_write := w\<rparr>;
         j = drop_bit 2 (spr_sp_offset r) AND (BW - 1)
     in snd (for_upto BW
          (\<lambda>i (j, r). ((j + 1) mod BW, r\<lparr>spr_reg_offset := (spr_reg_offset r)(j := ri i), spr_wordmask := (spr_wordmask r)(j := m i)\<rparr>))
          (j, r)))"

definition get_pipe_rf :: "sp_reservation \<Rightarrow> dq_pipe_rf" where
  "get_pipe_rf r = \<lparr>prf_rw = spr_rw r, prf_write_w = spr_write r, prf_mask_w = spr_wordmask r, prf_idx_w = spr_reg_offset r,
     prf_last = spr_last r\<rparr>"

definition get_pipe_sa :: "sp_reservation \<Rightarrow> dq_pipe_sa" where
  "get_pipe_sa r = \<lparr>psa_rw = spr_rw r, psa_write_w = spr_write r, psa_mask_w = spr_wordmask r, psa_addr = spr_sp_offset r,
     psa_last = spr_last r\<rparr>"

text \<open>The comparison. Of an indexed transfer the target index counts, of a vector transfer lane and row; both are all of it.\<close>

definition sp_reservation_eq :: "nat \<Rightarrow> nat \<Rightarrow> sp_reservation \<Rightarrow> sp_reservation \<Rightarrow> bool" where
  "sp_reservation_eq BW T r v \<longleftrightarrow>
    spr_target r = spr_target v \<and>
    (case spr_target r of
       TARGET_CAM \<Rightarrow> (\<forall>i<BW. spr_wordmask r i = spr_wordmask v i) \<and>
         (\<forall>i<BW. spr_wordmask r i \<longrightarrow> spr_reg_offset r i = spr_reg_offset v i)
     | TARGET_REG \<Rightarrow> (\<forall>i<BW. spr_wordmask r i = spr_wordmask v i) \<and>
         (\<forall>i<BW. spr_wordmask r i \<longrightarrow> off_row T (spr_reg_offset r i) = off_row T (spr_reg_offset v i) \<and>
                                    off_lane T (spr_reg_offset r i) = off_lane T (spr_reg_offset v i))
     | _ \<Rightarrow> True) \<and>
    spr_rw r = spr_rw v \<and> spr_sp_offset r = spr_sp_offset v \<and> spr_write r = spr_write v \<and> spr_last r = spr_last v"

subsection \<open>The storage array\<close>

text \<open>Bank and row. An access past the end of the array aborts.\<close>

type_synonym sp_mem = "nat \<Rightarrow> nat \<Rightarrow> u32"

definition sp_rows :: "sp_cfg \<Rightarrow> nat" where
  "sp_rows C = SIZE_BYTES C div (4 * SP_BUS_WIDTH C)"

definition sp_get :: "sp_cfg \<Rightarrow> sp_mem \<Rightarrow> nat \<times> nat \<Rightarrow> u32 res" where
  "sp_get C m p = (if fst p < SP_BUS_WIDTH C \<and> snd p < sp_rows C then Inr (m (fst p) (snd p)) else Inl Invalid_Access)"

definition sp_put :: "sp_cfg \<Rightarrow> nat \<times> nat \<Rightarrow> u32 \<Rightarrow> sp_mem \<Rightarrow> sp_mem res" where
  "sp_put C p v m = (if fst p < SP_BUS_WIDTH C \<and> snd p < sp_rows C
     then Inr (m(fst p := (m (fst p))(snd p := v))) else Inl Invalid_Access)"

definition debug_sp_read :: "sp_cfg \<Rightarrow> sp_mem \<Rightarrow> nat \<Rightarrow> u32 res" where
  "debug_sp_read C m addr = sp_get C m (drop_bit 2 (addr AND 0xc), drop_bit 4 (addr AND 0x3fff0))"

definition debug_sp_write :: "sp_cfg \<Rightarrow> nat \<Rightarrow> u32 \<Rightarrow> sp_mem \<Rightarrow> sp_mem res" where
  "debug_sp_write C addr v m = sp_put C (drop_bit 2 (addr AND 0xc), drop_bit 4 (addr AND 0x3fff0)) v m"

definition debug_upload_test_pattern :: "sp_cfg \<Rightarrow> nat \<Rightarrow> nat \<Rightarrow> sp_mem \<Rightarrow> sp_mem res" where
  "debug_upload_test_pattern C addr words m =
    for_uptoE words (\<lambda>k. debug_sp_write C ((addr + 4 * k) mod 2 ^ 18) (of_nat (4 * k))) m"

definition align_phase :: "sp_cfg \<Rightarrow> nat \<Rightarrow> nat" where
  "align_phase C addr = drop_bit 2 addr AND (SP_BUS_WIDTH C - 1)"

definition sp_idx :: "sp_cfg \<Rightarrow> nat \<Rightarrow> nat" where
  "sp_idx C addr = drop_bit (const_log2 (SP_BUS_WIDTH C * 4)) addr"

text \<open>Bank and row of a lane, on the side of the DRAM and on the side of the register file.\<close>

definition dram_place :: "sp_cfg \<Rightarrow> nat \<Rightarrow> nat \<Rightarrow> nat \<times> nat" where
  "dram_place C addr i =
    (let ap = align_phase C addr;
         bank = nat (int ap AND NOT (int (SP_BUS_WIDTH_DRAM C) - 1));
         lbank = bank + i; lidx = sp_idx C addr;
         lbank = (if lbank < ap then lbank + SP_BUS_WIDTH_DRAM C else lbank)
     in if lbank \<ge> SP_BUS_WIDTH C then (i, lidx + 1) else (lbank, lidx))"

definition rf_place :: "sp_cfg \<Rightarrow> nat \<Rightarrow> nat \<Rightarrow> nat \<times> nat" where
  "rf_place C addr i = (i, if i < align_phase C addr then sp_idx C addr + 1 else sp_idx C addr)"

definition sp_popcount :: "nat \<Rightarrow> (nat \<Rightarrow> bool) \<Rightarrow> nat" where
  "sp_popcount n m = length (filter m [0..<n])"

definition read_lanes :: "sp_cfg \<Rightarrow> nat \<Rightarrow> (nat \<Rightarrow> nat \<times> nat) \<Rightarrow> sp_mem \<Rightarrow> (nat \<Rightarrow> u32) \<Rightarrow> (nat \<Rightarrow> u32) res" where
  "read_lanes C n place m out = for_uptoE n (\<lambda>i out. bindE (sp_get C m (place i)) (\<lambda>v. Inr (out(i := v)))) out"

definition write_lanes :: "sp_cfg \<Rightarrow> nat \<Rightarrow> (nat \<Rightarrow> nat \<times> nat) \<Rightarrow> (nat \<Rightarrow> bool) \<Rightarrow> (nat \<Rightarrow> u32) \<Rightarrow> sp_mem \<Rightarrow> sp_mem res" where
  "write_lanes C n place msk d m = for_uptoE n (\<lambda>i m. if \<not> msk i then Inr m else sp_put C (place i) (d i) m) m"

definition sp_dram_read :: "sp_cfg \<Rightarrow> nat \<Rightarrow> sp_mem \<Rightarrow> (nat \<Rightarrow> u32) \<Rightarrow> (nat \<Rightarrow> u32) res" where
  "sp_dram_read C addr m out = read_lanes C (SP_BUS_WIDTH_DRAM C) (dram_place C addr) m out"

definition sp_dram_write :: "sp_cfg \<Rightarrow> nat \<Rightarrow> (nat \<Rightarrow> bool) \<Rightarrow> (nat \<Rightarrow> u32) \<Rightarrow> sp_mem \<Rightarrow> sp_mem res" where
  "sp_dram_write C addr msk d m =
    assertE (addr + sp_popcount (SP_BUS_WIDTH_DRAM C) msk * 4 < SIZE_BYTES C)
      (write_lanes C (SP_BUS_WIDTH_DRAM C) (dram_place C addr) msk d m)"

definition sp_rf_read :: "sp_cfg \<Rightarrow> dq_pipe_sa \<Rightarrow> sp_mem \<Rightarrow> (nat \<Rightarrow> u32) \<Rightarrow> (nat \<Rightarrow> u32) res" where
  "sp_rf_read C psa m out = read_lanes C (SP_BUS_WIDTH C) (rf_place C (psa_addr psa)) m out"

definition sp_rf_write :: "sp_cfg \<Rightarrow> dq_pipe_sa \<Rightarrow> (nat \<Rightarrow> bool) \<Rightarrow> (nat \<Rightarrow> u32) \<Rightarrow> sp_mem \<Rightarrow> sp_mem res" where
  "sp_rf_write C psa rf_mask d m =
    (let msk = (\<lambda>i. psa_mask_w psa i \<and> rf_mask i) in
     assertE (psa_addr psa + sp_popcount (SP_BUS_WIDTH C) msk * 4 < SIZE_BYTES C)
       (write_lanes C (SP_BUS_WIDTH C) (rf_place C (psa_addr psa)) msk d m))"

text \<open>The thread. \<open>WG\<close> is the slot the scratchpad belongs to.\<close>

record sa_inputs =
  sa_dq_cmd :: dq_pipe_sa
  sa_rf_data :: "nat \<Rightarrow> u32"
  sa_rf_mask :: "nat \<Rightarrow> bool"
  sa_dram_enable :: bool
  sa_dram_dst :: RequestTarget
  sa_dram_write :: bool
  sa_dram_addr :: nat
  sa_dram_data :: "nat \<Rightarrow> u32"
  sa_dram_mask :: "nat \<Rightarrow> bool"

record storage_array =
  sa_sp :: sp_mem
  sa_out_data :: "nat \<Rightarrow> u32"

definition dram_hits :: "slot \<Rightarrow> sa_inputs \<Rightarrow> bool" where
  "dram_hits WG i \<longleftrightarrow> sa_dram_enable i \<and> sa_dram_dst i = \<lparr>tgt_wg = WG, tgt_type = TARGET_SP\<rparr>"

definition array_thread :: "slot \<Rightarrow> sp_cfg \<Rightarrow> sa_inputs \<Rightarrow> storage_array \<Rightarrow> (unit \<times> storage_array) res" where
  "array_thread WG C i s =
    (let psa = sa_dq_cmd i;
         rd = (\<lambda>out. Inr ((), s\<lparr>sa_out_data := out\<rparr>)); wr = (\<lambda>m. Inr ((), s\<lparr>sa_sp := m\<rparr>))
     in if dram_hits WG i then
          assertE (\<not> psa_rw psa)
            (if sa_dram_write i then bindE (sp_dram_write C (sa_dram_addr i) (sa_dram_mask i) (sa_dram_data i) (sa_sp s)) wr
             else bindE (sp_dram_read C (sa_dram_addr i) (sa_sp s) (sa_out_data s)) rd)
        else if psa_rw psa then
          assertE (\<not> dram_hits WG i)
            (if psa_write_w psa then bindE (sp_rf_write C psa (sa_rf_mask i) (sa_rf_data i) (sa_sp s)) wr
             else bindE (sp_rf_read C psa (sa_sp s) (sa_out_data s)) rd)
        else Inr ((), s))"

subsection \<open>The banks as one memory\<close>

text \<open>Word \<open>w\<close> of the memory, and the word that lane \<open>i\<close> of a burst of \<open>n\<close> words from word \<open>a\<close> on carries.\<close>

definition flat :: "sp_cfg \<Rightarrow> sp_mem \<Rightarrow> nat \<Rightarrow> u32" where
  "flat C m w = m (w mod SP_BUS_WIDTH C) (w div SP_BUS_WIDTH C)"

definition lane_word :: "nat \<Rightarrow> nat \<Rightarrow> nat \<Rightarrow> nat" where
  "lane_word n a i = a + (i + n - a mod n) mod n"

definition sp_words :: "sp_cfg \<Rightarrow> nat" where
  "sp_words C = sp_rows C * SP_BUS_WIDTH C"

definition sp_cfg_ok :: "sp_cfg \<Rightarrow> bool" where
  "sp_cfg_ok C \<longleftrightarrow> (\<exists>b c. SP_BUS_WIDTH C = 2 ^ b \<and> SP_BUS_WIDTH_DRAM C = 2 ^ c \<and> c \<le> b)"

lemma block_pos: "i < n \<Longrightarrow> (n * q + i) mod n = i" "i < n \<Longrightarrow> (n * q + i) div n = (q::nat)"
  by simp_all

lemma lane_word_cases:
  assumes "i < n"
  shows "lane_word n a i = n * (if a mod n \<le> i then a div n else a div n + 1) + i"
proof -
  have a: "a = n * (a div n) + a mod n" by simp
  show ?thesis
  proof (cases "a mod n \<le> i")
    case True
    then have "i + n - a mod n = (i - a mod n) + n" by simp
    then have "(i + n - a mod n) mod n = (i - a mod n) mod n" by (simp only: mod_add_self2)
    then have "(i + n - a mod n) mod n = i - a mod n" using assms by simp
    moreover have "a + (i - a mod n) = n * (a div n) + i" using True a by linarith
    ultimately show ?thesis using True by (simp add: lane_word_def)
  next
    case False
    then have "(i + n - a mod n) mod n = i + n - a mod n" using assms by (intro mod_less) linarith
    moreover have "a mod n < n" using assms by simp
    moreover have "a + (i + n - a mod n) = n * (a div n) + n + i" using False a assms \<open>a mod n < n\<close> by linarith
    ultimately show ?thesis using False by (simp add: lane_word_def)
  qed
qed

lemma lane_word_mod [simp]: "i < n \<Longrightarrow> lane_word n a i mod n = i"
  by (simp only: lane_word_cases block_pos)

lemma lane_word_div: "i < n \<Longrightarrow> lane_word n a i div n = (if a mod n \<le> i then a div n else a div n + 1)"
  by (simp only: lane_word_cases block_pos)

lemma lane_word_range: "i < n \<Longrightarrow> a \<le> lane_word n a i \<and> lane_word n a i < a + n"
  by (simp add: lane_word_def)

lemma same_residue:
  assumes "(w::nat) mod n = v mod n" "w \<le> v" "v < w + n"
  shows "w = v"
proof -
  from assms(1,2) obtain q where "v = w + n * q" using mod_eq_nat2E by metis
  with assms(3) show ?thesis by (cases q) auto
qed

lemma lane_word_iff:
  assumes "i < n"
  shows "w = lane_word n a i \<longleftrightarrow> a \<le> w \<and> w < a + n \<and> w mod n = i"
proof
  let ?v = "lane_word n a i"
  assume w: "a \<le> w \<and> w < a + n \<and> w mod n = i"
  have m: "w mod n = ?v mod n" and r: "a \<le> ?v" "?v < a + n" using w assms lane_word_range[OF assms, of a] by simp_all
  show "w = ?v"
    using same_residue[OF m] same_residue[OF m[symmetric]] w r by (cases "w \<le> ?v") auto
qed (use assms lane_word_range in auto)

text \<open>The place of a lane is the place of its word.\<close>

lemma rf_place_word:
  assumes "SP_BUS_WIDTH C = 2 ^ b" "i < SP_BUS_WIDTH C"
  shows "rf_place C addr i =
    (lane_word (SP_BUS_WIDTH C) (addr div 4) i mod SP_BUS_WIDTH C, lane_word (SP_BUS_WIDTH C) (addr div 4) i div SP_BUS_WIDTH C)"
proof -
  let ?B = "SP_BUS_WIDTH C" and ?a = "addr div 4"
  have ap: "align_phase C addr = ?a mod ?B" by (simp add: align_phase_def assms(1) and_mask_nat drop_bit_eq_div)
  have "2 ^ b * 4 = (2::nat) ^ (b + 2)" by (simp add: power_add)
  then have "const_log2 (?B * 4) = b + 2" by (simp only: assms(1) const_log2_pow2)
  then have ix: "sp_idx C addr = ?a div ?B"
    by (simp add: sp_idx_def drop_bit_eq_div power_add assms(1) div_mult2_eq mult.commute)
  show ?thesis using assms(2) by (auto simp: rf_place_def ap ix lane_word_div)
qed

lemma dram_place_word:
  assumes "SP_BUS_WIDTH C = 2 ^ b" "SP_BUS_WIDTH_DRAM C = 2 ^ c" "c \<le> b" "i < SP_BUS_WIDTH_DRAM C"
  shows "dram_place C addr i = (lane_word (SP_BUS_WIDTH_DRAM C) (addr div 4) i mod SP_BUS_WIDTH C,
    lane_word (SP_BUS_WIDTH_DRAM C) (addr div 4) i div SP_BUS_WIDTH C)"
proof -
  let ?B = "SP_BUS_WIDTH C" and ?D = "SP_BUS_WIDTH_DRAM C" and ?a = "addr div 4"
  let ?p = "?a mod ?B" and ?q = "?a div ?B"
  have ap: "align_phase C addr = ?p" by (simp add: align_phase_def assms(1) and_mask_nat drop_bit_eq_div)
  have "2 ^ b * 4 = (2::nat) ^ (b + 2)" by (simp add: power_add)
  then have "const_log2 (?B * 4) = b + 2" by (simp only: assms(1) const_log2_pow2)
  then have ix: "sp_idx C addr = ?q"
    by (simp add: sp_idx_def drop_bit_eq_div power_add assms(1) div_mult2_eq mult.commute)
  obtain e where e: "?B = ?D * e" using assms(1-3) le_imp_power_dvd[of c b "2::nat"] by (auto elim: dvdE)
  have "int ?p AND NOT (int ?D - 1) = int ?D * (int ?p div int ?D)"
    using and_not_mask_int[of "int ?p" c] by (simp add: assms(2))
  then have bank: "nat (int ?p AND NOT (int ?D - 1)) = ?D * (?p div ?D)"
    by (simp add: nat_mult_distrib flip: zdiv_int of_nat_mult)
  have pm: "?p mod ?D = ?a mod ?D" by (simp add: e mod_mult_self1 mod_mult2_eq)
  have k: "?p div ?D < e" using assms(1,2) e by (simp add: less_mult_imp_div_less mult.commute)
  have "?p = ?D * (?p div ?D) + ?a mod ?D" using mult_div_mod_eq[of ?D ?p] pm by simp
  then have a: "?a = ?B * ?q + (?D * (?p div ?D) + ?a mod ?D)" using mult_div_mod_eq[of ?B ?a] by simp
  have w: "lane_word ?D ?a i = ?B * ?q + (if ?a mod ?D \<le> i then ?D * (?p div ?D) + i else ?D * (?p div ?D) + ?D + i)"
  proof -
    have "?a = ?D * (?a div ?D) + ?a mod ?D" by simp
    with a have "?D * (?a div ?D) = ?B * ?q + ?D * (?p div ?D)" by linarith
    then show ?thesis unfolding lane_word_cases[OF assms(4)] by simp
  qed
  let ?l = "if ?a mod ?D \<le> i then ?D * (?p div ?D) + i else ?D * (?p div ?D) + ?D + i"
  have lt: "?D * (?p div ?D) + i < ?p \<longleftrightarrow> \<not> ?a mod ?D \<le> i"
    using pm mult_div_mod_eq[of ?D ?p] by linarith
  have "?D * (?p div ?D + 1) \<le> ?D * e" using k by (intro mult_le_mono2) simp
  then have le: "?D * (?p div ?D) + ?D \<le> ?B" by (simp add: e)
  then have top: "?D * (?p div ?D) + i < ?B" using assms(4) by linarith
  have "?l < ?B \<or> ?l = ?B + i"
  proof (cases "?p div ?D + 1 < e")
    case True
    then have "?D * (?p div ?D + 2) \<le> ?D * e" by (intro mult_le_mono2) simp
    then have "?D * (?p div ?D) + ?D + ?D \<le> ?B" by (simp add: e)
    then show ?thesis using assms(4) by auto
  next
    case False
    then have "?p div ?D + 1 = e" using k by simp
    then have "?D * (?p div ?D) + ?D = ?B" by (metis e add.commute mult_Suc_right plus_1_eq_Suc)
    then show ?thesis using top by simp
  qed
  moreover have "i < ?B" using top by simp
  moreover have "\<lbrakk>l < B \<or> l = B + i; i < B\<rbrakk> \<Longrightarrow> (B * q + l) mod B = (if l \<ge> B then i else l) \<and>
      (B * q + l) div B = (if l \<ge> B then q + 1 else q)" for l B q :: nat
  proof (elim disjE, goal_cases)
    case 2
    then have "B * q + l = B * (q + 1) + i" by simp
    with 2 show ?case by (simp only: block_pos) simp
  qed (simp add: block_pos)
  ultimately have "(?B * ?q + ?l) mod ?B = (if ?l \<ge> ?B then i else ?l)" "(?B * ?q + ?l) div ?B = (if ?l \<ge> ?B then ?q + 1 else ?q)"
    by blast+
  then have "lane_word ?D ?a i mod ?B = (if ?l \<ge> ?B then i else ?l)" "lane_word ?D ?a i div ?B = (if ?l \<ge> ?B then ?q + 1 else ?q)"
    unfolding w .
  moreover have "dram_place C addr i = (if ?l \<ge> ?B then (i, ?q + 1) else (?l, ?q))"
    by (simp add: dram_place_def ap ix bank lt Let_def)
  ultimately show ?thesis by (auto split: if_splits)
qed

text \<open>What the array does, on the flat memory: a burst of \<open>n\<close> words from word \<open>a\<close> on.\<close>

definition flat_read :: "nat \<Rightarrow> nat \<Rightarrow> (nat \<Rightarrow> u32) \<Rightarrow> (nat \<Rightarrow> u32) \<Rightarrow> nat \<Rightarrow> u32" where
  "flat_read n a f out = (\<lambda>i. if i < n then f (lane_word n a i) else out i)"

definition flat_write :: "nat \<Rightarrow> nat \<Rightarrow> (nat \<Rightarrow> bool) \<Rightarrow> (nat \<Rightarrow> u32) \<Rightarrow> (nat \<Rightarrow> u32) \<Rightarrow> nat \<Rightarrow> u32" where
  "flat_write n a msk d f = (\<lambda>w. if a \<le> w \<and> w < a + n \<and> msk (w mod n) then d (w mod n) else f w)"

lemma word_in_array:
  assumes "w < sp_words C"
  shows "w mod SP_BUS_WIDTH C < SP_BUS_WIDTH C" "w div SP_BUS_WIDTH C < sp_rows C"
proof -
  have "0 < SP_BUS_WIDTH C" using assms by (auto simp: sp_words_def intro!: gr0I)
  then show "w mod SP_BUS_WIDTH C < SP_BUS_WIDTH C" "w div SP_BUS_WIDTH C < sp_rows C"
    using assms by (simp_all add: sp_words_def less_mult_imp_div_less)
qed

lemma flat_put:
  assumes "w < sp_words C"
  shows "\<exists>m'. sp_put C (w mod SP_BUS_WIDTH C, w div SP_BUS_WIDTH C) v m = Inr m' \<and> flat C m' = (flat C m)(w := v)"
proof -
  have "u = w" if "u mod SP_BUS_WIDTH C = w mod SP_BUS_WIDTH C" "u div SP_BUS_WIDTH C = w div SP_BUS_WIDTH C" for u
    using that by (metis mult_div_mod_eq)
  then have "flat C (m(w mod SP_BUS_WIDTH C := (m (w mod SP_BUS_WIDTH C))(w div SP_BUS_WIDTH C := v))) = (flat C m)(w := v)"
    by (auto simp: flat_def fun_eq_iff)
  then show ?thesis using word_in_array[OF assms] by (simp add: sp_put_def)
qed

lemma read_lanes_flat:
  assumes place: "\<And>i. i < n \<Longrightarrow> place i = (lane_word n a i mod SP_BUS_WIDTH C, lane_word n a i div SP_BUS_WIDTH C)"
    and "\<And>i. i < n \<Longrightarrow> lane_word n a i < sp_words C"
  shows "read_lanes C n place m out = Inr (flat_read n a (flat C m) out)"
proof -
  have "k \<le> n \<Longrightarrow> read_lanes C k place m out = Inr (\<lambda>i. if i < k then flat C m (lane_word n a i) else out i)" for k
  proof (induction k)
    case 0
    then show ?case by (simp add: read_lanes_def)
  next
    case (Suc k)
    then have "sp_get C m (place k) = Inr (flat C m (lane_word n a k))"
      using word_in_array assms by (simp add: sp_get_def flat_def)
    with Suc show ?case by (auto simp: read_lanes_def less_Suc_eq fun_eq_iff)
  qed
  then show ?thesis by (simp add: flat_read_def)
qed

lemma write_lanes_flat:
  assumes place: "\<And>i. i < n \<Longrightarrow> place i = (lane_word n a i mod SP_BUS_WIDTH C, lane_word n a i div SP_BUS_WIDTH C)"
    and "\<And>i. i < n \<Longrightarrow> msk i \<Longrightarrow> lane_word n a i < sp_words C" and "0 < n"
  shows "\<exists>m'. write_lanes C n place msk d m = Inr m' \<and> flat C m' = flat_write n a msk d (flat C m)"
proof -
  have "k \<le> n \<Longrightarrow> \<exists>m'. write_lanes C k place msk d m = Inr m' \<and>
      flat C m' = (\<lambda>w. if w mod n < k \<and> a \<le> w \<and> w < a + n \<and> msk (w mod n) then d (w mod n) else flat C m w)" for k
  proof (induction k)
    case 0
    then show ?case by (simp add: write_lanes_def)
  next
    case (Suc k)
    then obtain m1 where m1: "write_lanes C k place msk d m = Inr m1"
      "flat C m1 = (\<lambda>w. if w mod n < k \<and> a \<le> w \<and> w < a + n \<and> msk (w mod n) then d (w mod n) else flat C m w)" by auto
    note k = lane_word_iff[of k n _ a]
    show ?case
    proof (cases "msk k")
      case False
      with m1 show ?thesis by (auto simp: write_lanes_def less_Suc_eq fun_eq_iff)
    next
      case True
      with Suc.prems assms flat_put[of "lane_word n a k" C "d k" m1] obtain m2 where
        "sp_put C (place k) (d k) m1 = Inr m2" "flat C m2 = (flat C m1)(lane_word n a k := d k)" by auto
      with m1 Suc.prems True show ?thesis
        by (auto simp: write_lanes_def less_Suc_eq fun_eq_iff k)
    qed
  qed
  from this[of n] show ?thesis using assms(3) by (simp add: flat_write_def)
qed

subsection \<open>The array over its runs\<close>

text \<open>
  A cycle stays in the array: the two sides do not meet, all words read and all words written exist, and the test of the
  code on the number of words written holds.
\<close>

definition burst_in :: "sp_cfg \<Rightarrow> nat \<Rightarrow> nat \<Rightarrow> (nat \<Rightarrow> bool) \<Rightarrow> bool" where
  "burst_in C n a msk \<longleftrightarrow> (\<forall>i<n. msk i \<longrightarrow> lane_word n a i < sp_words C)"

definition array_cycle_ok :: "slot \<Rightarrow> sp_cfg \<Rightarrow> sa_inputs \<Rightarrow> bool" where
  "array_cycle_ok WG C i \<longleftrightarrow>
    (let psa = sa_dq_cmd i; D = SP_BUS_WIDTH_DRAM C; B = SP_BUS_WIDTH C; msk = (\<lambda>l. psa_mask_w psa l \<and> sa_rf_mask i l) in
     if dram_hits WG i then \<not> psa_rw psa \<and>
       (if sa_dram_write i then sa_dram_addr i + 4 * sp_popcount D (sa_dram_mask i) < SIZE_BYTES C \<and>
          burst_in C D (sa_dram_addr i div 4) (sa_dram_mask i)
        else burst_in C D (sa_dram_addr i div 4) (\<lambda>_. True))
     else psa_rw psa \<longrightarrow>
       (if psa_write_w psa then psa_addr psa + 4 * sp_popcount B msk < SIZE_BYTES C \<and> burst_in C B (psa_addr psa div 4) msk
        else burst_in C B (psa_addr psa div 4) (\<lambda>_. True)))"

definition flat_cycle :: "slot \<Rightarrow> sp_cfg \<Rightarrow> sa_inputs \<Rightarrow> (nat \<Rightarrow> u32) \<times> (nat \<Rightarrow> u32) \<Rightarrow> (nat \<Rightarrow> u32) \<times> (nat \<Rightarrow> u32)" where
  "flat_cycle WG C i = (\<lambda>(f, out).
    let psa = sa_dq_cmd i; D = SP_BUS_WIDTH_DRAM C; B = SP_BUS_WIDTH C in
     if dram_hits WG i then
       if sa_dram_write i then (flat_write D (sa_dram_addr i div 4) (sa_dram_mask i) (sa_dram_data i) f, out)
       else (f, flat_read D (sa_dram_addr i div 4) f out)
     else if psa_rw psa then
       if psa_write_w psa then (flat_write B (psa_addr psa div 4) (\<lambda>l. psa_mask_w psa l \<and> sa_rf_mask i l) (sa_rf_data i) f, out)
       else (f, flat_read B (psa_addr psa div 4) f out)
     else (f, out))"

definition array_abs :: "sp_cfg \<Rightarrow> storage_array \<Rightarrow> (nat \<Rightarrow> u32) \<times> (nat \<Rightarrow> u32)" where
  "array_abs C s = (flat C (sa_sp s), sa_out_data s)"

lemma lanes_flat:
  assumes W: "SP_BUS_WIDTH C = 2 ^ b" "SP_BUS_WIDTH_DRAM C = 2 ^ c" "c \<le> b"
    and n: "n = SP_BUS_WIDTH_DRAM C \<and> place = dram_place C addr \<or> n = SP_BUS_WIDTH C \<and> place = rf_place C addr"
  shows "burst_in C n (addr div 4) (\<lambda>_. True) \<Longrightarrow> read_lanes C n place m out = Inr (flat_read n (addr div 4) (flat C m) out)"
    and "burst_in C n (addr div 4) msk \<Longrightarrow>
      \<exists>m'. write_lanes C n place msk d m = Inr m' \<and> flat C m' = flat_write n (addr div 4) msk d (flat C m)"
proof -
  have p: "place i = (lane_word n (addr div 4) i mod SP_BUS_WIDTH C, lane_word n (addr div 4) i div SP_BUS_WIDTH C)" if "i < n" for i
    using n that dram_place_word[OF W] rf_place_word[OF W(1)] by blast
  have "0 < n" using n by (auto simp: W)
  show "burst_in C n (addr div 4) (\<lambda>_. True) \<Longrightarrow> read_lanes C n place m out = Inr (flat_read n (addr div 4) (flat C m) out)"
    using p by (intro read_lanes_flat) (simp_all add: burst_in_def)
  show "burst_in C n (addr div 4) msk \<Longrightarrow>
      \<exists>m'. write_lanes C n place msk d m = Inr m' \<and> flat C m' = flat_write n (addr div 4) msk d (flat C m)"
    using p \<open>0 < n\<close> by (intro write_lanes_flat) (simp_all add: burst_in_def)
qed

lemma array_step:
  assumes C: "sp_cfg_ok C" and ok: "array_cycle_ok WG C i"
  shows "\<exists>s'. array_thread WG C i s = Inr ((), s') \<and> array_abs C s' = flat_cycle WG C i (array_abs C s)"
proof -
  obtain b c where W: "SP_BUS_WIDTH C = 2 ^ b" "SP_BUS_WIDTH_DRAM C = 2 ^ c" "c \<le> b"
    using C by (auto simp: sp_cfg_ok_def)
  note dram = lanes_flat[OF W disjI1[OF conjI[OF refl refl]]] and rf = lanes_flat[OF W disjI2[OF conjI[OF refl refl]]]
  let ?psa = "sa_dq_cmd i"
  let ?k = "\<lambda>l. psa_mask_w ?psa l \<and> sa_rf_mask i l"
  consider (dw) "dram_hits WG i" "sa_dram_write i" | (dr) "dram_hits WG i" "\<not> sa_dram_write i"
    | (rw) "\<not> dram_hits WG i" "psa_rw ?psa" "psa_write_w ?psa" | (rr) "\<not> dram_hits WG i" "psa_rw ?psa" "\<not> psa_write_w ?psa"
    | (none) "\<not> dram_hits WG i" "\<not> psa_rw ?psa" by blast
  then show ?thesis
  proof cases
    case dw
    then have "burst_in C (SP_BUS_WIDTH_DRAM C) (sa_dram_addr i div 4) (sa_dram_mask i)"
      using ok by (simp add: array_cycle_ok_def Let_def)
    from dram(2)[OF this, of "sa_dram_data i" "sa_sp s"] dw ok show ?thesis
      by (auto simp: array_thread_def sp_dram_write_def array_cycle_ok_def flat_cycle_def array_abs_def Let_def mult.commute)
  next
    case dr
    with ok dram(1)[of "sa_dram_addr i" "sa_sp s" "sa_out_data s"] show ?thesis
      by (simp add: array_thread_def sp_dram_read_def array_cycle_ok_def flat_cycle_def array_abs_def Let_def)
  next
    case rw
    then have "burst_in C (SP_BUS_WIDTH C) (psa_addr ?psa div 4) ?k"
      using ok by (simp add: array_cycle_ok_def Let_def)
    from rf(2)[OF this, of "sa_rf_data i" "sa_sp s"] rw ok show ?thesis
      by (auto simp: array_thread_def sp_rf_write_def array_cycle_ok_def flat_cycle_def array_abs_def Let_def mult.commute)
  next
    case rr
    with ok rf(1)[of "psa_addr ?psa" "sa_sp s" "sa_out_data s"] show ?thesis
      by (simp add: array_thread_def sp_rf_read_def array_cycle_ok_def flat_cycle_def array_abs_def Let_def)
  next
    case none
    then show ?thesis by (simp add: array_thread_def flat_cycle_def array_abs_def Let_def)
  qed
qed

text \<open>
  C39. The banks of the scratchpad are one flat memory of words with unaligned access from both sides. Over every run whose
  cycles stay in the array, the thread of \<open>StorageArray\<close> never aborts, and what it stores and puts out is what a flat
  memory would: lane \<open>l\<close> of a burst of \<open>n\<close> words from word \<open>a\<close> on is the word between \<open>a\<close> and \<open>a + n\<close> whose number is
  \<open>l\<close> modulo \<open>n\<close>, wherever the burst begins and whatever banks and rows it touches; words not masked keep their value.
\<close>

theorem sp_array_refines:
  assumes "sp_cfg_ok C" "\<forall>i\<in>set is. array_cycle_ok WG C i"
  shows "\<exists>os s'. runE (array_thread WG C) is s = Inr (os, s') \<and> array_abs C s' = fold (flat_cycle WG C) is (array_abs C s)"
  using assms(2)
proof (induction "is" arbitrary: s)
  case Nil
  then show ?case by simp
next
  case (Cons i "is")
  obtain s1 where s1: "array_thread WG C i s = Inr ((), s1)" "array_abs C s1 = flat_cycle WG C i (array_abs C s)"
    using array_step[OF assms(1), of WG i s] Cons.prems by (metis list.set_intros(1))
  moreover obtain os s' where "runE (array_thread WG C) is s1 = Inr (os, s')" "array_abs C s' = fold (flat_cycle WG C) is (array_abs C s1)"
    using Cons.IH[of s1] Cons.prems by auto
  ultimately show ?case by simp
qed

text \<open>An unaligned store of three words and the load that reads them back, in the configuration of the program.\<close>

definition sp_cfg_default :: sp_cfg where
  "sp_cfg_default = \<lparr>SP_BUS_WIDTH_DRAM = 4, SP_BUS_WIDTH = 4, SIZE_BYTES = 131072\<rparr>"

definition sa_example :: "bool \<Rightarrow> sa_inputs" where
  "sa_example wr = \<lparr>sa_dq_cmd = \<lparr>psa_rw = True, psa_write_w = wr, psa_mask_w = (\<lambda>l. l \<noteq> 1), psa_addr = 24, psa_last = False\<rparr>,
     sa_rf_data = (\<lambda>l. of_nat l + 100), sa_rf_mask = (\<lambda>_. True), sa_dram_enable = False, sa_dram_dst = RequestTarget_default,
     sa_dram_write = False, sa_dram_addr = 0, sa_dram_data = (\<lambda>_. 0), sa_dram_mask = (\<lambda>_. False)\<rparr>"

lemma sp_array_refines_witness:
  "\<exists>os s'. runE (array_thread 0 sp_cfg_default) [sa_example True, sa_example False]
      \<lparr>sa_sp = (\<lambda>_ _. 0), sa_out_data = (\<lambda>_. 0)\<rparr> = Inr (os, s') \<and>
    map (sa_out_data s') [0..<4] = [100, 0, 102, 103]"
proof -
  have c: "sp_cfg_ok sp_cfg_default"
    unfolding sp_cfg_ok_def by (rule exI[of _ 2], rule exI[of _ 2]) (simp add: sp_cfg_default_def)
  have w: "sp_words sp_cfg_default = 32768" by (simp add: sp_words_def sp_rows_def sp_cfg_default_def)
  have "\<forall>l<4. lane_word 4 6 l < 32768" by (auto dest: lane_word_range[where a = 6])
  then have "\<forall>i\<in>set [sa_example True, sa_example False]. array_cycle_ok 0 sp_cfg_default i"
    by (simp add: array_cycle_ok_def sa_example_def dram_hits_def burst_in_def sp_popcount_def w[unfolded sp_cfg_default_def] sp_cfg_default_def upt_rec)
  from sp_array_refines[OF c this, of "\<lparr>sa_sp = (\<lambda>_ _. 0), sa_out_data = (\<lambda>_. 0)\<rparr>"]
  obtain os s' where r: "runE (array_thread 0 sp_cfg_default) [sa_example True, sa_example False]
      \<lparr>sa_sp = (\<lambda>_ _. 0), sa_out_data = (\<lambda>_. 0)\<rparr> = Inr (os, s')"
    "array_abs sp_cfg_default s' = fold (flat_cycle 0 sp_cfg_default) [sa_example True, sa_example False]
      (array_abs sp_cfg_default \<lparr>sa_sp = (\<lambda>_ _. 0), sa_out_data = (\<lambda>_. 0)\<rparr>)" by blast
  have "map (sa_out_data s') [0..<4] = [100, 0, 102, 103]"
    using r(2) by (simp add: array_abs_def flat_cycle_def sa_example_def dram_hits_def flat_read_def flat_write_def lane_word_def
      sp_cfg_default_def flat_def upt_rec)
  with r(1) show ?thesis by (intro exI[of _ os] exI[of _ s'] conjI)
qed

subsection \<open>The test on the size\<close>

definition one_word :: "nat \<Rightarrow> nat \<Rightarrow> dq_pipe_sa" where
  "one_word addr lane = \<lparr>psa_rw = True, psa_write_w = True, psa_mask_w = (\<lambda>l. l = lane), psa_addr = addr, psa_last = False\<rparr>"

lemma sp_popcount_one: "lane < n \<Longrightarrow> sp_popcount n (\<lambda>l. l = lane) = 1"
proof -
  assume l: "lane < n"
  then have "[0..<n] = [0..<lane] @ lane # [Suc lane..<n]"
    by (metis le_add_diff_inverse less_imp_le_nat less_or_eq_imp_le upt_add_eq_append upt_conv_Cons zero_le)
  then show ?thesis by (simp add: sp_popcount_def)
qed

lemma write_one_lane: "write_lanes C n place (\<lambda>l. l = k) d m = (if k < n then sp_put C (place k) (d k) m else Inr m)"
proof (induction n)
  case 0
  then show ?case by (simp add: write_lanes_def)
next
  case (Suc n)
  then show ?case by (cases "n = k") (auto simp: write_lanes_def less_Suc_eq)
qed

lemma write_one_word:
  assumes "k < SP_BUS_WIDTH C"
  shows "sp_rf_write C (one_word addr k) (\<lambda>_. True) d m =
    (if addr + 4 < SIZE_BYTES C then sp_put C (rf_place C addr k) (d k) m else Inl Assert_Failed)"
  using assms by (simp add: sp_rf_write_def one_word_def sp_popcount_one write_one_lane assertE_def Let_def)

text \<open>
  C40. The test that keeps writes inside the scratchpad is off in both directions. Writing a single word succeeds for every
  word but the last one of the scratchpad, for which the assertion fails; and a burst from the last but one word on passes
  the assertion when only its fourth word is enabled, and writes past the end of the array.
\<close>

theorem sp_size_test_off:
  assumes "sp_cfg_ok C" "4 \<le> SP_BUS_WIDTH C" "SIZE_BYTES C = 4 * sp_words C" "w < sp_words C"
  shows "sp_rf_write C (one_word (4 * w) (w mod SP_BUS_WIDTH C)) (\<lambda>_. True) d m =
      (if w + 1 = sp_words C then Inl Assert_Failed
       else Inr (m(w mod SP_BUS_WIDTH C := (m (w mod SP_BUS_WIDTH C))(w div SP_BUS_WIDTH C := d (w mod SP_BUS_WIDTH C))))) \<and>
    sp_rf_write C (one_word (SIZE_BYTES C - 8) 1) (\<lambda>_. True) d m = Inl Invalid_Access"
proof
  let ?B = "SP_BUS_WIDTH C" and ?n = "sp_words C"
  obtain b where b: "?B = 2 ^ b" using assms(1) by (auto simp: sp_cfg_ok_def)
  have k: "w mod ?B < ?B" using assms(2) by simp
  have "lane_word ?B w (w mod ?B) = w" using lane_word_iff[OF k, of w w] k by simp
  then have "rf_place C (4 * w) (w mod ?B) = (w mod ?B, w div ?B)" by (simp add: rf_place_word[OF b k])
  then show "sp_rf_write C (one_word (4 * w) (w mod ?B)) (\<lambda>_. True) d m =
      (if w + 1 = ?n then Inl Assert_Failed
       else Inr (m(w mod ?B := (m (w mod ?B))(w div ?B := d (w mod ?B)))))"
    using word_in_array[OF assms(4)] assms(3,4) by (simp add: write_one_word[OF k] sp_put_def)
  have r: "?n = ?B * sp_rows C" "0 < sp_rows C" using assms(4) by (auto simp: sp_words_def intro!: gr0I)
  then obtain q where q: "sp_rows C = Suc q" by (metis gr0_conv_Suc)
  have n2: "?n - 2 = ?B * q + (?B - 2)" using r(1) assms(2) q by simp
  have "(?n - 2) mod ?B = ?B - 2" "(?n - 2) div ?B = q"
    unfolding n2 using assms(2) by (intro block_pos; simp)+
  then have "rf_place C (4 * (?n - 2)) 1 = (1, sp_rows C)"
    using assms(2) q by (simp add: rf_place_word[OF b] lane_word_div)
  moreover have "SIZE_BYTES C - 8 = 4 * (?n - 2)" "8 \<le> SIZE_BYTES C" using assms(2,3) r q by simp_all
  ultimately show "sp_rf_write C (one_word (SIZE_BYTES C - 8) 1) (\<lambda>_. True) d m = Inl Invalid_Access"
    using assms(2) by (simp add: write_one_word sp_put_def)
qed

lemma sp_size_test_off_witness:
  "sp_rf_write sp_cfg_default (one_word (4 * 32767) 3) (\<lambda>_. True) (\<lambda>_. 7) (\<lambda>_ _. 0) = Inl Assert_Failed \<and>
   sp_rf_write sp_cfg_default (one_word 131064 1) (\<lambda>_. True) (\<lambda>_. 7) (\<lambda>_ _. 0) = Inl Invalid_Access"
proof -
  have c: "sp_cfg_ok sp_cfg_default"
    unfolding sp_cfg_ok_def by (rule exI[of _ 2], rule exI[of _ 2]) (simp add: sp_cfg_default_def)
  have w: "sp_words sp_cfg_default = 32768" "SP_BUS_WIDTH sp_cfg_default = 4" "SIZE_BYTES sp_cfg_default = 131072"
    by (simp_all add: sp_words_def sp_rows_def sp_cfg_default_def)
  show ?thesis using sp_size_test_off[OF c, of 32767 "\<lambda>_. 7" "\<lambda>_ _. 0"] by (simp add: w)
qed

end
