(* ===== verification/Sp_Stride.thy ===== *)
theory Sp_Stride
  imports Sp_Array Stride_Props
begin

text \<open>
  The scratchpad, part two: \<open>sp/control/StrideSequencer.h\<close>, which turns a stride descriptor into a reservation per
  cycle. It is the sequencer of the memory controller without the alignment of bursts: the first burst starts at the
  first word. The class has its own definitions here; the proofs relate it to the other one, started at address 0.
\<close>

datatype sp_seq_state = DQ_ST_IDLE | DQ_ST_FETCH | DQ_ST_INIT_STATE | DQ_ST_RUNNING | DQ_ST_WAIT_DONE

text \<open>The last three fields are output signals. \<open>q_ridx\<close> is a local variable of the thread.\<close>

record spseq =
  q_phase :: "nat \<Rightarrow> int"
  q_line :: "nat \<Rightarrow> int"
  q_desc :: stride_descriptor
  q_global_addr :: int
  q_local_idx :: int
  q_end_addr :: int
  q_skip :: int
  q_skip_bw :: int
  q_skip_rest :: int
  q_line_increment :: int
  q_state :: sp_seq_state
  q_ridx :: "nat \<Rightarrow> reg_offset"
  q_out_rf_reg :: areg
  q_out_write :: bool

definition spseq_init :: "areg \<Rightarrow> stride_descriptor \<Rightarrow> spseq" where
  "spseq_init r d = \<lparr>q_phase = (\<lambda>_. 0), q_line = (\<lambda>_. 0), q_desc = d, q_global_addr = 0, q_local_idx = 0, q_end_addr = 0,
     q_skip = 0, q_skip_bw = 0, q_skip_rest = 0, q_line_increment = 0, q_state = DQ_ST_IDLE, q_ridx = (\<lambda>_. 0),
     q_out_rf_reg = r, q_out_write = False\<rparr>"

text \<open>The look-up tables are those of the other sequencer, entry by entry: \<open>increment_lut\<close> and \<open>line_increment_lut\<close>.\<close>

definition sp_single_overflow_modulo :: "spseq \<Rightarrow> int \<Rightarrow> int \<Rightarrow> int \<times> bool" where
  "sp_single_overflow_modulo s cur_phase increment =
    (let out = sc_uint 22 (cur_phase + increment)
     in if out \<ge> sd_period (q_desc s) then (sc_uint 22 (out - sd_period (q_desc s)), True) else (out, False))"

definition sp_word_mask_select :: "spseq \<Rightarrow> nat \<Rightarrow> bool" where
  "sp_word_mask_select s lane =
    (let addr = sc_uint 32 (q_global_addr s + push_bit 2 (int lane))
     in q_phase s lane < sd_words (q_desc s) \<and> q_end_addr s > addr \<and> sd_addr (q_desc s) \<le> addr)"

definition sp_address_increment :: "int \<Rightarrow> spseq \<Rightarrow> int \<Rightarrow> int" where
  "sp_address_increment BW s ph =
    (if ph < (sd_words (q_desc s) - 1) mod 2 ^ 64 \<or> sd_period (q_desc s) < BW then sc_uint 22 BW
     else if ph < q_skip_rest s then sc_uint 22 (q_skip_bw s + BW)
     else sc_uint 22 (q_skip s + BW))"

definition sp_phase_increment :: "int \<Rightarrow> spseq \<Rightarrow> int \<Rightarrow> int" where
  "sp_phase_increment BW s addr_inc =
    (if sd_period (q_desc s) < BW then sc_uint 22 (increment_lut BW (sd_period (q_desc s)))
     else fst (sp_single_overflow_modulo s 0 addr_inc))"

definition sp_validate_sd :: "stride_descriptor \<Rightarrow> bool" where
  "sp_validate_sd d \<longleftrightarrow>
    sd_period d \<noteq> 0 \<and>
    (case tgt_type (sd_dst d) of
       TARGET_REG \<Rightarrow> is_pot (of_int (sd_dst_period d))
     | TARGET_SP \<Rightarrow> False
     | _ \<Rightarrow> True)"

definition sp_init_lanes :: "nat \<Rightarrow> int \<Rightarrow> int \<Rightarrow> spseq \<Rightarrow> int \<times> int \<times> spseq" where
  "sp_init_lanes BW period l0 s =
    for_upto BW (\<lambda>i (it, l, s).
      let s = s\<lparr>q_phase := (q_phase s)(i := sc_uint 22 it), q_line := (q_line s)(i := sc_int 32 l)\<rparr>;
          it = it + 1
      in if it mod period \<noteq> it then (it mod period, l + 1, s) else (it, l, s)) (0, l0, s)"

definition sp_init_request_regs :: "nat \<Rightarrow> spseq \<Rightarrow> spseq res" where
  "sp_init_request_regs W s =
    (let BW = int W; d = q_desc s in
     if \<not> sp_validate_sd d then Inl Invalid_Argument
     else
       let sk = sc_int 32 (sd_period d - (sd_words d + (BW - 1)));
           sr = ((sk AND (BW - 1)) + sd_words d - 1) mod 2 ^ 32;
           sk = sk AND NOT (BW - 1);
           sb = (sk + BW) mod 2 ^ 32;
           ea = sc_uint 32 (sd_addr d + push_bit 2 (sd_words d + sd_period d * (sd_period_count d - 1)));
           l = sc_int 32 (sd_dst_off_y d);
           linc = (if sd_period d < BW then line_increment_lut BW (sd_period d) else 0);
           s = s\<lparr>q_skip := sk, q_skip_rest := sr, q_skip_bw := sb, q_end_addr := ea, q_global_addr := sc_uint 32 (sd_addr d),
                 q_local_idx := sc_uint 32 (sd_dst_offset d), q_desc := d\<lparr>sd_dst_offset := sd_dst_off_x d\<rparr>,
                 q_line_increment := linc\<rparr>
       in Inr (snd (snd (sp_init_lanes W (sd_period d) l s))))"

definition sp_regIdx :: "nat \<Rightarrow> spseq \<Rightarrow> req_dest_type \<Rightarrow> nat \<Rightarrow> reg_offset" where
  "sp_regIdx THREADS s t i =
    (if t = TARGET_CAM then reg_offset_idx (nat ((q_local_idx s + int i) mod 2 ^ 32))
     else
       let phase_shift = idx_transform_int (sd_idx_transform (q_desc s));
           phase_mask = push_bit phase_shift 1 - 1;
           p = (q_phase s i + sd_dst_offset (q_desc s)) mod 2 ^ 32;
           lane = (((q_line s i * sd_dst_period (q_desc s)) mod 2 ^ 64) OR drop_bit phase_shift p) mod 2 ^ 32;
           row = p AND phase_mask
       in reg_offset_lane_row THREADS (nat lane) (nat row))"

subsection \<open>The thread\<close>

definition sp_advance_lane :: "int \<Rightarrow> nat \<Rightarrow> spseq \<Rightarrow> spseq" where
  "sp_advance_lane ph_inc i s =
    (let s = s\<lparr>q_line := (q_line s)(i := sc_int 32 (q_line s i + q_line_increment s))\<rparr>;
         (ph, overflew) = sp_single_overflow_modulo s (q_phase s i) ph_inc;
         s = s\<lparr>q_phase := (q_phase s)(i := ph)\<rparr>
     in if overflew \<or> ph_inc = 0 then s\<lparr>q_line := (q_line s)(i := sc_int 32 (q_line s i + 1))\<rparr> else s)"

text \<open>The state \<open>DQ_ST_RUNNING\<close>: one reservation a cycle. Words that are not transferred keep an old register offset.\<close>

definition sp_stride_cycle :: "nat \<Rightarrow> nat \<Rightarrow> spseq \<Rightarrow> sp_reservation \<times> spseq" where
  "sp_stride_cycle W THREADS s =
    (let t = tgt_type (sd_dst (q_desc s));
         wm = sp_word_mask_select s;
         ridx = for_upto W (\<lambda>i r. if wm i then r(i := sp_regIdx THREADS s t i) else r) (q_ridx s);
         addr_inc = sp_address_increment (int W) s (q_phase s (W - 1));
         ph_inc = sp_phase_increment (int W) s addr_inc;
         s = for_upto W (sp_advance_lane ph_inc) (s\<lparr>q_ridx := ridx\<rparr>);
         req = mk_sp_reservation W (q_global_addr s) wm (sd_write (q_desc s)) t ridx;
         s = s\<lparr>q_global_addr := sc_uint 32 (q_global_addr s + push_bit 2 addr_inc), q_local_idx := sc_uint 32 (q_local_idx s + addr_inc)\<rparr>
     in if q_global_addr s \<ge> q_end_addr s then (req\<lparr>spr_last := True\<rparr>, s\<lparr>q_state := DQ_ST_WAIT_DONE\<rparr>)
        else (req\<lparr>spr_last := False\<rparr>, s))"

record spseq_inputs =
  qi_trigger :: bool
  qi_desc :: "stride_descriptor option"
  qi_dq_fifo_free :: bool
  qi_dq_done :: bool
  qi_sched_opts :: sched_opts
  qi_ticket_pop :: int

text \<open>What a cycle does to the FIFOs: triggers and descriptors read, the reservation put, and the slot signalled as done.\<close>

record spseq_effects =
  qe_trigger :: bool
  qe_desc :: bool
  qe_req :: "sp_reservation option"
  qe_wg_done :: "slot option"

definition no_sp_effects :: spseq_effects where
  "no_sp_effects = \<lparr>qe_trigger = False, qe_desc = False, qe_req = None, qe_wg_done = None\<rparr>"

definition sp_seq_init :: "nat \<Rightarrow> spseq_inputs \<Rightarrow> spseq \<Rightarrow> spseq res" where
  "sp_seq_init W i s =
    (if qi_sched_opts i WSS_NO_PARALLEL_DRAM_SP \<and> qi_ticket_pop i \<noteq> sd_ticket (q_desc s) then Inr s
     else assertE (tgt_type (sd_dst (q_desc s)) \<noteq> TARGET_SP)
       (case sd_dst_reg (q_desc s) of
          None \<Rightarrow> Inl Invalid_Access
        | Some r \<Rightarrow> sp_init_request_regs W (s\<lparr>q_state := DQ_ST_RUNNING, q_out_rf_reg := r, q_out_write := \<not> sd_write (q_desc s)\<rparr>)))"

definition sp_seq_fetch :: "nat \<Rightarrow> spseq_inputs \<Rightarrow> spseq \<Rightarrow> (bool \<times> spseq) res" where
  "sp_seq_fetch W i s =
    (case qi_desc i of
       None \<Rightarrow> Inr (False, if qi_dq_fifo_free i then s\<lparr>q_state := DQ_ST_IDLE\<rparr> else s)
     | Some d \<Rightarrow> bindE (sp_seq_init W i (s\<lparr>q_state := DQ_ST_INIT_STATE, q_desc := d\<rparr>)) (\<lambda>s. Inr (True, s)))"

text \<open>One iteration of \<open>thread_lt\<close>; \<open>WG\<close> is the slot the scratchpad belongs to.\<close>

definition sp_seq_thread_lt :: "slot \<Rightarrow> nat \<Rightarrow> nat \<Rightarrow> spseq_inputs \<Rightarrow> spseq \<Rightarrow> (spseq_effects \<times> spseq) res" where
  "sp_seq_thread_lt WG W THREADS i s =
    (case q_state s of
       DQ_ST_IDLE \<Rightarrow>
         if \<not> qi_trigger i then Inr (no_sp_effects, s)
         else bindE (sp_seq_fetch W i (s\<lparr>q_state := DQ_ST_FETCH\<rparr>)) (\<lambda>(r, s). Inr (no_sp_effects\<lparr>qe_trigger := True, qe_desc := r\<rparr>, s))
     | DQ_ST_FETCH \<Rightarrow> bindE (sp_seq_fetch W i s) (\<lambda>(r, s). Inr (no_sp_effects\<lparr>qe_desc := r\<rparr>, s))
     | DQ_ST_INIT_STATE \<Rightarrow> bindE (sp_seq_init W i s) (\<lambda>s. Inr (no_sp_effects, s))
     | DQ_ST_RUNNING \<Rightarrow> let (req, s) = sp_stride_cycle W THREADS s in Inr (no_sp_effects\<lparr>qe_req := Some req\<rparr>, s)
     | DQ_ST_WAIT_DONE \<Rightarrow>
         if qi_dq_done i then Inr (no_sp_effects\<lparr>qe_wg_done := Some WG\<rparr>,
           s\<lparr>q_state := DQ_ST_FETCH, q_out_rf_reg := AbstractRegister_default\<rparr>)
         else Inr (no_sp_effects, s))"

subsection \<open>The other sequencer at address 0\<close>

text \<open>
  A state of this sequencer as a state of the one of the memory controller, for the same stride moved to address 0: the
  addresses are taken from the start of the stride.
\<close>

definition at_zero :: "stride_descriptor \<Rightarrow> stride_descriptor" where
  "at_zero d = d\<lparr>sd_addr := 0\<rparr>"

definition as_seq :: "spseq \<Rightarrow> seq" where
  "as_seq s = seq_idle\<lparr>phase := q_phase s, line := q_line s, desc := at_zero (q_desc s),
     global_addr := q_global_addr s - sd_addr (q_desc s), local_idx := q_local_idx s,
     end_addr := q_end_addr s - sd_addr (q_desc s), skip := q_skip s, skip_bw := q_skip_bw s, skip_rest := q_skip_rest s,
     line_increment := q_line_increment s,
     seq_st := (if q_state s = DQ_ST_RUNNING then CMDGEN_ST_RUNNING_STRIDE else CMDGEN_ST_WAIT_ALLPRE)\<rparr>"

lemma at_zero_simps [simp]:
  "sd_addr (at_zero d) = 0" "sd_words (at_zero d) = sd_words d" "sd_period (at_zero d) = sd_period d"
  "sd_period_count (at_zero d) = sd_period_count d" "sd_dst (at_zero d) = sd_dst d" "sd_write (at_zero d) = sd_write d"
  "sd_dst_offset (at_zero d) = sd_dst_offset d" "sd_dst_off_x (at_zero d) = sd_dst_off_x d"
  "sd_dst_off_y (at_zero d) = sd_dst_off_y d" "sd_dst_period (at_zero d) = sd_dst_period d"
  "sd_idx_transform (at_zero d) = sd_idx_transform d" "sd_first (at_zero d) = 0"
  "sd_end (at_zero d) = sd_words d + sd_period d * (sd_period_count d - 1)"
  by (simp_all add: at_zero_def sd_first_def sd_end_def)

lemma as_seq_simps [simp]:
  "phase (as_seq s) = q_phase s" "line (as_seq s) = q_line s" "desc (as_seq s) = at_zero (q_desc s)"
  "global_addr (as_seq s) = q_global_addr s - sd_addr (q_desc s)" "local_idx (as_seq s) = q_local_idx s"
  "end_addr (as_seq s) = q_end_addr s - sd_addr (q_desc s)" "skip (as_seq s) = q_skip s" "skip_bw (as_seq s) = q_skip_bw s"
  "skip_rest (as_seq s) = q_skip_rest s" "line_increment (as_seq s) = q_line_increment s" "\<not> s_blocked (as_seq s)"
  "seq_st (as_seq s) = (if q_state s = DQ_ST_RUNNING then CMDGEN_ST_RUNNING_STRIDE else CMDGEN_ST_WAIT_ALLPRE)"
  by (simp_all add: as_seq_def seq_idle_def)

lemma as_seq_rest [simp]:
  "sp_line_addr_increment (as_seq s) = sp_line_addr_increment seq_idle" "cycle_start (as_seq s) = cycle_start seq_idle"
  "cycle_end (as_seq s) = cycle_end seq_idle" "s_req (as_seq s) = s_req seq_idle" "s_idx (as_seq s) = s_idx seq_idle"
  "s_addr (as_seq s) = s_addr seq_idle" "out_done (as_seq s) = out_done seq_idle" "out_dst (as_seq s) = out_dst seq_idle"
  "out_dst_reg (as_seq s) = out_dst_reg seq_idle" "out_idx_push_trigger (as_seq s) = out_idx_push_trigger seq_idle"
  "seq_stopped (as_seq s) = seq_stopped seq_idle" "s_blocked seq_idle = False"
  by (simp_all add: as_seq_def seq_idle_def)

text \<open>A descriptor for the scratchpad: the stride lies in its addresses, which have 18 bits.\<close>

definition sp_stride_ok :: "stride_descriptor \<Rightarrow> bool" where
  "sp_stride_ok d \<longleftrightarrow>
    0 \<le> sd_addr d \<and> 4 dvd sd_addr d \<and> 1 \<le> sd_words d \<and> sd_words d \<le> sd_period d \<and> sd_period d < 2 ^ 20 \<and>
    1 \<le> sd_period_count d \<and> 4 * sd_end d \<le> 2 ^ 18 \<and> tgt_type (sd_dst d) \<noteq> TARGET_SP"

lemma W_le_16: "W = 2 ^ b \<Longrightarrow> b \<le> 16 \<Longrightarrow> int W \<le> 2 ^ 16"
proof -
  assume "W = 2 ^ b" "b \<le> 16"
  moreover from this have "(2::int) ^ b \<le> 2 ^ 16" by (intro power_increasing) auto
  ultimately show ?thesis by simp
qed

lemma stride_ok_zero:
  assumes "sp_stride_ok d" "W = 2 ^ b" "b \<le> 16"
  shows "stride_ok W (at_zero d)"
proof -
  have W: "int W \<le> 2 ^ 16" using assms(2,3) by (rule W_le_16)
  have P: "0 \<le> sd_addr d" "sd_addr d = 4 * sd_first d" "1 \<le> sd_words d" "sd_period d < 2 ^ 20"
    using assms(1) by (auto simp: sp_stride_ok_def sd_first_def)
  have "4 * (sd_period d * (sd_period_count d - 1)) \<le> 2 ^ 18"
    using assms(1) P by (simp add: sp_stride_ok_def sd_end_def)
  moreover have "sd_period d * (sd_period_count d + 1) = sd_period d * (sd_period_count d - 1) + 2 * sd_period d"
    by (simp add: algebra_simps)
  ultimately have "4 * (sd_period d * (sd_period_count d + 1) + int W) < 2 ^ 32" using W P(4) by simp
  then show ?thesis using assms(1) by (simp add: stride_ok_def sp_stride_ok_def)
qed

text \<open>The registers at the burst that starts \<open>g\<close> words into the stride.\<close>

definition sp_at :: "nat \<Rightarrow> stride_descriptor \<Rightarrow> int \<Rightarrow> spseq \<Rightarrow> bool" where
  "sp_at W d g s \<longleftrightarrow> q_state s = DQ_ST_RUNNING \<and> q_desc s = d\<lparr>sd_dst_offset := sd_dst_off_x d\<rparr> \<and>
     seq_at W (at_zero d) g (as_seq s)"

lemma sp_at_regs:
  assumes "sp_at W d g s" "sp_stride_ok d"
  shows "q_global_addr s = sd_addr d + 4 * g" "q_end_addr s = 4 * sd_end d" "0 \<le> g"
    "sd_addr (q_desc s) = sd_addr d" "sd_words (q_desc s) = sd_words d" "sd_period (q_desc s) = sd_period d"
    "sd_dst (q_desc s) = sd_dst d" "sd_write (q_desc s) = sd_write d"
proof -
  have "sd_addr d = 4 * sd_first d" using assms(2) by (auto simp: sp_stride_ok_def sd_first_def)
  then show "q_global_addr s = sd_addr d + 4 * g" "q_end_addr s = 4 * sd_end d" "0 \<le> g"
    "sd_addr (q_desc s) = sd_addr d" "sd_words (q_desc s) = sd_words d" "sd_period (q_desc s) = sd_period d"
    "sd_dst (q_desc s) = sd_dst d" "sd_write (q_desc s) = sd_write d"
    using assms(1) by (auto simp: sp_at_def seq_at_def seq_regs_def sd_end_def Let_def)
qed

lemma sp_single_overflow [simp]: "sp_single_overflow_modulo s = single_overflow_modulo (sd_period (q_desc s))"
  by (simp add: fun_eq_iff sp_single_overflow_modulo_def single_overflow_modulo_def)

lemma sp_increments:
  "sp_address_increment BW s = address_increment BW (as_seq s)"
  "sp_phase_increment BW s = phase_increment BW (as_seq s)"
  by (simp_all add: fun_eq_iff sp_address_increment_def address_increment_def sp_phase_increment_def phase_increment_def)

lemma sp_mask_at:
  assumes W: "W = 2 ^ b" "b \<le> 16" and ok: "sp_stride_ok d" and at: "sp_at W d g s" and "i < W" "g < sd_end (at_zero d)"
  shows "sp_word_mask_select s i \<longleftrightarrow> in_stride (at_zero d) (g + int i)"
proof -
  note r = sp_at_regs[OF at ok]
  have a: "sd_addr d = 4 * sd_first d" "0 \<le> sd_addr d" using ok by (auto simp: sp_stride_ok_def sd_first_def)
  have e: "sd_end d = sd_first d + sd_end (at_zero d)" by (simp add: sd_end_def)
  have "int W \<le> 2 ^ 16" using W by (rule W_le_16)
  moreover have "4 * sd_end d \<le> 2 ^ 18" using ok by (simp add: sp_stride_ok_def)
  ultimately have "sd_addr d + 4 * g + 4 * int i < 2 ^ 32" using assms(5,6) a e by simp
  then have w: "sc_uint 32 (q_global_addr s + push_bit 2 (int i)) = sd_addr d + 4 * (g + int i)"
    using a r(3) by (simp add: r(1) push_bit_eq_mult)
  have p: "q_phase s i = (g + int i) mod sd_period d"
    using at assms(5) by (simp add: sp_at_def seq_at_def)
  show ?thesis
    unfolding sp_word_mask_select_def w p r(2,4-6) Let_def in_stride_def e a(1) at_zero_simps using a(2) r(3) by auto
qed

lemma sp_regIdx_at:
  assumes "q_desc s = d\<lparr>sd_dst_offset := sd_dst_off_x d\<rparr>"
  shows "sp_regIdx T s t i = regIdx T (as_seq s) t i"
  using assms by (simp add: sp_regIdx_def regIdx_def)

lemma sp_advance_lanes:
  "for_upto n (sp_advance_lane inc) s =
    s\<lparr>q_phase := (\<lambda>i. if i < n then fst (single_overflow_modulo (sd_period (q_desc s)) (q_phase s i) inc) else q_phase s i),
      q_line := (\<lambda>i. if i < n then sc_int 32 (q_line s i + q_line_increment s + (if lane_overflows (as_seq s) inc i \<or> inc = 0 then 1 else 0))
                   else q_line s i)\<rparr>"
proof (induction n)
  case 0
  then show ?case by simp
next
  case (Suc n)
  have lane: "sp_advance_lane inc i u =
      u\<lparr>q_phase := (q_phase u)(i := fst (single_overflow_modulo (sd_period (q_desc u)) (q_phase u i) inc)),
        q_line := (q_line u)(i := sc_int 32 (q_line u i + q_line_increment u + (if lane_overflows (as_seq u) inc i \<or> inc = 0 then 1 else 0)))\<rparr>" for i u
    by (cases "single_overflow_modulo (sd_period (q_desc u)) (q_phase u i) inc")
      (simp add: sp_advance_lane_def Let_def lane_overflows_def sc_int_add add.assoc)
  show ?case
    unfolding for_upto_Suc Suc.IH unfolding lane
    by (auto simp: lane_overflows_def less_Suc_eq fun_eq_iff intro!: spseq.equality)
qed

lemma seq_at_req: "seq_at W d g (s\<lparr>s_req := r\<rparr>) = seq_at W d g s"
  by (simp add: seq_at_def seq_regs_def lines_at_def)

lemma seq_at_cong:
  assumes "seq_at W d g s" "seq_st t = seq_st s" "s_blocked t = s_blocked s" "seq_regs W d t" "desc t = desc u" "desc u = d\<lparr>sd_dst_offset := off\<rparr>"
    "global_addr t = global_addr s" "local_idx t = local_idx s"
    "\<And>i. i < W \<Longrightarrow> phase t i = phase s i" "\<And>i. i < W \<Longrightarrow> line t i = line s i"
  shows "seq_at W d g t"
  using assms unfolding seq_at_def lines_at_def by auto

text \<open>A cycle of this sequencer is a cycle of the other one.\<close>

lemma sp_cycle_state:
  fixes T :: nat
  assumes W: "W = 2 ^ b" "b \<le> 16" and ok: "sp_stride_ok d" and at: "sp_at W d g s" and g: "g < sd_end (at_zero d)"
  defines "inc \<equiv> inc_at W (at_zero d) (as_seq s)"
  defines "s' \<equiv> snd (sp_stride_cycle W T s)"
  shows "s' = (for_upto W (sp_advance_lane (inc mod sd_period d)) s)
    \<lparr>q_ridx := q_ridx s', q_global_addr := sd_addr d + 4 * (g + inc), q_local_idx := sc_uint 32 (q_local_idx s + inc),
     q_state := (if sd_end (at_zero d) \<le> g + inc then DQ_ST_WAIT_DONE else DQ_ST_RUNNING)\<rparr>"
proof -
  note r = sp_at_regs[OF at ok]
  have at': "seq_at W (at_zero d) g (as_seq s)" using at by (simp add: sp_at_def)
  note okz = stride_ok_zero[OF ok W]
  note b = inc_at_bounds[OF W okz at', folded inc_def]
  have inc': "address_increment (int W) (as_seq s) (q_phase s (W - 1)) = inc"
    using address_increment_at[OF W okz at', folded inc_at_def, folded inc_def] by simp
  have ph: "phase_increment (int W) (as_seq s) inc = inc mod sd_period d"
    using phase_increment_at[OF W okz at', folded inc_at_def, folded inc_def] by simp
  have a: "sd_addr d = 4 * sd_first d" "0 \<le> sd_addr d" using ok by (auto simp: sp_stride_ok_def sd_first_def)
  have e: "sd_end d = sd_first d + sd_end (at_zero d)" by (simp add: sd_end_def)
  have "int W \<le> 2 ^ 16" using W by (rule W_le_16)
  moreover have "4 * sd_end d \<le> 2 ^ 18" "sd_period d < 2 ^ 20" using ok by (simp_all add: sp_stride_ok_def)
  ultimately have "sd_addr d + 4 * g + 4 * inc < 2 ^ 32" using b(2) g a e by simp
  then have n1: "sc_uint 32 (q_global_addr s + push_bit 2 inc) = sd_addr d + 4 * (g + inc)"
    using a r(3) b(4) by (simp add: r(1) push_bit_eq_mult)
  have st: "q_state s = DQ_ST_RUNNING" using at by (simp add: sp_at_def)
  have cmp: "sd_addr d + 4 * (g + inc) \<ge> q_end_addr s \<longleftrightarrow> sd_end (at_zero d) \<le> g + inc" using r(2) a e by auto
  show ?thesis
    unfolding s'_def using cmp n1 st
    by (simp add: sp_stride_cycle_def sp_advance_lanes Let_def sp_increments inc'[unfolded One_nat_def] ph add.assoc
        lane_overflows_def cong: if_cong)
qed

lemma sp_cycle_next:
  fixes T :: nat
  assumes W: "W = 2 ^ b" "b \<le> 16" and ok: "sp_stride_ok d" and at: "sp_at W d g s"
    and g: "g + inc_at W (at_zero d) (as_seq s) < sd_end (at_zero d)"
  shows "sp_at W d (g + inc_at W (at_zero d) (as_seq s)) (snd (sp_stride_cycle W T s))"
proof -
  let ?inc = "inc_at W (at_zero d) (as_seq s)" and ?s = "snd (sp_stride_cycle W T s)"
  note r = sp_at_regs[OF at ok]
  have at': "seq_at W (at_zero d) g (as_seq s)" using at by (simp add: sp_at_def)
  note okz = stride_ok_zero[OF ok W]
  note b = inc_at_bounds[OF W okz at']
  have g': "g < sd_end (at_zero d)" using g b(4) by simp
  have m: "0 \<le> ?inc mod sd_period d" "?inc mod sd_period d < sd_period d" using P_pos[OF W okz] by simp_all
  note st = stride_cycle_state[OF W okz at' g', where T = T] and nx = stride_cycle_next[OF W okz at' g, of T]
  note eq = sp_cycle_state[OF W ok at g', of T]
  have fields: "q_state ?s = DQ_ST_RUNNING" "q_desc ?s = q_desc s" "q_global_addr ?s = sd_addr d + 4 * (g + ?inc)"
    "q_local_idx ?s = sc_uint 32 (q_local_idx s + ?inc)" "q_end_addr ?s = q_end_addr s" "q_skip ?s = q_skip s"
    "q_skip_bw ?s = q_skip_bw s" "q_skip_rest ?s = q_skip_rest s" "q_line_increment ?s = q_line_increment s"
    "i < W \<Longrightarrow> q_phase ?s i = (q_phase s i + ?inc mod sd_period d) mod sd_period d"
    "i < W \<Longrightarrow> q_line ?s i = sc_int 32 (q_line s i + q_line_increment s +
        (if sd_period d \<le> q_phase s i + ?inc mod sd_period d \<or> ?inc mod sd_period d = 0 then 1 else 0))" for i
    using g lane_step[OF W okz at', of i "?inc mod sd_period d"] m
    by (subst eq, simp add: sp_advance_lanes r)+
  have "seq_at W (at_zero d) (g + ?inc) (as_seq ?s)"
  proof (rule seq_at_cong[OF nx])
    show "seq_regs W (at_zero d) (as_seq ?s)"
      using at' by (simp add: seq_at_def seq_regs_def fields)
    show "desc (as_seq ?s) = desc (as_seq s)" by (simp add: fields)
    show "desc (as_seq s) = (at_zero d)\<lparr>sd_dst_offset := sd_dst_off_x d\<rparr>" using at by (simp add: sp_at_def at_zero_def)
  qed (use g st fields r in simp_all)
  then show ?thesis using at by (simp add: sp_at_def fields)
qed

subsection \<open>The words of a reservation\<close>

text \<open>The words a reservation moves, with their register offsets, in ascending order.\<close>

definition res_words :: "nat \<Rightarrow> sp_reservation \<Rightarrow> (nat \<times> reg_offset) list" where
  "res_words W r = (let a = spr_sp_offset r div 4 in
    map (\<lambda>k. (a + k, spr_reg_offset r ((a + k) mod W))) (filter (\<lambda>k. spr_wordmask r ((a + k) mod W)) [0..<W]))"

lemma rotate_loop:
  fixes W j0 :: nat and ri :: "nat \<Rightarrow> reg_offset" and m :: "nat \<Rightarrow> bool" and r0 :: sp_reservation
  assumes "0 < W" "n \<le> W"
  defines "F \<equiv> \<lambda>n. for_upto n (\<lambda>i (j, r). ((j + 1) mod W, r\<lparr>spr_reg_offset := (spr_reg_offset r)(j := ri i),
      spr_wordmask := (spr_wordmask r)(j := m i)\<rparr>)) (j0 mod W, r0)"
  shows "fst (F n) = (j0 + n) mod W \<and> spr_rw (snd (F n)) = spr_rw r0 \<and> spr_sp_offset (snd (F n)) = spr_sp_offset r0 \<and>
    spr_target (snd (F n)) = spr_target r0 \<and> spr_write (snd (F n)) = spr_write r0 \<and> spr_last (snd (F n)) = spr_last r0 \<and>
    (\<forall>k<n. spr_wordmask (snd (F n)) ((j0 + k) mod W) = m k \<and> spr_reg_offset (snd (F n)) ((j0 + k) mod W) = ri k)"
  using assms(2)
proof (induction n)
  case 0
  then show ?case by (simp add: F_def)
next
  case (Suc n)
  obtain j r where F: "F n = (j, r)" by fastforce
  have j: "j = (j0 + n) mod W" using Suc F by simp
  have S: "F (Suc n) = ((j + 1) mod W, r\<lparr>spr_reg_offset := (spr_reg_offset r)(j := ri n), spr_wordmask := (spr_wordmask r)(j := m n)\<rparr>)"
    using F by (simp add: F_def)
  have "(j0 + k) mod W \<noteq> j" if "k < n" for k
    using ring_pos_inj[of "j0 mod W" W k n] that Suc.prems assms(1) j by (auto simp: mod_simps)
  moreover have "(j + 1) mod W = (j0 + Suc n) mod W" by (simp add: j mod_simps)
  ultimately show ?case using Suc F by (auto simp: S less_Suc_eq j)
qed

lemma mk_sp_reservation_fields:
  fixes a :: int and m :: "nat \<Rightarrow> bool" and ri :: "nat \<Rightarrow> reg_offset" and w :: bool and t :: req_dest_type
  assumes "W = 2 ^ b" "0 \<le> a" "a < 2 ^ 18"
  defines "r \<equiv> mk_sp_reservation W a m w t ri"
  shows "spr_rw r" "spr_sp_offset r = nat a" "spr_target r = t" "spr_write r = w" "\<not> spr_last r"
    "k < W \<Longrightarrow> spr_wordmask r ((nat a div 4 + k) mod W) = m k"
    "k < W \<Longrightarrow> spr_reg_offset r ((nat a div 4 + k) mod W) = ri k"
proof -
  have "drop_bit 2 (nat a) AND (W - 1) = nat a div 4 mod W"
    by (simp add: assms(1) and_mask_nat drop_bit_eq_div)
  then have r: "r = snd (for_upto W (\<lambda>i (j, r). ((j + 1) mod W, r\<lparr>spr_reg_offset := (spr_reg_offset r)(j := ri i),
      spr_wordmask := (spr_wordmask r)(j := m i)\<rparr>)) ((nat a div 4) mod W, sp_reservation_default
        \<lparr>spr_rw := True, spr_sp_offset := nat a, spr_target := t, spr_write := w\<rparr>))"
    using assms(2,3) by (simp add: r_def mk_sp_reservation_def Let_def)
  show "spr_rw r" "spr_sp_offset r = nat a" "spr_target r = t" "spr_write r = w" "\<not> spr_last r"
    "k < W \<Longrightarrow> spr_wordmask r ((nat a div 4 + k) mod W) = m k"
    "k < W \<Longrightarrow> spr_reg_offset r ((nat a div 4 + k) mod W) = ri k"
    using rotate_loop[where W = W and n = W and ri = ri and m = m and ?j0.0 = "nat a div 4" and ?r0.0 = "sp_reservation_default\<lparr>spr_rw := True, spr_sp_offset := nat a, spr_target := t, spr_write := w\<rparr>"]
    by (auto simp: r sp_reservation_default_def assms(1))
qed

lemma for_upto_select:
  "for_upto n (\<lambda>i r. if P i then r(i := f i) else r) r = (\<lambda>i. if i < n \<and> P i then f i else r i)"
  by (induction n) (auto simp: less_Suc_eq fun_eq_iff)

lemma sp_cycle_request:
  fixes T :: nat
  assumes W: "W = 2 ^ b" "b \<le> 16" and ok: "sp_stride_ok d" and at: "sp_at W d g s" and g: "g < sd_end (at_zero d)"
  defines "r \<equiv> fst (sp_stride_cycle W T s)"
  shows "res_words W r = map (\<lambda>x. (nat (sd_first d + x), regIdx T (as_seq s) (tgt_type (sd_dst d)) (nat (x - g))))
      (filter (in_stride (at_zero d)) [g..g + int W - 1])"
    "spr_rw r" "spr_write r = sd_write d" "spr_target r = tgt_type (sd_dst d)" "int (spr_sp_offset r) = sd_addr d + 4 * g"
    "spr_last r \<longleftrightarrow> sd_end (at_zero d) \<le> g + inc_at W (at_zero d) (as_seq s)"
proof -
  note rg = sp_at_regs[OF at ok]
  have at': "seq_at W (at_zero d) g (as_seq s)" using at by (simp add: sp_at_def)
  have a: "sd_addr d = 4 * sd_first d" "0 \<le> sd_addr d" using ok by (auto simp: sp_stride_ok_def sd_first_def)
  have e: "sd_end d = sd_first d + sd_end (at_zero d)" by (simp add: sd_end_def)
  have ad: "0 \<le> sd_addr d + 4 * g" "sd_addr d + 4 * g < 2 ^ 18" using a e g rg(3) ok by (simp_all add: sp_stride_ok_def)
  let ?t = "tgt_type (sd_dst d)"
  let ?ri = "\<lambda>i. if i < W \<and> sp_word_mask_select s i then sp_regIdx T s ?t i else q_ridx s i"
  let ?m = "mk_sp_reservation W (sd_addr d + 4 * g) (sp_word_mask_select s) (sd_write d) ?t ?ri"
  note f = mk_sp_reservation_fields[OF W(1) ad, where m = "sp_word_mask_select s" and w = "sd_write d" and t = ?t and ri = ?ri]
  have r: "r = ?m\<lparr>spr_last := q_state (snd (sp_stride_cycle W T s)) = DQ_ST_WAIT_DONE\<rparr>"
    using at by (simp add: r_def sp_stride_cycle_def Let_def for_upto_select sp_advance_lanes rg sp_at_def)
  show "spr_rw r" "spr_write r = sd_write d" "spr_target r = ?t" "int (spr_sp_offset r) = sd_addr d + 4 * g"
    using f(1-4) ad by (simp_all add: r)
  show "spr_last r \<longleftrightarrow> sd_end (at_zero d) \<le> g + inc_at W (at_zero d) (as_seq s)"
    by (subst r, subst sp_cycle_state[OF W ok at g]) simp
  have o: "nat (sd_addr d + 4 * g) div 4 = nat (sd_first d + g)" using a rg(3) by (simp add: nat_div_distrib)
  have msk: "filter (\<lambda>k. spr_wordmask r ((nat (sd_first d + g) + k) mod W)) [0..<W] = filter (\<lambda>i. in_stride (at_zero d) (g + int i)) [0..<W]"
    using f(6) sp_mask_at[OF W ok at _ g] by (intro filter_cong) (auto simp: r o)
  have off: "spr_sp_offset r div 4 = nat (sd_first d + g)" using f(2) by (simp add: r o)
  have ro: "spr_reg_offset r ((nat (sd_first d + g) + k) mod W) = regIdx T (as_seq s) ?t k" if "k < W" "in_stride (at_zero d) (g + int k)" for k
    using f(7)[OF that(1)] sp_mask_at[OF W ok at that(1) g] that sp_regIdx_at at by (simp add: r o sp_at_def)
  have "res_words W r = map (\<lambda>k. (nat (sd_first d + g) + k, regIdx T (as_seq s) ?t k)) (filter (\<lambda>i. in_stride (at_zero d) (g + int i)) [0..<W])"
    unfolding res_words_def Let_def off msk by (intro map_cong) (auto simp: ro)
  also have "\<dots> = map (\<lambda>x. (nat (sd_first d + x), regIdx T (as_seq s) ?t (nat (x - g)))) (filter (in_stride (at_zero d)) [g..g + int W - 1])"
    unfolding upto_map_upt using rg(3) a by (simp add: filter_map comp_def nat_add_distrib)
  finally show "res_words W r = map (\<lambda>x. (nat (sd_first d + x), regIdx T (as_seq s) ?t (nat (x - g))))
      (filter (in_stride (at_zero d)) [g..g + int W - 1])" .
qed

subsection \<open>The start of a stride\<close>

lemma sp_init_lanes_eq:
  assumes "0 < P" "P < 2 ^ 20"
  shows "sp_init_lanes n P l s = (int n mod P, l + int n div P,
    s\<lparr>q_phase := (\<lambda>i. if i < n then int i mod P else q_phase s i),
      q_line := (\<lambda>i. if i < n then sc_int 32 (l + int i div P) else q_line s i)\<rparr>)"
  unfolding sp_init_lanes_def
proof (induction n)
  case 0
  then show ?case using assms by simp
next
  case (Suc n)
  let ?x = "int n mod P"
  have x: "0 \<le> ?x" "?x < P" using assms by simp_all
  have ph: "sc_uint 22 ?x = ?x" using x assms(2) by simp
  have m: "int (Suc n) mod P = (?x + 1) mod P" by (simp add: mod_simps ac_simps)
  have "int (Suc n) = (?x + 1) + int n div P * P" by (simp add: algebra_simps)
  then have d: "int (Suc n) div P = int n div P + (?x + 1) div P"
    using assms(1) by (simp only: div_mult_self1)
  have c: "(?x + 1) div P = (if ?x + 1 = P then 1 else 0)" "(?x + 1) mod P = (if ?x + 1 = P then 0 else ?x + 1)"
    using x by auto
  show ?case
    unfolding for_upto_Suc Suc.IH m d c
    using assms(1) x by (auto simp: Let_def ph less_Suc_eq fun_eq_iff m d c intro!: spseq.equality)
qed

lemma sp_init_at:
  assumes W: "W = 2 ^ b" "b \<le> 16" and ok: "sp_stride_ok d" and d: "q_desc s = d" and v: "sp_validate_sd d"
    and s: "q_state s = DQ_ST_RUNNING" and off: "0 \<le> sd_dst_offset d"
  shows "\<exists>s'. sp_init_request_regs W s = Inr s' \<and> sp_at W d 0 s' \<and> q_out_write s' = q_out_write s"
proof -
  note okz = stride_ok_zero[OF ok W] and P = P_pos[OF W stride_ok_zero[OF ok W]]
  let ?z = "at_zero d" and ?u = "as_seq s"
  have P': "0 < sd_period d" "sd_period d < 2 ^ 20" using P by simp_all
  have vz: "validate_sd (int W) ?z" using v ok by (auto simp: sp_validate_sd_def validate_sd_def sp_stride_ok_def split: req_dest_type.splits)
  have u: "desc ?u = ?z" "seq_st ?u = CMDGEN_ST_RUNNING_STRIDE" "\<not> s_blocked ?u" using d s by simp_all
  from init_at[OF W okz u(1) vz u(2,3)] off obtain t where t: "init_request_regs W ?u = Inr t" "seq_at W ?z 0 t" by auto
  have z: "sc_int 32 0 = 0" "sd_period d mod 18446744073709551616 = sd_period d" "(sd_period d - 1) div sd_period d = 0"
    using P' by (simp_all add: sc_int_def)
  let ?sk = "sc_int 32 (sd_period d - (sd_words d + (int W - 1)))"
  have t_eq: "t = snd (snd (init_lanes W (sd_period d) 0 (sc_int 32 (sd_dst_off_y d)) (?u\<lparr>skip := ?sk AND NOT (int W - 1),
      skip_rest := ((?sk AND (int W - 1)) + sd_words d - 1) mod 2 ^ 32, skip_bw := ((?sk AND NOT (int W - 1)) + int W) mod 2 ^ 32,
      end_addr := end_addr t, global_addr := 0, local_idx := sc_uint 32 (sd_dst_offset d),
      line_increment := (if sd_period d < int W then line_increment_lut (int W) (sd_period d) else 0),
      sp_line_addr_increment := sp_line_addr_increment t\<rparr>)))"
    using t(1) vz ok d unfolding init_request_regs_def Let_def u(1) sp_stride_ok_def
    by (auto simp: z init_lanes_eq[OF P' order.refl P'(1)] cong: if_cong)
  have t': "phase t i = int i mod sd_period d" "line t i = sc_int 32 (sd_dst_off_y d + int i div sd_period d)" if "i < W" for i
    using that by (subst t_eq, simp add: init_lanes_eq[OF P' order.refl P'(1)] sc_int_add)+
  have tr: "skip t = ?sk AND NOT (int W - 1)" "skip_bw t = ((?sk AND NOT (int W - 1)) + int W) mod 2 ^ 32"
    "skip_rest t = ((?sk AND (int W - 1)) + sd_words d - 1) mod 2 ^ 32"
    "line_increment t = (if sd_period d < int W then line_increment_lut (int W) (sd_period d) else 0)"
    "global_addr t = 0" "seq_st t = CMDGEN_ST_RUNNING_STRIDE" "\<not> s_blocked t" "local_idx t = sc_uint 32 (sd_dst_offset d)"
    using u by (subst t_eq, simp add: init_lanes_eq[OF P' order.refl P'(1)])+
  have e: "sc_uint 32 (sd_addr d + push_bit 2 (sd_words d + sd_period d * (sd_period_count d - 1))) - sd_addr d = 4 * sd_end ?z"
    "sc_uint 32 (sd_addr d) = sd_addr d"
  proof -
    have a: "0 \<le> sd_addr d" "sd_addr d = 4 * sd_first d" "4 * sd_end d \<le> 2 ^ 18" "0 \<le> sd_period d * (sd_period_count d - 1)"
      using ok P by (auto simp: sp_stride_ok_def sd_first_def)
    have e: "sd_addr d + push_bit 2 (sd_words d + sd_period d * (sd_period_count d - 1)) = 4 * sd_end d"
      using a(2) by (simp add: push_bit_eq_mult sd_end_def)
    show "sc_uint 32 (sd_addr d + push_bit 2 (sd_words d + sd_period d * (sd_period_count d - 1))) - sd_addr d = 4 * sd_end ?z"
      unfolding e using a P by (simp add: sd_end_def)
    show "sc_uint 32 (sd_addr d) = sd_addr d" using a P by (simp add: sd_end_def)
  qed
  define s' where "s' = (snd (snd (sp_init_lanes W (sd_period d) (sc_int 32 (sd_dst_off_y d))
      (s\<lparr>q_skip := skip t, q_skip_rest := skip_rest t, q_skip_bw := skip_bw t,
         q_end_addr := sc_uint 32 (sd_addr d + push_bit 2 (sd_words d + sd_period d * (sd_period_count d - 1))),
         q_global_addr := sc_uint 32 (sd_addr d), q_local_idx := sc_uint 32 (sd_dst_offset d),
         q_desc := d\<lparr>sd_dst_offset := sd_dst_off_x d\<rparr>, q_line_increment := line_increment t\<rparr>))))"
  have "sp_init_request_regs W s = Inr s'"
    unfolding sp_init_request_regs_def d s'_def tr(1-4) using v by (simp add: Let_def)
  moreover have "seq_at W ?z 0 (as_seq s')"
  proof (rule seq_at_cong[OF t(2), where u = "as_seq s'"])
    show "seq_regs W ?z (as_seq s')"
      using t(2) e by (simp add: seq_at_def seq_regs_def s'_def sp_init_lanes_eq[OF P'] Let_def)
    show "desc (as_seq s') = ?z\<lparr>sd_dst_offset := sd_dst_off_x d\<rparr>" by (simp add: s'_def sp_init_lanes_eq[OF P'] at_zero_def)
  qed (use t' tr e s in \<open>simp_all add: s'_def sp_init_lanes_eq[OF P'] sc_int_add\<close>)
  ultimately show ?thesis using s by (intro exI[of _ s']) (simp add: sp_at_def s'_def sp_init_lanes_eq[OF P'])
qed

end
