(* ===== verification/Sp_System.thy ===== *)
theory Sp_System
  imports Sp_Stride Reg_Props
begin

text \<open>
  The scratchpad, part three: \<open>sp/control/DQ.h\<close>, the stage that lines up commands and register file signals, and
  \<open>sp/control/Scratchpad.h\<close>, which connects sequencer, stage and storage array. The theorems follow a stride through all
  of it, from the descriptor to the memory words.
\<close>

subsection \<open>The data path stage\<close>

record sp_dq =
  dqp_sa :: dq_pipe_sa
  dqp_rf :: dq_pipe_rf
  dqo_rf :: dq_pipe_rf
  dqo_done :: bool
  dqo_sa_cmd :: dq_pipe_sa

definition sp_dq_init :: sp_dq where
  "sp_dq_init = \<lparr>dqp_sa = dq_pipe_sa_default, dqp_rf = dq_pipe_rf_default, dqo_rf = dq_pipe_rf_default, dqo_done = False,
     dqo_sa_cmd = dq_pipe_sa_default\<rparr>"

text \<open>
  \<open>rf_commit\<close> drives the signals \<open>out_rf_rw\<close>, \<open>out_rf_mask_w\<close> and \<open>out_rf_idx_w\<close>: they are one value here, the fields \<open>write_w\<close>
  and \<open>last\<close> of which are no signals.
\<close>

definition rf_commit :: "dq_pipe_rf \<Rightarrow> sp_dq \<Rightarrow> sp_dq" where
  "rf_commit prf s = s\<lparr>dqo_rf := prf\<rparr>"

definition sp_dq_thread :: "bool \<Rightarrow> sp_reservation option \<Rightarrow> sp_dq \<Rightarrow> sp_dq" where
  "sp_dq_thread in_read fifo s =
    (let res = (case fifo of None \<Rightarrow> sp_reservation_default | Some r \<Rightarrow> r) in
     if in_read then
       let prf = dqp_rf s; psa = get_pipe_sa res
       in (rf_commit prf (s\<lparr>dqp_rf := get_pipe_rf res, dqo_done := prf_last prf\<rparr>))\<lparr>dqo_sa_cmd := psa\<rparr>
     else
       let psa = dqp_sa s; prf = get_pipe_rf res
       in (rf_commit prf (s\<lparr>dqp_sa := get_pipe_sa res, dqo_done := psa_last psa\<rparr>))\<lparr>dqo_sa_cmd := psa\<rparr>)"

subsection \<open>The scratchpad\<close>

record spd_inputs =
  pi_trigger :: bool
  pi_desc :: "stride_descriptor option"
  pi_sched_opts :: sched_opts
  pi_ticket_pop :: int
  pi_rf_data :: "nat \<Rightarrow> u32"
  pi_rf_mask :: "nat \<Rightarrow> bool"
  pi_dram_enable :: bool
  pi_dram_dst :: RequestTarget
  pi_dram_write :: bool
  pi_dram_addr :: nat
  pi_dram_data :: "nat \<Rightarrow> u32"
  pi_dram_mask :: "nat \<Rightarrow> bool"

record scratchpad =
  spd_seq :: spseq
  spd_dq :: sp_dq
  spd_array :: storage_array

definition array_inputs :: "spd_inputs \<Rightarrow> sp_dq \<Rightarrow> sa_inputs" where
  "array_inputs i q = \<lparr>sa_dq_cmd = dqo_sa_cmd q, sa_rf_data = pi_rf_data i, sa_rf_mask = pi_rf_mask i,
     sa_dram_enable = pi_dram_enable i, sa_dram_dst = pi_dram_dst i, sa_dram_write = pi_dram_write i,
     sa_dram_addr = pi_dram_addr i, sa_dram_data = pi_dram_data i, sa_dram_mask = pi_dram_mask i\<rparr>"

definition sequencer_inputs :: "spd_inputs \<Rightarrow> sp_dq \<Rightarrow> spseq_inputs" where
  "sequencer_inputs i q = \<lparr>qi_trigger = pi_trigger i, qi_desc = pi_desc i, qi_dq_fifo_free = True, qi_dq_done = dqo_done q,
     qi_sched_opts = pi_sched_opts i, qi_ticket_pop = pi_ticket_pop i\<rparr>"

text \<open>
  One clock cycle. Array and sequencer run at the clock edge, on the signals of the cycle before; the data path stage waits
  for a delta cycle, so it takes the reservation of this cycle out of its FIFO, which is empty again at the next edge, and
  sees the new direction.
\<close>

definition scratchpad_cycle ::
  "slot \<Rightarrow> sp_cfg \<Rightarrow> nat \<Rightarrow> spd_inputs \<Rightarrow> scratchpad \<Rightarrow> (spseq_effects \<times> scratchpad) res" where
  "scratchpad_cycle WG C T i s =
    bindE (array_thread WG C (array_inputs i (spd_dq s)) (spd_array s)) (\<lambda>(u, a).
    bindE (sp_seq_thread_lt WG (SP_BUS_WIDTH C) T (sequencer_inputs i (spd_dq s)) (spd_seq s)) (\<lambda>(e, q).
    Inr (e, \<lparr>spd_seq = q, spd_dq = sp_dq_thread (q_out_write q) (qe_req e) (spd_dq s), spd_array = a\<rparr>)))"

subsection \<open>With a register file\<close>

text \<open>
  Scratchpad and register file share the clock and the signals of \<open>SimdCluster.h\<close>: at an edge the storage thread of the
  register file takes the register and the direction from the sequencer, mask and offsets from the data path stage, and the
  scratchpad takes the words and the mask the register file drove in the cycle before. The state is the pair of both. The
  other sources of the register file's storage port, the DRAM and the scratchpad of the other work-group, are idle.
\<close>

definition rf_port :: "slot \<Rightarrow> scratchpad \<Rightarrow> store_inputs" where
  "rf_port WG s = \<lparr>in_store_enable = (\<lambda>i. i = sp_if WG \<and> prf_rw (dqo_rf (spd_dq s))), in_store_write = (\<lambda>_. q_out_write (spd_seq s)),
     in_store_reg = (\<lambda>_. q_out_rf_reg (spd_seq s)), in_store_mask = (\<lambda>_. prf_mask_w (dqo_rf (spd_dq s))),
     in_store_idx = (\<lambda>_. prf_idx_w (dqo_rf (spd_dq s))), in_store_data = (\<lambda>_. sa_out_data (spd_array s)),
     in_dram_dst = RequestTarget_default, in_store_idx_push_trigger = False\<rparr>"

type_synonym rf_bus = "(nat \<Rightarrow> u32) \<times> (nat \<Rightarrow> bool)"

definition bus_of :: "slot \<Rightarrow> regfile \<Rightarrow> rf_bus" where
  "bus_of WG rf = (out_store_data rf (sp_if WG), out_store_mask rf (sp_if WG))"

definition store_cycle ::
  "slot \<Rightarrow> rf_cfg \<Rightarrow> sp_cfg \<Rightarrow> spd_inputs \<Rightarrow> scratchpad \<times> regfile \<Rightarrow> (spseq_effects \<times> (scratchpad \<times> regfile)) res" where
  "store_cycle WG c C i st =
    bindE (scratchpad_cycle WG C (THREADS c)
        (i\<lparr>pi_rf_data := fst (bus_of WG (snd st)), pi_rf_mask := snd (bus_of WG (snd st))\<rparr>) (fst st)) (\<lambda>(e, s').
    bindE (thread_store c (rf_port WG (fst st)) (snd st)) (\<lambda>rf. Inr (e, (s', rf))))"

text \<open>
  What the register file holds for the offsets of a transfer from register \<open>rg\<close>: words, and which lanes are enabled. The
  answer it is expected to give to a request, on the lanes of the mask.
\<close>

definition rf_words :: "rf_cfg \<Rightarrow> areg \<Rightarrow> regfile \<Rightarrow> reg_offset \<Rightarrow> u32" where
  "rf_words c rg rf ro = VRF rf (rwg rg) (store_off c (rrow rg) ro)"

definition rf_lanes :: "rf_cfg \<Rightarrow> areg \<Rightarrow> regfile \<Rightarrow> reg_offset \<Rightarrow> bool" where
  "rf_lanes c rg rf ro = lane_enabled c rf (rwg rg) (off_lane (THREADS c) ro)"

definition rf_answer :: "(reg_offset \<Rightarrow> u32) \<Rightarrow> (reg_offset \<Rightarrow> bool) \<Rightarrow> dq_pipe_rf \<Rightarrow> rf_bus" where
  "rf_answer R M prf = (\<lambda>l. R (prf_idx_w prf l), \<lambda>l. M (prf_idx_w prf l))"

text \<open>No two words of the request lie in different words of one bank: the storage thread aborts otherwise.\<close>

definition no_conflict :: "rf_cfg \<Rightarrow> hazard_detect \<Rightarrow> dq_pipe_rf \<Rightarrow> bool" where
  "no_conflict c hz p \<longleftrightarrow> (\<forall>k. \<not> access_vrf_bank_conflict (THREADS c) (LANES c) hz (SP_BUS c) (prf_idx_w p) (prf_mask_w p) k)"

definition rf_is :: "rf_cfg \<Rightarrow> areg \<Rightarrow> (reg_offset \<Rightarrow> u32) \<Rightarrow> (reg_offset \<Rightarrow> bool) \<Rightarrow> hazard_detect \<Rightarrow> regfile \<Rightarrow> bool" where
  "rf_is c rg R M hz rf \<longleftrightarrow> rf_words c rg rf = R \<and> rf_lanes c rg rf = M \<and> rf_hazard rf = hz"

lemma store_read_hazard:
  "for_res n (store_read_vgpr_word c intf ix conflicts msk wg ln) p = Inr q \<Longrightarrow> rf_hazard (fst q) = rf_hazard (fst p)"
proof (induction n arbitrary: q)
  case (Suc n)
  then obtain u where u: "for_res n (store_read_vgpr_word c intf ix conflicts msk wg ln) p = Inr u"
    "store_read_vgpr_word c intf ix conflicts msk wg ln n u = Inr q" by (auto simp: bindE_Inr_iff)
  have "rf_hazard (fst q) = rf_hazard (fst u)"
    using u(2) by (cases u) (auto simp: store_read_vgpr_word_def Let_def assertE_def split: if_splits)
  with Suc.IH[OF u(1)] show ?case by simp
qed simp

lemma bus_words_sp [simp]: "bus_words c (sp_if WG) = SP_BUS c"
  by (simp add: bus_words_def sp_if_def)

lemma read_answers:
  assumes "rwg rg = WG" "no_conflict c (rf_hazard rf) p" "in_store_idx st (sp_if WG) = prf_idx_w p"
  shows "\<exists>rf'. sp_read_vgpr c st (rwg rg) (rrow rg) (prf_mask_w p) rf = Inr rf' \<and> rf_is c rg (rf_words c rg rf) (rf_lanes c rg rf) (rf_hazard rf) rf' \<and>
    (\<forall>l<SP_BUS c. prf_mask_w p l \<longrightarrow> snd (bus_of WG rf') l = rf_lanes c rg rf (prf_idx_w p l) \<and>
      (rf_lanes c rg rf (prf_idx_w p l) \<longrightarrow> fst (bus_of WG rf') l = rf_words c rg rf (prf_idx_w p l)))"
proof -
  let ?s = "clear_vrf_bank_word_hit_map c rf"
  have s: "lanes_en ?s = lanes_en rf" "VRF ?s = VRF rf" "rf_hazard ?s = rf_hazard rf"
    by (simp_all add: clear_vrf_bank_word_hit_map_def)
  let ?conf = "access_vrf_bank_conflict (THREADS c) (LANES c) (rf_hazard rf) (SP_BUS c) (prf_idx_w p) (prf_mask_w p)"
  have nc: "\<And>i. \<not> ?conf i" using assms(2) by (simp add: no_conflict_def)
  from store_read_loop[where conflicts = ?conf and n = "SP_BUS c" and s = ?s, OF nc]
  obtain t where t: "for_res (SP_BUS c) (store_read_vgpr_word c (sp_if WG) (prf_idx_w p) ?conf (prf_mask_w p) WG (unat (rrow rg) * THREADS c)) (?s, \<lambda>_. False) =
      Inr (t, \<lambda>i. i < SP_BUS c \<and> moves c ?s WG (prf_mask_w p) (prf_idx_w p) i)" "lanes_en t = lanes_en ?s" "VRF t = VRF ?s"
    "\<forall>i<SP_BUS c. moves c ?s WG (prf_mask_w p) (prf_idx_w p) i \<longrightarrow>
      out_store_data t (sp_if WG) i = VRF ?s WG (store_off c (rrow rg) (prf_idx_w p i))" by blast
  have h: "rf_hazard t = rf_hazard rf" using store_read_hazard[OF t(1)] s(3) by simp
  have m: "moves c ?s WG (prf_mask_w p) (prf_idx_w p) i \<longleftrightarrow> prf_mask_w p i \<and> rf_lanes c rg rf (prf_idx_w p i)" for i
    using assms(1) by (simp add: moves_def rf_lanes_def lane_enabled_cong[OF s(1)])
  let ?t = "t\<lparr>dram_vrf_words_r := dram_vrf_words_r t + count_vrf_bank_word_hit_map c t * bank_words t,
      out_store_mask := (out_store_mask t)(sp_if WG := \<lambda>i. i < SP_BUS c \<and> moves c ?s WG (prf_mask_w p) (prf_idx_w p) i)\<rparr>"
  have r: "sp_read_vgpr c st (rwg rg) (rrow rg) (prf_mask_w p) rf = Inr ?t"
    using t(1) by (simp add: sp_read_vgpr_def store_read_vgpr_def Let_def assms(1,3))
  have "rf_is c rg (rf_words c rg rf) (rf_lanes c rg rf) (rf_hazard rf) ?t"
    by (simp add: rf_is_def fun_eq_iff rf_words_def rf_lanes_def lane_enabled_def t(2,3) s h)
  moreover have "snd (bus_of WG ?t) l = rf_lanes c rg rf (prf_idx_w p l) \<and>
      (rf_lanes c rg rf (prf_idx_w p l) \<longrightarrow> fst (bus_of WG ?t) l = rf_words c rg rf (prf_idx_w p l))"
    if "l < SP_BUS c" "prf_mask_w p l" for l
    using that t(4) by (simp add: bus_of_def m rf_words_def assms(1) s)
  ultimately show ?thesis using r by blast
qed

lemma port_answers:
  assumes r: "rtype rg = REGISTER_VGPR" "rwg rg = WG" and p: "dqo_rf (spd_dq s) = p"
    and rq: "prf_rw p \<Longrightarrow> q_out_rf_reg (spd_seq s) = rg \<and> \<not> q_out_write (spd_seq s) \<and> no_conflict c (rf_hazard rf) p"
  shows "\<exists>rf'. thread_store c (rf_port WG s) rf = Inr rf' \<and> rf_is c rg (rf_words c rg rf) (rf_lanes c rg rf) (rf_hazard rf) rf' \<and>
    (prf_rw p \<longrightarrow> (\<forall>l<SP_BUS c. prf_mask_w p l \<longrightarrow> snd (bus_of WG rf') l = rf_lanes c rg rf (prf_idx_w p l) \<and>
      (rf_lanes c rg rf (prf_idx_w p l) \<longrightarrow> fst (bus_of WG rf') l = rf_words c rg rf (prf_idx_w p l))))"
proof (cases "prf_rw p")
  case False
  then show ?thesis by (simp add: thread_store_def rf_port_def Let_def p sp_if_def rf_is_def)
next
  case True
  note q = rq[OF True]
  have th: "thread_store c (rf_port WG s) rf = do_store_sp c (sp_if WG) (rf_port WG s) rf"
    using True by (cases "WG = 0") (simp_all add: thread_store_def rf_port_def Let_def p sp_if_def bindE_Inr_right)
  have f: "in_store_mask (rf_port WG s) i = prf_mask_w p" "in_store_reg (rf_port WG s) i = rg" "in_store_write (rf_port WG s) i = False"
    "in_store_idx (rf_port WG s) i = prf_idx_w p" for i
    using q by (simp_all add: rf_port_def p)
  show ?thesis
  proof (cases "\<exists>l<SP_BUS c. prf_mask_w p l")
    case False
    then have "do_store_sp c (sp_if WG) (rf_port WG s) rf = Inr rf" by (simp add: do_store_sp_def Let_def f)
    with False show ?thesis unfolding th by (auto simp: rf_is_def)
  next
    case m: True
    have "do_store_sp c (sp_if WG) (rf_port WG s) rf = sp_read_vgpr c (rf_port WG s) (rwg rg) (rrow rg) (prf_mask_w p) rf"
      using m r by (auto simp: do_store_sp_def Let_def f)
    then show ?thesis unfolding th using read_answers[OF r(2) _ f(4), where c = c and rf = rf] q by auto
  qed
qed

text \<open>Storing words one after the other, each under the mask.\<close>

definition store_words :: "(reg_offset \<Rightarrow> u32) \<Rightarrow> (reg_offset \<Rightarrow> bool) \<Rightarrow> (nat \<times> reg_offset) list \<Rightarrow> (nat \<Rightarrow> u32) \<Rightarrow> nat \<Rightarrow> u32" where
  "store_words R M ws f = fold (\<lambda>(w, ro) f. if M ro then f(w := R ro) else f) ws f"

lemma store_words_append: "store_words R M (xs @ ys) f = store_words R M ys (store_words R M xs f)"
  by (simp add: store_words_def)

lemma store_words_distinct:
  "distinct (map fst ws) \<Longrightarrow> store_words R M ws f = (\<lambda>w. if \<exists>ro. (w, ro) \<in> set ws \<and> M ro then R (the (map_of ws w)) else f w)"
proof (induction ws arbitrary: f)
  case Nil
  then show ?case by (simp add: store_words_def)
next
  case (Cons p ws)
  obtain w ro where p: "p = (w, ro)" by fastforce
  have n: "(w, x) \<notin> set ws" for x using Cons.prems p by (auto simp: image_iff dest!: bspec)
  have "store_words R M (p # ws) f = store_words R M ws (if M ro then f(w := R ro) else f)" by (simp add: store_words_def p)
  with Cons n show ?case by (auto simp: p fun_eq_iff)
qed

text \<open>What a command to the array does to the flat memory with a given answer on the bus.\<close>

definition sa_apply :: "nat \<Rightarrow> dq_pipe_sa \<Rightarrow> rf_bus \<Rightarrow> (nat \<Rightarrow> u32) \<Rightarrow> nat \<Rightarrow> u32" where
  "sa_apply W c b f = (if psa_rw c \<and> psa_write_w c
     then flat_write W (psa_addr c div 4) (\<lambda>l. psa_mask_w c l \<and> snd b l) (fst b) f else f)"

lemma sa_apply_cong:
  assumes "0 < W" "\<And>l. l < W \<Longrightarrow> psa_mask_w c l \<Longrightarrow> psa_rw c \<Longrightarrow> snd b l = snd b' l \<and> (snd b' l \<longrightarrow> fst b l = fst b' l)"
  shows "sa_apply W c b f = sa_apply W c b' f"
  using assms by (auto simp: sa_apply_def flat_write_def fun_eq_iff)

lemma sa_apply_reservation:
  assumes "0 < W" "spr_rw r" "spr_write r"
  shows "sa_apply W (get_pipe_sa r) (rf_answer R M (get_pipe_rf r)) f = store_words R M (res_words W r) f"
proof -
  let ?a = "spr_sp_offset r div 4"
  let ?ws = "res_words W r"
  have "map fst ?ws = map ((+) ?a) (filter (\<lambda>k. spr_wordmask r ((?a + k) mod W)) [0..<W])"
    by (simp add: res_words_def Let_def comp_def)
  then have d: "distinct (map fst ?ws)" by (simp add: distinct_map)
  have mem: "(w, ro) \<in> set ?ws \<longleftrightarrow> ?a \<le> w \<and> w < ?a + W \<and> spr_wordmask r (w mod W) \<and> ro = spr_reg_offset r (w mod W)" for w ro
  proof
    assume "?a \<le> w \<and> w < ?a + W \<and> spr_wordmask r (w mod W) \<and> ro = spr_reg_offset r (w mod W)"
    then show "(w, ro) \<in> set ?ws"
      unfolding res_words_def Let_def by (auto intro!: image_eqI[of _ _ "w - ?a"])
  qed (auto simp: res_words_def Let_def)
  have "R (the (map_of ?ws w)) = R (spr_reg_offset r (w mod W))" if "(w, ro) \<in> set ?ws" for w ro
    using that d mem by (metis map_of_eq_Some_iff option.sel)
  then show ?thesis
    unfolding store_words_distinct[OF d]
    by (auto simp: sa_apply_def get_pipe_sa_def get_pipe_rf_def rf_answer_def flat_write_def fun_eq_iff assms(2,3) mem)
qed

subsection \<open>Stores\<close>

lemma sp_popcount_card: "sp_popcount n m = card {l. l < n \<and> m l}"
proof -
  have "sp_popcount n m = card (set (filter m [0..<n]))" unfolding sp_popcount_def by (intro distinct_card[symmetric]) simp
  also have "set (filter m [0..<n]) = {l. l < n \<and> m l}" by auto
  finally show ?thesis .
qed

lemma sp_popcount_mono: "(\<And>l. l < n \<Longrightarrow> m l \<Longrightarrow> k l) \<Longrightarrow> sp_popcount n m \<le> sp_popcount n k"
  unfolding sp_popcount_card by (intro card_mono) auto

lemma sp_popcount_rotate:
  assumes "0 < n"
  shows "length (filter (\<lambda>k. m ((a + k) mod n)) [0..<n]) = sp_popcount n m"
proof -
  have "bij_betw (\<lambda>k. (a + k) mod n) {k. k < n \<and> m ((a + k) mod n)} {l. l < n \<and> m l}"
  proof (rule bij_betw_imageI)
    show "inj_on (\<lambda>k. (a + k) mod n) {k. k < n \<and> m ((a + k) mod n)}"
      using ring_pos_inj[of "a mod n" n] assms by (auto intro!: inj_onI simp: mod_simps)
    show "(\<lambda>k. (a + k) mod n) ` {k. k < n \<and> m ((a + k) mod n)} = {l. l < n \<and> m l}"
    proof (intro equalityI subsetI)
      fix l assume l: "l \<in> {l. l < n \<and> m l}"
      then obtain k where "k < n" "l = (a mod n + k) mod n" using ring_pos_ex[of "a mod n" n l] assms by auto
      then show "l \<in> (\<lambda>k. (a + k) mod n) ` {k. k < n \<and> m ((a + k) mod n)}"
        using l by (intro image_eqI[of _ _ k]) (auto simp: mod_simps)
    qed (use assms in auto)
  qed
  then have "sp_popcount n (\<lambda>k. m ((a + k) mod n)) = sp_popcount n m" unfolding sp_popcount_card by (rule bij_betw_same_card)
  then show ?thesis by (simp add: sp_popcount_def)
qed

text \<open>A store command that stays in the array; the commands on their way, and the memory they will leave behind.\<close>

definition cmd_fits :: "sp_cfg \<Rightarrow> dq_pipe_sa \<Rightarrow> bool" where
  "cmd_fits C c \<longleftrightarrow> (psa_rw c \<longrightarrow> psa_write_w c \<and>
     psa_addr c + 4 * sp_popcount (SP_BUS_WIDTH C) (psa_mask_w c) < SIZE_BYTES C \<and>
     burst_in C (SP_BUS_WIDTH C) (psa_addr c div 4) (psa_mask_w c))"

text \<open>
  The state of a store from register \<open>rg\<close>: the commands on their way fit the array, the request to the register file is the
  one of the command behind it, asks for the right register and does not conflict; the contents of the register file are
  \<open>R\<close>, \<open>M\<close> and \<open>hz\<close>. With these, \<open>pending\<close> is the memory the commands on their way will leave behind.
\<close>

definition request_fits :: "rf_cfg \<Rightarrow> areg \<Rightarrow> hazard_detect \<Rightarrow> scratchpad \<Rightarrow> bool" where
  "request_fits c rg hz s \<longleftrightarrow> (let q = spd_dq s in
     (psa_rw (dqp_sa q) \<longrightarrow> prf_rw (dqo_rf q) \<and> prf_mask_w (dqo_rf q) = psa_mask_w (dqp_sa q)) \<and>
     (prf_rw (dqo_rf q) \<longrightarrow> q_out_rf_reg (spd_seq s) = rg \<and> \<not> q_out_write (spd_seq s) \<and> no_conflict c hz (dqo_rf q)))"

definition stores_fit ::
  "sp_cfg \<Rightarrow> rf_cfg \<Rightarrow> areg \<Rightarrow> (reg_offset \<Rightarrow> u32) \<Rightarrow> (reg_offset \<Rightarrow> bool) \<Rightarrow> hazard_detect \<Rightarrow> scratchpad \<times> regfile \<Rightarrow> bool" where
  "stores_fit C c rg R M hz st \<longleftrightarrow> cmd_fits C (dqp_sa (spd_dq (fst st))) \<and> cmd_fits C (dqo_sa_cmd (spd_dq (fst st))) \<and>
     request_fits c rg hz (fst st) \<and> rf_is c rg R M hz (snd st)"

definition pending ::
  "slot \<Rightarrow> sp_cfg \<Rightarrow> (reg_offset \<Rightarrow> u32) \<Rightarrow> (reg_offset \<Rightarrow> bool) \<Rightarrow> scratchpad \<times> regfile \<Rightarrow> nat \<Rightarrow> u32" where
  "pending WG C R M st = (let q = spd_dq (fst st); W = SP_BUS_WIDTH C in
     sa_apply W (dqp_sa q) (rf_answer R M (dqo_rf q))
       (sa_apply W (dqo_sa_cmd q) (bus_of WG (snd st)) (flat C (sa_sp (spd_array (fst st))))))"

definition port_ok :: "slot \<Rightarrow> sp_cfg \<Rightarrow> rf_cfg \<Rightarrow> areg \<Rightarrow> bool" where
  "port_ok WG C c rg \<longleftrightarrow> rtype rg = REGISTER_VGPR \<and> rwg rg = WG \<and> SP_BUS c = SP_BUS_WIDTH C"

definition no_dram :: "slot \<Rightarrow> spd_inputs \<Rightarrow> bool" where
  "no_dram WG i \<longleftrightarrow> \<not> (pi_dram_enable i \<and> pi_dram_dst i = \<lparr>tgt_wg = WG, tgt_type = TARGET_SP\<rparr>)"

lemma store_array_step:
  assumes "sp_cfg_ok C" "no_dram WG i" "cmd_fits C (dqo_sa_cmd q)"
  shows "\<exists>a'. array_thread WG C (array_inputs (i\<lparr>pi_rf_data := fst b, pi_rf_mask := snd b\<rparr>) q) a = Inr ((), a') \<and>
    flat C (sa_sp a') = sa_apply (SP_BUS_WIDTH C) (dqo_sa_cmd q) b (flat C (sa_sp a))"
proof -
  let ?i = "array_inputs (i\<lparr>pi_rf_data := fst b, pi_rf_mask := snd b\<rparr>) q"
  have h: "\<not> dram_hits WG ?i" using assms(2) by (simp add: dram_hits_def array_inputs_def no_dram_def)
  have "sp_popcount (SP_BUS_WIDTH C) (\<lambda>l. psa_mask_w (dqo_sa_cmd q) l \<and> snd b l) \<le> sp_popcount (SP_BUS_WIDTH C) (psa_mask_w (dqo_sa_cmd q))"
    by (rule sp_popcount_mono) simp
  then have "array_cycle_ok WG C ?i"
    using assms(3) h by (auto simp: array_cycle_ok_def array_inputs_def cmd_fits_def burst_in_def Let_def)
  from array_step[OF assms(1) this, of a] obtain a' where a: "array_thread WG C ?i a = Inr ((), a')"
    "array_abs C a' = flat_cycle WG C ?i (array_abs C a)" by blast
  have "flat C (sa_sp a') = sa_apply (SP_BUS_WIDTH C) (dqo_sa_cmd q) b (flat C (sa_sp a))"
    using a(2) h assms(3) by (auto simp: array_abs_def flat_cycle_def sa_apply_def array_inputs_def cmd_fits_def Let_def)
  with a(1) show ?thesis by blast
qed

definition res_of :: "spseq_effects \<Rightarrow> sp_reservation" where
  "res_of e = (case qe_req e of None \<Rightarrow> sp_reservation_default | Some r \<Rightarrow> r)"

lemma default_fits [simp]: "cmd_fits C (get_pipe_sa sp_reservation_default)"
  by (simp add: cmd_fits_def get_pipe_sa_def sp_reservation_default_def)

lemma default_request [simp]: "\<not> prf_rw (get_pipe_rf sp_reservation_default)" "\<not> psa_rw (get_pipe_sa sp_reservation_default)"
  by (simp_all add: get_pipe_rf_def get_pipe_sa_def sp_reservation_default_def)

text \<open>A cycle of a store: the reservation of the sequencer is added to what will be in the memory.\<close>

lemma store_step:
  assumes C: "sp_cfg_ok C" and P: "port_ok WG C c rg" and nd: "no_dram WG i"
    and fit: "stores_fit C c rg R M hz st" "cmd_fits C (get_pipe_sa (res_of e))"
    and sq: "sp_seq_thread_lt WG (SP_BUS_WIDTH C) (THREADS c) (sequencer_inputs i (spd_dq (fst st))) (spd_seq (fst st)) = Inr (e, q)"
    and dir: "\<not> q_out_write q"
    and rq: "spr_rw (res_of e) \<Longrightarrow> q_out_rf_reg q = rg \<and> no_conflict c hz (get_pipe_rf (res_of e))"
  shows "\<exists>st'. store_cycle WG c C i st = Inr (e, st') \<and> spd_seq (fst st') = q \<and> stores_fit C c rg R M hz st' \<and>
    pending WG C R M st' = sa_apply (SP_BUS_WIDTH C) (get_pipe_sa (res_of e)) (rf_answer R M (get_pipe_rf (res_of e))) (pending WG C R M st) \<and>
    dqp_sa (spd_dq (fst st')) = get_pipe_sa (res_of e) \<and> dqo_sa_cmd (spd_dq (fst st')) = dqp_sa (spd_dq (fst st)) \<and>
    dqo_done (spd_dq (fst st')) = psa_last (dqp_sa (spd_dq (fst st))) \<and> dqo_rf (spd_dq (fst st')) = get_pipe_rf (res_of e)"
proof -
  let ?q = "spd_dq (fst st)" and ?W = "SP_BUS_WIDTH C" and ?b = "bus_of WG (snd st)"
  let ?flat = "flat C (sa_sp (spd_array (fst st)))"
  have W: "0 < ?W" using C by (auto simp: sp_cfg_ok_def)
  have rf: "rtype rg = REGISTER_VGPR" "rwg rg = WG" "SP_BUS c = ?W" using P by (simp_all add: port_ok_def)
  have R: "rf_words c rg (snd st) = R" "rf_lanes c rg (snd st) = M" "rf_hazard (snd st) = hz"
    using fit(1) by (simp_all add: stores_fit_def rf_is_def)
  have req: "psa_rw (dqp_sa ?q) \<Longrightarrow> prf_rw (dqo_rf ?q) \<and> prf_mask_w (dqo_rf ?q) = psa_mask_w (dqp_sa ?q)"
    "prf_rw (dqo_rf ?q) \<Longrightarrow> q_out_rf_reg (spd_seq (fst st)) = rg \<and> \<not> q_out_write (spd_seq (fst st)) \<and> no_conflict c hz (dqo_rf ?q)"
    using fit(1) by (simp_all add: stores_fit_def request_fits_def Let_def)
  obtain a' where a: "array_thread WG C (array_inputs (i\<lparr>pi_rf_data := fst ?b, pi_rf_mask := snd ?b\<rparr>) ?q) (spd_array (fst st)) = Inr ((), a')"
    "flat C (sa_sp a') = sa_apply ?W (dqo_sa_cmd ?q) ?b ?flat"
    using store_array_step[OF C nd] fit(1) unfolding stores_fit_def by blast
  from port_answers[OF rf(1,2) refl req(2)[folded R(3)]] obtain rf' where
    b: "thread_store c (rf_port WG (fst st)) (snd st) = Inr rf'" "rf_is c rg R M hz rf'"
    "prf_rw (dqo_rf ?q) \<longrightarrow> (\<forall>l<?W. prf_mask_w (dqo_rf ?q) l \<longrightarrow> snd (bus_of WG rf') l = M (prf_idx_w (dqo_rf ?q) l) \<and>
      (M (prf_idx_w (dqo_rf ?q) l) \<longrightarrow> fst (bus_of WG rf') l = R (prf_idx_w (dqo_rf ?q) l)))"
    unfolding R rf(3) by blast
  have ap: "sa_apply ?W (dqp_sa ?q) (bus_of WG rf') f = sa_apply ?W (dqp_sa ?q) (rf_answer R M (dqo_rf ?q)) f" for f
    using b(3) req(1) by (intro sa_apply_cong[OF W]) (simp add: rf_answer_def)
  have i: "sequencer_inputs (i\<lparr>pi_rf_data := fst ?b, pi_rf_mask := snd ?b\<rparr>) ?q = sequencer_inputs i ?q"
    by (simp add: sequencer_inputs_def)
  have d: "sp_dq_thread (q_out_write q) (qe_req e) ?q = ?q\<lparr>dqp_sa := get_pipe_sa (res_of e), dqo_done := psa_last (dqp_sa ?q),
      dqo_rf := get_pipe_rf (res_of e), dqo_sa_cmd := dqp_sa ?q\<rparr>"
    using dir by (simp add: sp_dq_thread_def rf_commit_def res_of_def Let_def)
  have dF: "q_out_write q = False" using dir by simp
  note d = d[unfolded dF]
  let ?st = "(\<lparr>spd_seq = q, spd_dq = sp_dq_thread (q_out_write q) (qe_req e) ?q, spd_array = a'\<rparr>, rf')"
  have step: "store_cycle WG c C i st = Inr (e, ?st)"
    using a(1) sq b(1) by (simp add: store_cycle_def scratchpad_cycle_def i)
  have "request_fits c rg hz (fst ?st)"
    using rq by (simp add: request_fits_def dF d Let_def) (simp add: get_pipe_sa_def get_pipe_rf_def)
  then have "stores_fit C c rg R M hz ?st" using fit b(2) by (simp add: stores_fit_def dF d)
  moreover have "pending WG C R M ?st = sa_apply ?W (get_pipe_sa (res_of e)) (rf_answer R M (get_pipe_rf (res_of e))) (pending WG C R M st)"
    by (simp add: pending_def dF d Let_def ap a(2))
  ultimately show ?thesis using step by (intro exI[of _ ?st]) (simp add: dF d)
qed

text \<open>The reservations of a stride stay in the array, if the stride ends below the last word of it.\<close>

lemma in_words:
  assumes "W = SP_BUS_WIDTH C" "l < W" "spr_wordmask r l"
  shows "(lane_word W (spr_sp_offset r div 4) l, spr_reg_offset r l) \<in> set (res_words W r)"
proof -
  let ?a = "spr_sp_offset r div 4"
  have lw: "?a \<le> lane_word W ?a l" "lane_word W ?a l < ?a + W" "lane_word W ?a l mod W = l"
    using lane_word_range[OF assms(2), of ?a] assms(2) by simp_all
  then have "(?a + (lane_word W ?a l - ?a)) mod W = l" by simp
  with lw assms(3) show ?thesis
    unfolding res_words_def Let_def set_map by (intro image_eqI[of _ _ "lane_word W ?a l - ?a"]) auto
qed

lemma reservation_fits:
  fixes T :: nat
  assumes W: "W = SP_BUS_WIDTH C" "W = 2 ^ b" "b \<le> 16" and ok: "sp_stride_ok d" and at: "sp_at W d g s"
    and g: "g < sd_end (at_zero d)" and wr: "sd_write d" and size: "SIZE_BYTES C = 4 * sp_words C" "sd_end d < int (sp_words C)"
  shows "cmd_fits C (get_pipe_sa (fst (sp_stride_cycle W T s)))"
proof -
  let ?r = "fst (sp_stride_cycle W T s)"
  note rq = sp_cycle_request[OF W(2,3) ok at g, of T]
  have a: "sd_addr d = 4 * sd_first d" "0 \<le> sd_addr d" using ok by (auto simp: sp_stride_ok_def sd_first_def)
  have e: "sd_end d = sd_first d + sd_end (at_zero d)" by (simp add: sd_end_def)
  have g0: "0 \<le> g" using sp_at_regs[OF at ok] by simp
  have wpos: "0 < W" by (simp add: W(2))
  have "sp_popcount W (spr_wordmask ?r) = length (res_words W ?r)"
    using sp_popcount_rotate[OF wpos, of "spr_wordmask ?r" "spr_sp_offset ?r div 4"] by (simp add: res_words_def Let_def)
  also have "\<dots> = length (filter (in_stride (at_zero d)) [g..g + int W - 1])" by (simp add: rq(1))
  also have "\<dots> \<le> length [g..sd_end (at_zero d) - 1]"
  proof -
    have "length (filter (in_stride (at_zero d)) [g..g + int W - 1]) = card (set (filter (in_stride (at_zero d)) [g..g + int W - 1]))"
      by (intro distinct_card[symmetric]) simp
    also have "\<dots> \<le> card {g..sd_end (at_zero d) - 1}"
      by (intro card_mono) (auto simp: in_stride_def)
    finally show ?thesis by simp
  qed
  finally have pc: "int (sp_popcount W (spr_wordmask ?r)) \<le> sd_end (at_zero d) - g" using g by simp
  have wl: "lane_word W (spr_sp_offset ?r div 4) l < sp_words C" if "l < W" "spr_wordmask ?r l" for l
  proof -
    have "lane_word W (spr_sp_offset ?r div 4) l \<in> fst ` set (res_words W ?r)"
      using in_words[OF W(1) that] by force
    then obtain x where "in_stride (at_zero d) x" "lane_word W (spr_sp_offset ?r div 4) l = nat (sd_first d + x)"
      unfolding rq(1) by auto
    then show ?thesis using size(2) e a by (auto simp: in_stride_def)
  qed
  show ?thesis
    using pc wl rq(3,5) wr size a e g0
    by (auto simp: cmd_fits_def get_pipe_sa_def burst_in_def W(1)[symmetric])
qed

definition stride_targets :: "nat \<Rightarrow> stride_descriptor \<Rightarrow> int list \<Rightarrow> (nat \<times> reg_offset) list" where
  "stride_targets T d xs = map (\<lambda>x. (nat (sd_first d + x), word_target T (at_zero d) x)) xs"

lemma cycle_out_write: 
  fixes T :: nat
  assumes W: "W = 2 ^ b" "b \<le> 16" and ok: "sp_stride_ok d" and at: "sp_at W d g s" and g: "g < sd_end (at_zero d)"
  shows "q_out_write (snd (sp_stride_cycle W T s)) = q_out_write s" "q_out_rf_reg (snd (sp_stride_cycle W T s)) = q_out_rf_reg s"
  by (subst sp_cycle_state[OF W ok at g], simp add: sp_advance_lanes)+

lemma request_targets:
  fixes T :: nat
  assumes W: "W = 2 ^ b" "b \<le> 16" and ok: "sp_stride_ok d" and at: "sp_at W d g s" and g: "g < sd_end (at_zero d)"
    and "lines_ok W d"
  shows "res_words W (fst (sp_stride_cycle W T s)) = stride_targets T d (filter (in_stride (at_zero d)) [g..g + int W - 1])"
proof -
  have at': "seq_at W (at_zero d) g (as_seq s)" using at by (simp add: sp_at_def)
  have l: "lines_ok W (at_zero d)" using assms(6) by (simp add: lines_ok_def)
  show ?thesis
    unfolding sp_cycle_request(1)[OF W ok at g] stride_targets_def
    using regIdx_target[OF W stride_ok_zero[OF ok W] at' l] by (intro map_cong) auto
qed

text \<open>A transfer whose words do not conflict in the banks of the register file, as far as a burst spans.\<close>

definition bank_free :: "rf_cfg \<Rightarrow> hazard_detect \<Rightarrow> nat \<Rightarrow> (nat \<times> reg_offset) list \<Rightarrow> bool" where
  "bank_free c hz W ws \<longleftrightarrow> (let m = (\<lambda>ro. map_idx (THREADS c) (LANES c) hz REGISTER_VGPR (off_row (THREADS c) ro * THREADS c + off_lane (THREADS c) ro))
     in \<forall>(w, ro)\<in>set ws. \<forall>(w', ro')\<in>set ws. w' < w + W \<and> w < w' + W \<and> fst (m ro) = fst (m ro') \<longrightarrow> snd (m ro) = snd (m ro'))"

lemma bank_freeD:
  assumes "bank_free c hz W ws" "(w, ro) \<in> set ws" "(w', ro') \<in> set ws" "w' < w + W" "w < w' + W"
  defines "m \<equiv> \<lambda>ro. map_idx (THREADS c) (LANES c) hz REGISTER_VGPR (off_row (THREADS c) ro * THREADS c + off_lane (THREADS c) ro)"
  shows "\<not> (fst (m ro) = fst (m ro') \<and> snd (m ro) \<noteq> snd (m ro'))"
  using assms(1-5) unfolding bank_free_def Let_def m_def by fastforce

lemma bank_free_request:
  assumes "bank_free c hz W ws" "set (res_words W r) \<subseteq> set ws" "W = SP_BUS c" "W = SP_BUS_WIDTH C"
  shows "no_conflict c hz (get_pipe_rf r)"
proof -
  let ?a = "spr_sp_offset r div 4"
  have mem: "(lane_word W ?a l, spr_reg_offset r l) \<in> set ws" if "l < W" "spr_wordmask r l" for l
    using in_words[OF assms(4) that] assms(2) by blast
  have near: "lane_word W ?a l < lane_word W ?a k + W" if "l < W" "k < W" for l k
    using lane_word_range[OF that(1), of ?a] lane_word_range[OF that(2), of ?a] by simp
  have "\<not> access_vrf_bank_conflict (THREADS c) (LANES c) hz (SP_BUS c) (spr_reg_offset r) (spr_wordmask r) k" for k
  proof
    assume "access_vrf_bank_conflict (THREADS c) (LANES c) hz (SP_BUS c) (spr_reg_offset r) (spr_wordmask r) k"
    then obtain j where k: "k < W" "spr_wordmask r k" and j: "j < k" "spr_wordmask r j"
      and m: "let m = (\<lambda>i. map_idx (THREADS c) (LANES c) hz REGISTER_VGPR
            (off_row (THREADS c) (spr_reg_offset r i) * THREADS c + off_lane (THREADS c) (spr_reg_offset r i)))
          in fst (m k) = fst (m j) \<and> snd (m k) \<noteq> snd (m j)"
      unfolding access_conflict_iff assms(3) by blast
    from j(1) k(1) have jW: "j < W" by (rule less_trans)
    from bank_freeD[OF assms(1) mem[OF k] mem[OF jW j(2)] near[OF jW k(1)] near[OF k(1) jW]] m show False
      unfolding Let_def by blast
  qed
  then show ?thesis by (simp add: no_conflict_def get_pipe_rf_def)
qed

text \<open>What a run has done when the last reservation of the stride is on its way.\<close>

definition store_sent ::
  "slot \<Rightarrow> sp_cfg \<Rightarrow> rf_cfg \<Rightarrow> areg \<Rightarrow> (reg_offset \<Rightarrow> u32) \<Rightarrow> (reg_offset \<Rightarrow> bool) \<Rightarrow> hazard_detect \<Rightarrow> (nat \<times> reg_offset) list \<Rightarrow>
   scratchpad \<times> regfile \<Rightarrow> spseq_effects list \<Rightarrow> scratchpad \<times> regfile \<Rightarrow> bool" where
  "store_sent WG C c rg R M hz ws st es st' \<longleftrightarrow> (\<forall>e\<in>set es. qe_wg_done e = None) \<and>
     q_state (spd_seq (fst st')) = DQ_ST_WAIT_DONE \<and> \<not> q_out_write (spd_seq (fst st')) \<and> stores_fit C c rg R M hz st' \<and>
     \<not> dqo_done (spd_dq (fst st')) \<and> psa_last (dqp_sa (spd_dq (fst st'))) \<and>
     pending WG C R M st' = store_words R M ws (pending WG C R M st)"

definition store_ready ::
  "sp_cfg \<Rightarrow> rf_cfg \<Rightarrow> areg \<Rightarrow> (reg_offset \<Rightarrow> u32) \<Rightarrow> (reg_offset \<Rightarrow> bool) \<Rightarrow> hazard_detect \<Rightarrow> spseq \<Rightarrow> scratchpad \<times> regfile \<Rightarrow> bool" where
  "store_ready C c rg R M hz s st \<longleftrightarrow> spd_seq (fst st) = s \<and> \<not> q_out_write s \<and> q_out_rf_reg s = rg \<and> stores_fit C c rg R M hz st \<and>
     \<not> psa_last (dqp_sa (spd_dq (fst st)))"

text \<open>A running cycle, and the run to the last reservation.\<close>

lemma store_running:
  fixes T :: nat
  assumes C: "sp_cfg_ok C" and W: "W = SP_BUS_WIDTH C" "W = 2 ^ b" "b \<le> 16" and ok: "sp_stride_ok d" and wr: "sd_write d"
    and size: "SIZE_BYTES C = 4 * sp_words C" "sd_end d < int (sp_words C)" and lines: "lines_ok W d"
    and P: "port_ok WG C c rg" "T = THREADS c"
    and bf: "bank_free c hz W (stride_targets T d (filter (in_stride (at_zero d)) [0..sd_end (at_zero d) - 1]))"
    and at: "sp_at W d g s" and g: "g < sd_end (at_zero d)" and st: "store_ready C c rg R M hz s st" and nd: "no_dram WG i"
  defines "r \<equiv> fst (sp_stride_cycle W T s)" and "q \<equiv> snd (sp_stride_cycle W T s)"
  shows "\<exists>st1. store_cycle WG c C i st = Inr (no_sp_effects\<lparr>qe_req := Some r\<rparr>, st1) \<and> spd_seq (fst st1) = q \<and> stores_fit C c rg R M hz st1 \<and>
    pending WG C R M st1 = store_words R M (stride_targets T d (filter (in_stride (at_zero d)) [g..g + int W - 1])) (pending WG C R M st) \<and>
    \<not> q_out_write q \<and> q_out_rf_reg q = rg \<and> dqp_sa (spd_dq (fst st1)) = get_pipe_sa r \<and> \<not> dqo_done (spd_dq (fst st1))"
proof -
  note rq = sp_cycle_request[OF W(2,3) ok at g, of T, folded r_def]
  let ?e = "no_sp_effects\<lparr>qe_req := Some r\<rparr>"
  have s: "spd_seq (fst st) = s" "\<not> q_out_write s" "stores_fit C c rg R M hz st" "\<not> psa_last (dqp_sa (spd_dq (fst st)))" "q_out_rf_reg s = rg"
    using st by (simp_all add: store_ready_def)
  have sq: "sp_seq_thread_lt WG (SP_BUS_WIDTH C) (THREADS c) (sequencer_inputs i (spd_dq (fst st))) (spd_seq (fst st)) = Inr (?e, q)"
    using at by (simp add: s(1) sp_seq_thread_lt_def sp_at_def split_def Let_def W(1)[symmetric] r_def q_def P(2))
  have res: "res_of ?e = r" by (simp add: res_of_def)
  have fit: "cmd_fits C (get_pipe_sa (res_of ?e))"
    unfolding res unfolding r_def by (rule reservation_fits[OF W ok at g wr size])
  have dir: "\<not> q_out_write q" "q_out_rf_reg q = rg" using cycle_out_write[OF W(2,3) ok at g, where T = T] s(2,5) by (simp_all add: q_def)
  note rt = request_targets[OF W(2,3) ok at g lines, of T, folded r_def]
  have "0 \<le> g" using sp_at_regs[OF at ok] by simp
  then have "set (filter (in_stride (at_zero d)) [g..g + int W - 1]) \<subseteq> set (filter (in_stride (at_zero d)) [0..sd_end (at_zero d) - 1])"
    by (auto simp: in_stride_def)
  then have "set (res_words W r) \<subseteq> set (stride_targets T d (filter (in_stride (at_zero d)) [0..sd_end (at_zero d) - 1]))"
    unfolding rt stride_targets_def set_map by (rule image_mono)
  note sub = this
  have "W = SP_BUS c" using P(1) W(1) by (simp add: port_ok_def)
  from bank_free_request[OF bf sub this W(1)] have nc: "no_conflict c hz (get_pipe_rf r)" .
  have "sa_apply (SP_BUS_WIDTH C) (get_pipe_sa r) (rf_answer R M (get_pipe_rf r)) f =
      store_words R M (stride_targets T d (filter (in_stride (at_zero d)) [g..g + int W - 1])) f" for f
    using sa_apply_reservation[of W r R M f] rq(2,3) wr rt
    by (simp add: W(1)[symmetric] W(2))
  with store_step[OF C P(1) nd s(3) fit sq dir(1)] s(4) dir nc show ?thesis unfolding res by auto
qed

lemma store_run:
  fixes T :: nat
  assumes C: "sp_cfg_ok C" and W: "W = SP_BUS_WIDTH C" "W = 2 ^ b" "b \<le> 16" and ok: "sp_stride_ok d" and wr: "sd_write d"
    and size: "SIZE_BYTES C = 4 * sp_words C" "sd_end d < int (sp_words C)" and lines: "lines_ok W d"
    and P: "port_ok WG C c rg" "T = THREADS c"
    and bf: "bank_free c hz W (stride_targets T d (filter (in_stride (at_zero d)) [0..sd_end (at_zero d) - 1]))"
  shows "\<lbrakk>sp_at W d g s; g < sd_end (at_zero d)\<rbrakk> \<Longrightarrow>
    \<exists>n. 0 < n \<and> int W * (int n - 1) < sd_end (at_zero d) - g \<and>
      (\<forall>st is. store_ready C c rg R M hz s st \<and> length is = n \<and> (\<forall>i\<in>set is. no_dram WG i) \<longrightarrow>
      (\<exists>es st'. runE (store_cycle WG c C) is st = Inr (es, st') \<and>
        store_sent WG C c rg R M hz (stride_targets T d (filter (in_stride (at_zero d)) [g..sd_end (at_zero d) - 1])) st es st'))"
proof (induction "nat (sd_end (at_zero d) - g)" arbitrary: g s rule: less_induct)
  case less
  let ?r = "fst (sp_stride_cycle W T s)" and ?q = "snd (sp_stride_cycle W T s)"
  note at = less.prems(1) and g = less.prems(2) and okz = stride_ok_zero[OF ok W(2,3)]
  have at': "seq_at W (at_zero d) g (as_seq s)" using at by (simp add: sp_at_def)
  let ?g = "g + inc_at W (at_zero d) (as_seq s)"
  let ?ws = "\<lambda>g. stride_targets T d (filter (in_stride (at_zero d)) [g..sd_end (at_zero d) - 1])"
  let ?now = "stride_targets T d (filter (in_stride (at_zero d)) [g..g + int W - 1])"
  note b = inc_at_bounds[OF W(2,3) okz at'] and rq = sp_cycle_request[OF W(2,3) ok at g, of T]
  note step = store_running[OF C W ok wr size lines P bf at g]
  let ?e = "no_sp_effects\<lparr>qe_req := Some ?r\<rparr>"
  have "filter (in_stride (at_zero d)) [g..sd_end (at_zero d) - 1] =
      filter (in_stride (at_zero d)) [g..g + int W - 1] @ filter (in_stride (at_zero d)) [?g..sd_end (at_zero d) - 1]"
    by (rule stride_words_split[OF W(2,3) okz at'])
  then have split: "?ws g = ?now @ ?ws ?g" by (simp add: stride_targets_def)
  have lst: "psa_last (get_pipe_sa ?r) \<longleftrightarrow> sd_end (at_zero d) \<le> ?g" using rq(6) by (simp add: get_pipe_sa_def)
  have e: "qe_wg_done ?e = None" by (simp add: no_sp_effects_def)
  show ?case
  proof (cases "?g < sd_end (at_zero d)")
    case False
    then have nil: "?ws ?g = []" by (simp add: stride_targets_def)
    have wait: "q_state ?q = DQ_ST_WAIT_DONE" by (subst sp_cycle_state[OF W(2,3) ok at g]) (use False in simp)
    have "\<exists>es st'. runE (store_cycle WG c C) [i] st = Inr (es, st') \<and> store_sent WG C c rg R M hz (?ws g) st es st'"
      if st: "store_ready C c rg R M hz s st" and i: "no_dram WG i" for st i
    proof -
      from step[OF st i] obtain st1 where s1: "store_cycle WG c C i st = Inr (?e, st1)" "spd_seq (fst st1) = ?q" "stores_fit C c rg R M hz st1"
        "pending WG C R M st1 = store_words R M ?now (pending WG C R M st)" "\<not> q_out_write ?q" "q_out_rf_reg ?q = rg" "dqp_sa (spd_dq (fst st1)) = get_pipe_sa ?r"
        "\<not> dqo_done (spd_dq (fst st1))" by blast
      then have "store_sent WG C c rg R M hz (?ws g) st [?e] st1"
        using wait lst False e unfolding split nil store_sent_def append_Nil2 by simp
      with s1(1) show ?thesis by (intro exI[of _ "[?e]"] exI[of _ st1]) simp
    qed
    then show ?thesis using g by (intro exI[of _ 1]) (auto simp: length_Suc_conv simp del: runE.simps)
  next
    case True
    have lt: "nat (sd_end (at_zero d) - ?g) < nat (sd_end (at_zero d) - g)" using b(4) g by simp
    have at1: "sp_at W d ?g ?q" by (rule sp_cycle_next[OF W(2,3) ok at True])
    from less.hyps[OF lt at1 True] obtain n where n: "0 < n" "int W * (int n - 1) < sd_end (at_zero d) - ?g"
      and run: "\<And>st is. store_ready C c rg R M hz ?q st \<Longrightarrow> length is = n \<Longrightarrow> \<forall>i\<in>set is. no_dram WG i \<Longrightarrow>
        \<exists>es st'. runE (store_cycle WG c C) is st = Inr (es, st') \<and> store_sent WG C c rg R M hz (?ws ?g) st es st'" by blast
    have "\<exists>es st'. runE (store_cycle WG c C) (i # is) st = Inr (es, st') \<and> store_sent WG C c rg R M hz (?ws g) st es st'"
      if st: "store_ready C c rg R M hz s st" and i: "no_dram WG i" and len: "length is = n" and nd: "\<forall>i\<in>set is. no_dram WG i" for st i "is"
    proof -
      from step[OF st i] obtain st1 where s1: "store_cycle WG c C i st = Inr (?e, st1)" "spd_seq (fst st1) = ?q" "stores_fit C c rg R M hz st1"
        "pending WG C R M st1 = store_words R M ?now (pending WG C R M st)" "\<not> q_out_write ?q" "q_out_rf_reg ?q = rg" "dqp_sa (spd_dq (fst st1)) = get_pipe_sa ?r" by blast
      then have "store_ready C c rg R M hz ?q st1" using lst True by (simp add: store_ready_def)
      from run[OF this len nd] obtain es st' where r: "runE (store_cycle WG c C) is st1 = Inr (es, st')"
        "store_sent WG C c rg R M hz (?ws ?g) st1 es st'" by blast
      then have "store_sent WG C c rg R M hz (?ws g) st (?e # es) st'"
        using e s1(4) unfolding split store_sent_def store_words_append by simp
      with r(1) s1(1) show ?thesis by (intro exI[of _ "?e # es"] exI[of _ st']) simp
    qed
    moreover have "int W * (int (Suc n) - 1) < sd_end (at_zero d) - g"
      using n(2) b(1) by (simp add: algebra_simps)
    ultimately show ?thesis
      by (intro exI[of _ "Suc n"]) (auto simp: length_Suc_conv simp del: runE.simps)
  qed
qed

lemma map_replicate_eqI: "(\<And>x. x \<in> set xs \<Longrightarrow> f x = c) \<Longrightarrow> length xs = n \<Longrightarrow> map f xs = replicate n c"
  by (induction xs arbitrary: n) auto

text \<open>A scratchpad with nothing on its way takes a descriptor.\<close>

definition sp_quiet :: "scratchpad \<Rightarrow> bool" where
  "sp_quiet s \<longleftrightarrow> \<not> psa_rw (dqp_sa (spd_dq s)) \<and> \<not> psa_last (dqp_sa (spd_dq s)) \<and> \<not> psa_rw (dqo_sa_cmd (spd_dq s)) \<and> \<not> prf_rw (dqo_rf (spd_dq s))"

definition sp_accepts :: "spd_inputs \<Rightarrow> scratchpad \<Rightarrow> stride_descriptor \<Rightarrow> bool" where
  "sp_accepts i s d \<longleftrightarrow> pi_desc i = Some d \<and> sp_validate_sd d \<and> sd_dst_reg d \<noteq> None \<and> 0 \<le> sd_dst_offset d \<and>
     (pi_sched_opts i WSS_NO_PARALLEL_DRAM_SP \<longrightarrow> pi_ticket_pop i = sd_ticket d) \<and>
     (q_state (spd_seq s) = DQ_ST_FETCH \<or> q_state (spd_seq s) = DQ_ST_IDLE \<and> pi_trigger i)"

lemma sp_init_keeps_reg:
  assumes "sp_init_request_regs W s = Inr s'"
  shows "q_out_rf_reg s' = q_out_rf_reg s"
proof -
  have "q_out_rf_reg (snd (snd (sp_init_lanes n P l u))) = q_out_rf_reg u" for n P l u
    unfolding sp_init_lanes_def by (induction n) (simp_all add: Let_def split_def)
  with assms show ?thesis by (auto simp: sp_init_request_regs_def Let_def split: if_splits)
qed

lemma sp_accept_step:
  fixes T :: nat
  assumes W: "W = 2 ^ b" "b \<le> 16" and ok: "sp_stride_ok d" and acc: "sp_accepts i s d"
  shows "\<exists>e q. sp_seq_thread_lt WG W T (sequencer_inputs i (spd_dq s)) (spd_seq s) = Inr (e, q) \<and> sp_at W d 0 q \<and>
    qe_req e = None \<and> qe_wg_done e = None \<and> q_out_write q = (\<not> sd_write d) \<and> Some (q_out_rf_reg q) = sd_dst_reg d"
proof -
  obtain r where r: "sd_dst_reg d = Some r" using acc by (auto simp: sp_accepts_def)
  define u where "u = (spd_seq s)\<lparr>q_state := DQ_ST_RUNNING, q_desc := d, q_out_rf_reg := r, q_out_write := \<not> sd_write d\<rparr>"
  have v: "sp_validate_sd d" "0 \<le> sd_dst_offset d" using acc by (simp_all add: sp_accepts_def)
  have "q_desc u = d" "q_state u = DQ_ST_RUNNING" by (simp_all add: u_def)
  from sp_init_at[OF W ok this(1) v(1) this(2) v(2)] obtain q where q: "sp_init_request_regs W u = Inr q" "sp_at W d 0 q"
    "q_out_write q = (\<not> sd_write d)" "q_out_rf_reg q = r"
    using sp_init_keeps_reg by (fastforce simp: u_def)
  have u1: "u = x\<lparr>q_state := DQ_ST_INIT_STATE, q_desc := d, q_state := DQ_ST_RUNNING, q_out_rf_reg := r, q_out_write := \<not> sd_write d\<rparr>"
    if "x = spd_seq s \<or> x = (spd_seq s)\<lparr>q_state := DQ_ST_FETCH\<rparr>" for x
    using that by (auto simp: u_def)
  have tk: "\<not> (pi_sched_opts i WSS_NO_PARALLEL_DRAM_SP \<and> pi_ticket_pop i \<noteq> sd_ticket d)"
    using acc by (auto simp: sp_accepts_def)
  have "sp_seq_fetch W (sequencer_inputs i (spd_dq s)) x = Inr (True, q)"
    if "x = spd_seq s \<or> x = (spd_seq s)\<lparr>q_state := DQ_ST_FETCH\<rparr>" for x
    using acc ok r q(1) tk unfolding u1[OF that]
    by (cases "pi_sched_opts i WSS_NO_PARALLEL_DRAM_SP")
      (simp_all add: sp_seq_fetch_def sequencer_inputs_def sp_accepts_def sp_seq_init_def sp_stride_ok_def)
  from this[of "spd_seq s"] this[of "(spd_seq s)\<lparr>q_state := DQ_ST_FETCH\<rparr>"] have f:
    "sp_seq_fetch W (sequencer_inputs i (spd_dq s)) (spd_seq s) = Inr (True, q)"
    "sp_seq_fetch W (sequencer_inputs i (spd_dq s)) ((spd_seq s)\<lparr>q_state := DQ_ST_FETCH\<rparr>) = Inr (True, q)" by simp_all
  have e: "qe_req (no_sp_effects\<lparr>qe_trigger := x, qe_desc := True\<rparr>) = None" "qe_wg_done (no_sp_effects\<lparr>qe_trigger := x, qe_desc := True\<rparr>) = None" for x
    by (simp_all add: no_sp_effects_def)
  consider "q_state (spd_seq s) = DQ_ST_FETCH" | "q_state (spd_seq s) = DQ_ST_IDLE" "pi_trigger i"
    using acc by (auto simp: sp_accepts_def)
  then have "\<exists>x. sp_seq_thread_lt WG W T (sequencer_inputs i (spd_dq s)) (spd_seq s) = Inr (no_sp_effects\<lparr>qe_trigger := x, qe_desc := True\<rparr>, q)"
  proof cases
    case 1
    then show ?thesis using f(1) by (intro exI[of _ False]) (simp add: sp_seq_thread_lt_def no_sp_effects_def)
  next
    case 2
    then have "qi_trigger (sequencer_inputs i (spd_dq s))" by (simp add: sequencer_inputs_def)
    with 2 show ?thesis using f(2) by (intro exI[of _ True]) (simp add: sp_seq_thread_lt_def)
  qed
  with q(2-4) r e show ?thesis by auto
qed

text \<open>The last two cycles: the last command reaches the array, and the sequencer hears of it.\<close>

lemma store_drain:
  fixes T :: nat
  assumes C: "sp_cfg_ok C" and P: "port_ok WG C c rg" and sent: "store_sent WG C c rg R M hz ws st0 es st" and nd: "no_dram WG i" "no_dram WG j"
  shows "\<exists>e f st'. runE (store_cycle WG c C) [i, j] st = Inr ([e, f], st') \<and> qe_wg_done e = None \<and> qe_wg_done f = Some WG \<and>
    q_state (spd_seq (fst st')) = DQ_ST_FETCH \<and> sp_quiet (fst st') \<and>
    flat C (sa_sp (spd_array (fst st'))) = store_words R M ws (pending WG C R M st0)"
proof -
  let ?s = "spd_seq (fst st)" and ?d = "get_pipe_sa sp_reservation_default"
  have s: "q_state ?s = DQ_ST_WAIT_DONE" "\<not> q_out_write ?s" "stores_fit C c rg R M hz st" "\<not> dqo_done (spd_dq (fst st))"
    "psa_last (dqp_sa (spd_dq (fst st)))" "pending WG C R M st = store_words R M ws (pending WG C R M st0)"
    using sent by (auto simp: store_sent_def)
  have rn: "res_of no_sp_effects = sp_reservation_default" "res_of (no_sp_effects\<lparr>qe_wg_done := Some WG\<rparr>) = sp_reservation_default"
    by (simp_all add: res_of_def no_sp_effects_def)
  have no_req: "\<not> spr_rw sp_reservation_default" by (simp add: sp_reservation_default_def)
  have dflt: "\<not> psa_rw ?d" "\<not> psa_last ?d" by (simp_all add: get_pipe_sa_def sp_reservation_default_def)
  have id: "sa_apply w ?d x f = f" for w x f by (simp add: sa_apply_def dflt)
  have "sp_seq_thread_lt WG (SP_BUS_WIDTH C) (THREADS c) (sequencer_inputs i (spd_dq (fst st))) ?s = Inr (no_sp_effects, ?s)"
    using s(1,4) by (simp add: sp_seq_thread_lt_def sequencer_inputs_def)
  from store_step[OF C P nd(1) s(3) _ this s(2), unfolded rn id] obtain st1 where
    s1: "store_cycle WG c C i st = Inr (no_sp_effects, st1)" "spd_seq (fst st1) = ?s" "stores_fit C c rg R M hz st1"
    "pending WG C R M st1 = pending WG C R M st" "dqp_sa (spd_dq (fst st1)) = ?d" "dqo_done (spd_dq (fst st1))"
    using s(5) by (auto simp: no_req)
  let ?q = "?s\<lparr>q_state := DQ_ST_FETCH, q_out_rf_reg := AbstractRegister_default\<rparr>"
  have "sp_seq_thread_lt WG (SP_BUS_WIDTH C) (THREADS c) (sequencer_inputs j (spd_dq (fst st1))) (spd_seq (fst st1)) =
      Inr (no_sp_effects\<lparr>qe_wg_done := Some WG\<rparr>, ?q)"
    using s(1) s1(2,6) by (simp add: sp_seq_thread_lt_def sequencer_inputs_def)
  from store_step[OF C P nd(2) s1(3) _ this, unfolded rn id] obtain st2 where
    s2: "store_cycle WG c C j st1 = Inr (no_sp_effects\<lparr>qe_wg_done := Some WG\<rparr>, st2)" "spd_seq (fst st2) = ?q"
    "pending WG C R M st2 = pending WG C R M st1" "dqp_sa (spd_dq (fst st2)) = ?d" "dqo_sa_cmd (spd_dq (fst st2)) = ?d"
    "dqo_rf (spd_dq (fst st2)) = get_pipe_rf sp_reservation_default"
    using s(2) s1(5) by (auto simp: no_req)
  have "flat C (sa_sp (spd_array (fst st2))) = pending WG C R M st2" by (simp add: pending_def s2(4,5) id Let_def)
  then have "flat C (sa_sp (spd_array (fst st2))) = store_words R M ws (pending WG C R M st0)" using s2(3) s1(4) s(6) by simp
  moreover have "sp_quiet (fst st2)" using dflt by (simp add: sp_quiet_def s2(4-6))
  ultimately show ?thesis
    using s1(1) s2(1,2)
    by (intro exI[of _ no_sp_effects] exI[of _ "no_sp_effects\<lparr>qe_wg_done := Some WG\<rparr>"] exI[of _ st2]) (simp add: no_sp_effects_def)
qed

lemma store_whole_run:
  fixes T :: nat
  assumes C: "sp_cfg_ok C" and W: "W = SP_BUS_WIDTH C" "W = 2 ^ b" "b \<le> 16" and ok: "sp_stride_ok d" and wr: "sd_write d"
    and size: "SIZE_BYTES C = 4 * sp_words C" "sd_end d < int (sp_words C)" and lines: "lines_ok W d"
    and quiet: "sp_quiet (fst st)" and acc: "sp_accepts i (fst st) d" and nd: "no_dram WG i"
    and P: "port_ok WG C c rg" "T = THREADS c" and reg: "sd_dst_reg d = Some rg"
    and bf: "bank_free c (rf_hazard (snd st)) W (stride_targets T d (map (\<lambda>(j, k). sd_period d * j + k) (stride_elems d)))"
  defines "R \<equiv> rf_words c rg (snd st)" and "M \<equiv> rf_lanes c rg (snd st)"
  shows "\<exists>n. 0 < n \<and> int W * (int n - 1) < sd_end (at_zero d) \<and>
    (\<forall>is. length is = n + 2 \<and> (\<forall>j\<in>set is. no_dram WG j) \<longrightarrow> (\<exists>es st'. runE (store_cycle WG c C) (i # is) st = Inr (es, st') \<and>
      map qe_wg_done es = replicate (n + 2) None @ [Some WG] \<and> q_state (spd_seq (fst st')) = DQ_ST_FETCH \<and> sp_quiet (fst st') \<and>
      flat C (sa_sp (spd_array (fst st'))) =
        store_words R M (stride_targets T d (map (\<lambda>(j, k). sd_period d * j + k) (stride_elems d))) (flat C (sa_sp (spd_array (fst st))))))"
proof -
  have q: "cmd_fits C (dqp_sa (spd_dq (fst st)))" "cmd_fits C (dqo_sa_cmd (spd_dq (fst st)))" "\<not> psa_last (dqp_sa (spd_dq (fst st)))"
    using quiet by (simp_all add: sp_quiet_def cmd_fits_def)
  let ?hz = "rf_hazard (snd st)"
  have "request_fits c rg ?hz (fst st)" using quiet by (simp add: request_fits_def sp_quiet_def Let_def)
  with q have fit: "stores_fit C c rg R M ?hz st" by (simp add: stores_fit_def rf_is_def R_def M_def)
  have p0: "pending WG C R M st = flat C (sa_sp (spd_array (fst st)))"
    using quiet by (simp add: pending_def sp_quiet_def sa_apply_def Let_def)
  from sp_accept_step[OF W(2,3) ok acc, of WG "THREADS c"] obtain e q where a:
    "sp_seq_thread_lt WG (SP_BUS_WIDTH C) (THREADS c) (sequencer_inputs i (spd_dq (fst st))) (spd_seq (fst st)) = Inr (e, q)"
    "sp_at W d 0 q" "qe_req e = None" "qe_wg_done e = None" "\<not> q_out_write q" "q_out_rf_reg q = rg"
    using wr reg by (auto simp: W(1))
  have r: "res_of e = sp_reservation_default" by (simp add: res_of_def a(3))
  have id: "sa_apply w (get_pipe_sa sp_reservation_default) x f = f" "\<not> psa_last (get_pipe_sa sp_reservation_default)" for w x f
    by (simp_all add: sa_apply_def get_pipe_sa_def sp_reservation_default_def)
  have nr: "\<not> spr_rw (res_of e)" by (simp add: r sp_reservation_default_def)
  from store_step[OF C P(1) nd fit _ a(1,5)] nr obtain st1 where s1: "store_cycle WG c C i st = Inr (e, st1)"
    "spd_seq (fst st1) = q" "stores_fit C c rg R M ?hz st1" "pending WG C R M st1 = pending WG C R M st"
    "dqp_sa (spd_dq (fst st1)) = get_pipe_sa sp_reservation_default"
    by (auto simp: r id)
  have ready: "store_ready C c rg R M ?hz q st1" using s1 a(5,6) id by (simp add: store_ready_def)
  note okz = stride_ok_zero[OF ok W(2,3)]
  have g: "0 < sd_end (at_zero d)" using P_pos[OF W(2,3) okz] ok by (simp add: sp_stride_ok_def add_pos_nonneg)
  let ?ws = "stride_targets T d (filter (in_stride (at_zero d)) [0..sd_end (at_zero d) - 1])"
  have ws: "filter (in_stride (at_zero d)) [0..sd_end (at_zero d) - 1] = map (\<lambda>(j, k). sd_period d * j + k) (stride_elems d)"
    using stride_words_list[OF W(2,3) okz] stride_elems_words[of 0 "sd_period d" "sd_words d" "[0..sd_period_count d - 1]"]
    by (simp add: stride_elems_def)
  note bf' = bf[folded ws]
  from store_run[OF C W ok wr size lines P bf' a(2) g, of R M] obtain n where n: "0 < n" "int W * (int n - 1) < sd_end (at_zero d) - 0"
    and run': "\<forall>st is. store_ready C c rg R M ?hz q st \<and> length is = n \<and> (\<forall>i\<in>set is. no_dram WG i) \<longrightarrow>
      (\<exists>es st'. runE (store_cycle WG c C) is st = Inr (es, st') \<and> store_sent WG C c rg R M ?hz ?ws st es st')" by blast
  have "\<exists>es st'. runE (store_cycle WG c C) (i # is) st = Inr (es, st') \<and>
      map qe_wg_done es = replicate (n + 2) None @ [Some WG] \<and> q_state (spd_seq (fst st')) = DQ_ST_FETCH \<and> sp_quiet (fst st') \<and>
      flat C (sa_sp (spd_array (fst st'))) = store_words R M ?ws (flat C (sa_sp (spd_array (fst st))))"
    if len: "length is = n + 2" and nds: "\<forall>j\<in>set is. no_dram WG j" for "is"
  proof -
    obtain xs u v where is_eq: "is = xs @ [u, v]" "length xs = n"
    proof
      show "is = take n is @ [is ! n, is ! Suc n]"
        using len by (intro nth_equalityI) (auto simp: nth_append nth_Cons' less_Suc_eq_le le_Suc_eq)
    qed (use len in simp)
    have nd: "store_ready C c rg R M ?hz q st1 \<and> length xs = n \<and> (\<forall>j\<in>set xs. no_dram WG j)" "no_dram WG u" "no_dram WG v"
      using ready is_eq nds by simp_all
    with run' obtain es st2 where r: "runE (store_cycle WG c C) xs st1 = Inr (es, st2)"
      "store_sent WG C c rg R M ?hz ?ws st1 es st2" by blast
    from store_drain[OF C P(1) r(2) nd(2,3)] obtain e1 e2 st' where dr:
      "runE (store_cycle WG c C) [u, v] st2 = Inr ([e1, e2], st')" "qe_wg_done e1 = None" "qe_wg_done e2 = Some WG"
      "q_state (spd_seq (fst st')) = DQ_ST_FETCH" "sp_quiet (fst st')"
      "flat C (sa_sp (spd_array (fst st'))) = store_words R M ?ws (pending WG C R M st1)" by blast
    have "map qe_wg_done es = replicate n None"
      using r(2) runE_length[OF r(1)] is_eq(2) by (auto simp: store_sent_def intro!: map_replicate_eqI)
    moreover have "runE (store_cycle WG c C) (i # is) st = Inr (e # es @ [e1, e2], st')"
      using s1(1) runE_append[OF r(1) dr(1)] unfolding is_eq(1) by simp
    ultimately show ?thesis
      using dr a(4) s1(4) p0 by (intro exI[of _ "e # es @ [e1, e2]"] exI[of _ st']) (simp add: replicate_app_Cons_same)
  qed
  then show ?thesis using n unfolding ws by auto
qed

lemma stride_targets_registers:
  fixes W T :: nat
  assumes "sp_stride_ok d" "W = 2 ^ b" "b \<le> 16" "tgt_type (sd_dst d) = TARGET_REG"
    and "sd_dst_period d = 2 ^ m" "0 \<le> sd_dst_off_x d" "sd_dst_off_x d < 2 ^ 20" "0 \<le> sd_dst_off_y d"
    and "n = 2 ^ idx_transform_int (sd_idx_transform d)" "sd_dst_off_x d + sd_words d \<le> n * sd_dst_period d"
    and "(sd_dst_off_y d + sd_period_count d) * sd_dst_period d < 2 ^ 31"
  shows "stride_targets T d (map (\<lambda>(j, k). sd_period d * j + k) (stride_elems d)) =
    concat (map (\<lambda>j. map (\<lambda>k. (nat (sd_first d + sd_period d * j + k), reg_offset_lane_row T
        (nat ((sd_dst_off_y d + j) * sd_dst_period d + (sd_dst_off_x d + k) div n)) (nat ((sd_dst_off_x d + k) mod n))))
      [0..sd_words d - 1]) [0..sd_period_count d - 1])"
proof -
  have z: "stride_elems (at_zero d) = stride_elems d" by (simp add: stride_elems_def)
  note el = word_target_elem[OF stride_ok_zero[OF assms(1-3)] assms(2,3), of _ _ _ m _ T, unfolded z at_zero_simps]
  have "stride_targets T d (map (\<lambda>(j, k). sd_period d * j + k) (stride_elems d)) =
    map (\<lambda>(j, k). (nat (sd_first d + sd_period d * j + k), reg_offset_lane_row T
        (nat ((sd_dst_off_y d + j) * sd_dst_period d + (sd_dst_off_x d + k) div n)) (nat ((sd_dst_off_x d + k) mod n)))) (stride_elems d)"
    unfolding stride_targets_def using el assms(4-11) by (auto simp: add.assoc intro!: map_cong)
  then show ?thesis by (simp only: stride_elems_concat)
qed

text \<open>
  C38. A store of a stride from vector registers ends up in the scratchpad exactly as the descriptor says, through
  sequencer, reservations, data path stage, storage port of the register file and banks together. A quiet scratchpad that
  takes the descriptor signals the end of the transfer once, in the last of \<open>n + 3\<close> cycles, with \<open>n\<close> at most one for every
  burst of words the stride spans; and then word \<open>k\<close> of period \<open>j\<close> holds the word of register \<open>rg\<close> at lane
  \<open>(y + j) * P + (x + k) div v\<close> and row \<open>(x + k) mod v\<close>, if the thread of that lane is enabled, while every other word of the
  scratchpad is as before. Here \<open>(x, y)\<close> is the offset of the transfer, \<open>P\<close> the destination period and \<open>v\<close> the number of
  registers of a vector transfer.

  The limits: the descriptor is word aligned, with at least one word in a period of less than 2 to the 20 words, and ends
  below the last word of the scratchpad; a period is shorter than a burst, or its part beyond whole bursts shorter than its
  words (other strides lose words, see \<open>Stride_Props\<close>); the destination period is a power of two that a period of words fits in,
  at offsets that are not negative; no two words of a burst lie in different words of one bank of the register file, at which
  its storage thread would abort; the DRAM uses neither the scratchpad nor the register file meanwhile, and no instruction writes
  a register.
\<close>

theorem scratchpad_stores_exact:
  assumes "sp_cfg_ok C" "SP_BUS_WIDTH C = W" "W \<le> 2 ^ 16" "SIZE_BYTES C = 4 * sp_words C"
    and "sp_quiet (fst st)" "sp_accepts i (fst st) d" "no_dram WG i"
    and "sd_dst_reg d = Some rg" "rtype rg = REGISTER_VGPR" "rwg rg = WG" "SP_BUS c = W"
    and "sp_stride_ok d" "sd_write d" "sd_end d < int (sp_words C)" "tgt_type (sd_dst d) = TARGET_REG"
    and "sd_period d < int W \<or> sd_period d mod int W < sd_words d"
    and "sd_dst_period d = 2 ^ m" "0 \<le> sd_dst_off_x d" "sd_dst_off_x d < 2 ^ 20" "0 \<le> sd_dst_off_y d"
    and "v = 2 ^ idx_transform_int (sd_idx_transform d)"
    and "sd_dst_off_x d + sd_words d \<le> v * sd_dst_period d"
    and "(sd_dst_off_y d + sd_period_count d) * sd_dst_period d < 2 ^ 31"
    and ws: "ws = concat (map (\<lambda>j. map (\<lambda>k. (nat (sd_first d + sd_period d * j + k), reg_offset_lane_row (THREADS c)
            (nat ((sd_dst_off_y d + j) * sd_dst_period d + (sd_dst_off_x d + k) div v)) (nat ((sd_dst_off_x d + k) mod v))))
          [0..sd_words d - 1]) [0..sd_period_count d - 1])"
    and bf: "bank_free c (rf_hazard (snd st)) W ws"
  shows "\<exists>n. 0 < n \<and> int W * (int n - 1) < sd_words d + sd_period d * (sd_period_count d - 1) \<and>
    (\<forall>is. length is = n + 2 \<and> (\<forall>j\<in>set is. no_dram WG j) \<longrightarrow> (\<exists>es st'. runE (store_cycle WG c C) (i # is) st = Inr (es, st') \<and>
      map qe_wg_done es = replicate (n + 2) None @ [Some WG] \<and> q_state (spd_seq (fst st')) = DQ_ST_FETCH \<and> sp_quiet (fst st') \<and>
      flat C (sa_sp (spd_array (fst st'))) =
        store_words (rf_words c rg (snd st)) (rf_lanes c rg (snd st)) ws (flat C (sa_sp (spd_array (fst st))))))"
proof -
  obtain b where b: "W = 2 ^ b" using assms(1,2) by (auto simp: sp_cfg_ok_def)
  then have b16: "b \<le> 16" using assms(3) by (metis power_le_imp_le_exp one_less_numeral_iff semiring_norm(76))
  have lines: "lines_ok W d" using assms(16) by (simp add: lines_ok_def)
  have P: "port_ok WG C c rg" using assms(2,9-11) by (simp add: port_ok_def)
  have ws': "stride_targets (THREADS c) d (map (\<lambda>(j, k). sd_period d * j + k) (stride_elems d)) = ws"
    unfolding ws by (rule stride_targets_registers[OF assms(12) b b16 assms(15,17-23)])
  show ?thesis
    using store_whole_run[OF assms(1) assms(2)[symmetric] b b16 assms(12,13,4,14) lines assms(5-7) P refl assms(8)] bf
    unfolding ws' at_zero_simps by blast
qed

text \<open>Two periods of three words, stored from word 5 on.\<close>

definition sp_example :: stride_descriptor where
  "sp_example = stride_descriptor_default
    \<lparr>sd_dst_reg := Some (AbstractRegister 0 REGISTER_VGPR 2), sd_dst := \<lparr>tgt_wg = 0, tgt_type = TARGET_REG\<rparr>, sd_write := True,
     sd_addr := 20, sd_words := 3, sd_period := 6, sd_period_count := 2, sd_dst_period := 4\<rparr>"

definition rf_example :: regfile where
  "rf_example = rf_zero\<lparr>VRF := (\<lambda>_ off. of_nat (off mod 1024) + 100), lanes_en := (\<lambda>_ _ _. True), rf_hazard := RegHazardDetect_1R1W_16b\<rparr>"

definition spd_example :: "scratchpad \<times> regfile" where
  "spd_example = (\<lparr>spd_seq = spseq_init AbstractRegister_default stride_descriptor_default, spd_dq = sp_dq_init,
     spd_array = \<lparr>sa_sp = (\<lambda>_ _. 0), sa_out_data = (\<lambda>_. 0)\<rparr>\<rparr>, rf_example)"

definition spi_example :: "stride_descriptor option \<Rightarrow> spd_inputs" where
  "spi_example x = \<lparr>pi_trigger = True, pi_desc = x, pi_sched_opts = (\<lambda>_. False), pi_ticket_pop = 0, pi_rf_data = (\<lambda>_. 0),
     pi_rf_mask = (\<lambda>_. False), pi_dram_enable = False, pi_dram_dst = RequestTarget_default, pi_dram_write = False, pi_dram_addr = 0,
     pi_dram_data = (\<lambda>_. 0), pi_dram_mask = (\<lambda>_. False)\<rparr>"

definition rf_cfg_default :: rf_cfg where
  "rf_cfg_default = \<lparr>THREADS = 1024, LANES = 128, BUS = 4, SP_BUS = 4\<rparr>"

definition sp_example_words :: "(nat \<times> reg_offset) list" where
  "sp_example_words = concat (map (\<lambda>j. map (\<lambda>k. (nat (5 + 6 * j + k), reg_offset_lane_row 1024 (nat ((0 + j) * 4 + (0 + k) div 1)) (nat ((0 + k) mod 1))))
      [0..3 - 1]) [0..2 - 1])"

lemma off_of_lane: "l < 1024 \<Longrightarrow> off_lane 1024 (reg_offset_lane_row 1024 l 0) = l \<and> off_row 1024 (reg_offset_lane_row 1024 l 0) = 0"
  by (simp add: off_lane_def off_row_def reg_offset_lane_row_def drop_bit_eq_div)

lemma sp_example_words_eq: "sp_example_words = map (\<lambda>(w, l). (w, reg_offset_lane_row 1024 l 0)) [(5, 0), (6, 1), (7, 2), (11, 4), (12, 5), (13, 6)]"
  by (simp add: sp_example_words_def upto_rec1)

lemma sp_example_bank_free: "bank_free rf_cfg_default RegHazardDetect_1R1W_16b 4 sp_example_words"
proof -
  have "snd (map_idx 1024 128 RegHazardDetect_1R1W_16b REGISTER_VGPR l) = 0" if "l < 512" for l
    using map_idx_16b[of 1024 9 l RegHazardDetect_1R1W_16b 2 128 0] that by (simp add: RegHazardDetect_1R1W_16b_def)
  then show ?thesis
    by (simp add: bank_free_def sp_example_words_eq rf_cfg_default_def off_of_lane Let_def)
qed

lemma scratchpad_stores_exact_witness:
  "\<exists>n es st'. runE (store_cycle 0 rf_cfg_default sp_cfg_default)
      (spi_example (Some sp_example) # replicate (n + 2) (spi_example None)) spd_example = Inr (es, st') \<and>
    map (flat sp_cfg_default (sa_sp (spd_array (fst st')))) [4..<16] = [0, 100, 101, 102, 0, 0, 0, 104, 105, 106, 0, 0]"
proof -
  let ?R = "rf_words rf_cfg_default (AbstractRegister 0 REGISTER_VGPR 2) (snd spd_example)"
  let ?M = "rf_lanes rf_cfg_default (AbstractRegister 0 REGISTER_VGPR 2) (snd spd_example)"
  have c: "sp_cfg_ok sp_cfg_default"
    unfolding sp_cfg_ok_def by (rule exI[of _ 2], rule exI[of _ 2]) (simp add: sp_cfg_default_def)
  have cfg: "SP_BUS_WIDTH sp_cfg_default = 4" "SIZE_BYTES sp_cfg_default = 4 * sp_words sp_cfg_default" "sp_words sp_cfg_default = 32768"
    by (simp_all add: sp_words_def sp_rows_def sp_cfg_default_def)
  have f: "sd_addr sp_example = 20" "sd_words sp_example = 3" "sd_period sp_example = 6" "sd_period_count sp_example = 2"
    "sd_dst_period sp_example = 4" "sd_dst_off_x sp_example = 0" "sd_dst_off_y sp_example = 0" "sd_write sp_example"
    "tgt_type (sd_dst sp_example) = TARGET_REG" "sd_idx_transform sp_example = IDX_TRANSFORM_UNIT" "sd_dst_offset sp_example = 0"
    "sd_dst_reg sp_example = Some (AbstractRegister 0 REGISTER_VGPR 2)"
    by (simp_all add: sp_example_def stride_descriptor_default_def)
  have ok: "sp_stride_ok sp_example" by (simp add: sp_stride_ok_def sd_end_def sd_first_def f)
  have q: "sp_quiet (fst spd_example)"
    by (simp add: sp_quiet_def spd_example_def sp_dq_init_def dq_pipe_sa_default_def dq_pipe_rf_default_def)
  have "is_pot 4" by (simp add: is_pot_def)
  then have acc: "sp_accepts (spi_example (Some sp_example)) (fst spd_example) sp_example"
    by (simp add: sp_accepts_def spi_example_def spd_example_def spseq_init_def sp_validate_sd_def f)
  have nd: "no_dram 0 (spi_example x)" for x by (simp add: no_dram_def spi_example_def)
  have g: "sd_first sp_example = 5" "sd_end sp_example = 14" by (simp_all add: sd_end_def sd_first_def f)
  have reg: "rtype (AbstractRegister 0 REGISTER_VGPR 2) = REGISTER_VGPR" "rwg (AbstractRegister 0 REGISTER_VGPR 2) = 0"
    "SP_BUS rf_cfg_default = 4" "THREADS rf_cfg_default = 1024"
    by (simp_all add: AbstractRegister_def rf_cfg_default_def)
  have side: "(4::nat) \<le> 2 ^ 16" "sd_end sp_example < int (sp_words sp_cfg_default)"
    "sd_period sp_example < int 4 \<or> sd_period sp_example mod int 4 < sd_words sp_example" "sd_dst_period sp_example = 2 ^ 2"
    "0 \<le> sd_dst_off_x sp_example" "sd_dst_off_x sp_example < 2 ^ 20" "0 \<le> sd_dst_off_y sp_example"
    "(1::int) = 2 ^ idx_transform_int (sd_idx_transform sp_example)" "sd_dst_off_x sp_example + sd_words sp_example \<le> 1 * sd_dst_period sp_example"
    "(sd_dst_off_y sp_example + sd_period_count sp_example) * sd_dst_period sp_example < 2 ^ 31"
    by (simp_all add: g f cfg idx_transform_int_def)
  have bf: "bank_free rf_cfg_default (rf_hazard (snd spd_example)) 4 sp_example_words"
    using sp_example_bank_free by (simp add: spd_example_def rf_example_def)
  have ws: "sp_example_words = concat (map (\<lambda>j. map (\<lambda>k. (nat (sd_first sp_example + sd_period sp_example * j + k),
      reg_offset_lane_row (THREADS rf_cfg_default) (nat ((sd_dst_off_y sp_example + j) * sd_dst_period sp_example + (sd_dst_off_x sp_example + k) div 1))
        (nat ((sd_dst_off_x sp_example + k) mod 1)))) [0..sd_words sp_example - 1]) [0..sd_period_count sp_example - 1])"
    unfolding sp_example_words_def f g reg ..
  from scratchpad_stores_exact[where st = spd_example and WG = 0,
      OF c cfg(1) side(1) cfg(2) q acc nd f(12) reg(1-3) ok f(8) side(2) f(9) side(3-10) ws bf]
  obtain n where run: "\<forall>is. length is = n + 2 \<and> (\<forall>j\<in>set is. no_dram 0 j) \<longrightarrow>
      (\<exists>es st'. runE (store_cycle 0 rf_cfg_default sp_cfg_default) (spi_example (Some sp_example) # is) spd_example = Inr (es, st') \<and>
      map qe_wg_done es = replicate (n + 2) None @ [Some 0] \<and> q_state (spd_seq (fst st')) = DQ_ST_FETCH \<and> sp_quiet (fst st') \<and>
      flat sp_cfg_default (sa_sp (spd_array (fst st'))) = store_words ?R ?M sp_example_words (flat sp_cfg_default (sa_sp (spd_array (fst spd_example)))))"
    by blast
  have "length (replicate (n + 2) (spi_example None)) = n + 2 \<and> (\<forall>j\<in>set (replicate (n + 2) (spi_example None)). no_dram 0 j)"
    using nd by simp
  with run obtain es st' where
    r: "runE (store_cycle 0 rf_cfg_default sp_cfg_default) (spi_example (Some sp_example) # replicate (n + 2) (spi_example None)) spd_example = Inr (es, st')"
    "flat sp_cfg_default (sa_sp (spd_array (fst st'))) = store_words ?R ?M sp_example_words (flat sp_cfg_default (sa_sp (spd_array (fst spd_example))))" by blast
  have R: "?R (reg_offset_lane_row 1024 l 0) = of_nat l + 100" "?M (reg_offset_lane_row 1024 l 0)" if "l < 1024" for l
    using that off_of_lane[OF that] mod_mult_self2[of l 1024 2]
    by (simp_all add: rf_words_def rf_lanes_def store_off_def lane_enabled_def spd_example_def rf_example_def rf_cfg_default_def AbstractRegister_def)
  have "map (flat sp_cfg_default (sa_sp (spd_array (fst st')))) [4..<16] = [0, 100, 101, 102, 0, 0, 0, 104, 105, 106, 0, 0]"
    unfolding r(2) sp_example_words_eq by (simp add: store_words_def upt_rec R) (simp add: flat_def spd_example_def)
  with r(1) show ?thesis by (intro exI[of _ n] exI[of _ es] exI[of _ st'] conjI)
qed

end
