(* ===== verification/Loop_Res.thy ===== *)
theory Loop_Res
  imports SimD_Prelude
begin

text \<open>
  Loops whose number of iterations is not known beforehand, with a body that may abort. A loop that does not end has the
  result \<open>Not_Returning\<close>, so every statement that one of them returns a value includes that it ends. The rules here
  are those of total correctness: an invariant, and a measure that decreases.
\<close>

partial_function (option) loop_opt :: "('s \<Rightarrow> bool) \<Rightarrow> ('s \<Rightarrow> 's res) \<Rightarrow> 's \<Rightarrow> 's res option" where
  "loop_opt b c s = (if b s then (case c s of Inl e \<Rightarrow> Some (Inl e) | Inr t \<Rightarrow> loop_opt b c t) else Some (Inr s))"

definition whileE :: "('s \<Rightarrow> bool) \<Rightarrow> ('s \<Rightarrow> 's res) \<Rightarrow> 's \<Rightarrow> 's res" where
  "whileE b c s = (case loop_opt b c s of None \<Rightarrow> Inl Not_Returning | Some r \<Rightarrow> r)"

text \<open>The loop that tests after its body.\<close>

definition do_whileE :: "('s \<Rightarrow> 's res) \<Rightarrow> ('s \<Rightarrow> bool) \<Rightarrow> 's \<Rightarrow> 's res" where
  "do_whileE c b s = bindE (c s) (whileE b c)"

lemma whileE_unfold: "whileE b c s = (if b s then bindE (c s) (whileE b c) else Inr s)"
  unfolding whileE_def by (subst loop_opt.simps) (simp split: sum.splits)

lemma whileE_stop [simp]: "\<not> b s \<Longrightarrow> whileE b c s = Inr s"
  by (subst whileE_unfold) simp

lemma whileE_step: "b s \<Longrightarrow> c s = Inr t \<Longrightarrow> whileE b c s = whileE b c t"
  by (subst whileE_unfold) simp

lemma whileE_abort: "b s \<Longrightarrow> c s = Inl e \<Longrightarrow> whileE b c s = Inl e"
  by (subst whileE_unfold) simp

lemma whileE_rule:
  fixes m :: "'s \<Rightarrow> nat"
  assumes "I s" and step: "\<And>s. I s \<Longrightarrow> b s \<Longrightarrow> \<exists>t. c s = Inr t \<and> I t \<and> m t < m s"
  shows "\<exists>t. whileE b c s = Inr t \<and> I t \<and> \<not> b t"
  using assms(1)
proof (induction "m s" arbitrary: s rule: less_induct)
  case less
  show ?case
  proof (cases "b s")
    case True
    with step[OF less.prems] obtain t where "c s = Inr t" "I t" "m t < m s" by blast
    with less.hyps True show ?thesis by (simp add: whileE_step)
  qed (use less.prems in auto)
qed

text \<open>A loop over the elements of a list with a body that may abort.\<close>

primrec for_eachE :: "('a \<Rightarrow> 's \<Rightarrow> 's res) \<Rightarrow> 'a list \<Rightarrow> 's \<Rightarrow> 's res" where
  "for_eachE f [] s = Inr s"
| "for_eachE f (x # xs) s = bindE (f x s) (for_eachE f xs)"

lemma for_eachE_rule:
  assumes "I [] s" and "\<And>ys x zs s. xs = ys @ x # zs \<Longrightarrow> I ys s \<Longrightarrow> \<exists>t. f x s = Inr t \<and> I (ys @ [x]) t"
  shows "\<exists>t. for_eachE f xs s = Inr t \<and> I xs t"
proof -
  have "\<exists>t. for_eachE f zs s = Inr t \<and> I xs t" if "xs = ys @ zs" "I ys s" for ys zs s
    using that
  proof (induction zs arbitrary: ys s)
    case (Cons x zs)
    then obtain t where "f x s = Inr t" "I (ys @ [x]) t" using assms(2) by blast
    with Cons.IH[of "ys @ [x]" t] Cons.prems show ?case by simp
  qed simp
  from this[of "[]"] assms(1) show ?thesis by simp
qed

end
