(* ===== verification/Prog_Dag.thy ===== *)
theory Prog_Dag
  imports Loop_Res Isa_Instruction
begin

text \<open>
  \<open>isa/model/DAG.h\<close> and \<open>DAG.cpp\<close>: the graph of basic blocks whose edges carry compute time and whose nodes carry the time
  of the memory access at their end; and \<open>criticalPath\<close> of \<open>isa/analysis/TimingDAG.cpp\<close>, which finds the most
  expensive way through it. Nodes live in a heap, a pointer is an index into it, and the static counter of identifiers is
  part of the heap. A pointer to a basic block is its number, which is also the block's identifier. An
  \<open>unsigned long\<close> is a natural number below \<open>2 ^ 64\<close>.
\<close>

definition ulong :: "nat \<Rightarrow> nat" where
  "ulong n = n mod 2 ^ 64"

definition uint32 :: "nat \<Rightarrow> nat" where
  "uint32 n = n mod 2 ^ 32"

lemma ulong_id [simp]: "n < 2 ^ 64 \<Longrightarrow> ulong n = n"
  by (simp add: ulong_def)

lemma uint32_id [simp]: "n < 2 ^ 32 \<Longrightarrow> uint32 n = n"
  by (simp add: uint32_def)

subsection \<open>Nodes\<close>

datatype xs_type = XS_NONE | XS_DRAM | XS_SP

record DAGNode =
  dn_out :: "(nat \<times> nat) list"
  dn_id :: nat
  dn_bb :: nat
  dn_xs_type :: xs_type
  dn_xs_wcet :: nat
  dn_indegree :: nat
  dn_visited :: nat
  dn_critical_path_predecessor :: "nat option"
  dn_critical_path_predecessor_edge_cost :: nat
  dn_critical_path_cost :: nat
  dn_expanded_loop :: bool

record dag_heap =
  dh_nodes :: "DAGNode list"
  dh_id_counter :: nat

definition node_at :: "dag_heap \<Rightarrow> nat \<Rightarrow> DAGNode res" where
  "node_at H p = (if p < length (dh_nodes H) then Inr (dh_nodes H ! p) else Inl Invalid_Access)"

definition upd_node :: "nat \<Rightarrow> (DAGNode \<Rightarrow> DAGNode) \<Rightarrow> dag_heap \<Rightarrow> dag_heap res" where
  "upd_node p f H = (if p < length (dh_nodes H) then Inr (H\<lparr>dh_nodes := (dh_nodes H)[p := f (dh_nodes H ! p)]\<rparr>) else Inl Invalid_Access)"

definition uniqueId :: "dag_heap \<Rightarrow> nat \<times> dag_heap" where
  "uniqueId H = (dh_id_counter H, H\<lparr>dh_id_counter := uint32 (dh_id_counter H + 1)\<rparr>)"

definition mk_DAGNode :: "nat \<Rightarrow> nat \<Rightarrow> xs_type \<Rightarrow> nat \<Rightarrow> DAGNode" where
  "mk_DAGNode i b xst xswcet = \<lparr>dn_out = [], dn_id = i, dn_bb = b, dn_xs_type = xst, dn_xs_wcet = xswcet, dn_indegree = 0, dn_visited = 0,
     dn_critical_path_predecessor = None, dn_critical_path_predecessor_edge_cost = 0, dn_critical_path_cost = 0,
     dn_expanded_loop = False\<rparr>"

text \<open>\<open>new DAGNode(b, xst, xswcet)\<close>.\<close>

definition new_DAGNode :: "nat \<Rightarrow> xs_type \<Rightarrow> nat \<Rightarrow> dag_heap \<Rightarrow> nat \<times> dag_heap" where
  "new_DAGNode b xst xswcet H =
    (let (i, H) = uniqueId H in (length (dh_nodes H), H\<lparr>dh_nodes := dh_nodes H @ [mk_DAGNode i b xst xswcet]\<rparr>))"

definition addOut :: "nat \<Rightarrow> nat \<Rightarrow> nat \<Rightarrow> dag_heap \<Rightarrow> dag_heap res" where
  "addOut p cwcet n H =
    bindE (upd_node p (\<lambda>d. d\<lparr>dn_out := dn_out d @ [(cwcet, n)]\<rparr>) H)
      (upd_node n (\<lambda>d. d\<lparr>dn_indegree := uint32 (dn_indegree d + 1)\<rparr>))"

text \<open>The cost of the edge is an \<open>unsigned int\<close> here, while edges have costs of 64 bits.\<close>

definition visit :: "nat \<Rightarrow> nat \<Rightarrow> nat \<Rightarrow> DAGNode \<Rightarrow> bool \<times> DAGNode" where
  "visit n edge_cost cost d =
    (let d = d\<lparr>dn_visited := uint32 (dn_visited d + 1)\<rparr>;
         d = (if cost > dn_critical_path_cost d then d\<lparr>dn_critical_path_cost := cost, dn_critical_path_predecessor := Some n,
                dn_critical_path_predecessor_edge_cost := uint32 edge_cost\<rparr> else d)
     in (dn_visited d = dn_indegree d, d))"

definition copyNode :: "bool \<Rightarrow> nat \<Rightarrow> dag_heap \<Rightarrow> (nat \<times> dag_heap) res" where
  "copyNode strip_sp p H = bindE (node_at H p) (\<lambda>d.
    let (n, H) = (if strip_sp \<and> dn_xs_type d = XS_SP then new_DAGNode (dn_bb d) XS_NONE 0 H
                  else new_DAGNode (dn_bb d) (dn_xs_type d) (dn_xs_wcet d) H)
    in bindE (upd_node n (\<lambda>e. e\<lparr>dn_critical_path_predecessor_edge_cost := dn_critical_path_predecessor_edge_cost d\<rparr>) H)
      (\<lambda>H. Inr (n, H)))"

subsection \<open>Graphs\<close>

record DAG =
  dag_source :: "nat option"
  dag_sink :: "nat option"
  dag_nodes :: "nat list"
  dag_bbnode :: "nat \<Rightarrow> nat option"

definition new_DAG :: DAG where
  "new_DAG = \<lparr>dag_source = None, dag_sink = None, dag_nodes = [], dag_bbnode = (\<lambda>_. None)\<rparr>"

definition dag_get :: "DAG \<Rightarrow> nat \<Rightarrow> nat option" where
  "dag_get D bb = dag_bbnode D bb"

text \<open>\<open>op\<close> is the last instruction of the block; \<open>*(bb->rbegin())\<close> of an empty block has no value.\<close>

definition dag_ensure :: "nat \<Rightarrow> Instruction option \<Rightarrow> DAG \<Rightarrow> dag_heap \<Rightarrow> (nat \<times> DAG \<times> dag_heap) res" where
  "dag_ensure bb last_op D H =
    (case dag_get D bb of Some n \<Rightarrow> Inr (n, D, H)
     | None \<Rightarrow> (case last_op of None \<Rightarrow> Inl Invalid_Access
       | Some op \<Rightarrow>
          let (xst, dwcet) = (case i_md op of
                Some m \<Rightarrow> if ldst op then (if ldstsp op then XS_SP else XS_DRAM, unat (getDRAMlid m)) else (XS_NONE, 0)
              | None \<Rightarrow> (XS_NONE, 0));
              (n, H) = new_DAGNode bb xst dwcet H
          in Inr (n, D\<lparr>dag_bbnode := (dag_bbnode D)(bb \<mapsto> n), dag_nodes := dag_nodes D @ [n]\<rparr>, H)))"

definition clearBBMap :: "DAG \<Rightarrow> DAG" where
  "clearBBMap D = D\<lparr>dag_bbnode := (\<lambda>_. None)\<rparr>"

definition setExpandedLoop :: "nat \<Rightarrow> dag_heap \<Rightarrow> dag_heap res" where
  "setExpandedLoop p H = upd_node p (\<lambda>d. d\<lparr>dn_expanded_loop := True\<rparr>) H"

definition copyInto :: "bool \<Rightarrow> nat \<Rightarrow> DAG \<Rightarrow> dag_heap \<Rightarrow> (nat \<times> DAG \<times> dag_heap) res" where
  "copyInto strip_sp n D H =
    bindE (copyNode strip_sp n H) (\<lambda>(retn, H).
    bindE (node_at H n) (\<lambda>d.
      let D = D\<lparr>dag_nodes := dag_nodes D @ [retn]\<rparr> in
      if dn_expanded_loop d then bindE (setExpandedLoop retn H) (\<lambda>H. Inr (retn, D, H))
      else bindE (node_at H retn) (\<lambda>r. Inr (retn, D\<lparr>dag_bbnode := (dag_bbnode D)(dn_bb r \<mapsto> retn)\<rparr>, H))))"

definition setSource :: "nat \<Rightarrow> DAG \<Rightarrow> DAG res" where
  "setSource bb D = (case dag_bbnode D bb of None \<Rightarrow> Inl Out_Of_Range | Some n \<Rightarrow> Inr (D\<lparr>dag_source := Some n\<rparr>))"

definition setSink :: "nat \<Rightarrow> DAG \<Rightarrow> DAG res" where
  "setSink bb D = (case dag_bbnode D bb of None \<Rightarrow> Inl Out_Of_Range | Some n \<Rightarrow> Inr (D\<lparr>dag_sink := Some n\<rparr>))"

definition unsetSink :: "DAG \<Rightarrow> DAG" where
  "unsetSink D = D\<lparr>dag_sink := None\<rparr>"

text \<open>A pointer that may be null is followed.\<close>

definition ptrE :: "nat option \<Rightarrow> nat res" where
  "ptrE p = (case p of None \<Rightarrow> Inl Invalid_Access | Some n \<Rightarrow> Inr n)"

text \<open>\<open>append\<close>: the state of the loop is the queue, the nodes visited with their copies, this graph and the heap.\<close>

type_synonym append_state = "nat list \<times> (nat \<Rightarrow> nat option) \<times> DAG \<times> dag_heap"

definition append_copy :: "nat \<Rightarrow> append_state \<Rightarrow> (nat \<times> append_state) res" where
  "append_copy n = (\<lambda>(wq, visited, D, H).
    bindE (node_at H n) (\<lambda>d. case visited (dn_id d) of
        Some cpn \<Rightarrow> Inr (cpn, wq, visited, D, H)
      | None \<Rightarrow> bindE (copyInto False n D H) (\<lambda>(cpn, D, H). bindE (setExpandedLoop cpn H) (\<lambda>H.
          Inr (cpn, wq, visited(dn_id d \<mapsto> cpn), D, H)))))"

definition append_edge :: "nat \<Rightarrow> nat \<times> nat \<Rightarrow> append_state \<Rightarrow> append_state res" where
  "append_edge cpn e = (\<lambda>(wq, visited, D, H).
    bindE (node_at H (snd e)) (\<lambda>d.
    let fresh = visited (dn_id d) = None in
    bindE (append_copy (snd e) (wq, visited, D, H)) (\<lambda>(cpn_sink, wq, visited, D, H).
    bindE (addOut cpn (fst e) cpn_sink H) (\<lambda>H. Inr (if fresh then wq @ [snd e] else wq, visited, D, H)))))"

definition append_node :: "append_state \<Rightarrow> append_state res" where
  "append_node = (\<lambda>(wq, visited, D, H).
    bindE (append_copy (hd wq) (tl wq, visited, D, H)) (\<lambda>(cpn, s).
    bindE (node_at H (hd wq)) (\<lambda>d. for_eachE (append_edge cpn) (dn_out d) s)))"

definition append_dag :: "DAG \<Rightarrow> DAG \<Rightarrow> dag_heap \<Rightarrow> (DAG \<times> dag_heap) res" where
  "append_dag dag D H =
    bindE (ptrE (dag_source dag)) (\<lambda>src.
    bindE (whileE (\<lambda>(wq, s). wq \<noteq> []) append_node ([src], (\<lambda>_. None), D, H)) (\<lambda>(wq, visited, D, H).
    bindE (node_at H src) (\<lambda>s.
    bindE (ptrE (dag_sink dag)) (\<lambda>snk.
    bindE (node_at H snk) (\<lambda>t.
      Inr (D\<lparr>dag_bbnode := (dag_bbnode D)(dn_bb s := visited (dn_id s), dn_bb t := visited (dn_id t))\<rparr>, H))))))"

definition dag_resetVisited :: "DAG \<Rightarrow> dag_heap \<Rightarrow> dag_heap res" where
  "dag_resetVisited D H = for_eachE (\<lambda>n. upd_node n (\<lambda>d. d\<lparr>dn_visited := 0\<rparr>)) (dag_nodes D) H"

subsection \<open>The critical path\<close>

text \<open>The cost of an edge out of a node.\<close>

definition node_cost :: "bool \<Rightarrow> DAGNode \<Rightarrow> nat \<Rightarrow> nat" where
  "node_cost sp_as_compute d c = (if sp_as_compute \<and> dn_xs_type d = XS_SP then ulong (c + dn_xs_wcet d) else c)"

definition visit_edge :: "bool \<Rightarrow> nat \<Rightarrow> nat \<times> nat \<Rightarrow> nat list \<times> dag_heap \<Rightarrow> (nat list \<times> dag_heap) res" where
  "visit_edge sp n e = (\<lambda>(wq, H).
    bindE (node_at H n) (\<lambda>d.
    bindE (node_at H (snd e)) (\<lambda>v.
    let (lastInEdge, v') = visit n (node_cost sp d (fst e)) (ulong (dn_critical_path_cost d + node_cost sp d (fst e))) v in
    bindE (upd_node (snd e) (\<lambda>_. v') H) (\<lambda>H. Inr (if lastInEdge then wq @ [snd e] else wq, H)))))"

definition visit_node :: "bool \<Rightarrow> nat list \<times> dag_heap \<Rightarrow> (nat list \<times> dag_heap) res" where
  "visit_node sp = (\<lambda>(wq, H). bindE (node_at H (hd wq)) (\<lambda>d. for_eachE (visit_edge sp (hd wq)) (dn_out d) (tl wq, H)))"

definition updateCriticalPath :: "bool \<Rightarrow> nat \<Rightarrow> dag_heap \<Rightarrow> dag_heap res" where
  "updateCriticalPath sp src H = bindE (whileE (\<lambda>(wq, H). wq \<noteq> []) (visit_node sp) ([src], H)) (\<lambda>(wq, H). Inr H)"

text \<open>Walking back: the state is the original node, its copy, the new graph and the heap.\<close>

type_synonym extract_state = "nat \<times> nat \<times> DAG \<times> dag_heap"

definition extract_step :: "bool \<Rightarrow> extract_state \<Rightarrow> extract_state res" where
  "extract_step sp = (\<lambda>(n, cpn_sink, D, H).
    bindE (node_at H n) (\<lambda>d.
    bindE (ptrE (dn_critical_path_predecessor d)) (\<lambda>n.
    bindE (copyInto sp n D H) (\<lambda>(cpn, D, H).
    bindE (node_at H cpn_sink) (\<lambda>k.
    bindE (addOut cpn (dn_critical_path_predecessor_edge_cost k) cpn_sink H) (\<lambda>H. Inr (n, cpn, D, H)))))))"

definition extractPath :: "bool \<Rightarrow> nat \<Rightarrow> nat \<Rightarrow> dag_heap \<Rightarrow> extract_state res" where
  "extractPath sp src snk H =
    bindE (copyInto sp snk new_DAG H) (\<lambda>(cpn_sink, D, H). do_whileE (extract_step sp) (\<lambda>(n, s). n \<noteq> src) (snk, cpn_sink, D, H))"

definition criticalPath :: "bool \<Rightarrow> DAG \<Rightarrow> dag_heap \<Rightarrow> (DAG \<times> dag_heap) res" where
  "criticalPath sp_as_compute dag_in H =
    bindE (dag_resetVisited dag_in H) (\<lambda>H.
    bindE (ptrE (dag_source dag_in)) (\<lambda>src.
    bindE (updateCriticalPath sp_as_compute src H) (\<lambda>H.
    bindE (ptrE (dag_sink dag_in)) (\<lambda>snk.
    bindE (extractPath sp_as_compute src snk H) (\<lambda>(n, cpn, D, H).
    bindE (node_at H src) (\<lambda>s.
    bindE (node_at H snk) (\<lambda>t.
    bindE (setSource (dn_bb s) D) (\<lambda>D.
    bindE (setSink (dn_bb t) D) (\<lambda>D. Inr (D, H))))))))))"

end
