(* ===== verification/Critical_Path.thy ===== *)
theory Critical_Path
  imports Prog_Dag
begin

text \<open>
  What \<open>criticalPath\<close> computes: a most expensive path from the source of the graph to its sink, as a chain of copies of its
  nodes.
\<close>

subsection \<open>Paths\<close>

abbreviation outs :: "dag_heap \<Rightarrow> nat \<Rightarrow> (nat \<times> nat) list" where
  "outs H u \<equiv> dn_out (dh_nodes H ! u)"

text \<open>A path is the list of its edges. The cost of an edge includes the access of its node where that counts as computation.\<close>

fun dag_path :: "dag_heap \<Rightarrow> nat \<Rightarrow> (nat \<times> nat) list \<Rightarrow> nat \<Rightarrow> bool" where
  "dag_path H u [] t \<longleftrightarrow> u = t"
| "dag_path H u (e # es) t \<longleftrightarrow> e \<in> set (outs H u) \<and> dag_path H (snd e) es t"

definition edge_cost :: "bool \<Rightarrow> dag_heap \<Rightarrow> nat \<Rightarrow> nat \<times> nat \<Rightarrow> nat" where
  "edge_cost sp H u e = fst e + (if sp \<and> dn_xs_type (dh_nodes H ! u) = XS_SP then dn_xs_wcet (dh_nodes H ! u) else 0)"

fun path_cost :: "bool \<Rightarrow> dag_heap \<Rightarrow> nat \<Rightarrow> (nat \<times> nat) list \<Rightarrow> nat" where
  "path_cost sp H u [] = 0"
| "path_cost sp H u (e # es) = edge_cost sp H u e + path_cost sp H (snd e) es"

lemma dag_path_snoc: "dag_path H u es v \<Longrightarrow> e \<in> set (outs H v) \<Longrightarrow> dag_path H u (es @ [e]) (snd e)"
  by (induction es arbitrary: u) auto

lemma path_cost_snoc: "dag_path H u es v \<Longrightarrow> path_cost sp H u (es @ [e]) = path_cost sp H u es + edge_cost sp H v e"
  by (induction es arbitrary: u) auto

text \<open>The number of edges between two nodes, and from a set of nodes.\<close>

definition cnt :: "dag_heap \<Rightarrow> nat \<Rightarrow> nat \<Rightarrow> nat" where
  "cnt H u v = length (filter (\<lambda>e. snd e = v) (outs H u))"

definition in_edges :: "dag_heap \<Rightarrow> nat set \<Rightarrow> nat \<Rightarrow> nat" where
  "in_edges H P v = (\<Sum>u\<in>P. cnt H u v)"

text \<open>
  The graphs the function is for: the nodes \<open>V\<close> are closed under edges, \<open>rk\<close> is an order of them that edges
  respect, every node but the source \<open>s\<close> has a predecessor, the number of edges into a node is the one the node keeps, no
  critical path has been looked for, edges have a positive cost of 32 bits, and no path costs 64 bits.
\<close>

definition dag_wf :: "bool \<Rightarrow> dag_heap \<Rightarrow> nat set \<Rightarrow> (nat \<Rightarrow> nat) \<Rightarrow> nat \<Rightarrow> bool" where
  "dag_wf sp H V rk s \<longleftrightarrow> finite V \<and> (\<forall>v\<in>V. v < length (dh_nodes H)) \<and> s \<in> V \<and>
     (\<forall>u\<in>V. \<forall>e\<in>set (outs H u). snd e \<in> V \<and> rk u < rk (snd e) \<and> 0 < edge_cost sp H u e \<and> edge_cost sp H u e < 2 ^ 32) \<and>
     (\<forall>v\<in>V. dn_indegree (dh_nodes H ! v) = in_edges H V v \<and> in_edges H V v < 2 ^ 32) \<and>
     (\<forall>v\<in>V. in_edges H V v = 0 \<longleftrightarrow> v = s) \<and>
     (\<forall>v\<in>V. dn_critical_path_predecessor (dh_nodes H ! v) = None \<and> dn_critical_path_cost (dh_nodes H ! v) = 0) \<and>
     (\<forall>es v. dag_path H s es v \<longrightarrow> path_cost sp H s es < 2 ^ 64)"

text \<open>What the search leaves alone.\<close>

definition same_node :: "DAGNode \<Rightarrow> DAGNode \<Rightarrow> bool" where
  "same_node d e \<longleftrightarrow> dn_out e = dn_out d \<and> dn_id e = dn_id d \<and> dn_bb e = dn_bb d \<and> dn_xs_type e = dn_xs_type d \<and>
     dn_xs_wcet e = dn_xs_wcet d \<and> dn_indegree e = dn_indegree d \<and> dn_expanded_loop e = dn_expanded_loop d"

definition same_graph :: "dag_heap \<Rightarrow> dag_heap \<Rightarrow> bool" where
  "same_graph H K \<longleftrightarrow> length (dh_nodes K) = length (dh_nodes H) \<and>
     (\<forall>p<length (dh_nodes H). same_node (dh_nodes H ! p) (dh_nodes K ! p))"

lemma same_graph_refl [simp]: "same_graph H H"
  by (simp add: same_graph_def same_node_def)

lemma same_graph_trans: "same_graph H K \<Longrightarrow> same_graph K L \<Longrightarrow> same_graph H L"
  by (simp add: same_graph_def same_node_def)

lemma same_graph_upd:
  "same_graph H K \<Longrightarrow> p < length (dh_nodes H) \<Longrightarrow> same_node (dh_nodes K ! p) d \<Longrightarrow> same_graph H (K\<lparr>dh_nodes := (dh_nodes K)[p := d]\<rparr>)"
  by (auto simp: same_graph_def same_node_def nth_list_update)

lemma visit_same: "same_node d (snd (visit n ec c d))"
  by (simp add: visit_def same_node_def Let_def)

lemma visit_fields:
  "dn_visited (snd (visit n ec c d)) = uint32 (dn_visited d + 1)"
  "fst (visit n ec c d) \<longleftrightarrow> uint32 (dn_visited d + 1) = dn_indegree d"
  "dn_critical_path_cost (snd (visit n ec c d)) = max (dn_critical_path_cost d) c"
  "dn_critical_path_predecessor (snd (visit n ec c d)) = (if dn_critical_path_cost d < c then Some n else dn_critical_path_predecessor d)"
  "dn_critical_path_predecessor_edge_cost (snd (visit n ec c d)) =
    (if dn_critical_path_cost d < c then uint32 ec else dn_critical_path_predecessor_edge_cost d)"
  by (simp_all add: visit_def Let_def)

subsection \<open>The search\<close>

abbreviation cpc :: "dag_heap \<Rightarrow> nat \<Rightarrow> nat" where
  "cpc H v \<equiv> dn_critical_path_cost (dh_nodes H ! v)"

abbreviation cpp :: "dag_heap \<Rightarrow> nat \<Rightarrow> nat option" where
  "cpp H v \<equiv> dn_critical_path_predecessor (dh_nodes H ! v)"

abbreviation cpe :: "dag_heap \<Rightarrow> nat \<Rightarrow> nat" where
  "cpe H v \<equiv> dn_critical_path_predecessor_edge_cost (dh_nodes H ! v)"

text \<open>
  The invariant. The nodes in \<open>P\<close> are done, of node \<open>n\<close> the edges \<open>ys\<close>. A node is in the queue when all edges into it have been
  seen; it knows the most expensive of them.
\<close>

definition seen :: "dag_heap \<Rightarrow> nat set \<Rightarrow> nat \<Rightarrow> (nat \<times> nat) list \<Rightarrow> nat \<Rightarrow> nat \<times> nat \<Rightarrow> bool" where
  "seen H P n ys u e \<longleftrightarrow> (u \<in> P \<and> e \<in> set (outs H u)) \<or> (u = n \<and> e \<in> set ys)"

definition seen_cnt :: "dag_heap \<Rightarrow> nat set \<Rightarrow> (nat \<times> nat) list \<Rightarrow> nat \<Rightarrow> nat" where
  "seen_cnt H P ys v = in_edges H P v + length (filter (\<lambda>e. snd e = v) ys)"

definition cp_inv :: "bool \<Rightarrow> dag_heap \<Rightarrow> nat set \<Rightarrow> nat set \<Rightarrow> nat set \<Rightarrow> nat \<Rightarrow> (nat \<times> nat) list \<Rightarrow> nat list \<times> dag_heap \<Rightarrow> bool" where
  "cp_inv sp H0 V P Q n ys = (\<lambda>(wq, H). same_graph H0 H \<and>
     (\<forall>v\<in>V. dn_visited (dh_nodes H ! v) = seen_cnt H0 P ys v) \<and>
     distinct wq \<and> set wq = {v \<in> V. v \<notin> Q \<and> seen_cnt H0 P ys v = in_edges H0 V v} \<and>
     (\<forall>v\<in>Q. in_edges H0 P v = in_edges H0 V v) \<and>
     (\<forall>u e. seen H0 P n ys u e \<longrightarrow> cpc H u + edge_cost sp H0 u e \<le> cpc H (snd e)) \<and>
     (\<forall>v\<in>V. case cpp H v of None \<Rightarrow> cpc H v = 0
       | Some u \<Rightarrow> \<exists>e. seen H0 P n ys u e \<and> snd e = v \<and> cpc H v = cpc H u + edge_cost sp H0 u e \<and> cpe H v = edge_cost sp H0 u e))"

lemma cp_inv_bound: "cp_inv sp H0 V P Q n ys (wq, H) \<Longrightarrow> seen H0 P n ys u e \<Longrightarrow> cpc H u + edge_cost sp H0 u e \<le> cpc H (snd e)"
  unfolding cp_inv_def prod.case by blast

lemma cp_inv_queue: "cp_inv sp H0 V P Q n ys (wq, H) \<Longrightarrow> set wq = {v \<in> V. v \<notin> Q \<and> seen_cnt H0 P ys v = in_edges H0 V v}"
  unfolding cp_inv_def prod.case by blast

lemma in_edges_mono: "finite V \<Longrightarrow> P \<subseteq> V \<Longrightarrow> in_edges H P v \<le> in_edges H V v"
  unfolding in_edges_def by (rule sum_mono2) simp_all

lemma in_edges_insert: "finite P \<Longrightarrow> n \<notin> P \<Longrightarrow> in_edges H (insert n P) v = cnt H n v + in_edges H P v"
  by (simp add: in_edges_def)

lemma node_cost_edge: "c + dn_xs_wcet d < 2 ^ 64 \<or> \<not> (sp \<and> dn_xs_type d = XS_SP) \<Longrightarrow>
    node_cost sp d c = c + (if sp \<and> dn_xs_type d = XS_SP then dn_xs_wcet d else 0)"
  by (auto simp: node_cost_def)

text \<open>The next edge of node \<open>n\<close>: its end has not been completed before.\<close>

lemma next_edge:
  assumes "finite V" "insert n P \<subseteq> V" "n \<notin> P" "outs H n = ys @ e # zs"
  shows "seen_cnt H P ys (snd e) < in_edges H V (snd e)"
proof -
  have f: "finite P" using assms(1,2) by (meson finite_subset insert_subset)
  have "seen_cnt H P ys (snd e) < in_edges H (insert n P) (snd e)"
    by (simp add: seen_cnt_def in_edges_insert[OF f assms(3)] cnt_def assms(4))
  also have "\<dots> \<le> in_edges H V (snd e)" using in_edges_mono[OF assms(1,2)] .
  finally show ?thesis .
qed


lemma seen_snoc: "seen H P n (ys @ [e]) u f \<longleftrightarrow> seen H P n ys u f \<or> (u = n \<and> f = e)"
  by (auto simp: seen_def)

lemma seen_cnt_snoc: "seen_cnt H P (ys @ [e]) v = seen_cnt H P ys v + (if snd e = v then 1 else 0)"
  by (simp add: seen_cnt_def)

lemma seen_target:
  assumes "dag_wf sp H V rk s" "insert n P \<subseteq> V" "outs H n = ys @ zs" "seen H P n ys u e"
  shows "u \<in> insert n P" "e \<in> set (outs H u)" "snd e \<in> V" "rk u < rk (snd e)"
  using assms by (auto simp: seen_def dag_wf_def)

lemma visit_edge_step:
  assumes wf: "dag_wf sp H0 V rk s" and inv: "cp_inv sp H0 V P (insert n P) n ys (wq, H)"
    and sub: "insert n P \<subseteq> V" "n \<notin> P" and out: "outs H0 n = ys @ e # zs"
    and path: "dag_path H0 s es n" "cpc H n = path_cost sp H0 s es"
  shows "\<exists>wq' H'. visit_edge sp n e (wq, H) = Inr (wq', H') \<and> cp_inv sp H0 V P (insert n P) n (ys @ [e]) (wq', H') \<and> cpc H' n = cpc H n"
proof -
  let ?v = "snd e" and ?ec = "edge_cost sp H0 n e"
  let ?c = "cpc H n + ?ec"
  have fin: "finite V" using wf by (simp add: dag_wf_def)
  have e: "e \<in> set (outs H0 n)" using out by simp
  have n: "n \<in> V" using sub by simp
  then have v: "?v \<in> V" "rk n < rk ?v" "0 < ?ec" "?ec < 2 ^ 32" using wf e unfolding dag_wf_def by blast+
  have len: "n < length (dh_nodes H0)" "?v < length (dh_nodes H0)" using wf n v unfolding dag_wf_def by blast+
  have same: "same_graph H0 H" using inv by (simp add: cp_inv_def)
  then have lenH: "length (dh_nodes H) = length (dh_nodes H0)" and sn: "same_node (dh_nodes H0 ! n) (dh_nodes H ! n)" and
    sv: "same_node (dh_nodes H0 ! ?v) (dh_nodes H ! ?v)" using len by (simp_all add: same_graph_def)
  have lt: "seen_cnt H0 P ys ?v < in_edges H0 V ?v" by (rule next_edge[OF fin sub out])
  have nQ: "?v \<notin> insert n P"
  proof
    assume "?v \<in> insert n P"
    then have "in_edges H0 P ?v = in_edges H0 V ?v" using inv by (auto simp: cp_inv_def)
    then show False using lt by (simp add: seen_cnt_def)
  qed
  have ind: "dn_indegree (dh_nodes H ! ?v) = in_edges H0 V ?v" "in_edges H0 V ?v < 2 ^ 32"
    using wf v(1) sv unfolding dag_wf_def same_node_def by auto
  have vis: "dn_visited (dh_nodes H ! ?v) = seen_cnt H0 P ys ?v" using inv v(1) by (simp add: cp_inv_def)
  have "?c = path_cost sp H0 s (es @ [e])" using path_cost_snoc[OF path(1)] path(2) by simp
  moreover have "dag_path H0 s (es @ [e]) ?v" by (rule dag_path_snoc[OF path(1) e])
  ultimately have c64: "?c < 2 ^ 64" using wf unfolding dag_wf_def by metis
  have nc: "node_cost sp (dh_nodes H ! n) (fst e) = ?ec"
    using sn v(4) by (subst node_cost_edge) (auto simp: edge_cost_def same_node_def)
  obtain b v' where vv: "visit n ?ec ?c (dh_nodes H ! ?v) = (b, v')" by fastforce
  let ?H = "H\<lparr>dh_nodes := (dh_nodes H)[?v := v']\<rparr>" and ?wq = "if b then wq @ [?v] else wq"
  have run: "visit_edge sp n e (wq, H) = Inr (?wq, ?H)"
    using len lenH c64 by (simp add: visit_edge_def node_at_def upd_node_def nc vv)
  have v': "dn_visited v' = seen_cnt H0 P (ys @ [e]) ?v" "b = (seen_cnt H0 P (ys @ [e]) ?v = in_edges H0 V ?v)"
    "same_node (dh_nodes H ! ?v) v'"
    using lt ind vis visit_same[of "dh_nodes H ! ?v" n ?ec ?c] visit_fields(1,2)[of n ?ec ?c "dh_nodes H ! ?v"]
    by (simp_all add: vv seen_cnt_snoc)
  have cost: "dn_critical_path_cost v' = max (cpc H ?v) ?c"
    "dn_critical_path_predecessor v' = (if cpc H ?v < ?c then Some n else cpp H ?v)"
    "dn_critical_path_predecessor_edge_cost v' = (if cpc H ?v < ?c then ?ec else cpe H ?v)"
    using v(4) visit_fields(3-5)[of n ?ec ?c "dh_nodes H ! ?v"] by (simp_all add: vv)
  have nth: "dh_nodes ?H ! w = (if w = ?v then v' else dh_nodes H ! w)" for w
    using len(2) lenH by (simp add: nth_list_update)
  have src: "u \<noteq> ?v" if "seen H0 P n ys u f" for u f
    using seen_target(1)[OF wf sub(1) out that] nQ by auto
  have inv': "cp_inv sp H0 V P (insert n P) n (ys @ [e]) (?wq, ?H)"
    unfolding cp_inv_def split_beta fst_conv snd_conv
  proof (intro conjI)
    show "same_graph H0 ?H"
      using same same_graph_upd[OF same len(2)] v'(3) by simp
    show "\<forall>w\<in>V. dn_visited (dh_nodes ?H ! w) = seen_cnt H0 P (ys @ [e]) w"
      using inv v'(1) unfolding nth by (auto simp: cp_inv_def seen_cnt_snoc)
    have dwq: "distinct wq" and swq: "set wq = {w \<in> V. w \<notin> insert n P \<and> seen_cnt H0 P ys w = in_edges H0 V w}"
      using inv by (simp_all add: cp_inv_def)
    have "?v \<notin> set wq" using lt unfolding swq by simp
    then show "distinct ?wq" using dwq by simp
    show "set ?wq = {w \<in> V. w \<notin> insert n P \<and> seen_cnt H0 P (ys @ [e]) w = in_edges H0 V w}"
    proof (rule set_eqI)
      fix w
      have "w \<in> set ?wq \<longleftrightarrow> w \<in> set wq \<or> (w = ?v \<and> seen_cnt H0 P ys ?v + 1 = in_edges H0 V ?v)"
        by (auto simp: v'(2) seen_cnt_snoc)
      then show "w \<in> set ?wq \<longleftrightarrow> w \<in> {w \<in> V. w \<notin> insert n P \<and> seen_cnt H0 P (ys @ [e]) w = in_edges H0 V w}"
        unfolding swq using nQ v(1) lt by (cases "w = ?v") (simp_all add: seen_cnt_snoc)
    qed
    show "\<forall>w\<in>insert n P. in_edges H0 P w = in_edges H0 V w" using inv by (simp add: cp_inv_def)
    show "\<forall>u f. seen H0 P n (ys @ [e]) u f \<longrightarrow> cpc ?H u + edge_cost sp H0 u f \<le> cpc ?H (snd f)"
    proof (intro allI impI)
      fix u f
      assume "seen H0 P n (ys @ [e]) u f"
      then consider "seen H0 P n ys u f" | "u = n" "f = e" by (auto simp: seen_snoc)
      then show "cpc ?H u + edge_cost sp H0 u f \<le> cpc ?H (snd f)"
      proof cases
        case 1
        then have "cpc H u + edge_cost sp H0 u f \<le> cpc H (snd f)" by (rule cp_inv_bound[OF inv])
        then show ?thesis using src[OF 1] cost(1) unfolding nth by auto
      next
        case 2
        then show ?thesis using nQ cost(1) unfolding nth by auto
      qed
    qed
    show "\<forall>w\<in>V. case cpp ?H w of None \<Rightarrow> cpc ?H w = 0
       | Some u \<Rightarrow> \<exists>f. seen H0 P n (ys @ [e]) u f \<and> snd f = w \<and> cpc ?H w = cpc ?H u + edge_cost sp H0 u f \<and> cpe ?H w = edge_cost sp H0 u f"
    proof
      fix w
      assume w: "w \<in> V"
      have old: "case cpp H w of None \<Rightarrow> cpc H w = 0
         | Some u \<Rightarrow> \<exists>f. seen H0 P n ys u f \<and> snd f = w \<and> cpc H w = cpc H u + edge_cost sp H0 u f \<and> cpe H w = edge_cost sp H0 u f"
        using inv w by (simp add: cp_inv_def)
      show "case cpp ?H w of None \<Rightarrow> cpc ?H w = 0
         | Some u \<Rightarrow> \<exists>f. seen H0 P n (ys @ [e]) u f \<and> snd f = w \<and> cpc ?H w = cpc ?H u + edge_cost sp H0 u f \<and> cpe ?H w = edge_cost sp H0 u f"
      proof (cases "w = ?v \<and> cpc H ?v < ?c")
        case True
        then have "cpp ?H w = Some n" "cpc ?H w = ?c" "cpe ?H w = ?ec" "cpc ?H n = cpc H n" using cost nQ unfolding nth by auto
        then show ?thesis using True by (simp only: option.case) (rule exI[of _ e], simp add: seen_snoc)
      next
        case False
        then have w': "cpp ?H w = cpp H w" "cpc ?H w = cpc H w" "cpe ?H w = cpe H w" using cost unfolding nth by auto
        show ?thesis
        proof (cases "cpp H w")
          case None
          then show ?thesis using old unfolding w' by simp
        next
          case (Some u)
          then obtain f where f: "seen H0 P n ys u f" "snd f = w" "cpc H w = cpc H u + edge_cost sp H0 u f" "cpe H w = edge_cost sp H0 u f"
            using old by auto
          have "cpc ?H u = cpc H u" using src[OF f(1)] unfolding nth by simp
          then show ?thesis unfolding w' Some option.case using f by (intro exI[of _ f]) (simp add: seen_snoc)
        qed
      qed
    qed
  qed
  moreover have "cpc ?H n = cpc H n" using nQ unfolding nth by simp
  ultimately show ?thesis using run by blast
qed


text \<open>All edges of a node.\<close>

lemma visit_edges:
  assumes wf: "dag_wf sp H0 V rk s" and sub: "insert n P \<subseteq> V" "n \<notin> P" and path: "dag_path H0 s es n" "cpc H n = path_cost sp H0 s es"
    and inv: "cp_inv sp H0 V P (insert n P) n [] (wq, H)"
  shows "\<exists>wq' H'. for_eachE (visit_edge sp n) (outs H0 n) (wq, H) = Inr (wq', H') \<and> cp_inv sp H0 V P (insert n P) n (outs H0 n) (wq', H') \<and>
    cpc H' n = cpc H n"
proof -
  have "\<exists>t. for_eachE (visit_edge sp n) (outs H0 n) (wq, H) = Inr t \<and>
      cp_inv sp H0 V P (insert n P) n (outs H0 n) t \<and> cpc (snd t) n = cpc H n"
  proof (rule for_eachE_rule[where I = "\<lambda>ys t. cp_inv sp H0 V P (insert n P) n ys t \<and> cpc (snd t) n = cpc H n"], goal_cases)
    case 1
    then show ?case using inv by simp
  next
    case (2 ys e zs t)
    obtain wq1 H1 where t: "t = (wq1, H1)" by fastforce
    have i: "cp_inv sp H0 V P (insert n P) n ys (wq1, H1)" and c: "cpc H1 n = cpc H n" using 2(2) unfolding t by simp_all
    from visit_edge_step[OF wf i sub 2(1) path(1)] path(2) c show ?case unfolding t by fastforce
  qed
  then show ?thesis by (metis prod.collapse snd_conv)
qed


text \<open>Between two nodes: a node with a completed predecessor knows one, and its cost is that of a path.\<close>

lemma known_pred:
  assumes wf: "dag_wf sp H0 V rk s" and inv: "cp_inv sp H0 V P Q n [] (wq, H)" and P: "P \<subseteq> V" and v: "v \<in> V" "0 < in_edges H0 P v"
  shows "cpp H v \<noteq> None"
proof
  assume none: "cpp H v = None"
  obtain u where u: "u \<in> P" "cnt H0 u v \<noteq> 0" using v(2) unfolding in_edges_def by (metis less_numeral_extra(3) sum.neutral)
  then obtain e where e: "e \<in> set (outs H0 u)" "snd e = v" by (auto simp: cnt_def filter_empty_conv)
  have "0 < edge_cost sp H0 u e" using wf u(1) P e(1) unfolding dag_wf_def by blast
  moreover have "cpc H u + edge_cost sp H0 u e \<le> cpc H v"
    using cp_inv_bound[OF inv, of u e] u(1) e by (simp add: seen_def)
  moreover have "cpc H v = 0" using inv v(1) none by (auto simp: cp_inv_def)
  ultimately show False by simp
qed

lemma cpc_path:
  assumes wf: "dag_wf sp H0 V rk s" and inv: "cp_inv sp H0 V P P n [] (wq, H)" and P: "P \<subseteq> V" and v: "v \<in> V"
    and known: "v = s \<or> cpp H v \<noteq> None"
  shows "\<exists>es. dag_path H0 s es v \<and> cpc H v = path_cost sp H0 s es"
  using v known
proof (induction "rk v" arbitrary: v rule: less_induct)
  case less
  have cp: "case cpp H v of None \<Rightarrow> cpc H v = 0
     | Some u \<Rightarrow> \<exists>f. seen H0 P n [] u f \<and> snd f = v \<and> cpc H v = cpc H u + edge_cost sp H0 u f \<and> cpe H v = edge_cost sp H0 u f"
    using inv less.prems(1) by (simp add: cp_inv_def)
  show "\<exists>es. dag_path H0 s es v \<and> cpc H v = path_cost sp H0 s es"
  proof (cases "cpp H v")
    case None
    then show ?thesis using less.prems(2) cp by (intro exI[of _ "[]"]) simp
  next
    case (Some u)
    then obtain f where f: "seen H0 P n [] u f" "snd f = v" "cpc H v = cpc H u + edge_cost sp H0 u f" using cp by auto
    have u: "u \<in> P" "f \<in> set (outs H0 u)" using f(1) by (simp_all add: seen_def)
    then have uV: "u \<in> V" "rk u < rk v" using wf P f(2) unfolding dag_wf_def by blast+
    have "u = s \<or> cpp H u \<noteq> None"
    proof (cases "u = s")
      case False
      then have "0 < in_edges H0 V u" using wf uV(1) unfolding dag_wf_def by blast
      then have "0 < in_edges H0 P u" using inv u(1) by (simp add: cp_inv_def)
      then show ?thesis using known_pred[OF wf inv P uV(1)] by simp
    qed simp
    then obtain es where es: "dag_path H0 s es u" "cpc H u = path_cost sp H0 s es" using less.hyps[OF uV(2,1)] by blast
    then have "dag_path H0 s (es @ [f]) v" "cpc H v = path_cost sp H0 s (es @ [f])"
      using dag_path_snoc[OF es(1) u(2)] f path_cost_snoc[OF es(1)] by simp_all
    then show ?thesis by blast
  qed
qed

text \<open>One node, and all of them.\<close>

lemma cp_inv_start: "cp_inv sp H0 V P Q n [] st = cp_inv sp H0 V P Q m [] st"
proof -
  have "seen H0 P n [] = seen H0 P m []" by (simp add: seen_def fun_eq_iff)
  then show ?thesis by (simp only: cp_inv_def)
qed

lemma visit_node_step:
  assumes wf: "dag_wf sp H0 V rk s" and inv: "cp_inv sp H0 V P P m [] (n # wq, H)" and P: "P \<subseteq> V"
  shows "\<exists>wq' H'. visit_node sp (n # wq, H) = Inr (wq', H') \<and> cp_inv sp H0 V (insert n P) (insert n P) m [] (wq', H') \<and> n \<in> V \<and> n \<notin> P"
proof -
  have q: "distinct (n # wq)" "set (n # wq) = {v \<in> V. v \<notin> P \<and> seen_cnt H0 P [] v = in_edges H0 V v}"
    using inv by (simp_all add: cp_inv_def)
  have "n \<in> set (n # wq)" by simp
  then have n: "n \<in> V" "n \<notin> P" "in_edges H0 P n = in_edges H0 V n" unfolding q(2) by (simp_all add: seen_cnt_def)
  have fin: "finite P" using wf P unfolding dag_wf_def by (meson finite_subset)
  have "n = s \<or> cpp H n \<noteq> None"
    using n wf known_pred[OF wf inv P n(1)] unfolding dag_wf_def by (metis gr0I)
  then obtain es where es: "dag_path H0 s es n" "cpc H n = path_cost sp H0 s es" using cpc_path[OF wf inv P n(1)] by blast
  have "set wq = set (n # wq) - {n}" using q(1) by auto
  then have "set wq = {v \<in> V. v \<notin> insert n P \<and> seen_cnt H0 P [] v = in_edges H0 V v}" unfolding q(2) by auto
  then have inv0: "cp_inv sp H0 V P (insert n P) n [] (wq, H)"
    using inv[unfolded cp_inv_start[where n = m and m = n]] q(1) n(3) unfolding cp_inv_def prod.case by auto
  have nl: "n < length (dh_nodes H0)" using wf n(1) by (simp add: dag_wf_def)
  then have at: "node_at H n = Inr (dh_nodes H ! n)" "outs H n = outs H0 n"
    using inv by (auto simp: cp_inv_def same_graph_def same_node_def node_at_def)
  obtain wq' H' where r: "for_eachE (visit_edge sp n) (outs H0 n) (wq, H) = Inr (wq', H')"
      "cp_inv sp H0 V P (insert n P) n (outs H0 n) (wq', H')"
    using visit_edges[OF wf _ n(2) es inv0] n(1) P by auto
  have c: "seen_cnt H0 P (outs H0 n) v = seen_cnt H0 (insert n P) [] v" for v
    by (simp add: seen_cnt_def in_edges_insert[OF fin n(2)] cnt_def)
  have sn: "seen H0 P n (outs H0 n) u e \<longleftrightarrow> seen H0 (insert n P) m [] u e" for u e
    by (auto simp: seen_def)
  have nodup: "in_edges H0 (insert n P) v = in_edges H0 V v" if "in_edges H0 P v = in_edges H0 V v" for v
    using in_edges_mono[of V "insert n P" H0 v] in_edges_mono[of "insert n P" P H0 v] that wf n(1) P fin
    unfolding dag_wf_def by (simp add: subset_insertI)
  have "cp_inv sp H0 V (insert n P) (insert n P) m [] (wq', H')"
    using r(2) nodup unfolding cp_inv_def split_beta fst_conv snd_conv c sn by blast
  then show ?thesis using r(1) n by (simp add: visit_node_def at)
qed

lemma search_runs:
  assumes wf: "dag_wf sp H0 V rk s" and "cp_inv sp H0 V P P m [] (wq, H)" "P \<subseteq> V"
  shows "\<exists>Q H'. whileE (\<lambda>(wq, H). wq \<noteq> []) (visit_node sp) (wq, H) = Inr ([], H') \<and> cp_inv sp H0 V Q Q m [] ([], H') \<and> Q \<subseteq> V"
  using assms(2,3)
proof (induction "card (V - P)" arbitrary: P wq H rule: less_induct)
  case less
  show ?case
  proof (cases wq)
    case Nil
    then show ?thesis using less.prems by auto
  next
    case (Cons n ws)
    from visit_node_step[OF wf less.prems(1)[unfolded Cons] less.prems(2)] obtain wq' H' where
      v: "visit_node sp (wq, H) = Inr (wq', H')" "cp_inv sp H0 V (insert n P) (insert n P) m [] (wq', H')" "n \<in> V" "n \<notin> P"
      unfolding Cons by blast
    have "finite V" using wf by (simp add: dag_wf_def)
    then have "card (V - insert n P) < card (V - P)" using v(3,4) by (intro psubset_card_mono) auto
    then obtain Q K where "whileE (\<lambda>(wq, H). wq \<noteq> []) (visit_node sp) (wq', H') = Inr ([], K) \<and> cp_inv sp H0 V Q Q m [] ([], K) \<and> Q \<subseteq> V"
      using less.hyps[OF _ v(2)] v(3) less.prems(2) by auto
    then show ?thesis using v(1) Cons by (auto simp: whileE_step)
  qed
qed

text \<open>With an empty queue every node has been done.\<close>

lemma search_complete:
  assumes wf: "dag_wf sp H0 V rk s" and inv: "cp_inv sp H0 V Q Q m [] ([], H)" "Q \<subseteq> V"
  shows "Q = V"
proof (rule ccontr)
  assume "Q \<noteq> V"
  then obtain v where v: "v \<in> V - Q" "\<And>w. rk w < rk v \<Longrightarrow> w \<notin> V - Q"
    using ex_has_least_nat[of "\<lambda>v. v \<in> V - Q" _ rk] inv(2) by (metis DiffI linorder_not_less psubsetI subsetI equalityI)
  have fin: "finite V" using wf by (simp add: dag_wf_def)
  have "cnt H0 u v = 0" if "u \<in> V - Q" for u
  proof (rule ccontr)
    assume "cnt H0 u v \<noteq> 0"
    then obtain e where "e \<in> set (outs H0 u)" "snd e = v" by (auto simp: cnt_def filter_empty_conv)
    then have "rk u < rk v" using wf that unfolding dag_wf_def by blast
    then show False using v(2) that by blast
  qed
  then have "in_edges H0 Q v = in_edges H0 V v"
    unfolding in_edges_def using fin inv(2) by (intro sum.mono_neutral_left) auto
  then have "v \<in> set []" using v(1) unfolding cp_inv_queue[OF inv(1)] by (simp add: seen_cnt_def)
  then show False by simp
qed


text \<open>The result of the search: the cost of a node is that of the most expensive path to it, and its predecessor is on such a path.\<close>

lemma cnt_pos: "e \<in> set (outs H u) \<Longrightarrow> 0 < cnt H u (snd e)"
  unfolding cnt_def by (rule length_pos_if_in_set[of e]) simp

lemma edge_in: "dag_wf sp H V rk s \<Longrightarrow> u \<in> V \<Longrightarrow> e \<in> set (outs H u) \<Longrightarrow> 0 < in_edges H V (snd e)"
  unfolding in_edges_def by (rule sum_pos2[of V u]) (auto simp: dag_wf_def cnt_pos)

lemma dag_path_in: "dag_wf sp H V rk s \<Longrightarrow> dag_path H u es v \<Longrightarrow> u \<in> V \<Longrightarrow> v \<in> V \<and> rk u \<le> rk v"
proof (induction es arbitrary: u)
  case (Cons e es)
  then have "snd e \<in> V" "rk u < rk (snd e)" unfolding dag_wf_def by auto
  with Cons show ?case by fastforce
qed simp

definition searched :: "bool \<Rightarrow> dag_heap \<Rightarrow> nat set \<Rightarrow> nat \<Rightarrow> dag_heap \<Rightarrow> bool" where
  "searched sp H V s K \<longleftrightarrow> same_graph H K \<and> cpc K s = 0 \<and> (\<forall>v es. dag_path H s es v \<longrightarrow> path_cost sp H s es \<le> cpc K v) \<and>
     (\<forall>v\<in>V. v \<noteq> s \<longrightarrow> (\<exists>u\<in>V. \<exists>e\<in>set (outs H u). snd e = v \<and> cpp K v = Some u \<and> cpe K v = edge_cost sp H u e \<and>
        cpc K v = cpc K u + edge_cost sp H u e))"

lemma update_longest:
  assumes wf: "dag_wf sp H V rk s" and vis: "\<forall>v\<in>V. dn_visited (dh_nodes H ! v) = 0"
  shows "\<exists>K. updateCriticalPath sp s H = Inr K \<and> searched sp H V s K"
proof -
  have "cp_inv sp H V {} {} m [] ([s], H)" for m
    using wf vis by (auto simp: cp_inv_def dag_wf_def seen_cnt_def in_edges_def seen_def)
  from search_runs[OF wf this] obtain Q K where
    run: "whileE (\<lambda>(wq, H). wq \<noteq> []) (visit_node sp) ([s], H) = Inr ([], K)" and
    q: "cp_inv sp H V Q Q s [] ([], K)" "Q \<subseteq> V" by blast
  have inv: "cp_inv sp H V V V s [] ([], K)" using q search_complete[OF wf q] by simp
  have s: "s \<in> V" "in_edges H V s = 0" using wf unfolding dag_wf_def by blast+
  have pred: "\<exists>u\<in>V. \<exists>e\<in>set (outs H u). snd e = v \<and> cpp K v = Some u \<and> cpe K v = edge_cost sp H u e \<and>
      cpc K v = cpc K u + edge_cost sp H u e" if v: "v \<in> V" "cpp K v \<noteq> None" for v
  proof -
    from v(2) obtain u where u: "cpp K v = Some u" by blast
    have "case cpp K v of None \<Rightarrow> cpc K v = 0
       | Some u \<Rightarrow> \<exists>e. seen H V s [] u e \<and> snd e = v \<and> cpc K v = cpc K u + edge_cost sp H u e \<and> cpe K v = edge_cost sp H u e"
      using inv v(1) unfolding cp_inv_def prod.case by blast
    then obtain e where "seen H V s [] u e" "snd e = v" "cpc K v = cpc K u + edge_cost sp H u e" "cpe K v = edge_cost sp H u e"
      unfolding u option.case by blast
    moreover then have "u \<in> V" "e \<in> set (outs H u)" by (simp_all add: seen_def)
    ultimately show ?thesis using u by blast
  qed
  have "cpc K s = 0"
  proof (cases "cpp K s")
    case None
    then show ?thesis using inv s(1) by (auto simp: cp_inv_def)
  next
    case (Some u)
    with pred[OF s(1)] show ?thesis using edge_in[OF wf] s(2) by fastforce
  qed
  moreover have ub: "cpc K u + path_cost sp H u es \<le> cpc K v" if "dag_path H u es v" "u \<in> V" for u es v
    using that
  proof (induction es arbitrary: u)
    case (Cons e es)
    then have e: "e \<in> set (outs H u)" "snd e \<in> V" using wf unfolding dag_wf_def by auto
    have "cpc K u + edge_cost sp H u e \<le> cpc K (snd e)" using cp_inv_bound[OF inv, of u e] e Cons.prems(2) by (simp add: seen_def)
    then show ?case using Cons.IH[of "snd e"] Cons.prems(1) e(2) by simp
  qed simp
  moreover have "cpp K v \<noteq> None" if "v \<in> V" "v \<noteq> s" for v
    using known_pred[OF wf inv _ that(1)] wf that unfolding dag_wf_def by (metis gr0I order_refl)
  moreover have "same_graph H K" using inv by (simp add: cp_inv_def)
  ultimately have "searched sp H V s K"
    unfolding searched_def using pred ub[OF _ s(1)] by (metis add_0)
  then show ?thesis using run by (auto simp: updateCriticalPath_def)
qed

subsection \<open>The extraction\<close>

inductive crit_path :: "bool \<Rightarrow> dag_heap \<Rightarrow> dag_heap \<Rightarrow> nat \<Rightarrow> (nat \<times> nat) list \<Rightarrow> nat \<Rightarrow> bool" for sp H K s where
  crit_nil: "crit_path sp H K s [] s"
| crit_snoc: "crit_path sp H K s es u \<Longrightarrow> e \<in> set (outs H u) \<Longrightarrow> cpp K (snd e) = Some u \<Longrightarrow> cpe K (snd e) = edge_cost sp H u e \<Longrightarrow>
    crit_path sp H K s (es @ [e]) (snd e)"

lemma crit_dag_path: "crit_path sp H K s es v \<Longrightarrow> dag_path H s es v"
  by (induction rule: crit_path.induct) (auto intro: dag_path_snoc)

lemma crit_path_exists:
  assumes wf: "dag_wf sp H V rk s" and se: "searched sp H V s K" and "v \<in> V"
  shows "\<exists>es. crit_path sp H K s es v \<and> path_cost sp H s es = cpc K v"
  using assms(3)
proof (induction "rk v" arbitrary: v rule: less_induct)
  case less
  show ?case
  proof (cases "v = s")
    case True
    then show ?thesis using se by (intro exI[of _ "[]"]) (simp add: searched_def crit_nil)
  next
    case False
    then obtain u e where u: "u \<in> V" "e \<in> set (outs H u)" "snd e = v" "cpp K v = Some u" "cpe K v = edge_cost sp H u e"
      "cpc K v = cpc K u + edge_cost sp H u e" using se less.prems unfolding searched_def by blast
    then have "rk u < rk v" using wf unfolding dag_wf_def by blast
    then obtain es where es: "crit_path sp H K s es u" "path_cost sp H s es = cpc K u"
      using less.hyps u(1) by blast
    show ?thesis
      using crit_snoc[OF es(1) u(2)] path_cost_snoc[OF crit_dag_path[OF es(1)]] u es(2)
      by (intro exI[of _ "es @ [e]"]) simp
  qed
qed

definition copy_node :: "bool \<Rightarrow> nat \<Rightarrow> DAGNode \<Rightarrow> DAGNode" where
  "copy_node sp i d = (mk_DAGNode i (dn_bb d) (if sp \<and> dn_xs_type d = XS_SP then XS_NONE else dn_xs_type d)
      (if sp \<and> dn_xs_type d = XS_SP then 0 else dn_xs_wcet d))
    \<lparr>dn_critical_path_predecessor_edge_cost := dn_critical_path_predecessor_edge_cost d, dn_expanded_loop := dn_expanded_loop d\<rparr>"

lemma copyInto_spec:
  assumes "n < length (dh_nodes L)"
  shows "copyInto sp n D L = Inr (length (dh_nodes L),
    D\<lparr>dag_nodes := dag_nodes D @ [length (dh_nodes L)], dag_bbnode := (if dn_expanded_loop (dh_nodes L ! n) then dag_bbnode D
       else (dag_bbnode D)(dn_bb (dh_nodes L ! n) \<mapsto> length (dh_nodes L)))\<rparr>,
    L\<lparr>dh_nodes := dh_nodes L @ [copy_node sp (dh_id_counter L) (dh_nodes L ! n)], dh_id_counter := uint32 (dh_id_counter L + 1)\<rparr>)"
  using assms
  by (auto simp: copyInto_def copyNode_def node_at_def new_DAGNode_def uniqueId_def upd_node_def copy_node_def setExpandedLoop_def
      mk_DAGNode_def nth_append list_update_append)


text \<open>The chain of copies of the nodes of a path, each with one edge, to the copy before it.\<close>

definition is_copy :: "bool \<Rightarrow> DAGNode \<Rightarrow> DAGNode \<Rightarrow> bool" where
  "is_copy sp d e \<longleftrightarrow> dn_bb e = dn_bb d \<and> dn_xs_type e = (if sp \<and> dn_xs_type d = XS_SP then XS_NONE else dn_xs_type d) \<and>
     dn_xs_wcet e = (if sp \<and> dn_xs_type d = XS_SP then 0 else dn_xs_wcet d)"

fun copy_chain :: "bool \<Rightarrow> dag_heap \<Rightarrow> dag_heap \<Rightarrow> nat \<Rightarrow> nat \<Rightarrow> (nat \<times> nat) list \<Rightarrow> nat \<Rightarrow> bool" where
  "copy_chain sp H L u c [] tc \<longleftrightarrow> c = tc \<and> c < length (dh_nodes L) \<and> is_copy sp (dh_nodes H ! u) (dh_nodes L ! c) \<and> outs L c = []"
| "copy_chain sp H L u c (e # es) tc \<longleftrightarrow> c \<noteq> tc \<and> c < length (dh_nodes L) \<and> is_copy sp (dh_nodes H ! u) (dh_nodes L ! c) \<and>
     (\<exists>c'. outs L c = [(edge_cost sp H u e, c')] \<and> copy_chain sp H L (snd e) c' es tc)"

lemma copy_chain_mono:
  assumes "copy_chain sp H L u c es tc" "length (dh_nodes L) \<le> length (dh_nodes L')"
    "\<And>p. p < length (dh_nodes L) \<Longrightarrow> outs L' p = outs L p \<and> dn_bb (dh_nodes L' ! p) = dn_bb (dh_nodes L ! p) \<and>
       dn_xs_type (dh_nodes L' ! p) = dn_xs_type (dh_nodes L ! p) \<and> dn_xs_wcet (dh_nodes L' ! p) = dn_xs_wcet (dh_nodes L ! p)"
  shows "copy_chain sp H L' u c es tc"
  using assms(1)
proof (induction es arbitrary: u c)
  case Nil
  then show ?case using assms(2) assms(3)[of c] by (auto simp: is_copy_def)
next
  case (Cons e es)
  then show ?case using assms(2) assms(3)[of c] by (auto simp: is_copy_def)
qed

definition extracted :: "bool \<Rightarrow> dag_heap \<Rightarrow> dag_heap \<Rightarrow> nat \<Rightarrow> nat \<Rightarrow> (nat \<times> nat) list \<Rightarrow> extract_state \<Rightarrow> bool" where
  "extracted sp H K t tc fs = (\<lambda>(n, cp, D, L).
     length (dh_nodes K) \<le> length (dh_nodes L) \<and> (\<forall>p<length (dh_nodes K). dh_nodes L ! p = dh_nodes K ! p) \<and>
     copy_chain sp H L n cp fs tc \<and> length (dh_nodes K) \<le> cp \<and> cp < length (dh_nodes L) \<and> tc < length (dh_nodes L) \<and>
     cpe L cp = cpe K n \<and> dag_bbnode D (dn_bb (dh_nodes H ! t)) = Some tc \<and>
     (\<not> dn_expanded_loop (dh_nodes H ! n) \<longrightarrow> dag_bbnode D (dn_bb (dh_nodes H ! n)) = Some cp))"

text \<open>Node \<open>p\<close> can be found by its block.\<close>

definition findable :: "dag_heap \<Rightarrow> nat set \<Rightarrow> nat \<Rightarrow> bool" where
  "findable H V p \<longleftrightarrow> \<not> dn_expanded_loop (dh_nodes H ! p) \<and>
     (\<forall>u\<in>V. \<not> dn_expanded_loop (dh_nodes H ! u) \<longrightarrow> dn_bb (dh_nodes H ! u) = dn_bb (dh_nodes H ! p) \<longrightarrow> u = p)"

lemma extract_one:
  assumes wf: "dag_wf sp H V rk s" and sg: "same_graph H K" and x: "extracted sp H K t tc fs (snd e, cp, D, L)"
    and u: "u \<in> V" "e \<in> set (outs H u)" "cpp K (snd e) = Some u" "cpe K (snd e) = edge_cost sp H u e"
    and t: "findable H V t" "u \<noteq> t"
  shows "\<exists>cp' D' L'. extract_step sp (snd e, cp, D, L) = Inr (u, cp', D', L') \<and> extracted sp H K t tc (e # fs) (u, cp', D', L')"
proof -
  have v: "snd e \<in> V" using wf u(1,2) unfolding dag_wf_def by blast
  then have lv: "snd e < length (dh_nodes K)" "u < length (dh_nodes K)"
    using wf sg u(1) unfolding dag_wf_def same_graph_def by auto
  have xl: "length (dh_nodes K) \<le> length (dh_nodes L)" "\<forall>p<length (dh_nodes K). dh_nodes L ! p = dh_nodes K ! p"
    "copy_chain sp H L (snd e) cp fs tc" "length (dh_nodes K) \<le> cp" "cp < length (dh_nodes L)" "tc < length (dh_nodes L)"
    "cpe L cp = cpe K (snd e)" "dag_bbnode D (dn_bb (dh_nodes H ! t)) = Some tc"
    using x by (simp_all add: extracted_def)
  let ?n = "length (dh_nodes L)"
  have uL: "dh_nodes L ! u = dh_nodes K ! u" "dh_nodes L ! snd e = dh_nodes K ! snd e" using xl(2) lv by simp_all
  have su: "same_node (dh_nodes H ! u) (dh_nodes K ! u)" using sg lv(2) by (simp add: same_graph_def)
  let ?c = "copy_node sp (dh_id_counter L) (dh_nodes K ! u)"
  let ?D = "D\<lparr>dag_nodes := dag_nodes D @ [?n], dag_bbnode := (if dn_expanded_loop (dh_nodes K ! u) then dag_bbnode D
     else (dag_bbnode D)(dn_bb (dh_nodes K ! u) \<mapsto> ?n))\<rparr>"
  let ?k = "(dh_nodes L ! cp)\<lparr>dn_indegree := uint32 (dn_indegree (dh_nodes L ! cp) + 1)\<rparr>"
  let ?L = "L\<lparr>dh_nodes := (dh_nodes L)[cp := ?k] @ [?c\<lparr>dn_out := [(edge_cost sp H u e, cp)]\<rparr>], dh_id_counter := uint32 (dh_id_counter L + 1)\<rparr>"
  have ci: "copyInto sp u D L = Inr (?n, ?D, L\<lparr>dh_nodes := dh_nodes L @ [?c], dh_id_counter := uint32 (dh_id_counter L + 1)\<rparr>)"
    using copyInto_spec[of u L sp D] lv xl(1) uL by simp
  have step: "extract_step sp (snd e, cp, D, L) = Inr (u, ?n, ?D, ?L)"
    using lv xl u(3,4) uL
    by (simp add: extract_step_def node_at_def ptrE_def ci nth_append addOut_def upd_node_def list_update_append copy_node_def mk_DAGNode_def)
  have nth: "dh_nodes ?L ! p = (if p = cp then ?k else dh_nodes L ! p)" if "p < ?n" for p
    using that xl(5) by (simp add: nth_append)
  have "copy_chain sp H ?L (snd e) cp fs tc"
    by (rule copy_chain_mono[OF xl(3)]) (simp_all add: nth[simplified] )
  then have "copy_chain sp H ?L u ?n (e # fs) tc"
    using xl(6) su by (auto simp: is_copy_def copy_node_def mk_DAGNode_def same_node_def nth_append)
  moreover have "dag_bbnode ?D (dn_bb (dh_nodes H ! t)) = Some tc"
    using xl(8) su t u(1) unfolding findable_def same_node_def by auto
  moreover have "\<forall>p<length (dh_nodes K). dh_nodes ?L ! p = dh_nodes K ! p"
    using xl(1,2,4) by (auto simp: nth[simplified])
  ultimately have "extracted sp H K t tc (e # fs) (u, ?n, ?D, ?L)"
    using xl su unfolding extracted_def prod.case by (simp add: copy_node_def nth_append same_node_def)
  then show ?thesis using step by blast
qed

lemma extract_run:
  assumes wf: "dag_wf sp H V rk s" and sg: "same_graph H K" and t: "findable H V t" "t \<in> V"
    and cp: "crit_path sp H K s es n" and x: "extracted sp H K t tc fs (n, cp, D, L)" "rk n \<le> rk t"
  shows "\<exists>cp' D' L'. whileE (\<lambda>(n, st). n \<noteq> s) (extract_step sp) (n, cp, D, L) = Inr (s, cp', D', L') \<and>
    extracted sp H K t tc (es @ fs) (s, cp', D', L')"
  using cp x
proof (induction arbitrary: fs cp D L rule: crit_path.induct)
  case crit_nil
  then show ?case by simp
next
  case (crit_snoc es u e)
  have s: "s \<in> V" "in_edges H V s = 0" using wf unfolding dag_wf_def by blast+
  have u: "u \<in> V" using dag_path_in[OF wf crit_dag_path[OF crit_snoc.hyps(1)] s(1)] by simp
  have ne: "snd e \<noteq> s" using edge_in[OF wf u crit_snoc.hyps(2)] s(2) by auto
  have rk: "rk u < rk (snd e)" using wf u crit_snoc.hyps(2) unfolding dag_wf_def by blast
  with crit_snoc.prems(2) have ut: "u \<noteq> t" by auto
  from extract_one[OF wf sg crit_snoc.prems(1) u crit_snoc.hyps(2-4) t(1) ut] obtain cp' D' L' where
    st: "extract_step sp (snd e, cp, D, L) = Inr (u, cp', D', L')" "extracted sp H K t tc (e # fs) (u, cp', D', L')" by blast
  have "whileE (\<lambda>(n, st). n \<noteq> s) (extract_step sp) (snd e, cp, D, L) = whileE (\<lambda>(n, st). n \<noteq> s) (extract_step sp) (u, cp', D', L')"
    by (rule whileE_step[where c = "extract_step sp"]) (use ne st(1) in simp_all)
  with crit_snoc.IH[OF st(2)] rk crit_snoc.prems(2) show ?case by auto
qed


subsection \<open>The whole function\<close>

lemma reset_runs:
  assumes "\<forall>v\<in>set (dag_nodes D). v < length (dh_nodes H)"
  shows "\<exists>K. dag_resetVisited D H = Inr K \<and> same_graph H K \<and> (\<forall>p. cpp K p = cpp H p \<and> cpc K p = cpc H p) \<and>
    (\<forall>v\<in>set (dag_nodes D). dn_visited (dh_nodes K ! v) = 0)"
proof -
  let ?I = "\<lambda>ys K. same_graph H K \<and> (\<forall>p. cpp K p = cpp H p \<and> cpc K p = cpc H p) \<and> (\<forall>v\<in>set ys. dn_visited (dh_nodes K ! v) = 0)"
  have "\<exists>K. for_eachE (\<lambda>n. upd_node n (\<lambda>d. d\<lparr>dn_visited := 0\<rparr>)) (dag_nodes D) H = Inr K \<and> ?I (dag_nodes D) K"
proof (rule for_eachE_rule[where I = ?I], goal_cases)
  case (2 ys x zs K)
  then have x: "x < length (dh_nodes K)" using assms by (auto simp: same_graph_def)
  then have r: "upd_node x (\<lambda>d. d\<lparr>dn_visited := 0\<rparr>) K = Inr (K\<lparr>dh_nodes := (dh_nodes K)[x := (dh_nodes K ! x)\<lparr>dn_visited := 0\<rparr>]\<rparr>)"
    by (simp add: upd_node_def)
  have nth: "(dh_nodes K)[x := (dh_nodes K ! x)\<lparr>dn_visited := 0\<rparr>] ! p = (if p = x then (dh_nodes K ! x)\<lparr>dn_visited := 0\<rparr> else dh_nodes K ! p)" for p
    using x by (cases "p < length (dh_nodes K)") (auto simp: nth_list_update)
  show ?case using 2(2) x r by (auto simp: nth same_graph_def same_node_def)
qed simp
  then show ?thesis by (simp add: dag_resetVisited_def)
qed

lemma same_graph_paths:
  assumes "dag_wf sp H V rk s" "same_graph H K" "u \<in> V"
  shows "dag_path K u es v = dag_path H u es v" "path_cost sp K u es = path_cost sp H u es \<or> \<not> dag_path H u es v"
proof -
  have o: "outs K w = outs H w" "edge_cost sp K w e = edge_cost sp H w e" if "w \<in> V" for w e
    using assms(1,2) that unfolding dag_wf_def same_graph_def same_node_def by (auto simp: edge_cost_def)
  have c: "b \<in> V" if "(a, b) \<in> set (outs H w)" "w \<in> V" for w a b using assms(1) that unfolding dag_wf_def by fastforce
  show "dag_path K u es v = dag_path H u es v"
    using assms(3) by (induction es arbitrary: u) (auto simp: o dest: c)
  show "path_cost sp K u es = path_cost sp H u es \<or> \<not> dag_path H u es v"
  proof (rule disjCI, simp)
    assume "dag_path H u es v"
    with assms(3) show "path_cost sp K u es = path_cost sp H u es"
      by (induction es arbitrary: u) (auto simp: o dest: c)
  qed
qed

lemma same_graph_wf:
  assumes wf: "dag_wf sp H V rk s" and sg: "same_graph H K" and "\<forall>v\<in>V. cpp K v = cpp H v \<and> cpc K v = cpc H v"
  shows "dag_wf sp K V rk s"
proof -
  have o: "outs K w = outs H w" "edge_cost sp K w e = edge_cost sp H w e" "dn_indegree (dh_nodes K ! w) = dn_indegree (dh_nodes H ! w)"
    if "w \<in> V" for w e
    using wf sg that unfolding dag_wf_def same_graph_def same_node_def by (auto simp: edge_cost_def)
  have i: "in_edges K V v = in_edges H V v" for v
    unfolding in_edges_def by (intro sum.cong) (simp_all add: cnt_def o)
  have s: "s \<in> V" using wf by (simp add: dag_wf_def)
  have "path_cost sp K s es < 2 ^ 64" if "dag_path K s es v" for es v
    using same_graph_paths[OF wf sg s, of es v] that wf unfolding dag_wf_def by metis
  then show ?thesis
    using wf sg assms(3) unfolding dag_wf_def i by (auto simp: o same_graph_def)
qed

text \<open>
  The critical path is a most expensive path. For a graph of basic blocks without cycles, every node of which can be
  reached from the source, with edges of positive cost and every cost in its range, \<open>criticalPath\<close> returns, and what it
  returns is a chain of copies of the nodes of a path from the source to the sink, with the costs of its edges, such
  that no other path from the source to the sink costs more. Where accesses to the scratchpad count as computation their
  costs are on the edges and no longer on the copies.
\<close>

lemma critical_path_longest:
  assumes wf: "dag_wf sp H V rk s" and D: "dag_source D = Some s" "dag_sink D = Some t" "set (dag_nodes D) = V"
    and t: "t \<in> V" "t \<noteq> s" and f: "findable H V s" "findable H V t"
  shows "\<exists>es D' H' s' t'. criticalPath sp D H = Inr (D', H') \<and> dag_path H s es t \<and>
    (\<forall>fs. dag_path H s fs t \<longrightarrow> path_cost sp H s fs \<le> path_cost sp H s es) \<and>
    dag_source D' = Some s' \<and> dag_sink D' = Some t' \<and> copy_chain sp H H' s s' es t'"
proof -
  have V: "\<forall>v\<in>V. v < length (dh_nodes H)" and s: "s \<in> V" using wf by (simp_all add: dag_wf_def)
  from reset_runs[of D H] V D(3) obtain H1 where r: "dag_resetVisited D H = Inr H1" "same_graph H H1"
    "\<forall>p. cpp H1 p = cpp H p \<and> cpc H1 p = cpc H p" "\<forall>v\<in>V. dn_visited (dh_nodes H1 ! v) = 0" by auto
  have wf1: "dag_wf sp H1 V rk s" using same_graph_wf[OF wf r(2)] r(3) by simp
  from update_longest[OF wf1 r(4)] obtain K where k: "updateCriticalPath sp s H1 = Inr K" "searched sp H1 V s K" by blast
  from crit_path_exists[OF wf1 k(2) t(1)] obtain es where es: "crit_path sp H1 K s es t" "path_cost sp H1 s es = cpc K t" by blast
  have sg: "same_graph H1 K" "same_graph H K" using k(2) r(2) by (auto simp: searched_def intro: same_graph_trans)
  have ft: "findable H1 V t" using f(2) r(2) V t(1) unfolding findable_def same_graph_def same_node_def by auto
  have tK: "t < length (dh_nodes K)" "s < length (dh_nodes K)" using V t(1) s sg(2) by (auto simp: same_graph_def)
  have nt: "same_node (dh_nodes H1 ! t) (dh_nodes K ! t)" "same_node (dh_nodes H1 ! s) (dh_nodes K ! s)"
    using sg V t(1) s by (auto simp: same_graph_def)
  have ex: "\<not> dn_expanded_loop (dh_nodes K ! t)" using ft nt by (simp add: findable_def same_node_def)
  obtain D0 L0 where c0: "copyInto sp t new_DAG K = Inr (length (dh_nodes K), D0, L0)"
    "extracted sp H1 K t (length (dh_nodes K)) [] (t, length (dh_nodes K), D0, L0)"
    using copyInto_spec[OF tK(1), of sp new_DAG] nt ex
    by (auto simp: extracted_def is_copy_def copy_node_def mk_DAGNode_def same_node_def nth_append)
  from extract_run[OF wf1 sg(1) ft t(1) es(1) c0(2)] obtain cp D' L where
    ext: "whileE (\<lambda>(n, st). n \<noteq> s) (extract_step sp) (t, length (dh_nodes K), D0, L0) = Inr (s, cp, D', L)"
    "extracted sp H1 K t (length (dh_nodes K)) (es @ []) (s, cp, D', L)" by auto
  have "extractPath sp s t K = Inr (s, cp, D', L)"
  proof -
    have "do_whileE (extract_step sp) (\<lambda>(n, s'). n \<noteq> s) (t, length (dh_nodes K), D0, L0) =
        whileE (\<lambda>(n, st). n \<noteq> s) (extract_step sp) (t, length (dh_nodes K), D0, L0)"
      unfolding do_whileE_def whileE_unfold[of _ _ "(t, length (dh_nodes K), D0, L0)"] using t(2) by simp
    then show ?thesis using c0(1) ext(1) by (simp add: extractPath_def)
  qed
  moreover have at: "node_at L s = Inr (dh_nodes K ! s)" "node_at L t = Inr (dh_nodes K ! t)"
    using ext(2) tK by (auto simp: extracted_def node_at_def)
  moreover have "dag_bbnode D' (dn_bb (dh_nodes K ! t)) = Some (length (dh_nodes K))" "dag_bbnode D' (dn_bb (dh_nodes K ! s)) = Some cp"
    using ext(2) nt f(1) r(2) V s unfolding extracted_def findable_def same_node_def same_graph_def by auto
  ultimately have run: "criticalPath sp D H = Inr (D'\<lparr>dag_source := Some cp, dag_sink := Some (length (dh_nodes K))\<rparr>, L)"
    using D r(1) k(1) by (simp add: criticalPath_def ptrE_def setSource_def setSink_def)
  have p: "dag_path H1 s fs v = dag_path H s fs v" "path_cost sp H1 s fs = path_cost sp H s fs \<or> \<not> dag_path H s fs v" for fs v
    using same_graph_paths[OF wf r(2) s] by auto
  have path: "dag_path H s es t" using crit_dag_path[OF es(1)] p by simp
  moreover have "path_cost sp H s fs \<le> path_cost sp H s es" if "dag_path H s fs t" for fs
    using k(2) es(2) p(1)[of fs t] p(2)[of fs t] p(2)[of es t] that path unfolding searched_def by metis
  moreover have "copy_chain sp H L s cp es (length (dh_nodes K))"
  proof -
    have "copy_chain sp H1 L s cp es (length (dh_nodes K))" using ext(2) by (simp add: extracted_def)
    moreover have "copy_chain sp H1 L u c fs tc \<Longrightarrow> u \<in> V \<Longrightarrow> dag_path H u fs t \<Longrightarrow> copy_chain sp H L u c fs tc" for u c fs tc
    proof (induction fs arbitrary: u c)
      case Nil
      then have "same_node (dh_nodes H ! u) (dh_nodes H1 ! u)" using r(2) V by (simp add: same_graph_def)
      then show ?case using Nil by (auto simp: is_copy_def same_node_def)
    next
      case (Cons e fs)
      then have n: "same_node (dh_nodes H ! u) (dh_nodes H1 ! u)" using r(2) V by (simp add: same_graph_def)
      have "snd e \<in> V" using Cons.prems(2,3) wf unfolding dag_wf_def by auto
      then show ?case using Cons n by (auto simp: is_copy_def same_node_def edge_cost_def)
    qed
    ultimately show ?thesis using s path by blast
  qed
  ultimately show ?thesis using run by (intro exI[of _ es] exI conjI allI impI) auto
qed

end
