(* ===== verification/Phase_List.thy ===== *)
theory Phase_List
  imports Critical_Path Constmath
begin

text \<open>
  \<open>isa/model/ProgramPhaseList.h\<close> and \<open>ProgramPhaseList.cpp\<close>: the phases of the critical path, in turn execution and
  memory access, and the bounds on the execution time of a kernel computed from them. The theory \<open>Wcet\<close> compares
  the main bound with the schedules it is for.
\<close>

datatype program_phase = PHASE_ACCESS_DRAM | PHASE_ACCESS_SP | PHASE_EXECUTE

text \<open>The constructor. The state of the loop is the node, the time not yet in a phase and the phases.\<close>

type_synonym phases = "(program_phase \<times> nat) list"

definition phase_step :: "dag_heap \<Rightarrow> nat \<times> nat \<times> phases \<Rightarrow> (nat \<times> nat \<times> phases) res" where
  "phase_step H = (\<lambda>(n, execute, phases).
    bindE (node_at H n) (\<lambda>d.
    if length (dn_out d) > 1 then Inl Invalid_Argument
    else case dn_out d of [] \<Rightarrow> Inl Invalid_Access
    | edge # _ \<Rightarrow>
        let execute = ulong (execute + fst edge) in
        if dn_xs_type d \<noteq> XS_NONE then
          Inr (snd edge, 0, phases @ [(PHASE_EXECUTE, execute),
            (if dn_xs_type d = XS_SP then PHASE_ACCESS_SP else PHASE_ACCESS_DRAM, dn_xs_wcet d)])
        else Inr (snd edge, execute, phases)))"

definition ProgramPhaseList :: "DAG \<Rightarrow> nat \<Rightarrow> dag_heap \<Rightarrow> phases res" where
  "ProgramPhaseList dag pipe_depth H =
    bindE (ptrE (dag_source dag)) (\<lambda>n.
    bindE (whileE (\<lambda>(n, st). Some n \<noteq> dag_sink dag) (phase_step H) (n, pipe_depth, [])) (\<lambda>(n, execute, phases). Inr phases))"

text \<open>An element past the end of the list of phases has no value.\<close>

definition phase_cost :: "phases \<Rightarrow> nat \<Rightarrow> nat res" where
  "phase_cost ps i = (if i < length ps then Inr (snd (ps ! i)) else Inl Invalid_Access)"

definition wcet_1t :: "phases \<Rightarrow> nat" where
  "wcet_1t ps = for_upto (length ps) (\<lambda>i w. ulong (w + snd (ps ! i))) 0"

definition wcet_interleaved :: "phases \<Rightarrow> nat" where
  "wcet_interleaved ps = for_upto (length ps) (\<lambda>i w. ulong (w + max (snd (ps ! i)) (snd (ps ! ((i + 1) mod length ps))))) 0"

definition WCET :: "phases \<Rightarrow> nat \<Rightarrow> nat res" where
  "WCET ps workgroups =
    (let w = ulong (wcet_interleaved ps * drop_bit 1 workgroups) in
     if workgroups mod 2 \<noteq> 0 then Inr (ulong (w + wcet_1t ps))
     else bindE (phase_cost ps 0) (\<lambda>a. bindE (if ps = [] then Inl Invalid_Access else phase_cost ps (length ps - 1)) (\<lambda>b.
       Inr (ulong (w + min a b)))))"

text \<open>\<open>inflate_refresh\<close> is an argument: the refreshes of the memory are in another theory.\<close>

definition phase_total :: "phases \<Rightarrow> program_phase \<Rightarrow> nat" where
  "phase_total ps k = for_upto (length ps) (\<lambda>i w. if fst (ps ! i) = k then ulong (w + snd (ps ! i)) else w) 0"

definition PerfectParallelismWCETLB :: "(nat \<Rightarrow> nat) \<Rightarrow> phases \<Rightarrow> nat \<Rightarrow> nat" where
  "PerfectParallelismWCETLB inflate ps workgroups =
    fold (\<lambda>k w. max w (let c = ulong (phase_total ps k * workgroups) in if k = PHASE_ACCESS_DRAM then inflate c else c))
      [PHASE_ACCESS_DRAM, PHASE_ACCESS_SP, PHASE_EXECUTE] 0"

definition DoubleBufferedWCETLB :: "phases \<Rightarrow> nat \<Rightarrow> nat" where
  "DoubleBufferedWCETLB ps workgroups = ulong (wcet_1t ps * div_round_up workgroups 2)"

definition SingleBufferedWCET :: "phases \<Rightarrow> nat \<Rightarrow> nat" where
  "SingleBufferedWCET ps workgroups = ulong (wcet_1t ps * workgroups)"

definition countPhases :: "phases \<Rightarrow> nat" where
  "countPhases ps = length ps"

subsection \<open>The phases of a chain\<close>

text \<open>The phases of a path, and what the time after the last access adds up to.\<close>

fun path_phases :: "bool \<Rightarrow> dag_heap \<Rightarrow> nat \<Rightarrow> nat \<Rightarrow> (nat \<times> nat) list \<Rightarrow> phases" where
  "path_phases sp H x u [] = []"
| "path_phases sp H x u (e # es) =
    (let d = dh_nodes H ! u; x = x + edge_cost sp H u e in
     if dn_xs_type d = XS_NONE \<or> (sp \<and> dn_xs_type d = XS_SP) then path_phases sp H x (snd e) es
     else (PHASE_EXECUTE, x) # (if dn_xs_type d = XS_SP then PHASE_ACCESS_SP else PHASE_ACCESS_DRAM, dn_xs_wcet d) #
       path_phases sp H 0 (snd e) es)"

lemma phase_list_chain:
  assumes "copy_chain sp H L u c es t" "x + path_cost sp H u es < 2 ^ 64"
  shows "\<exists>y. whileE (\<lambda>(n, st). Some n \<noteq> Some t) (phase_step L) (c, x, ps) = Inr (t, y, ps @ path_phases sp H x u es)"
  using assms
proof (induction es arbitrary: u c x ps)
  case Nil
  then show ?case by simp
next
  case (Cons e es)
  obtain c' where c: "c \<noteq> t" "c < length (dh_nodes L)" "is_copy sp (dh_nodes H ! u) (dh_nodes L ! c)"
    "outs L c = [(edge_cost sp H u e, c')]" "copy_chain sp H L (snd e) c' es t" using Cons.prems(1) by auto
  have small: "ulong (x + edge_cost sp H u e) = x + edge_cost sp H u e" using Cons.prems(2) by simp
  let ?d = "dh_nodes H ! u" and ?x = "x + edge_cost sp H u e"
  show ?case
  proof (cases "dn_xs_type ?d = XS_NONE \<or> (sp \<and> dn_xs_type ?d = XS_SP)")
    case True
    then have "phase_step L (c, x, ps) = Inr (c', ?x, ps)"
      using c small by (auto simp: phase_step_def node_at_def is_copy_def)
    then have "whileE (\<lambda>(n, st). Some n \<noteq> Some t) (phase_step L) (c, x, ps) =
        whileE (\<lambda>(n, st). Some n \<noteq> Some t) (phase_step L) (c', ?x, ps)"
      using c(1) by (subst whileE_unfold) simp
    then show ?thesis using Cons.IH[OF c(5), of ?x ps] Cons.prems(2) True by (auto simp: add.assoc)
  next
    case False
    let ?ps = "ps @ [(PHASE_EXECUTE, ?x), (if dn_xs_type ?d = XS_SP then PHASE_ACCESS_SP else PHASE_ACCESS_DRAM, dn_xs_wcet ?d)]"
    have "phase_step L (c, x, ps) = Inr (c', 0, ?ps)"
      using c small False by (auto simp: phase_step_def node_at_def is_copy_def)
    then have "whileE (\<lambda>(n, st). Some n \<noteq> Some t) (phase_step L) (c, x, ps) =
        whileE (\<lambda>(n, st). Some n \<noteq> Some t) (phase_step L) (c', 0, ?ps)"
      using c(1) by (subst whileE_unfold) simp
    moreover have "path_phases sp H x u (e # es) = drop (length ps) ?ps @ path_phases sp H 0 (snd e) es"
      using False by (auto simp: Let_def)
    ultimately show ?thesis using Cons.IH[OF c(5), of 0 ?ps] Cons.prems(2) by (simp del: path_phases.simps)
  qed
qed

text \<open>Phases alternate: execution and access in turn.\<close>

fun alternating :: "phases \<Rightarrow> bool" where
  "alternating [] \<longleftrightarrow> True"
| "alternating [p] \<longleftrightarrow> False"
| "alternating (p # q # ps) \<longleftrightarrow> fst p = PHASE_EXECUTE \<and> fst q \<noteq> PHASE_EXECUTE \<and> alternating ps"

lemma path_phases_alternating: "alternating (path_phases sp H x u es)"
  by (induction es arbitrary: x u) (auto simp: Let_def)


text \<open>The time of the accesses on a path that are phases, and the time of execution behind the last of them.\<close>

fun path_access :: "bool \<Rightarrow> dag_heap \<Rightarrow> nat \<Rightarrow> (nat \<times> nat) list \<Rightarrow> nat" where
  "path_access sp H u [] = 0"
| "path_access sp H u (e # es) = (if dn_xs_type (dh_nodes H ! u) = XS_NONE \<or> (sp \<and> dn_xs_type (dh_nodes H ! u) = XS_SP) then 0
     else dn_xs_wcet (dh_nodes H ! u)) + path_access sp H (snd e) es"

fun path_tail :: "bool \<Rightarrow> dag_heap \<Rightarrow> nat \<Rightarrow> nat \<Rightarrow> (nat \<times> nat) list \<Rightarrow> nat" where
  "path_tail sp H x u [] = x"
| "path_tail sp H x u (e # es) =
    path_tail sp H (if dn_xs_type (dh_nodes H ! u) = XS_NONE \<or> (sp \<and> dn_xs_type (dh_nodes H ! u) = XS_SP) then x + edge_cost sp H u e else 0)
      (snd e) es"

lemma path_phases_total:
  "sum_list (map snd (path_phases sp H x u es)) + path_tail sp H x u es = x + path_cost sp H u es + path_access sp H u es"
  by (induction es arbitrary: x u) (simp_all add: Let_def)

text \<open>
  From the graph to the phases: the critical path of a graph turns into a list of phases, execution and access in
  turn, that add up to the pipeline's depth, the cost of a most expensive path and the accesses of its nodes, the
  sink's excluded; only the execution behind the last access is in no phase.
\<close>

lemma kernel_phases:
  assumes "dag_wf sp H V rk s" "dag_source D = Some s" "dag_sink D = Some t" "set (dag_nodes D) = V"
    and "t \<in> V" "t \<noteq> s" "findable H V s" "findable H V t" and "\<And>es. dag_path H s es t \<Longrightarrow> depth + path_cost sp H s es < 2 ^ 64"
  shows "\<exists>D' H' ps es. criticalPath sp D H = Inr (D', H') \<and> ProgramPhaseList D' depth H' = Inr ps \<and> alternating ps \<and>
    dag_path H s es t \<and> (\<forall>fs. dag_path H s fs t \<longrightarrow> path_cost sp H s fs \<le> path_cost sp H s es) \<and>
    sum_list (map snd ps) + path_tail sp H depth s es = depth + path_cost sp H s es + path_access sp H s es"
proof -
  from critical_path_longest[OF assms(1-8)] obtain es D' H' s' t' where
    r: "criticalPath sp D H = Inr (D', H')" "dag_path H s es t" "\<forall>fs. dag_path H s fs t \<longrightarrow> path_cost sp H s fs \<le> path_cost sp H s es"
      "dag_source D' = Some s'" "dag_sink D' = Some t'" "copy_chain sp H H' s s' es t'" by blast
  from phase_list_chain[OF r(6) assms(9)[OF r(2)], of "[]"] obtain y where
    "whileE (\<lambda>(n, st). Some n \<noteq> Some t') (phase_step H') (s', depth, []) = Inr (t', y, path_phases sp H depth s es)" by auto
  then have "ProgramPhaseList D' depth H' = Inr (path_phases sp H depth s es)"
    using r(4,5) by (simp add: ProgramPhaseList_def ptrE_def)
  then show ?thesis using r path_phases_alternating path_phases_total[of sp H depth s es]
    by (intro exI[of _ D'] exI[of _ H'] exI[of _ "path_phases sp H depth s es"] exI[of _ es] conjI) auto
qed

end
