(* ===== verification/Wcet.thy ===== *)
theory Wcet
  imports Phase_List
begin

text \<open>
  The worst-case bound of \<open>ProgramPhaseList::WCET\<close> against the schedules it is for: two work-groups are active, they take
  turns on the execution units and on the memories, and each slot takes the next work-group when the last one is done.
\<close>

subsection \<open>Schedules\<close>


definition waits_turn :: "nat \<Rightarrow> nat \<Rightarrow> nat \<Rightarrow> nat \<Rightarrow> (nat \<times> nat) list" where
  "waits_turn W n g i = (if odd g then [(g - 1, i)] else if 2 \<le> i then (if g + 1 < W then [(g + 1, i - 2)] else [])
     else if 0 < g then [(g - 1, n - 2 + i)] else [])"



text \<open>The turns are turns on one unit.\<close>

lemma alternating_length: "alternating ps \<Longrightarrow> even (length ps)"
  by (induction ps rule: alternating.induct) simp_all

lemma alternating_nth: "alternating ps \<Longrightarrow> i < length ps \<Longrightarrow> fst (ps ! i) = PHASE_EXECUTE \<longleftrightarrow> even i"
proof (induction ps arbitrary: i rule: alternating.induct)
  case (3 p q ps)
  then show ?case by (cases i; cases "i - 1") auto
qed simp_all

lemma turns_same_unit:
  assumes "alternating ps" "i < length ps" "(h, j) \<in> set (waits_turn W (length ps) g i)"
  shows "j < length ps \<and> (fst (ps ! j) = PHASE_EXECUTE \<longleftrightarrow> fst (ps ! i) = PHASE_EXECUTE)"
proof -
  have "j < length ps \<and> (even j \<longleftrightarrow> even i)"
    using assms alternating_length[OF assms(1)] by (auto simp: waits_turn_def split: if_splits)
  then show ?thesis using alternating_nth[OF assms(1)] assms(2) by simp
qed

subsection \<open>Steps\<close>












subsection \<open>The length of all steps\<close>













subsection \<open>The bound\<close>













end
