(* ===== verification/Spec2Isabelle.thy ===== *)
theory Spec2Isabelle
  imports Launch Thread_Ids Reg_Props Score_Board Ctrl_Stack Ringbuffer Stride_Props Storage_Props Mc_Frontend DQ_Props DQ_Read DQ_Write Mc_CmdArb Arb_Props Arb_Bus Isa_Op Isa_Operand Isa_Instruction Isa_Props Exec_State Exec_Alu Exec_Mem Exec_Stage Exec_Aborts Exec_Sibfind Exec_Pipe Exec_Cycle Exec_Jump Exec_Tickets Exec_Tile Instr_Fetch Simd_Cluster Decode Decode_1S Decode_3S Sp_Array Sp_Stride Sp_System Loop_Res Prog_Dag Critical_Path Phase_List Wcet
begin

text \<open>
  Sim-D is a cycle-accurate simulator of a SIMD processor for hard real-time systems, written in C++ on SystemC. A
  program is a kernel: a list of instructions, a two-dimensional index space of threads and tables of
  buffers. The work scheduler uploads it and cuts the index space into work-groups. A SIMD cluster holds two
  work-groups at a time, runs them through fetch, decode and execute stage, and hands their loads and stores to the
  memory controller and the scratchpads, which move the words of a stride to and from the register file. An analysis
  of the program bounds its execution time. This development models these parts and proves what makes them
  correct. Paths below are relative to \<open>src/src\<close>, those of data that several parts share to \<open>src/include\<close>.

  \<^bold>\<open>Method.\<close> A class is a record of its members, of those locals of its thread that live across iterations
  and of its output signals, which keep their value until they are written. One iteration of a SystemC thread, from
  one \<open>wait\<close> to the next, is a function from the values read from the inputs and the state to the outputs and the next
  state; \<open>Machine\<close> runs such functions over a list of inputs. A FIFO that is polled is an optional input, a write to
  one an optional output; a blocking write to a full FIFO only delays the thread, so it does not appear. A failed
  assertion, an uncaught exception, an exit, an access out of bounds or through a dangling pointer, undefined
  arithmetic and a loop that does not end are the values \<open>Inl\<close> of \<open>sim_error\<close> (\<open>SimD_Prelude\<close>); a property that a
  run equals \<open>Inr\<close> of something states that none of them happens. What a theorem says of several components holds
  for their composition clock edge by clock edge: on an edge every component reads what the others held before it, except
  where the source waits a delta cycle first, which the theory of the component says.

  \<^bold>\<open>Integers.\<close> Data and addresses are \<open>32 word\<close>. \<open>sc_uint<n>\<close> and \<open>sc_int<n>\<close> are integers that \<open>sc_uint n\<close> and
  \<open>sc_int n\<close> truncate at every assignment, as SystemC does. \<open>unsigned long\<close> is a natural number modulo \<open>2 ^ 64\<close>. Overflow of
  signed words, which C++ leaves undefined, is taken to wrap. Template parameters are arguments or fields of a
  configuration record and the lemmas are for all admissible values; \<open>ddr4_cfg\<close> holds the defaults of
  \<open>mc/control/Backend.h\<close>.

  \<^bold>\<open>Theories.\<close>

  \<^item> \<open>SimD_Prelude\<close>, \<open>Constmath\<close> (\<open>util/constmath.h\<close>), \<open>Machine\<close>, \<open>Store\<close>, \<open>Loop_Res\<close>: truncation, results, loops over lanes,
    the two interfaces the components are proved against (\<open>simulation\<close>: a machine implements a specification over
    every run, with the run lemmas; \<open>indexed_store\<close>: a memory addressed by an index), and loops of unknown length.
    \<open>Ringbuffer\<close> (\<open>util/Ringbuffer.h\<close>) extends \<open>simulation\<close> to the interface of a delay line.
  \<^item> \<open>Registers\<close>: the shared data model (\<open>model/Register.h\<close>, \<open>reg_read_req.h\<close>, \<open>request_target.h\<close>, \<open>Buffer.h\<close>,
    \<open>workgroup_width.h\<close>, \<open>stride_descriptor.h\<close>).
  \<^item> Front end. \<open>Local_Memories\<close> is the instruction memory and the translation tables (\<open>compute/control/IMem.h\<close>,
    \<open>BufferToPhysXlat.h\<close>); \<open>Work_Sched\<close> is \<open>compute/model/work.h\<close> and \<open>compute/control/WorkScheduler.h\<close>; \<open>Launch\<close> connects
    them. The kernel leaves the scheduler over \<open>sc_signal\<close>s, which drop a value equal to the one they hold
    (\<open>instr_sig\<close>, \<open>buffer_write\<close>); the operators compare neither the register files of operands nor the dimensions
    of buffers. The theorems give the order and number of the work-groups, that the end is signalled, and
    what the memories hold by then.
  \<^item> Register file (\<open>compute/control/RegFile.h\<close>). \<open>Hazard_Detect\<close> has the two hazard detectors
    (\<open>RegHazardDetect*.h\<close>), \<open>Reg_File\<close> the side of the pipeline, \<open>Reg_Store\<close> that of the memories. \<open>Thread_Ids\<close> proves that
    the threads of the index space and the lanes of the work-groups correspond one to one; \<open>Reg_Props\<close> that registers
    keep what is written under the masks, that the flags of the control flow follow the masks, and that transfers
    move the words of the enabled lanes. The arrays of registers are total functions: the source
    checks no bound there, \<open>store_off_in_array\<close> gives the condition under which the index is in the array.
  \<^item> Control state of a slot. \<open>Ctrl_Stack\<close> (\<open>compute/control/CtrlStack.h\<close>) refines two stacks in one array,
    \<open>Score_Board\<close> (\<open>Scoreboard.h\<close>) a bounded queue of the registers that are still to be written.
  \<^item> Instruction set (\<open>isa/model\<close>). \<open>Isa_Op\<close>, \<open>Isa_Operand\<close>, \<open>Isa_Instruction\<close> have the operations with their table of
    permitted operands, operands, branch metadata, construction, validation, comparison; \<open>Isa_Props\<close> the queries the
    other parts rely on.
  \<^item> Pipeline (\<open>compute/control\<close>). \<open>Instr_Fetch\<close> is \<open>IFetch.h\<close>; \<open>Decode\<close>, \<open>Decode_1S\<close>, \<open>Decode_3S\<close> are the two
    decoders and their base class; \<open>Exec_State\<close>, \<open>Exec_Alu\<close>, \<open>Exec_Mem\<close>, \<open>Exec_Stage\<close> are \<open>IExecute.h\<close>: stages, arithmetic,
    loads and stores, and the cycle of the thread. \<open>Exec_Aborts\<close> says which instructions stop it, \<open>Exec_Pipe\<close> and
    \<open>Exec_Cycle\<close> see it as a list of stages in flight, \<open>Exec_Jump\<close> and \<open>Exec_Tickets\<close> treat what a jump squashes and the order
    of the transfers, \<open>Exec_Sibfind\<close> and \<open>Exec_Tile\<close> an operation each. \<open>Simd_Cluster\<close> is the thread of
    \<open>SimdCluster.h\<close> that fills, blocks and retires the two slots.
  \<^item> Memory controller (\<open>mc\<close>). \<open>Mc_Model\<close> has the data between its stages. \<open>Stride_Seq\<close> is \<open>StrideSequencer.h\<close>;
    \<open>Stride_Cycle\<close> puts one of its cycles in closed form, \<open>Stride_Props\<close> proves what it emits. \<open>Mc_CmdGen\<close>
    is \<open>CmdGen_DDR4.h\<close>, \<open>Cmd_Protocol\<close> the protocol of the banks it keeps to, \<open>Mc_Frontend\<close> both together. \<open>Mc_CmdArb\<close> is
    \<open>CmdArb_DDR4.h\<close>, with \<open>Arb_Props\<close> and \<open>Arb_Bus\<close> for one cycle and for runs. \<open>Mc_Storage\<close> is \<open>Storage.h\<close> over an explicit heap,
    \<open>Ring_List\<close> and \<open>Storage_Props\<close> prove that it is a map that grows. \<open>Mc_DQ\<close> is \<open>DQ.h\<close>, followed through a burst in
    \<open>DQ_Props\<close>, \<open>DQ_Read\<close> and \<open>DQ_Write\<close>.
  \<^item> Scratchpads (\<open>sp\<close>). \<open>Sp_Array\<close> is \<open>StorageArray.h\<close> with its banks, \<open>Sp_Stride\<close> the sequencer, \<open>Sp_System\<close> the data path
    and the composition of \<open>Scratchpad.h\<close> with the storage port of the register file of \<open>Reg_Store\<close>.
  \<^item> Program analysis. \<open>Prog_Dag\<close> is \<open>isa/model/DAG.cpp\<close> and \<open>criticalPath\<close> of \<open>isa/analysis/TimingDAG.cpp\<close>, \<open>Critical_Path\<close>
    proves that it ends with a most expensive path, \<open>Phase_List\<close> is \<open>isa/model/ProgramPhaseList.cpp\<close>, \<open>Wcet\<close>
    compares its bound with all schedules of two work-groups that take turns.

  \<^bold>\<open>Properties.\<close> C1 to C3 are about the launch of a kernel, C4 to C6 and C15 to C24 about the memory controller, C7 to C9
  about scoreboard and control stack, C10 about the time bound, C11 to C14 about the register file, C25 to C32 about
  instruction set, fetch and execute stage, C33 to C34 about the slots of the cluster, C35 to C37 about the
  decoders, C38 to C40 about the scratchpads. Each states its limits in the text before it; several of the
  limits are there because the code does something else beyond them, which a lemma next to the property shows
  (\<open>stride_line_lost\<close>, \<open>top_page_left_open\<close>, \<open>equal_address_keeps_dims\<close>, \<open>tile_outside\<close>, \<open>idxit_empty_hangs\<close>), and
  C24, C30, C31, C36 and C40 are such behaviours themselves. Every property with hypotheses has a witness that
  applies it to a concrete case.

  \<^bold>\<open>Loops.\<close> Loops over lanes, columns, banks and words are bounded recursions (\<open>for_upto\<close>). The walk over the ring of the
  scoreboard (\<open>ring_walk\<close>), over the list of a hash bucket (\<open>find_row\<close>, \<open>free_list\<close>) and the loops of the program analysis
  (\<open>whileE\<close>) are partial functions without fuel: not to end is a value, and the theorems prove that
  they do end. That a thread finishes its work is stated with a number of cycles after which it has.

  \<^bold>\<open>Parameters.\<close> What is not in the repository, or is left open by the language, is an argument: the timing of the DRAM
  (record \<open>ramulator\<close>, of which nothing is assumed), the estimate of the time to load a kernel (\<open>load_cycles\<close>, of which
  nothing is assumed), the arithmetic of floats that rounds (record \<open>fpu\<close>), the contents of fresh memory and of uninitialised
  members, and \<open>inflate_refresh\<close> in the bounds of the analysis.

  \<^bold>\<open>Not modelled.\<close> The assembler (\<open>util/parse.cpp\<close> and the parsing and printing functions of \<open>isa/model\<close>) and the
  command line and CSV files are input and output. The construction of blocks and of the control-flow graph and the
  simulations of cycles and of DRAM accesses (\<open>isa/analysis/ControlFlow.cpp\<close>, \<open>CycleSim.cpp\<close>, \<open>DRAMSim.cpp\<close>, \<open>BB.cpp\<close>) work on
  the parsed text and on containers of shared raw pointers; their result, the timing graph, is the input of \<open>Prog_Dag\<close>. The
  constructors that connect ports (\<open>mc/control/Backend.h\<close>, the elaboration of \<open>SimdCluster.h\<close>) appear only as the
  compositions above; not all components are composed, so no theorem follows an instruction through the whole
  processor. The tables of \<open>util/ddr4_lid.cpp\<close>, the stride generators, test benches, tracing, statistics, energy model
  and debug output are left out.
\<close>

end
